(* ===== verification/Js_Prelude.thy ===== *)
theory Js_Prelude imports Main "HOL-Library.Multiset" begin

text \<open>
  What every component of the development shares: the values a JavaScript program passes
  around, the array operations the code calls (findIndex, splice, sort, Set de-duplication), and
  the generic lemmas about them.  Nothing in this theory is specific to one component.

  Conventions used everywhere.
  \<^item> A TypeScript \<open>number\<close> that the code uses as an identifier, a count, an index or a time in
    milliseconds is an \<open>int\<close>; where \<open>NaN\<close> can arise it is a value of \<open>js_num\<close>.
  \<^item> A \<open>string\<close> is a list of characters (code units up to 255).
  \<^item> \<open>undefined\<close> and \<open>null\<close> are \<open>None\<close>; where the code tells an absent property from a null one
    (object spread does) the type is \<open>'a option option\<close>.
  \<^item> Data that the code only copies (rich text bodies, JSON configuration) is a \<open>js_val\<close>.
\<close>

section \<open>Collections of facts\<close>

named_theorems store_defs \<open>definitions of the operations of a store\<close>
named_theorems frame \<open>which fields an operation leaves alone\<close>
named_theorems inv_intro \<open>an operation keeps an invariant\<close>

section \<open>Values\<close>

datatype js_num = NaN | Num int

datatype js_val =
    JNull
  | JBool bool
  | JNum string
  | JStr string
  | JArr "js_val list"
  | JObj "(string \<times> js_val) list"

datatype js_error = TypeError | ApiFailure string

type_synonym props = "(string \<times> js_val) list"

text \<open>Strict equality of numbers: \<open>NaN\<close> equals nothing.\<close>

fun num_eq :: "js_num \<Rightarrow> js_num \<Rightarrow> bool" where
  "num_eq (Num a) (Num b) = (a = b)"
| "num_eq _ _ = False"

lemma num_eq_iff: "num_eq x y \<longleftrightarrow> (\<exists>n. x = Num n \<and> y = Num n)"
  by (cases x; cases y) auto

text \<open>\<open>Number.MAX_SAFE_INTEGER\<close> and \<open>Number.isSafeInteger\<close> on integers.\<close>

definition max_safe_integer :: int where
  "max_safe_integer = 9007199254740991"

definition is_safe_integer :: "int \<Rightarrow> bool" where
  "is_safe_integer n \<longleftrightarrow> - max_safe_integer \<le> n \<and> n \<le> max_safe_integer"

text \<open>The nullish operator \<open>x ?? d\<close>.\<close>

definition nullish :: "'a option \<Rightarrow> 'a \<Rightarrow> 'a" where
  "nullish x d = (case x of None \<Rightarrow> d | Some v \<Rightarrow> v)"

lemma nullish_simps [simp]: "nullish None d = d" "nullish (Some v) d = v"
  by (simp_all add: nullish_def)

text \<open>\<open>x ?? y\<close> where both may be absent, and the property override of an object spread
  \<open>{...old, ...upd}\<close> for one property.\<close>

definition orelse :: "'a option \<Rightarrow> 'a option \<Rightarrow> 'a option" where
  "orelse x y = (case x of None \<Rightarrow> y | Some v \<Rightarrow> Some v)"

lemma orelse_simps [simp]:
  "orelse None y = y" "orelse (Some v) y = Some v" "orelse x None = x" "orelse x x = x"
  by (cases x; simp add: orelse_def)+

lemma orelse_eq_None [simp]: "orelse x y = None \<longleftrightarrow> x = None \<and> y = None"
  by (cases x) simp_all

lemma orelse_assoc: "orelse (orelse x y) z = orelse x (orelse y z)"
  by (cases x) simp_all

section \<open>Arrays\<close>

text \<open>\<open>findIndex\<close>: \<open>None\<close> is \<open>-1\<close>.\<close>

fun find_index :: "('a \<Rightarrow> bool) \<Rightarrow> 'a list \<Rightarrow> nat option" where
  "find_index P [] = None"
| "find_index P (x # xs) = (if P x then Some 0 else map_option Suc (find_index P xs))"

lemma find_index_None: "find_index P xs = None \<longleftrightarrow> (\<forall>x \<in> set xs. \<not> P x)"
  by (induction xs) auto

lemma find_index_Some:
  "find_index P xs = Some i \<Longrightarrow> i < length xs \<and> P (xs ! i) \<and> (\<forall>j < i. \<not> P (xs ! j))"
proof (induction xs arbitrary: i)
  case (Cons x xs)
  then show ?case
    by (auto simp: less_Suc_eq_0_disj nth_Cons' split: if_splits)
qed simp

lemma find_Some_iff_ex: "(\<exists>x. List.find P xs = Some x) \<longleftrightarrow> (\<exists>x \<in> set xs. P x)"
  by (induction xs) auto

lemma find_Some_D: "List.find P xs = Some x \<Longrightarrow> x \<in> set xs \<and> P x"
  by (induction xs) (auto split: if_splits)

lemma find_None_iff: "List.find P xs = None \<longleftrightarrow> (\<forall>x \<in> set xs. \<not> P x)"
  by (induction xs) auto

text \<open>The array update \<open>xs.map(x => p(x) ? f(x) : x)\<close>.\<close>

definition map_where :: "('a \<Rightarrow> bool) \<Rightarrow> ('a \<Rightarrow> 'a) \<Rightarrow> 'a list \<Rightarrow> 'a list" where
  "map_where p f xs = map (\<lambda>x. if p x then f x else x) xs"

lemma map_where_simps [simp]:
  "map_where p f [] = []"
  "map_where p f (x # xs) = (if p x then f x else x) # map_where p f xs"
  "length (map_where p f xs) = length xs"
  "map_where p f (xs @ ys) = map_where p f xs @ map_where p f ys"
  by (simp_all add: map_where_def)

lemma map_where_id: "(\<And>x. x \<in> set xs \<Longrightarrow> p x \<Longrightarrow> f x = x) \<Longrightarrow> map_where p f xs = xs"
  by (induction xs) auto

lemma map_map_where: "(\<And>x. p x \<Longrightarrow> g (f x) = g x) \<Longrightarrow> map g (map_where p f xs) = map g xs"
  by (induction xs) auto

lemma map_where_none: "(\<And>x. x \<in> set xs \<Longrightarrow> \<not> p x) \<Longrightarrow> map_where p f xs = xs"
  by (induction xs) auto

lemma map_where_map_where:
  "(\<And>x. p x \<Longrightarrow> p (f x)) \<Longrightarrow> map_where p g (map_where p f xs) = map_where p (\<lambda>x. g (f x)) xs"
  by (induction xs) auto

text \<open>\<open>[...new Set(xs)]\<close>: first occurrences, in order.\<close>

fun set_dedup :: "'a list \<Rightarrow> 'a list" where
  "set_dedup [] = []"
| "set_dedup (x # xs) = x # filter (\<lambda>y. y \<noteq> x) (set_dedup xs)"

lemma set_set_dedup [simp]: "set (set_dedup xs) = set xs"
  by (induction xs) auto

lemma distinct_set_dedup [simp]: "distinct (set_dedup xs)"
  by (induction xs) auto

lemma set_dedup_distinct: "distinct xs \<Longrightarrow> set_dedup xs = xs"
  by (induction xs) (auto intro!: filter_True)

lemma set_dedup_idem [simp]: "set_dedup (set_dedup xs) = set_dedup xs"
  by (simp add: set_dedup_distinct)

text \<open>\<open>xs.splice(i, 0, x)\<close> and \<open>xs.splice(i, 1)\<close> for an index inside the array.\<close>

definition splice_insert :: "nat \<Rightarrow> 'a \<Rightarrow> 'a list \<Rightarrow> 'a list" where
  "splice_insert i x xs = take i xs @ x # drop i xs"

definition splice_remove :: "nat \<Rightarrow> 'a list \<Rightarrow> 'a list" where
  "splice_remove i xs = take i xs @ drop (Suc i) xs"

lemma mset_splice_insert [simp]: "mset (splice_insert i x xs) = add_mset x (mset xs)"
  using append_take_drop_id [of i xs] by (metis mset_append mset.simps(2) splice_insert_def union_mset_add_mset_right)

lemma mset_splice_remove: "i < length xs \<Longrightarrow> add_mset (xs ! i) (mset (splice_remove i xs)) = mset xs"
  by (metis id_take_nth_drop mset_append mset.simps(2) splice_remove_def union_mset_add_mset_right)

lemma length_splice_insert [simp]: "length (splice_insert i x xs) = Suc (length xs)"
  by (simp add: splice_insert_def)

lemma splice_remove_insert: "i \<le> length xs \<Longrightarrow> splice_remove i (splice_insert i x xs) = xs"
  by (simp add: splice_remove_def splice_insert_def min_def)

text \<open>A separator that does not occur before it determines the two parts.\<close>

lemma before_separator: "c \<notin> set a \<Longrightarrow> c \<notin> set b \<Longrightarrow> a @ c # x = b @ c # y \<longleftrightarrow> a = b \<and> x = y"
proof (induction a arbitrary: b)
  case (Cons d a)
  then show ?case by (cases b) auto
qed (auto simp: append_eq_Cons_conv Cons_eq_append_conv)

section \<open>Sorting with a comparator\<close>

text \<open>
  \<open>Array.prototype.sort\<close> is stable.  A comparator that is a total preorder has exactly one stable
  result, which this insertion sort computes; the result of an inconsistent comparator is left to
  the engine by the language, and is here the one an insertion sort gives.
\<close>

fun insort_cmp :: "('a \<Rightarrow> 'a \<Rightarrow> int) \<Rightarrow> 'a \<Rightarrow> 'a list \<Rightarrow> 'a list" where
  "insort_cmp cmp x [] = [x]"
| "insort_cmp cmp x (y # ys) = (if cmp x y \<le> 0 then x # y # ys else y # insort_cmp cmp x ys)"

definition js_sort :: "('a \<Rightarrow> 'a \<Rightarrow> int) \<Rightarrow> 'a list \<Rightarrow> 'a list" where
  "js_sort cmp xs = foldr (insort_cmp cmp) xs []"

lemma js_sort_simps [simp]:
  "js_sort cmp [] = []"
  "js_sort cmp (x # xs) = insort_cmp cmp x (js_sort cmp xs)"
  by (simp_all add: js_sort_def)

lemma mset_insort_cmp [simp]: "mset (insort_cmp cmp x xs) = add_mset x (mset xs)"
  by (induction xs) auto

lemma mset_js_sort [simp]: "mset (js_sort cmp xs) = mset xs"
  by (induction xs) auto

lemma set_js_sort [simp]: "set (js_sort cmp xs) = set xs"
  by (metis mset_js_sort set_mset_mset)

lemma length_js_sort [simp]: "length (js_sort cmp xs) = length xs"
  by (metis mset_js_sort size_mset)

lemma set_insort_cmp [simp]: "set (insort_cmp cmp x xs) = insert x (set xs)"
  by (induction xs) auto

text \<open>
  The contract a comparator callback has to keep, on the elements it may meet, for the sort to mean
  anything.
\<close>

locale comparator =
  fixes dom :: "'a set"
    and cmp :: "'a \<Rightarrow> 'a \<Rightarrow> int"
  assumes total: "a \<in> dom \<Longrightarrow> b \<in> dom \<Longrightarrow> cmp a b \<le> 0 \<or> cmp b a \<le> 0"
    and trans: "a \<in> dom \<Longrightarrow> b \<in> dom \<Longrightarrow> c \<in> dom \<Longrightarrow>
      cmp a b \<le> 0 \<Longrightarrow> cmp b c \<le> 0 \<Longrightarrow> cmp a c \<le> 0"
begin

lemma insort_sorted:
  "x \<in> dom \<Longrightarrow> set xs \<subseteq> dom \<Longrightarrow> sorted_wrt (\<lambda>a b. cmp a b \<le> 0) xs \<Longrightarrow>
   sorted_wrt (\<lambda>a b. cmp a b \<le> 0) (insort_cmp cmp x xs)"
proof (induction xs)
  case (Cons y ys)
  show ?case
  proof (cases "cmp x y \<le> 0")
    case True
    have "cmp x z \<le> 0" if "z \<in> set ys" for z
      using True Cons.prems that by (auto intro: trans [of x y z])
    with True Cons.prems show ?thesis by simp
  next
    case False
    with Cons.prems total have "cmp y x \<le> 0" by auto
    with False Cons show ?thesis by simp
  qed
qed simp

lemma sort_sorted: "set xs \<subseteq> dom \<Longrightarrow> sorted_wrt (\<lambda>a b. cmp a b \<le> 0) (js_sort cmp xs)"
  by (induction xs) (auto intro!: insort_sorted)

lemma insort_least: "(\<And>y. y \<in> set xs \<Longrightarrow> cmp x y \<le> 0) \<Longrightarrow> insort_cmp cmp x xs = x # xs"
  by (cases xs) auto

lemma sort_id: "sorted_wrt (\<lambda>a b. cmp a b \<le> 0) xs \<Longrightarrow> js_sort cmp xs = xs"
  by (induction xs) (auto simp: insort_least)

lemma sort_idem: "set xs \<subseteq> dom \<Longrightarrow> js_sort cmp (js_sort cmp xs) = js_sort cmp xs"
  by (rule sort_id) (rule sort_sorted)

lemma filter_insort:
  "x \<in> dom \<Longrightarrow> z \<in> dom \<Longrightarrow> set xs \<subseteq> dom \<Longrightarrow>
   filter (\<lambda>y. cmp y z \<le> 0 \<and> cmp z y \<le> 0) (insort_cmp cmp x xs) =
   (if cmp x z \<le> 0 \<and> cmp z x \<le> 0 then [x] else [])
     @ filter (\<lambda>y. cmp y z \<le> 0 \<and> cmp z y \<le> 0) xs"
proof (induction xs)
  case (Cons y ys)
  then have "cmp x y \<le> 0" if "cmp x z \<le> 0" and "cmp z y \<le> 0"
    using that by (auto intro: trans [of x z y])
  with Cons show ?case by auto
qed simp

lemma sort_stable:
  "z \<in> dom \<Longrightarrow> set xs \<subseteq> dom \<Longrightarrow>
   filter (\<lambda>y. cmp y z \<le> 0 \<and> cmp z y \<le> 0) (js_sort cmp xs)
   = filter (\<lambda>y. cmp y z \<le> 0 \<and> cmp z y \<le> 0) xs"
  by (induction xs) (simp_all add: filter_insort)

end

text \<open>
  The comparator \<open>(a, b) => f(a) - f(b)\<close> keeps the contract, whatever \<open>f\<close> is, and sorting with it is
  the library's stable sort by key.
\<close>

lemma comparator_diff: "comparator UNIV (\<lambda>a b. f a - f b :: int)"
  by unfold_locales auto

lemma insort_cmp_diff: "insort_cmp (\<lambda>a b. f a - f b) x xs = insort_key f x xs"
  by (induction xs) auto

lemma js_sort_diff: "js_sort (\<lambda>a b. f a - f b) xs = sort_key f xs"
  by (induction xs) (simp_all add: insort_cmp_diff)

lemma js_sort_cong:
  "(\<And>a b. a \<in> set xs \<Longrightarrow> b \<in> set xs \<Longrightarrow> cmp a b = cmp' a b) \<Longrightarrow> js_sort cmp xs = js_sort cmp' xs"
proof (induction xs)
  case (Cons x xs)
  have ins: "insort_cmp cmp x ys = insort_cmp cmp' x ys" if "set ys \<subseteq> set xs" for ys
    using that Cons.prems by (induction ys) auto
  from Cons have "js_sort cmp xs = js_sort cmp' xs" by simp
  then show ?case by (simp add: ins)
qed simp

end
