(* ===== verification/Js_Text.thy ===== *)
theory Js_Text imports Js_Prelude "HOL-Library.Word" begin

text \<open>
  The string and number conversions of JavaScript that the code calls: decimal printing
  (\<open>String(n)\<close>, template literals), \<open>Number(s)\<close> and \<open>parseInt(s)\<close> on strings, \<open>trim\<close>, the
  millisecond value of an ISO 8601 timestamp (\<open>new Date(s).getTime()\<close>), and 32-bit
  wrap-around (\<open>| 0\<close>).

  Bounds of the model.  \<open>Number\<close> is modelled on literals that denote integers (decimal with a
  sign, and the \<open>0x\<close>, \<open>0o\<close>, \<open>0b\<close> forms); a literal with a point or an exponent gives
  \<open>NaN\<close> here.  A timestamp without an offset is read in UTC, and a string outside the ISO 8601
  format of the language gives \<open>NaN\<close> (its meaning is left to the engine).
\<close>

section \<open>Characters\<close>

definition code_of :: "char \<Rightarrow> nat" where
  "code_of c = of_char c"

definition is_digit :: "char \<Rightarrow> bool" where
  "is_digit c \<longleftrightarrow> 48 \<le> code_of c \<and> code_of c \<le> 57"

definition digit_val :: "char \<Rightarrow> nat" where
  "digit_val c = code_of c - 48"

definition digit_char :: "nat \<Rightarrow> char" where
  "digit_char d = char_of (48 + d)"

definition is_space :: "char \<Rightarrow> bool" where
  "is_space c \<longleftrightarrow> code_of c \<in> {9, 10, 11, 12, 13, 32, 160}"

lemma code_of_digit_char [simp]: "d < 10 \<Longrightarrow> code_of (digit_char d) = 48 + d"
  by (simp add: code_of_def digit_char_def)

lemma is_digit_digit_char [simp]: "d < 10 \<Longrightarrow> is_digit (digit_char d)"
  by (simp add: is_digit_def)

lemma digit_val_digit_char [simp]: "d < 10 \<Longrightarrow> digit_val (digit_char d) = d"
  by (simp add: digit_val_def)

lemma digit_char_digit_val [simp]: "is_digit c \<Longrightarrow> digit_char (digit_val c) = c"
  by (simp add: is_digit_def digit_val_def digit_char_def code_of_def)

lemma digit_val_less [simp]: "is_digit c \<Longrightarrow> digit_val c < 10"
  by (auto simp: is_digit_def digit_val_def)

section \<open>Trimming\<close>

definition trim_start :: "string \<Rightarrow> string" where
  "trim_start s = dropWhile is_space s"

definition trim_end :: "string \<Rightarrow> string" where
  "trim_end s = rev (dropWhile is_space (rev s))"

definition js_trim :: "string \<Rightarrow> string" where
  "js_trim s = trim_end (trim_start s)"

lemma js_trim_Nil [simp]: "js_trim [] = []"
  by (simp add: js_trim_def trim_start_def trim_end_def)

lemma js_trim_id:
  assumes "s \<noteq> []" and "\<not> is_space (hd s)" and "\<not> is_space (last s)"
  shows "js_trim s = s"
proof -
  have "dropWhile is_space s = s" using assms(1,2) by (cases s) auto
  moreover have "dropWhile is_space (rev s) = rev s"
    using assms(1,3) by (cases "rev s") (auto simp flip: hd_rev)
  ultimately show ?thesis by (simp add: js_trim_def trim_start_def trim_end_def)
qed

lemma last_dropWhile: "dropWhile P s \<noteq> [] \<Longrightarrow> last (dropWhile P s) = last s"
  by (induction s) (auto split: if_splits)

lemma js_trim_ends:
  assumes "js_trim s \<noteq> []"
  shows "\<not> is_space (hd (js_trim s))" "\<not> is_space (last (js_trim s))"
proof -
  let ?r = "rev (trim_start s)"
  have ne: "dropWhile is_space ?r \<noteq> []" using assms by (simp add: js_trim_def trim_end_def)
  then show "\<not> is_space (last (js_trim s))"
    by (simp add: js_trim_def trim_end_def last_rev hd_dropWhile)
  have ts: "trim_start s \<noteq> []" using ne by auto
  then have "\<not> is_space (hd (trim_start s))" by (simp add: trim_start_def hd_dropWhile)
  moreover have "hd (js_trim s) = hd (trim_start s)"
    using last_dropWhile [OF ne] ts by (simp add: js_trim_def trim_end_def hd_rev last_rev)
  ultimately show "\<not> is_space (hd (js_trim s))" by simp
qed

lemma js_trim_idem [simp]: "js_trim (js_trim s) = js_trim s"
  using js_trim_ends [of s] by (cases "js_trim s = []") (simp_all add: js_trim_id)

lemma js_trim_Nil_iff: "js_trim s = [] \<longleftrightarrow> (\<forall>c \<in> set s. is_space c)"
  by (auto simp: js_trim_def trim_start_def trim_end_def dropWhile_eq_Nil_conv
      dest: set_dropWhileD)
     (metis dropWhile_eq_Nil_conv hd_dropWhile list.set_sel(1))

section \<open>Decimal notation\<close>

fun nat_dec :: "nat \<Rightarrow> string" where
  "nat_dec n = (if n < 10 then [digit_char n] else nat_dec (n div 10) @ [digit_char (n mod 10)])"

declare nat_dec.simps [simp del]

definition int_dec :: "int \<Rightarrow> string" where
  "int_dec n = (if n < 0 then CHR ''-'' # nat_dec (nat (- n)) else nat_dec (nat n))"

definition dec_val :: "string \<Rightarrow> nat" where
  "dec_val s = foldl (\<lambda>acc c. 10 * acc + digit_val c) 0 s"

definition all_digits :: "string \<Rightarrow> bool" where
  "all_digits s \<longleftrightarrow> s \<noteq> [] \<and> list_all is_digit s"

lemma dec_val_snoc [simp]: "dec_val (s @ [c]) = 10 * dec_val s + digit_val c"
  by (simp add: dec_val_def)

lemma dec_val_Nil [simp]: "dec_val [] = 0"
  by (simp add: dec_val_def)

lemma nat_dec_digits: "all_digits (nat_dec n)"
proof (induction n rule: nat_dec.induct)
  case (1 n)
  then show ?case
    by (subst nat_dec.simps) (auto simp: all_digits_def)
qed

lemma nat_dec_nonempty [simp]: "nat_dec n \<noteq> []"
  using nat_dec_digits by (auto simp: all_digits_def)

lemma dec_val_nat_dec [simp]: "dec_val (nat_dec n) = n"
proof (induction n rule: nat_dec.induct)
  case (1 n)
  show ?case
  proof (cases "n < 10")
    case True
    then show ?thesis by (subst nat_dec.simps) (simp add: dec_val_def)
  next
    case False
    with 1 show ?thesis by (subst nat_dec.simps) simp
  qed
qed

lemma nat_dec_inject [simp]: "nat_dec m = nat_dec n \<longleftrightarrow> m = n"
  by (metis dec_val_nat_dec)

text \<open>A digit string without a leading zero is the decimal notation of its value.\<close>

lemma code_of_inject: "code_of c = code_of d \<longleftrightarrow> c = d"
  by (simp add: code_of_def)

lemma digit_val_eq_0: "is_digit c \<Longrightarrow> digit_val c = 0 \<longleftrightarrow> c = CHR ''0''"
  using code_of_inject [of c "CHR ''0''"] by (auto simp: is_digit_def digit_val_def code_of_def)

lemma dec_val_pos: "s \<noteq> [] \<Longrightarrow> list_all is_digit s \<Longrightarrow> hd s \<noteq> CHR ''0'' \<Longrightarrow> 0 < dec_val s"
proof (induction s rule: rev_induct)
  case (snoc c s)
  then show ?case
    by (cases "s = []") (auto simp: dec_val_snoc [of "[]", simplified] simp flip: neq0_conv digit_val_eq_0)
qed simp

definition canonical_dec :: "string \<Rightarrow> bool" where
  "canonical_dec s \<longleftrightarrow> all_digits s \<and> (hd s \<noteq> CHR ''0'' \<or> length s = 1)"

lemma nat_dec_dec_val: "canonical_dec s \<Longrightarrow> nat_dec (dec_val s) = s"
proof (induction s rule: rev_induct)
  case (snoc c s)
  from snoc.prems have c: "is_digit c" by (simp add: canonical_dec_def all_digits_def)
  show ?case
  proof (cases "s = []")
    case True
    with c show ?thesis
      by (subst nat_dec.simps) (simp add: dec_val_snoc [of "[]", simplified])
  next
    case False
    with snoc.prems have s: "canonical_dec s" "hd s \<noteq> CHR ''0''" "list_all is_digit s"
      by (auto simp: canonical_dec_def all_digits_def)
    with False have "0 < dec_val s" by (simp add: dec_val_pos)
    moreover have "digit_val c < 10" using c by simp
    ultimately show ?thesis using snoc.IH s(1) c
      by (subst nat_dec.simps) simp
  qed
qed (simp add: canonical_dec_def all_digits_def)

lemma canonical_nat_dec [simp]: "canonical_dec (nat_dec n)"
proof (induction n rule: nat_dec.induct)
  case (1 n)
  show ?case
  proof (cases "n < 10")
    case True
    then show ?thesis by (subst nat_dec.simps) (simp add: canonical_dec_def all_digits_def)
  next
    case False
    have "hd (nat_dec (n div 10)) \<noteq> CHR ''0''"
    proof
      assume zero: "hd (nat_dec (n div 10)) = CHR ''0''"
      with 1 False have "nat_dec (n div 10) = [CHR ''0'']"
        by (cases "nat_dec (n div 10)") (auto simp: canonical_dec_def)
      then have "dec_val (nat_dec (n div 10)) = 0"
        by (simp add: dec_val_def digit_val_def code_of_def)
      with False show False by simp
    qed
    with False nat_dec_digits [of n] show ?thesis
      by (subst (asm) nat_dec.simps, subst nat_dec.simps) (simp add: canonical_dec_def)
  qed
qed

lemma nat_dec_not_minus: "nat_dec n \<noteq> CHR ''-'' # s"
proof
  assume "nat_dec n = CHR ''-'' # s"
  with nat_dec_digits [of n] have "is_digit (CHR ''-'')" by (simp add: all_digits_def)
  then show False by (simp add: is_digit_def code_of_def)
qed

lemma int_dec_inject [simp]: "int_dec m = int_dec n \<longleftrightarrow> m = n"
  by (auto simp: int_dec_def nat_dec_not_minus nat_dec_not_minus [symmetric] split: if_splits)

section \<open>Number and parseInt on strings\<close>

definition radix_val :: "nat \<Rightarrow> string \<Rightarrow> nat option" where
  "radix_val b s =
     (let dv = (\<lambda>c. if is_digit c then digit_val c
                    else if 97 \<le> code_of c \<and> code_of c \<le> 122 then code_of c - 87
                    else if 65 \<le> code_of c \<and> code_of c \<le> 90 then code_of c - 55 else b)
      in if s \<noteq> [] \<and> list_all (\<lambda>c. dv c < b) s
         then Some (foldl (\<lambda>acc c. b * acc + dv c) 0 s) else None)"

fun signed :: "string \<Rightarrow> bool \<times> string" where
  "signed (c # s) = (if c = CHR ''-'' then (True, s) else if c = CHR ''+'' then (False, s)
                     else (False, c # s))"
| "signed [] = (False, [])"

fun js_number_trimmed :: "string \<Rightarrow> js_num" where
  "js_number_trimmed [] = Num 0"
| "js_number_trimmed (c # d # s) =
     (let radix = (if c \<noteq> CHR ''0'' then None
                   else if d \<in> {CHR ''x'', CHR ''X''} then Some 16
                   else if d \<in> {CHR ''o'', CHR ''O''} then Some 8
                   else if d \<in> {CHR ''b'', CHR ''B''} then Some 2 else None)
      in case radix of
           Some b \<Rightarrow> (case radix_val b s of None \<Rightarrow> NaN | Some n \<Rightarrow> Num (int n))
         | None \<Rightarrow>
             (case signed (c # d # s) of (neg, t) \<Rightarrow>
                if all_digits t then Num (if neg then - int (dec_val t) else int (dec_val t))
                else NaN))"
| "js_number_trimmed [c] = (if is_digit c then Num (int (digit_val c)) else NaN)"

definition js_number :: "string \<Rightarrow> js_num" where
  "js_number s = js_number_trimmed (js_trim s)"

definition js_parse_int :: "string \<Rightarrow> js_num" where
  "js_parse_int s =
     (case signed (trim_start s) of (neg, t) \<Rightarrow>
        (let ds = takeWhile is_digit t
         in if ds = [] then NaN
            else Num (if neg then - int (dec_val ds) else int (dec_val ds))))"

lemma takeWhile_digits: "all_digits s \<Longrightarrow> takeWhile is_digit s = s"
  by (simp add: all_digits_def list_all_iff takeWhile_eq_all_conv)

lemma digit_not_space: "is_digit c \<Longrightarrow> \<not> is_space c"
  by (auto simp: is_digit_def is_space_def)

lemma signed_digits: "all_digits s \<Longrightarrow> signed s = (False, s)"
  by (cases s) (auto simp: all_digits_def is_digit_def code_of_def)

lemma trim_start_digits: "all_digits s \<Longrightarrow> trim_start s = s"
  by (cases s) (auto simp: all_digits_def trim_start_def digit_not_space)

text \<open>\<open>parseInt(String(n))\<close> is \<open>n\<close>: the round trip the stores rely on when they walk the keys of
  an object that is keyed by numbers.\<close>

lemma parse_int_int_dec [simp]: "js_parse_int (int_dec n) = Num n"
proof (cases "n < 0")
  case True
  have "trim_start (int_dec n) = int_dec n"
    using True by (simp add: int_dec_def trim_start_def is_space_def code_of_def)
  with True show ?thesis
    by (simp add: js_parse_int_def int_dec_def takeWhile_digits nat_dec_digits Let_def)
next
  case False
  then show ?thesis
    by (simp add: js_parse_int_def int_dec_def takeWhile_digits nat_dec_digits Let_def
        trim_start_digits signed_digits)
qed

text \<open>\<open>Number(String(n))\<close> is \<open>n\<close>.\<close>

lemma js_trim_digits: "all_digits s \<Longrightarrow> js_trim s = s"
  by (rule js_trim_id) (auto simp: all_digits_def list_all_iff digit_not_space)

lemma number_digits: "all_digits s \<Longrightarrow> js_number_trimmed s = Num (int (dec_val s))"
proof (cases s rule: js_number_trimmed.cases)
  case (2 c d r)
  assume s: "all_digits s"
  then have "d \<notin> {CHR ''x'', CHR ''X'', CHR ''o'', CHR ''O'', CHR ''b'', CHR ''B''}"
    using 2 by (auto simp: all_digits_def is_digit_def code_of_def)
  with 2 s signed_digits [OF s] show ?thesis by (auto simp: Let_def)
next
  case (3 c)
  assume "all_digits s"
  with 3 show ?thesis by (simp add: all_digits_def dec_val_def)
qed (simp add: all_digits_def)

lemma number_int_dec: "0 \<le> n \<Longrightarrow> js_number (int_dec n) = Num n"
  by (simp add: js_number_def int_dec_def js_trim_digits nat_dec_digits number_digits)

text \<open>Decimal notation contains no colon, which the code uses to separate parts of keys.\<close>

lemma nat_dec_no_colon: "CHR '':'' \<notin> set (nat_dec n)"
  using nat_dec_digits [of n] by (auto simp: all_digits_def list_all_iff is_digit_def code_of_def)

lemma int_dec_no_colon: "CHR '':'' \<notin> set (int_dec n)"
  by (simp add: int_dec_def nat_dec_no_colon)

text \<open>The order of strings, by code unit, in which \<open>sort\<close> without a comparator puts them.\<close>

fun string_le :: "string \<Rightarrow> string \<Rightarrow> bool" where
  "string_le [] _ = True"
| "string_le (_ # _) [] = False"
| "string_le (c # s) (d # t) = (code_of c < code_of d \<or> c = d \<and> string_le s t)"

end
