(* ===== verification/Js_Object.thy ===== *)
theory Js_Object imports Js_Text begin

text \<open>
  Objects used as dictionaries and the built-in \<open>Map\<close>.

  An object's own properties are enumerated with the array-index keys first, in ascending order,
  then the other keys in the order of their creation.  \<open>'v obj\<close> is that enumeration: a list of
  properties, and \<open>obj_set\<close> creates a property at its place or overwrites it where it stands.
  A number used as a key is first printed (\<open>num_key\<close>), so the number 7 and the string \<open>7\<close> are the
  same key.  A \<open>Map\<close> keeps insertion order for every key.

  Both containers keep the contract of the locale \<open>dict\<close>, in which the lemmas that the stores use
  are proved once.
\<close>

section \<open>Property keys\<close>

datatype pkey = Idx nat | Name string

definition max_index :: nat where
  "max_index = 4294967295"

definition str_key :: "string \<Rightarrow> pkey" where
  "str_key s = (if canonical_dec s \<and> dec_val s < max_index then Idx (dec_val s) else Name s)"

definition num_key :: "int \<Rightarrow> pkey" where
  "num_key n = (if 0 \<le> n \<and> n < int max_index then Idx (nat n) else Name (int_dec n))"

lemma canonical_not_minus: "\<not> canonical_dec (CHR ''-'' # s)"
  by (simp add: canonical_dec_def all_digits_def is_digit_def code_of_def)

lemma num_key_str_key: "num_key n = str_key (int_dec n)"
  by (auto simp: num_key_def str_key_def int_dec_def canonical_not_minus)

lemma str_key_inject: "str_key s = str_key t \<longleftrightarrow> s = t"
  by (auto simp: str_key_def split: if_splits) (metis nat_dec_dec_val)

lemma num_key_inject [simp]: "num_key m = num_key n \<longleftrightarrow> m = n"
  by (simp add: num_key_str_key str_key_inject)

text \<open>\<open>NaN\<close> as a key.\<close>

fun js_num_key :: "js_num \<Rightarrow> pkey" where
  "js_num_key NaN = Name ''NaN''"
| "js_num_key (Num n) = num_key n"

section \<open>Identifiers\<close>

text \<open>\<open>number | string\<close>, as the ids of projects and workflows are.\<close>

datatype js_id = NumId int | StrId string

fun id_key :: "js_id \<Rightarrow> pkey" where
  "id_key (NumId n) = num_key n"
| "id_key (StrId s) = str_key s"

text \<open>Truthiness: 0 and the empty string are false.\<close>

fun id_truthy :: "js_id \<Rightarrow> bool" where
  "id_truthy (NumId n) = (n \<noteq> 0)"
| "id_truthy (StrId s) = (s \<noteq> [])"

fun id_number :: "js_id \<Rightarrow> js_num" where
  "id_number (NumId n) = Num n"
| "id_number (StrId s) = js_number s"

text \<open>The printed form of a key, and \<open>parseInt\<close> of it.\<close>

fun key_string :: "pkey \<Rightarrow> string" where
  "key_string (Idx n) = nat_dec n"
| "key_string (Name s) = s"

lemma parse_int_num_key [simp]: "js_parse_int (key_string (num_key n)) = Num n"
proof (cases "0 \<le> n \<and> n < int max_index")
  case True
  then have "nat_dec (nat n) = int_dec n" by (simp add: int_dec_def)
  with True show ?thesis by (simp add: num_key_def)
next
  case False
  then have "num_key n = Name (int_dec n)" by (auto simp: num_key_def)
  then show ?thesis by simp
qed

fun key_before :: "pkey \<Rightarrow> pkey \<Rightarrow> bool" where
  "key_before (Idx a) (Idx b) = (a < b)"
| "key_before (Idx _) (Name _) = True"
| "key_before (Name _) _ = False"

section \<open>The contract of a dictionary\<close>

locale dict =
  fixes get :: "'m \<Rightarrow> 'k \<Rightarrow> 'v option"
    and put :: "'k \<Rightarrow> 'v \<Rightarrow> 'm \<Rightarrow> 'm"
    and del :: "'k \<Rightarrow> 'm \<Rightarrow> 'm"
    and emp :: "'m"
  assumes get_emp: "get emp k = None"
    and get_put: "get (put k v m) k' = (if k' = k then Some v else get m k')"
    and get_del: "get (del k m) k' = (if k' = k then None else get m k')"
begin

lemma get_put_same: "get (put k v m) k = Some v"
  by (simp add: get_put)

lemma get_put_other: "k' \<noteq> k \<Longrightarrow> get (put k v m) k' = get m k'"
  by (simp add: get_put)

lemma get_del_same: "get (del k m) k = None"
  by (simp add: get_del)

lemma get_put_put: "get (put k v (put k w m)) = get (put k v m)"
  by (rule ext) (simp add: get_put)

lemma get_put_commute: "k \<noteq> l \<Longrightarrow> get (put k v (put l w m)) = get (put l w (put k v m))"
  by (rule ext) (simp add: get_put)

lemma get_fold_put_notin:
  "k \<notin> fst ` set kvs \<Longrightarrow> get (fold (\<lambda>kv. put (fst kv) (snd kv)) kvs m) k = get m k"
  by (induction kvs arbitrary: m) (auto simp: get_put)

text \<open>Storing a list of entries: the last entry of a key wins.\<close>

lemma get_fold_put:
  "get (fold (\<lambda>kv. put (fst kv) (snd kv)) kvs m) k =
   (case map_of (rev kvs) k of None \<Rightarrow> get m k | Some v \<Rightarrow> Some v)"
  by (induction kvs arbitrary: m) (auto simp: get_put map_add_def split: option.splits)

text \<open>A value changed only where the key is absent, as "seed if unseen" loops do.\<close>

lemma get_put_if_absent:
  "get (if get m k = None then put k v m else m) k' =
   (if k' = k \<and> get m k = None then Some v else get m k')"
  by (simp add: get_put)

end

section \<open>Objects\<close>

type_synonym 'v obj = "(pkey \<times> 'v) list"

definition obj_get :: "'v obj \<Rightarrow> pkey \<Rightarrow> 'v option" where
  "obj_get ob k = map_of ob k"

fun obj_set :: "pkey \<Rightarrow> 'v \<Rightarrow> 'v obj \<Rightarrow> 'v obj" where
  "obj_set k v [] = [(k, v)]"
| "obj_set k v ((k', v') # r) =
     (if k = k' then (k, v) # r
      else if key_before k k' then (k, v) # (k', v') # r
      else (k', v') # obj_set k v r)"

definition obj_del :: "pkey \<Rightarrow> 'v obj \<Rightarrow> 'v obj" where
  "obj_del k ob = filter (\<lambda>kv. fst kv \<noteq> k) ob"

definition obj_map :: "(pkey \<Rightarrow> 'v \<Rightarrow> 'w) \<Rightarrow> 'v obj \<Rightarrow> 'w obj" where
  "obj_map f ob = map (\<lambda>(k, v). (k, f k v)) ob"

definition obj_keys :: "'v obj \<Rightarrow> pkey list" where
  "obj_keys ob = map fst ob"

definition obj_values :: "'v obj \<Rightarrow> 'v list" where
  "obj_values ob = map snd ob"

lemma obj_get_Nil: "obj_get [] k = None"
  by (simp add: obj_get_def)

lemma obj_get_set: "obj_get (obj_set k v ob) k' = (if k' = k then Some v else obj_get ob k')"
  by (induction k v ob rule: obj_set.induct) (auto simp: obj_get_def)

lemma obj_get_del: "obj_get (obj_del k ob) k' = (if k' = k then None else obj_get ob k')"
  by (induction ob) (auto simp: obj_get_def obj_del_def)

interpretation od: dict obj_get obj_set obj_del "[]"
  by unfold_locales (simp_all add: obj_get_Nil obj_get_set obj_get_del)

declare obj_get_Nil [simp] obj_get_set [simp] obj_get_del [simp]

lemma obj_get_map [simp]: "obj_get (obj_map f ob) k = map_option (f k) (obj_get ob k)"
  by (induction ob) (auto simp: obj_get_def obj_map_def)

lemma obj_keys_map [simp]: "obj_keys (obj_map f ob) = obj_keys ob"
  by (induction ob) (auto simp: obj_keys_def obj_map_def)

lemma obj_map_map: "obj_map f (obj_map g ob) = obj_map (\<lambda>k v. f k (g k v)) ob"
  by (induction ob) (auto simp: obj_map_def)

lemma obj_map_id: "(\<And>k v. (k, v) \<in> set ob \<Longrightarrow> f k v = v) \<Longrightarrow> obj_map f ob = ob"
  by (induction ob) (auto simp: obj_map_def)

lemma obj_get_in: "obj_get ob k = Some v \<Longrightarrow> (k, v) \<in> set ob"
  by (simp add: obj_get_def map_of_SomeD)

lemma set_obj_set: "set (obj_set k v ob) \<subseteq> insert (k, v) (set ob)"
  by (induction k v ob rule: obj_set.induct) auto

lemma set_obj_del: "set (obj_del k ob) \<subseteq> set ob"
  by (auto simp: obj_del_def)

text \<open>A predicate on every value of an object.\<close>

definition obj_all :: "('v \<Rightarrow> bool) \<Rightarrow> 'v obj \<Rightarrow> bool" where
  "obj_all P ob \<longleftrightarrow> (\<forall>kv \<in> set ob. P (snd kv))"

lemma obj_all_Nil [simp]: "obj_all P []"
  by (simp add: obj_all_def)

lemma obj_all_set [inv_intro]: "obj_all P ob \<Longrightarrow> P v \<Longrightarrow> obj_all P (obj_set k v ob)"
  using set_obj_set [of k v ob] by (auto simp: obj_all_def)

lemma obj_all_del [inv_intro]: "obj_all P ob \<Longrightarrow> obj_all P (obj_del k ob)"
  by (auto simp: obj_all_def obj_del_def)

lemma obj_all_map [inv_intro]:
  "obj_all P ob \<Longrightarrow> (\<And>k v. P v \<Longrightarrow> P (f k v)) \<Longrightarrow> obj_all P (obj_map f ob)"
  by (auto simp: obj_all_def obj_map_def)

lemma obj_all_get: "obj_all P ob \<Longrightarrow> obj_get ob k = Some v \<Longrightarrow> P v"
  using obj_get_in [of ob k v] by (auto simp: obj_all_def)

lemma obj_all_nullish: "obj_all P ob \<Longrightarrow> P d \<Longrightarrow> P (nullish (obj_get ob k) d)"
  by (cases "obj_get ob k") (auto intro: obj_all_get)

text \<open>The enumeration order: indices ascending, then names, no key twice.\<close>

definition obj_ok :: "'v obj \<Rightarrow> bool" where
  "obj_ok ob \<longleftrightarrow> distinct (obj_keys ob) \<and>
     sorted_wrt (\<lambda>k l. \<not> key_before l k) (obj_keys ob)"

lemma key_before_trans: "key_before k l \<Longrightarrow> \<not> key_before m l \<Longrightarrow> \<not> key_before m k"
  by (cases k; cases l; cases m) auto

lemma key_before_total: "k \<noteq> l \<Longrightarrow> \<not> key_before k l \<Longrightarrow> \<not> key_before l k \<Longrightarrow>
  (\<exists>s. k = Name s) \<and> (\<exists>s. l = Name s)"
  by (cases k; cases l) auto

lemma obj_keys_set_subset: "set (obj_keys (obj_set k v ob)) = insert k (set (obj_keys ob))"
  by (induction k v ob rule: obj_set.induct) (auto simp: obj_keys_def)

lemma obj_ok_set: "obj_ok ob \<Longrightarrow> obj_ok (obj_set k v ob)"
proof (induction k v ob rule: obj_set.induct)
  case (1 k v)
  then show ?case by (simp add: obj_ok_def obj_keys_def)
next
  case (2 k v k' v' r)
  have r: "obj_ok r" and k': "k' \<notin> set (obj_keys r)"
    and le: "\<forall>l \<in> set (obj_keys r). \<not> key_before l k'"
    using "2.prems" by (auto simp: obj_ok_def obj_keys_def)
  consider "k = k'" | "k \<noteq> k'" "key_before k k'" | "k \<noteq> k'" "\<not> key_before k k'" by blast
  then show ?case
  proof cases
    case 1
    with "2.prems" show ?thesis by (auto simp: obj_ok_def obj_keys_def)
  next
    case 2
    then have "\<forall>l \<in> set (obj_keys r). \<not> key_before l k" using le key_before_trans by blast
    moreover have "k \<notin> set (obj_keys r)" using 2 le by blast
    moreover have "\<not> key_before k' k" using 2 by (cases k; cases k') auto
    ultimately show ?thesis using 2 "2.prems" by (auto simp: obj_ok_def obj_keys_def)
  next
    case 3
    have "obj_ok (obj_set k v r)" using "2.IH" 3 r by blast
    moreover have "set (obj_keys (obj_set k v r)) = insert k (set (obj_keys r))"
      by (rule obj_keys_set_subset)
    ultimately show ?thesis using 3 k' le by (auto simp: obj_ok_def obj_keys_def)
  qed
qed

lemma obj_ok_del: "obj_ok ob \<Longrightarrow> obj_ok (obj_del k ob)"
  by (induction ob) (auto simp: obj_ok_def obj_keys_def obj_del_def)

lemma obj_ok_map [simp]: "obj_ok (obj_map f ob) = obj_ok ob"
  by (simp add: obj_ok_def)

section \<open>Maps\<close>

text \<open>\<open>Map\<close>: an overwritten key keeps its position, a new key goes last.\<close>

type_synonym ('k, 'v) jmap = "('k \<times> 'v) list"

fun jmap_set :: "'k \<Rightarrow> 'v \<Rightarrow> ('k, 'v) jmap \<Rightarrow> ('k, 'v) jmap" where
  "jmap_set k v [] = [(k, v)]"
| "jmap_set k v ((k', v') # r) = (if k = k' then (k, v) # r else (k', v') # jmap_set k v r)"

definition jmap_get :: "('k, 'v) jmap \<Rightarrow> 'k \<Rightarrow> 'v option" where
  "jmap_get m k = map_of m k"

definition jmap_delete :: "'k \<Rightarrow> ('k, 'v) jmap \<Rightarrow> ('k, 'v) jmap" where
  "jmap_delete k m = filter (\<lambda>kv. fst kv \<noteq> k) m"

lemma jmap_get_set: "jmap_get (jmap_set k v m) k' = (if k' = k then Some v else jmap_get m k')"
  by (induction k v m rule: jmap_set.induct) (auto simp: jmap_get_def)

lemma jmap_get_delete: "jmap_get (jmap_delete k m) k' = (if k' = k then None else jmap_get m k')"
  by (induction m) (auto simp: jmap_get_def jmap_delete_def)

interpretation md: dict jmap_get jmap_set jmap_delete "[]"
  by unfold_locales (simp_all add: jmap_get_set jmap_get_delete, simp add: jmap_get_def)

lemma keys_jmap_set:
  "map fst (jmap_set k v m) = (if k \<in> fst ` set m then map fst m else map fst m @ [k])"
  by (induction k v m rule: jmap_set.induct) auto

lemma distinct_jmap_set: "distinct (map fst m) \<Longrightarrow> distinct (map fst (jmap_set k v m))"
  by (auto simp: keys_jmap_set)

lemma jmap_set_in: "(k', v') \<in> set (jmap_set k v m) \<Longrightarrow> (k' = k \<and> v' = v) \<or> (k', v') \<in> set m"
  by (induction k v m rule: jmap_set.induct) (auto split: if_splits)

section \<open>Maps filled from a list\<close>

lemma filled_other: "k \<notin> f ` set xs \<Longrightarrow> jmap_get (foldl (\<lambda>m x. jmap_set (f x) (g x) m) m xs) k = jmap_get m k"
  by (induction xs arbitrary: m) (auto simp: jmap_get_set)

lemma filled: "distinct (map f xs) \<Longrightarrow> x \<in> set xs \<Longrightarrow> jmap_get (foldl (\<lambda>m x. jmap_set (f x) (g x) m) m xs) (f x) = Some (g x)"
  by (induction xs arbitrary: m) (auto simp: filled_other jmap_get_set)

lemma filled_from: "jmap_get (foldl (\<lambda>m x. jmap_set (f x) (g x) m) m xs) k = Some v \<Longrightarrow>
  jmap_get m k = Some v \<or> (\<exists>x \<in> set xs. f x = k \<and> g x = v)"
  by (induction xs arbitrary: m) (fastforce simp: jmap_get_set split: if_splits)+

lemma filled_some: "k \<in> f ` set xs \<Longrightarrow> jmap_get (foldl (\<lambda>m x. jmap_set (f x) (g x) m) m xs) k \<noteq> None"
proof (induction xs arbitrary: m)
  case (Cons x xs)
  then show ?case
    by (cases "k \<in> f ` set xs") (auto simp: filled_other jmap_get_set simp del: not_None_eq)
qed simp

end
