(* ===== verification/Js_Date.thy ===== *)
theory Js_Date imports Js_Text begin

text \<open>
  \<open>new Date(s).getTime()\<close> on ISO 8601 strings, the only timestamps the code passes around: the
  server's \<open>created_at\<close> fields.  \<open>None\<close> is \<open>NaN\<close>.  Subtractions and comparisons of time values
  follow IEEE rules for \<open>NaN\<close>: a difference with \<open>NaN\<close> is \<open>NaN\<close>, which \<open>sort\<close> reads as 0, and
  every comparison with \<open>NaN\<close> is false.
\<close>

section \<open>The time value of a timestamp\<close>

definition take_digits :: "nat \<Rightarrow> string \<Rightarrow> (int \<times> string) option" where
  "take_digits n s =
     (let ds = take n s in
      if length ds = n \<and> list_all is_digit ds then Some (int (dec_val ds), drop n s) else None)"

definition expect_char :: "char \<Rightarrow> string \<Rightarrow> string option" where
  "expect_char c s = (case s of [] \<Rightarrow> None | d # r \<Rightarrow> if c = d then Some r else None)"

text \<open>Days from 1970-01-01 to a date of the proleptic Gregorian calendar.\<close>

definition days_from_civil :: "int \<Rightarrow> int \<Rightarrow> int \<Rightarrow> int" where
  "days_from_civil y m d =
     (let y' = (if m \<le> 2 then y - 1 else y);
          era = y' div 400;
          yoe = y' - era * 400;
          doy = (153 * ((m + 9) mod 12) + 2) div 5 + d - 1;
          doe = yoe * 365 + yoe div 4 - yoe div 100 + doy
      in era * 146097 + doe - 719468)"

text \<open>\<open>.f...f\<close>: the first three digits count, further ones are dropped.\<close>

definition take_millis :: "string \<Rightarrow> (int \<times> string) option" where
  "take_millis s =
     (case expect_char (CHR ''.'') s of
        None \<Rightarrow> Some (0, s)
      | Some r \<Rightarrow>
          (let ds = takeWhile is_digit r
           in if ds = [] then None
              else Some (int (dec_val (take 3 (ds @ ''00''))), dropWhile is_digit r)))"

text \<open>The offset in minutes: \<open>Z\<close>, \<open>+HH:MM\<close>, \<open>-HH:MM\<close>, or nothing.\<close>

definition take_offset :: "string \<Rightarrow> int option" where
  "take_offset s =
     (case s of
        [] \<Rightarrow> Some 0
      | c # r \<Rightarrow>
          if c = CHR ''Z'' \<and> r = [] then Some 0
          else if c = CHR ''+'' \<or> c = CHR ''-'' then
            Option.bind (take_digits 2 r) (\<lambda>(h, r1).
            Option.bind (expect_char (CHR '':'') r1) (\<lambda>r2.
            Option.bind (take_digits 2 r2) (\<lambda>(m, r3).
              if r3 = [] \<and> h < 24 \<and> m < 60
              then Some ((if c = CHR ''-'' then - 1 else 1) * (60 * h + m)) else None)))
          else None)"

definition take_time :: "string \<Rightarrow> int option" where
  "take_time s =
     Option.bind (take_digits 2 s) (\<lambda>(h, s1).
     Option.bind (expect_char (CHR '':'') s1) (\<lambda>s2.
     Option.bind (take_digits 2 s2) (\<lambda>(mi, s3).
     Option.bind (case expect_char (CHR '':'') s3 of
                    None \<Rightarrow> Some (0, 0, s3)
                  | Some s4 \<Rightarrow> Option.bind (take_digits 2 s4) (\<lambda>(sec, s5).
                               Option.bind (take_millis s5) (\<lambda>(ms, s6). Some (sec, ms, s6))))
       (\<lambda>(sec, ms, s7).
     Option.bind (take_offset s7) (\<lambda>off.
       if mi < 60 \<and> sec < 60 \<and> (h < 24 \<or> h = 24 \<and> mi = 0 \<and> sec = 0 \<and> ms = 0)
       then Some (((h * 60 + mi - off) * 60 + sec) * 1000 + ms) else None)))))"

definition get_time :: "string \<Rightarrow> int option" where
  "get_time s =
     Option.bind (take_digits 4 s) (\<lambda>(y, s1).
     Option.bind (expect_char (CHR ''-'') s1) (\<lambda>s2.
     Option.bind (take_digits 2 s2) (\<lambda>(mo, s3).
     Option.bind (expect_char (CHR ''-'') s3) (\<lambda>s4.
     Option.bind (take_digits 2 s4) (\<lambda>(d, s5).
       if mo < 1 \<or> 12 < mo \<or> d < 1 \<or> 31 < d then None
       else map_option (\<lambda>t. days_from_civil y mo d * 86400000 + t)
              (case s5 of [] \<Rightarrow> Some 0
               | _ \<Rightarrow> Option.bind (expect_char (CHR ''T'') s5) take_time))))))"

lemma get_time_epoch: "get_time ''1970-01-01T00:00:00.000Z'' = Some 0"
  by code_simp

lemma get_time_example: "get_time ''2026-08-05T00:00:02.500+01:00'' = Some 1785884402500"
  by code_simp

section \<open>Comparing time values\<close>

definition time_diff :: "int option \<Rightarrow> int option \<Rightarrow> int" where
  "time_diff a b = (case (a, b) of (Some x, Some y) \<Rightarrow> x - y | _ \<Rightarrow> 0)"

definition time_greater :: "int option \<Rightarrow> int option \<Rightarrow> bool" where
  "time_greater a b = (case (a, b) of (Some x, Some y) \<Rightarrow> x > y | _ \<Rightarrow> False)"

lemma time_diff_Some [simp]: "time_diff (Some x) (Some y) = x - y"
  by (simp add: time_diff_def)

lemma time_greater_irrefl [simp]: "\<not> time_greater a a"
  by (cases a) (simp_all add: time_greater_def)

lemma time_greater_trans: "time_greater a b \<Longrightarrow> time_greater b c \<Longrightarrow> time_greater a c"
  by (auto simp: time_greater_def split: option.splits)

section \<open>Printing a time value\<close>

text \<open>\<open>new Date(t).toISOString()\<close>: the civil date of the day, then the time of day, both in UTC.  A
  year outside 0 to 9999 is printed with a sign and six digits.\<close>

definition civil_from_days :: "int \<Rightarrow> int \<times> int \<times> int" where
  "civil_from_days z0 =
     (let z = z0 + 719468; era = z div 146097; doe = z - era * 146097;
          yoe = (doe - doe div 1460 + doe div 36524 - doe div 146096) div 365;
          doy = doe - (365 * yoe + yoe div 4 - yoe div 100);
          mp = (5 * doy + 2) div 153;
          d = doy - (153 * mp + 2) div 5 + 1;
          m = (if mp < 10 then mp + 3 else mp - 9)
      in ((yoe + era * 400) + (if m \<le> 2 then 1 else 0), m, d))"

definition pad_left :: "nat \<Rightarrow> string \<Rightarrow> string" where
  "pad_left n s = replicate (n - length s) (CHR ''0'') @ s"

definition padded :: "nat \<Rightarrow> int \<Rightarrow> string" where
  "padded n x = pad_left n (nat_dec (nat x))"

definition year_string :: "int \<Rightarrow> string" where
  "year_string y =
     (if 0 \<le> y \<and> y \<le> 9999 then padded 4 y
      else (if y < 0 then CHR ''-'' else CHR ''+'') # padded 6 \<bar>y\<bar>)"

definition iso_string :: "int \<Rightarrow> string" where
  "iso_string t =
     (let ms = t mod 86400000
      in case civil_from_days (t div 86400000) of (y, m, d) \<Rightarrow>
           year_string y @ ''-'' @ padded 2 m @ ''-'' @ padded 2 d @ ''T'' @
           padded 2 (ms div 3600000) @ '':'' @ padded 2 (ms div 60000 mod 60) @ '':'' @
           padded 2 (ms div 1000 mod 60) @ ''.'' @ padded 3 (ms mod 1000) @ ''Z'')"

lemma iso_string_example: "iso_string 951782400123 = ''2000-02-29T00:00:00.123Z''"
  by code_simp

end
