(* ===== verification/Chat_Types.thy ===== *)
theory Chat_Types imports Js_Object Js_Date begin

text \<open>
  The data of the chat client (\<open>src/frontend/src/types/chat.ts\<close>) and its store's state
  (\<open>ChatState\<close>).  The properties the store reads or writes are fields of their own; the
  properties it only copies are the \<open>rest\<close> of the record, a list of name/value pairs that object
  spread overrides name by name.
\<close>

section \<open>Users, reactions, messages\<close>

record chat_user =
  user_id :: int
  is_online :: "bool option"
  user_rest :: props

record chat_reaction =
  r_emoji :: string
  r_count :: int
  r_users :: "chat_user list"
  reacted_by_me :: bool

record reply_ref =
  reply_id :: int
  reply_sender :: chat_user
  reply_rest :: props

record link_preview =
  lp_url :: string
  lp_title :: "string option"
  lp_description :: "string option"
  lp_image_url :: "string option"

datatype send_status = Pending | Sending | Failed

record message =
  m_id :: int
  m_seq :: "int option"
  m_chat_id :: "int option"
  m_chat :: "int option"
  m_sender :: "chat_user option"
  m_reply_to :: "reply_ref option option"
  m_reactions :: "chat_reaction list option"
  m_created_at :: string
  m_attachments :: "js_val list option"
  m_mentioned_user_ids :: "int list option"
  m_link_preview :: "link_preview option option"
  m_client_message_id :: "string option"
  m_send_status :: "send_status option"
  m_rest :: props

section \<open>Chats\<close>

record participant =
  p_user :: "chat_user option"
  p_rest :: props

record chat =
  c_id :: int
  c_slug :: "string option"
  c_project_id :: "js_id option"
  c_project :: "js_id option"
  c_created_by :: "chat_user option"
  c_participants :: "participant list option"
  c_last_message :: "message option"
  c_unread_count :: "int option"
  c_mention_unread_count :: "int option"
  c_rest :: props

section \<open>The outbox and uploads\<close>

record outbox_entry =
  clientMessageId :: string
  ob_chatId :: int
  ob_content :: string
  ob_richBody :: "js_val option"
  attachmentIds :: "int list"
  mentionIds :: "int list option"
  replyToId :: "int option"
  parentMessageId :: "int option"
  ob_status :: send_status
  enqueuedAt :: string

record outbox_ack =
  ack_client_message_id :: string
  ack_message_id :: int
  ack_message :: "message option"

record pending_attachment =
  pa_id :: string
  pa_preview :: "string option"
  pa_progress :: int
  pa_uploading :: bool
  pa_uploaded :: "js_val option"
  pa_error :: "string option"

record send_request =
  sr_chat_id :: int
  sr_content :: string
  sr_attachment_ids :: "int list option"
  sr_mention_ids :: "int list option"
  sr_rich_body :: "js_val option"
  sr_reply_to_id :: "int option"
  sr_parent_message_id :: "int option"
  sr_client_message_id :: string

section \<open>Partial updates\<close>

text \<open>
  \<open>Partial<Message>\<close>, \<open>Partial<Chat>\<close> and \<open>Partial<PendingAttachment>\<close>: \<open>None\<close> is a property that
  the update does not carry.
\<close>

record message_patch =
  mp_id :: "int option"
  mp_seq :: "int option"
  mp_chat_id :: "int option"
  mp_chat :: "int option"
  mp_sender :: "chat_user option"
  mp_reply_to :: "reply_ref option option"
  mp_reactions :: "chat_reaction list option"
  mp_created_at :: "string option"
  mp_attachments :: "js_val list option"
  mp_mentioned_user_ids :: "int list option"
  mp_link_preview :: "link_preview option option"
  mp_client_message_id :: "string option"
  mp_send_status :: "send_status option"
  mp_rest :: props

record chat_patch =
  cp_id :: "int option"
  cp_slug :: "string option"
  cp_project_id :: "js_id option"
  cp_project :: "js_id option"
  cp_created_by :: "chat_user option"
  cp_participants :: "participant list option"
  cp_last_message :: "message option option"
  cp_unread_count :: "int option"
  cp_mention_unread_count :: "int option"
  cp_rest :: props

record attachment_patch =
  ap_preview :: "string option"
  ap_progress :: "int option"
  ap_uploading :: "bool option"
  ap_uploaded :: "js_val option"
  ap_error :: "string option"

text \<open>Object spread of the properties that are only copied.\<close>

definition props_merge :: "props \<Rightarrow> props \<Rightarrow> props" where
  "props_merge old upd = fold (\<lambda>(k, v). jmap_set k v) upd old"

lemma props_merge_Nil [simp]: "props_merge old [] = old"
  by (simp add: props_merge_def)

definition spread_message :: "message \<Rightarrow> message_patch \<Rightarrow> message" where
  "spread_message msg upd =
     \<lparr> m_id = nullish (mp_id upd) (m_id msg),
       m_seq = orelse (mp_seq upd) (m_seq msg),
       m_chat_id = orelse (mp_chat_id upd) (m_chat_id msg),
       m_chat = orelse (mp_chat upd) (m_chat msg),
       m_sender = orelse (mp_sender upd) (m_sender msg),
       m_reply_to = orelse (mp_reply_to upd) (m_reply_to msg),
       m_reactions = orelse (mp_reactions upd) (m_reactions msg),
       m_created_at = nullish (mp_created_at upd) (m_created_at msg),
       m_attachments = orelse (mp_attachments upd) (m_attachments msg),
       m_mentioned_user_ids = orelse (mp_mentioned_user_ids upd) (m_mentioned_user_ids msg),
       m_link_preview = orelse (mp_link_preview upd) (m_link_preview msg),
       m_client_message_id = orelse (mp_client_message_id upd) (m_client_message_id msg),
       m_send_status = orelse (mp_send_status upd) (m_send_status msg),
       m_rest = props_merge (m_rest msg) (mp_rest upd) \<rparr>"

text \<open>\<open>{...existing, ...message}\<close> with a whole message as the second operand.\<close>

definition patch_of_message :: "message \<Rightarrow> message_patch" where
  "patch_of_message msg =
     \<lparr> mp_id = Some (m_id msg), mp_seq = m_seq msg, mp_chat_id = m_chat_id msg,
       mp_chat = m_chat msg, mp_sender = m_sender msg, mp_reply_to = m_reply_to msg,
       mp_reactions = m_reactions msg, mp_created_at = Some (m_created_at msg),
       mp_attachments = m_attachments msg, mp_mentioned_user_ids = m_mentioned_user_ids msg,
       mp_link_preview = m_link_preview msg, mp_client_message_id = m_client_message_id msg,
       mp_send_status = m_send_status msg, mp_rest = m_rest msg \<rparr>"

definition merge_message :: "message \<Rightarrow> message \<Rightarrow> message" where
  "merge_message existing msg = spread_message existing (patch_of_message msg)"

definition spread_chat :: "chat \<Rightarrow> chat_patch \<Rightarrow> chat" where
  "spread_chat c upd =
     \<lparr> c_id = nullish (cp_id upd) (c_id c),
       c_slug = orelse (cp_slug upd) (c_slug c),
       c_project_id = orelse (cp_project_id upd) (c_project_id c),
       c_project = orelse (cp_project upd) (c_project c),
       c_created_by = orelse (cp_created_by upd) (c_created_by c),
       c_participants = orelse (cp_participants upd) (c_participants c),
       c_last_message = nullish (cp_last_message upd) (c_last_message c),
       c_unread_count = orelse (cp_unread_count upd) (c_unread_count c),
       c_mention_unread_count = orelse (cp_mention_unread_count upd) (c_mention_unread_count c),
       c_rest = props_merge (c_rest c) (cp_rest upd) \<rparr>"

definition spread_attachment :: "pending_attachment \<Rightarrow> attachment_patch \<Rightarrow> pending_attachment" where
  "spread_attachment a upd =
     a\<lparr> pa_preview := orelse (ap_preview upd) (pa_preview a),
        pa_progress := nullish (ap_progress upd) (pa_progress a),
        pa_uploading := nullish (ap_uploading upd) (pa_uploading a),
        pa_uploaded := orelse (ap_uploaded upd) (pa_uploaded a),
        pa_error := orelse (ap_error upd) (pa_error a) \<rparr>"

lemma merge_message_simps [simp]:
  "m_id (merge_message a b) = m_id b"
  "m_seq (merge_message a b) = orelse (m_seq b) (m_seq a)"
  "m_created_at (merge_message a b) = m_created_at b"
  "m_attachments (merge_message a b) = orelse (m_attachments b) (m_attachments a)"
  "m_client_message_id (merge_message a b) = orelse (m_client_message_id b) (m_client_message_id a)"
  by (simp_all add: merge_message_def spread_message_def patch_of_message_def)

section \<open>The state of the store\<close>

datatype chat_view = ViewList | ViewChat

record chat_state =
  chatsByProject :: "chat list obj"
  currentChatId :: "int option"
  widgetChatId :: "int option"
  messages :: "message list obj"
  pendingAttachmentsByChat :: "pending_attachment list obj"
  unreadCounts :: "int obj"
  capturedUnreadCounts :: "int obj"
  typingUsersByChat :: "int list obj"
  presenceByUserId :: "bool obj"
  presenceVersionByUserId :: "int obj"
  mentionedChatIds :: "bool obj"
  unseenPinChatIds :: "bool obj"
  outbox :: "outbox_entry list"
  activeThreadMessageId :: "int option"
  threadReplies :: "message list obj"
  globalUnreadCount :: int
  isWidgetOpen :: bool
  isMessagePageOpen :: bool
  selectedProjectId :: "js_id option"
  widgetProjectId :: "js_id option"
  currentView :: chat_view
  widgetView :: chat_view
  isLoading :: bool
  lastChatActivity :: int
  filesRefreshAt :: int
  deletedMessageIds :: "int list"
  revokedPreviews :: "string list"

text \<open>
  The last two fields stand for what is outside the zustand state: the module's set of message ids
  the user deleted, and the object URLs handed to \<open>URL.revokeObjectURL\<close> so far.
\<close>

definition init_chat_state :: chat_state where
  "init_chat_state =
     \<lparr> chatsByProject = [], currentChatId = None, widgetChatId = None, messages = [],
       pendingAttachmentsByChat = [], unreadCounts = [], capturedUnreadCounts = [],
       typingUsersByChat = [], presenceByUserId = [], presenceVersionByUserId = [],
       mentionedChatIds = [], unseenPinChatIds = [], outbox = [], activeThreadMessageId = None,
       threadReplies = [], globalUnreadCount = 0, isWidgetOpen = False, isMessagePageOpen = False,
       selectedProjectId = None, widgetProjectId = None, currentView = ViewList,
       widgetView = ViewList, isLoading = False, lastChatActivity = 0, filesRefreshAt = 0,
       deletedMessageIds = [], revokedPreviews = [] \<rparr>"

end
