(* ===== verification/Chat_Ordering.thy ===== *)
theory Chat_Ordering imports Chat_Types "HOL-Library.Word" begin

text \<open>
  The order of messages in a chat (\<open>src/frontend/src/lib/chatStore.ts\<close>, the functions above the
  store): the local id of an optimistic message, the sequence number a server gives a committed
  one, and \<open>reorderMessagesBySequence\<close>, which keeps a list ordered under websocket jitter.

  The lemmas show that the early return of \<open>reorderMessagesBySequence\<close> does not change its result,
  that the result is in sequence order with the optimistic messages last, and that it does not
  depend on the order of arrival.
\<close>

section \<open>Optimistic ids\<close>

definition hash_step :: "32 word \<Rightarrow> char \<Rightarrow> 32 word" where
  "hash_step h c = push_bit 5 h - h + of_nat (code_of c)"

definition outboxOptimisticMessageId :: "string \<Rightarrow> int" where
  "outboxOptimisticMessageId s =
     (let h = sint (foldl hash_step 0 s) in if h > 0 then - h else h)"

lemma optimistic_id_bounds_aux:
  "- (2 ^ 31) \<le> outboxOptimisticMessageId s \<and> outboxOptimisticMessageId s \<le> 0"
  using sint_ge [of "foldl hash_step 0 s"] sint_lt [of "foldl hash_step 0 s"]
  by (auto simp: outboxOptimisticMessageId_def Let_def)

section \<open>Committed messages\<close>

definition attachment_count :: "message \<Rightarrow> nat" where
  "attachment_count msg = length (nullish (m_attachments msg) [])"

definition shouldMergeIncomingMessage :: "message \<Rightarrow> message \<Rightarrow> bool" where
  "shouldMergeIncomingMessage existing incoming \<longleftrightarrow>
     attachment_count existing < attachment_count incoming"

definition messageSequence :: "message \<Rightarrow> int option" where
  "messageSequence msg =
     (case m_seq msg of
        None \<Rightarrow> None
      | Some s \<Rightarrow> if is_safe_integer s \<and> s > 0 then Some s else None)"

fun already_ordered :: "int \<Rightarrow> message list \<Rightarrow> bool" where
  "already_ordered previousSeq [] = True"
| "already_ordered previousSeq (msg # msgs) =
     (case messageSequence msg of
        None \<Rightarrow> False
      | Some s \<Rightarrow> if s \<le> previousSeq then False else already_ordered s msgs)"

text \<open>One turn of the loop that files messages by sequence number or as optimistic.\<close>

definition file_message ::
  "(int, message) jmap \<times> message list \<Rightarrow> message \<Rightarrow> (int, message) jmap \<times> message list" where
  "file_message acc msg =
     (case messageSequence msg of
        None \<Rightarrow> (fst acc, snd acc @ [msg])
      | Some s \<Rightarrow>
          (jmap_set s
             (case jmap_get (fst acc) s of
                None \<Rightarrow> msg
              | Some existing \<Rightarrow>
                  if \<not> shouldMergeIncomingMessage existing msg then existing
                  else merge_message existing msg)
             (fst acc),
           snd acc))"

definition seq_cmp :: "int \<times> message \<Rightarrow> int \<times> message \<Rightarrow> int" where
  "seq_cmp l r = fst l - fst r"

definition created_cmp :: "message \<Rightarrow> message \<Rightarrow> int" where
  "created_cmp l r = time_diff (get_time (m_created_at l)) (get_time (m_created_at r))"

definition reorderMessagesBySequence :: "message list \<Rightarrow> message list" where
  "reorderMessagesBySequence msgs =
     (if already_ordered 0 msgs then msgs
      else case foldl file_message ([], []) msgs of
             (bySequence, optimistic) \<Rightarrow>
               map snd (js_sort seq_cmp bySequence) @ js_sort created_cmp optimistic)"

definition isLaterMessage :: "message \<Rightarrow> message option \<Rightarrow> bool" where
  "isLaterMessage candidate current =
     (case current of
        None \<Rightarrow> True
      | Some cur \<Rightarrow>
          (case (messageSequence candidate, messageSequence cur) of
             (Some a, Some b) \<Rightarrow> a > b
           | _ \<Rightarrow> time_greater (get_time (m_created_at candidate)) (get_time (m_created_at cur))))"

definition stripOptimisticOutboxMessages :: "message list \<Rightarrow> string \<Rightarrow> message list" where
  "stripOptimisticOutboxMessages msgs cid =
     filter (\<lambda>msg. m_client_message_id msg \<noteq> Some cid \<and> m_id msg \<noteq> outboxOptimisticMessageId cid) msgs"

section \<open>Lemmas\<close>

lemma messageSequence_Some:
  "messageSequence msg = Some s \<longleftrightarrow> m_seq msg = Some s \<and> is_safe_integer s \<and> s > 0"
  by (auto simp: messageSequence_def split: option.splits if_splits)

lemma messageSequence_merge:
  "messageSequence b = Some s \<Longrightarrow> messageSequence (merge_message a b) = Some s"
  by (simp add: messageSequence_Some)

interpretation seq_order: comparator UNIV seq_cmp
  unfolding seq_cmp_def by (rule comparator_diff)

definition timed :: "message set" where
  "timed = {msg. get_time (m_created_at msg) \<noteq> None}"

interpretation created_order: comparator timed created_cmp
  by unfold_locales (auto simp: timed_def created_cmp_def)

definition committed :: "message \<Rightarrow> bool" where
  "committed msg \<longleftrightarrow> messageSequence msg \<noteq> None"

definition seq_of :: "message \<Rightarrow> int" where
  "seq_of msg = the (messageSequence msg)"

definition filed_ok :: "(int, message) jmap \<Rightarrow> bool" where
  "filed_ok m \<longleftrightarrow> distinct (map fst m) \<and> (\<forall>(s, msg) \<in> set m. messageSequence msg = Some s)"

lemma filed_ok_step:
  "filed_ok (fst acc) \<Longrightarrow> filed_ok (fst (file_message acc msg))"
proof -
  assume ok: "filed_ok (fst acc)"
  have seq: "messageSequence existing = Some s" if "jmap_get (fst acc) s = Some existing" for s existing
    using ok that by (auto simp: filed_ok_def jmap_get_def dest: map_of_SomeD)
  show ?thesis using ok
    by (auto simp: filed_ok_def file_message_def distinct_jmap_set
        split: option.splits if_splits
        dest!: jmap_set_in intro: seq messageSequence_merge)
qed

lemma filed_ok_foldl: "filed_ok (fst acc) \<Longrightarrow> filed_ok (fst (foldl file_message acc msgs))"
  by (induction msgs arbitrary: acc) (simp_all add: filed_ok_step)

lemma filed_ok_files: "filed_ok (fst (foldl file_message ([], []) msgs))"
  by (rule filed_ok_foldl) (simp add: filed_ok_def)

lemma snd_files: "snd (foldl file_message acc msgs) = snd acc @ filter (\<lambda>msg. \<not> committed msg) msgs"
  by (induction msgs arbitrary: acc)
     (auto simp: file_message_def committed_def split: option.splits)

lemma keys_files:
  "fst ` set (fst (foldl file_message acc msgs)) =
   fst ` set (fst acc) \<union> {s. \<exists>msg \<in> set msgs. messageSequence msg = Some s}"
proof (induction msgs arbitrary: acc)
  case (Cons msg msgs)
  have "fst ` set (jmap_set s v m) = insert s (fst ` set m)" for s and v :: message and m
    using arg_cong [OF keys_jmap_set [of s v m], of set] by (auto split: if_splits)
  then have "fst ` set (fst (file_message acc msg)) =
      fst ` set (fst acc) \<union> {s. messageSequence msg = Some s}"
    by (cases "messageSequence msg") (simp_all add: file_message_def)
  with Cons.IH [of "file_message acc msg"] show ?case by auto
qed simp

text \<open>With pairwise different sequence numbers nothing is merged.\<close>

lemma jmap_set_new: "k \<notin> fst ` set m \<Longrightarrow> jmap_set k v m = m @ [(k, v)]"
  by (induction k v m rule: jmap_set.induct) auto

lemma jmap_get_new: "k \<notin> fst ` set m \<Longrightarrow> jmap_get m k = None"
  by (simp add: jmap_get_def map_of_eq_None_iff)

lemma files_distinct:
  assumes "distinct (map seq_of (filter committed msgs))"
    and "\<forall>msg \<in> set msgs. committed msg \<longrightarrow> seq_of msg \<notin> fst ` set (fst acc)"
  shows "fst (foldl file_message acc msgs) =
         fst acc @ map (\<lambda>msg. (seq_of msg, msg)) (filter committed msgs)"
  using assms
proof (induction msgs arbitrary: acc)
  case (Cons msg msgs)
  show ?case
  proof (cases "messageSequence msg")
    case None
    with Cons show ?thesis by (simp add: file_message_def committed_def)
  next
    case (Some s)
    with Cons.prems have new: "s \<notin> fst ` set (fst acc)"
      by (auto simp: committed_def seq_of_def)
    with Some have step: "fst (file_message acc msg) = fst acc @ [(s, msg)]"
      by (simp add: file_message_def jmap_set_new jmap_get_new)
    have "\<forall>msg' \<in> set msgs. committed msg' \<longrightarrow> seq_of msg' \<notin> fst ` set (fst (file_message acc msg))"
      using Cons.prems Some by (auto simp: step committed_def seq_of_def)
    with Cons.IH [of "file_message acc msg"] Cons.prems(1) Some show ?thesis
      by (simp add: step committed_def seq_of_def)
  qed
qed simp

lemma already_ordered_iff:
  "already_ordered p msgs \<longleftrightarrow>
   list_all committed msgs \<and> sorted_wrt (<) (p # map seq_of msgs)"
proof (induction msgs arbitrary: p)
  case (Cons msg msgs)
  then show ?case
    by (cases "messageSequence msg") (auto simp: committed_def seq_of_def)
qed simp

definition slow_reorder :: "message list \<Rightarrow> message list" where
  "slow_reorder msgs =
     map snd (js_sort seq_cmp (fst (foldl file_message ([], []) msgs)))
     @ js_sort created_cmp (snd (foldl file_message ([], []) msgs))"

lemma slow_reorder_ordered:
  assumes "already_ordered 0 msgs"
  shows "slow_reorder msgs = msgs"
proof -
  have c: "list_all committed msgs" and s: "sorted_wrt (<) (map seq_of msgs)"
    using assms by (auto simp: already_ordered_iff)
  have filt: "filter committed msgs = msgs" "filter (\<lambda>msg. \<not> committed msg) msgs = []"
    using c by (auto simp: list_all_iff filter_empty_conv)
  have "distinct (map seq_of (filter committed msgs))"
    using s by (simp add: filt strict_sorted_iff)
  then have files: "fst (foldl file_message ([], []) msgs) = map (\<lambda>msg. (seq_of msg, msg)) msgs"
    by (simp add: files_distinct filt)
  have "sorted_wrt (\<lambda>a b. seq_cmp a b \<le> 0) (map (\<lambda>msg. (seq_of msg, msg)) msgs)"
    using s by (auto simp: sorted_wrt_map seq_cmp_def elim!: sorted_wrt_mono_rel [rotated])
  then have "js_sort seq_cmp (map (\<lambda>msg. (seq_of msg, msg)) msgs) = map (\<lambda>msg. (seq_of msg, msg)) msgs"
    by (rule seq_order.sort_id)
  then show ?thesis
    by (simp add: slow_reorder_def files snd_files filt comp_def)
qed

lemma reorder_eq_slow: "reorderMessagesBySequence msgs = slow_reorder msgs"
  by (simp add: reorderMessagesBySequence_def slow_reorder_ordered)
     (simp add: slow_reorder_def split: prod.split)

lemma seq_sorted_files:
  "sorted_wrt (<) (map seq_of (map snd (js_sort seq_cmp (fst (foldl file_message ([], []) msgs)))))"
proof -
  let ?by = "fst (foldl file_message ([], []) msgs)"
  have key: "seq_of (snd p) = fst p" if "p \<in> set (js_sort seq_cmp ?by)" for p
    using filed_ok_files [of msgs] that by (auto simp: filed_ok_def seq_of_def)
  have d: "distinct (map fst (js_sort seq_cmp ?by))"
    using filed_ok_files [of msgs]
    by (metis filed_ok_def mset_eq_imp_distinct_iff mset_js_sort mset_map)
  have s: "sorted_wrt (\<lambda>a b. fst a \<le> fst b) (js_sort seq_cmp ?by)"
    using seq_order.sort_sorted [of ?by] by (simp add: seq_cmp_def)
  then have "sorted (map fst (js_sort seq_cmp ?by))" by (simp add: sorted_wrt_map)
  with d have "sorted_wrt (<) (map fst (js_sort seq_cmp ?by))" by (simp only: strict_sorted_iff)
  moreover have "map seq_of (map snd (js_sort seq_cmp ?by)) = map fst (js_sort seq_cmp ?by)"
    unfolding map_map by (rule map_cong) (simp_all add: key)
  ultimately show ?thesis by (simp only:)
qed

lemma slow_committed: "list_all committed (map snd (fst (foldl file_message ([], []) msgs)))"
  using filed_ok_files [of msgs] by (auto simp: list_all_iff filed_ok_def committed_def)

lemma reorder_shape:
  "\<exists>cs. reorderMessagesBySequence msgs = cs @ js_sort created_cmp (filter (\<lambda>m. \<not> committed m) msgs) \<and>
        list_all committed cs \<and> sorted_wrt (<) (map seq_of cs) \<and>
        seq_of ` set cs = seq_of ` set (filter committed msgs)"
proof -
  let ?by = "fst (foldl file_message ([], []) msgs)"
  let ?cs = "map snd (js_sort seq_cmp ?by)"
  have key: "seq_of (snd p) = fst p" if "p \<in> set ?by" for p
    using filed_ok_files [of msgs] that by (auto simp: filed_ok_def seq_of_def)
  have "seq_of ` set ?cs = fst ` set ?by"
    using key by (auto simp: image_image intro!: image_cong)
  also have "\<dots> = seq_of ` set (filter committed msgs)"
    by (auto simp: keys_files committed_def seq_of_def image_iff) force+
  finally have seqs: "seq_of ` set ?cs = seq_of ` set (filter committed msgs)" .
  have "list_all committed ?cs"
    using slow_committed [of msgs] by (simp add: list_all_iff)
  then show ?thesis
    using seq_sorted_files [of msgs] seqs
    by (auto simp: reorder_eq_slow slow_reorder_def snd_files)
qed

lemma filter_reorder:
  "filter (\<lambda>m. \<not> committed m) (reorderMessagesBySequence msgs) =
   js_sort created_cmp (filter (\<lambda>m. \<not> committed m) msgs)"
proof -
  obtain cs where cs: "reorderMessagesBySequence msgs =
      cs @ js_sort created_cmp (filter (\<lambda>m. \<not> committed m) msgs)" "list_all committed cs"
    using reorder_shape by blast
  have "filter (\<lambda>m. \<not> committed m) cs = []"
    using cs(2) by (auto simp: filter_empty_conv list_all_iff)
  moreover have "filter (\<lambda>m. \<not> committed m) (js_sort created_cmp (filter (\<lambda>m. \<not> committed m) msgs)) =
      js_sort created_cmp (filter (\<lambda>m. \<not> committed m) msgs)"
    by (rule filter_True) simp
  ultimately show ?thesis by (simp add: cs(1))
qed

lemma reorder_distinct:
  assumes "distinct (map seq_of (filter committed msgs))"
  shows "reorderMessagesBySequence msgs =
         sort_key seq_of (filter committed msgs)
         @ js_sort created_cmp (filter (\<lambda>m. \<not> committed m) msgs)"
proof -
  have "fst (foldl file_message ([], []) msgs) = map (\<lambda>m. (seq_of m, m)) (filter committed msgs)"
    using assms by (simp add: files_distinct)
  moreover have "map snd (js_sort seq_cmp (map (\<lambda>m. (seq_of m, m)) ms)) = sort_key seq_of ms" for ms
  proof -
    have ins: "map snd (insort_key fst (seq_of m, m) (map (\<lambda>m. (seq_of m, m)) ns)) =
        insort_key seq_of m ns" for m ns
      by (induction ns) (auto simp: comp_def)
    have pairs: "insort_key fst (seq_of m, m) (map (\<lambda>m. (seq_of m, m)) ns) =
        map (\<lambda>m. (seq_of m, m)) (insort_key seq_of m ns)" for m ns
      by (induction ns) auto
    have "sort_key fst (map (\<lambda>m. (seq_of m, m)) ms) = map (\<lambda>m. (seq_of m, m)) (sort_key seq_of ms)"
      by (induction ms) (simp_all add: pairs)
    then show ?thesis
      by (simp add: seq_cmp_def [abs_def] js_sort_diff comp_def)
  qed
  ultimately show ?thesis
    by (simp add: reorder_eq_slow slow_reorder_def snd_files)
qed

section \<open>Properties\<close>

text \<open>C2: \<open>reorderMessagesBySequence\<close> returns the committed messages in strictly increasing sequence
  order, so no sequence number appears twice, followed by the messages without a sequence number;
  the sequence numbers are exactly those of the input and no optimistic message is lost.\<close>

theorem reorder_sorted:
  "\<exists>cs os. reorderMessagesBySequence msgs = cs @ os \<and>
     list_all committed cs \<and> sorted_wrt (<) (map seq_of cs) \<and>
     seq_of ` set cs = seq_of ` set (filter committed msgs) \<and>
     mset os = mset (filter (\<lambda>m. \<not> committed m) msgs)"
proof -
  obtain cs where "reorderMessagesBySequence msgs =
      cs @ js_sort created_cmp (filter (\<lambda>m. \<not> committed m) msgs)"
    "list_all committed cs" "sorted_wrt (<) (map seq_of cs)"
    "seq_of ` set cs = seq_of ` set (filter committed msgs)"
    using reorder_shape by blast
  moreover have "mset (js_sort created_cmp (filter (\<lambda>m. \<not> committed m) msgs)) =
      mset (filter (\<lambda>m. \<not> committed m) msgs)"
    by simp
  ultimately show ?thesis by blast
qed

text \<open>When the sequence numbers differ, the order in which committed messages arrive does not
  matter: two arrival orders with the same messages give the same list.\<close>

lemma reorder_arrival_order_irrelevant:
  assumes "mset (filter committed xs) = mset (filter committed ys)"
    and "filter (\<lambda>m. \<not> committed m) xs = filter (\<lambda>m. \<not> committed m) ys"
    and "distinct (map seq_of (filter committed xs))"
  shows "reorderMessagesBySequence xs = reorderMessagesBySequence ys"
proof -
  have "distinct (map seq_of (filter committed ys))"
    using assms(1,3) by (metis mset_eq_imp_distinct_iff mset_map)
  moreover have "sort_key seq_of (filter committed xs) = sort_key seq_of (filter committed ys)"
  proof (rule sort_key_inj_key_eq)
    show "mset (filter committed xs) = mset (sort_key seq_of (filter committed ys))"
      using assms(1) by simp
    show "inj_on seq_of (set (filter committed xs))"
      using assms(3) by (simp add: distinct_map)
  qed simp
  ultimately show ?thesis
    using assms by (simp add: reorder_distinct)
qed

text \<open>Reordering is idempotent, as long as the timestamps of the optimistic messages are valid.\<close>

lemma reorder_idempotent:
  assumes "\<forall>m \<in> set msgs. committed m \<or> get_time (m_created_at m) \<noteq> None"
  shows "reorderMessagesBySequence (reorderMessagesBySequence msgs) = reorderMessagesBySequence msgs"
proof -
  let ?os = "filter (\<lambda>m. \<not> committed m) msgs"
  obtain cs where cs: "reorderMessagesBySequence msgs = cs @ js_sort created_cmp ?os"
      "list_all committed cs" "sorted_wrt (<) (map seq_of cs)"
    using reorder_shape by blast
  have comm: "filter committed cs = cs" "filter (\<lambda>m. \<not> committed m) cs = []"
    using cs(2) by (auto simp: filter_empty_conv list_all_iff)
  have "distinct (map seq_of cs)" and "sorted (map seq_of cs)"
    using cs(3) by (simp_all add: strict_sorted_iff)
  moreover have "js_sort created_cmp (js_sort created_cmp ?os) = js_sort created_cmp ?os"
    using assms by (intro created_order.sort_idem) (auto simp: timed_def)
  ultimately show ?thesis
    by (subst reorder_distinct) (simp_all add: comm filter_reorder cs(1) sort_key_id_if_sorted)
qed

end
