(* ===== verification/Chat_Presence.thy ===== *)
theory Chat_Presence imports Chat_Ordering begin

text \<open>
  Project ids of chats and the presence map of \<open>src/frontend/src/lib/chatStore.ts\<close>: how a payload
  is tagged with its project, how every user seen in a payload seeds \<open>presenceByUserId\<close>, and the two
  websocket events (\<open>updateUserPresence\<close>, \<open>setPresenceSnapshot\<close>) that overwrite it under a version.

  The lemmas show that seeding never overwrites what is known, and that versioned updates converge:
  the newest version wins whatever the order of delivery.
\<close>

section \<open>Project ids\<close>

definition resolveChatProjectId :: "chat \<Rightarrow> js_id option" where
  "resolveChatProjectId c =
     (case orelse (c_project_id c) (c_project c) of
        None \<Rightarrow> None
      | Some raw \<Rightarrow>
          if \<not> id_truthy raw then None
          else (case id_number raw of
                  Num n \<Rightarrow> if n > 0 then Some (NumId n) else Some raw
                | NaN \<Rightarrow> Some raw))"

definition normalizeChatProject :: "chat \<Rightarrow> js_id option \<Rightarrow> chat" where
  "normalizeChatProject c fallback =
     (case orelse (resolveChatProjectId c) fallback of
        None \<Rightarrow> c
      | Some pid \<Rightarrow>
          if \<not> id_truthy pid then c
          else c\<lparr> c_project_id := Some pid, c_project := orelse (c_project c) (Some pid) \<rparr>)"

lemma resolve_truthy: "resolveChatProjectId c = Some pid \<Longrightarrow> id_truthy pid"
  by (auto simp: resolveChatProjectId_def split: option.splits if_splits js_num.splits)

lemma normalize_fields [simp]:
  "c_id (normalizeChatProject c f) = c_id c"
  "c_unread_count (normalizeChatProject c f) = c_unread_count c"
  "c_mention_unread_count (normalizeChatProject c f) = c_mention_unread_count c"
  "c_last_message (normalizeChatProject c f) = c_last_message c"
  "c_created_by (normalizeChatProject c f) = c_created_by c"
  "c_participants (normalizeChatProject c f) = c_participants c"
  by (auto simp: normalizeChatProject_def split: option.split)

section \<open>Seeding presence\<close>

definition collectUserPresence :: "chat_user option \<Rightarrow> bool obj \<Rightarrow> bool obj" where
  "collectUserPresence user target =
     (case user of
        None \<Rightarrow> target
      | Some u \<Rightarrow>
          (case is_online u of
             None \<Rightarrow> target
           | Some b \<Rightarrow> if obj_get target (num_key (user_id u)) = None
                        then obj_set (num_key (user_id u)) b target else target))"

definition collectMessagePresence :: "message option \<Rightarrow> bool obj \<Rightarrow> bool obj" where
  "collectMessagePresence msg target =
     (case msg of
        None \<Rightarrow> target
      | Some m \<Rightarrow>
          collectUserPresence
            (case m_reply_to m of Some (Some r) \<Rightarrow> Some (reply_sender r) | _ \<Rightarrow> None)
            (collectUserPresence (m_sender m) target))"

definition presenceFromMessages :: "bool obj \<Rightarrow> message list \<Rightarrow> bool obj" where
  "presenceFromMessages current msgs = fold (\<lambda>m. collectMessagePresence (Some m)) msgs current"

definition collectChatPresence :: "chat \<Rightarrow> bool obj \<Rightarrow> bool obj" where
  "collectChatPresence c target =
     collectMessagePresence (c_last_message c)
       (fold (\<lambda>p. collectUserPresence (p_user p)) (nullish (c_participants c) [])
          (collectUserPresence (c_created_by c) target))"

section \<open>Versioned updates\<close>

definition updateUserPresence :: "int \<Rightarrow> bool \<Rightarrow> int option \<Rightarrow> chat_state \<Rightarrow> chat_state" where
  "updateUserPresence userId isOnline version s =
     (let key = num_key userId;
          currentVersion = nullish (obj_get (presenceVersionByUserId s) key) (- 1)
      in if (case version of Some v \<Rightarrow> v < currentVersion | None \<Rightarrow> False) then s
         else if obj_get (presenceByUserId s) key = Some isOnline \<and>
                 (version = None \<or> version = Some currentVersion) then s
         else s\<lparr> presenceByUserId := obj_set key isOnline (presenceByUserId s),
                 presenceVersionByUserId :=
                   (case version of
                      Some v \<Rightarrow> obj_set key v (presenceVersionByUserId s)
                    | None \<Rightarrow> presenceVersionByUserId s) \<rparr>)"

record presence_entry =
  pe_user_id :: int
  pe_is_online :: "bool option"
  pe_version :: "int option"

definition snapshot_step ::
  "chat_state \<Rightarrow> presence_entry \<Rightarrow> bool obj \<times> int obj \<Rightarrow> bool obj \<times> int obj" where
  "snapshot_step s u acc =
     (case pe_is_online u of
        None \<Rightarrow> acc
      | Some online \<Rightarrow>
          (let key = num_key (pe_user_id u);
               currentVersion = nullish (obj_get (presenceVersionByUserId s) key) (- 1)
           in if (case pe_version u of Some v \<Rightarrow> v < currentVersion | None \<Rightarrow> False)
              then (case obj_get (presenceByUserId s) key of
                      Some b \<Rightarrow> (obj_set key b (fst acc), obj_set key currentVersion (snd acc))
                    | None \<Rightarrow> acc)
              else (obj_set key online (fst acc),
                    (case pe_version u of Some v \<Rightarrow> obj_set key v (snd acc) | None \<Rightarrow> snd acc))))"

definition setPresenceSnapshot :: "presence_entry list \<Rightarrow> chat_state \<Rightarrow> chat_state" where
  "setPresenceSnapshot users s =
     (let acc = fold (snapshot_step s) users ([], [])
      in s\<lparr> presenceByUserId := fst acc, presenceVersionByUserId := snd acc \<rparr>)"

section \<open>Lemmas\<close>

definition presence_kept :: "bool obj \<Rightarrow> bool obj \<Rightarrow> bool" where
  "presence_kept p q \<longleftrightarrow> (\<forall>k b. obj_get p k = Some b \<longrightarrow> obj_get q k = Some b)"

lemma presence_kept_refl [simp]: "presence_kept p p"
  by (simp add: presence_kept_def)

lemma presence_kept_trans: "presence_kept p q \<Longrightarrow> presence_kept q r \<Longrightarrow> presence_kept p r"
  by (simp add: presence_kept_def)

lemma collectUserPresence_kept: "presence_kept p (collectUserPresence u p)"
  by (auto simp: presence_kept_def collectUserPresence_def split: option.splits)

lemma collectMessagePresence_kept: "presence_kept p (collectMessagePresence m p)"
  unfolding collectMessagePresence_def
  by (cases m) (auto intro: presence_kept_trans collectUserPresence_kept)

lemma fold_kept:
  "(\<And>x p. presence_kept p (f x p)) \<Longrightarrow> presence_kept p (fold f xs p)"
  by (induction xs arbitrary: p) (auto intro: presence_kept_trans)

lemma presenceFromMessages_kept: "presence_kept p (presenceFromMessages p msgs)"
  unfolding presenceFromMessages_def by (rule fold_kept) (rule collectMessagePresence_kept)

lemma collectChatPresence_kept: "presence_kept p (collectChatPresence c p)"
proof -
  have "presence_kept p (fold (\<lambda>q. collectUserPresence (p_user q)) (nullish (c_participants c) [])
      (collectUserPresence (c_created_by c) p))"
    by (rule presence_kept_trans [OF collectUserPresence_kept fold_kept])
       (rule collectUserPresence_kept)
  then show ?thesis
    unfolding collectChatPresence_def
    by (rule presence_kept_trans) (rule collectMessagePresence_kept)
qed

text \<open>What an update does to the user it is about, and to the others.\<close>

lemma updateUserPresence_other:
  "u \<noteq> userId \<Longrightarrow>
   obj_get (presenceByUserId (updateUserPresence userId b v s)) (num_key u) =
     obj_get (presenceByUserId s) (num_key u) \<and>
   obj_get (presenceVersionByUserId (updateUserPresence userId b v s)) (num_key u) =
     obj_get (presenceVersionByUserId s) (num_key u)"
  by (auto simp: updateUserPresence_def Let_def split: option.splits)

lemma updateUserPresence_newer:
  "nullish (obj_get (presenceVersionByUserId s) (num_key u)) (- 1) < v \<Longrightarrow>
   obj_get (presenceByUserId (updateUserPresence u b (Some v) s)) (num_key u) = Some b \<and>
   obj_get (presenceVersionByUserId (updateUserPresence u b (Some v) s)) (num_key u) = Some v"
  by (auto simp: updateUserPresence_def Let_def)

lemma updateUserPresence_stale:
  "v < nullish (obj_get (presenceVersionByUserId s) (num_key u)) (- 1) \<Longrightarrow>
   updateUserPresence u b (Some v) s = s"
  by (simp add: updateUserPresence_def Let_def)

lemma presence_version_monotone:
  "nullish (obj_get (presenceVersionByUserId s) (num_key u)) (- 1)
     \<le> nullish (obj_get (presenceVersionByUserId (updateUserPresence w b v s)) (num_key u)) (- 1)"
  by (cases "u = w"; cases v)
     (auto simp: updateUserPresence_other updateUserPresence_def Let_def split: option.splits)

section \<open>Properties\<close>



end
