(* ===== verification/Chat_Chats.thy ===== *)
theory Chat_Chats imports Chat_Presence begin

text \<open>
  The chat lists, the unread and mention badges, the typing indicators and the UI state of
  \<open>src/frontend/src/lib/chatStore.ts\<close>: one definition per action, from the state to the state.  A
  \<open>set(state => state)\<close> that returns its argument is the identity.

  \<open>clearMentionedChat\<close> is fallible: it walks the keys of \<open>chatsByProject\<close> through \<open>parseInt\<close>, and a
  project that is keyed by a name makes it read a property that is not there.
\<close>

section \<open>Loading the chats of a project\<close>

definition synced_unread :: "int option \<Rightarrow> int obj \<Rightarrow> chat \<Rightarrow> int" where
  "synced_unread current counts c =
     (let backendCount = nullish (c_unread_count c) 0;
          localCount = obj_get counts (num_key (c_id c))
      in if Some (c_id c) = current then 0
         else if localCount = Some 0 \<and> backendCount > 0 then 0
         else (case localCount of Some l \<Rightarrow> max l backendCount | None \<Rightarrow> backendCount))"

definition setChatsForProject :: "js_id \<Rightarrow> chat list \<Rightarrow> chat_state \<Rightarrow> chat_state" where
  "setChatsForProject projectId chats s =
     (let normalizedChats = map (\<lambda>c. normalizeChatProject c (Some projectId)) chats;
          nextPresence = fold collectChatPresence normalizedChats (presenceByUserId s);
          newUnreadCounts =
            fold (\<lambda>c. obj_set (num_key (c_id c)) (synced_unread (currentChatId s) (unreadCounts s) c))
              normalizedChats (unreadCounts s);
          newCaptured =
            (case currentChatId s of
               None \<Rightarrow> capturedUnreadCounts s
             | Some cur \<Rightarrow>
                 obj_set (num_key cur)
                   (case List.find (\<lambda>c. c_id c = cur) normalizedChats of
                      None \<Rightarrow> 0 | Some c \<Rightarrow> nullish (c_unread_count c) 0)
                   (capturedUnreadCounts s));
          updatedChats =
            map (\<lambda>c. c\<lparr> c_unread_count :=
                    Some (nullish (obj_get newUnreadCounts (num_key (c_id c)))
                            (nullish (c_unread_count c) 0)) \<rparr>) normalizedChats
      in s\<lparr> chatsByProject := obj_set (id_key projectId) updatedChats (chatsByProject s),
            unreadCounts := newUnreadCounts,
            capturedUnreadCounts := newCaptured,
            presenceByUserId := nextPresence \<rparr>)"

definition getChatsForProject :: "js_id option \<Rightarrow> chat_state \<Rightarrow> chat list" where
  "getChatsForProject projectId s =
     (case projectId of
        None \<Rightarrow> []
      | Some pid \<Rightarrow>
          if \<not> id_truthy pid then [] else nullish (obj_get (chatsByProject s) (id_key pid)) [])"

definition addChat :: "chat \<Rightarrow> chat_state \<Rightarrow> chat_state" where
  "addChat c s =
     (case resolveChatProjectId c of
        None \<Rightarrow> s
      | Some pid \<Rightarrow>
          (let normalizedChat = normalizeChatProject c (Some pid);
               existingChats = nullish (obj_get (chatsByProject s) (id_key pid)) [];
               dedupedChats = filter (\<lambda>e. c_id e \<noteq> c_id normalizedChat) existingChats
           in s\<lparr> chatsByProject := obj_set (id_key pid) (normalizedChat # dedupedChats) (chatsByProject s),
                 unreadCounts := obj_set (num_key (c_id normalizedChat))
                   (nullish (c_unread_count normalizedChat) 0) (unreadCounts s),
                 presenceByUserId := collectChatPresence normalizedChat (presenceByUserId s) \<rparr>))"

definition removeChat :: "int \<Rightarrow> chat_state \<Rightarrow> chat_state" where
  "removeChat chatId s =
     (let clearCurrentChat = (currentChatId s = Some chatId);
          clearWidgetChat = (widgetChatId s = Some chatId);
          removedUnread = nullish (obj_get (unreadCounts s) (num_key chatId)) 0
      in s\<lparr> chatsByProject := obj_map (\<lambda>_. filter (\<lambda>c. c_id c \<noteq> chatId)) (chatsByProject s),
            messages := obj_del (num_key chatId) (messages s),
            unreadCounts := obj_del (num_key chatId) (unreadCounts s),
            globalUnreadCount := max 0 (globalUnreadCount s - removedUnread),
            currentChatId := (if clearCurrentChat then None else currentChatId s),
            currentView := (if clearCurrentChat then ViewList else currentView s),
            widgetChatId := (if clearWidgetChat then None else widgetChatId s),
            widgetView := (if clearWidgetChat then ViewList else widgetView s) \<rparr>)"

definition updateChat :: "int \<Rightarrow> chat_patch \<Rightarrow> chat_state \<Rightarrow> chat_state" where
  "updateChat chatId updates s =
     s\<lparr> chatsByProject :=
          obj_map (\<lambda>_. map_where (\<lambda>c. c_id c = chatId) (\<lambda>c. spread_chat c updates)) (chatsByProject s) \<rparr>"

section \<open>Opening a chat\<close>

definition captured_count :: "int \<Rightarrow> chat list obj \<Rightarrow> int" where
  "captured_count chatId byProject =
     fold (\<lambda>chats acc. case List.find (\<lambda>c. c_id c = chatId) chats of
                         None \<Rightarrow> acc | Some found \<Rightarrow> nullish (c_unread_count found) 0)
       (obj_values byProject) 0"

definition clear_mention_counts :: "int \<Rightarrow> chat list \<Rightarrow> chat list" where
  "clear_mention_counts chatId =
     map_where (\<lambda>c. c_id c = chatId) (\<lambda>c. c\<lparr> c_mention_unread_count := Some 0 \<rparr>)"

definition setCurrentChat :: "int option \<Rightarrow> chat_state \<Rightarrow> chat_state" where
  "setCurrentChat chatId s =
     (case chatId of
        None \<Rightarrow> s\<lparr> currentChatId := None, currentView := ViewList \<rparr>
      | Some cid \<Rightarrow>
          s\<lparr> currentChatId := Some cid,
             currentView := ViewChat,
             unreadCounts := obj_set (num_key cid) 0 (unreadCounts s),
             capturedUnreadCounts :=
               obj_set (num_key cid) (captured_count cid (chatsByProject s)) (capturedUnreadCounts s),
             mentionedChatIds := obj_del (num_key cid) (mentionedChatIds s),
             chatsByProject := obj_map (\<lambda>_. clear_mention_counts cid) (chatsByProject s) \<rparr>)"

definition setWidgetChat :: "int option \<Rightarrow> chat_state \<Rightarrow> chat_state" where
  "setWidgetChat chatId s =
     (case chatId of
        None \<Rightarrow> s\<lparr> widgetChatId := None, widgetView := ViewList \<rparr>
      | Some cid \<Rightarrow>
          s\<lparr> widgetChatId := Some cid,
             widgetView := ViewChat,
             unreadCounts := obj_set (num_key cid) 0 (unreadCounts s),
             capturedUnreadCounts :=
               obj_set (num_key cid) (captured_count cid (chatsByProject s)) (capturedUnreadCounts s),
             mentionedChatIds := obj_del (num_key cid) (mentionedChatIds s),
             chatsByProject := obj_map (\<lambda>_. clear_mention_counts cid) (chatsByProject s) \<rparr>)"

section \<open>Unread counts\<close>

definition updateUnreadCount :: "int \<Rightarrow> int \<Rightarrow> chat_state \<Rightarrow> chat_state" where
  "updateUnreadCount chatId newCount s =
     (let safeCount = max 0 newCount
      in s\<lparr> unreadCounts := obj_set (num_key chatId) safeCount (unreadCounts s),
            chatsByProject :=
              obj_map (\<lambda>_. map_where (\<lambda>c. c_id c = chatId)
                (\<lambda>c. c\<lparr> c_unread_count := Some safeCount,
                        c_mention_unread_count :=
                          (if safeCount = 0 then Some 0 else c_mention_unread_count c) \<rparr>))
                (chatsByProject s),
            mentionedChatIds :=
              (if safeCount = 0 then obj_del (num_key chatId) (mentionedChatIds s)
               else mentionedChatIds s) \<rparr>)"

definition decrementUnreadCount :: "int \<Rightarrow> chat_state \<Rightarrow> chat_state" where
  "decrementUnreadCount chatId s =
     updateUnreadCount chatId (nullish (obj_get (unreadCounts s) (num_key chatId)) 0 - 1) s"

definition getTotalUnreadCount :: "chat_state \<Rightarrow> int" where
  "getTotalUnreadCount s = foldl (+) 0 (obj_values (unreadCounts s))"

definition setGlobalUnreadCount :: "int \<Rightarrow> chat_state \<Rightarrow> chat_state" where
  "setGlobalUnreadCount newCount s = s\<lparr> globalUnreadCount := max 0 newCount \<rparr>"

definition incrementGlobalUnreadCount :: "chat_state \<Rightarrow> chat_state" where
  "incrementGlobalUnreadCount s = s\<lparr> globalUnreadCount := globalUnreadCount s + 1 \<rparr>"

definition decrementGlobalUnreadCount :: "int \<Rightarrow> chat_state \<Rightarrow> chat_state" where
  "decrementGlobalUnreadCount amount s =
     s\<lparr> globalUnreadCount := max 0 (globalUnreadCount s - amount) \<rparr>"

text \<open>\<open>fetchGlobalUnreadCount\<close>: the API's answer is a parameter; a failure leaves the state alone and
  returns 0.\<close>

definition fetchGlobalUnreadCount :: "js_error + int \<Rightarrow> chat_state \<Rightarrow> int \<times> chat_state" where
  "fetchGlobalUnreadCount response s =
     (case response of
        Inr newCount \<Rightarrow> (newCount, s\<lparr> globalUnreadCount := newCount \<rparr>)
      | Inl _ \<Rightarrow> (0, s))"

section \<open>Typing indicators\<close>

definition setTypingUser :: "int \<Rightarrow> int \<Rightarrow> chat_state \<Rightarrow> chat_state" where
  "setTypingUser chatId userId s =
     (let current = nullish (obj_get (typingUsersByChat s) (num_key chatId)) []
      in if userId \<in> set current then s
         else s\<lparr> typingUsersByChat := obj_set (num_key chatId) (current @ [userId]) (typingUsersByChat s) \<rparr>)"

definition clearTypingUser :: "int \<Rightarrow> int \<Rightarrow> chat_state \<Rightarrow> chat_state" where
  "clearTypingUser chatId userId s =
     (case obj_get (typingUsersByChat s) (num_key chatId) of
        None \<Rightarrow> s
      | Some current \<Rightarrow>
          if userId \<notin> set current then s
          else (let nxt = filter (\<lambda>u. u \<noteq> userId) current
                in s\<lparr> typingUsersByChat :=
                       (if length nxt = 0 then obj_del (num_key chatId) (typingUsersByChat s)
                        else obj_set (num_key chatId) nxt (typingUsersByChat s)) \<rparr>))"

definition getTypingUsers :: "int \<Rightarrow> chat_state \<Rightarrow> int list" where
  "getTypingUsers chatId s = nullish (obj_get (typingUsersByChat s) (num_key chatId)) []"

section \<open>UI state\<close>

definition openWidget :: "chat_state \<Rightarrow> chat_state" where
  "openWidget s = s\<lparr> isWidgetOpen := True \<rparr>"

definition closeWidget :: "chat_state \<Rightarrow> chat_state" where
  "closeWidget s = s\<lparr> isWidgetOpen := False, widgetChatId := None, widgetView := ViewList \<rparr>"

definition setWidgetProjectId :: "js_id option \<Rightarrow> chat_state \<Rightarrow> chat_state" where
  "setWidgetProjectId pid s = s\<lparr> widgetProjectId := pid \<rparr>"

definition setWidgetView :: "chat_view \<Rightarrow> chat_state \<Rightarrow> chat_state" where
  "setWidgetView v s = s\<lparr> widgetView := v \<rparr>"

definition setMessagePageOpen :: "bool \<Rightarrow> chat_state \<Rightarrow> chat_state" where
  "setMessagePageOpen isOpen s =
     s\<lparr> isMessagePageOpen := isOpen, isWidgetOpen := (if isOpen then False else isWidgetOpen s) \<rparr>"

definition setSelectedProjectId :: "js_id option \<Rightarrow> chat_state \<Rightarrow> chat_state" where
  "setSelectedProjectId pid s = s\<lparr> selectedProjectId := pid \<rparr>"

definition setView :: "chat_view \<Rightarrow> chat_state \<Rightarrow> chat_state" where
  "setView v s = s\<lparr> currentView := v \<rparr>"

definition setLoading :: "bool \<Rightarrow> chat_state \<Rightarrow> chat_state" where
  "setLoading b s = s\<lparr> isLoading := b \<rparr>"

definition getCurrentChat :: "chat_state \<Rightarrow> chat option" where
  "getCurrentChat s =
     (case (currentChatId s, selectedProjectId s) of
        (Some cid, Some pid) \<Rightarrow>
          if cid = 0 \<or> \<not> id_truthy pid then None
          else List.find (\<lambda>c. c_id c = cid) (nullish (obj_get (chatsByProject s) (id_key pid)) [])
      | _ \<Rightarrow> None)"

definition getCurrentMessages :: "chat_state \<Rightarrow> message list" where
  "getCurrentMessages s =
     (case currentChatId s of
        None \<Rightarrow> []
      | Some cid \<Rightarrow> if cid = 0 then [] else nullish (obj_get (messages s) (num_key cid)) [])"

definition triggerChatActivity :: "int \<Rightarrow> chat_state \<Rightarrow> chat_state" where
  "triggerChatActivity now s = s\<lparr> lastChatActivity := now \<rparr>"

definition triggerFilesRefresh :: "int \<Rightarrow> chat_state \<Rightarrow> chat_state" where
  "triggerFilesRefresh now s = s\<lparr> filesRefreshAt := now \<rparr>"

section \<open>Mention and pin badges\<close>

definition addMentionedChat :: "int \<Rightarrow> chat_state \<Rightarrow> chat_state" where
  "addMentionedChat chatId s = s\<lparr> mentionedChatIds := obj_set (num_key chatId) True (mentionedChatIds s) \<rparr>"

fun clear_mentions_at :: "int \<Rightarrow> pkey list \<Rightarrow> chat list obj \<Rightarrow> js_error + chat list obj" where
  "clear_mentions_at chatId [] byProject = Inr byProject"
| "clear_mentions_at chatId (k # ks) byProject =
     (let projectId = js_num_key (js_parse_int (key_string k))
      in case obj_get byProject projectId of
           None \<Rightarrow> Inl TypeError
         | Some chats \<Rightarrow>
             clear_mentions_at chatId ks (obj_set projectId (clear_mention_counts chatId chats) byProject))"

definition clearMentionedChat :: "int \<Rightarrow> chat_state \<Rightarrow> js_error + chat_state" where
  "clearMentionedChat chatId s =
     (case clear_mentions_at chatId (obj_keys (chatsByProject s)) (chatsByProject s) of
        Inl e \<Rightarrow> Inl e
      | Inr newChatsByProject \<Rightarrow>
          Inr (s\<lparr> mentionedChatIds := obj_del (num_key chatId) (mentionedChatIds s),
                  chatsByProject := newChatsByProject \<rparr>))"

definition markChatPinUnseen :: "int \<Rightarrow> chat_state \<Rightarrow> chat_state" where
  "markChatPinUnseen chatId s = s\<lparr> unseenPinChatIds := obj_set (num_key chatId) True (unseenPinChatIds s) \<rparr>"

definition clearChatPinUnseen :: "int \<Rightarrow> chat_state \<Rightarrow> chat_state" where
  "clearChatPinUnseen chatId s = s\<lparr> unseenPinChatIds := obj_del (num_key chatId) (unseenPinChatIds s) \<rparr>"

section \<open>Slugs\<close>

fun slug_in :: "int \<Rightarrow> chat list list \<Rightarrow> string option" where
  "slug_in chatId [] = None"
| "slug_in chatId (chats # rest) =
     (case List.find (\<lambda>c. c_id c = chatId) chats of
        Some c \<Rightarrow>
          (case c_slug c of
             Some slug \<Rightarrow> if slug \<noteq> [] then Some slug else slug_in chatId rest
           | None \<Rightarrow> slug_in chatId rest)
      | None \<Rightarrow> slug_in chatId rest)"

definition getChatSlugById :: "int \<Rightarrow> chat_state \<Rightarrow> string option" where
  "getChatSlugById chatId s = slug_in chatId (obj_values (chatsByProject s))"

lemmas chat_op_defs [store_defs] =
  setChatsForProject_def addChat_def removeChat_def updateChat_def setCurrentChat_def
  setWidgetChat_def updateUnreadCount_def decrementUnreadCount_def setGlobalUnreadCount_def
  incrementGlobalUnreadCount_def decrementGlobalUnreadCount_def setTypingUser_def
  clearTypingUser_def openWidget_def closeWidget_def setWidgetProjectId_def setWidgetView_def
  setMessagePageOpen_def setSelectedProjectId_def setView_def setLoading_def
  triggerChatActivity_def triggerFilesRefresh_def addMentionedChat_def markChatPinUnseen_def
  clearChatPinUnseen_def

end
