(* ===== verification/Chat_Messages.thy ===== *)
theory Chat_Messages imports Chat_Chats begin

text \<open>
  The message actions of \<open>src/frontend/src/lib/chatStore.ts\<close>: history and live messages, thread
  replies, reactions, link previews and pending attachments.  \<open>addMessage\<close> takes its chat id as a
  \<open>js_num\<close> because \<open>markOutboxSent\<close> can hand it \<open>NaN\<close>.
\<close>

section \<open>Timeline messages\<close>

definition setMessages :: "int \<Rightarrow> message list \<Rightarrow> chat_state \<Rightarrow> chat_state" where
  "setMessages chatId msgs s =
     (let existingMessages = nullish (obj_get (messages s) (num_key chatId)) [];
          orderedMessages = reorderMessagesBySequence (msgs @ existingMessages)
      in s\<lparr> messages := obj_set (num_key chatId) orderedMessages (messages s),
            presenceByUserId := presenceFromMessages (presenceByUserId s) orderedMessages \<rparr>)"

definition sender_id :: "message \<Rightarrow> int option" where
  "sender_id msg =
     (case m_sender msg of
        None \<Rightarrow> None
      | Some u \<Rightarrow> if user_id u = 0 then None else Some (user_id u))"

definition should_increment_unread :: "js_num \<Rightarrow> message \<Rightarrow> int option \<Rightarrow> chat_state \<Rightarrow> bool" where
  "should_increment_unread chatId msg currentUserId s \<longleftrightarrow>
     \<not> (case currentChatId s of None \<Rightarrow> False | Some cur \<Rightarrow> num_eq (Num cur) chatId) \<and>
     \<not> (currentUserId \<noteq> None \<and> sender_id msg \<noteq> None \<and> sender_id msg = currentUserId)"

definition mentions_user :: "message \<Rightarrow> int option \<Rightarrow> bool" where
  "mentions_user msg currentUserId =
     (case currentUserId of
        None \<Rightarrow> False
      | Some uid \<Rightarrow> list_ex (\<lambda>i. i = uid) (nullish (m_mentioned_user_ids msg) []))"

definition touch_chat :: "message \<Rightarrow> int \<Rightarrow> bool \<Rightarrow> chat \<Rightarrow> chat" where
  "touch_chat msg newUnreadCount mentioned c =
     c\<lparr> c_last_message := (if isLaterMessage msg (c_last_message c) then Some msg else c_last_message c),
        c_unread_count := Some newUnreadCount,
        c_mention_unread_count :=
          (if mentioned then Some (nullish (c_mention_unread_count c) 0 + 1)
           else c_mention_unread_count c) \<rparr>"

definition addMessage ::
  "js_num \<Rightarrow> message \<Rightarrow> int option \<Rightarrow> string option \<Rightarrow> chat_state \<Rightarrow> chat_state" where
  "addMessage chatId msg currentUserId replaceClientMessageId s =
     (let key = js_num_key chatId;
          storedMessages = nullish (obj_get (messages s) key) [];
          existingMessages =
            (case replaceClientMessageId of
               Some cid \<Rightarrow> if cid \<noteq> [] then stripOptimisticOutboxMessages storedMessages cid
                           else storedMessages
             | None \<Rightarrow> storedMessages);
          nextPresence = presenceFromMessages (presenceByUserId s) [msg]
      in case find_index (\<lambda>m. m_id m = m_id msg) existingMessages of
           Some i \<Rightarrow>
             (let existing = existingMessages ! i
              in if \<not> shouldMergeIncomingMessage existing msg then s
                 else s\<lparr> messages :=
                           obj_set key
                             (reorderMessagesBySequence
                               (existingMessages[i := merge_message existing msg]))
                             (messages s),
                         presenceByUserId := nextPresence \<rparr>)
         | None \<Rightarrow>
             (let shouldIncrementUnread = should_increment_unread chatId msg currentUserId s;
                  mentionedCurrentUser = (shouldIncrementUnread \<and> mentions_user msg currentUserId);
                  currentUnreadCount = nullish (obj_get (unreadCounts s) key) 0;
                  newUnreadCount =
                    (if shouldIncrementUnread then currentUnreadCount + 1 else currentUnreadCount)
              in s\<lparr> messages :=
                      obj_set key (reorderMessagesBySequence (existingMessages @ [msg])) (messages s),
                    chatsByProject :=
                      obj_map (\<lambda>_. map_where (\<lambda>c. num_eq (Num (c_id c)) chatId)
                                     (touch_chat msg newUnreadCount mentionedCurrentUser))
                        (chatsByProject s),
                    unreadCounts := obj_set key newUnreadCount (unreadCounts s),
                    presenceByUserId := nextPresence,
                    mentionedChatIds :=
                      (if mentionedCurrentUser then obj_set key True (mentionedChatIds s)
                       else mentionedChatIds s) \<rparr>))"

definition prependMessages :: "int \<Rightarrow> message list \<Rightarrow> chat_state \<Rightarrow> chat_state" where
  "prependMessages chatId msgs s =
     (let existingMessages = nullish (obj_get (messages s) (num_key chatId)) [];
          newMessages = filter (\<lambda>n. \<not> list_ex (\<lambda>e. m_id e = m_id n) existingMessages) msgs
      in s\<lparr> messages :=
              obj_set (num_key chatId) (reorderMessagesBySequence (newMessages @ existingMessages))
                (messages s),
            presenceByUserId := presenceFromMessages (presenceByUserId s) newMessages \<rparr>)"

definition updateMessage :: "int \<Rightarrow> message_patch \<Rightarrow> chat_state \<Rightarrow> chat_state" where
  "updateMessage messageId updates s =
     s\<lparr> messages :=
          obj_map (\<lambda>_. map_where (\<lambda>m. m_id m = messageId) (\<lambda>m. spread_message m updates)) (messages s) \<rparr>"

definition removeMessage :: "int \<Rightarrow> chat_state \<Rightarrow> chat_state" where
  "removeMessage messageId s =
     s\<lparr> deletedMessageIds :=
          (if messageId \<in> set (deletedMessageIds s) then deletedMessageIds s
           else deletedMessageIds s @ [messageId]),
        messages := obj_map (\<lambda>_. filter (\<lambda>m. m_id m \<noteq> messageId)) (messages s) \<rparr>"

section \<open>Pending attachments\<close>

definition revokeAttachmentPreview :: "pending_attachment option \<Rightarrow> chat_state \<Rightarrow> chat_state" where
  "revokeAttachmentPreview a s =
     (case a of
        None \<Rightarrow> s
      | Some att \<Rightarrow>
          (case pa_preview att of
             None \<Rightarrow> s
           | Some url \<Rightarrow> if url = [] then s else s\<lparr> revokedPreviews := revokedPreviews s @ [url] \<rparr>))"

definition revokeAttachmentPreviews :: "pending_attachment list \<Rightarrow> chat_state \<Rightarrow> chat_state" where
  "revokeAttachmentPreviews as s = fold (\<lambda>a. revokeAttachmentPreview (Some a)) as s"

definition addPendingAttachments :: "int \<Rightarrow> pending_attachment list \<Rightarrow> chat_state \<Rightarrow> chat_state" where
  "addPendingAttachments chatId attachments s =
     (if length attachments = 0 then s
      else s\<lparr> pendingAttachmentsByChat :=
                obj_set (num_key chatId)
                  (nullish (obj_get (pendingAttachmentsByChat s) (num_key chatId)) [] @ attachments)
                  (pendingAttachmentsByChat s) \<rparr>)"

definition updatePendingAttachment :: "int \<Rightarrow> string \<Rightarrow> attachment_patch \<Rightarrow> chat_state \<Rightarrow> chat_state" where
  "updatePendingAttachment chatId attachmentId updates s =
     (case obj_get (pendingAttachmentsByChat s) (num_key chatId) of
        None \<Rightarrow> s
      | Some attachments \<Rightarrow>
          if \<not> list_ex (\<lambda>a. pa_id a = attachmentId) attachments then s
          else s\<lparr> pendingAttachmentsByChat :=
                    obj_set (num_key chatId)
                      (map_where (\<lambda>a. pa_id a = attachmentId) (\<lambda>a. spread_attachment a updates)
                         attachments)
                      (pendingAttachmentsByChat s) \<rparr>)"

definition removePendingAttachment :: "int \<Rightarrow> string \<Rightarrow> chat_state \<Rightarrow> chat_state" where
  "removePendingAttachment chatId attachmentId s =
     (case obj_get (pendingAttachmentsByChat s) (num_key chatId) of
        None \<Rightarrow> s
      | Some attachments \<Rightarrow>
          (let attachmentToRemove = List.find (\<lambda>a. pa_id a = attachmentId) attachments;
               nextAttachments = filter (\<lambda>a. pa_id a \<noteq> attachmentId) attachments
           in if length nextAttachments = length attachments then s
              else (revokeAttachmentPreview attachmentToRemove s)
                     \<lparr> pendingAttachmentsByChat :=
                         (if length nextAttachments = 0
                          then obj_del (num_key chatId) (pendingAttachmentsByChat s)
                          else obj_set (num_key chatId) nextAttachments (pendingAttachmentsByChat s)) \<rparr>))"

definition clearPendingAttachments :: "int \<Rightarrow> chat_state \<Rightarrow> chat_state" where
  "clearPendingAttachments chatId s =
     (case obj_get (pendingAttachmentsByChat s) (num_key chatId) of
        None \<Rightarrow> s
      | Some attachments \<Rightarrow>
          if length attachments = 0 then s
          else (revokeAttachmentPreviews attachments s)
                 \<lparr> pendingAttachmentsByChat := obj_del (num_key chatId) (pendingAttachmentsByChat s) \<rparr>)"

section \<open>Reactions\<close>

datatype reaction_action = Added | Removed

definition acted :: "int \<Rightarrow> chat_reaction \<Rightarrow> bool" where
  "acted actorId r \<longleftrightarrow> list_ex (\<lambda>u. user_id u = actorId) (r_users r)"

definition add_reaction ::
  "string \<Rightarrow> chat_user \<Rightarrow> int option \<Rightarrow> chat_reaction list \<Rightarrow> chat_reaction list" where
  "add_reaction emoji user currentId existing =
     (case find_index (\<lambda>r. r_emoji r = emoji) existing of
        Some idx \<Rightarrow>
          (let r = existing ! idx
           in if acted (user_id user) r then existing
              else existing[idx := r\<lparr> r_count := r_count r + 1,
                                      r_users := r_users r @ [user],
                                      reacted_by_me := (reacted_by_me r \<or> Some (user_id user) = currentId) \<rparr>])
      | None \<Rightarrow>
          existing @ [\<lparr> r_emoji = emoji, r_count = 1, r_users = [user],
                        reacted_by_me = (Some (user_id user) = currentId) \<rparr>])"

definition drop_reaction ::
  "string \<Rightarrow> int \<Rightarrow> int option \<Rightarrow> chat_reaction list \<Rightarrow> chat_reaction list" where
  "drop_reaction emoji actorId currentId existing =
     (case List.find (\<lambda>r. r_emoji r = emoji) existing of
        None \<Rightarrow> existing
      | Some reaction \<Rightarrow>
          if \<not> acted actorId reaction then existing
          else filter (\<lambda>r. r_count r > 0)
                 (map_where (\<lambda>r. r_emoji r = emoji)
                    (\<lambda>r. let users = filter (\<lambda>u. user_id u \<noteq> actorId) (r_users r)
                         in r\<lparr> r_count := int (length users),
                               r_users := users,
                               reacted_by_me := (if Some actorId = currentId then False
                                                 else reacted_by_me r) \<rparr>)
                    existing))"

text \<open>
  \<open>applyToMessage\<close> of the code.  Where \<open>add_reaction\<close> leaves the list as it is (the user has reacted
  already) the list is present and the message is returned unchanged.
\<close>

definition react_message ::
  "int \<Rightarrow> string \<Rightarrow> reaction_action \<Rightarrow> chat_user \<Rightarrow> int option \<Rightarrow> message \<Rightarrow> message" where
  "react_message messageId emoji action user currentId msg =
     (if m_id msg \<noteq> messageId then msg
      else (let existing = nullish (m_reactions msg) []
            in case action of
                 Added \<Rightarrow> msg\<lparr> m_reactions := Some (add_reaction emoji user currentId existing) \<rparr>
               | Removed \<Rightarrow>
                   (case List.find (\<lambda>r. r_emoji r = emoji) existing of
                      None \<Rightarrow> msg
                    | Some reaction \<Rightarrow>
                        if \<not> acted (user_id user) reaction then msg
                        else msg\<lparr> m_reactions := Some (drop_reaction emoji (user_id user) currentId existing) \<rparr>)))"

definition map_if_has :: "int \<Rightarrow> (message \<Rightarrow> message) \<Rightarrow> message list \<Rightarrow> message list" where
  "map_if_has messageId f msgs =
     (if list_ex (\<lambda>m. m_id m = messageId) msgs then map f msgs else msgs)"

definition applyReactionUpdate ::
  "int \<Rightarrow> string \<Rightarrow> reaction_action \<Rightarrow> chat_user \<Rightarrow> int option \<Rightarrow> chat_state \<Rightarrow> chat_state" where
  "applyReactionUpdate messageId emoji action user currentUserId s =
     (let f = react_message messageId emoji action user currentUserId
      in s\<lparr> messages := obj_map (\<lambda>_. map f) (messages s),
            threadReplies := obj_map (\<lambda>_. map_if_has messageId f) (threadReplies s),
            presenceByUserId := collectUserPresence (Some user) (presenceByUserId s) \<rparr>)"

section \<open>Link previews\<close>

definition set_preview :: "int \<Rightarrow> link_preview option \<Rightarrow> message \<Rightarrow> message" where
  "set_preview messageId preview msg =
     (if m_id msg = messageId then msg\<lparr> m_link_preview := Some preview \<rparr> else msg)"

definition applyLinkPreview :: "int \<Rightarrow> link_preview \<Rightarrow> chat_state \<Rightarrow> chat_state" where
  "applyLinkPreview messageId preview s =
     s\<lparr> messages := obj_map (\<lambda>_. map_if_has messageId (set_preview messageId (Some preview))) (messages s),
        threadReplies :=
          obj_map (\<lambda>_. map_if_has messageId (set_preview messageId (Some preview))) (threadReplies s) \<rparr>"

definition clearLinkPreview :: "int \<Rightarrow> chat_state \<Rightarrow> chat_state" where
  "clearLinkPreview messageId s =
     s\<lparr> messages := obj_map (\<lambda>_. map_if_has messageId (set_preview messageId None)) (messages s),
        threadReplies :=
          obj_map (\<lambda>_. map_if_has messageId (set_preview messageId None)) (threadReplies s) \<rparr>"

section \<open>Threads\<close>

definition setActiveThreadMessageId :: "int option \<Rightarrow> chat_state \<Rightarrow> chat_state" where
  "setActiveThreadMessageId i s = s\<lparr> activeThreadMessageId := i \<rparr>"

definition setThreadReplies :: "int \<Rightarrow> message list \<Rightarrow> chat_state \<Rightarrow> chat_state" where
  "setThreadReplies rootId replies s =
     s\<lparr> threadReplies := obj_set (num_key rootId) (reorderMessagesBySequence replies) (threadReplies s),
        presenceByUserId := presenceFromMessages (presenceByUserId s) replies \<rparr>"

definition addThreadReply :: "int \<Rightarrow> message \<Rightarrow> chat_state \<Rightarrow> chat_state" where
  "addThreadReply rootId reply s =
     (let existing = nullish (obj_get (threadReplies s) (num_key rootId)) []
      in if list_ex (\<lambda>r. m_id r = m_id reply) existing then s
         else s\<lparr> threadReplies :=
                   obj_set (num_key rootId) (reorderMessagesBySequence (existing @ [reply]))
                     (threadReplies s),
                 presenceByUserId := presenceFromMessages (presenceByUserId s) [reply] \<rparr>)"

text \<open>The loop over the threads stops at the first one that holds the reply.\<close>

fun update_first_thread :: "int \<Rightarrow> message_patch \<Rightarrow> message list obj \<Rightarrow> message list obj" where
  "update_first_thread replyId updates [] = []"
| "update_first_thread replyId updates ((k, replies) # rest) =
     (if list_ex (\<lambda>r. m_id r = replyId) replies
      then (k, map_where (\<lambda>r. m_id r = replyId) (\<lambda>r. spread_message r updates) replies) # rest
      else (k, replies) # update_first_thread replyId updates rest)"

definition updateThreadReply :: "int \<Rightarrow> message_patch \<Rightarrow> chat_state \<Rightarrow> chat_state" where
  "updateThreadReply replyId updates s =
     s\<lparr> threadReplies := update_first_thread replyId updates (threadReplies s) \<rparr>"

section \<open>Logging out\<close>

definition clearUserState :: "chat_state \<Rightarrow> chat_state" where
  "clearUserState s =
     (revokeAttachmentPreviews (concat (obj_values (pendingAttachmentsByChat s))) s)
       \<lparr> chatsByProject := [], messages := [], pendingAttachmentsByChat := [],
         unreadCounts := [], capturedUnreadCounts := [], globalUnreadCount := 0,
         typingUsersByChat := [], presenceByUserId := [], presenceVersionByUserId := [],
         mentionedChatIds := [], unseenPinChatIds := [], activeThreadMessageId := None,
         threadReplies := [], outbox := [] \<rparr>"

lemmas message_op_defs [store_defs] =
  setMessages_def prependMessages_def updateMessage_def removeMessage_def
  addPendingAttachments_def updatePendingAttachment_def applyReactionUpdate_def
  applyLinkPreview_def clearLinkPreview_def setActiveThreadMessageId_def setThreadReplies_def
  addThreadReply_def updateThreadReply_def

end
