(* ===== verification/Chat_Outbox.thy ===== *)
theory Chat_Outbox imports Chat_Messages begin

text \<open>
  The outbox of \<open>src/frontend/src/lib/chatStore.ts\<close>: messages the user has sent and the server has
  not acknowledged.  The API calls (\<open>sendMessage\<close>, \<open>getMessage\<close>) are parameters of the definitions; a
  rejected promise is \<open>Inl\<close>.  \<open>retryOutboxEntry\<close>, \<open>flushOutbox\<close> and \<open>reconcileOutboxAck\<close> are the
  runs in which no other action comes between their steps; the theory \<open>Chat_Store\<close> interleaves the
  steps with every other action.
\<close>

section \<open>Operations\<close>

definition enqueueOutbox :: "outbox_entry \<Rightarrow> chat_state \<Rightarrow> chat_state" where
  "enqueueOutbox entry s =
     (if list_ex (\<lambda>item. clientMessageId item = clientMessageId entry) (outbox s) then s
      else s\<lparr> outbox := outbox s @ [entry] \<rparr>)"

definition set_outbox_status :: "string \<Rightarrow> send_status \<Rightarrow> outbox_entry list \<Rightarrow> outbox_entry list" where
  "set_outbox_status cid st = map_where (\<lambda>e. clientMessageId e = cid) (\<lambda>e. e\<lparr> ob_status := st \<rparr>)"

definition markOutboxSending :: "string \<Rightarrow> chat_state \<Rightarrow> chat_state" where
  "markOutboxSending cid s = s\<lparr> outbox := set_outbox_status cid Sending (outbox s) \<rparr>"

definition markOutboxFailed :: "string \<Rightarrow> chat_state \<Rightarrow> chat_state" where
  "markOutboxFailed cid s = s\<lparr> outbox := set_outbox_status cid Failed (outbox s) \<rparr>"

definition message_chat_number :: "message \<Rightarrow> js_num" where
  "message_chat_number msg =
     (case orelse (m_chat_id msg) (m_chat msg) of Some n \<Rightarrow> Num n | None \<Rightarrow> NaN)"

definition markOutboxSent :: "string \<Rightarrow> message \<Rightarrow> chat_state \<Rightarrow> chat_state" where
  "markOutboxSent cid msg s =
     addMessage (message_chat_number msg) msg None (Some cid)
       (s\<lparr> outbox := filter (\<lambda>e. clientMessageId e \<noteq> cid) (outbox s) \<rparr>)"

definition unsent :: "outbox_entry \<Rightarrow> bool" where
  "unsent e \<longleftrightarrow> ob_status e = Pending \<or> ob_status e = Sending \<or> ob_status e = Failed"

definition getOutboxDigest :: "chat_state \<Rightarrow> string list" where
  "getOutboxDigest s = map clientMessageId (filter unsent (outbox s))"

definition find_entry :: "string \<Rightarrow> chat_state \<Rightarrow> outbox_entry option" where
  "find_entry cid s = List.find (\<lambda>e. clientMessageId e = cid) (outbox s)"

definition retry_request :: "outbox_entry \<Rightarrow> send_request" where
  "retry_request entry =
     \<lparr> sr_chat_id = ob_chatId entry,
       sr_content = ob_content entry,
       sr_attachment_ids = (if length (attachmentIds entry) > 0 then Some (attachmentIds entry) else None),
       sr_mention_ids = mentionIds entry,
       sr_rich_body = ob_richBody entry,
       sr_reply_to_id = replyToId entry,
       sr_parent_message_id = parentMessageId entry,
       sr_client_message_id = clientMessageId entry \<rparr>"

definition retryOutboxEntry ::
  "(send_request \<Rightarrow> js_error + message) \<Rightarrow> string \<Rightarrow> chat_state \<Rightarrow> chat_state" where
  "retryOutboxEntry send cid s =
     (case find_entry cid s of
        None \<Rightarrow> s
      | Some entry \<Rightarrow>
          (let s1 = markOutboxSending cid s
           in case send (retry_request entry) of
                Inr msg \<Rightarrow> markOutboxSent cid msg s1
              | Inl e \<Rightarrow> markOutboxFailed cid s1))"

definition flushOutbox ::
  "(send_request \<Rightarrow> js_error + message) \<Rightarrow> chat_state \<Rightarrow> chat_state" where
  "flushOutbox send s = fold (retryOutboxEntry send) (map clientMessageId (filter unsent (outbox s))) s"

definition reconcile_one ::
  "(int \<Rightarrow> js_error + message) \<Rightarrow> outbox_ack \<Rightarrow> chat_state \<Rightarrow> chat_state" where
  "reconcile_one fetch item s =
     (let entry = find_entry (ack_client_message_id item) s;
          s1 = s\<lparr> outbox := filter (\<lambda>r. clientMessageId r \<noteq> ack_client_message_id item) (outbox s) \<rparr>
      in case entry of
           None \<Rightarrow> s1
         | Some _ \<Rightarrow>
             (case (case ack_message item of Some msg \<Rightarrow> Inr msg | None \<Rightarrow> fetch (ack_message_id item)) of
                Inr msg \<Rightarrow> markOutboxSent (ack_client_message_id item) msg s1
              | Inl e \<Rightarrow> s1))"

definition reconcileOutboxAck ::
  "(int \<Rightarrow> js_error + message) \<Rightarrow> outbox_ack list \<Rightarrow> chat_state \<Rightarrow> chat_state" where
  "reconcileOutboxAck fetch committed_items s = fold (reconcile_one fetch) committed_items s"

text \<open>The part of the state that survives a reload (\<open>partialize\<close>).\<close>

record persisted_chat =
  p_isWidgetOpen :: bool
  p_outbox :: "outbox_entry list"
  p_unseenPinChatIds :: "bool obj"

definition partialize :: "chat_state \<Rightarrow> persisted_chat" where
  "partialize s =
     \<lparr> p_isWidgetOpen = isWidgetOpen s, p_outbox = outbox s, p_unseenPinChatIds = unseenPinChatIds s \<rparr>"

text \<open>
  \<open>sendMessageWithOutbox\<close> of \<open>src/frontend/src/hooks/useMessageData.ts\<close>: the caller of the outbox.
  The fresh id and the clock are arguments; the result is the message or the error thrown on.
\<close>

definition sendMessageWithOutbox ::
  "(send_request \<Rightarrow> js_error + message) \<Rightarrow> string \<Rightarrow> string \<Rightarrow> send_request \<Rightarrow> chat_state
     \<Rightarrow> (js_error + message) \<times> chat_state" where
  "sendMessageWithOutbox send cid now request s =
     (let entry = \<lparr> clientMessageId = cid,
                    ob_chatId = sr_chat_id request,
                    ob_content = sr_content request,
                    ob_richBody = sr_rich_body request,
                    attachmentIds = nullish (sr_attachment_ids request) [],
                    mentionIds = sr_mention_ids request,
                    replyToId = sr_reply_to_id request,
                    parentMessageId = sr_parent_message_id request,
                    ob_status = Pending,
                    enqueuedAt = now \<rparr>;
          s1 = markOutboxSending cid (enqueueOutbox entry s)
      in case send (request\<lparr> sr_client_message_id := cid \<rparr>) of
           Inr msg \<Rightarrow> (Inr msg, markOutboxSent cid msg s1)
         | Inl e \<Rightarrow> (Inl e, markOutboxFailed cid s1))"

section \<open>Lemmas\<close>

lemma addMessage_outbox [simp, frame]: "outbox (addMessage c m u r s) = outbox s"
  by (simp add: addMessage_def Let_def split: option.split)

lemma markOutboxSent_outbox [simp]:
  "outbox (markOutboxSent cid msg s) = filter (\<lambda>e. clientMessageId e \<noteq> cid) (outbox s)"
  by (simp add: markOutboxSent_def)

lemma markOutboxSending_outbox [simp]:
  "outbox (markOutboxSending cid s) = set_outbox_status cid Sending (outbox s)"
  by (simp add: markOutboxSending_def)

lemma markOutboxFailed_outbox [simp]:
  "outbox (markOutboxFailed cid s) = set_outbox_status cid Failed (outbox s)"
  by (simp add: markOutboxFailed_def)

lemma all_unsent [simp]: "unsent e"
  by (cases "ob_status e") (simp_all add: unsent_def)

lemma ids_set_status [simp]:
  "map clientMessageId (set_outbox_status cid st es) = map clientMessageId es"
  by (simp add: set_outbox_status_def map_map_where)

lemma filter_set_status:
  "filter (\<lambda>e. clientMessageId e \<noteq> cid) (set_outbox_status cid st es) =
   filter (\<lambda>e. clientMessageId e \<noteq> cid) es"
  by (induction es) (auto simp: set_outbox_status_def)

lemma set_status_twice:
  "set_outbox_status cid st (set_outbox_status cid st' es) = set_outbox_status cid st es"
  by (induction es) (auto simp: set_outbox_status_def)

lemma set_status_notin:
  "cid \<notin> clientMessageId ` set es \<Longrightarrow> set_outbox_status cid st es = es"
  by (auto simp: set_outbox_status_def intro!: map_where_none)

lemma filter_notin:
  "cid \<notin> clientMessageId ` set es \<Longrightarrow> filter (\<lambda>e. clientMessageId e \<noteq> cid) es = es"
  by (auto simp: filter_id_conv)

text \<open>What one retry does to the outbox.\<close>

lemma retry_outbox:
  "find_entry cid s = Some entry \<Longrightarrow>
   outbox (retryOutboxEntry send cid s) =
   (case send (retry_request entry) of
      Inr _ \<Rightarrow> filter (\<lambda>e. clientMessageId e \<noteq> cid) (outbox s)
    | Inl _ \<Rightarrow> set_outbox_status cid Failed (outbox s))"
  by (simp add: retryOutboxEntry_def filter_set_status set_status_twice split: sum.split)

text \<open>Flushing works through the queue from the front; \<open>done\<close> is what it has left behind.\<close>

definition retried :: "(send_request \<Rightarrow> js_error + message) \<Rightarrow> outbox_entry list \<Rightarrow> outbox_entry list" where
  "retried send es =
     map (\<lambda>e. e\<lparr> ob_status := Failed \<rparr>) (filter (\<lambda>e. \<exists>err. send (retry_request e) = Inl err) es)"

lemma retried_simps:
  "retried send [] = []"
  "retried send (e # es) =
     (case send (retry_request e) of
        Inl _ \<Rightarrow> e\<lparr> ob_status := Failed \<rparr> # retried send es | Inr _ \<Rightarrow> retried send es)"
  by (auto simp: retried_def split: sum.split)

lemma ids_retried: "clientMessageId ` set (retried send es) \<subseteq> clientMessageId ` set es"
  by (auto simp: retried_def)

lemma flush_outbox_aux:
  "distinct (map clientMessageId (old @ es)) \<Longrightarrow> outbox s = old @ es \<Longrightarrow>
   outbox (fold (retryOutboxEntry send) (map clientMessageId es) s) = old @ retried send es"
proof (induction es arbitrary: old s)
  case Nil
  then show ?case by (simp add: retried_simps)
next
  case (Cons e es)
  let ?cid = "clientMessageId e"
  let ?s1 = "retryOutboxEntry send ?cid s"
  have fresh: "?cid \<notin> clientMessageId ` set old" "?cid \<notin> clientMessageId ` set es"
    using Cons.prems(1) by auto
  have "List.find (\<lambda>e'. clientMessageId e' = ?cid) old = None"
    using fresh(1) unfolding find_None_iff by (metis image_eqI)
  then have "List.find (\<lambda>e'. clientMessageId e' = ?cid) (old @ e # es) = Some e"
    by (induction old) (auto split: if_splits)
  then have entry: "find_entry ?cid s = Some e"
    by (simp add: find_entry_def Cons.prems(2))
  show ?case
  proof (cases "send (retry_request e)")
    case (Inr msg)
    then have "outbox ?s1 = old @ es"
      by (simp add: retry_outbox [OF entry] Cons.prems(2) filter_notin fresh)
    moreover have "distinct (map clientMessageId (old @ es))" using Cons.prems(1) by auto
    ultimately show ?thesis
      using Cons.IH [of old ?s1] by (simp add: retried_simps Inr)
  next
    case (Inl err)
    have mark: "set_outbox_status ?cid Failed (old @ e # es) = (old @ [e\<lparr> ob_status := Failed \<rparr>]) @ es"
      using set_status_notin [OF fresh(1)] set_status_notin [OF fresh(2)]
      by (simp add: set_outbox_status_def)
    have "outbox ?s1 = (old @ [e\<lparr> ob_status := Failed \<rparr>]) @ es"
      by (simp only: retry_outbox [OF entry] Inl Cons.prems(2) mark sum.case)
    moreover have "distinct (map clientMessageId ((old @ [e\<lparr> ob_status := Failed \<rparr>]) @ es))"
      using Cons.prems(1) by simp
    ultimately show ?thesis
      using Cons.IH [of "old @ [e\<lparr> ob_status := Failed \<rparr>]" ?s1] by (simp add: retried_simps Inl)
  qed
qed

lemma flush_outbox:
  "distinct (map clientMessageId (outbox s)) \<Longrightarrow> outbox (flushOutbox send s) = retried send (outbox s)"
  using flush_outbox_aux [of "[]" "outbox s" s send] by (simp add: flushOutbox_def)

section \<open>Properties\<close>

text \<open>Flushing loses no message and keeps no delivered one: afterwards the outbox holds, in their
  order and marked failed, exactly the entries whose send the server rejected.\<close>

lemma flush_keeps_exactly_failed:
  assumes "distinct (map clientMessageId (outbox s))"
  shows "outbox (flushOutbox send s) =
         map (\<lambda>e. e\<lparr> ob_status := Failed \<rparr>)
           (filter (\<lambda>e. \<exists>err. send (retry_request e) = Inl err) (outbox s))"
  using flush_outbox [OF assms] by (simp add: retried_def)

text \<open>An acknowledgement from the server removes exactly the acknowledged entries, whether or not
  the message could be fetched, and leaves the others untouched.\<close>

lemma reconcile_removes_exactly_acked:
  "outbox (reconcileOutboxAck fetch items s) =
   filter (\<lambda>e. clientMessageId e \<notin> ack_client_message_id ` set items) (outbox s)"
proof (induction items arbitrary: s)
  case Nil
  then show ?case by (simp add: reconcileOutboxAck_def)
next
  case (Cons item items)
  have "outbox (reconcile_one fetch item s) =
      filter (\<lambda>e. clientMessageId e \<noteq> ack_client_message_id item) (outbox s)"
    by (simp add: reconcile_one_def Let_def split: option.split sum.split)
  with Cons.IH [of "reconcile_one fetch item s"] show ?case
    by (simp add: reconcileOutboxAck_def conj_commute)
qed

end
