(* ===== verification/Event_System.thy ===== *)
theory Event_System imports Main begin

text \<open>
  Stores as transition systems.  A store is a function \<open>perform\<close> that applies one event to a state and
  a \<open>guard\<close> that says which events the callers and the server can produce in a state.  \<open>reaches\<close> is any
  interleaving of such events; the locale \<open>event_system\<close> is the contract under which an invariant
  holds after every interleaving.
\<close>

inductive reaches :: "('s \<Rightarrow> 'e \<Rightarrow> bool) \<Rightarrow> ('e \<Rightarrow> 's \<Rightarrow> 's) \<Rightarrow> 's \<Rightarrow> 's \<Rightarrow> bool"
  for guard perform s0 where
  reaches_init [intro]: "reaches guard perform s0 s0"
| reaches_step: "reaches guard perform s0 s \<Longrightarrow> guard s e \<Longrightarrow> reaches guard perform s0 (perform e s)"

fun guarded_run :: "('s \<Rightarrow> 'e \<Rightarrow> bool) \<Rightarrow> ('e \<Rightarrow> 's \<Rightarrow> 's) \<Rightarrow> 'e list \<Rightarrow> 's \<Rightarrow> 's option" where
  "guarded_run guard perform [] s = Some s"
| "guarded_run guard perform (e # es) s =
     (if guard s e then guarded_run guard perform es (perform e s) else None)"

lemma reaches_trans:
  "reaches guard perform s1 s2 \<Longrightarrow> reaches guard perform s0 s1 \<Longrightarrow> reaches guard perform s0 s2"
  by (induction rule: reaches.induct) (blast intro: reaches.intros)+

lemma guarded_run_reaches: "guarded_run guard perform es s = Some s' \<Longrightarrow> reaches guard perform s s'"
proof (induction es arbitrary: s)
  case (Cons e es)
  then have g: "guard s e" and rest: "reaches guard perform (perform e s) s'"
    by (auto split: if_splits)
  have "reaches guard perform s (perform e s)"
    by (rule reaches_step [OF reaches_init]) (rule g)
  with rest show ?case by (rule reaches_trans)
qed auto

lemma guarded_run_append:
  "guarded_run guard perform (es @ fs) s =
   (case guarded_run guard perform es s of None \<Rightarrow> None | Some s' \<Rightarrow> guarded_run guard perform fs s')"
  by (induction es arbitrary: s) auto

lemma reaches_guarded_run:
  "reaches guard perform s s' \<Longrightarrow> \<exists>es. guarded_run guard perform es s = Some s'"
proof (induction rule: reaches.induct)
  case reaches_init
  show ?case by (rule exI [of _ "[]"]) simp
next
  case (reaches_step s' e)
  then obtain es where "guarded_run guard perform es s = Some s'" by blast
  with reaches_step have "guarded_run guard perform (es @ [e]) s = Some (perform e s')"
    by (simp add: guarded_run_append)
  then show ?case by blast
qed

locale event_system =
  fixes guard :: "'s \<Rightarrow> 'e \<Rightarrow> bool"
    and perform :: "'e \<Rightarrow> 's \<Rightarrow> 's"
    and inv :: "'s \<Rightarrow> bool"
  assumes step_inv: "inv s \<Longrightarrow> guard s e \<Longrightarrow> inv (perform e s)"
begin

lemma reaches_inv: "reaches guard perform s0 s \<Longrightarrow> inv s0 \<Longrightarrow> inv s"
  by (induction rule: reaches.induct) (blast intro: step_inv)+

lemma run_inv: "guarded_run guard perform es s0 = Some s \<Longrightarrow> inv s0 \<Longrightarrow> inv s"
  by (rule reaches_inv [OF guarded_run_reaches])

text \<open>A quantity that no step lowers is never lower later.\<close>

lemma monotone:
  fixes m :: "'s \<Rightarrow> int"
  assumes "\<And>s e. inv s \<Longrightarrow> guard s e \<Longrightarrow> m s \<le> m (perform e s)"
  shows "reaches guard perform s0 s \<Longrightarrow> inv s0 \<Longrightarrow> m s0 \<le> m s"
proof (induction rule: reaches.induct)
  case (reaches_step s e)
  have "inv s" using reaches_step(1) reaches_step.prems by (rule reaches_inv)
  with assms [of s e] reaches_step show ?case by linarith
qed simp

text \<open>A relation that every step keeps, such as one that says what is never lost.\<close>

lemma related:
  assumes "\<And>s. R s s" and "\<And>a b c. R a b \<Longrightarrow> R b c \<Longrightarrow> R a c"
    and "\<And>s e. inv s \<Longrightarrow> guard s e \<Longrightarrow> R s (perform e s)"
  shows "reaches guard perform s0 s \<Longrightarrow> inv s0 \<Longrightarrow> R s0 s"
proof (induction rule: reaches.induct)
  case (reaches_step s e)
  have "inv s" using reaches_step(1) reaches_step.prems by (rule reaches_inv)
  with assms(2,3) reaches_step show ?case by blast
qed (rule assms(1))

end

end
