(* ===== verification/Chat_Store.thy ===== *)
theory Chat_Store imports Chat_Outbox Event_System begin

text \<open>
  The chat store as a transition system: every action of the store, and the completions of its
  asynchronous ones, are the steps of \<open>chat_step\<close>, in any order.  \<open>chat_inv\<close> is what every reachable
  state keeps: ordered message lists, reaction counters that agree with their user lists, unread
  counts that are never negative, one outbox entry per client id, typing lists without repetitions
  and no empty upload queue.  The properties of single actions and the behaviours that modelling
  brought to light follow.
\<close>

section \<open>The invariant\<close>

definition msgs_ordered :: "message list \<Rightarrow> bool" where
  "msgs_ordered msgs \<longleftrightarrow>
     sorted_wrt (\<lambda>a b. committed b \<longrightarrow> committed a \<and> seq_of a < seq_of b) msgs"

definition reaction_ok :: "chat_reaction \<Rightarrow> bool" where
  "reaction_ok r \<longleftrightarrow>
     r_count r = int (length (r_users r)) \<and> distinct (map user_id (r_users r)) \<and> r_users r \<noteq> []"

definition reactions_ok :: "chat_reaction list \<Rightarrow> bool" where
  "reactions_ok rs \<longleftrightarrow> distinct (map r_emoji rs) \<and> list_all reaction_ok rs"

definition message_ok :: "message \<Rightarrow> bool" where
  "message_ok msg \<longleftrightarrow> reactions_ok (nullish (m_reactions msg) [])"

definition timeline_ok :: "message list \<Rightarrow> bool" where
  "timeline_ok msgs \<longleftrightarrow> msgs_ordered msgs \<and> list_all message_ok msgs"

definition patch_ok :: "message_patch \<Rightarrow> bool" where
  "patch_ok upd \<longleftrightarrow> mp_seq upd = None \<and> reactions_ok (nullish (mp_reactions upd) [])"

definition chat_ok :: "chat \<Rightarrow> bool" where
  "chat_ok c \<longleftrightarrow> 0 \<le> nullish (c_unread_count c) 0"

definition chat_inv :: "chat_state \<Rightarrow> bool" where
  "chat_inv s \<longleftrightarrow>
     obj_all timeline_ok (messages s) \<and>
     obj_all timeline_ok (threadReplies s) \<and>
     obj_all (\<lambda>n. 0 \<le> n) (unreadCounts s) \<and> obj_ok (unreadCounts s) \<and>
     distinct (map clientMessageId (outbox s)) \<and>
     obj_all (\<lambda>us. distinct us \<and> us \<noteq> []) (typingUsersByChat s) \<and>
     obj_all (\<lambda>as. as \<noteq> []) (pendingAttachmentsByChat s) \<and>
     0 \<le> globalUnreadCount s"

subsection \<open>Message lists\<close>

lemma msgs_ordered_none: "\<forall>m \<in> set msgs. \<not> committed m \<Longrightarrow> msgs_ordered msgs"
  unfolding msgs_ordered_def by (induction msgs) auto

lemma reorder_ordered: "msgs_ordered (reorderMessagesBySequence msgs)"
proof -
  let ?os = "js_sort created_cmp (filter (\<lambda>m. \<not> committed m) msgs)"
  obtain cs where cs: "reorderMessagesBySequence msgs = cs @ ?os"
      "list_all committed cs" "sorted_wrt (<) (map seq_of cs)"
    using reorder_shape by blast
  have none: "\<forall>m \<in> set ?os. \<not> committed m" by simp
  then have "msgs_ordered ?os" by (rule msgs_ordered_none)
  moreover have "msgs_ordered cs"
    using cs(2,3) by (auto simp: msgs_ordered_def sorted_wrt_map list_all_iff
        elim!: sorted_wrt_mono_rel [rotated])
  ultimately show ?thesis by (auto simp: cs(1) msgs_ordered_def sorted_wrt_append)
qed

lemma message_ok_merge: "message_ok a \<Longrightarrow> message_ok b \<Longrightarrow> message_ok (merge_message a b)"
  by (cases "m_reactions b")
     (simp_all add: message_ok_def merge_message_def spread_message_def patch_of_message_def)

text \<open>A property of messages that merging keeps holds of everything reordering returns.\<close>

lemma file_message_all:
  assumes merge: "\<And>a b. P a \<Longrightarrow> P b \<Longrightarrow> P (merge_message a b)"
    and "list_all P (map snd (fst acc))" "list_all P (snd acc)" "P msg"
  shows "list_all P (map snd (fst (file_message acc msg))) \<and>
         list_all P (snd (file_message acc msg))"
proof (cases "messageSequence msg")
  case None
  with assms show ?thesis by (simp add: file_message_def)
next
  case (Some s)
  have "P e" if "jmap_get (fst acc) s = Some e" for e
    using assms(2) that by (fastforce simp: jmap_get_def list_all_iff dest: map_of_SomeD)
  with assms Some show ?thesis
    by (auto simp: file_message_def list_all_iff dest!: jmap_set_in split: option.splits if_splits)
qed

lemma files_all:
  assumes merge: "\<And>a b. P a \<Longrightarrow> P b \<Longrightarrow> P (merge_message a b)"
  shows "list_all P (map snd (fst acc)) \<Longrightarrow> list_all P (snd acc) \<Longrightarrow> list_all P msgs \<Longrightarrow>
     list_all P (map snd (fst (foldl file_message acc msgs))) \<and>
     list_all P (snd (foldl file_message acc msgs))"
proof (induction msgs arbitrary: acc)
  case (Cons msg msgs)
  with file_message_all [of P acc msg] merge Cons.IH [of "file_message acc msg"] show ?case by simp
qed simp

lemma reorder_all:
  assumes "\<And>a b. P a \<Longrightarrow> P b \<Longrightarrow> P (merge_message a b)" and "list_all P msgs"
  shows "list_all P (reorderMessagesBySequence msgs)"
  unfolding reorder_eq_slow
  using files_all [of P "([], [])" msgs] assms by (auto simp: slow_reorder_def list_all_iff)

lemma reorder_ok [inv_intro]:
  "list_all message_ok msgs \<Longrightarrow> timeline_ok (reorderMessagesBySequence msgs)"
  using reorder_all [of message_ok msgs] reorder_ordered [of msgs]
  by (simp add: timeline_ok_def message_ok_merge)

lemma timeline_ok_Nil [simp]: "timeline_ok []"
  by (simp add: timeline_ok_def msgs_ordered_def)

lemma timeline_ok_filter: "timeline_ok msgs \<Longrightarrow> timeline_ok (filter P msgs)"
  by (auto simp: timeline_ok_def msgs_ordered_def list_all_iff sorted_wrt_filter)

lemma timeline_ok_list: "timeline_ok msgs \<Longrightarrow> list_all message_ok msgs"
  by (simp add: timeline_ok_def)

lemma timeline_ok_map:
  assumes "timeline_ok msgs" and "\<And>m. m_seq (f m) = m_seq m"
    and "\<And>m. message_ok m \<Longrightarrow> message_ok (f m)"
  shows "timeline_ok (map f msgs)"
proof -
  have "committed (f m) = committed m" "seq_of (f m) = seq_of m" for m
    using assms(2) by (simp_all add: committed_def seq_of_def messageSequence_def)
  with assms(1,3) show ?thesis
    by (auto simp: timeline_ok_def msgs_ordered_def sorted_wrt_map list_all_iff)
qed

lemma spread_message_ok: "patch_ok upd \<Longrightarrow> message_ok m \<Longrightarrow> message_ok (spread_message m upd)"
  by (cases "mp_reactions upd") (simp_all add: patch_ok_def message_ok_def spread_message_def)

lemma timeline_ok_patch:
  "timeline_ok msgs \<Longrightarrow> patch_ok upd \<Longrightarrow> timeline_ok (map_where P (\<lambda>m. spread_message m upd) msgs)"
  unfolding map_where_def
  by (rule timeline_ok_map) (auto simp: spread_message_ok, simp_all add: patch_ok_def spread_message_def)

subsection \<open>Reactions\<close>

lemma reaction_ok_add:
  "reaction_ok r \<Longrightarrow> \<not> acted (user_id u) r \<Longrightarrow>
   reaction_ok (r\<lparr> r_count := r_count r + 1, r_users := r_users r @ [u], reacted_by_me := b \<rparr>)"
  by (auto simp: reaction_ok_def acted_def list_ex_iff)

lemma map_update_same: "i < length xs \<Longrightarrow> f x = f (xs ! i) \<Longrightarrow> map f (xs[i := x]) = map f xs"
  by (metis list_update_id map_update)

lemma reactions_ok_add:
  assumes ok: "reactions_ok rs"
  shows "reactions_ok (add_reaction e u c rs)"
proof (cases "find_index (\<lambda>r. r_emoji r = e) rs")
  case None
  then have "\<forall>r \<in> set rs. r_emoji r \<noteq> e" by (simp add: find_index_None)
  with ok have "reactions_ok (rs @ [\<lparr> r_emoji = e, r_count = 1, r_users = [u],
      reacted_by_me = (Some (user_id u) = c) \<rparr>])"
    by (auto simp: reactions_ok_def reaction_ok_def)
  then show ?thesis by (simp add: add_reaction_def None)
next
  case (Some i)
  then have i: "i < length rs" "r_emoji (rs ! i) = e"
    using find_index_Some [OF Some] by simp_all
  with ok have ri: "reaction_ok (rs ! i)" by (simp add: reactions_ok_def list_all_length)
  show ?thesis
  proof (cases "acted (user_id u) (rs ! i)")
    case True
    with ok show ?thesis by (simp add: add_reaction_def Some)
  next
    case False
    let ?r = "(rs ! i)\<lparr> r_count := r_count (rs ! i) + 1, r_users := r_users (rs ! i) @ [u],
        reacted_by_me := reacted_by_me (rs ! i) \<or> Some (user_id u) = c \<rparr>"
    have "reaction_ok ?r" using ri False by (rule reaction_ok_add)
    moreover have "map r_emoji (rs[i := ?r]) = map r_emoji rs"
      using i(1) by (rule map_update_same) simp
    moreover have "set (rs[i := ?r]) \<subseteq> insert ?r (set rs)" by (rule set_update_subset_insert)
    ultimately have "reactions_ok (rs[i := ?r])"
      using ok by (auto simp: reactions_ok_def list_all_iff simp del: map_update)
    with False show ?thesis by (simp add: add_reaction_def Some Let_def)
  qed
qed

lemma reactions_ok_drop: "reactions_ok rs \<Longrightarrow> reactions_ok (drop_reaction e a c rs)"
proof -
  assume ok: "reactions_ok rs"
  let ?f = "\<lambda>r. let users = filter (\<lambda>u. user_id u \<noteq> a) (r_users r)
              in r\<lparr> r_count := int (length users), r_users := users,
                    reacted_by_me := (if Some a = c then False else reacted_by_me r) \<rparr>"
  have ids: "map r_emoji (map_where (\<lambda>r. r_emoji r = e) ?f rs) = map r_emoji rs"
    by (rule map_map_where) (simp add: Let_def)
  have "reaction_ok r" if r: "r \<in> set (map_where (\<lambda>r. r_emoji r = e) ?f rs)" "r_count r > 0" for r
  proof -
    from r obtain r0 where r0: "r0 \<in> set rs" "r = (if r_emoji r0 = e then ?f r0 else r0)"
      by (auto simp: map_where_def)
    with ok have "reaction_ok r0" by (auto simp: reactions_ok_def list_all_iff)
    with r0 r(2) show ?thesis
      by (auto simp: reaction_ok_def Let_def distinct_map_filter split: if_splits)
  qed
  then have "reactions_ok (filter (\<lambda>r. r_count r > 0) (map_where (\<lambda>r. r_emoji r = e) ?f rs))"
    using ok by (auto simp: reactions_ok_def list_all_iff intro!: distinct_map_filter) (simp add: ids)
  with ok show ?thesis by (simp add: drop_reaction_def split: option.split)
qed

lemma react_message_ok: "message_ok m \<Longrightarrow> message_ok (react_message i e a u c m)"
  by (auto simp: message_ok_def react_message_def Let_def reactions_ok_add reactions_ok_drop
      split: reaction_action.split option.split)

lemma react_message_seq: "m_seq (react_message i e a u c m) = m_seq m"
  by (auto simp: react_message_def Let_def split: reaction_action.split option.split)

lemma set_preview_ok: "message_ok (set_preview i p m) = message_ok m"
  and set_preview_seq: "m_seq (set_preview i p m) = m_seq m"
  by (simp_all add: set_preview_def message_ok_def)

lemma timeline_ok_react: "timeline_ok msgs \<Longrightarrow> timeline_ok (map (react_message i e a u c) msgs)"
  by (rule timeline_ok_map) (simp_all add: react_message_seq react_message_ok)

lemma timeline_ok_preview: "timeline_ok msgs \<Longrightarrow> timeline_ok (map (set_preview i p) msgs)"
  by (rule timeline_ok_map) (simp_all add: set_preview_seq set_preview_ok)

lemma timeline_ok_if_has:
  "timeline_ok msgs \<Longrightarrow> timeline_ok (map f msgs) \<Longrightarrow> timeline_ok (map_if_has i f msgs)"
  by (simp add: map_if_has_def)


section \<open>Every action keeps the invariant\<close>

declare obj_ok_set [inv_intro] obj_ok_del [inv_intro]

lemma obj_ok_Nil [simp]: "obj_ok []"
  by (simp add: obj_ok_def obj_keys_def)

text \<open>The presence, badge and UI actions touch none of the fields the invariant speaks of.\<close>

definition core_fields where
  "core_fields s =
     (messages s, threadReplies s, unreadCounts s, outbox s, typingUsersByChat s,
      pendingAttachmentsByChat s, globalUnreadCount s)"

lemma chat_inv_core: "core_fields s' = core_fields s \<Longrightarrow> chat_inv s \<Longrightarrow> chat_inv s'"
  by (simp add: core_fields_def chat_inv_def)

lemma ui_core [frame]:
  "core_fields (openWidget s) = core_fields s"
  "core_fields (closeWidget s) = core_fields s"
  "core_fields (setWidgetProjectId pid s) = core_fields s"
  "core_fields (setWidgetView v s) = core_fields s"
  "core_fields (setMessagePageOpen b s) = core_fields s"
  "core_fields (setSelectedProjectId pid s) = core_fields s"
  "core_fields (setView v s) = core_fields s"
  "core_fields (setLoading b s) = core_fields s"
  "core_fields (triggerChatActivity now s) = core_fields s"
  "core_fields (triggerFilesRefresh now s) = core_fields s"
  "core_fields (addMentionedChat i s) = core_fields s"
  "core_fields (markChatPinUnseen i s) = core_fields s"
  "core_fields (clearChatPinUnseen i s) = core_fields s"
  "core_fields (setActiveThreadMessageId j s) = core_fields s"
  "core_fields (updateChat i cp s) = core_fields s"
  by (simp_all add: core_fields_def store_defs)

lemma presence_core [frame]:
  "core_fields (updateUserPresence u b v s) = core_fields s"
  "core_fields (setPresenceSnapshot us s) = core_fields s"
  by (simp_all add: core_fields_def updateUserPresence_def setPresenceSnapshot_def Let_def)

lemma clear_mentioned_core: "clearMentionedChat i s = Inr s' \<Longrightarrow> core_fields s' = core_fields s"
  by (auto simp: clearMentionedChat_def core_fields_def split: sum.splits)

lemma mark_outbox_inv [inv_intro]:
  "chat_inv s \<Longrightarrow> chat_inv (markOutboxSending cid s)"
  "chat_inv s \<Longrightarrow> chat_inv (markOutboxFailed cid s)"
  by (simp_all add: chat_inv_def markOutboxSending_def markOutboxFailed_def)

lemma drop_outbox_inv [inv_intro]:
  "chat_inv s \<Longrightarrow> chat_inv (s\<lparr> outbox := filter P (outbox s) \<rparr>)"
  by (simp add: chat_inv_def distinct_map_filter)

lemma enqueue_inv [inv_intro]: "chat_inv s \<Longrightarrow> chat_inv (enqueueOutbox e s)"
  by (auto simp: chat_inv_def enqueueOutbox_def list_ex_iff)

lemma unread_inv [inv_intro]:
  "chat_inv s \<Longrightarrow> chat_inv (updateUnreadCount i n s)"
  "chat_inv s \<Longrightarrow> chat_inv (decrementUnreadCount i s)"
  by (auto simp: chat_inv_def updateUnreadCount_def decrementUnreadCount_def Let_def intro: inv_intro)

lemma open_inv [inv_intro]:
  "chat_inv s \<Longrightarrow> chat_inv (setCurrentChat c s)"
  "chat_inv s \<Longrightarrow> chat_inv (setWidgetChat c s)"
  by (auto simp: chat_inv_def setCurrentChat_def setWidgetChat_def split: option.split intro: inv_intro)

lemma global_inv [inv_intro]:
  "chat_inv s \<Longrightarrow> chat_inv (setGlobalUnreadCount n s)"
  "chat_inv s \<Longrightarrow> chat_inv (incrementGlobalUnreadCount s)"
  "chat_inv s \<Longrightarrow> chat_inv (decrementGlobalUnreadCount n s)"
  by (auto simp: chat_inv_def setGlobalUnreadCount_def incrementGlobalUnreadCount_def
      decrementGlobalUnreadCount_def)

lemma fetch_global_inv [inv_intro]:
  "chat_inv s \<Longrightarrow> (case r of Inl _ \<Rightarrow> True | Inr n \<Rightarrow> 0 \<le> n) \<Longrightarrow>
   chat_inv (snd (fetchGlobalUnreadCount r s))"
  by (auto simp: chat_inv_def fetchGlobalUnreadCount_def split: sum.splits)

lemma removeChat_inv [inv_intro]: "chat_inv s \<Longrightarrow> chat_inv (removeChat i s)"
  by (auto simp: chat_inv_def removeChat_def Let_def intro: inv_intro)

lemma addChat_inv [inv_intro]: "chat_inv s \<Longrightarrow> chat_ok c \<Longrightarrow> chat_inv (addChat c s)"
  by (auto simp: chat_inv_def addChat_def chat_ok_def Let_def split: option.split intro: inv_intro)

lemma fold_set_nonneg:
  "obj_all P ob \<Longrightarrow> list_all (\<lambda>c. P (f c)) cs \<Longrightarrow> obj_all P (fold (\<lambda>c. obj_set (k c) (f c)) cs ob)"
  by (induction cs arbitrary: ob) (auto intro: inv_intro)

lemma fold_set_ok: "obj_ok ob \<Longrightarrow> obj_ok (fold (\<lambda>c. obj_set (k c) (f c)) cs ob)"
  by (induction cs arbitrary: ob) (auto intro: obj_ok_set)

lemma synced_unread_nonneg: "chat_ok c \<Longrightarrow> 0 \<le> synced_unread cur counts c"
  by (auto simp: synced_unread_def chat_ok_def Let_def split: option.split)

lemma setChats_inv [inv_intro]:
  assumes "chat_inv s" "list_all chat_ok cs"
  shows "chat_inv (setChatsForProject pid cs s)"
proof -
  have "list_all (\<lambda>c. 0 \<le> synced_unread (currentChatId s) (unreadCounts s) c)
      (map (\<lambda>c. normalizeChatProject c (Some pid)) cs)"
    using assms(2) by (auto simp: list_all_iff chat_ok_def intro!: synced_unread_nonneg)
  then show ?thesis
    using assms(1) by (auto simp: chat_inv_def setChatsForProject_def Let_def intro!: fold_set_nonneg fold_set_ok)
qed

lemma typing_inv [inv_intro]:
  "chat_inv s \<Longrightarrow> chat_inv (setTypingUser i u s)"
  "chat_inv s \<Longrightarrow> chat_inv (clearTypingUser i u s)"
proof -
  assume s: "chat_inv s"
  have cur: "distinct (nullish (obj_get (typingUsersByChat s) (num_key i)) [])"
    using s by (cases "obj_get (typingUsersByChat s) (num_key i)")
      (auto simp: chat_inv_def dest: obj_all_get)
  show "chat_inv (setTypingUser i u s)"
    using s cur by (auto simp: chat_inv_def setTypingUser_def Let_def intro!: inv_intro)
  show "chat_inv (clearTypingUser i u s)"
    using s cur by (auto simp: chat_inv_def clearTypingUser_def Let_def split: option.split
        intro!: inv_intro)
qed

lemma timeline_of [inv_intro]:
  "obj_all timeline_ok ob \<Longrightarrow> list_all message_ok (nullish (obj_get ob k) [])"
  by (rule timeline_ok_list) (rule obj_all_nullish, simp_all)

lemma list_ok_filter: "list_all P xs \<Longrightarrow> list_all P (filter Q xs)"
  by (simp add: list_all_iff)

lemma setMessages_inv [inv_intro]:
  "chat_inv s \<Longrightarrow> list_all message_ok msgs \<Longrightarrow> chat_inv (setMessages i msgs s)"
  by (auto simp: chat_inv_def setMessages_def Let_def intro!: inv_intro)

lemma prependMessages_inv [inv_intro]:
  "chat_inv s \<Longrightarrow> list_all message_ok msgs \<Longrightarrow> chat_inv (prependMessages i msgs s)"
  by (auto simp: chat_inv_def prependMessages_def Let_def intro!: inv_intro list_ok_filter)

lemma list_ok_update: "list_all P xs \<Longrightarrow> P y \<Longrightarrow> list_all P (xs[i := y])"
  using set_update_subset_insert [of xs i y] by (auto simp: list_all_iff)

lemma strip_ok: "list_all P msgs \<Longrightarrow> list_all P (stripOptimisticOutboxMessages msgs cid)"
  by (simp add: stripOptimisticOutboxMessages_def list_ok_filter)

lemma addMessage_inv [inv_intro]:
  assumes s: "chat_inv s" and msg: "message_ok msg"
  shows "chat_inv (addMessage c msg u r s)"
proof -
  let ?key = "js_num_key c"
  define existing where "existing =
    (case r of
       Some cid \<Rightarrow>
         if cid \<noteq> [] then stripOptimisticOutboxMessages (nullish (obj_get (messages s) ?key) []) cid
         else nullish (obj_get (messages s) ?key) []
     | None \<Rightarrow> nullish (obj_get (messages s) ?key) [])"
  have ok: "list_all message_ok (nullish (obj_get (messages s) ?key) [])"
    using s by (auto simp: chat_inv_def intro: inv_intro)
  then have ex: "list_all message_ok existing"
    by (simp add: existing_def strip_ok split: option.split)
  have merged: "list_all message_ok (existing[i := merge_message (existing ! i) msg])"
    if "find_index P existing = Some i" for P i
    using find_index_Some [OF that] ex msg
    by (intro list_ok_update message_ok_merge) (auto simp: list_all_length)
  have nonneg: "0 \<le> nullish (obj_get (unreadCounts s) ?key) 0"
    using s obj_all_nullish [of "\<lambda>n. 0 \<le> n" "unreadCounts s" 0 ?key] by (simp add: chat_inv_def)
  show ?thesis
  proof (cases "find_index (\<lambda>m. m_id m = m_id msg) existing")
    case None
    have "list_all message_ok (existing @ [msg])" using ex msg by simp
    then show ?thesis
      unfolding addMessage_def Let_def existing_def [symmetric] None
      using s nonneg by (simp add: chat_inv_def obj_all_set reorder_ok obj_ok_set)
  next
    case (Some i)
    then show ?thesis
      unfolding addMessage_def Let_def existing_def [symmetric] Some
      using s merged [OF Some] by (simp add: chat_inv_def obj_all_set reorder_ok obj_ok_set)
  qed
qed

lemma markOutboxSent_inv [inv_intro]:
  "chat_inv s \<Longrightarrow> message_ok msg \<Longrightarrow> chat_inv (markOutboxSent cid msg s)"
  by (simp add: markOutboxSent_def addMessage_inv drop_outbox_inv)

lemma removeMessage_inv [inv_intro]: "chat_inv s \<Longrightarrow> chat_inv (removeMessage i s)"
  by (auto simp: chat_inv_def removeMessage_def intro!: inv_intro timeline_ok_filter)

lemma updateMessage_inv [inv_intro]:
  "chat_inv s \<Longrightarrow> patch_ok upd \<Longrightarrow> chat_inv (updateMessage i upd s)"
  by (auto simp: chat_inv_def updateMessage_def intro!: inv_intro timeline_ok_patch)

lemma first_thread_ok:
  "obj_all timeline_ok ob \<Longrightarrow> patch_ok upd \<Longrightarrow> obj_all timeline_ok (update_first_thread i upd ob)"
  by (induction i upd ob rule: update_first_thread.induct)
     (auto simp: obj_all_def intro: timeline_ok_patch)

lemma thread_inv [inv_intro]:
  "chat_inv s \<Longrightarrow> list_all message_ok msgs \<Longrightarrow> chat_inv (setThreadReplies i msgs s)"
  "chat_inv s \<Longrightarrow> message_ok msg \<Longrightarrow> chat_inv (addThreadReply i msg s)"
  "chat_inv s \<Longrightarrow> patch_ok upd \<Longrightarrow> chat_inv (updateThreadReply i upd s)"
  by (auto simp: chat_inv_def setThreadReplies_def addThreadReply_def updateThreadReply_def Let_def
      intro!: inv_intro first_thread_ok)

lemma reaction_inv [inv_intro]: "chat_inv s \<Longrightarrow> chat_inv (applyReactionUpdate i e a u c s)"
  by (auto simp: chat_inv_def applyReactionUpdate_def Let_def
      intro!: inv_intro timeline_ok_react timeline_ok_if_has)

lemma preview_inv [inv_intro]:
  "chat_inv s \<Longrightarrow> chat_inv (applyLinkPreview i p s)"
  "chat_inv s \<Longrightarrow> chat_inv (clearLinkPreview i s)"
  by (auto simp: chat_inv_def applyLinkPreview_def clearLinkPreview_def
      intro!: inv_intro timeline_ok_preview timeline_ok_if_has)

subsection \<open>Uploads\<close>

lemma revoke_core:
  "revokeAttachmentPreview a s = s\<lparr> revokedPreviews := revokedPreviews (revokeAttachmentPreview a s) \<rparr>"
  by (simp add: revokeAttachmentPreview_def split: option.split)

lemma revoke_fields [simp]:
  "core_fields (revokeAttachmentPreview a s) = core_fields s"
  by (subst revoke_core) (simp add: core_fields_def)

lemma revokes_fields [simp]: "core_fields (revokeAttachmentPreviews as s) = core_fields s"
  unfolding revokeAttachmentPreviews_def by (induction as arbitrary: s) simp_all

lemma revoke_inv:
  "chat_inv s \<Longrightarrow> chat_inv (revokeAttachmentPreview a s)"
  "chat_inv s \<Longrightarrow> chat_inv (revokeAttachmentPreviews as s)"
  by (auto intro: chat_inv_core [rotated])

lemma set_uploads_inv:
  "chat_inv s \<Longrightarrow> obj_all (\<lambda>as. as \<noteq> []) ob \<Longrightarrow> chat_inv (s\<lparr> pendingAttachmentsByChat := ob \<rparr>)"
  by (simp add: chat_inv_def)

lemma map_where_Nil: "map_where p f xs = [] \<longleftrightarrow> xs = []"
  by (cases xs) simp_all

lemma uploads_inv [inv_intro]:
  assumes s: "chat_inv s"
  shows "chat_inv (addPendingAttachments i as s)"
    and "chat_inv (updatePendingAttachment i a upd s)"
    and "chat_inv (removePendingAttachment i a s)"
    and "chat_inv (clearPendingAttachments i s)"
proof -
  have ob: "obj_all (\<lambda>as. as \<noteq> []) (pendingAttachmentsByChat s)"
    using s by (simp add: chat_inv_def)
  show "chat_inv (addPendingAttachments i as s)"
    using s ob by (auto simp: addPendingAttachments_def intro!: set_uploads_inv inv_intro)
  show "chat_inv (updatePendingAttachment i a upd s)"
    using s ob by (auto simp: updatePendingAttachment_def map_where_Nil split: option.split
        intro!: set_uploads_inv inv_intro dest: obj_all_get)
  show "chat_inv (removePendingAttachment i a s)"
    using s ob by (auto simp: removePendingAttachment_def Let_def split: option.split
        intro!: set_uploads_inv revoke_inv obj_all_set obj_all_del)
  show "chat_inv (clearPendingAttachments i s)"
    using s ob by (auto simp: clearPendingAttachments_def split: option.split
        intro!: set_uploads_inv revoke_inv obj_all_del)
qed

lemma clearUserState_inv [inv_intro]: "chat_inv s \<Longrightarrow> chat_inv (clearUserState s)"
  by (simp add: chat_inv_def clearUserState_def)


section \<open>The store as a transition system\<close>

text \<open>
  One event per action of the store.  A retry, a flush or a reconciliation is not one event: between
  its \<open>await\<close>s other actions run, so it appears as the actions it performs (\<open>MarkSending\<close>, \<open>MarkSent\<close>,
  \<open>MarkFailed\<close>, \<open>DropAcked\<close>) at whatever moments they fall.
\<close>

datatype list_event =
    SetChats js_id "chat list"
  | AddChat chat
  | RemoveChat int
  | UpdateChat int chat_patch
  | SetCurrent "int option"
  | SetWidget "int option"
  | LogOut

datatype badge_event =
    UpdateUnread int int
  | DecrementUnread int
  | SetGlobal int
  | IncrementGlobal
  | DecrementGlobal int
  | FetchGlobal "js_error + int"
  | AddMention int
  | ClearMention int
  | PinSeen int
  | PinUnseen int

datatype live_event =
    SetTyping int int
  | ClearTyping int int
  | PresenceEvent int bool "int option"
  | PresenceSnapshot "presence_entry list"

datatype message_event =
    SetMessages int "message list"
  | AddMessage js_num message "int option" "string option"
  | Prepend int "message list"
  | UpdateMessage int message_patch
  | RemoveMessage int
  | React int string reaction_action chat_user "int option"
  | Preview int link_preview
  | DropPreview int
  | OpenThread "int option"
  | SetReplies int "message list"
  | AddReply int message
  | UpdateReply int message_patch

datatype send_event =
    AddUploads int "pending_attachment list"
  | UpdateUpload int string attachment_patch
  | RemoveUpload int string
  | ClearUploads int
  | Enqueue outbox_entry
  | MarkSending string
  | MarkFailed string
  | MarkSent string message
  | DropAcked string

datatype ui_event =
    OpenWidget
  | CloseWidget
  | PageOpen bool
  | SelectProject "js_id option"
  | SelectWidgetProject "js_id option"
  | View chat_view
  | WidgetView chat_view
  | Loading bool
  | Activity int
  | FilesRefresh int

datatype chat_event =
    Lists list_event | Badges badge_event | Live live_event | Msgs message_event | Sends send_event | UI ui_event

text \<open>An action that throws leaves the state as it was.\<close>

primrec perform_list :: "list_event \<Rightarrow> chat_state \<Rightarrow> chat_state" where
  "perform_list (SetChats pid cs) s = setChatsForProject pid cs s"
| "perform_list (AddChat c) s = addChat c s"
| "perform_list (RemoveChat i) s = removeChat i s"
| "perform_list (UpdateChat i cp) s = updateChat i cp s"
| "perform_list (SetCurrent i) s = setCurrentChat i s"
| "perform_list (SetWidget i) s = setWidgetChat i s"
| "perform_list LogOut s = clearUserState s"

primrec perform_badge :: "badge_event \<Rightarrow> chat_state \<Rightarrow> chat_state" where
  "perform_badge (UpdateUnread i n) s = updateUnreadCount i n s"
| "perform_badge (DecrementUnread i) s = decrementUnreadCount i s"
| "perform_badge (SetGlobal n) s = setGlobalUnreadCount n s"
| "perform_badge IncrementGlobal s = incrementGlobalUnreadCount s"
| "perform_badge (DecrementGlobal n) s = decrementGlobalUnreadCount n s"
| "perform_badge (FetchGlobal r) s = snd (fetchGlobalUnreadCount r s)"
| "perform_badge (AddMention i) s = addMentionedChat i s"
| "perform_badge (ClearMention i) s = (case clearMentionedChat i s of Inl _ \<Rightarrow> s | Inr s' \<Rightarrow> s')"
| "perform_badge (PinSeen i) s = clearChatPinUnseen i s"
| "perform_badge (PinUnseen i) s = markChatPinUnseen i s"

primrec perform_live :: "live_event \<Rightarrow> chat_state \<Rightarrow> chat_state" where
  "perform_live (SetTyping i u) s = setTypingUser i u s"
| "perform_live (ClearTyping i u) s = clearTypingUser i u s"
| "perform_live (PresenceEvent u b v) s = updateUserPresence u b v s"
| "perform_live (PresenceSnapshot us) s = setPresenceSnapshot us s"

primrec perform_message :: "message_event \<Rightarrow> chat_state \<Rightarrow> chat_state" where
  "perform_message (SetMessages i ms) s = setMessages i ms s"
| "perform_message (AddMessage i m u r) s = addMessage i m u r s"
| "perform_message (Prepend i ms) s = prependMessages i ms s"
| "perform_message (UpdateMessage i mp) s = updateMessage i mp s"
| "perform_message (RemoveMessage i) s = removeMessage i s"
| "perform_message (React i e a u c) s = applyReactionUpdate i e a u c s"
| "perform_message (Preview i p) s = applyLinkPreview i p s"
| "perform_message (DropPreview i) s = clearLinkPreview i s"
| "perform_message (OpenThread i) s = setActiveThreadMessageId i s"
| "perform_message (SetReplies i ms) s = setThreadReplies i ms s"
| "perform_message (AddReply i m) s = addThreadReply i m s"
| "perform_message (UpdateReply i mp) s = updateThreadReply i mp s"

primrec perform_send :: "send_event \<Rightarrow> chat_state \<Rightarrow> chat_state" where
  "perform_send (AddUploads i as) s = addPendingAttachments i as s"
| "perform_send (UpdateUpload i a upd) s = updatePendingAttachment i a upd s"
| "perform_send (RemoveUpload i a) s = removePendingAttachment i a s"
| "perform_send (ClearUploads i) s = clearPendingAttachments i s"
| "perform_send (Enqueue e) s = enqueueOutbox e s"
| "perform_send (MarkSending c) s = markOutboxSending c s"
| "perform_send (MarkFailed c) s = markOutboxFailed c s"
| "perform_send (MarkSent c m) s = markOutboxSent c m s"
| "perform_send (DropAcked c) s = s\<lparr> outbox := filter (\<lambda>r. clientMessageId r \<noteq> c) (outbox s) \<rparr>"

primrec perform_ui :: "ui_event \<Rightarrow> chat_state \<Rightarrow> chat_state" where
  "perform_ui OpenWidget s = openWidget s"
| "perform_ui CloseWidget s = closeWidget s"
| "perform_ui (PageOpen b) s = setMessagePageOpen b s"
| "perform_ui (SelectProject pid) s = setSelectedProjectId pid s"
| "perform_ui (SelectWidgetProject pid) s = setWidgetProjectId pid s"
| "perform_ui (View v) s = setView v s"
| "perform_ui (WidgetView v) s = setWidgetView v s"
| "perform_ui (Loading b) s = setLoading b s"
| "perform_ui (Activity now) s = triggerChatActivity now s"
| "perform_ui (FilesRefresh now) s = triggerFilesRefresh now s"

primrec perform_chat :: "chat_event \<Rightarrow> chat_state \<Rightarrow> chat_state" where
  "perform_chat (Lists e) s = perform_list e s"
| "perform_chat (Badges e) s = perform_badge e s"
| "perform_chat (Live e) s = perform_live e s"
| "perform_chat (Msgs e) s = perform_message e s"
| "perform_chat (Sends e) s = perform_send e s"
| "perform_chat (UI e) s = perform_ui e s"

text \<open>
  What the server's payloads are taken to satisfy: messages with consistent reaction lists, unread
  counts that are not negative, and patches that do not change a sequence number.
\<close>

definition chat_guard :: "chat_state \<Rightarrow> chat_event \<Rightarrow> bool" where
  "chat_guard s e =
     (case e of
        Lists (SetChats pid cs) \<Rightarrow> list_all chat_ok cs
      | Lists (AddChat c) \<Rightarrow> chat_ok c
      | Badges (FetchGlobal r) \<Rightarrow> (case r of Inl _ \<Rightarrow> True | Inr n \<Rightarrow> 0 \<le> n)
      | Msgs (SetMessages i ms) \<Rightarrow> list_all message_ok ms
      | Msgs (AddMessage i m u r) \<Rightarrow> message_ok m
      | Msgs (Prepend i ms) \<Rightarrow> list_all message_ok ms
      | Msgs (UpdateMessage i mp) \<Rightarrow> patch_ok mp
      | Msgs (SetReplies i ms) \<Rightarrow> list_all message_ok ms
      | Msgs (AddReply i m) \<Rightarrow> message_ok m
      | Msgs (UpdateReply i mp) \<Rightarrow> patch_ok mp
      | Sends (MarkSent c m) \<Rightarrow> message_ok m
      | _ \<Rightarrow> True)"

lemma clear_mention_inv: "chat_inv s \<Longrightarrow> clearMentionedChat i s = Inr s' \<Longrightarrow> chat_inv s'"
  by (rule chat_inv_core [OF clear_mentioned_core])

lemmas perform_inv =
  inv_intro ui_core [THEN chat_inv_core] presence_core [THEN chat_inv_core] clear_mention_inv

lemma perform_list_inv: "chat_inv s \<Longrightarrow> chat_guard s (Lists e) \<Longrightarrow> chat_inv (perform_list e s)"
  by (cases e) (simp_all add: chat_guard_def perform_inv split: sum.splits)

lemma perform_badge_inv: "chat_inv s \<Longrightarrow> chat_guard s (Badges e) \<Longrightarrow> chat_inv (perform_badge e s)"
  by (cases e) (simp_all add: chat_guard_def perform_inv split: sum.splits)

lemma perform_live_inv: "chat_inv s \<Longrightarrow> chat_guard s (Live e) \<Longrightarrow> chat_inv (perform_live e s)"
  by (cases e) (simp_all add: chat_guard_def perform_inv split: sum.splits)

lemma perform_message_inv: "chat_inv s \<Longrightarrow> chat_guard s (Msgs e) \<Longrightarrow> chat_inv (perform_message e s)"
  by (cases e) (simp_all add: chat_guard_def perform_inv split: sum.splits)

lemma perform_send_inv: "chat_inv s \<Longrightarrow> chat_guard s (Sends e) \<Longrightarrow> chat_inv (perform_send e s)"
  by (cases e) (simp_all add: chat_guard_def perform_inv split: sum.splits)

lemma perform_ui_inv: "chat_inv s \<Longrightarrow> chat_guard s (UI e) \<Longrightarrow> chat_inv (perform_ui e s)"
  by (cases e) (simp_all add: chat_guard_def perform_inv split: sum.splits)

lemma perform_chat_inv: "chat_inv s \<Longrightarrow> chat_guard s e \<Longrightarrow> chat_inv (perform_chat e s)"
  by (cases e)
     (simp_all add: perform_list_inv perform_badge_inv perform_live_inv perform_message_inv perform_send_inv perform_ui_inv)

interpretation chats: event_system chat_guard perform_chat chat_inv
  by unfold_locales (rule perform_chat_inv)

lemma init_chat_inv: "chat_inv init_chat_state"
  by (simp add: chat_inv_def init_chat_state_def)

end
