(* ===== verification/Chat_Properties.thy ===== *)
theory Chat_Properties imports Chat_Store begin

text \<open>
  What the chat store promises its callers, action by action: how unread counts move, when a second
  delivery of a message is harmless, that reactions can be taken back, what removing a chat touches,
  how a message that is sent travels through the outbox, and the cases in which the code does not do
  what its comments say.
\<close>

section \<open>Concrete payloads\<close>

definition a_user :: "int \<Rightarrow> chat_user" where
  "a_user i = \<lparr> user_id = i, is_online = Some True, user_rest = [] \<rparr>"

definition a_message :: "int \<Rightarrow> int option \<Rightarrow> int \<Rightarrow> message" where
  "a_message i sq sender =
     \<lparr> m_id = i, m_seq = sq, m_chat_id = Some 1, m_chat = None, m_sender = Some (a_user sender),
       m_reply_to = None, m_reactions = None, m_created_at = ''2024-01-01T00:00:00Z'',
       m_attachments = None, m_mentioned_user_ids = None, m_link_preview = None,
       m_client_message_id = None, m_send_status = None, m_rest = [] \<rparr>"

definition a_chat :: "int \<Rightarrow> int option \<Rightarrow> chat" where
  "a_chat i unread =
     \<lparr> c_id = i, c_slug = None, c_project_id = Some (NumId 5), c_project = None, c_created_by = None,
       c_participants = None, c_last_message = None, c_unread_count = unread,
       c_mention_unread_count = None, c_rest = [] \<rparr>"

definition an_entry :: "string \<Rightarrow> outbox_entry" where
  "an_entry cid =
     \<lparr> clientMessageId = cid, ob_chatId = 1, ob_content = ''hello'', ob_richBody = None,
       attachmentIds = [], mentionIds = None, replyToId = None, parentMessageId = None,
       ob_status = Pending, enqueuedAt = ''2024-01-01T00:00:00Z'' \<rparr>"

lemmas payload_defs = a_user_def a_message_def a_chat_def an_entry_def

section \<open>What survives reordering\<close>

definition with_seq :: "int \<Rightarrow> message list \<Rightarrow> message list" where
  "with_seq q msgs = filter (\<lambda>y. messageSequence y = Some q) msgs"

lemma file_message_key:
  assumes "messageSequence x = Some q"
    and "set (with_seq q msgs) \<subseteq> {x}"
    and "jmap_get (fst acc) q = None \<or> jmap_get (fst acc) q = Some x"
  shows "jmap_get (fst (foldl file_message acc msgs)) q =
         (if with_seq q msgs \<noteq> [] then Some x else jmap_get (fst acc) q)"
  using assms(2,3)
proof (induction msgs arbitrary: acc)
  case (Cons msg msgs)
  show ?case
  proof (cases "messageSequence msg = Some q")
    case True
    with Cons.prems have "msg = x" by (simp add: with_seq_def)
    then have "jmap_get (fst (file_message acc msg)) q = Some x"
      using Cons.prems(2) assms(1)
      by (cases "jmap_get (fst acc) q")
         (simp_all add: file_message_def jmap_get_set shouldMergeIncomingMessage_def)
    with Cons.IH [of "file_message acc msg"] Cons.prems True show ?thesis
      by (simp add: with_seq_def)
  next
    case False
    then have "jmap_get (fst (file_message acc msg)) q = jmap_get (fst acc) q"
      by (auto simp: file_message_def jmap_get_set split: option.split)
    with False Cons.IH [of "file_message acc msg"] Cons.prems show ?thesis
      by (simp add: with_seq_def)
  qed
qed (simp add: with_seq_def)

text \<open>A message that no other message of the list shares its sequence number with is kept.\<close>

definition seq_unshared :: "message \<Rightarrow> message list \<Rightarrow> bool" where
  "seq_unshared x msgs \<longleftrightarrow>
     (case messageSequence x of None \<Rightarrow> True | Some q \<Rightarrow> set (with_seq q msgs) \<subseteq> {x})"

lemma reorder_keeps:
  assumes "x \<in> set msgs" and "seq_unshared x msgs"
  shows "x \<in> set (reorderMessagesBySequence msgs)"
proof (cases "messageSequence x")
  case None
  have "set (filter (\<lambda>m. \<not> committed m) (reorderMessagesBySequence msgs)) =
      set (filter (\<lambda>m. \<not> committed m) msgs)"
    by (simp only: filter_reorder set_js_sort)
  with None assms(1) show ?thesis by (auto simp: committed_def)
next
  case (Some q)
  with assms have "set (with_seq q msgs) \<subseteq> {x}" and ne: "with_seq q msgs \<noteq> []"
    by (auto simp: seq_unshared_def with_seq_def filter_empty_conv)
  from file_message_key [OF Some this(1), of "([], [])"] ne
  have "jmap_get (fst (foldl file_message ([], []) msgs)) q = Some x"
    by (simp add: jmap_get_def)
  then have "(q, x) \<in> set (fst (foldl file_message ([], []) msgs))"
    by (simp add: jmap_get_def map_of_SomeD)
  then show ?thesis by (force simp: reorder_eq_slow slow_reorder_def)
qed

lemma reorder_attachments:
  assumes "\<forall>x \<in> set msgs. m_id x = i \<longrightarrow> n \<le> attachment_count x"
  shows "\<forall>x \<in> set (reorderMessagesBySequence msgs). m_id x = i \<longrightarrow> n \<le> attachment_count x"
proof -
  have "list_all (\<lambda>x. m_id x = i \<longrightarrow> n \<le> attachment_count x) (reorderMessagesBySequence msgs)"
  proof (rule reorder_all)
    fix a b :: message
    assume "m_id b = i \<longrightarrow> n \<le> attachment_count b"
    then show "m_id (merge_message a b) = i \<longrightarrow> n \<le> attachment_count (merge_message a b)"
      by (cases "m_attachments b") (auto simp: attachment_count_def)
  qed (use assms in \<open>simp add: list_all_iff\<close>)
  then show ?thesis by (simp add: list_all_iff)
qed

lemma seq_unshared_snoc:
  "seq_unshared msg msgs \<Longrightarrow> seq_unshared msg (msgs @ [msg])"
  by (auto simp: seq_unshared_def with_seq_def split: option.split)

section \<open>A second delivery\<close>

definition stored_messages :: "int \<Rightarrow> chat_state \<Rightarrow> message list" where
  "stored_messages c s = nullish (obj_get (messages s) (num_key c)) []"

lemma find_index_ex: "x \<in> set xs \<Longrightarrow> P x \<Longrightarrow> \<exists>i. find_index P xs = Some i"
  using find_index_None [of P xs] by (cases "find_index P xs") auto

lemma addMessage_known:
  assumes "\<exists>x \<in> set (stored_messages c s). m_id x = m_id msg"
    and "\<forall>x \<in> set (stored_messages c s). m_id x = m_id msg \<longrightarrow> attachment_count msg \<le> attachment_count x"
  shows "addMessage (Num c) msg u None s = s"
proof -
  obtain x where x: "x \<in> set (stored_messages c s)" "m_id x = m_id msg"
    using assms(1) by blast
  obtain i where i: "find_index (\<lambda>x. m_id x = m_id msg) (stored_messages c s) = Some i"
    using find_index_ex [of x _ "\<lambda>x. m_id x = m_id msg"] x by blast
  have "\<not> shouldMergeIncomingMessage (stored_messages c s ! i) msg"
    using find_index_Some [OF i] assms(2) nth_mem
    unfolding shouldMergeIncomingMessage_def not_less by blast
  with i show ?thesis by (simp add: addMessage_def stored_messages_def)
qed

lemma addMessage_new:
  assumes "m_id msg \<notin> m_id ` set (stored_messages c s)"
  shows "stored_messages c (addMessage (Num c) msg u None s) =
           reorderMessagesBySequence (stored_messages c s @ [msg])"
    and "obj_get (unreadCounts (addMessage (Num c) msg u None s)) k =
           (if k = num_key c
            then Some (nullish (obj_get (unreadCounts s) k) 0 +
                   (if should_increment_unread (Num c) msg u s then 1 else 0))
            else obj_get (unreadCounts s) k)"
proof -
  have none: "find_index (\<lambda>x. m_id x = m_id msg) (nullish (obj_get (messages s) (num_key c)) []) = None"
    using assms unfolding find_index_None stored_messages_def by (metis imageI)
  show "stored_messages c (addMessage (Num c) msg u None s) =
           reorderMessagesBySequence (stored_messages c s @ [msg])"
    by (simp add: addMessage_def stored_messages_def none Let_def)
  show "obj_get (unreadCounts (addMessage (Num c) msg u None s)) k =
           (if k = num_key c
            then Some (nullish (obj_get (unreadCounts s) k) 0 +
                   (if should_increment_unread (Num c) msg u s then 1 else 0))
            else obj_get (unreadCounts s) k)"
    by (simp add: addMessage_def none Let_def)
qed

text \<open>Delivering a new message a second time changes nothing: no duplicate in the timeline and no
  second unread badge, provided no other message of the chat carries its sequence number.\<close>

lemma redelivery_is_harmless:
  assumes "m_id msg \<notin> m_id ` set (stored_messages c s)"
    and "seq_unshared msg (stored_messages c s)"
  shows "addMessage (Num c) msg u None (addMessage (Num c) msg u None s) =
         addMessage (Num c) msg u None s"
proof (rule addMessage_known)
  let ?msgs = "stored_messages c s @ [msg]"
  have stored: "stored_messages c (addMessage (Num c) msg u None s) = reorderMessagesBySequence ?msgs"
    using assms(1) by (rule addMessage_new)
  have "msg \<in> set (reorderMessagesBySequence ?msgs)"
    using assms(2) by (intro reorder_keeps seq_unshared_snoc) simp_all
  then show "\<exists>x \<in> set (stored_messages c (addMessage (Num c) msg u None s)). m_id x = m_id msg"
    unfolding stored by blast
  have "\<forall>x \<in> set ?msgs. m_id x = m_id msg \<longrightarrow> attachment_count msg \<le> attachment_count x"
    using assms(1) by (auto intro: imageI) (metis imageI)
  then show "\<forall>x \<in> set (stored_messages c (addMessage (Num c) msg u None s)).
      m_id x = m_id msg \<longrightarrow> attachment_count msg \<le> attachment_count x"
    unfolding stored by (rule reorder_attachments)
qed

lemma redelivery_is_harmless_witness:
  "addMessage (Num 1) (a_message 7 (Some 3) 2) (Some 4) None
     (addMessage (Num 1) (a_message 7 (Some 3) 2) (Some 4) None init_chat_state) =
   addMessage (Num 1) (a_message 7 (Some 3) 2) (Some 4) None init_chat_state"
  by (rule redelivery_is_harmless)
     (simp_all add: stored_messages_def init_chat_state_def seq_unshared_def with_seq_def split: option.split)

text \<open>A new message moves exactly one unread count: its own chat's, by one, unless the user is
  viewing that chat or has sent the message.\<close>

lemma unread_after_new_message:
  assumes "m_id msg \<notin> m_id ` set (stored_messages c s)"
  shows "nullish (obj_get (unreadCounts (addMessage (Num c) msg (Some uid) None s)) k) 0 =
         nullish (obj_get (unreadCounts s) k) 0 +
         (if k = num_key c \<and> currentChatId s \<noteq> Some c \<and> \<not> (sender_id msg = Some uid) then 1 else 0)"
  using addMessage_new(2) [OF assms, of "Some uid" k]
  by (auto simp: should_increment_unread_def split: option.splits)

lemma unread_after_new_message_witness:
  "nullish (obj_get (unreadCounts (addMessage (Num 1) (a_message 7 (Some 3) 2) (Some 4) None
      init_chat_state)) (num_key 1)) 0 = 1"
  using unread_after_new_message [of "a_message 7 (Some 3) 2" 1 init_chat_state 4 "num_key 1"]
  by (simp add: stored_messages_def init_chat_state_def sender_id_def payload_defs)

section \<open>Loading a project\<close>

lemma get_fold_set_keys:
  "k \<notin> key ` set cs \<Longrightarrow> obj_get (fold (\<lambda>c. obj_set (key c) (f c)) cs ob) k = obj_get ob k"
  by (induction cs arbitrary: ob) auto

lemma get_fold_set_in:
  "inj_on key (set cs) \<Longrightarrow> c \<in> set cs \<Longrightarrow>
   obj_get (fold (\<lambda>c. obj_set (key c) (f c)) cs ob) (key c) = Some (f c)"
proof (induction cs arbitrary: ob)
  case (Cons d cs)
  show ?case
  proof (cases "c \<in> set cs")
    case True
    with Cons show ?thesis by (simp add: inj_on_def)
  next
    case False
    with Cons.prems have "c = d" "key c \<notin> key ` set cs" by (auto simp: inj_on_def)
    then show ?thesis by (simp add: get_fold_set_keys)
  qed
qed simp

lemma get_fold_set_some:
  "k \<in> key ` set cs \<Longrightarrow> obj_get (fold (\<lambda>c. obj_set (key c) (f c)) cs ob) k \<noteq> None"
proof (induction cs arbitrary: ob)
  case (Cons d cs)
  then show ?case
    by (cases "k \<in> key ` set cs") (simp_all add: get_fold_set_keys)
qed simp

lemma inj_chat_keys:
  "distinct (map c_id cs) \<Longrightarrow>
   inj_on (\<lambda>c. num_key (c_id c)) (set (map (\<lambda>c. normalizeChatProject c f) cs))"
  by (auto simp: inj_on_def distinct_map)

lemma setChats_unread:
  "unreadCounts (setChatsForProject pid cs s) =
   fold (\<lambda>c. obj_set (num_key (c_id c)) (synced_unread (currentChatId s) (unreadCounts s) c))
     (map (\<lambda>c. normalizeChatProject c (Some pid)) cs) (unreadCounts s)"
  by (simp add: setChatsForProject_def Let_def)

lemma synced_normalize [simp]:
  "synced_unread cur counts (normalizeChatProject c f) = synced_unread cur counts c"
  by (simp add: synced_unread_def)

lemma synced_merge:
  "chat_ok c \<Longrightarrow>
   synced_unread cur counts c =
   (if cur = Some (c_id c) \<or> obj_get counts (num_key (c_id c)) = Some 0 then 0
    else max (nullish (obj_get counts (num_key (c_id c))) 0) (nullish (c_unread_count c) 0))"
  by (auto simp: synced_unread_def chat_ok_def Let_def split: option.split)

text \<open>Loading a project's chats merges the server's unread counts with the local ones: the chat
  being viewed stays read, a chat read locally stays read whatever the server says, any other
  known chat keeps the larger count and an unknown one takes the server's.\<close>

lemma load_merges_unread:
  assumes "distinct (map c_id cs)" and "c \<in> set cs" and "chat_ok c"
  shows "obj_get (unreadCounts (setChatsForProject pid cs s)) (num_key (c_id c)) =
         Some (if currentChatId s = Some (c_id c) \<or> obj_get (unreadCounts s) (num_key (c_id c)) = Some 0
               then 0
               else max (nullish (obj_get (unreadCounts s) (num_key (c_id c))) 0)
                        (nullish (c_unread_count c) 0))"
proof -
  let ?n = "\<lambda>c. normalizeChatProject c (Some pid)"
  have "?n c \<in> set (map ?n cs)" using assms(2) by simp
  from get_fold_set_in [OF inj_chat_keys [OF assms(1)] this,
      of "synced_unread (currentChatId s) (unreadCounts s)" "unreadCounts s"]
  show ?thesis
    by (simp add: setChats_unread synced_merge [OF assms(3)] del: set_map)
qed

lemma load_merges_unread_witness:
  "obj_get (unreadCounts (setChatsForProject (NumId 5) [a_chat 1 (Some 2), a_chat 3 (Some 4)]
     (init_chat_state\<lparr> unreadCounts := [(num_key 3, 0)] \<rparr>))) (num_key 3) = Some 0"
  using load_merges_unread [of "[a_chat 1 (Some 2), a_chat 3 (Some 4)]" "a_chat 3 (Some 4)" "NumId 5"
      "init_chat_state\<lparr> unreadCounts := [(num_key 3, 0)] \<rparr>"]
  by (simp add: payload_defs chat_ok_def init_chat_state_def obj_get_def)

text \<open>After a project is loaded, every chat of its list shows exactly the unread count that the
  badge of that chat shows, and the counts of chats outside the payload have not moved.\<close>

lemma load_keeps_badges_consistent:
  "\<exists>cs'. obj_get (chatsByProject (setChatsForProject pid cs s)) (id_key pid) = Some cs' \<and>
     map c_id cs' = map c_id cs \<and>
     list_all (\<lambda>c. c_unread_count c =
       obj_get (unreadCounts (setChatsForProject pid cs s)) (num_key (c_id c))) cs' \<and>
     (\<forall>k. k \<in> (\<lambda>c. num_key (c_id c)) ` set cs \<or>
       obj_get (unreadCounts (setChatsForProject pid cs s)) k = obj_get (unreadCounts s) k)"
proof -
  let ?n = "\<lambda>c. normalizeChatProject c (Some pid)"
  let ?counts = "unreadCounts (setChatsForProject pid cs s)"
  let ?cs' = "map (\<lambda>c. c\<lparr> c_unread_count :=
      Some (nullish (obj_get ?counts (num_key (c_id c))) (nullish (c_unread_count c) 0)) \<rparr>) (map ?n cs)"
  have "obj_get ?counts (num_key (c_id c)) \<noteq> None" if "c \<in> set cs" for c
    unfolding setChats_unread using that by (intro get_fold_set_some) (auto simp: image_image)
  then have "list_all (\<lambda>c. c_unread_count c = obj_get ?counts (num_key (c_id c))) ?cs'"
    by (auto simp: list_all_iff nullish_def split: option.split)
  moreover have "obj_get (chatsByProject (setChatsForProject pid cs s)) (id_key pid) = Some ?cs'"
    by (simp only: setChats_unread) (simp add: setChatsForProject_def Let_def)
  moreover have "obj_get ?counts k = obj_get (unreadCounts s) k"
    if "k \<notin> (\<lambda>c. num_key (c_id c)) ` set cs" for k
    using that unfolding setChats_unread by (intro get_fold_set_keys) (auto simp: image_image)
  ultimately show ?thesis by (intro exI [of _ ?cs']) (auto simp: comp_def)
qed

section \<open>Removing a chat\<close>

text \<open>Removing a chat takes it out of every project list and drops its messages and unread count,
  closes it wherever it was open, lowers the global count by its unread messages but never below
  zero, and leaves the messages and counts of every other chat alone.\<close>

lemma remove_chat_is_complete:
  "(\<forall>cs \<in> set (obj_values (chatsByProject (removeChat i s))). i \<notin> c_id ` set cs) \<and>
   obj_get (messages (removeChat i s)) (num_key i) = None \<and>
   obj_get (unreadCounts (removeChat i s)) (num_key i) = None \<and>
   currentChatId (removeChat i s) \<noteq> Some i \<and> widgetChatId (removeChat i s) \<noteq> Some i \<and>
   globalUnreadCount (removeChat i s) =
     max 0 (globalUnreadCount s - nullish (obj_get (unreadCounts s) (num_key i)) 0) \<and>
   (\<forall>k. k = num_key i \<or>
     (obj_get (messages (removeChat i s)) k = obj_get (messages s) k \<and>
      obj_get (unreadCounts (removeChat i s)) k = obj_get (unreadCounts s) k))"
  by (auto simp: removeChat_def Let_def obj_values_def obj_map_def)

lemma remove_chat_is_complete_witness:
  "currentChatId (removeChat 1 (setCurrentChat (Some 1) init_chat_state)) \<noteq> Some 1 \<and>
   obj_get (unreadCounts (removeChat 1 (setCurrentChat (Some 1) init_chat_state))) (num_key 1) = None"
  using remove_chat_is_complete [of 1 "setCurrentChat (Some 1) init_chat_state"] by simp

section \<open>Reactions\<close>

lemma find_skip:
  "list_all (\<lambda>x. \<not> P x) xs \<Longrightarrow> List.find P (xs @ ys) = List.find P ys"
  by (induction xs) auto

lemma find_index_split:
  assumes "find_index P xs = Some i"
  obtains us x vs where "xs = us @ x # vs" "i = length us" "P x" "list_all (\<lambda>x. \<not> P x) us"
proof -
  from find_index_Some [OF assms]
  have i: "i < length xs" "P (xs ! i)" "\<forall>j < i. \<not> P (xs ! j)" by simp_all
  then have "xs = take i xs @ xs ! i # drop (Suc i) xs" by (simp add: id_take_nth_drop)
  moreover have "list_all (\<lambda>x. \<not> P x) (take i xs)" using i by (simp add: list_all_length)
  ultimately show ?thesis using i that [of "take i xs" "xs ! i"] by simp
qed

lemma map_where_skip: "list_all (\<lambda>x. \<not> P x) xs \<Longrightarrow> map_where P f xs = xs"
  by (induction xs) auto

definition reacted :: "string \<Rightarrow> int \<Rightarrow> chat_reaction list \<Rightarrow> bool" where
  "reacted e a rs \<longleftrightarrow> list_ex (\<lambda>r. r_emoji r = e \<and> acted a r) rs"

definition claims_own :: "string \<Rightarrow> chat_reaction list \<Rightarrow> bool" where
  "claims_own e rs \<longleftrightarrow> list_ex (\<lambda>r. r_emoji r = e \<and> reacted_by_me r) rs"

lemma positive_counts: "list_all reaction_ok rs \<Longrightarrow> filter (\<lambda>r. r_count r > 0) rs = rs"
  by (auto simp: filter_id_conv list_all_iff reaction_ok_def)

lemma reactions_ok_distinct: "reactions_ok rs \<Longrightarrow> distinct (map r_emoji rs)"
  by (simp add: reactions_ok_def)

text \<open>Either no reaction has the emoji, or exactly one has.\<close>

lemma emoji_cases [consumes 1, case_names absent present]:
  assumes "distinct (map r_emoji rs)"
  obtains (absent) "list_all (\<lambda>r. r_emoji r \<noteq> e) rs"
  | (present) us r vs where "rs = us @ r # vs" "r_emoji r = e"
      "list_all (\<lambda>r. r_emoji r \<noteq> e) us" "list_all (\<lambda>r. r_emoji r \<noteq> e) vs"
proof (cases "find_index (\<lambda>r. r_emoji r = e) rs")
  case None
  then show ?thesis using that(1) by (simp add: find_index_None list_all_iff)
next
  case (Some i)
  then obtain us r vs where rs: "rs = us @ r # vs" "r_emoji r = e"
      "list_all (\<lambda>r. r_emoji r \<noteq> e) us"
    by (rule find_index_split)
  moreover have "list_all (\<lambda>r. r_emoji r \<noteq> e) vs"
    using assms rs(2) unfolding rs(1) list_all_iff by (auto simp: image_iff)
  ultimately show ?thesis using that(2) by blast
qed

lemma find_index_skip:
  "list_all (\<lambda>x. \<not> P x) us \<Longrightarrow> P x \<Longrightarrow> find_index P (us @ x # vs) = Some (length us)"
  by (induction us) auto

lemma find_index_absent: "list_all (\<lambda>x. \<not> P x) xs \<Longrightarrow> find_index P xs = None"
  by (simp add: find_index_None list_all_iff)

lemma find_absent: "list_all (\<lambda>x. \<not> P x) xs \<Longrightarrow> List.find P xs = None"
  by (simp add: find_None_iff list_all_iff)

definition with_user :: "chat_user \<Rightarrow> int option \<Rightarrow> chat_reaction \<Rightarrow> chat_reaction" where
  "with_user u c r = r\<lparr> r_count := r_count r + 1, r_users := r_users r @ [u],
                        reacted_by_me := reacted_by_me r \<or> Some (user_id u) = c \<rparr>"

definition without_user :: "int \<Rightarrow> int option \<Rightarrow> chat_reaction \<Rightarrow> chat_reaction" where
  "without_user a c r =
     r\<lparr> r_count := int (length (filter (\<lambda>u. user_id u \<noteq> a) (r_users r))),
        r_users := filter (\<lambda>u. user_id u \<noteq> a) (r_users r),
        reacted_by_me := (if Some a = c then False else reacted_by_me r) \<rparr>"

lemma add_absent:
  "list_all (\<lambda>r. r_emoji r \<noteq> e) rs \<Longrightarrow>
   add_reaction e u c rs = rs @ [\<lparr> r_emoji = e, r_count = 1, r_users = [u],
                                   reacted_by_me = (Some (user_id u) = c) \<rparr>]"
  by (simp add: add_reaction_def find_index_absent)

lemma add_present:
  "list_all (\<lambda>r. r_emoji r \<noteq> e) us \<Longrightarrow> r_emoji r = e \<Longrightarrow>
   add_reaction e u c (us @ r # vs) = us @ (if acted (user_id u) r then r else with_user u c r) # vs"
  by (simp add: add_reaction_def find_index_skip Let_def with_user_def)

lemma drop_absent: "list_all (\<lambda>r. r_emoji r \<noteq> e) rs \<Longrightarrow> drop_reaction e a c rs = rs"
  by (simp add: drop_reaction_def find_absent)

lemma drop_present:
  "list_all (\<lambda>r. r_emoji r \<noteq> e) us \<Longrightarrow> list_all (\<lambda>r. r_emoji r \<noteq> e) vs \<Longrightarrow> r_emoji r = e \<Longrightarrow>
   drop_reaction e a c (us @ r # vs) =
   (if acted a r then filter (\<lambda>r. r_count r > 0) (us @ without_user a c r # vs) else us @ r # vs)"
  by (simp add: drop_reaction_def find_skip map_where_skip without_user_def Let_def)

lemma acted_with [simp]: "acted (user_id u) (with_user u c r)"
  by (simp add: acted_def with_user_def)

lemma not_acted_without [simp]: "\<not> acted a (without_user a c r)"
  by (simp add: acted_def without_user_def list_ex_iff)

lemma emoji_with [simp]: "r_emoji (with_user u c r) = r_emoji r" "r_emoji (without_user a c r) = r_emoji r"
  by (simp_all add: with_user_def without_user_def)

lemma without_with:
  "reaction_ok r \<Longrightarrow> \<not> acted (user_id u) r \<Longrightarrow> (c = Some (user_id u) \<Longrightarrow> \<not> reacted_by_me r) \<Longrightarrow>
   without_user (user_id u) c (with_user u c r) = r"
  by (auto simp: without_user_def with_user_def reaction_ok_def acted_def list_ex_iff filter_id_conv)

lemma drop_after_add:
  assumes ok: "reactions_ok rs" and new: "\<not> reacted e (user_id u) rs"
    and own: "c = Some (user_id u) \<longrightarrow> \<not> claims_own e rs"
  shows "drop_reaction e (user_id u) c (add_reaction e u c rs) = rs"
  using reactions_ok_distinct [OF ok]
proof (cases rule: emoji_cases [of rs e])
  case absent
  with ok show ?thesis
    by (simp add: add_absent drop_present acted_def without_user_def positive_counts reactions_ok_def)
next
  case (present us r vs)
  have r: "reaction_ok r" "\<not> acted (user_id u) r" "c = Some (user_id u) \<Longrightarrow> \<not> reacted_by_me r"
    using ok new own present(2) by (auto simp: present(1) reactions_ok_def reacted_def claims_own_def)
  with present show ?thesis
    using positive_counts [of rs] ok
    by (simp add: add_present drop_present without_with reactions_ok_def)
qed

lemma add_twice:
  assumes "reactions_ok rs"
  shows "add_reaction e u c (add_reaction e u c rs) = add_reaction e u c rs"
  using reactions_ok_distinct [OF assms]
proof (cases rule: emoji_cases [of rs e])
  case absent
  then show ?thesis
    by (simp add: add_absent add_present acted_def)
next
  case (present us r vs)
  then show ?thesis by (simp add: add_present)
qed

text \<open>After a removal the reaction is gone or no longer names the user.\<close>

lemma find_after_drop:
  assumes ok: "reactions_ok rs"
  shows "case List.find (\<lambda>r. r_emoji r = e) (drop_reaction e a c rs) of
           None \<Rightarrow> True | Some r \<Rightarrow> \<not> acted a r"
  using reactions_ok_distinct [OF ok]
proof (cases rule: emoji_cases [of rs e])
  case absent
  then show ?thesis by (simp add: drop_absent find_absent)
next
  case (present us r vs)
  have pos: "filter (\<lambda>r. r_count r > 0) us = us" "filter (\<lambda>r. r_count r > 0) vs = vs"
    using ok by (simp_all add: present(1) reactions_ok_def positive_counts)
  show ?thesis
    using present(2-4) by (simp add: present(1) drop_present pos find_skip find_absent)
qed

text \<open>A reaction can be taken back: when the user had not reacted with that emoji before, adding
  the reaction and removing it restores the message's reactions exactly, counters included.\<close>

lemma reaction_taken_back:
  assumes "message_ok m" and "m_id m = i"
    and "\<not> reacted e (user_id u) (nullish (m_reactions m) [])"
    and "c = Some (user_id u) \<longrightarrow> \<not> claims_own e (nullish (m_reactions m) [])"
  shows "nullish (m_reactions (react_message i e Removed u c (react_message i e Added u c m))) [] =
         nullish (m_reactions m) []"
proof -
  let ?rs = "nullish (m_reactions m) []"
  have m': "react_message i e Added u c m = m\<lparr> m_reactions := Some (add_reaction e u c ?rs) \<rparr>"
    using assms(2) by (simp add: react_message_def)
  have restored: "drop_reaction e (user_id u) c (add_reaction e u c ?rs) = ?rs"
    using assms by (intro drop_after_add) (simp_all add: message_ok_def)
  show ?thesis
    unfolding m' using assms(2) restored
    by (auto simp: react_message_def Let_def drop_reaction_def split: option.splits)
qed

lemma reaction_taken_back_witness:
  "nullish (m_reactions (react_message 7 ''+1'' Removed (a_user 4) (Some 4)
     (react_message 7 ''+1'' Added (a_user 4) (Some 4) (a_message 7 None 2)))) [] = []"
  using reaction_taken_back [of "a_message 7 None 2" 7 "''+1''" "a_user 4" "Some 4"]
  by (simp add: payload_defs message_ok_def reactions_ok_def reacted_def claims_own_def)

text \<open>A reaction event is idempotent: a second delivery of the same event, added or removed,
  leaves the message as the first one left it.\<close>

lemma reaction_event_idempotent:
  assumes "message_ok m"
  shows "react_message i e a u c (react_message i e a u c m) = react_message i e a u c m"
proof (cases a)
  case Added
  with assms show ?thesis by (simp add: react_message_def add_twice message_ok_def)
next
  case Removed
  with assms show ?thesis
    using find_after_drop [where rs = "nullish (m_reactions m) []" and e = e and a = "user_id u" and c = c]
    by (auto simp: react_message_def message_ok_def Let_def split: option.splits)
qed

lemma reaction_event_idempotent_witness:
  "react_message 7 ''+1'' Added (a_user 4) None
     (react_message 7 ''+1'' Added (a_user 4) None (a_message 7 None 2)) =
   react_message 7 ''+1'' Added (a_user 4) None (a_message 7 None 2)"
  by (rule reaction_event_idempotent) (simp add: payload_defs message_ok_def reactions_ok_def)

section \<open>Totals\<close>

lemma foldl_plus: "foldl (+) (a :: int) xs = a + sum_list xs"
  by (induction xs arbitrary: a) simp_all

lemma total_sum: "getTotalUnreadCount s = sum_list (obj_values (unreadCounts s))"
  by (simp add: getTotalUnreadCount_def foldl_plus)

lemma sum_obj_set:
  "obj_ok ob \<Longrightarrow>
   sum_list (obj_values (obj_set k v ob)) = sum_list (obj_values ob) - nullish (obj_get ob k) 0 + (v :: int)"
proof (induction k v ob rule: obj_set.induct)
  case (2 k v k' v' r)
  have r: "obj_ok r" using "2.prems" by (simp add: obj_ok_def obj_keys_def)
  have le: "\<forall>l \<in> set (obj_keys r). \<not> key_before l k'"
    using "2.prems" by (simp add: obj_ok_def obj_keys_def)
  consider "k = k'" | "k \<noteq> k'" "key_before k k'" | "k \<noteq> k'" "\<not> key_before k k'" by blast
  then show ?case
  proof cases
    case 1
    then show ?thesis by (simp add: obj_values_def obj_get_def)
  next
    case 2
    then have "k \<notin> set (obj_keys r)" using le by blast
    then have "obj_get r k = None" by (simp add: obj_get_def obj_keys_def map_of_eq_None_iff)
    with 2 show ?thesis by (simp add: obj_values_def obj_get_def)
  next
    case 3
    with "2.IH" r show ?thesis by (simp add: obj_values_def obj_get_def)
  qed
qed (simp add: obj_values_def obj_get_def)

text \<open>The total in the badge follows a single chat's count: setting a chat's unread count moves
  the total by exactly the difference, a negative count being stored as zero.\<close>

lemma total_follows_update:
  assumes "chat_inv s"
  shows "getTotalUnreadCount (updateUnreadCount i n s) =
         getTotalUnreadCount s - nullish (obj_get (unreadCounts s) (num_key i)) 0 + max 0 n"
proof -
  have "unreadCounts (updateUnreadCount i n s) = obj_set (num_key i) (max 0 n) (unreadCounts s)"
    by (simp add: updateUnreadCount_def Let_def)
  with assms sum_obj_set [of "unreadCounts s"] show ?thesis
    by (simp add: total_sum chat_inv_def)
qed

lemma total_follows_update_witness:
  "getTotalUnreadCount (updateUnreadCount 3 (- 2) init_chat_state) = 0"
  using total_follows_update [OF init_chat_inv, of 3 "- 2"]
  by (simp add: init_chat_state_def getTotalUnreadCount_def obj_values_def)

section \<open>Clearing a mention\<close>

lemma clear_mentions_ok:
  assumes "distinct (pre @ map fst ob)"
    and "\<forall>k \<in> fst ` set ob. \<exists>n. k = num_key n"
    and "obj_ok (done @ ob)" and "pre = map fst done"
  shows "clear_mentions_at i (map fst ob) (done @ ob) =
         Inr (done @ obj_map (\<lambda>_. clear_mention_counts i) ob)"
  using assms
proof (induction ob arbitrary: "done" pre)
  case (Cons kv ob)
  obtain k cs where kv: "kv = (k, cs)" by (cases kv)
  obtain n where n: "k = num_key n" using Cons.prems(2) kv by auto
  have fresh: "k \<notin> fst ` set done" using Cons.prems(1,4) kv by auto
  have get: "obj_get (done @ (k, w) # ob) k = Some w" for w
    using fresh by (simp add: obj_get_def map_add_def map_of_eq_None_iff [THEN iffD2])
  have set_at: "obj_set k v (ds @ (k, w) # ob) = ds @ (k, v) # ob"
    if "k \<notin> fst ` set ds" "sorted_wrt (\<lambda>k l. \<not> key_before l k) (map fst ds @ [k])" for ds v w
    using that by (induction ds) (auto split: prod.splits)
  have ord: "sorted_wrt (\<lambda>k l. \<not> key_before l k) (map fst done @ [k])"
    using Cons.prems(3) by (simp add: kv obj_ok_def obj_keys_def sorted_wrt_append)
  have ok': "obj_ok ((done @ [(k, clear_mention_counts i cs)]) @ ob)"
    using Cons.prems(3) by (simp add: kv obj_ok_def obj_keys_def)
  have "clear_mentions_at i (map fst (kv # ob)) (done @ kv # ob) =
      clear_mentions_at i (map fst ob) ((done @ [(k, clear_mention_counts i cs)]) @ ob)"
    by (simp add: kv n get [unfolded n] set_at [unfolded n, OF fresh [unfolded n] ord [unfolded n]])
  also have "\<dots> = Inr ((done @ [(k, clear_mention_counts i cs)]) @ obj_map (\<lambda>_. clear_mention_counts i) ob)"
    using Cons.prems kv by (intro Cons.IH [OF _ _ ok' refl]) auto
  finally show ?case by (simp add: kv obj_map_def)
qed (simp add: obj_map_def)

text \<open>When the projects are keyed by number, clearing the mention of a chat succeeds: it resets
  the mention count of that chat in every project list and drops its badge, and nothing else.\<close>

lemma clear_mention_numbered:
  assumes "obj_ok (chatsByProject s)" and "\<forall>k \<in> set (obj_keys (chatsByProject s)). \<exists>n. k = num_key n"
  shows "clearMentionedChat i s =
         Inr (s\<lparr> mentionedChatIds := obj_del (num_key i) (mentionedChatIds s),
                 chatsByProject := obj_map (\<lambda>_. map_where (\<lambda>c. c_id c = i)
                   (\<lambda>c. c\<lparr> c_mention_unread_count := Some 0 \<rparr>)) (chatsByProject s) \<rparr>)"
  using clear_mentions_ok [of "[]" "chatsByProject s" "[]" i] assms
  by (simp add: clearMentionedChat_def obj_keys_def obj_ok_def clear_mention_counts_def)

lemma clear_mention_numbered_witness:
  "\<exists>s'. clearMentionedChat 1 (setChatsForProject (NumId 5) [a_chat 1 None] init_chat_state) = Inr s'"
  using clear_mention_numbered
    [of "setChatsForProject (NumId 5) [a_chat 1 None] init_chat_state" 1]
  by (simp add: setChatsForProject_def Let_def init_chat_state_def obj_ok_def obj_keys_def)

lemma clear_mentions_keys:
  "clear_mentions_at i ks ob = Inr ob' \<Longrightarrow> k \<in> set ks \<Longrightarrow>
   js_num_key (js_parse_int (key_string k)) \<in> set (obj_keys ob)"
proof (induction i ks ob rule: clear_mentions_at.induct)
  case (2 i k' ks ob)
  let ?p = "js_num_key (js_parse_int (key_string k'))"
  from "2.prems"(1) obtain cs where cs: "obj_get ob ?p = Some cs"
      and rest: "clear_mentions_at i ks (obj_set ?p (clear_mention_counts i cs) ob) = Inr ob'"
    by (auto simp: Let_def split: option.splits)
  then have p: "?p \<in> set (obj_keys ob)"
    by (force simp: obj_get_def obj_keys_def dest: map_of_SomeD)
  show ?case
  proof (cases "k = k'")
    case False
    with "2.prems" have "k \<in> set ks" by simp
    with "2.IH" [OF refl cs rest] p show ?thesis
      by (simp add: obj_keys_set_subset insert_absorb)
  qed (use p in simp)
qed simp

text \<open>A project that is keyed by a name, as \<open>resolveChatProjectId\<close> allows, makes the same action
  throw: \<open>parseInt\<close> of the key is \<open>NaN\<close>, and the list it then maps over does not exist.\<close>

lemma clear_mention_named_throws:
  assumes "k \<in> set (obj_keys (chatsByProject s))" and "js_parse_int (key_string k) = NaN"
    and "Name ''NaN'' \<notin> set (obj_keys (chatsByProject s))"
  shows "clearMentionedChat i s = Inl TypeError"
proof (cases "clear_mentions_at i (obj_keys (chatsByProject s)) (chatsByProject s)")
  case (Inr ob')
  from clear_mentions_keys [OF Inr assms(1)] assms(2,3) show ?thesis by simp
next
  case (Inl e)
  have "e = TypeError" if "clear_mentions_at i ks ob = Inl e" for ks ob
    using that by (induction i ks ob rule: clear_mentions_at.induct)
      (auto simp: Let_def split: option.splits)
  with Inl show ?thesis by (simp add: clearMentionedChat_def)
qed

lemma clear_mention_named_throws_witness:
  "clearMentionedChat 1 (setChatsForProject (StrId ''summer-launch'') [a_chat 1 None] init_chat_state)
   = Inl TypeError"
proof (rule clear_mention_named_throws)
  have keys: "obj_keys (chatsByProject
      (setChatsForProject (StrId ''summer-launch'') [a_chat 1 None] init_chat_state)) =
      [str_key ''summer-launch'']"
    by (simp add: setChatsForProject_def Let_def init_chat_state_def obj_keys_def)
  have name: "str_key ''summer-launch'' = Name ''summer-launch''" by code_simp
  show "Name ''summer-launch'' \<in> set (obj_keys (chatsByProject
      (setChatsForProject (StrId ''summer-launch'') [a_chat 1 None] init_chat_state)))"
    by (simp add: keys name)
  show "Name ''NaN'' \<notin> set (obj_keys (chatsByProject
      (setChatsForProject (StrId ''summer-launch'') [a_chat 1 None] init_chat_state)))"
    by (simp add: keys name)
  show "js_parse_int (key_string (Name ''summer-launch'')) = NaN" by code_simp
qed

section \<open>Sending\<close>

lemma fresh_entries:
  "cid \<notin> clientMessageId ` set es \<Longrightarrow> \<forall>e \<in> set es. clientMessageId e \<noteq> cid"
  by blast

lemma enqueue_fresh:
  "cid \<notin> clientMessageId ` set (outbox s) \<Longrightarrow> clientMessageId e = cid \<Longrightarrow>
   outbox (enqueueOutbox e s) = outbox s @ [e]"
  using fresh_entries [of cid "outbox s"] by (auto simp: enqueueOutbox_def list_ex_iff)

lemma sent_core:
  "messages (markOutboxSending cid s) = messages s"
  "messages (markOutboxFailed cid s) = messages s"
  "messages (enqueueOutbox e s) = messages s"
  "unreadCounts (markOutboxSending cid s) = unreadCounts s"
  "unreadCounts (enqueueOutbox e s) = unreadCounts s"
  "currentChatId (markOutboxSending cid s) = currentChatId s"
  "currentChatId (enqueueOutbox e s) = currentChatId s"
  by (simp_all add: markOutboxSending_def markOutboxFailed_def enqueueOutbox_def)

text \<open>C20: a message that is sent is either delivered, and then it has left the outbox, or its entry
  stays in the outbox as failed, the error is thrown on, no message appears in a timeline, and a
  later retry sends the very request the user made.\<close>

theorem send_delivers_or_keeps:
  assumes "cid \<notin> clientMessageId ` set (outbox s)"
  shows "case send (request\<lparr> sr_client_message_id := cid \<rparr>) of
      Inr msg \<Rightarrow>
        fst (sendMessageWithOutbox send cid now request s) = Inr msg \<and>
        outbox (snd (sendMessageWithOutbox send cid now request s)) = outbox s
    | Inl err \<Rightarrow>
        fst (sendMessageWithOutbox send cid now request s) = Inl err \<and>
        messages (snd (sendMessageWithOutbox send cid now request s)) = messages s \<and>
        (\<exists>entry. outbox (snd (sendMessageWithOutbox send cid now request s)) = outbox s @ [entry] \<and>
           clientMessageId entry = cid \<and> ob_status entry = Failed \<and>
           (sr_attachment_ids request = Some [] \<or>
            retry_request entry = request\<lparr> sr_client_message_id := cid \<rparr>))"
proof -
  define entry where "entry = \<lparr> clientMessageId = cid,
                    ob_chatId = sr_chat_id request,
                    ob_content = sr_content request,
                    ob_richBody = sr_rich_body request,
                    attachmentIds = nullish (sr_attachment_ids request) [],
                    mentionIds = sr_mention_ids request,
                    replyToId = sr_reply_to_id request,
                    parentMessageId = sr_parent_message_id request,
                    ob_status = Pending,
                    enqueuedAt = now \<rparr>"
  have enq: "outbox (enqueueOutbox entry s) = outbox s @ [entry]"
    using assms by (rule enqueue_fresh) (simp add: entry_def)
  have set_last: "set_outbox_status cid st (outbox s @ [e]) = outbox s @ [e\<lparr> ob_status := st \<rparr>]"
    if "clientMessageId e = cid" for st e
    using fresh_entries [OF assms] that
    by (simp add: set_outbox_status_def) (blast intro: map_where_none)
  have drop_last: "filter (\<lambda>e. clientMessageId e \<noteq> cid) (outbox s @ [e]) = outbox s"
    if "clientMessageId e = cid" for e
    using assms that by (auto simp: filter_notin)
  have same: "retry_request (entry\<lparr> ob_status := st \<rparr>) = request\<lparr> sr_client_message_id := cid \<rparr>"
    if "sr_attachment_ids request \<noteq> Some []" for st
    using that by (cases "sr_attachment_ids request") (simp_all add: retry_request_def entry_def)
  have cid: "clientMessageId entry = cid" by (simp add: entry_def)
  show ?thesis
  proof (cases "send (request\<lparr> sr_client_message_id := cid \<rparr>)")
    case (Inr msg)
    then show ?thesis
      by (simp add: sendMessageWithOutbox_def Let_def enq set_last drop_last cid
          filter_notin [OF assms] flip: entry_def)
  next
    case (Inl err)
    then have "snd (sendMessageWithOutbox send cid now request s) =
        markOutboxFailed cid (markOutboxSending cid (enqueueOutbox entry s))"
      "fst (sendMessageWithOutbox send cid now request s) = Inl err"
      by (simp_all add: sendMessageWithOutbox_def Let_def entry_def)
    with Inl same show ?thesis
      by (auto simp: enq set_last cid sent_core)
  qed
qed

theorem send_delivers_or_keeps_witness:
  "outbox (snd (sendMessageWithOutbox (\<lambda>_. Inl (ApiFailure ''offline'')) ''k1'' ''now''
     (retry_request (an_entry ''k0'')) (init_chat_state\<lparr> outbox := [an_entry ''k0''] \<rparr>))) \<noteq>
   [an_entry ''k0'']"
  using send_delivers_or_keeps [where cid = "''k1''" and now = "''now''"
      and s = "init_chat_state\<lparr> outbox := [an_entry ''k0''] \<rparr>"
      and send = "\<lambda>_. Inl (ApiFailure ''offline'')" and request = "retry_request (an_entry ''k0'')"]
  by (auto simp: an_entry_def)

text \<open>What the user sends from a chat that is not the current one, for example from the chat
  widget, raises that chat's unread count, whoever the sender is: the store calls \<open>addMessage\<close>
  without the user's id, so the test for the user's own messages never applies.\<close>

lemma own_message_counts_as_unread:
  assumes "send (request\<lparr> sr_client_message_id := cid \<rparr>) = Inr msg"
    and "m_chat_id msg = Some c" and "currentChatId s \<noteq> Some c"
    and "m_id msg \<notin> m_id ` set (stored_messages c s)"
  shows "obj_get (unreadCounts (snd (sendMessageWithOutbox send cid now request s))) (num_key c) =
         Some (nullish (obj_get (unreadCounts s) (num_key c)) 0 + 1)"
proof -
  let ?stored = "nullish (obj_get (messages s) (num_key c)) []"
  have all: "\<forall>x \<in> set ?stored. m_id x \<noteq> m_id msg"
    using assms(4) unfolding stored_messages_def by (metis imageI)
  have none: "find_index (\<lambda>m. m_id m = m_id msg) (stripOptimisticOutboxMessages ?stored cid) = None"
    "find_index (\<lambda>m. m_id m = m_id msg) ?stored = None"
    using all by (simp_all add: find_index_None stripOptimisticOutboxMessages_def)
  have "\<exists>t. snd (sendMessageWithOutbox send cid now request s) = addMessage (Num c) msg None (Some cid) t \<and>
      messages t = messages s \<and> unreadCounts t = unreadCounts s \<and> currentChatId t = currentChatId s"
    unfolding sendMessageWithOutbox_def Let_def assms(1) sum.case snd_conv markOutboxSent_def
      message_chat_number_def assms(2) orelse_simps option.case
    by (rule exI, rule conjI, rule refl) (simp add: sent_core)
  then obtain t where t: "snd (sendMessageWithOutbox send cid now request s) =
      addMessage (Num c) msg None (Some cid) t"
    "messages t = messages s" "unreadCounts t = unreadCounts s" "currentChatId t = currentChatId s"
    by blast
  have "should_increment_unread (Num c) msg None t"
    using assms(3) t(4) by (cases "currentChatId s") (simp_all add: should_increment_unread_def)
  then show ?thesis
    unfolding t(1) by (cases "cid = []") (simp_all add: t(2-4) addMessage_def none [unfolded t] Let_def)
qed

lemma own_message_counts_as_unread_witness:
  "obj_get (unreadCounts (snd (sendMessageWithOutbox (\<lambda>_. Inr (a_message 7 (Some 3) 4)) ''k1'' ''now''
     (retry_request (an_entry ''k0'')) (setWidgetChat (Some 1) init_chat_state)))) (num_key 1) = Some 1"
  using own_message_counts_as_unread [where send = "\<lambda>_. Inr (a_message 7 (Some 3) 4)"
      and request = "retry_request (an_entry ''k0'')" and cid = "''k1''" and now = "''now''"
      and msg = "a_message 7 (Some 3) 4" and c = 1 and s = "setWidgetChat (Some 1) init_chat_state"]
  by (simp add: payload_defs setWidgetChat_def init_chat_state_def stored_messages_def obj_get_def)

section \<open>Every interleaving\<close>


definition demo_run :: "chat_event list" where
  "demo_run =
     [Lists (SetChats (NumId 5) [a_chat 1 (Some 2)]),
      Msgs (AddMessage (Num 1) (a_message 8 (Some 4) 2) (Some 4) None),
      Msgs (AddMessage (Num 1) (a_message 7 (Some 3) 2) (Some 4) None),
      Msgs (React 7 ''+1'' Added (a_user 4) (Some 4)),
      Lists (SetCurrent (Some 1)),
      Sends (Enqueue (an_entry ''k1'')), Sends (MarkSending ''k1''), Sends (MarkFailed ''k1'')]"


text \<open>The local id of an optimistic message lies between -2^31 and 0, so it never collides with
  the positive id of a committed message: dropping the placeholders of a client id removes a
  committed message only if it carries that client id itself.\<close>

lemma optimistic_ids_are_local:
  "- (2 ^ 31) \<le> outboxOptimisticMessageId cid \<and> outboxOptimisticMessageId cid \<le> 0 \<and>
   filter (\<lambda>m. m_id m > 0) (stripOptimisticOutboxMessages msgs cid) =
   filter (\<lambda>m. m_id m > 0 \<and> m_client_message_id m \<noteq> Some cid) msgs"
proof -
  have "m_id m > 0 \<Longrightarrow> m_id m \<noteq> outboxOptimisticMessageId cid" for m
    using optimistic_id_bounds_aux [of cid] by auto
  then show ?thesis
    using optimistic_id_bounds_aux [of cid]
    by (auto simp: stripOptimisticOutboxMessages_def intro!: filter_cong)
qed

section \<open>Further witnesses\<close>

text \<open>Concrete instances of the properties of the theories \<open>Chat_Ordering\<close> and \<open>Chat_Outbox\<close>.\<close>

lemma reorder_arrival_order_irrelevant_witness:
  "reorderMessagesBySequence [a_message 8 (Some 4) 2, a_message 7 (Some 3) 2] =
   reorderMessagesBySequence [a_message 7 (Some 3) 2, a_message 8 (Some 4) 2]"
  by (rule reorder_arrival_order_irrelevant)
     (simp_all add: committed_def seq_of_def messageSequence_def is_safe_integer_def
        max_safe_integer_def a_message_def)

theorem flush_keeps_exactly_failed_witness:
  "map clientMessageId (outbox (flushOutbox
     (\<lambda>r. if sr_client_message_id r = ''k2'' then Inl (ApiFailure ''503'') else Inr (a_message 7 (Some 3) 2))
     (init_chat_state\<lparr> outbox := [an_entry ''k1'', an_entry ''k2'', an_entry ''k3''] \<rparr>))) = [''k2'']"
proof -
  let ?s = "init_chat_state\<lparr> outbox := [an_entry ''k1'', an_entry ''k2'', an_entry ''k3''] \<rparr>"
  have "distinct (map clientMessageId (outbox ?s))" by (simp add: an_entry_def)
  from flush_keeps_exactly_failed [OF this,
      of "\<lambda>r. if sr_client_message_id r = ''k2'' then Inl (ApiFailure ''503'') else Inr (a_message 7 (Some 3) 2)"]
  show ?thesis by (simp add: an_entry_def retry_request_def)
qed

end
