(* ===== verification/Workflow_Types.thy ===== *)
theory Workflow_Types imports Js_Object begin

text \<open>
  The data of the workflow editor (\<open>src/frontend/src/types/workflow.ts\<close>) and the state of its store
  (\<open>src/frontend/src/lib/workflowGraphStore.ts\<close>).  \<open>JSON.parse(JSON.stringify(x))\<close>, by which the
  store copies node lists, gives back the same data: absent properties are \<open>None\<close> before and after.
\<close>

section \<open>Nodes\<close>

datatype node_type = Start | ToDo | InProgress | Done

record wf_node =
  node_id :: int
  node_workflow_id :: js_id
  node_type :: node_type
  node_label :: string
  node_color :: "string option"
  node_data :: js_val
  node_created_at :: string
  node_updated_at :: string
  node_is_deleted :: "bool option"

record node_create =
  nc_type :: node_type
  nc_label :: string
  nc_color :: "string option"
  nc_data :: "js_val option"

record node_patch =
  np_type :: "node_type option"
  np_label :: "string option"
  np_color :: "string option"
  np_data :: "js_val option"

record node_update =
  nu_id :: int
  nu_patch :: node_patch

definition spread_node :: "wf_node \<Rightarrow> node_patch \<Rightarrow> wf_node" where
  "spread_node n upd =
     n\<lparr> node_type := nullish (np_type upd) (node_type n),
        node_label := nullish (np_label upd) (node_label n),
        node_color := orelse (np_color upd) (node_color n),
        node_data := nullish (np_data upd) (node_data n) \<rparr>"

section \<open>Connections\<close>

datatype connection_type = Sequential | Conditional | Parallel | Loop
datatype handle_position = HTop | HRight | HBottom | HLeft

record wf_connection =
  conn_id :: int
  conn_workflow_id :: js_id
  source_node_id :: int
  target_node_id :: int
  connection_type :: connection_type
  conn_name :: "string option"
  condition_config :: "js_val option"
  priority :: "int option"
  source_handle :: "handle_position option"
  target_handle :: "handle_position option"
  event_type :: "string option"
  conn_properties :: "js_val option"
  conn_created_at :: string
  conn_updated_at :: string
  conn_is_deleted :: "bool option"

record conn_create =
  cc_source :: int
  cc_target :: int
  cc_type :: "connection_type option"
  cc_name :: "string option"
  cc_condition :: "js_val option"
  cc_priority :: "int option"
  cc_source_handle :: "handle_position option"
  cc_target_handle :: "handle_position option"
  cc_event_type :: "string option"
  cc_properties :: "js_val option"

record conn_patch =
  cq_source :: "int option"
  cq_target :: "int option"
  cq_type :: "connection_type option"
  cq_name :: "string option"
  cq_condition :: "js_val option"
  cq_priority :: "int option"
  cq_source_handle :: "handle_position option"
  cq_target_handle :: "handle_position option"
  cq_event_type :: "string option"
  cq_properties :: "js_val option"

record conn_update =
  cu_id :: int
  cu_patch :: conn_patch

definition spread_connection :: "wf_connection \<Rightarrow> conn_patch \<Rightarrow> wf_connection" where
  "spread_connection c upd =
     c\<lparr> source_node_id := nullish (cq_source upd) (source_node_id c),
        target_node_id := nullish (cq_target upd) (target_node_id c),
        connection_type := nullish (cq_type upd) (connection_type c),
        conn_name := orelse (cq_name upd) (conn_name c),
        condition_config := orelse (cq_condition upd) (condition_config c),
        priority := orelse (cq_priority upd) (priority c),
        source_handle := orelse (cq_source_handle upd) (source_handle c),
        target_handle := orelse (cq_target_handle upd) (target_handle c),
        event_type := orelse (cq_event_type upd) (event_type c),
        conn_properties := orelse (cq_properties upd) (conn_properties c) \<rparr>"

lemma spread_ids [simp]:
  "node_id (spread_node n upd) = node_id n"
  "conn_id (spread_connection c cupd) = conn_id c"
  by (simp_all add: spread_node_def spread_connection_def)

section \<open>Graphs and batches\<close>

record wf_graph =
  g_workflow :: js_val
  g_nodes :: "wf_node list option"
  g_connections :: "wf_connection list option"

record node_batch =
  nb_create :: "node_create list option"
  nb_update :: "node_update list option"
  nb_delete :: "int list option"

record node_batch_result =
  nr_created :: "wf_node list option"
  nr_updated :: "wf_node list option"

record conn_batch =
  cb_create :: "conn_create list option"
  cb_update :: "conn_update list option"
  cb_delete :: "int list option"

record conn_batch_result =
  cr_created :: "wf_connection list option"
  cr_updated :: "wf_connection list option"

text \<open>A rejected request: the detail of the response body and the message of the error.\<close>

record api_error =
  err_detail :: "string option"
  err_message :: "string option"

definition truthy_string :: "string option \<Rightarrow> bool" where
  "truthy_string s \<longleftrightarrow> s \<noteq> None \<and> s \<noteq> Some []"

definition error_text :: "string \<Rightarrow> api_error \<Rightarrow> string" where
  "error_text fallback e =
     (if truthy_string (err_detail e) then the (err_detail e)
      else if truthy_string (err_message e) then the (err_message e)
      else fallback)"

text \<open>What one call reads from the clock: the time in its operation id, the time behind its temporary
  id, and the two timestamps.\<close>

record clock_reads =
  ck_op :: int
  ck_id :: int
  ck_created :: string
  ck_updated :: string

section \<open>The state of the store\<close>

record snapshot =
  snap_nodes :: "wf_node list"
  snap_connections :: "wf_connection list"

record graph_state =
  graph :: "wf_graph option"
  nodes :: "wf_node list"
  connections :: "wf_connection list"
  loading :: bool
  graph_error :: "string option"
  pendingOperations :: "string set"
  graph_snapshot :: "snapshot option"
  hasUnsavedChanges :: bool

definition init_graph_state :: graph_state where
  "init_graph_state =
     \<lparr> graph = None, nodes = [], connections = [], loading = False, graph_error = None,
       pendingOperations = {}, graph_snapshot = None, hasUnsavedChanges = False \<rparr>"

end
