(* ===== verification/Workflow_Store.thy ===== *)
theory Workflow_Store imports Workflow_Types begin

text \<open>
  The actions of \<open>src/frontend/src/lib/workflowGraphStore.ts\<close>.  An asynchronous action is split at its
  \<open>await\<close>: \<open>..._begin\<close> is what runs before the request (it returns what the closure keeps: the
  operation id, a temporary id, the originals for a rollback), \<open>..._ok\<close> and \<open>..._fail\<close> are the two
  ways it resumes, in whatever state the store is in by then.  The action itself, with nothing in
  between, is the composition and takes the API as a parameter.
\<close>

section \<open>The graph\<close>

definition loadGraph_begin :: "graph_state \<Rightarrow> graph_state" where
  "loadGraph_begin s = s\<lparr> loading := True, graph_error := None \<rparr>"

definition loadGraph_ok :: "wf_graph \<Rightarrow> graph_state \<Rightarrow> graph_state" where
  "loadGraph_ok g s =
     (let ns = nullish (g_nodes g) []; cs = nullish (g_connections g) []
      in s\<lparr> graph := Some g, nodes := ns, connections := cs, loading := False, graph_error := None,
            graph_snapshot := Some \<lparr> snap_nodes = ns, snap_connections = cs \<rparr>,
            hasUnsavedChanges := False \<rparr>)"

definition loadGraph_fail :: "api_error \<Rightarrow> graph_state \<Rightarrow> graph_state" where
  "loadGraph_fail e s =
     s\<lparr> loading := False, graph_error := Some (error_text ''Failed to load graph'' e) \<rparr>"

definition loadGraph ::
  "(js_id \<Rightarrow> api_error + wf_graph) \<Rightarrow> js_id \<Rightarrow> graph_state \<Rightarrow> graph_state" where
  "loadGraph getGraph wid s =
     (case getGraph wid of
        Inr g \<Rightarrow> loadGraph_ok g (loadGraph_begin s)
      | Inl e \<Rightarrow> loadGraph_fail e (loadGraph_begin s))"

definition clearGraph :: "graph_state \<Rightarrow> graph_state" where
  "clearGraph s =
     s\<lparr> graph := None, nodes := [], connections := [], graph_error := None, pendingOperations := {} \<rparr>"

definition settle :: "string \<Rightarrow> string option \<Rightarrow> graph_state \<Rightarrow> graph_state" where
  "settle opId err s =
     s\<lparr> pendingOperations := pendingOperations s - {opId}, graph_error := err \<rparr>"

text \<open>\<open>settle\<close> is the end every completion shares: the operation is no longer pending and the error
  is set or cleared.  \<open>start_op\<close> is the beginning the single-item actions share.\<close>

definition start_op :: "string \<Rightarrow> graph_state \<Rightarrow> graph_state" where
  "start_op opId s =
     s\<lparr> pendingOperations := insert opId (pendingOperations s), hasUnsavedChanges := True \<rparr>"

section \<open>Nodes\<close>

definition temp_node :: "js_id \<Rightarrow> node_create \<Rightarrow> clock_reads \<Rightarrow> wf_node" where
  "temp_node wid d ck =
     \<lparr> node_id = - ck_id ck, node_workflow_id = wid, node_type = nc_type d, node_label = nc_label d,
       node_color = None, node_data = nullish (nc_data d) (JObj []),
       node_created_at = ck_created ck, node_updated_at = ck_updated ck, node_is_deleted = None \<rparr>"

definition addNode_begin ::
  "js_id \<Rightarrow> node_create \<Rightarrow> clock_reads \<Rightarrow> graph_state \<Rightarrow> (string \<times> int) \<times> graph_state" where
  "addNode_begin wid d ck s =
     (let opId = ''add-node-'' @ int_dec (ck_op ck);
          tempNode = temp_node wid d ck
      in ((opId, node_id tempNode), (start_op opId s)\<lparr> nodes := nodes s @ [tempNode] \<rparr>))"

definition addNode_ok :: "string \<Rightarrow> int \<Rightarrow> wf_node \<Rightarrow> graph_state \<Rightarrow> graph_state" where
  "addNode_ok opId tempId createdNode s =
     settle opId None
       (s\<lparr> nodes := map_where (\<lambda>n. node_id n = tempId) (\<lambda>_. createdNode) (nodes s) \<rparr>)"

definition addNode_fail :: "string \<Rightarrow> int \<Rightarrow> api_error \<Rightarrow> graph_state \<Rightarrow> graph_state" where
  "addNode_fail opId tempId e s =
     settle opId (Some (error_text ''Failed to add node'' e))
       (s\<lparr> nodes := filter (\<lambda>n. node_id n \<noteq> tempId) (nodes s) \<rparr>)"

definition addNode ::
  "(js_id \<Rightarrow> node_create \<Rightarrow> api_error + wf_node) \<Rightarrow> js_id \<Rightarrow> node_create \<Rightarrow> clock_reads \<Rightarrow>
   graph_state \<Rightarrow> wf_node option \<times> graph_state" where
  "addNode api wid d ck s =
     (case addNode_begin wid d ck s of
        ((opId, tempId), s1) \<Rightarrow>
          (case api wid d of
             Inr n \<Rightarrow> (Some n, addNode_ok opId tempId n s1)
           | Inl e \<Rightarrow> (None, addNode_fail opId tempId e s1)))"

definition updateNode_begin ::
  "int \<Rightarrow> node_patch \<Rightarrow> clock_reads \<Rightarrow> graph_state \<Rightarrow> (string \<times> wf_node) option \<times> graph_state" where
  "updateNode_begin nodeId upd ck s =
     (case List.find (\<lambda>n. node_id n = nodeId) (nodes s) of
        None \<Rightarrow> (None, s\<lparr> graph_error := Some ''Node not found'' \<rparr>)
      | Some originalNode \<Rightarrow>
          (let opId = ''update-node-'' @ int_dec nodeId @ ''-'' @ int_dec (ck_op ck)
           in (Some (opId, originalNode),
               (start_op opId s)
                 \<lparr> nodes := map_where (\<lambda>n. node_id n = nodeId)
                     (\<lambda>n. (spread_node n upd)\<lparr> node_updated_at := ck_updated ck \<rparr>) (nodes s) \<rparr>)))"

definition updateNode_ok :: "string \<Rightarrow> int \<Rightarrow> wf_node \<Rightarrow> graph_state \<Rightarrow> graph_state" where
  "updateNode_ok opId nodeId updatedNode s =
     settle opId None
       (s\<lparr> nodes := map_where (\<lambda>n. node_id n = nodeId) (\<lambda>_. updatedNode) (nodes s) \<rparr>)"

definition updateNode_fail :: "string \<Rightarrow> int \<Rightarrow> wf_node \<Rightarrow> api_error \<Rightarrow> graph_state \<Rightarrow> graph_state" where
  "updateNode_fail opId nodeId originalNode e s =
     settle opId (Some (error_text ''Failed to update node'' e))
       (s\<lparr> nodes := map_where (\<lambda>n. node_id n = nodeId) (\<lambda>_. originalNode) (nodes s) \<rparr>)"

definition updateNode ::
  "(js_id \<Rightarrow> int \<Rightarrow> node_patch \<Rightarrow> api_error + wf_node) \<Rightarrow> js_id \<Rightarrow> int \<Rightarrow> node_patch \<Rightarrow> clock_reads \<Rightarrow>
   graph_state \<Rightarrow> wf_node option \<times> graph_state" where
  "updateNode api wid nodeId upd ck s =
     (case updateNode_begin nodeId upd ck s of
        (None, s1) \<Rightarrow> (None, s1)
      | (Some (opId, originalNode), s1) \<Rightarrow>
          (case api wid nodeId upd of
             Inr n \<Rightarrow> (Some n, updateNode_ok opId nodeId n s1)
           | Inl e \<Rightarrow> (None, updateNode_fail opId nodeId originalNode e s1)))"

definition removeNode_begin ::
  "int \<Rightarrow> clock_reads \<Rightarrow> graph_state \<Rightarrow> (string \<times> wf_node \<times> wf_connection list) option \<times> graph_state" where
  "removeNode_begin nodeId ck s =
     (case List.find (\<lambda>n. node_id n = nodeId) (nodes s) of
        None \<Rightarrow> (None, s\<lparr> graph_error := Some ''Node not found'' \<rparr>)
      | Some originalNode \<Rightarrow>
          (let opId = ''remove-node-'' @ int_dec nodeId @ ''-'' @ int_dec (ck_op ck);
               relatedConnections =
                 filter (\<lambda>c. source_node_id c = nodeId \<or> target_node_id c = nodeId) (connections s)
           in (Some (opId, originalNode, relatedConnections),
               (start_op opId s)
                 \<lparr> nodes := filter (\<lambda>n. node_id n \<noteq> nodeId) (nodes s),
                   connections :=
                     filter (\<lambda>c. source_node_id c \<noteq> nodeId \<and> target_node_id c \<noteq> nodeId)
                       (connections s) \<rparr>)))"

definition removeNode_ok :: "string \<Rightarrow> graph_state \<Rightarrow> graph_state" where
  "removeNode_ok opId s = settle opId None s"

definition removeNode_fail ::
  "string \<Rightarrow> wf_node \<Rightarrow> wf_connection list \<Rightarrow> api_error \<Rightarrow> graph_state \<Rightarrow> graph_state" where
  "removeNode_fail opId originalNode relatedConnections e s =
     settle opId (Some (error_text ''Failed to remove node'' e))
       (s\<lparr> nodes := nodes s @ [originalNode],
          connections := connections s @ relatedConnections \<rparr>)"

definition removeNode ::
  "(js_id \<Rightarrow> int \<Rightarrow> api_error + unit) \<Rightarrow> js_id \<Rightarrow> int \<Rightarrow> clock_reads \<Rightarrow>
   graph_state \<Rightarrow> bool \<times> graph_state" where
  "removeNode api wid nodeId ck s =
     (case removeNode_begin nodeId ck s of
        (None, s1) \<Rightarrow> (False, s1)
      | (Some (opId, originalNode, relatedConnections), s1) \<Rightarrow>
          (case api wid nodeId of
             Inr _ \<Rightarrow> (True, removeNode_ok opId s1)
           | Inl e \<Rightarrow> (False, removeNode_fail opId originalNode relatedConnections e s1)))"

section \<open>Connections\<close>

definition nonempty_or :: "string option \<Rightarrow> string \<Rightarrow> string" where
  "nonempty_or s fallback = (case s of None \<Rightarrow> fallback | Some t \<Rightarrow> if t = [] then fallback else t)"

definition temp_connection :: "js_id \<Rightarrow> conn_create \<Rightarrow> clock_reads \<Rightarrow> wf_connection" where
  "temp_connection wid d ck =
     \<lparr> conn_id = - ck_id ck, conn_workflow_id = wid,
       source_node_id = cc_source d, target_node_id = cc_target d,
       connection_type = nullish (cc_type d) Sequential,
       conn_name = cc_name d, condition_config = cc_condition d,
       priority = Some (nullish (cc_priority d) 0),
       source_handle = cc_source_handle d, target_handle = cc_target_handle d,
       event_type = Some (nonempty_or (cc_event_type d) ''manual_transition''),
       conn_properties = Some (nullish (cc_properties d) (JObj [])),
       conn_created_at = ck_created ck, conn_updated_at = ck_updated ck, conn_is_deleted = None \<rparr>"

definition addConnection_begin ::
  "js_id \<Rightarrow> conn_create \<Rightarrow> clock_reads \<Rightarrow> graph_state \<Rightarrow> (string \<times> int) \<times> graph_state" where
  "addConnection_begin wid d ck s =
     (let opId = ''add-connection-'' @ int_dec (ck_op ck);
          tempConnection = temp_connection wid d ck
      in ((opId, conn_id tempConnection), (start_op opId s)\<lparr> connections := connections s @ [tempConnection] \<rparr>))"

definition addConnection_ok :: "string \<Rightarrow> int \<Rightarrow> wf_connection \<Rightarrow> graph_state \<Rightarrow> graph_state" where
  "addConnection_ok opId tempId createdConnection s =
     settle opId None
       (s\<lparr> connections := map_where (\<lambda>c. conn_id c = tempId) (\<lambda>_. createdConnection) (connections s) \<rparr>)"

definition addConnection_fail :: "string \<Rightarrow> int \<Rightarrow> api_error \<Rightarrow> graph_state \<Rightarrow> graph_state" where
  "addConnection_fail opId tempId e s =
     settle opId (Some (error_text ''Failed to add connection'' e))
       (s\<lparr> connections := filter (\<lambda>c. conn_id c \<noteq> tempId) (connections s) \<rparr>)"

definition addConnection ::
  "(js_id \<Rightarrow> conn_create \<Rightarrow> api_error + wf_connection) \<Rightarrow> js_id \<Rightarrow> conn_create \<Rightarrow> clock_reads \<Rightarrow>
   graph_state \<Rightarrow> wf_connection option \<times> graph_state" where
  "addConnection api wid d ck s =
     (case addConnection_begin wid d ck s of
        ((opId, tempId), s1) \<Rightarrow>
          (case api wid d of
             Inr c \<Rightarrow> (Some c, addConnection_ok opId tempId c s1)
           | Inl e \<Rightarrow> (None, addConnection_fail opId tempId e s1)))"

definition updateConnection_begin ::
  "int \<Rightarrow> conn_patch \<Rightarrow> clock_reads \<Rightarrow> graph_state \<Rightarrow> (string \<times> wf_connection) option \<times> graph_state" where
  "updateConnection_begin connectionId upd ck s =
     (case List.find (\<lambda>c. conn_id c = connectionId) (connections s) of
        None \<Rightarrow> (None, s\<lparr> graph_error := Some ''Connection not found'' \<rparr>)
      | Some originalConnection \<Rightarrow>
          (let opId = ''update-connection-'' @ int_dec connectionId @ ''-'' @ int_dec (ck_op ck)
           in (Some (opId, originalConnection),
               (start_op opId s)
                 \<lparr> connections := map_where (\<lambda>c. conn_id c = connectionId)
                     (\<lambda>c. (spread_connection c upd)\<lparr> conn_updated_at := ck_updated ck \<rparr>) (connections s) \<rparr>)))"

definition updateConnection_ok :: "string \<Rightarrow> int \<Rightarrow> wf_connection \<Rightarrow> graph_state \<Rightarrow> graph_state" where
  "updateConnection_ok opId connectionId updatedConnection s =
     settle opId None
       (s\<lparr> connections := map_where (\<lambda>c. conn_id c = connectionId) (\<lambda>_. updatedConnection) (connections s) \<rparr>)"

definition updateConnection_fail :: "string \<Rightarrow> int \<Rightarrow> wf_connection \<Rightarrow> api_error \<Rightarrow> graph_state \<Rightarrow> graph_state" where
  "updateConnection_fail opId connectionId originalConnection e s =
     settle opId (Some (error_text ''Failed to update connection'' e))
       (s\<lparr> connections := map_where (\<lambda>c. conn_id c = connectionId) (\<lambda>_. originalConnection) (connections s) \<rparr>)"

definition updateConnection ::
  "(js_id \<Rightarrow> int \<Rightarrow> conn_patch \<Rightarrow> api_error + wf_connection) \<Rightarrow> js_id \<Rightarrow> int \<Rightarrow> conn_patch \<Rightarrow> clock_reads \<Rightarrow>
   graph_state \<Rightarrow> wf_connection option \<times> graph_state" where
  "updateConnection api wid connectionId upd ck s =
     (case updateConnection_begin connectionId upd ck s of
        (None, s1) \<Rightarrow> (None, s1)
      | (Some (opId, originalConnection), s1) \<Rightarrow>
          (case api wid connectionId upd of
             Inr c \<Rightarrow> (Some c, updateConnection_ok opId connectionId c s1)
           | Inl e \<Rightarrow> (None, updateConnection_fail opId connectionId originalConnection e s1)))"

definition removeConnection_begin ::
  "int \<Rightarrow> clock_reads \<Rightarrow> graph_state \<Rightarrow> (string \<times> wf_connection) option \<times> graph_state" where
  "removeConnection_begin connectionId ck s =
     (case List.find (\<lambda>c. conn_id c = connectionId) (connections s) of
        None \<Rightarrow> (None, s\<lparr> graph_error := Some ''Connection not found'' \<rparr>)
      | Some originalConnection \<Rightarrow>
          (let opId = ''remove-connection-'' @ int_dec connectionId @ ''-'' @ int_dec (ck_op ck)
           in (Some (opId, originalConnection),
               (start_op opId s)
                 \<lparr> connections := filter (\<lambda>c. conn_id c \<noteq> connectionId) (connections s) \<rparr>)))"

definition removeConnection_ok :: "string \<Rightarrow> graph_state \<Rightarrow> graph_state" where
  "removeConnection_ok opId s = settle opId None s"

definition removeConnection_fail ::
  "string \<Rightarrow> wf_connection \<Rightarrow> api_error \<Rightarrow> graph_state \<Rightarrow> graph_state" where
  "removeConnection_fail opId originalConnection e s =
     settle opId (Some (error_text ''Failed to remove connection'' e))
       (s\<lparr> connections := connections s @ [originalConnection] \<rparr>)"

definition removeConnection ::
  "(js_id \<Rightarrow> int \<Rightarrow> api_error + unit) \<Rightarrow> js_id \<Rightarrow> int \<Rightarrow> clock_reads \<Rightarrow>
   graph_state \<Rightarrow> bool \<times> graph_state" where
  "removeConnection api wid connectionId ck s =
     (case removeConnection_begin connectionId ck s of
        (None, s1) \<Rightarrow> (False, s1)
      | (Some (opId, originalConnection), s1) \<Rightarrow>
          (case api wid connectionId of
             Inr _ \<Rightarrow> (True, removeConnection_ok opId s1)
           | Inl e \<Rightarrow> (False, removeConnection_fail opId originalConnection e s1)))"

section \<open>Batches\<close>

text \<open>\<open>update_first\<close> is the \<open>findIndex\<close> and assignment of the loops over the updates.  The clock is
  read once per created item: \<open>readings idx\<close> is the reading for the item at \<open>idx\<close>.\<close>

definition update_first :: "('a \<Rightarrow> bool) \<Rightarrow> ('a \<Rightarrow> 'a) \<Rightarrow> 'a list \<Rightarrow> 'a list" where
  "update_first p f xs = (case find_index p xs of None \<Rightarrow> xs | Some i \<Rightarrow> xs[i := f (xs ! i)])"

definition batch_temp_node ::
  "js_id \<Rightarrow> (nat \<Rightarrow> int) \<Rightarrow> string \<Rightarrow> nat \<times> node_create \<Rightarrow> wf_node" where
  "batch_temp_node wid readings now item =
     \<lparr> node_id = - (readings (fst item) + int (fst item)), node_workflow_id = wid,
       node_type = nc_type (snd item), node_label = nc_label (snd item), node_color = None,
       node_data = nullish (nc_data (snd item)) (JObj []),
       node_created_at = now, node_updated_at = now, node_is_deleted = None \<rparr>"

definition apply_node_batch ::
  "js_id \<Rightarrow> node_batch \<Rightarrow> (nat \<Rightarrow> int) \<Rightarrow> string \<Rightarrow> wf_node list \<Rightarrow> wf_node list" where
  "apply_node_batch wid ops readings now ns0 =
     (let ns1 = (case nb_delete ops of
                   None \<Rightarrow> ns0 | Some ids \<Rightarrow> filter (\<lambda>n. node_id n \<notin> set ids) ns0);
          ns2 = fold (\<lambda>u. update_first (\<lambda>n. node_id n = nu_id u) (\<lambda>n. spread_node n (nu_patch u)))
                  (nullish (nb_update ops) []) ns1
      in ns2 @ map (batch_temp_node wid readings now) (enumerate 0 (nullish (nb_create ops) [])))"

definition batchUpdateNodes_begin ::
  "js_id \<Rightarrow> node_batch \<Rightarrow> int \<Rightarrow> (nat \<Rightarrow> int) \<Rightarrow> string \<Rightarrow> graph_state
     \<Rightarrow> (string \<times> wf_node list) \<times> graph_state" where
  "batchUpdateNodes_begin wid ops t readings now s =
     (let opId = ''batch-nodes-'' @ int_dec t
      in ((opId, nodes s),
          s\<lparr> nodes := apply_node_batch wid ops readings now (nodes s),
             pendingOperations := insert opId (pendingOperations s) \<rparr>))"

definition merge_node_result :: "node_batch_result \<Rightarrow> wf_node list \<Rightarrow> wf_node list" where
  "merge_node_result r ns =
     (let created = nullish (nr_created r) [];
          ns1 = (if length created > 0 then filter (\<lambda>n. node_id n \<ge> 0) ns @ created else ns)
      in fold (\<lambda>u. update_first (\<lambda>n. node_id n = node_id u) (\<lambda>_. u)) (nullish (nr_updated r) []) ns1)"

definition batchUpdateNodes_ok :: "string \<Rightarrow> node_batch_result \<Rightarrow> graph_state \<Rightarrow> graph_state" where
  "batchUpdateNodes_ok opId r s = settle opId None (s\<lparr> nodes := merge_node_result r (nodes s) \<rparr>)"

definition batchUpdateNodes_fail ::
  "string \<Rightarrow> wf_node list \<Rightarrow> api_error \<Rightarrow> graph_state \<Rightarrow> graph_state" where
  "batchUpdateNodes_fail opId originalNodes e s =
     settle opId (Some (error_text ''Failed to batch update nodes'' e)) (s\<lparr> nodes := originalNodes \<rparr>)"

definition batchUpdateNodes ::
  "(js_id \<Rightarrow> node_batch \<Rightarrow> api_error + node_batch_result) \<Rightarrow> js_id \<Rightarrow> node_batch \<Rightarrow> int \<Rightarrow>
   (nat \<Rightarrow> int) \<Rightarrow> string \<Rightarrow> graph_state \<Rightarrow> bool \<times> graph_state" where
  "batchUpdateNodes api wid ops t readings now s =
     (case batchUpdateNodes_begin wid ops t readings now s of
        ((opId, originalNodes), s1) \<Rightarrow>
          (case api wid ops of
             Inr r \<Rightarrow> (True, batchUpdateNodes_ok opId r s1)
           | Inl e \<Rightarrow> (False, batchUpdateNodes_fail opId originalNodes e s1)))"

definition batch_temp_connection ::
  "js_id \<Rightarrow> (nat \<Rightarrow> int) \<Rightarrow> string \<Rightarrow> nat \<times> conn_create \<Rightarrow> wf_connection" where
  "batch_temp_connection wid readings now item =
     \<lparr> conn_id = - (readings (fst item) + int (fst item)), conn_workflow_id = wid,
       source_node_id = cc_source (snd item), target_node_id = cc_target (snd item),
       connection_type = nullish (cc_type (snd item)) Sequential,
       conn_name = None, condition_config = cc_condition (snd item),
       priority = Some (nullish (cc_priority (snd item)) 0),
       source_handle = None, target_handle = None, event_type = None, conn_properties = None,
       conn_created_at = now, conn_updated_at = now, conn_is_deleted = None \<rparr>"

definition apply_conn_batch ::
  "js_id \<Rightarrow> conn_batch \<Rightarrow> (nat \<Rightarrow> int) \<Rightarrow> string \<Rightarrow> wf_connection list \<Rightarrow> wf_connection list" where
  "apply_conn_batch wid ops readings now cs0 =
     (let cs1 = (case cb_delete ops of
                   None \<Rightarrow> cs0 | Some ids \<Rightarrow> filter (\<lambda>c. conn_id c \<notin> set ids) cs0);
          cs2 = fold (\<lambda>u. update_first (\<lambda>c. conn_id c = cu_id u) (\<lambda>c. spread_connection c (cu_patch u)))
                  (nullish (cb_update ops) []) cs1
      in cs2 @ map (batch_temp_connection wid readings now) (enumerate 0 (nullish (cb_create ops) [])))"

definition batchUpdateConnections_begin ::
  "js_id \<Rightarrow> conn_batch \<Rightarrow> int \<Rightarrow> (nat \<Rightarrow> int) \<Rightarrow> string \<Rightarrow> graph_state
     \<Rightarrow> (string \<times> wf_connection list) \<times> graph_state" where
  "batchUpdateConnections_begin wid ops t readings now s =
     (let opId = ''batch-connections-'' @ int_dec t
      in ((opId, connections s),
          s\<lparr> connections := apply_conn_batch wid ops readings now (connections s),
             pendingOperations := insert opId (pendingOperations s) \<rparr>))"

definition merge_conn_result :: "conn_batch_result \<Rightarrow> wf_connection list \<Rightarrow> wf_connection list" where
  "merge_conn_result r cs =
     (let created = nullish (cr_created r) [];
          cs1 = (if length created > 0 then filter (\<lambda>c. conn_id c \<ge> 0) cs @ created else cs)
      in fold (\<lambda>u. update_first (\<lambda>c. conn_id c = conn_id u) (\<lambda>_. u)) (nullish (cr_updated r) []) cs1)"

definition batchUpdateConnections_ok :: "string \<Rightarrow> conn_batch_result \<Rightarrow> graph_state \<Rightarrow> graph_state" where
  "batchUpdateConnections_ok opId r s = settle opId None (s\<lparr> connections := merge_conn_result r (connections s) \<rparr>)"

definition batchUpdateConnections_fail ::
  "string \<Rightarrow> wf_connection list \<Rightarrow> api_error \<Rightarrow> graph_state \<Rightarrow> graph_state" where
  "batchUpdateConnections_fail opId originalConnections e s =
     settle opId (Some (error_text ''Failed to batch update connections'' e)) (s\<lparr> connections := originalConnections \<rparr>)"

definition batchUpdateConnections ::
  "(js_id \<Rightarrow> conn_batch \<Rightarrow> api_error + conn_batch_result) \<Rightarrow> js_id \<Rightarrow> conn_batch \<Rightarrow> int \<Rightarrow>
   (nat \<Rightarrow> int) \<Rightarrow> string \<Rightarrow> graph_state \<Rightarrow> bool \<times> graph_state" where
  "batchUpdateConnections api wid ops t readings now s =
     (case batchUpdateConnections_begin wid ops t readings now s of
        ((opId, originalConnections), s1) \<Rightarrow>
          (case api wid ops of
             Inr r \<Rightarrow> (True, batchUpdateConnections_ok opId r s1)
           | Inl e \<Rightarrow> (False, batchUpdateConnections_fail opId originalConnections e s1)))"

section \<open>Snapshots\<close>

definition current_snapshot :: "graph_state \<Rightarrow> snapshot" where
  "current_snapshot s = \<lparr> snap_nodes = nodes s, snap_connections = connections s \<rparr>"

definition saveSnapshot :: "graph_state \<Rightarrow> graph_state" where
  "saveSnapshot s = s\<lparr> graph_snapshot := Some (current_snapshot s), hasUnsavedChanges := False \<rparr>"

definition restoreSnapshot :: "graph_state \<Rightarrow> graph_state" where
  "restoreSnapshot s =
     (case graph_snapshot s of
        None \<Rightarrow> s
      | Some snap \<Rightarrow>
          s\<lparr> nodes := snap_nodes snap, connections := snap_connections snap,
             hasUnsavedChanges := False \<rparr>)"

definition markAsSaved :: "graph_state \<Rightarrow> graph_state" where
  "markAsSaved s = s\<lparr> graph_snapshot := Some (current_snapshot s), hasUnsavedChanges := False \<rparr>"

definition setGraphLoading :: "bool \<Rightarrow> graph_state \<Rightarrow> graph_state" where
  "setGraphLoading b s = s\<lparr> loading := b \<rparr>"

definition setError :: "string option \<Rightarrow> graph_state \<Rightarrow> graph_state" where
  "setError e s = s\<lparr> graph_error := e \<rparr>"

lemmas graph_op_defs [store_defs] =
  loadGraph_begin_def loadGraph_ok_def loadGraph_fail_def clearGraph_def settle_def start_op_def
  addNode_begin_def addNode_ok_def addNode_fail_def updateNode_begin_def updateNode_ok_def
  updateNode_fail_def removeNode_begin_def removeNode_ok_def removeNode_fail_def
  addConnection_begin_def addConnection_ok_def addConnection_fail_def updateConnection_begin_def
  updateConnection_ok_def updateConnection_fail_def removeConnection_begin_def
  removeConnection_ok_def removeConnection_fail_def batchUpdateNodes_begin_def
  batchUpdateNodes_ok_def batchUpdateNodes_fail_def batchUpdateConnections_begin_def
  batchUpdateConnections_ok_def batchUpdateConnections_fail_def saveSnapshot_def
  restoreSnapshot_def markAsSaved_def setGraphLoading_def setError_def

end
