(* ===== verification/Workflow_Runs.thy ===== *)
theory Workflow_Runs imports Workflow_Store Event_System begin

text \<open>
  The workflow graph store under concurrency.  A request that is in flight is a token (\<open>wf_op\<close>) with
  what its closure remembers; the system's steps begin a request, finish any one that is in flight
  with any reply, or run a synchronous action.  The theory shows which promises of optimistic
  updating hold under every interleaving, which hold when nothing interferes, and where two
  requests get in each other's way.
\<close>

section \<open>The system\<close>

datatype wf_op =
    LoadOp
  | AddNodeOp string int
  | UpdateNodeOp string int wf_node
  | RemoveNodeOp string wf_node "wf_connection list"
  | AddConnectionOp string int
  | UpdateConnectionOp string int wf_connection
  | RemoveConnectionOp string wf_connection
  | BatchNodesOp string "wf_node list"
  | BatchConnectionsOp string "wf_connection list"

datatype wf_request =
    ReqLoad
  | ReqAddNode js_id node_create clock_reads
  | ReqUpdateNode int node_patch clock_reads
  | ReqRemoveNode int clock_reads
  | ReqAddConnection js_id conn_create clock_reads
  | ReqUpdateConnection int conn_patch clock_reads
  | ReqRemoveConnection int clock_reads
  | ReqBatchNodes js_id node_batch int "nat \<Rightarrow> int" string
  | ReqBatchConnections js_id conn_batch int "nat \<Rightarrow> int" string

datatype wf_reply =
    Rejected api_error
  | GotGraph wf_graph
  | GotNode wf_node
  | GotConnection wf_connection
  | Deleted
  | GotNodeBatch node_batch_result
  | GotConnectionBatch conn_batch_result

datatype wf_local =
    Clear | Save | Restore | MarkSaved | SetGraphLoading bool | SetGraphError "string option"

datatype wf_event = Send wf_request | Receive wf_op wf_reply | Do wf_local

record wf_system =
  wf_store :: graph_state
  in_flight :: "wf_op list"

primrec send_request_op :: "wf_request \<Rightarrow> graph_state \<Rightarrow> wf_op option \<times> graph_state" where
  "send_request_op ReqLoad s = (Some LoadOp, loadGraph_begin s)"
| "send_request_op (ReqAddNode wid d ck) s =
     map_prod (\<lambda>(op, i). Some (AddNodeOp op i)) id (addNode_begin wid d ck s)"
| "send_request_op (ReqUpdateNode i upd ck) s =
     map_prod (map_option (\<lambda>(op, n). UpdateNodeOp op i n)) id (updateNode_begin i upd ck s)"
| "send_request_op (ReqRemoveNode i ck) s =
     map_prod (map_option (\<lambda>(op, n, cs). RemoveNodeOp op n cs)) id (removeNode_begin i ck s)"
| "send_request_op (ReqAddConnection wid d ck) s =
     map_prod (\<lambda>(op, i). Some (AddConnectionOp op i)) id (addConnection_begin wid d ck s)"
| "send_request_op (ReqUpdateConnection i upd ck) s =
     map_prod (map_option (\<lambda>(op, c). UpdateConnectionOp op i c)) id (updateConnection_begin i upd ck s)"
| "send_request_op (ReqRemoveConnection i ck) s =
     map_prod (map_option (\<lambda>(op, c). RemoveConnectionOp op c)) id (removeConnection_begin i ck s)"
| "send_request_op (ReqBatchNodes wid b t readings now) s =
     map_prod (\<lambda>(op, ns). Some (BatchNodesOp op ns)) id (batchUpdateNodes_begin wid b t readings now s)"
| "send_request_op (ReqBatchConnections wid b t readings now) s =
     map_prod (\<lambda>(op, cs). Some (BatchConnectionsOp op cs)) id
       (batchUpdateConnections_begin wid b t readings now s)"

text \<open>How an action resumes.  \<open>fits\<close> is the type of the reply its API call returns.\<close>

primrec resume_op :: "wf_op \<Rightarrow> wf_reply \<Rightarrow> graph_state \<Rightarrow> graph_state" where
  "resume_op LoadOp r s =
     (case r of GotGraph g \<Rightarrow> loadGraph_ok g s | Rejected e \<Rightarrow> loadGraph_fail e s | _ \<Rightarrow> s)"
| "resume_op (AddNodeOp op i) r s =
     (case r of GotNode n \<Rightarrow> addNode_ok op i n s | Rejected e \<Rightarrow> addNode_fail op i e s | _ \<Rightarrow> s)"
| "resume_op (UpdateNodeOp op i orig) r s =
     (case r of GotNode n \<Rightarrow> updateNode_ok op i n s
      | Rejected e \<Rightarrow> updateNode_fail op i orig e s | _ \<Rightarrow> s)"
| "resume_op (RemoveNodeOp op orig cs) r s =
     (case r of Deleted \<Rightarrow> removeNode_ok op s
      | Rejected e \<Rightarrow> removeNode_fail op orig cs e s | _ \<Rightarrow> s)"
| "resume_op (AddConnectionOp op i) r s =
     (case r of GotConnection c \<Rightarrow> addConnection_ok op i c s
      | Rejected e \<Rightarrow> addConnection_fail op i e s | _ \<Rightarrow> s)"
| "resume_op (UpdateConnectionOp op i orig) r s =
     (case r of GotConnection c \<Rightarrow> updateConnection_ok op i c s
      | Rejected e \<Rightarrow> updateConnection_fail op i orig e s | _ \<Rightarrow> s)"
| "resume_op (RemoveConnectionOp op orig) r s =
     (case r of Deleted \<Rightarrow> removeConnection_ok op s
      | Rejected e \<Rightarrow> removeConnection_fail op orig e s | _ \<Rightarrow> s)"
| "resume_op (BatchNodesOp op orig) r s =
     (case r of GotNodeBatch b \<Rightarrow> batchUpdateNodes_ok op b s
      | Rejected e \<Rightarrow> batchUpdateNodes_fail op orig e s | _ \<Rightarrow> s)"
| "resume_op (BatchConnectionsOp op orig) r s =
     (case r of GotConnectionBatch b \<Rightarrow> batchUpdateConnections_ok op b s
      | Rejected e \<Rightarrow> batchUpdateConnections_fail op orig e s | _ \<Rightarrow> s)"

primrec fits :: "wf_op \<Rightarrow> wf_reply \<Rightarrow> bool" where
  "fits LoadOp r = (case r of GotGraph _ \<Rightarrow> True | Rejected _ \<Rightarrow> True | _ \<Rightarrow> False)"
| "fits (AddNodeOp _ _) r = (case r of GotNode _ \<Rightarrow> True | Rejected _ \<Rightarrow> True | _ \<Rightarrow> False)"
| "fits (UpdateNodeOp _ _ _) r = (case r of GotNode _ \<Rightarrow> True | Rejected _ \<Rightarrow> True | _ \<Rightarrow> False)"
| "fits (RemoveNodeOp _ _ _) r = (case r of Deleted \<Rightarrow> True | Rejected _ \<Rightarrow> True | _ \<Rightarrow> False)"
| "fits (AddConnectionOp _ _) r = (case r of GotConnection _ \<Rightarrow> True | Rejected _ \<Rightarrow> True | _ \<Rightarrow> False)"
| "fits (UpdateConnectionOp _ _ _) r =
     (case r of GotConnection _ \<Rightarrow> True | Rejected _ \<Rightarrow> True | _ \<Rightarrow> False)"
| "fits (RemoveConnectionOp _ _) r = (case r of Deleted \<Rightarrow> True | Rejected _ \<Rightarrow> True | _ \<Rightarrow> False)"
| "fits (BatchNodesOp _ _) r = (case r of GotNodeBatch _ \<Rightarrow> True | Rejected _ \<Rightarrow> True | _ \<Rightarrow> False)"
| "fits (BatchConnectionsOp _ _) r =
     (case r of GotConnectionBatch _ \<Rightarrow> True | Rejected _ \<Rightarrow> True | _ \<Rightarrow> False)"

primrec run_local :: "wf_local \<Rightarrow> graph_state \<Rightarrow> graph_state" where
  "run_local Clear s = clearGraph s"
| "run_local Save s = saveSnapshot s"
| "run_local Restore s = restoreSnapshot s"
| "run_local MarkSaved s = markAsSaved s"
| "run_local (SetGraphLoading b) s = setGraphLoading b s"
| "run_local (SetGraphError e) s = setError e s"

primrec wf_perform :: "wf_event \<Rightarrow> wf_system \<Rightarrow> wf_system" where
  "wf_perform (Send r) y =
     (case send_request_op r (wf_store y) of
        (op, s) \<Rightarrow> \<lparr> wf_store = s,
                     in_flight = (case op of None \<Rightarrow> in_flight y | Some t \<Rightarrow> in_flight y @ [t]) \<rparr>)"
| "wf_perform (Receive op r) y =
     \<lparr> wf_store = resume_op op r (wf_store y), in_flight = remove1 op (in_flight y) \<rparr>"
| "wf_perform (Do l) y = y\<lparr> wf_store := run_local l (wf_store y) \<rparr>"

definition wf_guard :: "wf_system \<Rightarrow> wf_event \<Rightarrow> bool" where
  "wf_guard y e =
     (case e of Receive op r \<Rightarrow> op \<in> set (in_flight y) \<and> fits op r | _ \<Rightarrow> True)"

definition init_wf_system :: wf_system where
  "init_wf_system = \<lparr> wf_store = init_graph_state, in_flight = [] \<rparr>"

section \<open>Pending operations\<close>

primrec op_ids :: "wf_op \<Rightarrow> string set" where
  "op_ids LoadOp = {}"
| "op_ids (AddNodeOp op _) = {op}"
| "op_ids (UpdateNodeOp op _ _) = {op}"
| "op_ids (RemoveNodeOp op _ _) = {op}"
| "op_ids (AddConnectionOp op _) = {op}"
| "op_ids (UpdateConnectionOp op _ _) = {op}"
| "op_ids (RemoveConnectionOp op _) = {op}"
| "op_ids (BatchNodesOp op _) = {op}"
| "op_ids (BatchConnectionsOp op _) = {op}"

definition pending_tracked :: "wf_system \<Rightarrow> bool" where
  "pending_tracked y \<longleftrightarrow> pendingOperations (wf_store y) \<subseteq> (\<Union>op \<in> set (in_flight y). op_ids op)"

lemma send_pending:
  assumes "send_request_op r s = (op, s')"
  shows "pendingOperations s' \<subseteq>
    pendingOperations s \<union> (case op of None \<Rightarrow> {} | Some t \<Rightarrow> op_ids t)"
  using assms
  by (cases r) (auto simp: store_defs Let_def split: option.splits)

lemma resume_pending:
  "fits op r \<Longrightarrow> pendingOperations (resume_op op r s) = pendingOperations s - op_ids op"
  by (cases op; cases r) (simp_all add: store_defs Let_def)

lemma local_pending: "pendingOperations (run_local l s) \<subseteq> pendingOperations s"
  by (cases l) (auto simp: store_defs split: option.split)

lemma in_remove1: "x \<in> set xs \<Longrightarrow> x \<noteq> y \<Longrightarrow> x \<in> set (remove1 y xs)"
  by (simp add: in_set_remove1)

lemma tracked_step:
  assumes "pending_tracked y" and "wf_guard y e"
  shows "pending_tracked (wf_perform e y)"
proof (cases e)
  case (Send r)
  obtain op s where rq: "send_request_op r (wf_store y) = (op, s)" by fastforce
  show ?thesis
    using send_pending [OF rq] assms(1)
    by (auto simp: Send rq pending_tracked_def split: option.splits)
next
  case (Receive op r)
  then have "fits op r" using assms(2) by (simp add: wf_guard_def)
  then have "pendingOperations (wf_store (wf_perform e y)) = pendingOperations (wf_store y) - op_ids op"
    by (simp add: Receive resume_pending)
  moreover have "(\<Union>t \<in> set (in_flight y). op_ids t) - op_ids op
      \<subseteq> (\<Union>t \<in> set (remove1 op (in_flight y)). op_ids t)"
  proof
    fix x
    assume "x \<in> (\<Union>t \<in> set (in_flight y). op_ids t) - op_ids op"
    then obtain t where "t \<in> set (in_flight y)" "x \<in> op_ids t" "t \<noteq> op" by auto
    then show "x \<in> (\<Union>t \<in> set (remove1 op (in_flight y)). op_ids t)"
      using in_remove1 by fast
  qed
  ultimately show ?thesis
    using assms(1) by (auto simp: pending_tracked_def Receive)
next
  case (Do l)
  then show ?thesis
    using local_pending [of l "wf_store y"] assms(1) by (auto simp: pending_tracked_def)
qed

interpretation wf_pending: event_system wf_guard wf_perform pending_tracked
  by unfold_locales (rule tracked_step)

text \<open>C22: no operation stays pending for ever: whatever the interleaving of requests, replies and
  local actions, the pending operations are among the requests in flight, so when every request has
  been answered none is pending.\<close>

theorem no_operation_left_pending:
  assumes "reaches wf_guard wf_perform init_wf_system y"
  shows "pendingOperations (wf_store y) \<subseteq> (\<Union>op \<in> set (in_flight y). op_ids op) \<and>
         (in_flight y \<noteq> [] \<or> pendingOperations (wf_store y) = {})"
proof -
  have "pending_tracked init_wf_system"
    by (simp add: pending_tracked_def init_wf_system_def init_graph_state_def)
  with assms have "pending_tracked y" by (rule wf_pending.reaches_inv)
  then show ?thesis by (auto simp: pending_tracked_def)
qed

definition demo_ck :: clock_reads where
  "demo_ck = \<lparr> ck_op = 5, ck_id = 5, ck_created = ''t'', ck_updated = ''t'' \<rparr>"

definition demo_create :: node_create where
  "demo_create = \<lparr> nc_type = ToDo, nc_label = ''Review'', nc_color = None, nc_data = None \<rparr>"

definition demo_node :: "int \<Rightarrow> wf_node" where
  "demo_node i = \<lparr> node_id = i, node_workflow_id = NumId 1, node_type = ToDo, node_label = ''Review'',
     node_color = None, node_data = JObj [], node_created_at = ''t'', node_updated_at = ''t'',
     node_is_deleted = None \<rparr>"

definition demo_graph :: wf_graph where
  "demo_graph = \<lparr> g_workflow = JNull, g_nodes = Some [demo_node 1, demo_node 2], g_connections = None \<rparr>"

definition demo_error :: api_error where
  "demo_error = \<lparr> err_detail = None, err_message = Some ''timeout'' \<rparr>"

lemmas demo_defs = demo_ck_def demo_create_def demo_node_def demo_graph_def demo_error_def

theorem no_operation_left_pending_witness:
  "\<exists>y. guarded_run wf_guard wf_perform
     [Send ReqLoad, Receive LoadOp (GotGraph demo_graph), Send (ReqAddNode (NumId 1) demo_create demo_ck),
      Send (ReqRemoveNode 2 demo_ck)] init_wf_system = Some y \<and> length (in_flight y) = 2 \<and>
     pendingOperations (wf_store y) \<subseteq> (\<Union>op \<in> set (in_flight y). op_ids op)"
proof -
  obtain y where y: "guarded_run wf_guard wf_perform
     [Send ReqLoad, Receive LoadOp (GotGraph demo_graph), Send (ReqAddNode (NumId 1) demo_create demo_ck),
      Send (ReqRemoveNode 2 demo_ck)] init_wf_system = Some y" "length (in_flight y) = 2"
    by (simp add: wf_guard_def init_wf_system_def store_defs demo_defs temp_node_def Let_def)
  with no_operation_left_pending [OF guarded_run_reaches [OF y(1)]] show ?thesis by blast
qed

section \<open>Discarding changes\<close>

definition saves :: "wf_event \<Rightarrow> bool" where
  "saves e = (case e of Receive op r \<Rightarrow> (case r of GotGraph _ \<Rightarrow> True | _ \<Rightarrow> False)
                      | Do l \<Rightarrow> l = Save \<or> l = MarkSaved | Send _ \<Rightarrow> False)"

definition editing_guard :: "wf_system \<Rightarrow> wf_event \<Rightarrow> bool" where
  "editing_guard y e \<longleftrightarrow> wf_guard y e \<and> \<not> saves e"

lemma send_snapshot: "graph_snapshot (snd (send_request_op r s)) = graph_snapshot s"
  by (cases r) (auto simp: store_defs Let_def split: option.split)

lemma resume_snapshot:
  "(\<And>g. r \<noteq> GotGraph g) \<Longrightarrow> graph_snapshot (resume_op op r s) = graph_snapshot s"
  by (cases op; cases r) (auto simp: store_defs)

lemma local_snapshot: "l \<noteq> Save \<Longrightarrow> l \<noteq> MarkSaved \<Longrightarrow> graph_snapshot (run_local l s) = graph_snapshot s"
  by (cases l) (auto simp: store_defs split: option.split)

lemma editing_keeps_snapshot:
  "graph_snapshot (wf_store y) = sn \<Longrightarrow> editing_guard y e \<Longrightarrow> graph_snapshot (wf_store (wf_perform e y)) = sn"
proof (cases e)
  case (Send r)
  assume "graph_snapshot (wf_store y) = sn"
  with Send send_snapshot [of r "wf_store y"] show ?thesis
    by (auto simp: prod.case_eq_if)
next
  case (Receive op r)
  assume "graph_snapshot (wf_store y) = sn" and "editing_guard y e"
  with Receive show ?thesis
    by (auto simp: editing_guard_def saves_def resume_snapshot split: wf_reply.splits)
next
  case (Do l)
  assume "graph_snapshot (wf_store y) = sn" and "editing_guard y e"
  with Do show ?thesis by (auto simp: editing_guard_def saves_def local_snapshot)
qed

interpretation wf_editing: event_system editing_guard wf_perform "\<lambda>y. graph_snapshot (wf_store y) = sn"
  for sn
  by unfold_locales (rule editing_keeps_snapshot)

text \<open>Discarding changes brings back exactly the nodes and connections last loaded or saved, after
  any interleaving of edits, batches, failures and clears in between, and marks them as saved.\<close>

lemma discard_restores_saved_graph:
  assumes "graph_snapshot (wf_store y) = Some sn" and "reaches editing_guard wf_perform y y'"
  shows "nodes (restoreSnapshot (wf_store y')) = snap_nodes sn \<and>
         connections (restoreSnapshot (wf_store y')) = snap_connections sn \<and>
         \<not> hasUnsavedChanges (restoreSnapshot (wf_store y'))"
  using wf_editing.reaches_inv [OF assms(2) assms(1)] by (simp add: restoreSnapshot_def)

lemma discard_restores_saved_graph_witness:
  "nodes (restoreSnapshot (wf_store (wf_perform (Send (ReqRemoveNode 2 demo_ck))
     \<lparr> wf_store = loadGraph_ok demo_graph init_graph_state, in_flight = [] \<rparr>))) = [demo_node 1, demo_node 2]"
proof -
  let ?y = "\<lparr> wf_store = loadGraph_ok demo_graph init_graph_state, in_flight = [] \<rparr>"
  have "graph_snapshot (wf_store ?y) =
      Some \<lparr> snap_nodes = [demo_node 1, demo_node 2], snap_connections = [] \<rparr>"
    by (simp add: loadGraph_ok_def demo_graph_def Let_def)
  moreover have "reaches editing_guard wf_perform ?y (wf_perform (Send (ReqRemoveNode 2 demo_ck)) ?y)"
    by (rule reaches_step [OF reaches_init]) (simp add: editing_guard_def saves_def wf_guard_def)
  ultimately show ?thesis using discard_restores_saved_graph by fastforce
qed

section \<open>Rolling back\<close>

text \<open>Lists of items with an id, as the nodes and the connections are.\<close>

lemma filter_temp: "k \<notin> f ` set xs \<Longrightarrow> filter (\<lambda>n. f n \<noteq> k) xs = xs"
  by (induction xs) auto

lemma map_where_temp: "k \<notin> f ` set xs \<Longrightarrow> map_where (\<lambda>n. f n = k) g xs = xs"
  by (induction xs) auto

lemma map_where_restore:
  assumes "distinct (map f xs)" "List.find (\<lambda>n. f n = i) xs = Some x" "\<And>y. f (g y) = f y"
  shows "map_where (\<lambda>n. f n = i) (\<lambda>_. x) (map_where (\<lambda>n. f n = i) g xs) = xs"
proof -
  have "map_where (\<lambda>n. f n = i) (\<lambda>_. x) (map_where (\<lambda>n. f n = i) g xs) =
      map_where (\<lambda>n. f n = i) (\<lambda>_. x) xs"
    using assms(3) by (subst map_where_map_where) simp_all
  also have "\<dots> = xs"
  proof (rule map_where_id)
    fix y
    assume "y \<in> set xs" "f y = i"
    moreover have "x \<in> set xs" "f x = i" using find_Some_D [OF assms(2)] by simp_all
    ultimately show "x = y" using assms(1) by (metis distinct_map inj_onD)
  qed
  finally show ?thesis .
qed

lemma filter_id_mset:
  assumes "distinct (map f xs)" "List.find (\<lambda>n. f n = i) xs = Some x"
  shows "mset (filter (\<lambda>n. f n \<noteq> i) xs @ [x]) = mset xs"
  using assms
proof (induction xs)
  case (Cons y xs)
  show ?case
  proof (cases "f y = i")
    case True
    with Cons.prems have "x = y" "i \<notin> f ` set xs" by auto
    with True show ?thesis by (simp add: filter_temp)
  next
    case False
    with Cons show ?thesis by simp
  qed
qed simp

lemma mset_filter_split: "mset (filter (\<lambda>c. \<not> P c) xs @ filter P xs) = mset xs"
  by (induction xs) auto

text \<open>When nothing interferes, every action on nodes whose request fails leaves the graph as it
  was: adding, updating and batches exactly, removing up to the order (the node and its connections
  come back at the end), and nothing stays pending.\<close>

lemma failed_node_actions_roll_back:
  assumes "distinct (map node_id (nodes s))" and "- ck_id ck \<notin> node_id ` set (nodes s)"
  shows "nodes (snd (addNode (\<lambda>_ _. Inl e) wid d ck s)) = nodes s \<and>
         nodes (snd (updateNode (\<lambda>_ _ _. Inl e) wid i upd ck s)) = nodes s \<and>
         nodes (snd (batchUpdateNodes (\<lambda>_ _. Inl e) wid b t readings now s)) = nodes s \<and>
         mset (nodes (snd (removeNode (\<lambda>_ _. Inl e) wid i ck s))) = mset (nodes s) \<and>
         mset (connections (snd (removeNode (\<lambda>_ _. Inl e) wid i ck s))) = mset (connections s)"
proof (intro conjI)
  show "nodes (snd (addNode (\<lambda>_ _. Inl e) wid d ck s)) = nodes s"
    using assms(2) by (simp add: addNode_def store_defs Let_def temp_node_def filter_temp)
  show "nodes (snd (updateNode (\<lambda>_ _ _. Inl e) wid i upd ck s)) = nodes s"
    using map_where_restore [OF assms(1)]
    by (simp add: updateNode_def store_defs Let_def split: option.split)
  show "nodes (snd (batchUpdateNodes (\<lambda>_ _. Inl e) wid b t readings now s)) = nodes s"
    by (simp add: batchUpdateNodes_def store_defs Let_def)
  show "mset (nodes (snd (removeNode (\<lambda>_ _. Inl e) wid i ck s))) = mset (nodes s)"
    using filter_id_mset [OF assms(1)]
    by (simp add: removeNode_def store_defs Let_def split: option.split)
  show "mset (connections (snd (removeNode (\<lambda>_ _. Inl e) wid i ck s))) = mset (connections s)"
    using mset_filter_split [of "\<lambda>c. source_node_id c = i \<or> target_node_id c = i" "connections s"]
    by (simp add: removeNode_def store_defs Let_def split: option.split)
qed

lemma failed_node_actions_roll_back_witness:
  "nodes (snd (addNode (\<lambda>_ _. Inl demo_error) (NumId 1) demo_create demo_ck
     (loadGraph_ok demo_graph init_graph_state))) = [demo_node 1, demo_node 2]"
proof -
  let ?s = "loadGraph_ok demo_graph init_graph_state"
  have ns: "nodes ?s = [demo_node 1, demo_node 2]"
    by (simp add: loadGraph_ok_def demo_graph_def Let_def)
  have "distinct (map node_id (nodes ?s))" "- ck_id demo_ck \<notin> node_id ` set (nodes ?s)"
    by (simp_all add: ns demo_node_def demo_ck_def)
  from failed_node_actions_roll_back [OF this, of demo_error "NumId 1" demo_create] ns show ?thesis by simp
qed

text \<open>When nothing interferes and the request succeeds, a created node stands where its temporary
  stood and no temporary is left, and a removed node has gone with every connection that touches it
  while all other nodes and connections are kept in order.\<close>

lemma successful_node_actions:
  assumes "- ck_id ck \<notin> node_id ` set (nodes s)"
  shows "addNode (\<lambda>_ _. Inr n) wid d ck s =
           (Some n, s\<lparr> nodes := nodes s @ [n], hasUnsavedChanges := True, graph_error := None,
              pendingOperations := pendingOperations s - {''add-node-'' @ int_dec (ck_op ck)} \<rparr>) \<and>
         (i \<in> node_id ` set (nodes s) \<longrightarrow>
           fst (removeNode (\<lambda>_ _. Inr ()) wid i ck s) \<and>
           nodes (snd (removeNode (\<lambda>_ _. Inr ()) wid i ck s)) = filter (\<lambda>m. node_id m \<noteq> i) (nodes s) \<and>
           connections (snd (removeNode (\<lambda>_ _. Inr ()) wid i ck s)) =
             filter (\<lambda>c. source_node_id c \<noteq> i \<and> target_node_id c \<noteq> i) (connections s))"
proof (intro conjI impI)
  show "addNode (\<lambda>_ _. Inr n) wid d ck s =
           (Some n, s\<lparr> nodes := nodes s @ [n], hasUnsavedChanges := True, graph_error := None,
              pendingOperations := pendingOperations s - {''add-node-'' @ int_dec (ck_op ck)} \<rparr>)"
    using assms by (simp add: addNode_def store_defs Let_def temp_node_def map_where_temp)
  assume "i \<in> node_id ` set (nodes s)"
  then obtain m where "List.find (\<lambda>n. node_id n = i) (nodes s) = Some m"
    using find_Some_iff_ex [of "\<lambda>n. node_id n = i" "nodes s"] by auto
  then show "fst (removeNode (\<lambda>_ _. Inr ()) wid i ck s)"
    and "nodes (snd (removeNode (\<lambda>_ _. Inr ()) wid i ck s)) = filter (\<lambda>m. node_id m \<noteq> i) (nodes s)"
    and "connections (snd (removeNode (\<lambda>_ _. Inr ()) wid i ck s)) =
           filter (\<lambda>c. source_node_id c \<noteq> i \<and> target_node_id c \<noteq> i) (connections s)"
    by (simp_all add: removeNode_def store_defs Let_def)
qed

lemma successful_node_actions_witness:
  "nodes (snd (removeNode (\<lambda>_ _. Inr ()) (NumId 1) 2 demo_ck (loadGraph_ok demo_graph init_graph_state))) =
   [demo_node 1]"
proof -
  let ?s = "loadGraph_ok demo_graph init_graph_state"
  have ns: "nodes ?s = [demo_node 1, demo_node 2]"
    by (simp add: loadGraph_ok_def demo_graph_def Let_def)
  have "- ck_id demo_ck \<notin> node_id ` set (nodes ?s)"
    by (simp add: ns demo_node_def demo_ck_def)
  from successful_node_actions [OF this, of "demo_node 9" "NumId 1" demo_create 2] show ?thesis
    by (simp add: ns demo_node_def)
qed

section \<open>Requests that meet\<close>

lemma update_first_ids:
  "(\<And>x. f x = i \<Longrightarrow> f (g x) = i) \<Longrightarrow> map f (update_first (\<lambda>n. f n = i) g xs) = map f xs"
proof (cases "find_index (\<lambda>n. f n = i) xs")
  case (Some k)
  assume "\<And>x. f x = i \<Longrightarrow> f (g x) = i"
  with find_index_Some [OF Some] show ?thesis
    by (simp add: update_first_def Some map_update list_update_same_conv)
qed (simp add: update_first_def)

lemma fold_update_ids:
  "map node_id (fold (\<lambda>u. update_first (\<lambda>n. node_id n = node_id u) (\<lambda>_. u)) us ns) = map node_id ns"
  by (induction us arbitrary: ns) (simp_all add: update_first_ids)

text \<open>The reply of a batch that created nodes removes every temporary node, not only its own: a
  node that is being added at that moment disappears, and its own reply finds nothing to replace,
  so the node the server created never shows.\<close>

lemma batch_success_drops_other_temporaries:
  assumes "nr_created r = Some (c # cs)" and "list_all (\<lambda>m. node_id m \<ge> 0) (c # cs)" and "tempId < 0"
  shows "nodes (addNode_ok op tempId n (batchUpdateNodes_ok bop r s)) =
         nodes (batchUpdateNodes_ok bop r s) \<and>
         tempId \<notin> node_id ` set (nodes (batchUpdateNodes_ok bop r s))"
proof -
  let ?ns = "nodes (batchUpdateNodes_ok bop r s)"
  have "map node_id ?ns = map node_id (filter (\<lambda>n. node_id n \<ge> 0) (nodes s) @ c # cs)"
    using assms(1) by (simp add: store_defs merge_node_result_def Let_def fold_update_ids del: map_append)
  then have "node_id ` set ?ns = node_id ` set (filter (\<lambda>n. node_id n \<ge> 0) (nodes s) @ c # cs)"
    by (metis set_map)
  then have gone: "tempId \<notin> node_id ` set ?ns" using assms(2,3) by (auto simp: list_all_iff)
  then have "map_where (\<lambda>m. node_id m = tempId) (\<lambda>_. n) ?ns = ?ns"
    by (intro map_where_none) auto
  with gone show ?thesis by (simp add: addNode_ok_def settle_def)
qed

lemma batch_success_drops_other_temporaries_witness:
  "-5 \<notin> node_id ` set (nodes (batchUpdateNodes_ok ''batch-nodes-6''
     \<lparr> nr_created = Some [demo_node 3], nr_updated = None \<rparr>
     (snd (addNode_begin (NumId 1) demo_create demo_ck init_graph_state))))"
  using batch_success_drops_other_temporaries
    [of "\<lparr> nr_created = Some [demo_node 3], nr_updated = None \<rparr>" "demo_node 3" "[]" "-5"]
  by (simp add: demo_node_def)

text \<open>A removal that fails after the graph was reloaded in the meantime puts the node back beside
  the reloaded one: the list then holds two nodes with one id.\<close>

lemma remove_rollback_after_reload_duplicates:
  assumes "List.find (\<lambda>n. node_id n = i) (nodes s) = Some n"
    and "i \<in> node_id ` set (nullish (g_nodes g) [])"
  shows "\<exists>op cs s1. removeNode_begin i ck s = (Some (op, n, cs), s1) \<and>
           \<not> distinct (map node_id (nodes (removeNode_fail op n cs e (loadGraph_ok g s1))))"
proof -
  have "node_id n = i" using find_Some_D [OF assms(1)] by simp
  with assms(2) have "\<not> distinct (map node_id (nullish (g_nodes g) [] @ [n]))" by auto
  then show ?thesis
    by (simp add: removeNode_begin_def assms(1) Let_def removeNode_fail_def settle_def loadGraph_ok_def)
qed

lemma remove_rollback_after_reload_duplicates_witness:
  "\<exists>op cs s1. removeNode_begin 2 demo_ck (loadGraph_ok demo_graph init_graph_state) =
       (Some (op, demo_node 2, cs), s1) \<and>
     \<not> distinct (map node_id (nodes (removeNode_fail op (demo_node 2) cs demo_error
         (loadGraph_ok demo_graph s1))))"
  by (rule remove_rollback_after_reload_duplicates) (simp_all add: loadGraph_ok_def demo_defs Let_def)

end
