(* ===== verification/Undo_History.thy ===== *)
theory Undo_History imports Js_Prelude begin

text \<open>
  Undo and redo.  The locale \<open>undo_history\<close> is the contract both editors keep: undoing and redoing are
  inverse to each other and an edit leaves nothing to redo; its lemmas lift that to any number of
  steps.  The snapshot stack of the email builder
  (\<open>components/mailchimp/email-builder/hooks/useUndoRedo.ts\<close>) is modelled here; the reducer of the
  workflow canvas is in the theory \<open>Canvas_State\<close>.  Both interpret the locale.
\<close>

section \<open>The contract\<close>

fun repeat_opt :: "('h \<Rightarrow> 'h option) \<Rightarrow> nat \<Rightarrow> 'h \<Rightarrow> 'h option" where
  "repeat_opt f 0 h = Some h"
| "repeat_opt f (Suc n) h = (case f h of None \<Rightarrow> None | Some h' \<Rightarrow> repeat_opt f n h')"

lemma repeat_opt_snoc:
  "repeat_opt f (Suc n) h = (case repeat_opt f n h of None \<Rightarrow> None | Some h' \<Rightarrow> f h')"
proof (induction n arbitrary: h)
  case (Suc n)
  show ?case
  proof (cases "f h")
    case (Some h')
    with Suc.IH [of h'] show ?thesis by simp
  qed simp
qed (simp split: option.split)

locale undo_history =
  fixes ok :: "'h \<Rightarrow> bool"
    and undo :: "'h \<Rightarrow> 'h option"
    and redo :: "'h \<Rightarrow> 'h option"
    and edit :: "'e \<Rightarrow> 'h \<Rightarrow> 'h"
  assumes undo_ok: "ok h \<Longrightarrow> undo h = Some h' \<Longrightarrow> ok h'"
    and redo_ok: "ok h \<Longrightarrow> redo h = Some h' \<Longrightarrow> ok h'"
    and edit_ok: "ok h \<Longrightarrow> ok (edit e h)"
    and redo_undo: "ok h \<Longrightarrow> undo h = Some h' \<Longrightarrow> redo h' = Some h"
    and undo_redo: "ok h \<Longrightarrow> redo h = Some h' \<Longrightarrow> undo h' = Some h"
begin

lemma repeat_undo_ok: "ok h \<Longrightarrow> repeat_opt undo n h = Some h' \<Longrightarrow> ok h'"
  by (induction n arbitrary: h) (auto split: option.splits intro: undo_ok)

lemma redo_all_undone: "ok h \<Longrightarrow> repeat_opt undo n h = Some h' \<Longrightarrow> repeat_opt redo n h' = Some h"
proof (induction n arbitrary: h)
  case (Suc n)
  then obtain h1 where h1: "undo h = Some h1" "repeat_opt undo n h1 = Some h'"
    by (auto split: option.splits)
  with Suc.prems(1) have "ok h1" "redo h1 = Some h" by (auto intro: undo_ok redo_undo)
  with Suc.IH [OF \<open>ok h1\<close> h1(2)] show ?case
    by (simp only: repeat_opt_snoc option.case)
qed simp

lemma repeat_redo_ok: "ok h \<Longrightarrow> repeat_opt redo n h = Some h' \<Longrightarrow> ok h'"
  by (induction n arbitrary: h) (auto split: option.splits intro: redo_ok)

lemma undo_all_redone: "ok h \<Longrightarrow> repeat_opt redo n h = Some h' \<Longrightarrow> repeat_opt undo n h' = Some h"
proof (induction n arbitrary: h)
  case (Suc n)
  then obtain h1 where h1: "redo h = Some h1" "repeat_opt redo n h1 = Some h'"
    by (auto split: option.splits)
  with Suc.prems(1) have "ok h1" "undo h1 = Some h" by (auto intro: redo_ok undo_redo)
  with Suc.IH [OF \<open>ok h1\<close> h1(2)] show ?case
    by (simp only: repeat_opt_snoc option.case)
qed simp

end

section \<open>The snapshot stack of the email builder\<close>

text \<open>
  \<open>cloneState\<close> copies a value, which a value of the model is already.  The serialisation, by which
  \<open>saveSnapshot\<close> compares states, and the truthiness of a state are parameters: the hook is generic.
\<close>

record 'a undo_stack =
  history :: "'a list"
  future :: "'a list"

definition initUndoRedo :: "'a \<Rightarrow> 'a undo_stack" where
  "initUndoRedo initialState = \<lparr> history = [initialState], future = [] \<rparr>"

definition stackSaveSnapshot ::
  "('a \<Rightarrow> string) \<Rightarrow> nat \<Rightarrow> 'a \<Rightarrow> 'a undo_stack \<Rightarrow> 'a undo_stack" where
  "stackSaveSnapshot serialize capacity state prev =
     (if map_option serialize (if history prev = [] then None else Some (last (history prev)))
         = Some (serialize state) then prev
      else (let nextHistory = history prev @ [state];
                trimmed = (if length nextHistory > capacity then drop 1 nextHistory else nextHistory)
            in \<lparr> history = trimmed, future = [] \<rparr>))"

definition stackUndo :: "('a \<Rightarrow> bool) \<Rightarrow> 'a undo_stack \<Rightarrow> 'a option \<times> 'a undo_stack" where
  "stackUndo truthy prev =
     (if length (history prev) \<le> 1 then (None, prev)
      else (let current = last (history prev); nextHistory = butlast (history prev)
            in if \<not> truthy current then (None, prev)
               else (Some (last nextHistory),
                     \<lparr> history = nextHistory, future = current # future prev \<rparr>)))"

definition stackRedo :: "'a undo_stack \<Rightarrow> 'a option \<times> 'a undo_stack" where
  "stackRedo prev =
     (case future prev of
        [] \<Rightarrow> (None, prev)
      | nxt # restFuture \<Rightarrow>
          (Some nxt, \<lparr> history = history prev @ [nxt], future = restFuture \<rparr>))"

definition stackReset :: "'a \<Rightarrow> 'a undo_stack" where
  "stackReset state = \<lparr> history = [state], future = [] \<rparr>"

definition stackCanUndo :: "'a undo_stack \<Rightarrow> bool" where
  "stackCanUndo st \<longleftrightarrow> length (history st) > 1"

definition stackCanRedo :: "'a undo_stack \<Rightarrow> bool" where
  "stackCanRedo st \<longleftrightarrow> length (future st) > 0"

definition taken :: "'a option \<times> 'h \<Rightarrow> 'h option" where
  "taken r = (case fst r of None \<Rightarrow> None | Some _ \<Rightarrow> Some (snd r))"

definition stack_ok :: "('a \<Rightarrow> bool) \<Rightarrow> nat \<Rightarrow> 'a undo_stack \<Rightarrow> bool" where
  "stack_ok truthy capacity st \<longleftrightarrow>
     history st \<noteq> [] \<and> length (history st) + length (future st) \<le> max 1 capacity \<and>
     list_all truthy (history st) \<and> list_all truthy (future st)"

lemma snoc_cases: "xs \<noteq> [] \<Longrightarrow> \<exists>ys y. xs = ys @ [y]"
  by (metis append_butlast_last_id)

lemma stack_undo_some:
  "taken (stackUndo truthy st) = Some st' \<longleftrightarrow>
   length (history st) > 1 \<and> truthy (last (history st)) \<and>
   st' = \<lparr> history = butlast (history st), future = last (history st) # future st \<rparr>"
  by (auto simp: taken_def stackUndo_def Let_def)

lemma stack_redo_some:
  "taken (stackRedo st) = Some st' \<longleftrightarrow>
   (\<exists>x xs. future st = x # xs \<and> st' = \<lparr> history = history st @ [x], future = xs \<rparr>)"
  by (auto simp: taken_def stackRedo_def split: list.splits)

lemma stack_save_ok:
  assumes "stack_ok truthy capacity st" "truthy x"
  shows "stack_ok truthy capacity (stackSaveSnapshot ser capacity x st)"
  using assms by (cases "history st")
    (auto simp: stack_ok_def stackSaveSnapshot_def Let_def max_def split: if_splits)

text \<open>
  States are objects, so they are truthy; the interpretation takes \<open>truthy\<close> to be true of every state
  of the editor.
\<close>

interpretation email: undo_history "stack_ok (\<lambda>_. True) capacity"
  "\<lambda>st. taken (stackUndo (\<lambda>_. True) st)" "\<lambda>st. taken (stackRedo st)" "stackSaveSnapshot ser capacity"
  for capacity ser
proof unfold_locales
  fix st st' :: "'a undo_stack"
  assume ok: "stack_ok (\<lambda>_. True) capacity st"
  show "stack_ok (\<lambda>_. True) capacity st'" if "taken (stackUndo (\<lambda>_. True) st) = Some st'"
    using ok that unfolding stack_undo_some
    by (cases "history st" rule: rev_cases) (auto simp: stack_ok_def)
  show "stack_ok (\<lambda>_. True) capacity st'" if "taken (stackRedo st) = Some st'"
    using ok that by (auto simp: stack_redo_some stack_ok_def)
  show "taken (stackRedo st') = Some st" if "taken (stackUndo (\<lambda>_. True) st) = Some st'"
    using ok that unfolding stack_undo_some
    by (cases "history st" rule: rev_cases) (auto simp: stack_ok_def stack_redo_some)
  show "taken (stackUndo (\<lambda>_. True) st') = Some st" if "taken (stackRedo st) = Some st'"
    using ok that by (cases st) (auto simp: stack_redo_some stack_undo_some stack_ok_def)
next
  fix st :: "'a undo_stack" and x
  assume "stack_ok (\<lambda>_. True) capacity st"
  then show "stack_ok (\<lambda>_. True) capacity (stackSaveSnapshot ser capacity x st)"
    by (rule stack_save_ok) simp
qed

section \<open>Properties\<close>

text \<open>In the email builder any number of undos followed by as many redos gives back exactly the
  stack they started from.\<close>

lemma email_redo_after_undo:
  assumes "stack_ok (\<lambda>_. True) capacity st"
    and "repeat_opt (\<lambda>st. taken (stackUndo (\<lambda>_. True) st)) n st = Some st'"
  shows "repeat_opt (\<lambda>st. taken (stackRedo st)) n st' = Some st"
  using assms by (rule email.redo_all_undone)

lemma email_redo_after_undo_witness:
  "repeat_opt (\<lambda>st. taken (stackRedo st)) 2 \<lparr> history = [''a''], future = [''b'', ''c''] \<rparr> =
   Some \<lparr> history = [''a'', ''b'', ''c''], future = [] \<rparr>"
  by (rule email_redo_after_undo [of 50])
     (simp_all add: stack_ok_def taken_def stackUndo_def numeral_2_eq_2)

inductive stack_reaches :: "('a \<Rightarrow> string) \<Rightarrow> nat \<Rightarrow> 'a undo_stack \<Rightarrow> bool" for ser capacity where
  stack_init: "stack_reaches ser capacity (initUndoRedo x)"
| stack_save: "stack_reaches ser capacity st \<Longrightarrow> stack_reaches ser capacity (stackSaveSnapshot ser capacity x st)"
| stack_undo: "stack_reaches ser capacity st \<Longrightarrow> stack_reaches ser capacity (snd (stackUndo (\<lambda>_. True) st))"
| stack_redo: "stack_reaches ser capacity st \<Longrightarrow> stack_reaches ser capacity (snd (stackRedo st))"
| stack_reset: "stack_reaches ser capacity st \<Longrightarrow> stack_reaches ser capacity (stackReset x)"

lemma snd_taken: "taken r = None \<Longrightarrow> fst r = None" "taken r = Some h \<Longrightarrow> snd r = h"
  by (auto simp: taken_def split: option.splits)

lemma stack_undo_stuck: "taken (stackUndo t st) = None \<Longrightarrow> snd (stackUndo t st) = st"
  by (auto simp: taken_def stackUndo_def Let_def)

lemma stack_redo_stuck: "taken (stackRedo st) = None \<Longrightarrow> snd (stackRedo st) = st"
  by (auto simp: taken_def stackRedo_def split: list.splits)

text \<open>Whatever the user does, the undo stack of the email builder never holds more snapshots than
  its capacity (and at least the current one), counting what can be undone and redone.\<close>

lemma email_stack_bounded:
  assumes "stack_reaches ser capacity st"
  shows "history st \<noteq> [] \<and> length (history st) + length (future st) \<le> max 1 capacity"
proof -
  from assms have "stack_ok (\<lambda>_. True) capacity st"
  proof (induction rule: stack_reaches.induct)
    case (stack_save st x)
    then show ?case by (intro stack_save_ok) simp_all
  next
    case (stack_undo st)
    then show ?case
      by (cases "taken (stackUndo (\<lambda>_. True) st)")
         (auto simp: stack_undo_stuck snd_taken intro: email.undo_ok)
  next
    case (stack_redo st)
    then show ?case
      by (cases "taken (stackRedo st)")
         (auto simp: stack_redo_stuck snd_taken intro: email.redo_ok)
  qed (simp_all add: initUndoRedo_def stackReset_def stack_ok_def list_all_iff)
  then show ?thesis by (simp add: stack_ok_def)
qed

lemma email_stack_bounded_witness:
  "history (stackSaveSnapshot id 2 ''c'' (stackSaveSnapshot id 2 ''b'' (initUndoRedo ''a''))) \<noteq> [] \<and>
   length (history (stackSaveSnapshot id 2 ''c'' (stackSaveSnapshot id 2 ''b'' (initUndoRedo ''a'')))) \<le> 2"
proof -
  have "stack_reaches id 2 (stackSaveSnapshot id 2 ''c'' (stackSaveSnapshot id 2 ''b'' (initUndoRedo ''a'')))"
    by (intro stack_reaches.intros)
  from email_stack_bounded [OF this] show ?thesis by simp
qed

end
