(* ===== verification/Canvas_State.thy ===== *)
theory Canvas_State imports Undo_History Js_Object begin

text \<open>
  The editing state of the agent workflow canvas
  (\<open>src/frontend/src/components/workflows/agent/canvas/useCanvasState.ts\<close>): the steps, the reducer
  with its undo history, and what counts as an unsaved change.
\<close>

section \<open>Steps\<close>

datatype step_type =
    AnalyzeData | CallDify | CallLlm | CreateDecision | CreateTasks | CustomApi | AwaitConfirmation
  | DetectColumns | NormalizeData | GenerateCriteria | GenerateMiroSnapshot | CreateMiroBoard
  | IfElse | MergeStep | LoopStep

record agent_step =
  as_id :: string
  as_name :: string
  as_type :: step_type
  as_order :: int
  as_config :: js_val
  as_description :: "string option"
  as_created_at :: "string option"

record local_step =
  ls_id :: string
  ls_name :: string
  ls_type :: step_type
  ls_order :: int
  ls_config :: js_val
  ls_description :: "string option"
  ls_created_at :: "string option"
  ls_isTemp :: bool
  ls_isDirty :: bool

record local_patch =
  lp_name :: "string option"
  lp_type :: "step_type option"
  lp_config :: "js_val option"
  lp_description :: "string option"

record canvas_history =
  past :: "local_step list list"
  present :: "local_step list"
  cfuture :: "local_step list list"

datatype history_action =
    Init "agent_step list"
  | Add local_step int
  | Delete string
  | Update string local_patch
  | Reorder int int
  | Undo
  | Redo

section \<open>The reducer\<close>

definition renumber :: "local_step list \<Rightarrow> local_step list" where
  "renumber steps = map (\<lambda>(i, s). s\<lparr> ls_order := int i + 1 \<rparr>) (enumerate 0 steps)"

definition apiToLocal :: "agent_step \<Rightarrow> local_step" where
  "apiToLocal s =
     \<lparr> ls_id = as_id s, ls_name = as_name s, ls_type = as_type s, ls_order = as_order s,
       ls_config = as_config s, ls_description = as_description s, ls_created_at = as_created_at s,
       ls_isTemp = False, ls_isDirty = False \<rparr>"

definition pushHistory :: "canvas_history \<Rightarrow> local_step list \<Rightarrow> canvas_history" where
  "pushHistory h nxt = \<lparr> past = past h @ [present h], present = nxt, cfuture = [] \<rparr>"

text \<open>
  The start index of \<open>splice\<close>: a negative one counts from the end, and every index is clamped to the
  array.  Moving from an index past the end inserts \<open>undefined\<close>, of which renumbering makes an object
  with nothing but an order; \<open>hollow_step\<close> stands for it (no caller does that).
\<close>

definition splice_index :: "int \<Rightarrow> nat \<Rightarrow> nat" where
  "splice_index i n = (if i < 0 then nat (max 0 (int n + i)) else min (nat i) n)"

definition hollow_step :: local_step where
  "hollow_step = \<lparr> ls_id = [], ls_name = [], ls_type = AnalyzeData, ls_order = 0, ls_config = JNull,
     ls_description = None, ls_created_at = None, ls_isTemp = False, ls_isDirty = False \<rparr>"

definition spread_step :: "local_step \<Rightarrow> local_patch \<Rightarrow> local_step" where
  "spread_step s p =
     s\<lparr> ls_name := nullish (lp_name p) (ls_name s), ls_type := nullish (lp_type p) (ls_type s),
        ls_config := nullish (lp_config p) (ls_config s),
        ls_description := orelse (lp_description p) (ls_description s) \<rparr>"

definition insert_step :: "local_step \<Rightarrow> int \<Rightarrow> local_step list \<Rightarrow> local_step list" where
  "insert_step s insertAfter steps =
     splice_insert (splice_index (min (insertAfter + 1) (int (length steps))) (length steps)) s steps"

definition move_step :: "int \<Rightarrow> int \<Rightarrow> local_step list \<Rightarrow> local_step list" where
  "move_step fromIdx toIdx steps =
     (let i = splice_index fromIdx (length steps);
          moved = (if i < length steps then steps ! i else hollow_step);
          rest = splice_remove i steps
      in splice_insert (splice_index toIdx (length rest)) moved rest)"

definition update_steps :: "string \<Rightarrow> local_patch \<Rightarrow> local_step list \<Rightarrow> local_step list" where
  "update_steps stepId p =
     map_where (\<lambda>s. ls_id s = stepId) (\<lambda>s. (spread_step s p)\<lparr> ls_isDirty := \<not> ls_isTemp s \<rparr>)"

fun reducer :: "canvas_history \<Rightarrow> history_action \<Rightarrow> canvas_history" where
  "reducer h (Init steps) = \<lparr> past = [], present = map apiToLocal steps, cfuture = [] \<rparr>"
| "reducer h (Add s insertAfter) = pushHistory h (renumber (insert_step s insertAfter (present h)))"
| "reducer h (Delete stepId) =
     pushHistory h (renumber (filter (\<lambda>s. ls_id s \<noteq> stepId) (present h)))"
| "reducer h (Update stepId p) = pushHistory h (update_steps stepId p (present h))"
| "reducer h (Reorder fromIdx toIdx) = pushHistory h (renumber (move_step fromIdx toIdx (present h)))"
| "reducer h Undo =
     (if past h = [] then h
      else \<lparr> past = butlast (past h), present = last (past h), cfuture = present h # cfuture h \<rparr>)"
| "reducer h Redo =
     (case cfuture h of
        [] \<Rightarrow> h
      | nxt # rest \<Rightarrow> \<lparr> past = past h @ [present h], present = nxt, cfuture = rest \<rparr>)"

definition canUndo :: "canvas_history \<Rightarrow> bool" where
  "canUndo h \<longleftrightarrow> length (past h) > 0"

definition canRedo :: "canvas_history \<Rightarrow> bool" where
  "canRedo h \<longleftrightarrow> length (cfuture h) > 0"

definition isDirty :: "local_step list \<Rightarrow> string list \<Rightarrow> bool" where
  "isDirty steps savedIds \<longleftrightarrow>
     list_ex (\<lambda>s. ls_isTemp s \<or> ls_isDirty s) steps \<or>
     list_ex (\<lambda>i. List.find (\<lambda>s. ls_id s = i) steps = None) savedIds"

section \<open>Lemmas\<close>

lemma renumber_nth: "i < length steps \<Longrightarrow> renumber steps ! i = (steps ! i)\<lparr> ls_order := int i + 1 \<rparr>"
  by (simp add: renumber_def nth_enumerate_eq)

lemma length_renumber [simp]: "length (renumber steps) = length steps"
  by (simp add: renumber_def)

lemma renumber_ids [simp]: "map ls_id (renumber steps) = map ls_id steps"
  by (rule nth_equalityI) (simp_all add: renumber_nth)

lemma renumber_orders: "map ls_order (renumber steps) = map (\<lambda>i. int i + 1) [0..<length steps]"
  by (rule nth_equalityI) (simp_all add: renumber_nth)

definition numbered :: "local_step list \<Rightarrow> bool" where
  "numbered steps \<longleftrightarrow> map ls_order steps = map (\<lambda>i. int i + 1) [0..<length steps]"

lemma numbered_renumber [simp]: "numbered (renumber steps)"
  by (simp add: numbered_def renumber_orders)

lemma update_steps_orders [simp]: "map ls_order (update_steps i p steps) = map ls_order steps"
  unfolding update_steps_def by (rule map_map_where) (simp add: spread_step_def)

lemma update_steps_ids [simp]: "map ls_id (update_steps i p steps) = map ls_id steps"
  unfolding update_steps_def by (rule map_map_where) (simp add: spread_step_def)

lemma numbered_update [simp]: "numbered (update_steps i p steps) = numbered steps"
  by (simp add: numbered_def) (metis length_map update_steps_ids)

definition editing :: "history_action \<Rightarrow> bool" where
  "editing a \<longleftrightarrow> (case a of Add _ _ \<Rightarrow> True | Delete _ \<Rightarrow> True | Update _ _ \<Rightarrow> True
                           | Reorder _ _ \<Rightarrow> True | _ \<Rightarrow> False)"

lemma editing_pushes: "editing a \<Longrightarrow> \<exists>nxt. reducer h a = pushHistory h nxt"
  by (cases a) (auto simp: editing_def)

definition undo_of :: "canvas_history \<Rightarrow> canvas_history option" where
  "undo_of h = (if canUndo h then Some (reducer h Undo) else None)"

definition redo_of :: "canvas_history \<Rightarrow> canvas_history option" where
  "redo_of h = (if canRedo h then Some (reducer h Redo) else None)"

interpretation canvas: undo_history "\<lambda>_. True" undo_of redo_of "\<lambda>a h. reducer h a"
proof unfold_locales
  fix h h' :: canvas_history
  show "redo_of h' = Some h" if "undo_of h = Some h'"
    using that by (cases h; cases "past h" rule: rev_cases)
      (auto simp: undo_of_def redo_of_def canUndo_def canRedo_def split: if_splits)
  show "undo_of h' = Some h" if "redo_of h = Some h'"
    using that by (cases h; cases "cfuture h")
      (auto simp: undo_of_def redo_of_def canUndo_def canRedo_def split: if_splits)
qed simp_all

section \<open>Properties\<close>

text \<open>C23: every edit of the canvas can be undone: \<open>UNDO\<close> right after an edit gives back the steps and
  the history before it, and \<open>REDO\<close> after any number of undos gives back the state they started
  from.\<close>

theorem canvas_undo_redo:
  assumes "editing a"
  shows "present (reducer (reducer h a) Undo) = present h \<and> past (reducer (reducer h a) Undo) = past h \<and>
         cfuture (reducer h a) = [] \<and>
         (repeat_opt undo_of n (reducer h a) = Some h' \<longrightarrow>
          repeat_opt redo_of n h' = Some (reducer h a))"
proof -
  obtain nxt where "reducer h a = pushHistory h nxt" using editing_pushes [OF assms] by blast
  then show ?thesis
    by (simp add: pushHistory_def) (metis canvas.redo_all_undone)
qed

definition demo_step :: "string \<Rightarrow> local_step" where
  "demo_step i = \<lparr> ls_id = i, ls_name = ''Analyze Data'', ls_type = AnalyzeData, ls_order = 1,
     ls_config = JObj [], ls_description = None, ls_created_at = None, ls_isTemp = True,
     ls_isDirty = False \<rparr>"

theorem canvas_undo_redo_witness:
  "present (reducer (reducer \<lparr> past = [], present = [demo_step ''s1''], cfuture = [] \<rparr> (Delete ''s1'')) Undo) =
   [demo_step ''s1'']"
  using canvas_undo_redo [of "Delete ''s1''" "\<lparr> past = [], present = [demo_step ''s1''], cfuture = [] \<rparr>"]
  by (simp add: editing_def)

inductive canvas_reaches :: "canvas_history \<Rightarrow> canvas_history \<Rightarrow> bool" for h0 where
  canvas_start: "canvas_reaches h0 h0"
| canvas_act: "canvas_reaches h0 h \<Longrightarrow> (\<And>steps. a \<noteq> Init steps) \<Longrightarrow> canvas_reaches h0 (reducer h a)"

lemma numbered_step:
  assumes "numbered (present h)" "list_all numbered (past h)" "list_all numbered (cfuture h)"
    and "\<And>steps. a \<noteq> Init steps"
  shows "numbered (present (reducer h a)) \<and> list_all numbered (past (reducer h a)) \<and>
         list_all numbered (cfuture (reducer h a))"
proof (cases a)
  case Undo
  then show ?thesis
    using assms by (cases "past h" rule: rev_cases) simp_all
next
  case Redo
  then show ?thesis
    using assms by (cases "cfuture h") simp_all
qed (use assms in \<open>simp_all add: pushHistory_def\<close>)

text \<open>From steps numbered 1, 2, 3, ... every sequence of edits, undos and redos leaves the steps
  numbered by their positions.\<close>

lemma canvas_orders_are_positions:
  assumes "canvas_reaches h0 h" and "past h0 = []" and "cfuture h0 = []"
    and "map ls_order (present h0) = map (\<lambda>i. int i + 1) [0..<length (present h0)]"
  shows "map ls_order (present h) = map (\<lambda>i. int i + 1) [0..<length (present h)]"
proof -
  from assms(1) have "numbered (present h) \<and> list_all numbered (past h) \<and> list_all numbered (cfuture h)"
  proof (induction rule: canvas_reaches.induct)
    case canvas_start
    with assms(2-4) show ?case by (simp add: numbered_def)
  next
    case (canvas_act h a)
    then show ?case by (intro numbered_step) simp_all
  qed
  then show ?thesis by (simp add: numbered_def)
qed

lemma canvas_orders_are_positions_witness:
  "map ls_order (present (reducer \<lparr> past = [], present = [demo_step ''s1''], cfuture = [] \<rparr>
     (Add (demo_step ''s2'') (- 1)))) = [1, 2]"
proof -
  let ?h = "\<lparr> past = [], present = [demo_step ''s1''], cfuture = [] \<rparr>"
  have "canvas_reaches ?h (reducer ?h (Add (demo_step ''s2'') (- 1)))"
    by (rule canvas_act [OF canvas_start]) simp
  from canvas_orders_are_positions [OF this] show ?thesis
    by (simp add: demo_step_def pushHistory_def insert_step_def numeral_2_eq_2)
qed

end
