(* ===== verification/Canvas_Save.thy ===== *)
theory Canvas_Save imports Canvas_State begin

text \<open>
  Saving the agent workflow canvas (\<open>save\<close> of \<open>useCanvasState.ts\<close>): deletions, updates, creations, a
  fresh read, a reorder.  The agent API is a parameter (\<open>agent_api\<close>); the locale \<open>step_backend\<close> says
  what the client relies on, and is interpreted on a model of the views that serve these requests
  (\<open>src/backend/agent/views.py\<close>: \<open>WorkflowStepView\<close>, \<open>WorkflowStepDetailView\<close>, \<open>StepReorderView\<close>) for a
  user who may edit the workflow.
\<close>

section \<open>The API\<close>

record http_error =
  http_status :: "int option"
  http_detail :: "string option"

record step_create =
  sc_name :: string
  sc_type :: step_type
  sc_config :: js_val

record step_update =
  su_name :: string
  su_type :: step_type
  su_config :: js_val
  su_description :: "string option"

record 'w agent_api =
  api_delete :: "string \<Rightarrow> 'w \<Rightarrow> (http_error + unit) \<times> 'w"
  api_update :: "string \<Rightarrow> step_update \<Rightarrow> 'w \<Rightarrow> (http_error + agent_step) \<times> 'w"
  api_create :: "step_create \<Rightarrow> 'w \<Rightarrow> (http_error + agent_step) \<times> 'w"
  api_get :: "'w \<Rightarrow> (http_error + agent_step list option) \<times> 'w"
  api_reorder :: "string list \<Rightarrow> 'w \<Rightarrow> (http_error + agent_step list) \<times> 'w"

section \<open>The requests of a save\<close>

text \<open>\<open>Promise.all\<close>: every request is made; the first rejection, in order, is the result.\<close>

fun run_all :: "('a \<Rightarrow> 'w \<Rightarrow> ('e + 'b) \<times> 'w) \<Rightarrow> 'a list \<Rightarrow> 'w \<Rightarrow> ('e + unit) \<times> 'w" where
  "run_all f [] w = (Inr (), w)"
| "run_all f (x # xs) w =
     (case f x w of
        (r, w1) \<Rightarrow>
          (case run_all f xs w1 of
             (rest, w2) \<Rightarrow> (case r of Inl e \<Rightarrow> Inl e | Inr _ \<Rightarrow> rest, w2)))"

definition delete_request :: "'w agent_api \<Rightarrow> string \<Rightarrow> 'w \<Rightarrow> (http_error + unit) \<times> 'w" where
  "delete_request api i w =
     (case api_delete api i w of
        (Inl e, w') \<Rightarrow> (if http_status e = Some 404 then Inr () else Inl e, w')
      | (Inr _, w') \<Rightarrow> (Inr (), w'))"

definition update_request :: "'w agent_api \<Rightarrow> local_step \<Rightarrow> 'w \<Rightarrow> (http_error + agent_step) \<times> 'w" where
  "update_request api s w =
     api_update api (ls_id s)
       \<lparr> su_name = ls_name s, su_type = ls_type s, su_config = ls_config s,
         su_description = ls_description s \<rparr> w"

definition create_body :: "local_step \<Rightarrow> step_create" where
  "create_body s = \<lparr> sc_name = ls_name s, sc_type = ls_type s, sc_config = ls_config s \<rparr>"

fun create_temps ::
  "'w agent_api \<Rightarrow> local_step list \<Rightarrow> string obj \<Rightarrow> 'w \<Rightarrow> (http_error + string obj) \<times> 'w" where
  "create_temps api [] idMap w = (Inr idMap, w)"
| "create_temps api (s # ss) idMap w =
     (if ls_isTemp s
      then (case api_create api (create_body s) w of
              (Inl e, w1) \<Rightarrow> (Inl e, w1)
            | (Inr created, w1) \<Rightarrow>
                create_temps api ss (obj_set (str_key (ls_id s)) (as_id created) idMap) w1)
      else create_temps api ss idMap w)"

definition temp_prefix :: "string \<Rightarrow> bool" where
  "temp_prefix s \<longleftrightarrow> take 5 s = ''temp-''"

definition final_order :: "local_step list \<Rightarrow> string obj \<Rightarrow> string list" where
  "final_order steps idMap = map (\<lambda>s. nullish (obj_get idMap (str_key (ls_id s))) (ls_id s)) steps"

definition canvas_positions :: "string list \<Rightarrow> (string, int) jmap" where
  "canvas_positions ids =
     fold (\<lambda>kv. jmap_set (fst kv) (snd kv)) (map (\<lambda>(i, k). (k, int i)) (enumerate 0 ids)) []"

definition sorted_ids :: "string list \<Rightarrow> string list \<Rightarrow> string list" where
  "sorted_ids finalOrder backendIds =
     js_sort (\<lambda>a b. nullish (jmap_get (canvas_positions finalOrder) a) max_safe_integer
                  - nullish (jmap_get (canvas_positions finalOrder) b) max_safe_integer) backendIds"

definition reorder_request ::
  "'w agent_api \<Rightarrow> local_step list \<Rightarrow> string obj \<Rightarrow> 'w \<Rightarrow> (http_error + agent_step list) \<times> 'w" where
  "reorder_request api steps idMap w =
     (case api_get api w of
        (Inl e, w1) \<Rightarrow> (Inl e, w1)
      | (Inr fetched, w1) \<Rightarrow>
          (let fresh = nullish fetched []; backendIds = map as_id fresh
           in if length backendIds > 0
              then (case api_reorder api (sorted_ids (final_order steps idMap) backendIds) w1 of
                      (Inl e, w2) \<Rightarrow> (Inl e, w2)
                    | (Inr _, w2) \<Rightarrow> (Inr fresh, w2))
              else (Inr fresh, w1)))"

text \<open>All the requests of one save, with the steps and the saved ids its closure captured.\<close>

definition save_requests ::
  "'w agent_api \<Rightarrow> local_step list \<Rightarrow> string list \<Rightarrow> 'w \<Rightarrow> (http_error + agent_step list) \<times> 'w" where
  "save_requests api steps savedIds w =
     (let deletions = filter (\<lambda>i. \<not> temp_prefix i \<and> i \<notin> set (map ls_id steps)) savedIds
      in case run_all (delete_request api) deletions w of
           (Inl e, w1) \<Rightarrow> (Inl e, w1)
         | (Inr _, w1) \<Rightarrow>
             (case run_all (update_request api) (filter (\<lambda>s. \<not> ls_isTemp s \<and> ls_isDirty s) steps) w1 of
                (Inl e, w2) \<Rightarrow> (Inl e, w2)
              | (Inr _, w2) \<Rightarrow>
                  (case create_temps api steps [] w2 of
                     (Inl e, w3) \<Rightarrow> (Inl e, w3)
                   | (Inr idMap, w3) \<Rightarrow> reorder_request api steps idMap w3)))"

datatype toast = ToastSuccess string | ToastError string

record canvas_hook =
  ch_history :: canvas_history
  ch_savedIds :: "string list"
  ch_isSaving :: bool
  ch_toasts :: "toast list"

definition init_canvas_hook :: "agent_step list \<Rightarrow> canvas_hook" where
  "init_canvas_hook initialSteps =
     \<lparr> ch_history = \<lparr> past = [], present = map apiToLocal initialSteps, cfuture = [] \<rparr>,
       ch_savedIds = set_dedup (map as_id initialSteps), ch_isSaving = False, ch_toasts = [] \<rparr>"

definition finish_save :: "http_error + agent_step list \<Rightarrow> canvas_hook \<Rightarrow> canvas_hook" where
  "finish_save outcome c =
     (case outcome of
        Inr fresh \<Rightarrow>
          c\<lparr> ch_savedIds := set_dedup (map as_id fresh), ch_history := reducer (ch_history c) (Init fresh),
             ch_toasts := ch_toasts c @ [ToastSuccess ''Workflow saved''], ch_isSaving := False \<rparr>
      | Inl e \<Rightarrow>
          c\<lparr> ch_toasts := ch_toasts c @ [ToastError (nullish (http_detail e) ''Failed to save workflow'')],
             ch_isSaving := False \<rparr>)"

definition saveCanvas :: "'w agent_api \<Rightarrow> canvas_hook \<Rightarrow> 'w \<Rightarrow> canvas_hook \<times> 'w" where
  "saveCanvas api c w =
     (case save_requests api (present (ch_history c)) (ch_savedIds c) w of
        (outcome, w') \<Rightarrow> (finish_save outcome (c\<lparr> ch_isSaving := True \<rparr>), w'))"

section \<open>The order that is sent\<close>

lemma map_of_enumerate:
  "distinct ids \<Longrightarrow> i < length ids \<Longrightarrow>
   map_of (map (\<lambda>(i, k). (k, int i)) (enumerate m ids)) (ids ! i) = Some (int (m + i))"
proof (induction ids arbitrary: m i)
  case (Cons x ids)
  show ?case
  proof (cases i)
    case (Suc j)
    with Cons.prems have "ids ! j \<noteq> x" by auto
    with Cons.IH [of j "Suc m"] Cons.prems Suc show ?thesis by simp
  qed simp
qed simp

lemma map_of_rev_eq: "distinct (map fst kvs) \<Longrightarrow> map_of (rev kvs) = map_of kvs"
  by (subst map_of_inject_set) (simp_all flip: rev_map)

lemma canvas_position:
  assumes "distinct ids" "i < length ids"
  shows "jmap_get (canvas_positions ids) (ids ! i) = Some (int i)"
proof -
  let ?kvs = "map (\<lambda>(i, k). (k, int i)) (enumerate 0 ids)"
  have "map fst ?kvs = ids" by (simp add: comp_def case_prod_unfold)
  with assms(1) have "map_of (rev ?kvs) = map_of ?kvs"
    by (intro map_of_rev_eq) simp
  with map_of_enumerate [OF assms, of 0] show ?thesis
    by (simp add: canvas_positions_def md.get_fold_put)
qed

lemma sorted_ids_eq:
  assumes "distinct xs" "mset ys = mset xs"
  shows "sorted_ids xs ys = xs"
proof -
  let ?pos = "\<lambda>a. nullish (jmap_get (canvas_positions xs) a) max_safe_integer"
  have pos: "?pos (xs ! i) = int i" if "i < length xs" for i
    using canvas_position [OF assms(1) that] by simp
  have sorted: "sorted (map ?pos xs)"
    by (simp add: sorted_iff_nth_mono pos)
  have "inj_on ?pos (set xs)"
  proof (rule inj_onI)
    fix a b
    assume a: "a \<in> set xs" and b: "b \<in> set xs" and eq: "?pos a = ?pos b"
    obtain i where i: "i < length xs" "a = xs ! i" using a unfolding in_set_conv_nth by blast
    obtain j where j: "j < length xs" "b = xs ! j" using b unfolding in_set_conv_nth by blast
    have "int i = int j" using eq unfolding i(2) j(2) pos [OF i(1)] pos [OF j(1)] .
    then show "a = b" by (simp add: i(2) j(2))
  qed
  then have "inj_on ?pos (set ys)" using mset_eq_setD [OF assms(2)] by simp
  then have "sort_key ?pos ys = xs" using assms(2) sorted sort_key_inj_key_eq by blast
  then show ?thesis by (simp add: sorted_ids_def js_sort_diff)
qed

section \<open>What the client relies on\<close>

text \<open>
  The canvas and the backend agree at the start: the saved ids are the backend's, the steps on the
  canvas have different ids, those that are not temporary exist on the backend, and temporary ids
  are marked as such.
\<close>

definition in_step ::
  "('w \<Rightarrow> bool) \<Rightarrow> ('w \<Rightarrow> agent_step list) \<Rightarrow> local_step list \<Rightarrow> string list \<Rightarrow> 'w \<Rightarrow> bool" where
  "in_step valid steps_of steps savedIds w \<longleftrightarrow>
     valid w \<and> distinct (map ls_id steps) \<and> set savedIds = as_id ` set (steps_of w) \<and>
     list_all (\<lambda>i. \<not> temp_prefix i) savedIds \<and>
     list_all (\<lambda>s. if ls_isTemp s then temp_prefix (ls_id s) else ls_id s \<in> set savedIds) steps"

locale step_backend =
  fixes api :: "'w agent_api"
    and steps_of :: "'w \<Rightarrow> agent_step list"
    and valid :: "'w \<Rightarrow> bool"
  assumes ids_distinct: "valid w \<Longrightarrow> distinct (map as_id (steps_of w))"
    and get_law: "valid w \<Longrightarrow> api_get api w = (Inr (Some (steps_of w)), w)"
    and delete_law: "valid w \<Longrightarrow>
      \<exists>r w'. api_delete api i w = (r, w') \<and> valid w' \<and>
        steps_of w' = filter (\<lambda>st. as_id st \<noteq> i) (steps_of w) \<and>
        (\<forall>e. r = Inl e \<longrightarrow> http_status e = Some 404)"
    and update_law: "valid w \<Longrightarrow> i \<in> as_id ` set (steps_of w) \<Longrightarrow>
      \<exists>st w'. api_update api i u w = (Inr st, w') \<and> valid w' \<and>
        map as_id (steps_of w') = map as_id (steps_of w)"
    and create_law: "valid w \<Longrightarrow>
      \<exists>st w'. api_create api b w = (Inr st, w') \<and> valid w' \<and> steps_of w' = steps_of w @ [st]"
    and reorder_law: "valid w \<Longrightarrow> mset ids = mset (map as_id (steps_of w)) \<Longrightarrow>
      \<exists>sts w'. api_reorder api ids w = (Inr sts, w') \<and> valid w' \<and> map as_id (steps_of w') = ids"
begin

lemma run_deletes:
  "valid w \<Longrightarrow>
   \<exists>w'. run_all (delete_request api) ds w = (Inr (), w') \<and> valid w' \<and>
     steps_of w' = filter (\<lambda>st. as_id st \<notin> set ds) (steps_of w)"
proof (induction ds arbitrary: w)
  case (Cons i ds)
  obtain r w1 where w1: "api_delete api i w = (r, w1)" "valid w1"
      "steps_of w1 = filter (\<lambda>st. as_id st \<noteq> i) (steps_of w)" "\<forall>e. r = Inl e \<longrightarrow> http_status e = Some 404"
    using delete_law [OF Cons.prems, of i] by blast
  have first: "delete_request api i w = (Inr (), w1)"
    using w1(4) by (cases r) (simp_all add: delete_request_def w1(1))
  from Cons.IH [OF w1(2)] first show ?case
    by (auto simp: w1(3) conj_commute)
qed simp

lemma run_updates:
  "valid w \<Longrightarrow> \<forall>s \<in> set ss. ls_id s \<in> set (map as_id (steps_of w)) \<Longrightarrow>
   \<exists>w'. run_all (update_request api) ss w = (Inr (), w') \<and> valid w' \<and>
     map as_id (steps_of w') = map as_id (steps_of w)"
proof (induction ss arbitrary: w)
  case (Cons s ss)
  have mem: "ls_id s \<in> as_id ` set (steps_of w)" using Cons.prems(2) by simp
  obtain st w1 where w1: "update_request api s w = (Inr st, w1)" "valid w1"
      "map as_id (steps_of w1) = map as_id (steps_of w)"
    using update_law [OF Cons.prems(1) mem] unfolding update_request_def by blast
  then have "\<forall>s \<in> set ss. ls_id s \<in> set (map as_id (steps_of w1))" using Cons.prems(2) by simp
  from Cons.IH [OF w1(2) this] w1 show ?case by auto
qed simp

lemma run_creates:
  "valid w \<Longrightarrow> distinct (map ls_id ss) \<Longrightarrow>
   \<exists>m' w'. create_temps api ss m w = (Inr m', w') \<and> valid w' \<and>
     map as_id (steps_of w') =
       map as_id (steps_of w) @ map (\<lambda>s. the (obj_get m' (str_key (ls_id s)))) (filter ls_isTemp ss) \<and>
     (\<forall>s \<in> set ss. ls_isTemp s \<longrightarrow> obj_get m' (str_key (ls_id s)) \<noteq> None) \<and>
     (\<forall>k. k \<notin> (\<lambda>s. str_key (ls_id s)) ` set (filter ls_isTemp ss) \<longrightarrow> obj_get m' k = obj_get m k)"
proof (induction ss arbitrary: m w)
  case (Cons s ss)
  show ?case
  proof (cases "ls_isTemp s")
    case False
    from Cons.IH [of w m] Cons.prems False show ?thesis by auto
  next
    case True
    obtain st w1 where w1: "api_create api (create_body s) w = (Inr st, w1)" "valid w1"
        "steps_of w1 = steps_of w @ [st]"
      using create_law [OF Cons.prems(1)] by blast
    let ?m = "obj_set (str_key (ls_id s)) (as_id st) m"
    obtain m' w' where m': "create_temps api ss ?m w1 = (Inr m', w')" "valid w'"
      "map as_id (steps_of w') = map as_id (steps_of w1) @
         map (\<lambda>s. the (obj_get m' (str_key (ls_id s)))) (filter ls_isTemp ss)"
      "\<forall>s \<in> set ss. ls_isTemp s \<longrightarrow> obj_get m' (str_key (ls_id s)) \<noteq> None"
      "\<forall>k. k \<notin> (\<lambda>s. str_key (ls_id s)) ` set (filter ls_isTemp ss) \<longrightarrow> obj_get m' k = obj_get ?m k"
      using Cons.IH [OF w1(2), of ?m] Cons.prems(2) by auto
    have "str_key (ls_id s) \<notin> (\<lambda>s. str_key (ls_id s)) ` set (filter ls_isTemp ss)"
      using Cons.prems(2) by (auto simp: str_key_inject image_iff)
    then have own: "obj_get m' (str_key (ls_id s)) = Some (as_id st)" using m'(5) by simp
    show ?thesis
      using True w1 m' own by auto
  qed
qed simp

lemma save_works:
  assumes "in_step valid steps_of steps savedIds w"
  shows "\<exists>g fresh w'. save_requests api steps savedIds w = (Inr fresh, w') \<and> valid w' \<and>
    (\<forall>s \<in> set steps. \<not> ls_isTemp s \<longrightarrow> g s = ls_id s) \<and>
    map as_id fresh = filter (\<lambda>i. i \<in> ls_id ` set steps) (map as_id (steps_of w))
                        @ map g (filter ls_isTemp steps) \<and>
    map as_id (steps_of w') = map g steps"
proof -
  let ?I = "map as_id (steps_of w)"
  let ?del = "filter (\<lambda>i. \<not> temp_prefix i \<and> i \<notin> set (map ls_id steps)) savedIds"
  let ?kept = "filter (\<lambda>i. i \<in> ls_id ` set steps) ?I"
  have w: "valid w" and d: "distinct (map ls_id steps)"
    and saved: "set savedIds = set ?I" and no_temp: "\<And>i. i \<in> set ?I \<Longrightarrow> \<not> temp_prefix i"
    and temps: "\<And>s. s \<in> set steps \<Longrightarrow> ls_isTemp s \<Longrightarrow> temp_prefix (ls_id s)"
    and reals: "\<And>s. s \<in> set steps \<Longrightarrow> \<not> ls_isTemp s \<Longrightarrow> ls_id s \<in> set ?I"
    using assms unfolding in_step_def list_all_iff by (auto split: if_splits)
  obtain w1 where w1: "run_all (delete_request api) ?del w = (Inr (), w1)" "valid w1"
      "steps_of w1 = filter (\<lambda>st. as_id st \<notin> set ?del) (steps_of w)"
    using run_deletes [OF w] by blast
  have I1: "map as_id (steps_of w1) = ?kept"
    using saved no_temp unfolding w1(3) by (auto simp: filter_map comp_def intro!: arg_cong [of _ _ "map as_id"] filter_cong)
  have real_kept: "set ?kept = ls_id ` set (filter (\<lambda>s. \<not> ls_isTemp s) steps)"
  proof
    show "set ?kept \<subseteq> ls_id ` set (filter (\<lambda>s. \<not> ls_isTemp s) steps)"
    proof
      fix i
      assume "i \<in> set ?kept"
      then obtain s where s: "s \<in> set steps" "ls_id s = i" "i \<in> set ?I" by auto
      then have "\<not> ls_isTemp s" using temps no_temp by blast
      with s show "i \<in> ls_id ` set (filter (\<lambda>s. \<not> ls_isTemp s) steps)" by auto
    qed
  qed (use reals in auto)
  have "\<forall>s \<in> set (filter (\<lambda>s. \<not> ls_isTemp s \<and> ls_isDirty s) steps). ls_id s \<in> set (map as_id (steps_of w1))"
    unfolding I1 using reals by auto
  then obtain w2 where w2: "run_all (update_request api) (filter (\<lambda>s. \<not> ls_isTemp s \<and> ls_isDirty s) steps) w1 =
      (Inr (), w2)" "valid w2" "map as_id (steps_of w2) = ?kept"
    using run_updates [OF w1(2)] unfolding I1 by blast
  obtain m w3 where w3: "create_temps api steps [] w2 = (Inr m, w3)" "valid w3"
      "map as_id (steps_of w3) = ?kept @ map (\<lambda>s. the (obj_get m (str_key (ls_id s)))) (filter ls_isTemp steps)"
      "\<forall>s \<in> set steps. ls_isTemp s \<longrightarrow> obj_get m (str_key (ls_id s)) \<noteq> None"
      "\<forall>k. k \<notin> (\<lambda>s. str_key (ls_id s)) ` set (filter ls_isTemp steps) \<longrightarrow> obj_get m k = obj_get [] k"
    using run_creates [OF w2(2) d, of "[]"] w2(3) by auto
  define g where "g = (\<lambda>s :: local_step. nullish (obj_get m (str_key (ls_id s))) (ls_id s))"
  have g_real: "g s = ls_id s" if "s \<in> set steps" "\<not> ls_isTemp s" for s
  proof -
    have "str_key (ls_id s) \<notin> (\<lambda>s. str_key (ls_id s)) ` set (filter ls_isTemp steps)"
      using that d by (auto simp: str_key_inject distinct_map inj_on_def)
    then show ?thesis using w3(5) by (simp add: g_def)
  qed
  have I3: "map as_id (steps_of w3) = ?kept @ map g (filter ls_isTemp steps)"
    using w3(3,4) by (auto simp: g_def intro!: map_cong)
  have split: "mset (map g steps) =
      mset (map g (filter (\<lambda>s. \<not> ls_isTemp s) steps)) + mset (map g (filter ls_isTemp steps))"
    by (induction steps) auto
  have "map g (filter (\<lambda>s. \<not> ls_isTemp s) steps) = map ls_id (filter (\<lambda>s. \<not> ls_isTemp s) steps)"
    using g_real by auto
  moreover have "mset ?kept = mset (map ls_id (filter (\<lambda>s. \<not> ls_isTemp s) steps))"
    using real_kept d ids_distinct [OF w]
    by (intro set_eq_iff_mset_eq_distinct [THEN iffD1]) (auto simp: distinct_map_filter)
  ultimately have ms: "mset (map as_id (steps_of w3)) = mset (map g steps)"
    unfolding I3 split mset_append by (simp only:)
  then have dg: "distinct (map g steps)"
    using ids_distinct [OF w3(2)] mset_eq_imp_distinct_iff by blast
  have fo: "final_order steps m = map g steps" by (simp add: final_order_def g_def)
  have get: "api_get api w3 = (Inr (Some (steps_of w3)), w3)" by (rule get_law [OF w3(2)])
  have sort: "sorted_ids (final_order steps m) (map as_id (steps_of w3)) = map g steps"
    unfolding fo using dg ms by (rule sorted_ids_eq)
  obtain sts w4 where w4: "api_reorder api (map g steps) w3 = (Inr sts, w4)" "valid w4"
      "map as_id (steps_of w4) = map g steps"
    using reorder_law [OF w3(2), of "map g steps"] ms by auto
  have "\<exists>w'. reorder_request api steps m w3 = (Inr (steps_of w3), w') \<and> valid w' \<and>
      map as_id (steps_of w') = map g steps"
  proof (cases "steps_of w3 = []")
    case True
    with ms have "map g steps = []" by simp
    with True w3(2) show ?thesis by (simp add: reorder_request_def get)
  next
    case False
    with w4 show ?thesis by (simp add: reorder_request_def get sort Let_def)
  qed
  then obtain w' where "reorder_request api steps m w3 = (Inr (steps_of w3), w')" "valid w'"
      "map as_id (steps_of w') = map g steps" by blast
  then have "save_requests api steps savedIds w = (Inr (steps_of w3), w')" "valid w'"
      "map as_id (steps_of w') = map g steps"
    using w1(1) w2(1) w3(1) by (simp_all add: save_requests_def)
  with I3 g_real show ?thesis by blast
qed

end

section \<open>The backend\<close>

text \<open>
  The active steps of one workflow, as the views handle them: reading sorts by \<open>order\<close>, creating
  appends behind the highest order, deleting a step that is not there answers 404, reordering wants
  exactly ids of active steps and numbers them by their positions.  Ids are drawn from a supply.
\<close>

record backend =
  be_steps :: "agent_step list"
  be_next :: nat

definition be_id :: "nat \<Rightarrow> string" where
  "be_id n = ''step-'' @ nat_dec n"

definition be_sorted :: "backend \<Rightarrow> agent_step list" where
  "be_sorted w = sort_key as_order (be_steps w)"

definition be_valid :: "backend \<Rightarrow> bool" where
  "be_valid w \<longleftrightarrow> distinct (map as_id (be_steps w)) \<and>
     list_all (\<lambda>st. \<exists>n < be_next w. as_id st = be_id n) (be_steps w)"

definition be_get :: "backend \<Rightarrow> (http_error + agent_step list option) \<times> backend" where
  "be_get w = (Inr (Some (be_sorted w)), w)"

definition not_found :: http_error where
  "not_found = \<lparr> http_status = Some 404, http_detail = Some ''Step not found.'' \<rparr>"

definition be_delete :: "string \<Rightarrow> backend \<Rightarrow> (http_error + unit) \<times> backend" where
  "be_delete i w =
     (if i \<in> as_id ` set (be_steps w)
      then (Inr (), w\<lparr> be_steps := filter (\<lambda>st. as_id st \<noteq> i) (be_steps w) \<rparr>)
      else (Inl not_found, w))"

definition be_update :: "string \<Rightarrow> step_update \<Rightarrow> backend \<Rightarrow> (http_error + agent_step) \<times> backend" where
  "be_update i u w =
     (case List.find (\<lambda>st. as_id st = i) (be_steps w) of
        None \<Rightarrow> (Inl not_found, w)
      | Some st \<Rightarrow>
          (let f = (\<lambda>st. st\<lparr> as_name := su_name u, as_type := su_type u, as_config := su_config u,
                          as_description := orelse (su_description u) (as_description st) \<rparr>)
           in (Inr (f st), w\<lparr> be_steps := map_where (\<lambda>st. as_id st = i) f (be_steps w) \<rparr>)))"

definition be_create :: "step_create \<Rightarrow> backend \<Rightarrow> (http_error + agent_step) \<times> backend" where
  "be_create b w =
     (let max_order = foldr max (map as_order (be_steps w)) 0;
          st = \<lparr> as_id = be_id (be_next w), as_name = sc_name b, as_type = sc_type b,
                 as_order = max_order + 1, as_config = sc_config b, as_description = Some [],
                 as_created_at = None \<rparr>
      in (Inr st, \<lparr> be_steps = be_steps w @ [st], be_next = be_next w + 1 \<rparr>))"

definition invalid_ids :: http_error where
  "invalid_ids = \<lparr> http_status = Some 400, http_detail = Some ''Some step IDs are invalid.'' \<rparr>"

text \<open>\<open>steps.count() != len(step_ids)\<close>, then every listed step gets its position, counted from 1.\<close>

definition place_step :: "string list \<Rightarrow> agent_step \<Rightarrow> agent_step" where
  "place_step ids st =
     (case find_index (\<lambda>i. i = as_id st) ids of
        None \<Rightarrow> st | Some k \<Rightarrow> st\<lparr> as_order := int k + 1 \<rparr>)"

definition be_reorder :: "string list \<Rightarrow> backend \<Rightarrow> (http_error + agent_step list) \<times> backend" where
  "be_reorder ids w =
     (if length (filter (\<lambda>st. as_id st \<in> set ids) (be_steps w)) \<noteq> length ids
      then (Inl invalid_ids, w)
      else (let w' = w\<lparr> be_steps := map (place_step ids) (be_steps w) \<rparr>
            in (Inr (be_sorted w'), w')))"

definition be_api :: "backend agent_api" where
  "be_api = \<lparr> api_delete = be_delete, api_update = be_update, api_create = be_create,
              api_get = be_get, api_reorder = be_reorder \<rparr>"

lemma be_id_inject [simp]: "be_id m = be_id n \<longleftrightarrow> m = n"
  by (simp add: be_id_def)

lemma mset_be_sorted [simp]: "mset (be_sorted w) = mset (be_steps w)"
  by (simp add: be_sorted_def)

lemma set_be_sorted [simp]: "set (be_sorted w) = set (be_steps w)"
  by (simp add: be_sorted_def)

lemma sort_key_map: "(\<And>x. k (f x) = k x) \<Longrightarrow> sort_key k (map f xs) = map f (sort_key k xs)"
proof -
  assume k: "\<And>x. k (f x) = k x"
  have "insort_key k (f x) (map f ys) = map f (insort_key k x ys)" for x ys
    by (induction ys) (simp_all add: k)
  then show ?thesis by (induction xs) simp_all
qed

lemma sort_key_snoc_max:
  assumes "\<forall>y \<in> set xs. k y \<le> k x"
  shows "sort_key k (xs @ [x]) = sort_key k xs @ [x]"
  using assms
proof (induction xs)
  case (Cons y xs)
  have "insort_key k y (zs @ [x]) = insort_key k y zs @ [x]" for zs
    using Cons.prems by (induction zs) auto
  with Cons show ?case by simp
qed simp

lemma foldr_max_ge: "(x :: int) \<in> set xs \<Longrightarrow> x \<le> foldr max xs 0"
  by (induction xs) auto

definition id_position :: "string list \<Rightarrow> string \<Rightarrow> int" where
  "id_position ids i = (case find_index (\<lambda>j. j = i) ids of None \<Rightarrow> 0 | Some k \<Rightarrow> int k + 1)"

lemma id_position_nth:
  assumes "distinct ids" "k < length ids"
  shows "id_position ids (ids ! k) = int k + 1"
proof (cases "find_index (\<lambda>j. j = ids ! k) ids")
  case None
  with assms(2) show ?thesis by (auto simp: find_index_None)
next
  case (Some j)
  then have "j < length ids" "ids ! j = ids ! k" using find_index_Some [OF Some] by simp_all
  then have "j = k" using assms nth_eq_iff_index_eq by blast
  with Some show ?thesis by (simp add: id_position_def)
qed

lemma sort_by_position:
  assumes "distinct ids" "mset ys = mset ids" "sorted (map (id_position ids) ys)"
  shows "ys = ids"
proof -
  have "inj_on (id_position ids) (set ids)"
  proof (rule inj_onI)
    fix a b
    assume a: "a \<in> set ids" and b: "b \<in> set ids" and eq: "id_position ids a = id_position ids b"
    obtain i where i: "i < length ids" "a = ids ! i" using a unfolding in_set_conv_nth by blast
    obtain j where j: "j < length ids" "b = ids ! j" using b unfolding in_set_conv_nth by blast
    show "a = b" using eq i j id_position_nth [OF assms(1)] by simp
  qed
  then have "sort_key (id_position ids) ids = ys"
    using assms(2,3) sort_key_inj_key_eq by metis
  moreover have "sorted (map (id_position ids) ids)"
    by (simp add: sorted_iff_nth_mono id_position_nth [OF assms(1)])
  ultimately show ?thesis using sort_key_id_if_sorted by metis
qed

lemma be_reorder_ids:
  assumes "be_valid w" "mset ids = mset (map as_id (be_steps w))"
  shows "map as_id (be_sorted (w\<lparr> be_steps := map (place_step ids) (be_steps w) \<rparr>)) = ids"
proof (rule sort_by_position)
  let ?xs = "be_sorted (w\<lparr> be_steps := map (place_step ids) (be_steps w) \<rparr>)"
  have ids: "as_id (place_step ids st) = as_id st" for st
    by (simp add: place_step_def split: option.split)
  show "distinct ids"
    using assms by (metis be_valid_def mset_eq_imp_distinct_iff)
  show "mset (map as_id ?xs) = mset ids"
    by (simp add: assms(2) multiset.map_comp comp_def ids)
  have members: "set ids = as_id ` set (be_steps w)"
    using mset_eq_setD [OF assms(2)] by simp
  have order: "as_order st = id_position ids (as_id st)" if st: "st \<in> set ?xs" for st
  proof -
    obtain st0 where st0: "st0 \<in> set (be_steps w)" "st = place_step ids st0" using st by auto
    then have "find_index (\<lambda>i. i = as_id st0) ids \<noteq> None"
      using members by (auto simp: find_index_None)
    then show ?thesis by (auto simp: st0(2) place_step_def id_position_def ids)
  qed
  have "map as_order ?xs = map (id_position ids) (map as_id ?xs)"
    unfolding map_map by (rule map_cong) (simp_all add: order del: set_be_sorted)
  moreover have "sorted (map as_order ?xs)" by (simp add: be_sorted_def)
  ultimately show "sorted (map (id_position ids) (map as_id ?xs))" by (simp only:)
qed

lemma place_step_id [simp]: "as_id (place_step ids st) = as_id st"
  by (simp add: place_step_def split: option.split)

lemma be_valid_ids:
  "be_valid w \<longleftrightarrow> distinct (map as_id (be_steps w)) \<and>
     (\<forall>i \<in> set (map as_id (be_steps w)). \<exists>n < be_next w. i = be_id n)"
  by (simp add: be_valid_def list_all_iff)

interpretation server: step_backend be_api be_sorted be_valid
proof unfold_locales
  fix w :: backend
  assume w: "be_valid w"
  show "distinct (map as_id (be_sorted w))"
    using w mset_eq_imp_distinct_iff [of "map as_id (be_sorted w)" "map as_id (be_steps w)"]
    by (simp add: be_valid_def)
  show "api_get be_api w = (Inr (Some (be_sorted w)), w)"
    by (simp add: be_api_def be_get_def)
  show "\<exists>r w'. api_delete be_api i w = (r, w') \<and> be_valid w' \<and>
        be_sorted w' = filter (\<lambda>st. as_id st \<noteq> i) (be_sorted w) \<and>
        (\<forall>e. r = Inl e \<longrightarrow> http_status e = Some 404)" for i
  proof (cases "i \<in> as_id ` set (be_steps w)")
    case True
    then show ?thesis
      using w by (auto simp: be_api_def be_delete_def be_valid_def be_sorted_def filter_sort
          distinct_map_filter list_all_iff)
  next
    case False
    then have "filter (\<lambda>st. as_id st \<noteq> i) (be_sorted w) = be_sorted w"
      by (auto simp: filter_id_conv)
    with False show ?thesis
      using w by (simp add: be_api_def be_delete_def not_found_def)
  qed
  show "\<exists>st w'. api_update be_api i u w = (Inr st, w') \<and> be_valid w' \<and>
        map as_id (be_sorted w') = map as_id (be_sorted w)"
    if i: "i \<in> as_id ` set (be_sorted w)" for i u
  proof -
    define f where "f = (\<lambda>st :: agent_step. st\<lparr> as_name := su_name u, as_type := su_type u,
        as_config := su_config u, as_description := orelse (su_description u) (as_description st) \<rparr>)"
    let ?w = "w\<lparr> be_steps := map_where (\<lambda>st. as_id st = i) f (be_steps w) \<rparr>"
    obtain st where st: "List.find (\<lambda>st. as_id st = i) (be_steps w) = Some st"
      using i find_Some_iff_ex [of "\<lambda>st. as_id st = i" "be_steps w"] by auto
    have upd: "api_update be_api i u w = (Inr (f st), ?w)"
      by (simp add: be_api_def be_update_def st f_def Let_def)
    have same: "map as_id (be_steps ?w) = map as_id (be_steps w)"
      by (simp add: map_map_where f_def)
    have "be_sorted ?w = map_where (\<lambda>st. as_id st = i) f (be_sorted w)"
      unfolding be_sorted_def map_where_def by (simp add: f_def sort_key_map)
    then have "map as_id (be_sorted ?w) = map as_id (be_sorted w)"
      by (simp add: map_map_where f_def)
    moreover have "be_valid ?w" using w unfolding be_valid_ids same by simp
    ultimately show ?thesis using upd by blast
  qed
  show "\<exists>st w'. api_create be_api b w = (Inr st, w') \<and> be_valid w' \<and> be_sorted w' = be_sorted w @ [st]"
    for b
  proof -
    define st where "st = \<lparr> as_id = be_id (be_next w), as_name = sc_name b, as_type = sc_type b,
                 as_order = foldr max (map as_order (be_steps w)) 0 + 1, as_config = sc_config b,
                 as_description = Some [], as_created_at = None \<rparr>"
    define w' where "w' = \<lparr> be_steps = be_steps w @ [st], be_next = be_next w + 1 \<rparr>"
    have c: "api_create be_api b w = (Inr st, w')" "be_steps w' = be_steps w @ [st]"
        "be_next w' = be_next w + 1" "as_id st = be_id (be_next w)"
        "as_order st = foldr max (map as_order (be_steps w)) 0 + 1"
      by (simp_all add: be_api_def be_create_def Let_def st_def w'_def)
    have "\<forall>y \<in> set (be_steps w). as_order y \<le> as_order st"
      using foldr_max_ge [of _ "map as_order (be_steps w)"] by (fastforce simp: c(5))
    then have "be_sorted w' = be_sorted w @ [st]"
      by (simp add: be_sorted_def c(2) sort_key_snoc_max)
    moreover have "be_valid w'"
      using w by (fastforce simp: be_valid_ids c(2-4) less_Suc_eq)
    ultimately show ?thesis using c(1) by blast
  qed
  show "\<exists>sts w'. api_reorder be_api ids w = (Inr sts, w') \<and> be_valid w' \<and> map as_id (be_sorted w') = ids"
    if ids: "mset ids = mset (map as_id (be_sorted w))" for ids
  proof -
    have ms: "mset ids = mset (map as_id (be_steps w))" using ids by simp
    then have "filter (\<lambda>st. as_id st \<in> set ids) (be_steps w) = be_steps w"
      using mset_eq_setD [OF ms] by (auto simp: filter_id_conv)
    moreover have "length (be_steps w) = length ids" using ms by (metis length_map size_mset)
    moreover have "be_valid (w\<lparr> be_steps := map (place_step ids) (be_steps w) \<rparr>)"
      using w by (simp add: be_valid_ids comp_def)
    ultimately show ?thesis
      using be_reorder_ids [OF w ms] by (simp add: be_api_def be_reorder_def Let_def)
  qed
qed

section \<open>Properties\<close>


definition saved_step :: "nat \<Rightarrow> int \<Rightarrow> agent_step" where
  "saved_step n k = \<lparr> as_id = be_id n, as_name = ''Analyze Data'', as_type = AnalyzeData, as_order = k,
     as_config = JObj [], as_description = None, as_created_at = None \<rparr>"

definition two_steps :: backend where
  "two_steps = \<lparr> be_steps = [saved_step 0 1, saved_step 1 2], be_next = 2 \<rparr>"

definition insert_between :: canvas_hook where
  "insert_between =
     (let c = init_canvas_hook [saved_step 0 1, saved_step 1 2]
      in c\<lparr> ch_history := reducer (ch_history c) (Add (demo_step ''temp-1-abc'') 0) \<rparr>)"

lemma insert_between_present:
  "present (ch_history insert_between) =
   [apiToLocal (saved_step 0 1), (demo_step ''temp-1-abc'')\<lparr> ls_order := 2 \<rparr>,
    (apiToLocal (saved_step 1 2))\<lparr> ls_order := 3 \<rparr>]"
  by (simp add: insert_between_def init_canvas_hook_def Let_def pushHistory_def insert_step_def
      splice_index_def splice_insert_def renumber_def apiToLocal_def saved_step_def)

lemma be_id_0: "be_id 0 = ''step-0''" and be_id_1: "be_id (Suc 0) = ''step-1''"
  by code_simp+

lemma insert_between_in_step:
  "in_step be_valid be_sorted (present (ch_history insert_between)) (ch_savedIds insert_between) two_steps"
  unfolding in_step_def insert_between_present
  by (auto simp: two_steps_def be_valid_def saved_step_def apiToLocal_def demo_step_def be_id_0 be_id_1
      insert_between_def init_canvas_hook_def Let_def temp_prefix_def numeral_2_eq_2 less_Suc_eq)


lemma before_in_prefix:
  assumes "xs @ ys = us @ a # b # vs" and "distinct (xs @ ys)" and "b \<in> set xs"
  shows "a \<in> set xs"
proof -
  obtain i where i: "i < length xs" "xs ! i = b" using assms(3) unfolding in_set_conv_nth by blast
  have at_b: "(xs @ ys) ! Suc (length us) = b" and at_a: "(xs @ ys) ! length us = a"
    by (simp_all add: assms(1) nth_append)
  have "(xs @ ys) ! i = b" using i by (simp add: nth_append)
  moreover have "Suc (length us) < length (xs @ ys)" by (simp add: assms(1))
  moreover have "i < length (xs @ ys)" using i(1) by simp
  ultimately have "i = Suc (length us)" using assms(2) at_b nth_eq_iff_index_eq by metis
  then have "length us < length xs" using i(1) by simp
  then show ?thesis using at_a by (auto simp: nth_append)
qed

text \<open>A step that was inserted in front of an existing one does not stay there on the screen: the
  canvas is reloaded from the answer that was read before the reorder request, where new steps come
  last, so after a successful save the canvas and the backend disagree about the order, and the next
  save writes the canvas's order back.\<close>

lemma inserted_step_shows_out_of_place:
  assumes "in_step be_valid be_sorted (present (ch_history c)) (ch_savedIds c) w"
    and "present (ch_history c) = us @ s # t # vs" and "ls_isTemp s" and "\<not> ls_isTemp t"
  shows "map ls_id (present (ch_history (fst (saveCanvas be_api c w)))) \<noteq>
         map as_id (be_sorted (snd (saveCanvas be_api c w)))"
proof
  let ?steps = "present (ch_history c)"
  obtain g fresh w' where g: "save_requests be_api ?steps (ch_savedIds c) w = (Inr fresh, w')"
      "be_valid w'" "\<forall>s \<in> set ?steps. \<not> ls_isTemp s \<longrightarrow> g s = ls_id s"
      "map as_id fresh = filter (\<lambda>i. i \<in> ls_id ` set ?steps) (map as_id (be_sorted w))
                           @ map g (filter ls_isTemp ?steps)"
      "map as_id (be_sorted w') = map g ?steps"
    using server.save_works [OF assms(1)] by blast
  let ?old = "filter (\<lambda>i. i \<in> ls_id ` set ?steps) (map as_id (be_sorted w))"
  assume "map ls_id (present (ch_history (fst (saveCanvas be_api c w)))) =
         map as_id (be_sorted (snd (saveCanvas be_api c w)))"
  moreover have "map ls_id (present (ch_history (fst (saveCanvas be_api c w)))) = map as_id fresh"
    using g(1) by (simp add: saveCanvas_def finish_save_def apiToLocal_def)
  moreover have "snd (saveCanvas be_api c w) = w'" using g(1) by (simp add: saveCanvas_def)
  ultimately have "map as_id fresh = map g ?steps" using g(5) by (simp only:)
  then have eq: "?old @ map g (filter ls_isTemp ?steps) = map g us @ g s # g t # map g vs"
    unfolding g(4) by (simp add: assms(2))
  have dist: "distinct (map g ?steps)" using server.ids_distinct [OF g(2)] g(5) by simp
  then have d: "distinct (?old @ map g (filter ls_isTemp ?steps))"
    unfolding eq by (simp add: assms(2))
  have "ls_id t \<in> set (map as_id (be_sorted w))"
    using assms(1,2,4) by (auto simp: in_step_def)
  then have "g t \<in> set ?old" using g(3) assms(2,4) by (simp del: set_be_sorted)
  from before_in_prefix [OF eq d this] have "g s \<in> set ?old" .
  moreover have "g s \<in> set (map g (filter ls_isTemp ?steps))" using assms(2,3) by simp
  ultimately show False using d by (meson disjoint_iff distinct_append)
qed

lemma inserted_step_shows_out_of_place_witness:
  "map ls_id (present (ch_history (fst (saveCanvas be_api insert_between two_steps)))) \<noteq>
   map as_id (be_sorted (snd (saveCanvas be_api insert_between two_steps)))"
  by (rule inserted_step_shows_out_of_place [OF insert_between_in_step,
        of "[apiToLocal (saved_step 0 1)]" "(demo_step ''temp-1-abc'')\<lparr> ls_order := 2 \<rparr>"
           "(apiToLocal (saved_step 1 2))\<lparr> ls_order := 3 \<rparr>" "[]"])
     (simp_all add: insert_between_present demo_step_def apiToLocal_def)

end
