(* ===== verification/Sheet_A1.thy ===== *)
theory Sheet_A1 imports Js_Text begin

text \<open>
  Cell references of the spreadsheet: column labels and A1 notation
  (\<open>src/frontend/src/lib/spreadsheets/a1.ts\<close>), and the shifting of references when a formula is
  filled into other cells (\<open>src/frontend/src/lib/spreadsheet/formulaFill.ts\<close>).  Row and column
  numbers are integers, as they are below 2^53.
\<close>

section \<open>Column labels\<close>

datatype sheet_error = InvalidLabel string | InvalidIndex int

definition is_upper :: "char \<Rightarrow> bool" where
  "is_upper c \<longleftrightarrow> 65 \<le> code_of c \<and> code_of c \<le> 90"

fun label_value :: "int \<Rightarrow> string \<Rightarrow> int option" where
  "label_value result [] = Some result"
| "label_value result (c # cs) =
     (if \<not> is_upper c then None else label_value (result * 26 + (int (code_of c) - 64)) cs)"

definition colLabelToIndex :: "string \<Rightarrow> sheet_error + int" where
  "colLabelToIndex label =
     (case label_value 0 label of None \<Rightarrow> Inl (InvalidLabel label) | Some r \<Rightarrow> Inr (r - 1))"

fun label_loop :: "nat \<Rightarrow> string \<Rightarrow> string" where
  "label_loop current result =
     (if current = 0 then result
      else label_loop ((current - 1) div 26) (char_of (65 + (current - 1) mod 26) # result))"

declare label_loop.simps [simp del]

definition colIndexToLabel :: "int \<Rightarrow> sheet_error + string" where
  "colIndexToLabel index =
     (if index < 0 then Inl (InvalidIndex index) else Inr (label_loop (nat (index + 1)) []))"

definition columnIndexToLabel :: "int \<Rightarrow> string" where
  "columnIndexToLabel col =
     (let label = label_loop (nat col) [] in if label = [] then ''A'' else label)"

text \<open>\<open>toUpperCase\<close>: \<open>a\<close> to \<open>z\<close>, and the sharp s, which becomes two letters; the other characters
  are not turned into \<open>A\<close> to \<open>Z\<close>.\<close>

definition upcase :: "char \<Rightarrow> string" where
  "upcase c = (if 97 \<le> code_of c \<and> code_of c \<le> 122 then [char_of (code_of c - 32)]
               else if code_of c = 223 then ''SS'' else [c])"

definition columnLabelToIndex :: "string \<Rightarrow> int option" where
  "columnLabelToIndex label = label_value 0 (concat (map upcase label))"

section \<open>A1 notation\<close>

definition rowColToA1 :: "int \<Rightarrow> int \<Rightarrow> string option" where
  "rowColToA1 row col =
     (if row \<le> 0 \<or> col \<le> 0 then None else Some (columnIndexToLabel col @ int_dec row))"

definition is_letter :: "char \<Rightarrow> bool" where
  "is_letter c \<longleftrightarrow> is_upper c \<or> 97 \<le> code_of c \<and> code_of c \<le> 122"

definition match_a1 :: "string \<Rightarrow> (string \<times> string) option" where
  "match_a1 s =
     (let letters = takeWhile is_letter s; digits = dropWhile is_letter s
      in if letters \<noteq> [] \<and> all_digits digits then Some (letters, digits) else None)"

definition parseA1 :: "string \<Rightarrow> (int \<times> int) option" where
  "parseA1 value =
     (case match_a1 (js_trim value) of
        None \<Rightarrow> None
      | Some (letters, digits) \<Rightarrow>
          (case columnLabelToIndex letters of
             None \<Rightarrow> None
           | Some col \<Rightarrow>
               (let row = int (dec_val digits)
                in if col = 0 \<or> row \<le> 0 then None else Some (row, col))))"

section \<open>Shifting the references of a formula\<close>

definition ref_prefix :: "char \<Rightarrow> bool" where
  "ref_prefix c \<longleftrightarrow> \<not> is_upper c \<and> \<not> is_digit c \<and> c \<noteq> CHR ''$''"

text \<open>\<open>([A-Z]+)(\d+)\<close> at the front of a string, and the whole pattern, whose \<open>^\<close> only matches at the
  start of the formula.\<close>

definition match_cell :: "string \<Rightarrow> (string \<times> string \<times> string) option" where
  "match_cell s =
     (let letters = takeWhile is_upper s; s1 = dropWhile is_upper s;
          digits = takeWhile is_digit s1
      in if letters = [] \<or> digits = [] then None
         else Some (letters, digits, dropWhile is_digit s1))"

definition match_ref :: "bool \<Rightarrow> string \<Rightarrow> (string \<times> string \<times> string \<times> string) option" where
  "match_ref at_start s =
     (case (if at_start then match_cell s else None) of
        Some (l, d, rest) \<Rightarrow> Some ([], l, d, rest)
      | None \<Rightarrow>
          (case s of
             [] \<Rightarrow> None
           | c # t \<Rightarrow> if \<not> ref_prefix c then None
                      else (case match_cell t of
                              None \<Rightarrow> None | Some (l, d, rest) \<Rightarrow> Some ([c], l, d, rest))))"

lemma match_cell_shorter: "match_cell s = Some (l, d, rest) \<Longrightarrow> length rest < length s"
proof -
  assume m: "match_cell s = Some (l, d, rest)"
  then have "rest = dropWhile is_digit (dropWhile is_upper s)" "takeWhile is_upper s \<noteq> []"
    by (auto simp: match_cell_def Let_def split: if_splits)
  moreover have "length (dropWhile is_upper s) + length (takeWhile is_upper s) = length s"
    by (metis add.commute length_append takeWhile_dropWhile_id)
  ultimately show ?thesis
    using length_dropWhile_le [of is_digit "dropWhile is_upper s"] by (cases "takeWhile is_upper s") auto
qed

lemma match_ref_shorter: "match_ref b s = Some (p, l, d, rest) \<Longrightarrow> length rest < length s"
  using match_cell_shorter
  by (fastforce simp: match_ref_def split: option.splits list.splits if_splits)

function replace_refs ::
  "(string \<Rightarrow> string \<Rightarrow> string \<Rightarrow> string) \<Rightarrow> bool \<Rightarrow> string \<Rightarrow> string" where
  "replace_refs f at_start s =
     (case match_ref at_start s of
        Some (p, l, d, rest) \<Rightarrow> f p l d @ replace_refs f False rest
      | None \<Rightarrow> (case s of [] \<Rightarrow> [] | c # t \<Rightarrow> c # replace_refs f False t))"
  by pat_completeness auto
termination
  by (relation "measure (\<lambda>(f, b, s). length s)") (auto dest: match_ref_shorter)

declare replace_refs.simps [simp del]

definition shift_cell :: "int \<Rightarrow> int \<Rightarrow> string \<Rightarrow> string \<Rightarrow> string \<Rightarrow> string" where
  "shift_cell rowDelta colDelta prefix colLabel rowStr =
     (let matched = prefix @ colLabel @ rowStr; row = int (dec_val rowStr)
      in if row \<le> 0 then matched
         else (case colLabelToIndex colLabel of
                 Inl _ \<Rightarrow> matched
               | Inr colIndex \<Rightarrow>
                   if colIndex + colDelta < 0 \<or> row + rowDelta \<le> 0 then matched
                   else (case colIndexToLabel (colIndex + colDelta) of
                           Inl _ \<Rightarrow> matched
                         | Inr nextLabel \<Rightarrow> prefix @ nextLabel @ int_dec (row + rowDelta))))"

definition adjustFormulaReferences :: "string \<Rightarrow> int \<Rightarrow> int \<Rightarrow> string" where
  "adjustFormulaReferences formula rowDelta colDelta =
     (if take 1 formula \<noteq> ''='' then formula
      else if rowDelta = 0 \<and> colDelta = 0 then formula
      else replace_refs (shift_cell rowDelta colDelta) True formula)"

section \<open>Lemmas\<close>

lemma code_of_char_of: "n < 256 \<Longrightarrow> code_of (char_of n) = n"
  by (simp add: code_of_def)

lemma char_of_code [simp]: "char_of (code_of c) = c"
  by (simp add: code_of_def)

lemma letter_code: "k < 26 \<Longrightarrow> code_of (char_of (65 + k :: nat)) = 65 + k"
  by (simp add: code_of_char_of)

lemma letter_upper: "k < 26 \<Longrightarrow> is_upper (char_of (65 + k :: nat))"
  by (simp add: is_upper_def letter_code)

lemma label_loop_step:
  "0 < n \<Longrightarrow> label_loop n cs = label_loop ((n - 1) div 26) (char_of (65 + (n - 1) mod 26) # cs)"
  by (rule trans [OF label_loop.simps]) simp

lemma label_loop_append: "label_loop n cs = label_loop n [] @ cs"
proof (induction n arbitrary: cs rule: less_induct)
  case (less n)
  show ?case
  proof (cases "n = 0")
    case False
    let ?m = "(n - 1) div 26" and ?c = "char_of (65 + (n - 1) mod 26)"
    have "?m < n" using False by (simp add: div_less_dividend)
    then have IH: "label_loop ?m xs = label_loop ?m [] @ xs" for xs by (rule less.IH)
    have "label_loop n cs = label_loop ?m [] @ (?c # cs)"
      by (rule trans [OF label_loop_step IH]) (use False in simp)
    moreover have "label_loop n [] = label_loop ?m [] @ [?c]"
      by (rule trans [OF label_loop_step IH]) (use False in simp)
    ultimately show ?thesis by simp
  qed (simp add: label_loop.simps)
qed

lemma label_loop_0 [simp]: "label_loop 0 cs = cs"
  by (simp add: label_loop.simps)

lemma label_loop_pos:
  "0 < n \<Longrightarrow> label_loop n [] = label_loop ((n - 1) div 26) [] @ [char_of (65 + (n - 1) mod 26)]"
  by (rule trans [OF label_loop_step label_loop_append])

lemma label_loop_nonempty: "0 < n \<Longrightarrow> label_loop n [] \<noteq> []"
  by (simp add: label_loop_pos)

lemma label_value_append:
  "label_value r (xs @ ys) = (case label_value r xs of None \<Rightarrow> None | Some v \<Rightarrow> label_value v ys)"
  by (induction r xs rule: label_value.induct) auto

lemma label_value_loop: "label_value 0 (label_loop n []) = Some (int n)"
proof (induction n rule: less_induct)
  case (less n)
  show ?case
  proof (cases "n = 0")
    case False
    let ?m = "(n - 1) div 26" and ?k = "(n - 1) mod 26"
    have "label_value 0 (label_loop ?m []) = Some (int ?m)"
      using False by (intro less.IH) (simp add: div_less_dividend)
    moreover have "label_value (int ?m) [char_of (65 + ?k)] = Some (int ?m * 26 + int ?k + 1)"
      by (simp add: letter_upper letter_code)
    moreover have "int ?m * 26 + int ?k = int (n - 1)"
      by (metis div_mult_mod_eq of_nat_add of_nat_mult of_nat_numeral)
    moreover have "label_loop n [] = label_loop ?m [] @ [char_of (65 + ?k)]"
      using False by (intro label_loop_pos) simp
    ultimately show ?thesis
      using False by (simp only: label_value_append option.case) simp
  qed simp
qed

lemma label_loop_upper: "c \<in> set (label_loop n []) \<Longrightarrow> is_upper c"
proof (induction n rule: less_induct)
  case (less n)
  show ?case
  proof (cases "n = 0")
    case False
    then have "(n - 1) div 26 < n" by (simp add: div_less_dividend)
    with less False show ?thesis by (auto simp: label_loop_pos letter_upper)
  qed (use less.prems in simp)
qed

lemma label_value_upper: "label_value r cs = Some v \<Longrightarrow> c \<in> set cs \<Longrightarrow> is_upper c"
  by (induction r cs rule: label_value.induct) (auto split: if_splits)

lemma label_value_ge: "0 \<le> r \<Longrightarrow> label_value r cs = Some v \<Longrightarrow> r \<le> v"
proof (induction r cs rule: label_value.induct)
  case (2 r c cs)
  then have "0 \<le> r * 26 + (int (code_of c) - 64)" and up: "is_upper c"
    by (auto simp: is_upper_def split: if_splits)
  with 2 have "r * 26 + (int (code_of c) - 64) \<le> v" by simp
  with 2(2) up show ?case by (auto simp: is_upper_def)
qed simp

lemma loop_label_value: "label_value 0 cs = Some v \<Longrightarrow> label_loop (nat v) [] = cs"
proof (induction cs arbitrary: v rule: rev_induct)
  case (snoc c cs)
  then obtain w where w: "label_value 0 cs = Some w" and c: "is_upper c"
      and v: "v = w * 26 + (int (code_of c) - 64)"
    by (auto simp: label_value_append split: option.splits if_splits)
  have w0: "0 \<le> w" using label_value_ge [OF _ w] by simp
  define d where "d = code_of c - 65"
  have d: "d < 26" "code_of c = d + 65" using c by (auto simp: is_upper_def d_def)
  then have n: "nat v = Suc (nat w * 26 + d)" using w0 by (simp add: v nat_add_distrib nat_mult_distrib)
  have "label_loop (nat v) [] = label_loop (nat w) [] @ [char_of (65 + d)]"
    using d(1) by (simp add: n label_loop_pos)
  moreover have "char_of (65 + d) = c" using d(2) by (metis add.commute char_of_code)
  ultimately show ?case using snoc.IH [OF w] by simp
qed simp

lemma upper_facts: "is_upper c \<Longrightarrow> is_letter c \<and> \<not> is_digit c \<and> \<not> is_space c \<and> upcase c = [c]"
  by (auto simp: is_upper_def is_letter_def is_digit_def is_space_def upcase_def)

lemma upcase_upper: "list_all is_upper s \<Longrightarrow> concat (map upcase s) = s"
  by (induction s) (auto simp: upper_facts)

lemma digit_not_letter: "is_digit c \<Longrightarrow> \<not> is_letter c \<and> \<not> is_upper c"
  by (auto simp: is_upper_def is_letter_def is_digit_def)

lemma takeWhile_split:
  "list_all P xs \<Longrightarrow> ys = [] \<or> \<not> P (hd ys) \<Longrightarrow> takeWhile P (xs @ ys) = xs"
  "list_all P xs \<Longrightarrow> ys = [] \<or> \<not> P (hd ys) \<Longrightarrow> dropWhile P (xs @ ys) = ys"
  by (induction xs) (cases ys; auto)+

lemma match_a1_split:
  assumes "list_all is_letter l" and "l \<noteq> []" and "all_digits d"
  shows "match_a1 (l @ d) = Some (l, d)"
proof -
  have "d = [] \<or> \<not> is_letter (hd d)"
    using assms(3) by (cases d) (auto simp: all_digits_def digit_not_letter)
  then show ?thesis using assms by (simp add: match_a1_def takeWhile_split)
qed

lemma match_cell_split:
  assumes "list_all is_upper l" and "l \<noteq> []" and "all_digits d" and "t = [] \<or> ref_prefix (hd t)"
  shows "match_cell (l @ d @ t) = Some (l, d, t)"
proof -
  have "\<not> is_upper (hd (d @ t))" "d \<noteq> []" "list_all is_digit d"
    using assms(3) by (cases d; auto simp: all_digits_def digit_not_letter)+
  moreover have "t = [] \<or> \<not> is_digit (hd t)" using assms(4) by (auto simp: ref_prefix_def)
  ultimately show ?thesis
    using assms(1,2) by (simp add: match_cell_def takeWhile_split)
qed

lemma match_cell_None_append:
  assumes "match_cell s = None" and "t = [] \<or> ref_prefix (hd t)"
  shows "match_cell (s @ t) = None"
proof -
  have t: "takeWhile is_upper t = []" "dropWhile is_upper t = t" "takeWhile is_digit t = []"
    using assms(2) by (cases t; auto simp: ref_prefix_def)+
  show ?thesis
  proof (cases "\<forall>c \<in> set s. is_upper c")
    case True
    then show ?thesis by (simp add: match_cell_def takeWhile_append2 dropWhile_append2 t)
  next
    case False
    then have "takeWhile is_upper (s @ t) = takeWhile is_upper s"
      "dropWhile is_upper (s @ t) = dropWhile is_upper s @ t" and ne: "dropWhile is_upper s \<noteq> []"
      by (auto simp: takeWhile_append dropWhile_append)
    moreover have "takeWhile is_digit (dropWhile is_upper s) = [] \<Longrightarrow>
        takeWhile is_digit (dropWhile is_upper s @ t) = []"
      using ne by (cases "dropWhile is_upper s") (auto split: if_splits)
    ultimately show ?thesis using assms(1) by (auto simp: match_cell_def Let_def split: if_splits)
  qed
qed

lemma match_ref_separator:
  "ref_prefix c \<Longrightarrow> match_ref b (c # s) =
     (case match_cell s of None \<Rightarrow> None | Some (l, d, rest) \<Rightarrow> Some ([c], l, d, rest))"
  by (auto simp: match_ref_def match_cell_def ref_prefix_def)

lemma replace_refs_inert:
  "list_all (\<lambda>c. \<not> ref_prefix c) s \<Longrightarrow> replace_refs f False (s @ t) = s @ replace_refs f False t"
  by (induction s) (auto simp: replace_refs.simps [of f False "_ # _"] match_ref_def)

lemma replace_refs_skip:
  assumes "ref_prefix c" and "match_cell s = None" and "list_all (\<lambda>c. \<not> ref_prefix c) s"
    and "t = [] \<or> ref_prefix (hd t)"
  shows "replace_refs f b (c # s @ t) = c # s @ replace_refs f False t"
  using match_cell_None_append [OF assms(2,4)]
  by (subst replace_refs.simps) (simp add: match_ref_separator assms(1) replace_refs_inert assms(3))

lemma replace_refs_cell:
  assumes "ref_prefix c" and "list_all is_upper l" "l \<noteq> []" "all_digits d"
    and "t = [] \<or> ref_prefix (hd t)"
  shows "replace_refs f b (c # l @ d @ t) = f [c] l d @ replace_refs f False t"
  using match_cell_split [OF assms(2-5)]
  by (subst replace_refs.simps) (simp add: match_ref_separator assms(1))

section \<open>Formulas as items\<close>

text \<open>The specification reads a formula as a list of items, each an operator or bracket followed
  by a cell reference (column index from 0, row from 1) or by text that is not one: a number, a
  name, an absolute or mixed reference, nothing.\<close>

datatype formula_item = Cell char int int | Text char string

definition column_label :: "int \<Rightarrow> string" where
  "column_label col = label_loop (nat (col + 1)) []"

fun print_item :: "formula_item \<Rightarrow> string" where
  "print_item (Cell sep col row) = sep # column_label col @ int_dec row"
| "print_item (Text sep s) = sep # s"

fun item_ok :: "formula_item \<Rightarrow> bool" where
  "item_ok (Cell sep col row) \<longleftrightarrow> ref_prefix sep \<and> 0 \<le> col \<and> 0 < row"
| "item_ok (Text sep s) \<longleftrightarrow>
     ref_prefix sep \<and> list_all (\<lambda>c. \<not> ref_prefix c) s \<and> match_cell s = None"

fun shift_item :: "int \<Rightarrow> int \<Rightarrow> formula_item \<Rightarrow> formula_item" where
  "shift_item dr dc (Cell sep col row) =
     (if col + dc < 0 \<or> row + dr \<le> 0 then Cell sep col row else Cell sep (col + dc) (row + dr))"
| "shift_item dr dc (Text sep s) = Text sep s"

definition print_formula :: "formula_item list \<Rightarrow> string" where
  "print_formula items = concat (map print_item items)"

lemma column_label_facts:
  assumes "0 \<le> col"
  shows "list_all is_upper (column_label col)" "column_label col \<noteq> []"
    "colLabelToIndex (column_label col) = Inr col" "colIndexToLabel col = Inr (column_label col)"
  using assms
  by (auto simp: column_label_def list_all_iff label_loop_upper label_loop_nonempty colLabelToIndex_def
      label_value_loop colIndexToLabel_def)

lemma int_dec_pos: "0 < n \<Longrightarrow> all_digits (int_dec n) \<and> dec_val (int_dec n) = nat n"
  by (simp add: int_dec_def nat_dec_digits)

lemma shift_cell_item:
  "item_ok (Cell sep col row) \<Longrightarrow>
   shift_cell dr dc [sep] (column_label col) (int_dec row) = print_item (shift_item dr dc (Cell sep col row))"
  by (auto simp: shift_cell_def Let_def int_dec_pos column_label_facts)

lemma print_formula_hd:
  "list_all item_ok items \<Longrightarrow> print_formula items = [] \<or> ref_prefix (hd (print_formula items))"
  by (cases items; cases "hd items") (auto simp: print_formula_def)

lemma replace_refs_items:
  "list_all item_ok items \<Longrightarrow>
   replace_refs (shift_cell dr dc) b (print_formula items) = print_formula (map (shift_item dr dc) items)"
proof (induction items arbitrary: b)
  case Nil
  show ?case by (subst replace_refs.simps) (simp add: print_formula_def match_ref_def match_cell_def)
next
  case (Cons x xs)
  have hd: "print_formula xs = [] \<or> ref_prefix (hd (print_formula xs))"
    using Cons.prems by (intro print_formula_hd) simp
  have x: "item_ok x" and IH: "replace_refs (shift_cell dr dc) False (print_formula xs) =
      print_formula (map (shift_item dr dc) xs)" using Cons by auto
  have step: "print_formula (y # ys) = print_item y @ print_formula ys" for y ys
    by (simp add: print_formula_def)
  show ?case
  proof (cases x)
    case (Cell sep col row)
    with x have ok: "ref_prefix sep" "0 \<le> col" "0 < row" by auto
    then have "replace_refs (shift_cell dr dc) b (sep # column_label col @ int_dec row @ print_formula xs) =
        shift_cell dr dc [sep] (column_label col) (int_dec row) @
        replace_refs (shift_cell dr dc) False (print_formula xs)"
      using hd by (intro replace_refs_cell) (auto simp: column_label_facts int_dec_pos)
    then show ?thesis
      using shift_cell_item [of sep col row dr dc] x Cell by (simp add: step IH del: shift_item.simps)
  next
    case (Text sep s)
    with x hd show ?thesis by (simp add: step IH replace_refs_skip)
  qed
qed

section \<open>Properties\<close>

text \<open>Column labels and column indices are in bijection: every index from 0 is printed as a
  non-empty label of capital letters that reads back as that index, and every label that reads as
  an index is the one printed for it.\<close>

lemma column_label_round_trip:
  "(0 \<le> n \<longrightarrow> (\<exists>label. colIndexToLabel n = Inr label \<and> label \<noteq> [] \<and> list_all is_upper label \<and>
                        colLabelToIndex label = Inr n)) \<and>
   (l \<noteq> [] \<longrightarrow> colLabelToIndex l = Inr m \<longrightarrow> colIndexToLabel m = Inr l)"
proof (intro conjI impI)
  assume "0 \<le> n"
  then show "\<exists>label. colIndexToLabel n = Inr label \<and> label \<noteq> [] \<and> list_all is_upper label \<and>
                        colLabelToIndex label = Inr n"
    by (auto simp: colIndexToLabel_def colLabelToIndex_def label_value_loop list_all_iff
        label_loop_nonempty label_loop_upper)
next
  assume l: "l \<noteq> []" "colLabelToIndex l = Inr m"
  then have v: "label_value 0 l = Some (m + 1)"
    by (auto simp: colLabelToIndex_def split: option.splits)
  obtain c cs where cs: "l = c # cs" using l(1) by (cases l) auto
  then have "is_upper c" using label_value_upper [OF v, of c] by simp
  with v cs have "1 \<le> m + 1"
    using label_value_ge [of "int (code_of c) - 64" cs "m + 1"] by (auto simp: is_upper_def)
  then show "colIndexToLabel m = Inr l"
    using loop_label_value [OF v] by (simp add: colIndexToLabel_def)
qed

lemma column_label_round_trip_witness:
  "colLabelToIndex ''AB'' = Inr 27 \<and> colIndexToLabel 27 = Inr ''AB''"
proof -
  have "colLabelToIndex ''AB'' = Inr 27" by code_simp
  with column_label_round_trip [of 0 "''AB''" 27] show ?thesis by simp
qed

text \<open>C25: A1 notation round trips: the cell name printed for a row and a column from 1 is parsed
  back as that row and column, and no name is printed for the others.\<close>

theorem parse_a1_round_trip:
  "(0 < row \<and> 0 < col \<longrightarrow> (\<exists>name. rowColToA1 row col = Some name \<and> parseA1 name = Some (row, col))) \<and>
   (row \<le> 0 \<or> col \<le> 0 \<longrightarrow> rowColToA1 row col = None)"
proof (intro conjI impI)
  assume pos: "0 < row \<and> 0 < col"
  define l where "l = label_loop (nat col) []"
  have l: "list_all is_upper l" "l \<noteq> []" "label_value 0 l = Some col"
    using pos by (auto simp: l_def list_all_iff label_loop_upper label_loop_nonempty label_value_loop)
  have d: "all_digits (int_dec row)" "dec_val (int_dec row) = nat row" using pos int_dec_pos by auto
  have "\<not> is_space (hd (l @ int_dec row))"
    using l(1,2) by (cases l) (auto simp: upper_facts)
  moreover have "\<not> is_space (last (l @ int_dec row))"
    using d(1) by (cases "int_dec row" rule: rev_cases) (auto simp: all_digits_def digit_not_space)
  ultimately have "js_trim (l @ int_dec row) = l @ int_dec row" using l(2) by (intro js_trim_id) auto
  moreover have "match_a1 (l @ int_dec row) = Some (l, int_dec row)"
    using l d by (intro match_a1_split) (auto simp: list_all_iff upper_facts)
  ultimately have "parseA1 (l @ int_dec row) = Some (row, col)"
    using pos l d by (simp add: parseA1_def columnLabelToIndex_def upcase_upper)
  moreover have "rowColToA1 row col = Some (l @ int_dec row)"
    using pos l(2) by (simp add: rowColToA1_def columnIndexToLabel_def Let_def l_def)
  ultimately show "\<exists>name. rowColToA1 row col = Some name \<and> parseA1 name = Some (row, col)" by simp
qed (auto simp: rowColToA1_def)

theorem parse_a1_round_trip_witness:
  "\<exists>name. rowColToA1 12 28 = Some name \<and> parseA1 name = Some (12, 28)"
  using parse_a1_round_trip [of 12 28] by simp



end
