(* ===== verification/Read_State.thy ===== *)
theory Read_State imports Js_Object Event_System begin

text \<open>
  The read state of the agent message board (\<open>src/frontend/src/lib/agentMessageBoardReadState.ts\<close>):
  which text parts of a session were read and how far the typing animation of the others has come,
  kept in \<open>localStorage\<close> so that a session resumes where the user left it.

  The storage is \<open>None\<close> when the item is missing or cannot be parsed, and the object under \<open>sessions\<close>
  otherwise; a property whose value is \<open>undefined\<close> is absent after \<open>JSON.stringify\<close>, so both are
  \<open>None\<close>.  Writing may fail (the quota, a private window): each operation takes whether
  \<open>setItem\<close> succeeds.  The comparison of two snapshots by \<open>JSON.stringify\<close> is their equality.
\<close>

section \<open>The stored data\<close>

record part_progress =
  visibleLength :: int
  part_complete :: "bool option"

record render_snapshot =
  completedJobIds :: "string list"
  blockPartsCompleted :: "string list obj"
  partProgress :: "part_progress obj"

record session_read =
  sr_parts :: "string list"
  sr_messageIds :: "string list option"
  sr_snapshot :: "render_snapshot option"
  sr_backendResponseWaiting :: "bool option"
  sr_renderFinish :: "bool option"
  sr_thinkingBubbleShowUp :: "bool option"
  sr_waitingForFileAnalysis :: "bool option"
  sr_effectsCompletedOnQuit :: "bool option"

datatype session_entry = Entry session_read | PartsOnly "string list"

type_synonym read_store = "session_entry obj"

type_synonym storage = "read_store option"

section \<open>Reading and writing\<close>

definition no_session :: session_read where
  "no_session =
     \<lparr> sr_parts = [], sr_messageIds = None, sr_snapshot = None, sr_backendResponseWaiting = None,
       sr_renderFinish = None, sr_thinkingBubbleShowUp = None, sr_waitingForFileAnalysis = None,
       sr_effectsCompletedOnQuit = None \<rparr>"

definition waiting_flag :: "session_read \<Rightarrow> bool" where
  "waiting_flag e = nullish (orelse (sr_backendResponseWaiting e) (sr_waitingForFileAnalysis e)) False"

definition finish_flag :: "session_read \<Rightarrow> bool" where
  "finish_flag e = nullish (orelse (sr_renderFinish e) (sr_effectsCompletedOnQuit e)) False"

fun normalizeSessionEntry :: "session_entry option \<Rightarrow> session_read" where
  "normalizeSessionEntry None = no_session"
| "normalizeSessionEntry (Some (PartsOnly ps)) = no_session\<lparr> sr_parts := ps \<rparr>"
| "normalizeSessionEntry (Some (Entry e)) =
     (let waiting = waiting_flag e; finish = finish_flag e
      in e\<lparr> sr_backendResponseWaiting := Some waiting, sr_renderFinish := Some finish,
            sr_thinkingBubbleShowUp :=
              Some (nullish (sr_thinkingBubbleShowUp e) (waiting \<and> finish)),
            sr_waitingForFileAnalysis := Some waiting, sr_effectsCompletedOnQuit := Some finish \<rparr>)"

definition readStore :: "storage \<Rightarrow> read_store" where
  "readStore st = nullish st []"

definition writeStore :: "bool \<Rightarrow> read_store \<Rightarrow> storage \<Rightarrow> storage" where
  "writeStore ok store st = (if ok then Some store else st)"

definition getSessionState :: "string \<Rightarrow> storage \<Rightarrow> session_read" where
  "getSessionState sid st = normalizeSessionEntry (obj_get (readStore st) (str_key sid))"

definition withThinkingBubbleShowUp :: "session_read \<Rightarrow> session_read" where
  "withThinkingBubbleShowUp s =
     (let waiting = waiting_flag s; finish = finish_flag s
      in s\<lparr> sr_backendResponseWaiting := Some waiting, sr_renderFinish := Some finish,
            sr_thinkingBubbleShowUp := Some (waiting \<and> finish),
            sr_waitingForFileAnalysis := Some waiting, sr_effectsCompletedOnQuit := Some finish \<rparr>)"

definition writeSessionState :: "bool \<Rightarrow> string \<Rightarrow> session_read \<Rightarrow> storage \<Rightarrow> storage" where
  "writeSessionState ok sid s st =
     writeStore ok (obj_set (str_key sid) (Entry (withThinkingBubbleShowUp s)) (readStore st)) st"

section \<open>Parts\<close>

definition isTextPartFullyRead :: "string \<Rightarrow> string \<Rightarrow> storage \<Rightarrow> bool" where
  "isTextPartFullyRead sid pid st \<longleftrightarrow> pid \<in> set (sr_parts (getSessionState sid st))"

definition partMatchesQuitMessage :: "string \<Rightarrow> string list \<Rightarrow> bool" where
  "partMatchesQuitMessage pid mids \<longleftrightarrow>
     list_ex (\<lambda>m. take (length m + 1) pid = m @ ''-'') mids"

definition isTextPartRead :: "string \<Rightarrow> string \<Rightarrow> storage \<Rightarrow> bool" where
  "isTextPartRead sid pid st =
     (if isTextPartFullyRead sid pid st then True
      else (let s = getSessionState sid st
            in if sr_snapshot s \<noteq> None then False
               else partMatchesQuitMessage pid (nullish (sr_messageIds s) [])))"

definition markTextPartRead :: "bool \<Rightarrow> string \<Rightarrow> string \<Rightarrow> storage \<Rightarrow> storage" where
  "markTextPartRead ok sid pid st =
     (let s = getSessionState sid st
      in if pid \<in> set (sr_parts s) then st
         else writeSessionState ok sid (s\<lparr> sr_parts := sr_parts s @ [pid] \<rparr>) st)"

text \<open>Adding ids to the set of parts, and whether one of them is new.\<close>

definition add_parts :: "string list \<Rightarrow> string list \<Rightarrow> string list \<times> bool" where
  "add_parts old new =
     (set_dedup (old @ new), list_ex (\<lambda>p. p \<notin> set old) new)"

definition markTextPartsRead :: "bool \<Rightarrow> string \<Rightarrow> string list \<Rightarrow> storage \<Rightarrow> storage" where
  "markTextPartsRead ok sid pids st =
     (let s = getSessionState sid st; (ps, changed) = add_parts (sr_parts s) pids
      in if \<not> changed then st else writeSessionState ok sid (s\<lparr> sr_parts := ps \<rparr>) st)"

section \<open>Snapshots\<close>

definition snapshotHasProgress :: "render_snapshot \<Rightarrow> bool" where
  "snapshotHasProgress sn \<longleftrightarrow>
     completedJobIds sn \<noteq> [] \<or> list_ex (\<lambda>ps. ps \<noteq> []) (obj_values (blockPartsCompleted sn)) \<or>
     obj_keys (partProgress sn) \<noteq> []"

definition merge_progress :: "part_progress option \<Rightarrow> part_progress \<Rightarrow> part_progress" where
  "merge_progress existing p =
     (case existing of
        None \<Rightarrow> p
      | Some q \<Rightarrow>
          \<lparr> visibleLength = max (visibleLength q) (visibleLength p),
            part_complete = Some (nullish (part_complete q) False \<or> nullish (part_complete p) False) \<rparr>)"

definition mergePartProgress ::
  "part_progress obj option \<Rightarrow> part_progress obj \<Rightarrow> part_progress obj" where
  "mergePartProgress prev next =
     fold (\<lambda>(k, p) merged. obj_set k (merge_progress (obj_get merged k) p) merged) next (nullish prev [])"

definition merge_blocks :: "string list obj \<Rightarrow> string list obj \<Rightarrow> string list obj" where
  "merge_blocks prev next =
     fold (\<lambda>(k, ps) merged. obj_set k (set_dedup (nullish (obj_get merged k) [] @ ps)) merged) next prev"

definition merge_snapshot :: "render_snapshot option \<Rightarrow> render_snapshot \<Rightarrow> render_snapshot" where
  "merge_snapshot prev sn =
     \<lparr> completedJobIds =
         set_dedup (nullish (map_option completedJobIds prev) [] @ completedJobIds sn),
       blockPartsCompleted =
         merge_blocks (nullish (map_option blockPartsCompleted prev) []) (blockPartsCompleted sn),
       partProgress = mergePartProgress (map_option partProgress prev) (partProgress sn) \<rparr>"

definition loadRenderSnapshot :: "string \<Rightarrow> storage \<Rightarrow> render_snapshot option" where
  "loadRenderSnapshot sid st = sr_snapshot (getSessionState sid st)"

definition saveRenderSnapshot ::
  "bool \<Rightarrow> string \<Rightarrow> render_snapshot \<Rightarrow> string list \<Rightarrow> storage \<Rightarrow> storage" where
  "saveRenderSnapshot ok sid sn extraPartIds st =
     (let s = getSessionState sid st;
          (ps, changed) = add_parts (sr_parts s) extraPartIds;
          prev = sr_snapshot s
      in if (case prev of None \<Rightarrow> False | Some old \<Rightarrow> snapshotHasProgress old) \<and>
            \<not> snapshotHasProgress sn
         then st
         else (let merged = merge_snapshot prev sn; mergedChanged = (prev \<noteq> Some merged)
               in if \<not> changed \<and> \<not> mergedChanged then st
                  else writeSessionState ok sid
                         (s\<lparr> sr_parts := ps, sr_snapshot := Some merged \<rparr>) st))"

definition getPartResumeLength :: "string \<Rightarrow> string \<Rightarrow> storage \<Rightarrow> int" where
  "getPartResumeLength sid pid st =
     (if isTextPartFullyRead sid pid st then 0
      else (case sr_snapshot (getSessionState sid st) of
              None \<Rightarrow> 0
            | Some sn \<Rightarrow>
                (case obj_get (partProgress sn) (str_key pid) of
                   None \<Rightarrow> 0
                 | Some p \<Rightarrow>
                     if nullish (part_complete p) False then 0
                     else if visibleLength p > 0 then visibleLength p else 0)))"

definition markSessionQuit ::
  "bool \<Rightarrow> string \<Rightarrow> render_snapshot \<Rightarrow> string list \<Rightarrow> storage \<Rightarrow> storage" where
  "markSessionQuit = saveRenderSnapshot"

section \<open>The flags of a session\<close>

definition setWaitingForFileAnalysis :: "bool \<Rightarrow> string \<Rightarrow> bool \<Rightarrow> storage \<Rightarrow> storage" where
  "setWaitingForFileAnalysis ok sid waiting st =
     (let s = getSessionState sid st
      in if nullish (sr_backendResponseWaiting s) False = waiting then st
         else writeSessionState ok sid
                (s\<lparr> sr_backendResponseWaiting := Some waiting,
                   sr_waitingForFileAnalysis := Some waiting \<rparr>) st)"

definition isWaitingForFileAnalysis :: "string \<Rightarrow> storage \<Rightarrow> bool" where
  "isWaitingForFileAnalysis sid st =
     nullish (sr_backendResponseWaiting (getSessionState sid st)) False"

definition setEffectsCompletedOnQuit :: "bool \<Rightarrow> string \<Rightarrow> bool \<Rightarrow> storage \<Rightarrow> storage" where
  "setEffectsCompletedOnQuit ok sid completed st =
     (let s = getSessionState sid st
      in if nullish (sr_renderFinish s) False = completed then st
         else writeSessionState ok sid
                (s\<lparr> sr_renderFinish := Some completed,
                   sr_effectsCompletedOnQuit := Some completed \<rparr>) st)"

definition isEffectsCompletedOnQuit :: "string \<Rightarrow> storage \<Rightarrow> bool" where
  "isEffectsCompletedOnQuit sid st = nullish (sr_renderFinish (getSessionState sid st)) False"

definition shouldShowThinkingBubble :: "string \<Rightarrow> storage \<Rightarrow> bool" where
  "shouldShowThinkingBubble sid st =
     nullish (sr_thinkingBubbleShowUp (getSessionState sid st)) False"

section \<open>The board as a transition system\<close>

datatype read_op =
  MarkPart string
| MarkParts "string list"
| SaveSnapshot render_snapshot "string list"
| SetWaiting bool
| SetCompleted bool

text \<open>One call: whether the write succeeds, the session, the operation.\<close>

type_synonym read_event = "bool \<times> string \<times> read_op"

fun read_perform :: "read_event \<Rightarrow> storage \<Rightarrow> storage" where
  "read_perform (ok, sid, MarkPart pid) st = markTextPartRead ok sid pid st"
| "read_perform (ok, sid, MarkParts pids) st = markTextPartsRead ok sid pids st"
| "read_perform (ok, sid, SaveSnapshot sn pids) st = saveRenderSnapshot ok sid sn pids st"
| "read_perform (ok, sid, SetWaiting b) st = setWaitingForFileAnalysis ok sid b st"
| "read_perform (ok, sid, SetCompleted b) st = setEffectsCompletedOnQuit ok sid b st"

definition any_call :: "storage \<Rightarrow> read_event \<Rightarrow> bool" where
  "any_call st e \<longleftrightarrow> True"

text \<open>What may never be lost: the first is at most as far as the second.\<close>

definition progress_upto :: "part_progress \<Rightarrow> part_progress \<Rightarrow> bool" where
  "progress_upto p q \<longleftrightarrow> visibleLength p \<le> visibleLength q \<and>
     (nullish (part_complete p) False \<longrightarrow> nullish (part_complete q) False)"

definition snapshot_upto :: "render_snapshot \<Rightarrow> render_snapshot \<Rightarrow> bool" where
  "snapshot_upto a b \<longleftrightarrow>
     set (completedJobIds a) \<subseteq> set (completedJobIds b) \<and>
     (\<forall>k. set (nullish (obj_get (blockPartsCompleted a) k) []) \<subseteq>
          set (nullish (obj_get (blockPartsCompleted b) k) [])) \<and>
     (\<forall>k p. obj_get (partProgress a) k = Some p \<longrightarrow>
            (\<exists>q. obj_get (partProgress b) k = Some q \<and> progress_upto p q))"

definition session_upto :: "session_read \<Rightarrow> session_read \<Rightarrow> bool" where
  "session_upto s t \<longleftrightarrow>
     set (sr_parts s) \<subseteq> set (sr_parts t) \<and>
     (\<forall>a. sr_snapshot s = Some a \<longrightarrow> (\<exists>b. sr_snapshot t = Some b \<and> snapshot_upto a b))"

definition storage_upto :: "storage \<Rightarrow> storage \<Rightarrow> bool" where
  "storage_upto st st' \<longleftrightarrow> (\<forall>sid. session_upto (getSessionState sid st) (getSessionState sid st'))"

lemma progress_upto_refl [simp]: "progress_upto p p"
  by (simp add: progress_upto_def)

lemma progress_upto_trans: "progress_upto p q \<Longrightarrow> progress_upto q r \<Longrightarrow> progress_upto p r"
  by (auto simp: progress_upto_def)

lemma snapshot_upto_refl [simp]: "snapshot_upto a a"
  by (auto simp: snapshot_upto_def)

lemma snapshot_upto_trans:
  assumes "snapshot_upto a b" and "snapshot_upto b c"
  shows "snapshot_upto a c"
  unfolding snapshot_upto_def
proof (intro conjI allI impI)
  fix k p assume "obj_get (partProgress a) k = Some p"
  then obtain q where "obj_get (partProgress b) k = Some q" "progress_upto p q"
    using assms(1) unfolding snapshot_upto_def by blast
  moreover from this(1) obtain r where "obj_get (partProgress c) k = Some r" "progress_upto q r"
    using assms(2) unfolding snapshot_upto_def by blast
  ultimately show "\<exists>r. obj_get (partProgress c) k = Some r \<and> progress_upto p r"
    by (blast intro: progress_upto_trans)
qed (use assms in \<open>unfold snapshot_upto_def, blast\<close>)+

lemma session_upto_refl [simp]: "session_upto s s"
  by (simp add: session_upto_def)

lemma session_upto_trans: "session_upto a b \<Longrightarrow> session_upto b c \<Longrightarrow> session_upto a c"
  unfolding session_upto_def by (meson order_trans snapshot_upto_trans)

lemma storage_upto_refl: "storage_upto st st"
  by (simp add: storage_upto_def)

lemma storage_upto_trans: "storage_upto a b \<Longrightarrow> storage_upto b c \<Longrightarrow> storage_upto a c"
  unfolding storage_upto_def by (blast intro: session_upto_trans)

section \<open>Every operation keeps what was read\<close>

lemma merge_progress_upto:
  "progress_upto p (merge_progress (Some p) q)" "progress_upto q (merge_progress e q)"
  by (auto simp: merge_progress_def progress_upto_def split: option.splits)

lemma mergePartProgress_keeps:
  assumes "obj_get (nullish prev []) k = Some p"
  shows "\<exists>q. obj_get (mergePartProgress prev next) k = Some q \<and> progress_upto p q"
proof -
  have "obj_get m k = Some p \<Longrightarrow>
    \<exists>q. obj_get (fold (\<lambda>(k, p) m. obj_set k (merge_progress (obj_get m k) p) m) next m) k = Some q \<and>
        progress_upto p q" for m
  proof (induction "next" arbitrary: m p)
    case (Cons kv rest)
    obtain l q where kv: "kv = (l, q)" by (cases kv)
    obtain r where "obj_get (obj_set l (merge_progress (obj_get m l) q) m) k = Some r" "progress_upto p r"
      using Cons.prems merge_progress_upto(1) [of p q] by (cases "k = l") auto
    then show ?case using Cons.IH kv by (fastforce intro: progress_upto_trans)
  qed auto
  with assms show ?thesis by (simp add: mergePartProgress_def)
qed

lemma merge_blocks_keeps:
  "set (nullish (obj_get m k) []) \<subseteq> set (nullish (obj_get (merge_blocks m next) k) [])"
proof (induction "next" arbitrary: m)
  case (Cons kv rest)
  obtain l ps where kv: "kv = (l, ps)" by (cases kv)
  let ?m = "obj_set l (set_dedup (nullish (obj_get m l) [] @ ps)) m"
  have "set (nullish (obj_get m k) []) \<subseteq> set (nullish (obj_get ?m k) [])" by (cases "k = l") auto
  with Cons [of ?m] show ?case by (simp add: merge_blocks_def kv)
qed (simp add: merge_blocks_def)

lemma merge_snapshot_keeps: "snapshot_upto a (merge_snapshot (Some a) sn)"
  using merge_blocks_keeps [of "blockPartsCompleted a" _ "blockPartsCompleted sn"]
    mergePartProgress_keeps [of "Some (partProgress a)"]
  by (simp add: snapshot_upto_def merge_snapshot_def)

lemma normalize_written:
  "sr_parts (normalizeSessionEntry (Some (Entry (withThinkingBubbleShowUp s)))) = sr_parts s"
  "sr_snapshot (normalizeSessionEntry (Some (Entry (withThinkingBubbleShowUp s)))) = sr_snapshot s"
  by (simp_all add: withThinkingBubbleShowUp_def Let_def)

lemma getSessionState_write:
  "getSessionState sid' (writeSessionState ok sid s st) =
   (if ok \<and> sid' = sid then normalizeSessionEntry (Some (Entry (withThinkingBubbleShowUp s)))
    else getSessionState sid' st)"
  by (simp add: getSessionState_def writeSessionState_def writeStore_def readStore_def str_key_inject)

lemma write_upto:
  assumes "session_upto (getSessionState sid st) s"
  shows "storage_upto st (writeSessionState ok sid s st)"
  using assms
  by (auto simp: storage_upto_def getSessionState_write session_upto_def normalize_written
      simp del: normalizeSessionEntry.simps)

lemma add_parts_superset: "add_parts old new = (ps, ch) \<Longrightarrow> set ps = set old \<union> set new"
  by (auto simp: add_parts_def)

lemma save_upto:
  "session_upto s (s\<lparr> sr_parts := ps, sr_snapshot := Some (merge_snapshot (sr_snapshot s) sn) \<rparr>)"
  if "set (sr_parts s) \<subseteq> set ps"
  using that by (cases "sr_snapshot s") (auto simp: session_upto_def merge_snapshot_keeps)

lemma read_perform_upto: "storage_upto st (read_perform e st)"
proof -
  obtain ok sid opn where e: "e = (ok, sid, opn)" by (cases e)
  have "storage_upto st (read_perform (ok, sid, opn) st)"
  proof (cases opn)
    case (MarkPart p)
    then show ?thesis
      by (auto simp: markTextPartRead_def Let_def storage_upto_refl intro!: write_upto)
         (auto simp: session_upto_def)
  next
    case (MarkParts ps)
    then show ?thesis
      by (auto simp: markTextPartsRead_def Let_def add_parts_def storage_upto_refl intro!: write_upto)
         (auto simp: session_upto_def)
  next
    case (SaveSnapshot sn ps)
    then show ?thesis
      by (auto simp: saveRenderSnapshot_def Let_def storage_upto_refl
          intro!: write_upto save_upto dest!: add_parts_superset split: prod.splits)
  next
    case (SetWaiting b)
    then show ?thesis
      by (auto simp: setWaitingForFileAnalysis_def Let_def storage_upto_refl intro!: write_upto)
         (simp_all add: session_upto_def)
  next
    case (SetCompleted b)
    then show ?thesis
      by (auto simp: setEffectsCompletedOnQuit_def Let_def storage_upto_refl intro!: write_upto)
         (simp_all add: session_upto_def)
  qed
  with e show ?thesis by simp
qed

section \<open>The thinking bubble\<close>

definition bubble_agrees :: "session_entry \<Rightarrow> bool" where
  "bubble_agrees x =
     (case x of
        PartsOnly _ \<Rightarrow> True
      | Entry e \<Rightarrow> sr_thinkingBubbleShowUp e \<in> {None, Some (waiting_flag e \<and> finish_flag e)})"

definition bubbles_ok :: "storage \<Rightarrow> bool" where
  "bubbles_ok st \<longleftrightarrow> obj_all bubble_agrees (readStore st)"

lemma bubble_written: "bubble_agrees (Entry (withThinkingBubbleShowUp s))"
  by (simp add: bubble_agrees_def withThinkingBubbleShowUp_def Let_def waiting_flag_def finish_flag_def)

lemma bubbles_write: "bubbles_ok st \<Longrightarrow> bubbles_ok (writeSessionState ok sid s st)"
  using bubble_written [of s]
  by (auto simp: bubbles_ok_def writeSessionState_def writeStore_def readStore_def intro: obj_all_set)

lemma read_perform_bubbles: "bubbles_ok st \<Longrightarrow> bubbles_ok (read_perform e st)"
  by (induction e st rule: read_perform.induct)
     (auto simp: markTextPartRead_def markTextPartsRead_def saveRenderSnapshot_def
        setWaitingForFileAnalysis_def setEffectsCompletedOnQuit_def Let_def
        intro: bubbles_write split: prod.splits)

lemma bubble_shown:
  assumes "bubbles_ok st"
  shows "shouldShowThinkingBubble sid st \<longleftrightarrow>
         isWaitingForFileAnalysis sid st \<and> isEffectsCompletedOnQuit sid st"
proof (cases "obj_get (readStore st) (str_key sid)")
  case None
  then show ?thesis
    by (simp add: shouldShowThinkingBubble_def isWaitingForFileAnalysis_def
        isEffectsCompletedOnQuit_def getSessionState_def no_session_def)
next
  case (Some x)
  with assms have "bubble_agrees x" unfolding bubbles_ok_def by (rule obj_all_get)
  with Some show ?thesis
    by (cases x) (auto simp: bubble_agrees_def shouldShowThinkingBubble_def
        isWaitingForFileAnalysis_def isEffectsCompletedOnQuit_def getSessionState_def no_session_def
        Let_def)
qed

interpretation kept: event_system any_call read_perform "\<lambda>st. True"
  by unfold_locales simp

interpretation board: event_system any_call read_perform bubbles_ok
  by unfold_locales (rule read_perform_bubbles)

section \<open>Properties\<close>

text \<open>C27: reading progress is never lost: whatever calls follow, in any session and whether or not
  their writes succeed, a part that was read stays read; the completed jobs, the completed parts of
  each block and the progress of each part in the saved snapshot only grow; and the position at
  which the typing of a part resumes does not go back unless the part was finished.\<close>

theorem read_progress_never_lost:
  assumes "reaches any_call read_perform st st'"
  shows "(isTextPartFullyRead sid pid st \<longrightarrow> isTextPartFullyRead sid pid st') \<and>
         (\<forall>a. loadRenderSnapshot sid st = Some a \<longrightarrow>
              (\<exists>b. loadRenderSnapshot sid st' = Some b \<and> snapshot_upto a b \<and>
                   (getPartResumeLength sid pid st \<le> getPartResumeLength sid pid st' \<or>
                    isTextPartFullyRead sid pid st' \<or>
                    (\<exists>p. obj_get (partProgress b) (str_key pid) = Some p \<and>
                         part_complete p = Some True))))"
proof -
  have "storage_upto st st'"
    by (rule kept.related [OF storage_upto_refl storage_upto_trans read_perform_upto assms TrueI])
  then have up: "session_upto (getSessionState sid st) (getSessionState sid st')"
    by (simp add: storage_upto_def)
  have "getPartResumeLength sid pid st \<le> getPartResumeLength sid pid st' \<or>
        isTextPartFullyRead sid pid st' \<or>
        (\<exists>p. obj_get (partProgress b) (str_key pid) = Some p \<and> part_complete p = Some True)"
    if a: "loadRenderSnapshot sid st = Some a" and b: "loadRenderSnapshot sid st' = Some b"
      and ab: "snapshot_upto a b" for a b
  proof (cases "obj_get (partProgress a) (str_key pid)")
    case None
    with a b show ?thesis
      by (auto simp: getPartResumeLength_def loadRenderSnapshot_def split: option.splits)
  next
    case (Some p)
    then obtain q where "obj_get (partProgress b) (str_key pid) = Some q" "progress_upto p q"
      using ab unfolding snapshot_upto_def by blast
    with a b Some show ?thesis
      by (auto simp: getPartResumeLength_def loadRenderSnapshot_def progress_upto_def nullish_def
          split: option.splits)
  qed
  with up show ?thesis
    by (auto simp: isTextPartFullyRead_def loadRenderSnapshot_def session_upto_def)
qed

text \<open>When a session is entered again, the thinking bubble is shown exactly if the reply is awaited
  and the rendering had finished, whatever calls were made since the storage was in order.\<close>

lemma thinking_bubble_consistent:
  assumes "reaches any_call read_perform st st'" and "bubbles_ok st"
  shows "shouldShowThinkingBubble sid st' \<longleftrightarrow>
         isWaitingForFileAnalysis sid st' \<and> isEffectsCompletedOnQuit sid st'"
  using board.reaches_inv [OF assms] by (rule bubble_shown)

text \<open>Leaving a session with an empty snapshot after an earlier one had progress drops the parts
  handed over as read: the call changes nothing, so they are typed again on the next visit.\<close>

lemma quit_without_progress_drops_parts:
  assumes "loadRenderSnapshot sid st = Some old" and "snapshotHasProgress old"
    and "\<not> snapshotHasProgress sn"
  shows "markSessionQuit ok sid sn extraPartIds st = st"
  using assms
  by (simp add: markSessionQuit_def saveRenderSnapshot_def loadRenderSnapshot_def Let_def
      split: prod.splits)

section \<open>Witnesses\<close>

definition demo_snapshot :: "int \<Rightarrow> render_snapshot" where
  "demo_snapshot n =
     \<lparr> completedJobIds = [], blockPartsCompleted = [],
       partProgress = [(Name ''m1-a'', \<lparr> visibleLength = n, part_complete = None \<rparr>)] \<rparr>"

definition empty_snapshot :: render_snapshot where
  "empty_snapshot = \<lparr> completedJobIds = [], blockPartsCompleted = [], partProgress = [] \<rparr>"

definition demo_storage :: storage where
  "demo_storage = saveRenderSnapshot True ''s'' (demo_snapshot 7) [''m0-a''] None"

definition demo_events :: "read_event list" where
  "demo_events = [(True, ''s'', SaveSnapshot (demo_snapshot 3) []), (True, ''s'', SetWaiting True),
     (False, ''s'', MarkPart ''m1-a''), (True, ''s'', SetCompleted True)]"

definition demo_storage_later :: storage where
  "demo_storage_later = fold read_perform demo_events demo_storage"

lemma demo_reaches: "reaches any_call read_perform demo_storage demo_storage_later"
proof (rule guarded_run_reaches)
  show "guarded_run any_call read_perform demo_events demo_storage = Some demo_storage_later"
    by (simp add: demo_events_def demo_storage_later_def any_call_def)
qed

lemma demo_ok: "bubbles_ok demo_storage"
  unfolding demo_storage_def bubbles_ok_def obj_all_def by code_simp

theorem read_progress_never_lost_witness:
  "isTextPartFullyRead ''s'' ''m0-a'' demo_storage_later \<and>
   getPartResumeLength ''s'' ''m1-a'' demo_storage_later = 7"
proof -
  have "isTextPartFullyRead ''s'' ''m0-a'' demo_storage" unfolding demo_storage_def by code_simp
  moreover have "getPartResumeLength ''s'' ''m1-a'' demo_storage_later = 7"
    unfolding demo_storage_later_def demo_storage_def demo_events_def by code_simp
  ultimately show ?thesis
    using read_progress_never_lost [OF demo_reaches, of "''s''" "''m0-a''"] by simp
qed

lemma thinking_bubble_consistent_witness:
  "shouldShowThinkingBubble ''s'' demo_storage_later"
proof -
  have "isWaitingForFileAnalysis ''s'' demo_storage_later"
    "isEffectsCompletedOnQuit ''s'' demo_storage_later"
    unfolding demo_storage_later_def demo_storage_def demo_events_def by code_simp+
  with thinking_bubble_consistent [OF demo_reaches demo_ok, of "''s''"] show ?thesis by simp
qed

lemma quit_without_progress_drops_parts_witness:
  "\<not> isTextPartFullyRead ''s'' ''m1-a''
       (markSessionQuit True ''s'' empty_snapshot [''m1-a''] demo_storage)"
proof -
  have "loadRenderSnapshot ''s'' demo_storage = Some (demo_snapshot 7)"
    "snapshotHasProgress (demo_snapshot 7)" "\<not> snapshotHasProgress empty_snapshot"
    "\<not> isTextPartFullyRead ''s'' ''m1-a'' demo_storage"
    unfolding demo_storage_def by code_simp+
  with quit_without_progress_drops_parts [of "''s''" demo_storage "demo_snapshot 7" empty_snapshot]
  show ?thesis by simp
qed

end
