(* ===== verification/Csm_Store.thy ===== *)
theory Csm_Store imports Js_Object Event_System begin

text \<open>
  The conversations of the support desk: the store of \<open>src/frontend/src/lib/csmConversationStore.ts\<close>
  and its data (\<open>src/frontend/src/types/csmConversation.ts\<close>).  Records keyed by a conversation id are
  objects with number keys.
\<close>

section \<open>Data\<close>

datatype conversation_status = ConvActive | ConvPending | ConvResolved | ConvClosed
datatype conversation_channel = ChannelWeb | ChannelEmail | ChannelWhatsapp
datatype sender_type = FromAgent | FromCustomer | FromSystem

record csm_message =
  cm_id :: int
  cm_conversation :: int
  cm_sender_type :: sender_type
  cm_sender_agent :: "int option"
  cm_sender_agent_name :: "string option"
  cm_sender_agent_email :: "string option"
  cm_content :: string
  cm_rich_body :: "js_val option"
  cm_image_url :: "string option"
  cm_created_at :: string

record ticket_summary =
  tk_id :: int
  tk_title :: string
  tk_status :: string
  tk_status_display :: string
  tk_priority :: string
  tk_priority_display :: string
  tk_assigned_to_name :: "string option"

record conversation =
  cv_id :: int
  cv_customer :: "int option"
  cv_customer_name :: "string option"
  cv_customer_email :: "string option"
  cv_queue :: "int option"
  cv_queue_name :: "string option"
  cv_queue_organisation_id :: "int option"
  cv_assigned_to :: "int option"
  cv_assigned_to_name :: "string option"
  cv_status :: conversation_status
  cv_status_display :: string
  cv_channel :: conversation_channel
  cv_channel_display :: string
  cv_tags :: "string list"
  cv_started_at :: string
  cv_ended_at :: "string option"
  cv_elapsed_seconds :: int
  cv_ticket :: "ticket_summary option"
  cv_created_at :: string

text \<open>A draft; the image file is a reference the browser owns, named by a number.\<close>

record composer_draft =
  df_richBody :: "js_val option"
  df_imageFile :: "nat option"
  df_imagePreviewUrl :: "string option"

record csm_state =
  csm_conversations :: "conversation list"
  activeConversationId :: "int option"
  selectedQueueId :: "int option"
  messagesByConversation :: "csm_message list obj"
  typingByConversation :: "int list obj"
  draftsByConversation :: "composer_draft obj"

definition init_csm_state :: csm_state where
  "init_csm_state =
     \<lparr> csm_conversations = [], activeConversationId = None, selectedQueueId = None,
       messagesByConversation = [], typingByConversation = [], draftsByConversation = [] \<rparr>"

section \<open>Actions\<close>

definition csm_setConversations :: "conversation list \<Rightarrow> csm_state \<Rightarrow> csm_state" where
  "csm_setConversations cs s = s\<lparr> csm_conversations := cs \<rparr>"

text \<open>\<open>{ ...c, ...updated }\<close>: the update carries every property, so it replaces the conversation.\<close>

definition csm_updateConversation :: "conversation \<Rightarrow> csm_state \<Rightarrow> csm_state" where
  "csm_updateConversation updated s =
     s\<lparr> csm_conversations :=
          map_where (\<lambda>c. cv_id c = cv_id updated) (\<lambda>_. updated) (csm_conversations s) \<rparr>"

definition csm_setActiveConversation :: "int option \<Rightarrow> csm_state \<Rightarrow> csm_state" where
  "csm_setActiveConversation i s = s\<lparr> activeConversationId := i \<rparr>"

definition csm_setSelectedQueueId :: "int option \<Rightarrow> csm_state \<Rightarrow> csm_state" where
  "csm_setSelectedQueueId i s = s\<lparr> selectedQueueId := i \<rparr>"

definition csm_setMessages :: "int \<Rightarrow> csm_message list \<Rightarrow> csm_state \<Rightarrow> csm_state" where
  "csm_setMessages cid ms s =
     s\<lparr> messagesByConversation := obj_set (num_key cid) ms (messagesByConversation s) \<rparr>"

definition csm_addMessage :: "int \<Rightarrow> csm_message \<Rightarrow> csm_state \<Rightarrow> csm_state" where
  "csm_addMessage cid msg s =
     (let existing = nullish (obj_get (messagesByConversation s) (num_key cid)) []
      in if list_ex (\<lambda>m. cm_id m = cm_id msg) existing then s
         else s\<lparr> messagesByConversation :=
                   obj_set (num_key cid) (existing @ [msg]) (messagesByConversation s) \<rparr>)"

definition csm_setTyping :: "int \<Rightarrow> int \<Rightarrow> bool \<Rightarrow> csm_state \<Rightarrow> csm_state" where
  "csm_setTyping cid uid isTyping s =
     (let current = nullish (obj_get (typingByConversation s) (num_key cid)) [];
          updated = (if isTyping then (if uid \<in> set current then current else current @ [uid])
                     else filter (\<lambda>i. i \<noteq> uid) current)
      in s\<lparr> typingByConversation := obj_set (num_key cid) updated (typingByConversation s) \<rparr>)"

definition csm_setDraft :: "int \<Rightarrow> composer_draft \<Rightarrow> csm_state \<Rightarrow> csm_state" where
  "csm_setDraft cid d s =
     s\<lparr> draftsByConversation := obj_set (num_key cid) d (draftsByConversation s) \<rparr>"

definition csm_clearDraft :: "int \<Rightarrow> csm_state \<Rightarrow> csm_state" where
  "csm_clearDraft cid s =
     (if num_key cid \<notin> set (obj_keys (draftsByConversation s)) then s
      else s\<lparr> draftsByConversation := obj_del (num_key cid) (draftsByConversation s) \<rparr>)"

section \<open>The store as a transition system\<close>

datatype csm_event =
  SetConversations "conversation list"
| UpdateConversation conversation
| SetActive "int option"
| SetQueue "int option"
| SetCsmMessages int "csm_message list"
| AddCsmMessage int csm_message
| Typing int int bool
| SetDraft int composer_draft
| ClearDraft int

fun csm_perform :: "csm_event \<Rightarrow> csm_state \<Rightarrow> csm_state" where
  "csm_perform (SetConversations cs) s = csm_setConversations cs s"
| "csm_perform (UpdateConversation c) s = csm_updateConversation c s"
| "csm_perform (SetActive i) s = csm_setActiveConversation i s"
| "csm_perform (SetQueue i) s = csm_setSelectedQueueId i s"
| "csm_perform (SetCsmMessages cid ms) s = csm_setMessages cid ms s"
| "csm_perform (AddCsmMessage cid m) s = csm_addMessage cid m s"
| "csm_perform (Typing cid uid b) s = csm_setTyping cid uid b s"
| "csm_perform (SetDraft cid d) s = csm_setDraft cid d s"
| "csm_perform (ClearDraft cid) s = csm_clearDraft cid s"

text \<open>The server sends a conversation's messages without repetition.\<close>

fun csm_guard :: "csm_state \<Rightarrow> csm_event \<Rightarrow> bool" where
  "csm_guard s (SetCsmMessages cid ms) = distinct (map cm_id ms)"
| "csm_guard s _ = True"

definition csm_inv :: "csm_state \<Rightarrow> bool" where
  "csm_inv s \<longleftrightarrow> obj_all (\<lambda>ms. distinct (map cm_id ms)) (messagesByConversation s) \<and>
     obj_all distinct (typingByConversation s)"

definition csm_messages :: "int \<Rightarrow> csm_state \<Rightarrow> csm_message list" where
  "csm_messages cid s = nullish (obj_get (messagesByConversation s) (num_key cid)) []"

definition csm_typing :: "int \<Rightarrow> csm_state \<Rightarrow> int list" where
  "csm_typing cid s = nullish (obj_get (typingByConversation s) (num_key cid)) []"

lemmas csm_defs = csm_setConversations_def csm_updateConversation_def csm_setActiveConversation_def
  csm_setSelectedQueueId_def csm_setMessages_def csm_addMessage_def csm_setTyping_def
  csm_setDraft_def csm_clearDraft_def

lemma csm_inv_init [simp]: "csm_inv init_csm_state"
  by (simp add: csm_inv_def init_csm_state_def)

lemma list_ex_cm_id: "list_ex (\<lambda>m. cm_id m = i) ms \<longleftrightarrow> i \<in> cm_id ` set ms"
  by (induction ms) auto

lemma csm_perform_inv: "csm_inv s \<Longrightarrow> csm_guard s e \<Longrightarrow> csm_inv (csm_perform e s)"
proof (cases e)
  case (AddCsmMessage cid m)
  assume inv: "csm_inv s"
  then have "distinct (map cm_id (nullish (obj_get (messagesByConversation s) (num_key cid)) []))"
    using obj_all_nullish [of "\<lambda>ms. distinct (map cm_id ms)" "messagesByConversation s" "[]"]
    by (simp add: csm_inv_def)
  with inv AddCsmMessage show ?thesis
    by (simp add: csm_inv_def csm_defs Let_def list_ex_cm_id obj_all_set)
next
  case (Typing cid uid b)
  assume inv: "csm_inv s"
  then have "distinct (nullish (obj_get (typingByConversation s) (num_key cid)) [])"
    using obj_all_nullish [of distinct "typingByConversation s" "[]"] by (simp add: csm_inv_def)
  with inv Typing show ?thesis
    by (auto simp: csm_inv_def csm_defs Let_def intro!: obj_all_set)
qed (auto simp: csm_inv_def csm_defs intro: obj_all_set)

interpretation csm: event_system csm_guard csm_perform csm_inv
  by unfold_locales (rule csm_perform_inv)

text \<open>Whether a user is typing, by the last event about them.\<close>

fun last_typing :: "int \<Rightarrow> int \<Rightarrow> bool \<Rightarrow> csm_event list \<Rightarrow> bool" where
  "last_typing cid uid b [] = b"
| "last_typing cid uid b (Typing c u t # es) =
     last_typing cid uid (if c = cid \<and> u = uid then t else b) es"
| "last_typing cid uid b (_ # es) = last_typing cid uid b es"

lemma typing_step:
  "uid \<in> set (csm_typing cid (csm_perform e s)) \<longleftrightarrow>
   (case e of Typing c u t \<Rightarrow> if c = cid \<and> u = uid then t else uid \<in> set (csm_typing cid s)
    | _ \<Rightarrow> uid \<in> set (csm_typing cid s))"
  by (cases e) (auto simp: csm_defs csm_typing_def Let_def)

lemma last_typing_Cons:
  "last_typing cid uid b (e # es) =
   last_typing cid uid (case e of Typing c u t \<Rightarrow> if c = cid \<and> u = uid then t else b | _ \<Rightarrow> b) es"
  by (cases e) auto

lemma typing_run:
  "guarded_run csm_guard csm_perform es s = Some s' \<Longrightarrow>
   uid \<in> set (csm_typing cid s') \<longleftrightarrow> last_typing cid uid (uid \<in> set (csm_typing cid s)) es"
proof (induction es arbitrary: s)
  case (Cons e es)
  then have "guarded_run csm_guard csm_perform es (csm_perform e s) = Some s'"
    by (auto split: if_splits)
  from Cons.IH [OF this] show ?case by (simp add: last_typing_Cons typing_step)
qed simp

section \<open>Properties\<close>

text \<open>C28: in every state of the support desk no conversation shows a message twice, no user is listed
  as typing twice, and a user is listed as typing in a conversation exactly if the last event about
  them there said so.\<close>

theorem csm_store_invariant:
  assumes "guarded_run csm_guard csm_perform es init_csm_state = Some s"
  shows "distinct (map cm_id (csm_messages cid s)) \<and> distinct (csm_typing cid s) \<and>
         (uid \<in> set (csm_typing cid s) \<longleftrightarrow> last_typing cid uid False es)"
proof -
  have inv: "csm_inv s" using csm.run_inv [OF assms] by simp
  have "distinct (map cm_id (csm_messages cid s))"
    unfolding csm_messages_def using inv
    by (intro obj_all_nullish [of "\<lambda>ms. distinct (map cm_id ms)"]) (simp_all add: csm_inv_def)
  moreover have "distinct (csm_typing cid s)"
    unfolding csm_typing_def using inv
    by (intro obj_all_nullish [of distinct]) (simp_all add: csm_inv_def)
  moreover have "csm_typing cid init_csm_state = []"
    by (simp add: csm_typing_def init_csm_state_def)
  ultimately show ?thesis using typing_run [OF assms, of uid cid] by simp
qed

theorem csm_store_invariant_witness:
  "\<exists>s. guarded_run csm_guard csm_perform [Typing 1 7 True, Typing 1 7 True, ClearDraft 1, Typing 1 8 True,
          Typing 1 8 False] init_csm_state = Some s \<and> csm_typing 1 s = [7] \<and> 8 \<notin> set (csm_typing 1 s)"
proof -
  define es where "es = [Typing 1 7 True, Typing 1 7 True, ClearDraft 1, Typing 1 8 True, Typing 1 8 False]"
  define s where "s = fold csm_perform es init_csm_state"
  have run: "guarded_run csm_guard csm_perform es init_csm_state = Some s"
    unfolding es_def s_def by (simp del: csm_perform.simps)
  moreover have "csm_typing 1 s = [7]" unfolding s_def es_def
    by (simp add: csm_defs csm_typing_def init_csm_state_def Let_def obj_get_def obj_keys_def)
  moreover have "8 \<notin> set (csm_typing 1 s)"
    using csm_store_invariant [OF run, of 1 8] by (simp add: es_def)
  ultimately show ?thesis unfolding es_def by blast
qed

end
