(* ===== verification/Js_Number.thy ===== *)
theory Js_Number imports Js_Text Complex_Main begin

text \<open>
  Numbers with fractions.  A JavaScript number is an exact rational here: sums, products and
  quotients carry no rounding error, and \<open>Infinity\<close> does not occur.  The code rounds what it
  computes to ten decimal places, so its results are those of the model unless an intermediate
  floating-point error reaches the tenth decimal place.
\<close>

section \<open>Rounding\<close>

definition js_round :: "rat \<Rightarrow> int" where
  "js_round x = floor (x + 1 / 2)"

lemma js_round_of_int [simp]: "js_round (of_int n) = n"
  unfolding js_round_def by (rule floor_unique) simp_all

section \<open>parseFloat\<close>

definition ten_power :: "int \<Rightarrow> rat" where
  "ten_power e = (if 0 \<le> e then 10 ^ nat e else 1 / 10 ^ nat (- e))"

definition exponent_part :: "string \<Rightarrow> int" where
  "exponent_part s =
     (case s of
        [] \<Rightarrow> 0
      | c # r \<Rightarrow>
          if c = CHR ''e'' \<or> c = CHR ''E''
          then (case signed r of (neg, t) \<Rightarrow>
                  (let ds = takeWhile is_digit t
                   in if ds = [] then 0 else if neg then - int (dec_val ds) else int (dec_val ds)))
          else 0)"

definition js_parse_float :: "string \<Rightarrow> rat option" where
  "js_parse_float s =
     (case signed (trim_start s) of (neg, t) \<Rightarrow>
        (let whole = takeWhile is_digit t; r1 = dropWhile is_digit t;
             dotted = (case r1 of [] \<Rightarrow> False | c # _ \<Rightarrow> c = CHR ''.'');
             frac = (if dotted then takeWhile is_digit (tl r1) else []);
             r2 = (if dotted then dropWhile is_digit (tl r1) else r1)
         in if whole = [] \<and> frac = [] then None
            else (let v = of_nat (dec_val (whole @ frac)) *
                          ten_power (exponent_part r2 - int (length frac))
                  in Some (if neg then - v else v))))"

lemma dropWhile_digits: "all_digits s \<Longrightarrow> dropWhile is_digit s = []"
  by (simp add: all_digits_def list_all_iff dropWhile_eq_Nil_conv)

lemma parse_float_digits:
  assumes s: "all_digits s"
  shows "js_parse_float s = Some (of_nat (dec_val s))"
proof -
  have "s \<noteq> []" using s by (simp add: all_digits_def)
  then show ?thesis
    by (simp add: js_parse_float_def trim_start_digits [OF s] signed_digits [OF s] takeWhile_digits [OF s]
        dropWhile_digits [OF s] exponent_part_def ten_power_def)
qed

section \<open>Printing\<close>

text \<open>\<open>toFixed(2)\<close> of a number of hundredths.\<close>

definition fixed2 :: "int \<Rightarrow> string" where
  "fixed2 c =
     (let a = nat \<bar>c\<bar>; cents = nat_dec (a mod 100)
      in (if c < 0 then ''-'' else []) @ nat_dec (a div 100) @ ''.'' @
         (if length cents < 2 then CHR ''0'' # cents else cents))"

definition strip_zeros :: "string \<Rightarrow> string" where
  "strip_zeros s = rev (dropWhile (\<lambda>c. c = CHR ''0'') (rev s))"

text \<open>\<open>Number.prototype.toString\<close> of a positive number with the significant digits \<open>s\<close>, the point
  standing before the digit at position \<open>n\<close>.\<close>

definition number_text :: "string \<Rightarrow> int \<Rightarrow> string" where
  "number_text s n =
     (let k = int (length s)
      in if k \<le> n \<and> n \<le> 21 then s @ replicate (nat (n - k)) (CHR ''0'')
         else if 0 < n \<and> n \<le> 21 then take (nat n) s @ ''.'' @ drop (nat n) s
         else if - 6 < n \<and> n \<le> 0 then ''0.'' @ replicate (nat (- n)) (CHR ''0'') @ s
         else take 1 s @ (if k = 1 then [] else CHR ''.'' # drop 1 s) @ ''e'' @
              (if n - 1 < 0 then ''-'' else ''+'') @ nat_dec (nat \<bar>n - 1\<bar>))"

text \<open>\<open>String(parseFloat(x.toPrecision(15)))\<close> for \<open>x\<close> given in units of the tenth decimal place.\<close>

definition precision15 :: "nat \<Rightarrow> nat" where
  "precision15 m =
     (let d = length (nat_dec m)
      in if d \<le> 15 then m else (m + 5 * 10 ^ (d - 16)) div 10 ^ (d - 15) * 10 ^ (d - 15))"

definition decimal_text :: "int \<Rightarrow> string" where
  "decimal_text m =
     (if m = 0 then ''0''
      else (let a = precision15 (nat \<bar>m\<bar>); ds = nat_dec a
            in (if m < 0 then ''-'' else []) @ number_text (strip_zeros ds) (int (length ds) - 10)))"


end
