(* ===== verification/Sheet_Presence.thy ===== *)
theory Sheet_Presence imports Js_Object Js_Number Event_System begin

text \<open>
  Who is on a sheet and where their cursor is: the store of
  \<open>src/frontend/src/lib/sheetSocketStore.ts\<close>.  A user's colour is computed from a 32-bit hash of
  the user and the tab; the fractions of the colour formula are exact rationals here, so a channel
  may differ by one from a floating-point evaluation that lands next to a half.
\<close>

section \<open>Data\<close>

datatype sheet_ws_state = WsConnecting | WsConnected | WsReconnecting | WsClosed | WsIdle

record sheet_cursor =
  cur_row :: "int option"
  cur_col :: "int option"
  cur_startRow :: "int option"
  cur_endRow :: "int option"
  cur_startCol :: "int option"
  cur_endCol :: "int option"
  cur_isActive :: bool

record sheet_user =
  su_userId :: int
  su_username :: string
  su_clientId :: string
  su_color :: string
  su_cursor :: "sheet_cursor option"

text \<open>A user as the server names them, and a cursor event.\<close>

record wire_user =
  wu_user_id :: int
  wu_username :: "string option"
  wu_client_id :: "string option"

record wire_cursor = wire_user +
  wc_row :: "int option"
  wc_col :: "int option"
  wc_start_row :: "int option"
  wc_end_row :: "int option"
  wc_start_col :: "int option"
  wc_end_col :: "int option"
  wc_is_active :: "bool option"

record sheet_store =
  sheetId :: "int option"
  wsState :: sheet_ws_state
  closeCode :: "int option"
  usersByKey :: "sheet_user obj"

section \<open>Keys and colours\<close>

text \<open>\<open>s?.trim() || d\<close>.\<close>

definition trimmed_or :: "string option \<Rightarrow> string \<Rightarrow> string" where
  "trimmed_or s d = (let t = js_trim (nullish s []) in if t = [] then d else t)"

definition presenceKey :: "int \<Rightarrow> string option \<Rightarrow> string" where
  "presenceKey userId clientId = int_dec userId @ '':'' @ trimmed_or clientId ''default''"

definition color_hash :: "int \<Rightarrow> string \<Rightarrow> 32 word" where
  "color_hash userId key = foldl (\<lambda>h c. h * 31 + of_nat (code_of c)) (word_of_int userId) key"

definition hue2rgb :: "rat \<Rightarrow> rat \<Rightarrow> rat \<Rightarrow> rat" where
  "hue2rgb p q t =
     (let t1 = (if t < 0 then t + 1 else t); tt = (if t1 > 1 then t1 - 1 else t1)
      in if tt < 1 / 6 then p + (q - p) * 6 * tt
         else if tt < 1 / 2 then q
         else if tt < 2 / 3 then p + (q - p) * (2 / 3 - tt) * 6
         else p)"

text \<open>\<open>n.toString(16).padStart(2, '0')\<close> for a channel.\<close>

definition hex_digit :: "nat \<Rightarrow> char" where
  "hex_digit d = (if d < 10 then digit_char d else char_of (87 + d))"

fun nat_hex :: "nat \<Rightarrow> string" where
  "nat_hex n = (if n < 16 then [hex_digit n] else nat_hex (n div 16) @ [hex_digit (n mod 16)])"

declare nat_hex.simps [simp del]

definition hex_channel :: "rat \<Rightarrow> string" where
  "hex_channel x =
     (let s = nat_hex (nat (js_round (x * 255))) in if length s < 2 then CHR ''0'' # s else s)"

definition hashColorForUser :: "int \<Rightarrow> string \<Rightarrow> string" where
  "hashColorForUser userId key =
     (let hash = unat (color_hash userId key);
          h = of_nat (hash mod 360) / 360;
          s = of_nat (48 + hash mod 14) / 100;
          l = of_nat (44 + hash mod 10) / 100;
          q = (if l < 1 / 2 then l * (1 + s) else l + s - l * s);
          p = 2 * l - q
      in ''#'' @ hex_channel (hue2rgb p q (h + 1 / 3)) @ hex_channel (hue2rgb p q h) @
         hex_channel (hue2rgb p q (h - 1 / 3)))"

section \<open>Actions\<close>

definition init_sheet_store :: sheet_store where
  "init_sheet_store = \<lparr> sheetId = None, wsState = WsIdle, closeCode = None, usersByKey = [] \<rparr>"

definition setSheetId :: "int option \<Rightarrow> sheet_store \<Rightarrow> sheet_store" where
  "setSheetId i s = s\<lparr> sheetId := i \<rparr>"

definition setWsState :: "sheet_ws_state \<Rightarrow> sheet_store \<Rightarrow> sheet_store" where
  "setWsState w s = s\<lparr> wsState := w \<rparr>"

definition setCloseCode :: "int option \<Rightarrow> sheet_store \<Rightarrow> sheet_store" where
  "setCloseCode c s = s\<lparr> closeCode := c \<rparr>"

definition user_label :: "int \<Rightarrow> string" where
  "user_label i = ''User '' @ int_dec i"

definition nonempty :: "string option \<Rightarrow> string option" where
  "nonempty s = (if s = Some [] then None else s)"

definition snapshot_user :: "sheet_user option \<Rightarrow> wire_user \<Rightarrow> sheet_user" where
  "snapshot_user existing u =
     \<lparr> su_userId = wu_user_id u,
       su_username = trimmed_or (wu_username u) (user_label (wu_user_id u)),
       su_clientId = trimmed_or (wu_client_id u) ''default'',
       su_color = nullish (nonempty (map_option su_color existing))
         (hashColorForUser (wu_user_id u) (presenceKey (wu_user_id u) (wu_client_id u))),
       su_cursor = Option.bind existing su_cursor \<rparr>"

definition applySnapshot :: "wire_user list \<Rightarrow> sheet_store \<Rightarrow> sheet_store" where
  "applySnapshot users s =
     s\<lparr> usersByKey :=
          foldl (\<lambda>next u. let k = str_key (presenceKey (wu_user_id u) (wu_client_id u))
                          in obj_set k (snapshot_user (obj_get (usersByKey s) k) u) next) [] users \<rparr>"

definition applyJoin :: "wire_user \<Rightarrow> sheet_store \<Rightarrow> sheet_store" where
  "applyJoin u s =
     (let k = str_key (presenceKey (wu_user_id u) (wu_client_id u))
      in if obj_get (usersByKey s) k \<noteq> None then s
         else s\<lparr> usersByKey := obj_set k (snapshot_user None u) (usersByKey s) \<rparr>)"

definition applyLeave :: "wire_user \<Rightarrow> sheet_store \<Rightarrow> sheet_store" where
  "applyLeave u s =
     (let k = str_key (presenceKey (wu_user_id u) (wu_client_id u))
      in if obj_get (usersByKey s) k = None
         then (if nonempty (wu_client_id u) = None
               then s\<lparr> usersByKey :=
                         filter (\<lambda>kv. su_userId (snd kv) \<noteq> wu_user_id u) (usersByKey s) \<rparr>
               else s)
         else s\<lparr> usersByKey := obj_del k (usersByKey s) \<rparr>)"

definition event_cursor :: "wire_cursor \<Rightarrow> sheet_cursor option" where
  "event_cursor e =
     (if wc_is_active e = Some False then None
      else Some \<lparr> cur_row = wc_row e, cur_col = wc_col e, cur_startRow = wc_start_row e,
                  cur_endRow = wc_end_row e, cur_startCol = wc_start_col e,
                  cur_endCol = wc_end_col e, cur_isActive = True \<rparr>)"

definition applyCursor :: "wire_cursor \<Rightarrow> sheet_store \<Rightarrow> sheet_store" where
  "applyCursor e s =
     (let key = presenceKey (wu_user_id e) (wu_client_id e); k = str_key key;
          existing = obj_get (usersByKey s) k
      in s\<lparr> usersByKey :=
             obj_set k
               \<lparr> su_userId = wu_user_id e,
                 su_username = trimmed_or (wu_username e)
                   (nullish (nonempty (map_option su_username existing)) (user_label (wu_user_id e))),
                 su_clientId = trimmed_or (wu_client_id e)
                   (nullish (nonempty (map_option su_clientId existing)) ''default''),
                 su_color = nullish (nonempty (map_option su_color existing))
                   (hashColorForUser (wu_user_id e) key),
                 su_cursor = event_cursor e \<rparr>
               (usersByKey s) \<rparr>)"

definition resetSheet :: "sheet_store \<Rightarrow> sheet_store" where
  "resetSheet s = init_sheet_store"

definition selectRemotePresenceUsers ::
  "sheet_user obj \<Rightarrow> int option \<Rightarrow> string \<Rightarrow> sheet_user list" where
  "selectRemotePresenceUsers users localUserId localClientId =
     filter (\<lambda>u. if localUserId = None then True
                 else if su_userId u \<noteq> the localUserId then True
                 else su_clientId u \<noteq> localClientId)
       (obj_values users)"

lemmas sheet_action_defs = setSheetId_def setWsState_def setCloseCode_def applySnapshot_def
  applyJoin_def applyLeave_def applyCursor_def resetSheet_def

section \<open>The store as a transition system\<close>

datatype sheet_event =
  SheetSnapshot "wire_user list"
| SheetJoin wire_user
| SheetLeave wire_user
| SheetCursor wire_cursor
| SheetId "int option"
| SheetWs sheet_ws_state
| SheetCode "int option"
| SheetReset

fun sheet_perform :: "sheet_event \<Rightarrow> sheet_store \<Rightarrow> sheet_store" where
  "sheet_perform (SheetSnapshot us) s = applySnapshot us s"
| "sheet_perform (SheetJoin u) s = applyJoin u s"
| "sheet_perform (SheetLeave u) s = applyLeave u s"
| "sheet_perform (SheetCursor e) s = applyCursor e s"
| "sheet_perform (SheetId i) s = setSheetId i s"
| "sheet_perform (SheetWs w) s = setWsState w s"
| "sheet_perform (SheetCode c) s = setCloseCode c s"
| "sheet_perform SheetReset s = resetSheet s"

definition any_sheet_event :: "sheet_store \<Rightarrow> sheet_event \<Rightarrow> bool" where
  "any_sheet_event s e \<longleftrightarrow> True"

definition user_key :: "int \<Rightarrow> string \<Rightarrow> string" where
  "user_key userId clientId = int_dec userId @ '':'' @ clientId"

definition user_ok :: "pkey \<times> sheet_user \<Rightarrow> bool" where
  "user_ok ku \<longleftrightarrow>
     (case ku of (k, u) \<Rightarrow>
        k = str_key (user_key (su_userId u) (su_clientId u)) \<and>
        su_clientId u \<noteq> [] \<and> su_username u \<noteq> [] \<and>
        su_color u = hashColorForUser (su_userId u) (user_key (su_userId u) (su_clientId u)))"

definition sheet_ok :: "sheet_store \<Rightarrow> bool" where
  "sheet_ok s \<longleftrightarrow> list_all user_ok (usersByKey s) \<and> obj_ok (usersByKey s)"

lemma int_dec_prefix: "takeWhile (\<lambda>c. c \<noteq> CHR '':'') (int_dec n @ '':'' @ s) = int_dec n"
  using int_dec_no_colon [of n] by (subst takeWhile_append2) auto

lemma user_key_inject: "user_key i c = user_key j d \<longleftrightarrow> i = j \<and> c = d"
proof
  assume eq: "user_key i c = user_key j d"
  then have "int_dec i = int_dec j" unfolding user_key_def by (metis int_dec_prefix)
  with eq show "i = j \<and> c = d" by (simp add: user_key_def)
qed simp

lemma presenceKey_user_key: "presenceKey i c = user_key i (trimmed_or c ''default'')"
  by (simp add: presenceKey_def user_key_def)

lemma trimmed_or_nonempty: "d \<noteq> [] \<Longrightarrow> trimmed_or s d \<noteq> []"
  by (simp add: trimmed_or_def Let_def)

lemma user_label_nonempty [simp]: "user_label i \<noteq> []"
  by (simp add: user_label_def)

lemma nonempty_or: "d \<noteq> [] \<Longrightarrow> nullish (nonempty s) d \<noteq> []"
  by (cases s) (auto simp: nonempty_def)

lemma user_ok_colour: "user_ok (k, u) \<Longrightarrow> su_color u \<noteq> []"
  by (simp add: user_ok_def hashColorForUser_def Let_def)

lemma user_ok_same_key:
  "user_ok (str_key (user_key i c), u) \<Longrightarrow> su_userId u = i \<and> su_clientId u = c"
  by (auto simp: user_ok_def str_key_inject user_key_inject)

lemma snapshot_user_ok:
  assumes "\<And>u. existing = Some u \<Longrightarrow> user_ok (str_key (presenceKey (wu_user_id w) (wu_client_id w)), u)"
  shows "user_ok (str_key (presenceKey (wu_user_id w) (wu_client_id w)), snapshot_user existing w)"
proof (cases existing)
  case None
  then show ?thesis
    by (simp add: user_ok_def snapshot_user_def presenceKey_user_key trimmed_or_nonempty nonempty_def)
next
  case (Some u)
  then have ok: "user_ok (str_key (user_key (wu_user_id w) (trimmed_or (wu_client_id w) ''default'')), u)"
    using assms by (simp add: presenceKey_user_key)
  from user_ok_colour [OF ok] user_ok_same_key [OF ok] ok show ?thesis
    by (simp add: user_ok_def snapshot_user_def presenceKey_user_key trimmed_or_nonempty nonempty_def Some)
qed

lemma users_get: "list_all user_ok ob \<Longrightarrow> obj_get ob k = Some u \<Longrightarrow> user_ok (k, u)"
  using obj_get_in [of ob k u] by (auto simp: list_all_iff)

lemma users_set: "list_all user_ok ob \<Longrightarrow> user_ok (k, u) \<Longrightarrow> list_all user_ok (obj_set k u ob)"
  using set_obj_set [of k u ob] by (auto simp: list_all_iff)

lemma snapshot_ok: "sheet_ok s \<Longrightarrow> sheet_ok (applySnapshot us s)"
proof -
  assume s: "sheet_ok s"
  have "list_all user_ok next \<Longrightarrow> obj_ok next \<Longrightarrow>
    (let r = foldl (\<lambda>next u. let k = str_key (presenceKey (wu_user_id u) (wu_client_id u))
                  in obj_set k (snapshot_user (obj_get (usersByKey s) k) u) next) next us
     in list_all user_ok r \<and> obj_ok r)" for "next"
  proof (induction us arbitrary: "next")
    case (Cons u us)
    let ?k = "str_key (presenceKey (wu_user_id u) (wu_client_id u))"
    have "user_ok (?k, snapshot_user (obj_get (usersByKey s) ?k) u)"
      using s by (intro snapshot_user_ok users_get) (auto simp: sheet_ok_def)
    with Cons.prems Cons.IH show ?case by (simp add: users_set obj_ok_set Let_def)
  qed simp
  from this [of "[]"] show ?thesis
    by (simp add: sheet_ok_def applySnapshot_def Let_def obj_ok_def obj_keys_def)
qed

lemma obj_ok_filter: "obj_ok ob \<Longrightarrow> obj_ok (filter P ob)"
  by (induction ob) (auto simp: obj_ok_def obj_keys_def)

lemma cursor_ok: "sheet_ok s \<Longrightarrow> sheet_ok (applyCursor e s)"
proof -
  assume s: "sheet_ok s"
  let ?i = "wu_user_id e" and ?c = "trimmed_or (wu_client_id e) ''default''"
  let ?k = "str_key (user_key ?i ?c)"
  define x where "x = obj_get (usersByKey s) ?k"
  have ok: "user_ok (?k, u)" if "x = Some u" for u
    using s that by (auto simp: sheet_ok_def x_def intro: users_get)
  have client: "trimmed_or (wu_client_id e) (nullish (nonempty (map_option su_clientId x)) ''default'') = ?c"
  proof (cases x)
    case (Some u)
    then have "su_clientId u = ?c" using user_ok_same_key [OF ok] by simp
    with Some show ?thesis by (simp add: trimmed_or_def Let_def nonempty_def)
  qed (simp add: nonempty_def)
  have colour: "nullish (nonempty (map_option su_color x)) (hashColorForUser ?i (user_key ?i ?c)) =
      hashColorForUser ?i (user_key ?i ?c)"
  proof (cases x)
    case (Some u)
    with ok have u: "user_ok (?k, u)" by simp
    with user_ok_same_key [OF u] have "su_color u = hashColorForUser ?i (user_key ?i ?c)"
      by (simp add: user_ok_def)
    with user_ok_colour [OF u] Some show ?thesis by (simp add: nonempty_def)
  qed (simp add: nonempty_def)
  have "user_ok (?k, \<lparr> su_userId = ?i,
      su_username = trimmed_or (wu_username e) (nullish (nonempty (map_option su_username x)) (user_label ?i)),
      su_clientId = ?c, su_color = hashColorForUser ?i (user_key ?i ?c), su_cursor = event_cursor e \<rparr>)"
    by (simp add: user_ok_def trimmed_or_nonempty nonempty_or)
  then show ?thesis
    using s client colour
    by (simp add: sheet_ok_def applyCursor_def Let_def presenceKey_user_key users_set obj_ok_set flip: x_def)
qed

lemma sheet_perform_ok: "sheet_ok s \<Longrightarrow> sheet_ok (sheet_perform e s)"
proof (cases e)
  case (SheetJoin u)
  assume "sheet_ok s"
  then show ?thesis
    unfolding SheetJoin using snapshot_user_ok [of None u]
    by (auto simp: sheet_ok_def applyJoin_def Let_def users_set obj_ok_set)
next
  case (SheetLeave u)
  assume "sheet_ok s"
  then show ?thesis unfolding SheetLeave
    by (auto simp: sheet_ok_def applyLeave_def Let_def list_all_iff obj_ok_filter obj_ok_del obj_del_def)
next
  case (SheetSnapshot us)
  assume "sheet_ok s"
  then show ?thesis unfolding SheetSnapshot by (simp add: snapshot_ok)
next
  case (SheetCursor c)
  assume "sheet_ok s"
  then show ?thesis unfolding SheetCursor by (simp add: cursor_ok)
qed (auto simp: setSheetId_def setWsState_def setCloseCode_def resetSheet_def
      init_sheet_store_def sheet_ok_def obj_ok_def obj_keys_def)

lemma sheet_ok_init [simp]: "sheet_ok init_sheet_store"
  by (simp add: init_sheet_store_def sheet_ok_def obj_ok_def obj_keys_def)

interpretation sheet: event_system any_sheet_event sheet_perform sheet_ok
  by unfold_locales (rule sheet_perform_ok)

lemma users_distinct:
  assumes "sheet_ok s"
  shows "distinct (map (\<lambda>u. (su_userId u, su_clientId u)) (obj_values (usersByKey s)))"
proof -
  have "map fst (usersByKey s) =
      map (\<lambda>u. str_key (user_key (su_userId u) (su_clientId u))) (obj_values (usersByKey s))"
    using assms by (auto simp: sheet_ok_def list_all_iff user_ok_def obj_values_def)
  also have "\<dots> = map (\<lambda>(i, c). str_key (user_key i c))
      (map (\<lambda>u. (su_userId u, su_clientId u)) (obj_values (usersByKey s)))" by simp
  finally have "distinct (map (\<lambda>(i, c). str_key (user_key i c))
      (map (\<lambda>u. (su_userId u, su_clientId u)) (obj_values (usersByKey s))))"
    using assms by (simp add: sheet_ok_def obj_ok_def obj_keys_def)
  then show ?thesis by (rule distinct_map [THEN iffD1, THEN conjunct1])
qed

lemma shown_user_ok:
  assumes "sheet_ok s" and "u \<in> set (obj_values (usersByKey s))"
  shows "su_color u = hashColorForUser (su_userId u) (user_key (su_userId u) (su_clientId u))"
    and "su_username u \<noteq> [] \<and> su_clientId u \<noteq> []"
  using assms by (auto simp: sheet_ok_def list_all_iff user_ok_def obj_values_def)

section \<open>Properties\<close>

text \<open>C29: whatever presence events two viewers of a sheet have received, in whatever order, a tab that
  both see has the same colour for both; and a viewer never sees a tab twice, or one without a name
  or an identifier.\<close>

theorem sheet_presence_consistent:
  assumes "reaches any_sheet_event sheet_perform init_sheet_store s"
    and "reaches any_sheet_event sheet_perform init_sheet_store t"
  shows "(\<forall>u \<in> set (obj_values (usersByKey s)). \<forall>v \<in> set (obj_values (usersByKey t)).
            su_userId u = su_userId v \<and> su_clientId u = su_clientId v \<longrightarrow> su_color u = su_color v) \<and>
         distinct (map (\<lambda>u. (su_userId u, su_clientId u)) (obj_values (usersByKey s))) \<and>
         (\<forall>u \<in> set (obj_values (usersByKey s)). su_username u \<noteq> [] \<and> su_clientId u \<noteq> [])"
proof -
  have s: "sheet_ok s" using sheet.reaches_inv [OF assms(1)] by simp
  have t: "sheet_ok t" using sheet.reaches_inv [OF assms(2)] by simp
  show ?thesis
    using shown_user_ok(1) [OF s] shown_user_ok(1) [OF t] shown_user_ok(2) [OF s] users_distinct [OF s]
    by simp
qed

definition ada :: wire_user where
  "ada = \<lparr> wu_user_id = 7, wu_username = Some '' Ada '', wu_client_id = Some ''tab-1'' \<rparr>"

theorem sheet_presence_consistent_witness:
  "su_color (hd (obj_values (usersByKey (sheet_perform (SheetJoin ada) init_sheet_store)))) =
   su_color (hd (obj_values (usersByKey (sheet_perform (SheetSnapshot [ada]) init_sheet_store))))"
proof -
  define s where "s = sheet_perform (SheetJoin ada) init_sheet_store"
  define t where "t = sheet_perform (SheetSnapshot [ada]) init_sheet_store"
  have r: "reaches any_sheet_event sheet_perform init_sheet_store s"
      "reaches any_sheet_event sheet_perform init_sheet_store t"
    unfolding s_def t_def by (rule reaches_step [OF reaches_init]; simp add: any_sheet_event_def)+
  have "obj_values (usersByKey s) = [snapshot_user None ada]"
      "obj_values (usersByKey t) = [snapshot_user None ada]"
    by (simp_all add: s_def t_def applyJoin_def applySnapshot_def init_sheet_store_def Let_def obj_values_def)
  then have "hd (obj_values (usersByKey s)) \<in> set (obj_values (usersByKey s))"
      "hd (obj_values (usersByKey t)) \<in> set (obj_values (usersByKey t))"
      "su_userId (hd (obj_values (usersByKey s))) = su_userId (hd (obj_values (usersByKey t)))"
      "su_clientId (hd (obj_values (usersByKey s))) = su_clientId (hd (obj_values (usersByKey t)))"
    by simp_all
  then show ?thesis
    using conjunct1 [OF sheet_presence_consistent [OF r]] unfolding s_def t_def by blast
qed

end
