(* ===== verification/Sheet_Revision.thy ===== *)
theory Sheet_Revision imports Js_Object begin

text \<open>
  The structure revision of each sheet that is open
  (\<open>src/frontend/src/lib/sheetRevisionStore.ts\<close>): requests carry the revision they were made
  against, responses and broadcasts raise it.  A value that arrives from outside is a \<open>prim_value\<close>;
  \<open>PNum NaN\<close> stands for every number that is not an integer, which the code treats alike.
\<close>

section \<open>Values from outside\<close>

datatype prim_value = PUndefined | PNull | PBool bool | PNum js_num | PStr string

fun prim_number :: "prim_value \<Rightarrow> js_num" where
  "prim_number PUndefined = NaN"
| "prim_number PNull = Num 0"
| "prim_number (PBool b) = Num (if b then 1 else 0)"
| "prim_number (PNum n) = n"
| "prim_number (PStr s) = js_number s"

text \<open>\<open>Number.isSafeInteger(x) && x >= 0\<close>, and the integer then.\<close>

definition safe_count :: "js_num \<Rightarrow> int option" where
  "safe_count x = (case x of NaN \<Rightarrow> None | Num n \<Rightarrow> if is_safe_integer n \<and> 0 \<le> n then Some n else None)"

section \<open>The store\<close>

type_synonym revisions = "(string, int) jmap"

record conflict_payload =
  payload_code :: prim_value
  current_revision :: prim_value

definition isSheetRevisionConflictResponse :: "prim_value \<Rightarrow> conflict_payload option \<Rightarrow> bool" where
  "isSheetRevisionConflictResponse status data =
     (case data of
        None \<Rightarrow> False
      | Some payload \<Rightarrow>
          if safe_count (prim_number (current_revision payload)) = None then False
          else payload_code payload = PStr ''SHEET_REVISION_CONFLICT'' \<or> status = PNum (Num 409))"

fun revision_key :: "js_id \<Rightarrow> string" where
  "revision_key (NumId n) = int_dec n"
| "revision_key (StrId s) = s"

definition getSheetRevision :: "js_id \<Rightarrow> revisions \<Rightarrow> int option" where
  "getSheetRevision sid revs = jmap_get revs (revision_key sid)"

definition setSheetRevision :: "js_id \<Rightarrow> prim_value \<Rightarrow> revisions \<Rightarrow> int option \<times> revisions" where
  "setSheetRevision sid revision revs =
     (case safe_count (prim_number revision) of
        None \<Rightarrow> (getSheetRevision sid revs, revs)
      | Some parsed \<Rightarrow>
          (let current = getSheetRevision sid revs
           in if (case current of None \<Rightarrow> True | Some c \<Rightarrow> parsed > c)
              then (Some parsed, jmap_set (revision_key sid) parsed revs)
              else (current, revs)))"

definition clearSheetRevision :: "js_id \<Rightarrow> revisions \<Rightarrow> revisions" where
  "clearSheetRevision sid revs = jmap_delete (revision_key sid) revs"

definition withBaseRevision :: "js_id \<Rightarrow> js_val obj \<Rightarrow> revisions \<Rightarrow> js_val obj" where
  "withBaseRevision sid body revs =
     (case getSheetRevision sid revs of
        None \<Rightarrow> body
      | Some r \<Rightarrow> obj_set (Name ''base_revision'') (JNum (int_dec r)) body)"

text \<open>The event carries the sheet as a number and the revision that is now known.\<close>

definition publishSheetRevisionConflict ::
  "js_id \<Rightarrow> prim_value \<Rightarrow> revisions \<Rightarrow> (js_num \<times> int) option \<times> revisions" where
  "publishSheetRevisionConflict sid currentRevision revs =
     (case setSheetRevision sid currentRevision revs of
        (r, revs') \<Rightarrow> (map_option (\<lambda>n. (id_number sid, n)) r, revs'))"

section \<open>Lemmas\<close>

text \<open>At most as high as: an unknown revision is below every known one.\<close>

definition revision_upto :: "revisions \<Rightarrow> revisions \<Rightarrow> bool" where
  "revision_upto r r' \<longleftrightarrow> (\<forall>k n. jmap_get r k = Some n \<longrightarrow> (\<exists>n'. jmap_get r' k = Some n' \<and> n \<le> n'))"

lemma revision_upto_refl [simp]: "revision_upto r r"
  by (simp add: revision_upto_def)

lemma revision_upto_trans: "revision_upto a b \<Longrightarrow> revision_upto b c \<Longrightarrow> revision_upto a c"
  unfolding revision_upto_def by (meson order_trans)

lemma setSheetRevision_upto: "revision_upto revs (snd (setSheetRevision sid v revs))"
  by (auto simp: setSheetRevision_def revision_upto_def getSheetRevision_def Let_def jmap_get_set
      split: option.split)

lemma setSheetRevision_result:
  "getSheetRevision sid (snd (setSheetRevision sid v revs)) = fst (setSheetRevision sid v revs)"
  by (auto simp: setSheetRevision_def getSheetRevision_def Let_def jmap_get_set split: option.split)

lemma setSheetRevision_num:
  assumes "is_safe_integer n" and "0 \<le> n"
  shows "getSheetRevision sid (snd (setSheetRevision sid (PNum (Num n)) revs)) =
         Some (case getSheetRevision sid revs of None \<Rightarrow> n | Some c \<Rightarrow> max c n)"
  using assms
  by (auto simp: setSheetRevision_def safe_count_def getSheetRevision_def Let_def jmap_get_set
      split: option.splits)

end
