(* ===== verification/Sheet_Socket.thy ===== *)
theory Sheet_Socket imports Sheet_Presence Sheet_Revision begin

text \<open>
  The live connection of a sheet: the effect of \<open>src/frontend/src/hooks/useSheetSocket.ts\<close> as a
  state machine.  Its state is what the effect's closure and refs hold, the sockets it created with
  the ready state the browser gives them, and the two shared stores.  Every callback is one
  operation; what the callback reads from outside (the clock, \<open>Math.random\<close>, whether \<open>close\<close> throws)
  is an argument.  When the effect is cleaned up its sockets become orphans: they are closing, and
  their \<open>onclose\<close> still runs in the stopped effect.  The callbacks of the options are given; what they
  are called with is logged in \<open>effects\<close>.
\<close>

section \<open>Messages\<close>

record remote_cell =
  rc_row_position :: int
  rc_column_position :: int
  rc_value_type :: prim_value
  rc_string_value :: prim_value
  rc_number_value :: prim_value
  rc_boolean_value :: prim_value
  rc_formula_value :: prim_value
  rc_raw_input :: prim_value
  rc_computed_type :: prim_value
  rc_computed_number :: prim_value
  rc_computed_string :: prim_value
  rc_error_code :: prim_value
  rc_is_deleted :: prim_value
  rc_updated_at :: prim_value

text \<open>The messages by their \<open>type\<close>; a list is \<open>None\<close> when the property is not an array.\<close>

datatype sheet_body =
  PresenceSnapshot "wire_user list option"
| PresenceJoin wire_user
| PresenceLeave wire_user
| CursorUpdated wire_cursor
| CellsUpdated "string option" prim_value "remote_cell list option"
| RefreshRequired "string option" prim_value "string option"
| OtherBody

text \<open>\<open>Malformed\<close>: the frame is not JSON, or has no string as its type.\<close>

datatype sheet_message = Malformed | Message prim_value sheet_body

datatype hook_effect = OnCells "remote_cell list" | OnRefresh string | Ping nat

section \<open>The state of the hook\<close>

datatype ready_state = RConnecting | ROpen | RClosing | RClosed

record socket_hook =
  hook_clientId :: string
  hook_localUserId :: "int option"
  hook_sheetId :: int
  mounted :: bool
  hadConnection :: bool
  heartbeat :: "nat option"
  lastHeartbeatAt :: int
  hiddenAt :: "int option"
  resumePending :: bool
  connectionAttempt :: nat
  failureCount :: nat
  sockets :: "ready_state list"
  wsRef :: "nat option"
  reconnectTimer :: "int option"
  tickets :: "nat list"
  orphans :: "ready_state list"
  sheet_store :: sheet_store
  revs :: revisions
  effects :: "hook_effect list"

definition init_hook :: "string \<Rightarrow> int option \<Rightarrow> socket_hook" where
  "init_hook clientId localUserId =
     \<lparr> hook_clientId = clientId, hook_localUserId = localUserId, hook_sheetId = 0, mounted = False,
       hadConnection = False, heartbeat = None, lastHeartbeatAt = 0, hiddenAt = None,
       resumePending = False, connectionAttempt = 0, failureCount = 0, sockets = [], wsRef = None,
       reconnectTimer = None, tickets = [], orphans = [], sheet_store = init_sheet_store, revs = [],
       effects = [] \<rparr>"

definition on_store :: "(sheet_store \<Rightarrow> sheet_store) \<Rightarrow> socket_hook \<Rightarrow> socket_hook" where
  "on_store f s = s\<lparr> sheet_store := f (sheet_store s) \<rparr>"

definition log_effect :: "hook_effect \<Rightarrow> socket_hook \<Rightarrow> socket_hook" where
  "log_effect e s = s\<lparr> effects := effects s @ [e] \<rparr>"

section \<open>Reconnecting\<close>

definition stopHeartbeat :: "socket_hook \<Rightarrow> socket_hook" where
  "stopHeartbeat s = s\<lparr> heartbeat := None \<rparr>"

definition scheduleReconnect :: "int \<Rightarrow> socket_hook \<Rightarrow> socket_hook" where
  "scheduleReconnect delayMs s = (if \<not> mounted s then s else s\<lparr> reconnectTimer := Some delayMs \<rparr>)"

definition base_delay :: "nat \<Rightarrow> int" where
  "base_delay failures = min 30000 (1500 * 2 ^ min failures 5)"

definition jittered :: "int \<Rightarrow> rat \<Rightarrow> int" where
  "jittered delay random = js_round (of_int delay * (3 / 4 + random * (1 / 2)))"

definition nextReconnectDelay :: "rat \<Rightarrow> socket_hook \<Rightarrow> int \<times> socket_hook" where
  "nextReconnectDelay random s =
     (jittered (base_delay (failureCount s)) random, s\<lparr> failureCount := failureCount s + 1 \<rparr>)"

definition scheduleBackoff :: "rat \<Rightarrow> socket_hook \<Rightarrow> socket_hook" where
  "scheduleBackoff random s =
     (case nextReconnectDelay random s of (d, s1) \<Rightarrow> scheduleReconnect d s1)"

text \<open>\<open>close()\<close> on a socket that is connecting or open starts the closing handshake.\<close>

definition start_close :: "ready_state \<Rightarrow> ready_state" where
  "start_close r = (if r = RClosed then RClosed else RClosing)"

definition forceResumeReconnect :: "bool \<Rightarrow> socket_hook \<Rightarrow> socket_hook" where
  "forceResumeReconnect closeThrows s =
     (if \<not> mounted s \<or> resumePending s \<or> \<not> hadConnection s then s
      else (let s1 = s\<lparr> resumePending := True, connectionAttempt := connectionAttempt s + 1,
                       heartbeat := None, reconnectTimer := None \<rparr>;
                s2 = on_store (setWsState WsReconnecting \<circ> applySnapshot []) s1;
                fresh = scheduleReconnect 0 (s2\<lparr> wsRef := None, resumePending := False \<rparr>)
            in case wsRef s2 of
                 None \<Rightarrow> fresh
               | Some i \<Rightarrow>
                   if sockets s2 ! i \<noteq> RClosed
                   then (let s3 = (if sockets s2 ! i \<noteq> RClosing \<and> \<not> closeThrows
                                   then s2\<lparr> sockets := (sockets s2)[i := RClosing] \<rparr> else s2)
                         in if sockets s3 ! i = RClosing \<or> sockets s3 ! i = RClosed then s3
                            else fresh)
                   else fresh))"

definition connect_begin :: "socket_hook \<Rightarrow> socket_hook" where
  "connect_begin s =
     (if \<not> mounted s then s
      else (let attempt = connectionAttempt s + 1; prev = wsState (sheet_store s);
                s1 = s\<lparr> reconnectTimer := None, connectionAttempt := attempt \<rparr>;
                s2 = on_store (setWsState (if prev = WsConnected \<or> prev = WsReconnecting
                                           then WsReconnecting else WsConnecting)) s1
            in s2\<lparr> tickets := tickets s @ [attempt] \<rparr>))"

definition answer_ticket :: "nat \<Rightarrow> socket_hook \<Rightarrow> socket_hook" where
  "answer_ticket attempt s = s\<lparr> tickets := filter (\<lambda>a. a \<noteq> attempt) (tickets s) \<rparr>"

definition connect_fail :: "nat \<Rightarrow> rat \<Rightarrow> socket_hook \<Rightarrow> socket_hook" where
  "connect_fail attempt random s =
     (if mounted s \<and> attempt = connectionAttempt s
      then scheduleBackoff random (on_store (setWsState WsReconnecting) (answer_ticket attempt s))
      else answer_ticket attempt s)"

definition connect_ok :: "nat \<Rightarrow> socket_hook \<Rightarrow> socket_hook" where
  "connect_ok attempt s =
     (if \<not> mounted s \<or> attempt \<noteq> connectionAttempt s then answer_ticket attempt s
      else (answer_ticket attempt s)
             \<lparr> sockets := sockets s @ [RConnecting], wsRef := Some (length (sockets s)) \<rparr>)"

section \<open>The callbacks of a socket\<close>

definition onopen :: "nat \<Rightarrow> int \<Rightarrow> socket_hook \<Rightarrow> socket_hook" where
  "onopen i now s =
     (let s0 = s\<lparr> sockets := (sockets s)[i := ROpen] \<rparr>
      in if \<not> mounted s then s0
         else (let s1 = s0\<lparr> lastHeartbeatAt := now, resumePending := False, failureCount := 0,
                           heartbeat := Some i \<rparr>;
                   s2 = on_store (setCloseCode None \<circ> setWsState WsConnected) s1;
                   s3 = (if hadConnection s then log_effect (OnRefresh ''reconnected'') s2 else s2)
               in s3\<lparr> hadConnection := True \<rparr>))"

definition heartbeat_tick :: "int \<Rightarrow> bool \<Rightarrow> socket_hook \<Rightarrow> socket_hook" where
  "heartbeat_tick now closeThrows s =
     (case heartbeat s of
        None \<Rightarrow> s
      | Some i \<Rightarrow>
          if sockets s ! i = ROpen
          then (if now - lastHeartbeatAt s \<ge> 20000 then forceResumeReconnect closeThrows s
                else log_effect (Ping i) (s\<lparr> lastHeartbeatAt := now \<rparr>))
          else s)"

definition parseRevision :: "prim_value \<Rightarrow> int option" where
  "parseRevision v =
     (if v = PNull \<or> v = PUndefined \<or> v = PStr [] then None else safe_count (prim_number v))"

definition raise_revision :: "int option \<Rightarrow> socket_hook \<Rightarrow> socket_hook" where
  "raise_revision r s =
     (case r of
        None \<Rightarrow> s
      | Some n \<Rightarrow> s\<lparr> revs := snd (setSheetRevision (NumId (hook_sheetId s)) (PNum (Num n)) (revs s)) \<rparr>)"

definition current_rev :: "socket_hook \<Rightarrow> int option" where
  "current_rev s = getSheetRevision (NumId (hook_sheetId s)) (revs s)"

text \<open>Comparisons that are false unless both revisions are known.\<close>

definition both :: "(int \<Rightarrow> int \<Rightarrow> bool) \<Rightarrow> int option \<Rightarrow> int option \<Rightarrow> bool" where
  "both P a b = (case a of None \<Rightarrow> False | Some x \<Rightarrow> (case b of None \<Rightarrow> False | Some y \<Rightarrow> P x y))"

definition own_origin :: "string option \<Rightarrow> socket_hook \<Rightarrow> bool" where
  "own_origin origin s \<longleftrightarrow> origin \<noteq> None \<and> origin \<noteq> Some [] \<and> origin = Some (hook_clientId s)"

definition handle_cells ::
  "string option \<Rightarrow> prim_value \<Rightarrow> remote_cell list option \<Rightarrow> socket_hook \<Rightarrow> socket_hook" where
  "handle_cells origin revision cells s =
     (if own_origin origin s then s
      else (let eventRevision = parseRevision revision; current = current_rev s
            in if both (<) eventRevision current then s
               else if both (>) eventRevision current
               then log_effect (OnRefresh ''revision_gap'') (raise_revision eventRevision s)
               else (let s1 = raise_revision eventRevision s; cs = nullish cells []
                     in if length cs > 0 then log_effect (OnCells cs) s1 else s1)))"

definition handle_refresh ::
  "string option \<Rightarrow> prim_value \<Rightarrow> string option \<Rightarrow> socket_hook \<Rightarrow> socket_hook" where
  "handle_refresh origin revision reason s =
     (if own_origin origin s then s
      else (let eventRevision = parseRevision revision; current = current_rev s
            in if both (\<le>) eventRevision current then s
               else log_effect
                      (OnRefresh (if both (\<lambda>e c. e > c + 1) eventRevision current
                                  then ''revision_gap'' else nullish reason ''unknown''))
                      (raise_revision eventRevision s)))"

definition onmessage :: "sheet_message \<Rightarrow> socket_hook \<Rightarrow> socket_hook" where
  "onmessage m s =
     (case m of
        Malformed \<Rightarrow> s
      | Message sid body \<Rightarrow>
          if sid \<noteq> PNull \<and> sid \<noteq> PUndefined \<and> \<not> num_eq (prim_number sid) (Num (hook_sheetId s)) then s
          else (case body of
                  PresenceSnapshot us \<Rightarrow> on_store (applySnapshot (nullish us [])) s
                | PresenceJoin u \<Rightarrow> on_store (applyJoin u) s
                | PresenceLeave u \<Rightarrow> on_store (applyLeave u) s
                | CursorUpdated e \<Rightarrow>
                    if own_origin (wu_client_id e) s \<and> Some (wu_user_id e) = hook_localUserId s then s
                    else on_store (applyCursor e) s
                | CellsUpdated origin revision cells \<Rightarrow> handle_cells origin revision cells s
                | RefreshRequired origin revision reason \<Rightarrow> handle_refresh origin revision reason s
                | OtherBody \<Rightarrow> s))"

definition onclose :: "nat \<Rightarrow> int \<Rightarrow> rat \<Rightarrow> socket_hook \<Rightarrow> socket_hook" where
  "onclose i code random s =
     (let s0 = stopHeartbeat (s\<lparr> sockets := (sockets s)[i := RClosed] \<rparr>);
          s1 = on_store (applySnapshot []) s0;
          s2 = (if wsRef s1 = Some i then s1\<lparr> wsRef := None \<rparr> else s1);
          s3 = on_store (setCloseCode (Some code)) s2;
          reconnectImmediately = resumePending s3;
          s4 = s3\<lparr> resumePending := False \<rparr>
      in if \<not> mounted s4 then on_store (setWsState WsClosed) s4
         else if code = 4001 \<or> code = 4003 then on_store (setWsState WsClosed) s4
         else (let s5 = on_store (setWsState WsReconnecting) s4
               in if reconnectImmediately then scheduleReconnect 0 s5 else scheduleBackoff random s5))"

text \<open>\<open>onclose\<close> of a socket whose effect was cleaned up.\<close>

definition orphan_close :: "nat \<Rightarrow> int \<Rightarrow> socket_hook \<Rightarrow> socket_hook" where
  "orphan_close i code s =
     on_store (setWsState WsClosed \<circ> setCloseCode (Some code) \<circ> applySnapshot [])
       (s\<lparr> orphans := (orphans s)[i := RClosed] \<rparr>)"

section \<open>The effect and the listeners\<close>

definition mount :: "int \<Rightarrow> int \<Rightarrow> bool \<Rightarrow> socket_hook \<Rightarrow> socket_hook" where
  "mount sheet now hidden s =
     connect_begin
       (on_store (setCloseCode None \<circ> setWsState WsConnecting \<circ> setSheetId (Some sheet))
         (s\<lparr> hook_sheetId := sheet, mounted := True, hadConnection := False, heartbeat := None,
            lastHeartbeatAt := now, hiddenAt := (if hidden then Some now else None),
            resumePending := False, connectionAttempt := 0, failureCount := 0, sockets := [],
            tickets := [] \<rparr>))"

text \<open>Without a sheet or a token the effect only resets the store.\<close>

definition mount_idle :: "socket_hook \<Rightarrow> socket_hook" where
  "mount_idle s = on_store resetSheet s"

definition unmount :: "socket_hook \<Rightarrow> socket_hook" where
  "unmount s =
     on_store resetSheet
       (s\<lparr> mounted := False, reconnectTimer := None, heartbeat := None,
          orphans := orphans s @ map start_close (sockets s), sockets := [], tickets := [],
          wsRef := None \<rparr>)"

definition handle_hidden :: "int \<Rightarrow> socket_hook \<Rightarrow> socket_hook" where
  "handle_hidden now s = s\<lparr> hiddenAt := Some now \<rparr>"

definition handle_visible :: "int \<Rightarrow> bool \<Rightarrow> socket_hook \<Rightarrow> socket_hook" where
  "handle_visible now closeThrows s =
     (let hiddenFor = (case hiddenAt s of None \<Rightarrow> 0 | Some t \<Rightarrow> now - t);
          s1 = s\<lparr> hiddenAt := None \<rparr>
      in if hiddenFor \<ge> 20000 \<or> now - lastHeartbeatAt s1 \<ge> 20000
         then forceResumeReconnect closeThrows s1 else s1)"

definition handle_focus :: "int \<Rightarrow> bool \<Rightarrow> socket_hook \<Rightarrow> socket_hook" where
  "handle_focus now closeThrows s =
     (if now - lastHeartbeatAt s \<ge> 20000 then forceResumeReconnect closeThrows s else s)"

definition handle_page_show :: "bool \<Rightarrow> bool \<Rightarrow> socket_hook \<Rightarrow> socket_hook" where
  "handle_page_show persisted closeThrows s =
     (if persisted then forceResumeReconnect closeThrows s else s)"

definition handle_conflict :: "js_num \<Rightarrow> socket_hook \<Rightarrow> socket_hook" where
  "handle_conflict sheet s =
     (if num_eq sheet (Num (hook_sheetId s)) then log_effect (OnRefresh ''revision_conflict'') s else s)"

definition sendCursorUpdate :: "socket_hook \<Rightarrow> bool \<Rightarrow> bool" where
  "sendCursorUpdate s sendThrows =
     (case wsRef s of
        None \<Rightarrow> False
      | Some i \<Rightarrow> if sockets s ! i \<noteq> ROpen then False else \<not> sendThrows)"

section \<open>The hook as a transition system\<close>

datatype socket_event =
  Mount int int bool | MountIdle | Unmount
| TicketOk nat | TicketFail nat rat | TimerFires
| WsOpen nat int | WsMessage nat sheet_message | WsClose nat int rat | OrphanClose nat int
| HeartbeatTick int bool
| PageHidden int | PageVisible int bool | PageFocus int bool | PageOnline bool | PageShow bool bool
| ConflictEvent js_num
| RestRevision js_id prim_value

text \<open>\<open>RestRevision\<close>: a REST response carries the revision of a sheet.\<close>

fun socket_perform :: "socket_event \<Rightarrow> socket_hook \<Rightarrow> socket_hook" where
  "socket_perform (Mount sheet now hid) s = mount sheet now hid s"
| "socket_perform MountIdle s = mount_idle s"
| "socket_perform Unmount s = unmount s"
| "socket_perform (TicketOk a) s = connect_ok a s"
| "socket_perform (TicketFail a r) s = connect_fail a r s"
| "socket_perform TimerFires s = connect_begin s"
| "socket_perform (WsOpen i now) s = onopen i now s"
| "socket_perform (WsMessage i m) s = onmessage m s"
| "socket_perform (WsClose i code r) s = onclose i code r s"
| "socket_perform (OrphanClose i code) s = orphan_close i code s"
| "socket_perform (HeartbeatTick now b) s = heartbeat_tick now b s"
| "socket_perform (PageHidden now) s = handle_hidden now s"
| "socket_perform (PageVisible now b) s = handle_visible now b s"
| "socket_perform (PageFocus now b) s = handle_focus now b s"
| "socket_perform (PageOnline b) s = forceResumeReconnect b s"
| "socket_perform (PageShow p b) s = handle_page_show p b s"
| "socket_perform (ConflictEvent n) s = handle_conflict n s"
| "socket_perform (RestRevision sid v) s = s\<lparr> revs := snd (setSheetRevision sid v (revs s)) \<rparr>"

text \<open>What the browser lets happen: a socket opens once, delivers messages while it is open, closes
  once; the listeners are there while the effect is mounted.  \<open>close\<close> with the code and reason of the
  hook does not throw.\<close>

fun socket_guard :: "socket_hook \<Rightarrow> socket_event \<Rightarrow> bool" where
  "socket_guard s (Mount _ _ _) \<longleftrightarrow> \<not> mounted s"
| "socket_guard s MountIdle \<longleftrightarrow> \<not> mounted s"
| "socket_guard s Unmount \<longleftrightarrow> mounted s"
| "socket_guard s (TicketOk a) \<longleftrightarrow> a \<in> set (tickets s)"
| "socket_guard s (TicketFail a r) \<longleftrightarrow> a \<in> set (tickets s) \<and> 0 \<le> r \<and> r < 1"
| "socket_guard s TimerFires \<longleftrightarrow> reconnectTimer s \<noteq> None"
| "socket_guard s (WsOpen i _) \<longleftrightarrow> i < length (sockets s) \<and> sockets s ! i = RConnecting"
| "socket_guard s (WsMessage i _) \<longleftrightarrow> i < length (sockets s) \<and> sockets s ! i = ROpen"
| "socket_guard s (WsClose i _ r) \<longleftrightarrow>
     i < length (sockets s) \<and> sockets s ! i \<noteq> RClosed \<and> 0 \<le> r \<and> r < 1"
| "socket_guard s (OrphanClose i _) \<longleftrightarrow> i < length (orphans s) \<and> orphans s ! i = RClosing"
| "socket_guard s (HeartbeatTick _ b) \<longleftrightarrow> heartbeat s \<noteq> None \<and> \<not> b"
| "socket_guard s (PageHidden _) \<longleftrightarrow> mounted s"
| "socket_guard s (PageVisible _ b) \<longleftrightarrow> mounted s \<and> \<not> b"
| "socket_guard s (PageFocus _ b) \<longleftrightarrow> mounted s \<and> \<not> b"
| "socket_guard s (PageOnline b) \<longleftrightarrow> mounted s \<and> \<not> b"
| "socket_guard s (PageShow _ b) \<longleftrightarrow> mounted s \<and> \<not> b"
| "socket_guard s (ConflictEvent _) \<longleftrightarrow> mounted s"
| "socket_guard s (RestRevision _ _) \<longleftrightarrow> True"

end
