(* ===== verification/Sheet_Sync.thy ===== *)
theory Sheet_Sync imports Sheet_Connection begin

text \<open>
  The properties of the live connection of a sheet (\<open>Sheet_Socket\<close>, \<open>Sheet_Connection\<close>) and of the
  revisions it keeps (\<open>Sheet_Revision\<close>), with the runs that show their hypotheses can hold.
\<close>

section \<open>Delays of reachable states\<close>

lemma delay_ok_timer: "reconnectTimer t = reconnectTimer s \<Longrightarrow> delay_ok t = delay_ok s"
  by (simp add: delay_ok_def)

lemma delay_ok_None: "reconnectTimer s = None \<Longrightarrow> delay_ok s"
  by (simp add: delay_ok_def)

lemma timer_connection: "connection t = (ts, n, rs, w, timer, m) \<Longrightarrow> reconnectTimer t = timer"
  by (simp add: connection_def)

lemma force_delay: "conn_inv s \<Longrightarrow> delay_ok s \<Longrightarrow> delay_ok (forceResumeReconnect False s)"
  using force_connection [of s]
  by (cases "wsRef s") (auto simp: connection_def delay_ok_def split: if_splits)

lemma delay_step:
  assumes "conn_inv s \<and> delay_ok s" and "socket_guard s e"
  shows "conn_inv (socket_perform e s) \<and> delay_ok (socket_perform e s)"
proof -
  have "delay_ok (socket_perform e s)"
    using assms
  proof (induction e s rule: socket_perform.induct)
    case (5 a r s)
    then show ?case
      using delay_bounds [of r]
      by (auto simp: delay_ok_def connect_fail_def answer_ticket_def scheduleBackoff_def
          nextReconnectDelay_def scheduleReconnect_def)
  next
    case (7 i now s)
    then show ?case using timer_connection [OF onopen_connection] by (simp add: delay_ok_def)
  next
    case (8 i m s)
    then show ?case using onmessage_same [of s m] by (simp add: delay_ok_def same_connection_def)
  next
    case (9 i code r s)
    then have ref: "wsRef s = Some i" using live_ref by simp
    with 9 have "mounted s" using ref_mounted by blast
    from timer_connection [OF onclose_connection [OF ref this, of code r]] 9 delay_bounds [of r]
    show ?case by (auto simp: delay_ok_def split: if_splits)
  next
    case (11 now b s)
    then show ?case
      using force_delay [of s] by (auto simp: heartbeat_tick_def delay_ok_def split: option.splits)
  next
    case (13 now b s)
    then have "conn_inv (s\<lparr> hiddenAt := None \<rparr>)" "delay_ok (s\<lparr> hiddenAt := None \<rparr>)"
      by (simp_all add: conn_inv_def delay_ok_def)
    with 13 force_delay show ?case by (simp add: handle_visible_def Let_def)
  qed (simp_all add: force_delay handle_focus_def handle_page_show_def handle_conflict_def,
    auto simp: delay_ok_def mount_def mount_idle_def unmount_def connect_begin_def connect_ok_def
      answer_ticket_def orphan_close_def handle_hidden_def Let_def)
  with assms show ?thesis by (simp add: socket_step_inv)
qed

interpretation delays: event_system socket_guard socket_perform "\<lambda>s. conn_inv s \<and> delay_ok s"
  by unfold_locales (rule delay_step)

section \<open>Revisions\<close>

lemma raise_revision_upto: "revision_upto (revs s) (revs (raise_revision r s))"
  by (cases r) (simp_all add: raise_revision_def setSheetRevision_upto)

lemma onmessage_revs: "revision_upto (revs s) (revs (onmessage m s))"
  using raise_revision_upto [of s]
  by (auto simp: onmessage_def handle_cells_def handle_refresh_def Let_def
      split: sheet_message.split sheet_body.split)

lemma force_revs: "revs (forceResumeReconnect b s) = revs s"
  by (simp add: forceResumeReconnect_def scheduleReconnect_def Let_def split: option.split)

lemma step_revs: "revision_upto (revs s) (revs (socket_perform e s))"
proof (induction e s rule: socket_perform.induct)
  case (8 i m s)
  show ?case by (simp add: onmessage_revs)
next
  case (18 sid v s)
  show ?case by (simp add: setSheetRevision_upto)
qed (simp_all add: force_revs heartbeat_tick_def handle_visible_def handle_focus_def handle_page_show_def
    handle_conflict_def handle_hidden_def mount_def mount_idle_def unmount_def connect_begin_def
    connect_ok_def connect_fail_def answer_ticket_def scheduleBackoff_def nextReconnectDelay_def
    scheduleReconnect_def onopen_def onclose_def stopHeartbeat_def orphan_close_def Let_def
    split: option.split)

lemma parse_safe: "parseRevision v = Some n \<Longrightarrow> is_safe_integer n \<and> 0 \<le> n"
  by (auto simp: parseRevision_def safe_count_def split: js_num.splits if_splits)

lemma current_raised:
  "parseRevision v = Some n \<Longrightarrow>
   current_rev (raise_revision (Some n) s) = Some (case current_rev s of None \<Rightarrow> n | Some c \<Rightarrow> max c n)"
  using parse_safe [of v n]
  by (simp add: current_rev_def raise_revision_def setSheetRevision_num)

lemma cells_logged:
  assumes "effects (onmessage m s) = effects s @ [OnCells cs]"
  shows "\<exists>sid origin v. m = Message sid (CellsUpdated origin v (Some cs)) \<and> \<not> own_origin origin s \<and>
     (parseRevision v = None \<or> current_rev s = None \<or> parseRevision v = current_rev s)"
proof -
  have eff: "effects (raise_revision r s) = effects s" for r
    by (simp add: raise_revision_def split: option.split)
  show ?thesis
    using assms
    by (auto simp: onmessage_def handle_cells_def handle_refresh_def eff both_def nullish_def Let_def
        split: sheet_message.splits sheet_body.splits if_splits option.splits)
qed

section \<open>Properties\<close>


text \<open>C30: as long as the server does not reject the client, a mounted sheet is at most four events away
  from being connected, whatever has happened before: it never gets stuck.\<close>

theorem connection_recovers:
  assumes "reaches served socket_perform (init_hook c u) s" and "mounted s"
  shows "\<exists>es s'. guarded_run served socket_perform es s = Some s' \<and> length es \<le> 4 \<and> online s'"
proof -
  have inv: "served_inv s" using served.reaches_inv [OF assms(1)] by simp
  then have c: "conn_inv s" by (simp add: served_inv_def)
  from inv assms(2) consider i where "wsRef s = Some i" | "reconnectTimer s \<noteq> None"
    | "connectionAttempt s \<in> set (tickets s)"
    by (auto simp: served_inv_def under_way_def connection_def)
  then have "recovers 4 s"
    using recovers_socket [OF c] recovers_mono [OF recovers_timer [OF c]]
      recovers_mono [OF recovers_ticket [OF c]] by cases simp_all
  then show ?thesis by (simp add: recovers_def)
qed

text \<open>A scheduled reconnect runs at once, after a resume, or after 1.1 to 37.5 seconds: the backoff
  starts at 1.5 seconds, never exceeds 30, and the jitter moves it by a quarter at most.\<close>

lemma reconnect_delay_bounds:
  assumes "reaches socket_guard socket_perform (init_hook c u) s" and "reconnectTimer s = Some d"
  shows "d = 0 \<or> 1125 \<le> d \<and> d \<le> 37500"
proof -
  have "delay_ok (init_hook c u)" by (simp add: delay_ok_def init_hook_def)
  then have "delay_ok s" using delays.reaches_inv [OF assms(1)] by simp
  with assms(2) show ?thesis by (simp add: delay_ok_def)
qed

text \<open>C4: the revision a tab knows of a sheet never goes back; cells of a broadcast are applied only if
  they come from another tab and carry no revision or the one the tab has; a broadcast with a later
  revision is not applied but makes the tab reload and remember that revision.\<close>

theorem sheet_revision_protocol:
  assumes "reaches socket_guard socket_perform s0 s"
  shows "revision_upto (revs s0) (revs s) \<and>
         (effects (onmessage m s) = effects s @ [OnCells cs] \<longrightarrow>
            (\<exists>sid origin v. m = Message sid (CellsUpdated origin v (Some cs)) \<and> \<not> own_origin origin s \<and>
               (parseRevision v = None \<or> current_rev s = None \<or> parseRevision v = current_rev s))) \<and>
         (m = Message PNull (CellsUpdated origin v cells) \<and> \<not> own_origin origin s \<and>
            parseRevision v = Some r \<and> current_rev s = Some r0 \<and> r0 < r \<longrightarrow>
            effects (onmessage m s) = effects s @ [OnRefresh ''revision_gap''] \<and>
            current_rev (onmessage m s) = Some r)"
proof -
  have "revision_upto (revs s0) (revs s)"
    using assms
  proof (induction rule: reaches.induct)
    case (reaches_step s e)
    from reaches_step.IH step_revs show ?case by (rule revision_upto_trans)
  qed simp
  moreover have "effects (onmessage m s) = effects s @ [OnRefresh ''revision_gap''] \<and>
      current_rev (onmessage m s) = Some r"
    if m: "m = Message PNull (CellsUpdated origin v cells)" and "\<not> own_origin origin s"
      and rv: "parseRevision v = Some r" and cr: "current_rev s = Some r0" and "r0 < r"
  proof -
    have step: "onmessage m s = log_effect (OnRefresh ''revision_gap'') (raise_revision (Some r) s)"
      using that by (simp add: onmessage_def handle_cells_def both_def)
    show ?thesis
      using current_raised [OF rv, of s] cr \<open>r0 < r\<close>
      by (simp add: step current_rev_def, simp add: raise_revision_def)
  qed
  ultimately show ?thesis using cells_logged [of m s cs] by blast
qed

text \<open>When the effect of a sheet was cleaned up and a new one is connected, the late \<open>onclose\<close> of an
  old socket writes to the store they share: the sheet is shown as closed and without other users,
  although its own connection is open, and no reconnect is scheduled that would correct it.\<close>

lemma late_close_hides_connection:
  assumes "reaches socket_guard socket_perform (init_hook c u) s"
    and "online s" and "j < length (orphans s)" and "orphans s ! j = RClosing"
  shows "socket_guard s (OrphanClose j code) \<and>
         (let s' = socket_perform (OrphanClose j code) s
          in wsState (sheet_store s') = WsClosed \<and> usersByKey (sheet_store s') = [] \<and>
             sockets s' = sockets s \<and> wsRef s' = wsRef s \<and> mounted s' \<and> reconnectTimer s' = None)"
proof -
  have inv: "conn_inv s" using socket.reaches_inv [OF assms(1)] by simp
  obtain i where ref: "wsRef s = Some i" using assms(2) by (auto simp: online_def split: option.splits)
  have "mounted s" using inv ref by (rule ref_mounted)
  moreover have "reconnectTimer s = None" using timer_waits [OF inv] ref by fastforce
  ultimately show ?thesis
    using assms(3,4)
    by (simp add: orphan_close_def setWsState_def setCloseCode_def applySnapshot_def)
qed

section \<open>Witnesses\<close>

definition first_run :: "socket_event list" where
  "first_run = [Mount 1 0 False, TicketOk 1, WsOpen 0 5]"

definition switch_run :: "socket_event list" where
  "switch_run = first_run @ [Unmount, Mount 2 10 False, TicketOk 1, WsOpen 0 15,
     WsMessage 0 (Message PNull (PresenceJoin ada))]"

definition run_from_start :: "socket_event list \<Rightarrow> socket_hook" where
  "run_from_start es = fold socket_perform es (init_hook ''tab-2'' (Some 3))"

lemmas hook_steps = first_run_def switch_run_def run_from_start_def init_hook_def mount_def unmount_def
  connect_begin_def connect_ok_def answer_ticket_def onopen_def onmessage_def on_store_def
  init_sheet_store_def setSheetId_def setWsState_def setCloseCode_def resetSheet_def start_close_def

lemma first_reaches:
  "guarded_run served socket_perform first_run (init_hook ''tab-2'' (Some 3)) = Some (run_from_start first_run)"
  by (simp add: hook_steps)

lemma switch_reaches:
  "guarded_run socket_guard socket_perform switch_run (init_hook ''tab-2'' (Some 3)) =
   Some (run_from_start switch_run)"
  by (simp add: hook_steps)


theorem connection_recovers_witness:
  "\<exists>es s'. guarded_run served socket_perform es (run_from_start first_run) = Some s' \<and>
     length es \<le> 4 \<and> online s'"
  by (rule connection_recovers [OF guarded_run_reaches [OF first_reaches]]) (simp add: hook_steps)

definition failed_run :: "socket_event list" where
  "failed_run = [Mount 1 0 False, TicketFail 1 (1 / 2)]"

lemma reconnect_delay_bounds_witness:
  "reconnectTimer (run_from_start failed_run) = Some 1500 \<and> (1125 :: int) \<le> 1500"
proof -
  have run: "guarded_run socket_guard socket_perform failed_run (init_hook ''tab-2'' (Some 3)) =
      Some (run_from_start failed_run)"
    by (simp add: failed_run_def hook_steps)
  have "\<lfloor>3001 / 2 :: rat\<rfloor> = 1500" by (rule floor_unique) simp_all
  then have "reconnectTimer (run_from_start failed_run) = Some 1500"
    by (simp add: failed_run_def hook_steps connect_fail_def scheduleBackoff_def nextReconnectDelay_def
        scheduleReconnect_def jittered_def base_delay_def js_round_def)
  with reconnect_delay_bounds [OF guarded_run_reaches [OF run]] show ?thesis by fastforce
qed

definition known_revision :: socket_hook where
  "known_revision = (run_from_start switch_run)\<lparr> revs := [(''2'', 5)] \<rparr>"

theorem sheet_revision_protocol_witness:
  "current_rev (onmessage (Message PNull (CellsUpdated (Some ''tab-9'') (PNum (Num 7)) (Some []))) known_revision) =
   Some 7"
proof -
  have "int_dec 2 = ''2''" by code_simp
  then have rev: "current_rev known_revision = Some 5"
    by (simp add: current_rev_def known_revision_def getSheetRevision_def jmap_get_def hook_steps)
  have "\<not> own_origin (Some ''tab-9'') known_revision"
    by (simp add: own_origin_def known_revision_def hook_steps)
  moreover have "parseRevision (PNum (Num 7)) = Some 7"
    by (simp add: parseRevision_def safe_count_def is_safe_integer_def max_safe_integer_def)
  ultimately show ?thesis
    using sheet_revision_protocol [OF reaches_init, where m = "Message PNull (CellsUpdated (Some ''tab-9'') (PNum (Num 7)) (Some []))" and s = known_revision
        and origin = "Some ''tab-9''" and v = "PNum (Num 7)" and cells = "Some []" and r = 7 and ?r0.0 = 5] rev by simp
qed

lemma late_close_hides_connection_witness:
  "let s' = socket_perform (OrphanClose 0 1005) (run_from_start switch_run)
   in wsState (sheet_store s') = WsClosed \<and> usersByKey (sheet_store s') = []"
proof -
  have "online (run_from_start switch_run)" "0 < length (orphans (run_from_start switch_run))"
    "orphans (run_from_start switch_run) ! 0 = RClosing"
    by (simp_all add: online_def applyJoin_def hook_steps)
  from late_close_hides_connection [OF guarded_run_reaches [OF switch_reaches] this, of 1005]
  show ?thesis by (simp add: Let_def)
qed

end
