(* ===== verification/Timeline.thy ===== *)
theory Timeline imports Js_Object Js_Date begin

text \<open>
  Recorded spreadsheet patterns: the steps and groups of the timeline
  (\<open>src/frontend/src/types/patterns.ts\<close>), its operations
  (\<open>src/frontend/src/lib/spreadsheets/timelineItems.ts\<close>) and the recording of header renames
  (\<open>src/frontend/src/lib/spreadsheets/patternRecorder.ts\<close>).

  The step types share \<open>id\<close>, \<open>type\<close>, \<open>disabled\<close> and \<open>createdAt\<close>; the properties that only some have
  (\<open>target\<close>, \<open>a1\<close>, \<open>formula\<close> of a formula, \<open>params\<close> of the others) are optional, so that spreading an
  update over a step is fieldwise.
\<close>

section \<open>Steps and groups\<close>

datatype step_kind =
  APPLY_FORMULA | INSERT_ROW | INSERT_COLUMN | DELETE_COLUMN | FILL_SERIES | SET_COLUMN_NAME
| APPLY_HIGHLIGHT

record cell_target =
  tg_row :: int
  tg_col :: int

record rename_params =
  rp_header_row_index :: int
  rp_from_header :: "string option"
  rp_to_header :: string
  rp_column_index :: int
  rp_locator_from_header :: "string option"
  rp_locator_fallback_index :: int

text \<open>The highlight's scope and targets are only copied.\<close>

datatype step_params =
  InsertRowParams int bool
| InsertColumnParams int bool
| DeleteColumnParams int
| FillSeriesParams cell_target int int int int
| RenameParams rename_params
| HighlightParams js_val

record pattern_step =
  st_id :: string
  st_kind :: step_kind
  st_disabled :: bool
  st_createdAt :: string
  st_target :: "cell_target option"
  st_a1 :: "string option"
  st_formula :: "string option"
  st_params :: "step_params option"

record operation_group =
  gr_id :: string
  gr_name :: string
  gr_items :: "pattern_step list"
  gr_collapsed :: bool
  gr_createdAt :: string

datatype timeline_item = Operation pattern_step | Group operation_group

fun item_id :: "timeline_item \<Rightarrow> string" where
  "item_id (Operation s) = st_id s"
| "item_id (Group g) = gr_id g"

fun isOperationGroup :: "timeline_item \<Rightarrow> bool" where
  "isOperationGroup (Operation s) = False"
| "isOperationGroup (Group g) = True"

fun item_steps :: "timeline_item \<Rightarrow> pattern_step list" where
  "item_steps (Operation s) = [s]"
| "item_steps (Group g) = gr_items g"

definition flattenTimelineItems :: "timeline_item list \<Rightarrow> pattern_step list" where
  "flattenTimelineItems items = concat (map item_steps items)"

definition getTimelineItemIds :: "timeline_item list \<Rightarrow> string list" where
  "getTimelineItemIds items =
     concat (map (\<lambda>item. item_id item #
                    (case item of Operation _ \<Rightarrow> [] | Group g \<Rightarrow> map st_id (gr_items g))) items)"

section \<open>The payload of a pattern\<close>

datatype payload_params =
  FormulaParams "cell_target option" "string option" "string option"
| StepParams "step_params option"

record step_payload =
  pl_seq :: int
  pl_type :: step_kind
  pl_disabled :: bool
  pl_params :: payload_params

record group_item_payload =
  gi_type :: step_kind
  gi_params :: payload_params
  gi_disabled :: bool

datatype create_step = StepPayload step_payload | GroupPayload int bool string "group_item_payload list"

definition buildStepPayload :: "pattern_step \<Rightarrow> int \<Rightarrow> step_payload" where
  "buildStepPayload s seq =
     \<lparr> pl_seq = seq, pl_type = st_kind s, pl_disabled = st_disabled s,
       pl_params = (if st_kind s = APPLY_FORMULA
                    then FormulaParams (st_target s) (st_a1 s) (st_formula s)
                    else StepParams (st_params s)) \<rparr>"

definition group_item :: "pattern_step \<Rightarrow> group_item_payload" where
  "group_item s =
     (let pl = buildStepPayload s 0
      in \<lparr> gi_type = pl_type pl, gi_params = pl_params pl, gi_disabled = pl_disabled pl \<rparr>)"

fun create_steps_loop :: "int \<Rightarrow> timeline_item list \<Rightarrow> create_step list" where
  "create_steps_loop seq [] = []"
| "create_steps_loop seq (Group g # items) =
     GroupPayload seq False (gr_name g) (map group_item (gr_items g)) # create_steps_loop (seq + 1) items"
| "create_steps_loop seq (Operation s # items) =
     StepPayload (buildStepPayload s seq) # create_steps_loop (seq + 1) items"

definition timelineItemsToCreateSteps :: "timeline_item list \<Rightarrow> create_step list" where
  "timelineItemsToCreateSteps items = create_steps_loop 1 items"

section \<open>Editing the timeline\<close>

fun delete_item :: "string \<Rightarrow> timeline_item \<Rightarrow> timeline_item list" where
  "delete_item i (Operation s) = (if st_id s = i then [] else [Operation s])"
| "delete_item i (Group g) =
     (if gr_id g = i then []
      else [Group (g\<lparr> gr_items := filter (\<lambda>s. st_id s \<noteq> i) (gr_items g) \<rparr>)])"

definition deleteTimelineItemById :: "timeline_item list \<Rightarrow> string \<Rightarrow> timeline_item list" where
  "deleteTimelineItemById items i = concat (map (delete_item i) items)"

record step_patch =
  sp_id :: "string option"
  sp_kind :: "step_kind option"
  sp_disabled :: "bool option"
  sp_createdAt :: "string option"
  sp_target :: "cell_target option"
  sp_a1 :: "string option"
  sp_formula :: "string option"
  sp_params :: "step_params option"

record group_patch =
  gp_name :: "string option"
  gp_collapsed :: "bool option"
  gp_items :: "pattern_step list option"

datatype item_update = StepUpdate step_patch | GroupUpdate group_patch

text \<open>Spreading a group update over a step adds properties that no step has.\<close>

fun spread_pattern_step :: "pattern_step \<Rightarrow> item_update \<Rightarrow> pattern_step" where
  "spread_pattern_step s (GroupUpdate _) = s"
| "spread_pattern_step s (StepUpdate u) =
     \<lparr> st_id = nullish (sp_id u) (st_id s), st_kind = nullish (sp_kind u) (st_kind s),
       st_disabled = nullish (sp_disabled u) (st_disabled s),
       st_createdAt = nullish (sp_createdAt u) (st_createdAt s),
       st_target = orelse (sp_target u) (st_target s), st_a1 = orelse (sp_a1 u) (st_a1 s),
       st_formula = orelse (sp_formula u) (st_formula s),
       st_params = orelse (sp_params u) (st_params s) \<rparr>"

fun update_group :: "operation_group \<Rightarrow> item_update \<Rightarrow> operation_group" where
  "update_group g (StepUpdate _) = g"
| "update_group g (GroupUpdate u) =
     (case gp_name u of
        Some n \<Rightarrow> g\<lparr> gr_name := n \<rparr>
      | None \<Rightarrow>
          (case gp_collapsed u of
             Some c \<Rightarrow> g\<lparr> gr_collapsed := c \<rparr>
           | None \<Rightarrow> (case gp_items u of Some ss \<Rightarrow> g\<lparr> gr_items := ss \<rparr> | None \<Rightarrow> g)))"

fun update_item :: "string \<Rightarrow> item_update \<Rightarrow> timeline_item \<Rightarrow> timeline_item" where
  "update_item i u (Operation s) =
     (if st_id s = i then Operation (spread_pattern_step s u) else Operation s)"
| "update_item i u (Group g) =
     (if gr_id g = i then Group (update_group g u)
      else Group (g\<lparr> gr_items := map_where (\<lambda>s. st_id s = i) (\<lambda>s. spread_pattern_step s u)
                                   (gr_items g) \<rparr>))"

definition updateTimelineItemById ::
  "timeline_item list \<Rightarrow> string \<Rightarrow> item_update \<Rightarrow> timeline_item list" where
  "updateTimelineItemById items i u = map (update_item i u) items"

fun findStepById :: "timeline_item list \<Rightarrow> string \<Rightarrow> pattern_step option" where
  "findStepById [] i = None"
| "findStepById (Group g # items) i =
     (case List.find (\<lambda>s. st_id s = i) (gr_items g) of
        Some s \<Rightarrow> Some s
      | None \<Rightarrow> findStepById items i)"
| "findStepById (Operation s # items) i = (if st_id s = i then Some s else findStepById items i)"

definition findTimelineItemIndexById :: "timeline_item list \<Rightarrow> string \<Rightarrow> int" where
  "findTimelineItemIndexById items i =
     (case find_index (\<lambda>item. item_id item = i) items of None \<Rightarrow> - 1 | Some k \<Rightarrow> int k)"

definition moveStepOutOfGroup ::
  "timeline_item list \<Rightarrow> string \<Rightarrow> pattern_step \<Rightarrow> timeline_item list" where
  "moveStepOutOfGroup items groupId step =
     (case find_index (\<lambda>item. item_id item = groupId) items of
        None \<Rightarrow> items
      | Some k \<Rightarrow>
          (case items ! k of
             Operation _ \<Rightarrow> items
           | Group g \<Rightarrow>
               (let remaining = filter (\<lambda>s. st_id s \<noteq> st_id step) (gr_items g);
                    before = take k items; after = drop (Suc k) items
                in case remaining of
                     [] \<Rightarrow> before @ [Operation step] @ after
                   | [single] \<Rightarrow> before @ [Operation single, Operation step] @ after
                   | _ \<Rightarrow> before @ [Group (g\<lparr> gr_items := remaining \<rparr>), Operation step] @ after)))"

end
