(* ===== verification/Rename_Recorder.thy ===== *)
theory Rename_Recorder imports Timeline begin

text \<open>
  Recording the rename of a column header as a step of a pattern
  (\<open>src/frontend/src/lib/spreadsheets/patternRecorder.ts\<close> and its caller in
  \<open>src/frontend/src/app/(project)/spreadsheets/[spreadsheetId]/page.tsx\<close>), the
  properties of the timeline.
\<close>

section \<open>Recording\<close>

definition HEADER_ROW_INDEX :: int where
  "HEADER_ROW_INDEX = 0"

definition RENAME_DEDUP_WINDOW_MS :: int where
  "RENAME_DEDUP_WINDOW_MS = 1500"

definition shouldRecordHeaderRename :: "int \<Rightarrow> bool" where
  "shouldRecordHeaderRename rowIndex \<longleftrightarrow> rowIndex = HEADER_ROW_INDEX"

record dedup_entry =
  dd_stepId :: string
  dd_timestamp :: int

type_synonym dedup_state = "dedup_entry obj"

record rename_input =
  ri_columnIndex :: int
  ri_newName :: string
  ri_oldName :: "string option"
  ri_headerRowIndex :: "int option"

text \<open>\<open>replace(/\s+/g, ' ')\<close>: every run of white space becomes one space.\<close>

function collapse_spaces :: "string \<Rightarrow> string" where
  "collapse_spaces [] = []"
| "collapse_spaces (c # s) =
     (if is_space c then CHR '' '' # collapse_spaces (dropWhile is_space s) else c # collapse_spaces s)"
  by pat_completeness auto
termination by (relation "measure length") (auto simp: le_imp_less_Suc length_dropWhile_le)

definition normalizeHeader :: "string \<Rightarrow> string" where
  "normalizeHeader s = collapse_spaces (js_trim s)"

definition rename_payload :: "rename_input \<Rightarrow> rename_params" where
  "rename_payload input =
     (let new = normalizeHeader (ri_newName input);
          old = normalizeHeader (nullish (ri_oldName input) []);
          from_header = (if old = [] then None else Some old);
          ref = ri_columnIndex input + 1
      in \<lparr> rp_header_row_index = nullish (ri_headerRowIndex input) HEADER_ROW_INDEX + 1,
           rp_from_header = from_header, rp_to_header = new, rp_column_index = ref,
           rp_locator_from_header = from_header, rp_locator_fallback_index = ref \<rparr>)"

definition dedup_key :: "int \<Rightarrow> pkey" where
  "dedup_key columnIndex = str_key (''idx:'' @ int_dec columnIndex)"

definition rename_step :: "string \<Rightarrow> rename_params \<Rightarrow> int \<Rightarrow> pattern_step" where
  "rename_step i params now =
     \<lparr> st_id = i, st_kind = SET_COLUMN_NAME, st_disabled = False, st_createdAt = iso_string now,
       st_target = None, st_a1 = None, st_formula = None, st_params = Some (RenameParams params) \<rparr>"

definition recordRenameColumnStep ::
  "pattern_step list \<Rightarrow> rename_input \<Rightarrow> dedup_state \<Rightarrow> string \<Rightarrow> int \<Rightarrow> int \<Rightarrow>
   pattern_step list \<times> dedup_state" where
  "recordRenameColumnStep steps input state newId now windowMs =
     (let trimmedNew = normalizeHeader (ri_newName input);
          trimmedOld = normalizeHeader (nullish (ri_oldName input) []);
          payload = rename_payload input;
          key = dedup_key (ri_columnIndex input);
          append = (steps @ [rename_step newId payload now],
                    obj_set key \<lparr> dd_stepId = newId, dd_timestamp = now \<rparr> state)
      in if trimmedNew = [] \<or> trimmedNew = trimmedOld then (steps, state)
         else (case obj_get state key of
                 None \<Rightarrow> append
               | Some existing \<Rightarrow>
                   if now - dd_timestamp existing \<le> windowMs
                   then (case find_index (\<lambda>s. st_id s = dd_stepId existing \<and> st_kind s = SET_COLUMN_NAME)
                                steps of
                           None \<Rightarrow> append
                         | Some k \<Rightarrow>
                             (steps[k := (steps ! k)\<lparr> st_params := Some (RenameParams payload),
                                                      st_createdAt := iso_string now \<rparr>],
                              obj_set key \<lparr> dd_stepId = dd_stepId existing, dd_timestamp = now \<rparr> state))
                   else append))"

text \<open>The page's handler: it records into the flattened timeline of the active sheet.\<close>

record rename_commit =
  cm_rowIndex :: int
  cm_colIndex :: int
  cm_newValue :: string
  cm_oldValue :: string

definition handleHeaderRenameCommit ::
  "bool \<Rightarrow> rename_commit \<Rightarrow> string \<Rightarrow> int \<Rightarrow> timeline_item list \<times> dedup_state \<Rightarrow>
   timeline_item list \<times> dedup_state" where
  "handleHeaderRenameCommit replaying p newId now ts =
     (if replaying then ts
      else if \<not> shouldRecordHeaderRename (cm_rowIndex p) then ts
      else (case recordRenameColumnStep (flattenTimelineItems (fst ts))
                   \<lparr> ri_columnIndex = cm_colIndex p, ri_newName = cm_newValue p,
                     ri_oldName = Some (cm_oldValue p), ri_headerRowIndex = Some HEADER_ROW_INDEX \<rparr>
                   (snd ts) newId now RENAME_DEDUP_WINDOW_MS of
              (steps, state) \<Rightarrow> (map Operation steps, state)))"

section \<open>Lemmas\<close>

lemma flatten_simps [simp]:
  "flattenTimelineItems [] = []"
  "flattenTimelineItems (x # xs) = item_steps x @ flattenTimelineItems xs"
  "flattenTimelineItems (xs @ ys) = flattenTimelineItems xs @ flattenTimelineItems ys"
  "flattenTimelineItems (map Operation ss) = ss"
  by (simp_all add: flattenTimelineItems_def) (induction ss, simp_all)

fun item_ids :: "timeline_item \<Rightarrow> string list" where
  "item_ids (Operation s) = [st_id s]"
| "item_ids (Group g) = gr_id g # map st_id (gr_items g)"

lemma ids_simps [simp]:
  "getTimelineItemIds [] = []"
  "getTimelineItemIds (x # xs) = item_ids x @ getTimelineItemIds xs"
  "getTimelineItemIds (xs @ ys) = getTimelineItemIds xs @ getTimelineItemIds ys"
  by (simp_all add: getTimelineItemIds_def, cases x, simp_all)

lemma mset_remaining:
  assumes "distinct (map st_id ss)" and "step \<in> set ss"
  shows "mset ss = add_mset step (mset (filter (\<lambda>s. st_id s \<noteq> st_id step) ss))"
  using assms
proof (induction ss)
  case (Cons x xs)
  show ?case
  proof (cases "x = step")
    case True
    with Cons.prems(1) have "filter (\<lambda>s. st_id s \<noteq> st_id step) xs = xs"
      by (intro filter_True ballI) (metis distinct.simps(2) image_eqI list.set_map list.simps(9))
    with True show ?thesis by simp
  next
    case False
    with Cons have "step \<in> set xs" "st_id x \<noteq> st_id step" by force+
    with Cons show ?thesis by simp
  qed
qed simp

lemma mset_ids_flatten:
  "mset (item_ids x) = mset (map st_id (item_steps x)) + (case x of Operation _ \<Rightarrow> {#} | Group g \<Rightarrow> {#gr_id g#})"
  by (cases x) simp_all

text \<open>Moving a step out of a group, in one equation.\<close>

lemma move_split:
  assumes "find_index (\<lambda>item. item_id item = gid) items = Some k" and "items ! k = Group g"
  obtains before after mid where "items = before @ Group g # after"
    and "moveStepOutOfGroup items gid step = before @ mid @ Operation step # after"
    and "flattenTimelineItems mid = filter (\<lambda>s. st_id s \<noteq> st_id step) (gr_items g)"
    and "set (getTimelineItemIds mid) \<subseteq> insert (gr_id g) (set (map st_id (flattenTimelineItems mid)))"
    and "distinct (map st_id (gr_items g)) \<Longrightarrow> gr_id g \<notin> set (map st_id (gr_items g)) \<Longrightarrow>
         distinct (getTimelineItemIds mid)"
proof -
  let ?rem = "filter (\<lambda>s. st_id s \<noteq> st_id step) (gr_items g)"
  let ?before = "take k items" and ?after = "drop (Suc k) items"
  have k: "k < length items" using find_index_Some [OF assms(1)] by simp
  then have items: "items = ?before @ Group g # ?after" using assms(2) id_take_nth_drop by metis
  show ?thesis
  proof (cases ?rem rule: remdups_adj.cases)
    case 1
    show ?thesis
      by (rule that [OF items, of "[]"]) (use assms 1 in \<open>simp_all add: moveStepOutOfGroup_def Let_def\<close>)
  next
    case (2 x)
    show ?thesis
      by (rule that [OF items, of "[Operation x]"])
         (use assms 2 in \<open>simp_all add: moveStepOutOfGroup_def Let_def\<close>)
  next
    case (3 x y zs)
    have d: "distinct (map st_id ?rem)" if "distinct (map st_id (gr_items g))"
      using that by (simp add: distinct_map_filter)
    have n: "gr_id g \<notin> set (map st_id ?rem)" if "gr_id g \<notin> set (map st_id (gr_items g))"
      using that by auto
    show ?thesis
      by (rule that [OF items, of "[Group (g\<lparr> gr_items := ?rem \<rparr>)]"])
         (use assms 3 d n in \<open>simp_all add: moveStepOutOfGroup_def Let_def\<close>)
  qed
qed

lemma distinct_items:
  assumes "distinct (getTimelineItemIds items)"
  shows "distinct (map item_id items)"
    and "Group g \<in> set items \<Longrightarrow> distinct (map st_id (gr_items g)) \<and> gr_id g \<notin> st_id ` set (gr_items g)"
proof -
  have mem: "item_id x \<in> set (item_ids x)" for x by (cases x) simp_all
  have sub: "item_id ` set items \<subseteq> set (getTimelineItemIds items)" for items
    using mem by (induction items) auto
  show "distinct (map item_id items)"
    using assms
  proof (induction items)
    case (Cons x xs)
    then have "item_id x \<notin> set (getTimelineItemIds xs)" using mem [of x] by auto
    then have "item_id x \<notin> item_id ` set xs" using sub [of xs] by blast
    with Cons show ?case by simp
  qed simp
  show "distinct (map st_id (gr_items g)) \<and> gr_id g \<notin> st_id ` set (gr_items g)" if "Group g \<in> set items"
    using assms that by (induction items) auto
qed

lemma find_group:
  assumes "distinct (map item_id items)" and "Group g \<in> set items"
  shows "\<exists>k. find_index (\<lambda>item. item_id item = gr_id g) items = Some k \<and> items ! k = Group g"
  using assms
proof (induction items)
  case (Cons x xs)
  show ?case
  proof (cases "x = Group g")
    case False
    with Cons.prems(2) have g: "Group g \<in> set xs" by simp
    then have "item_id (Group g) \<in> item_id ` set xs" by (rule imageI)
    with Cons.prems(1) have "item_id x \<noteq> gr_id g" by auto
    moreover obtain k where "find_index (\<lambda>item. item_id item = gr_id g) xs = Some k" "xs ! k = Group g"
      using Cons.IH Cons.prems(1) g by auto
    ultimately show ?thesis by simp
  qed simp
qed simp

fun payload_seq :: "create_step \<Rightarrow> int" where
  "payload_seq (StepPayload p) = pl_seq p"
| "payload_seq (GroupPayload seq _ _ _) = seq"

fun payload_items :: "create_step \<Rightarrow> group_item_payload list" where
  "payload_items (StepPayload p) =
     [\<lparr> gi_type = pl_type p, gi_params = pl_params p, gi_disabled = pl_disabled p \<rparr>]"
| "payload_items (GroupPayload _ _ _ items) = items"

lemma map_upt_Suc_shift: "map f [0 ..< Suc n] = f 0 # map (\<lambda>k. f (Suc k)) [0 ..< n]"
  by (simp add: upt_conv_Cons map_Suc_upt [symmetric] o_def del: upt_Suc)

lemma create_steps_seq:
  "map payload_seq (create_steps_loop seq items) = map (\<lambda>k. seq + int k) [0 ..< length items]"
  by (induction seq items rule: create_steps_loop.induct)
     (simp_all add: map_upt_Suc_shift buildStepPayload_def algebra_simps del: upt_Suc)

lemma create_steps_items:
  "concat (map payload_items (create_steps_loop seq items)) = map group_item (flattenTimelineItems items)"
  by (induction seq items rule: create_steps_loop.induct)
     (simp_all add: group_item_def buildStepPayload_def Let_def)

section \<open>Properties\<close>

text \<open>Moving a step out of its group keeps every step of the timeline exactly once, keeps the ids of
  the timeline distinct, and makes the step an item of its own.\<close>

lemma move_out_of_group_keeps_steps:
  assumes "distinct (getTimelineItemIds items)"
    and "Group g \<in> set items" and "step \<in> set (gr_items g)"
  shows "mset (flattenTimelineItems (moveStepOutOfGroup items (gr_id g) step)) =
           mset (flattenTimelineItems items) \<and>
         distinct (getTimelineItemIds (moveStepOutOfGroup items (gr_id g) step)) \<and>
         Operation step \<in> set (moveStepOutOfGroup items (gr_id g) step)"
proof -
  have ids: "distinct (map item_id items)" "distinct (map st_id (gr_items g))" "gr_id g \<notin> st_id ` set (gr_items g)"
    using assms by (auto dest: distinct_items)
  obtain k where k: "find_index (\<lambda>item. item_id item = gr_id g) items = Some k" "items ! k = Group g"
    using find_group [OF ids(1) assms(2)] by blast
  show ?thesis
  proof (rule move_split [OF k, of step])
    fix before after mid
    assume items: "items = before @ Group g # after"
      and moved: "moveStepOutOfGroup items (gr_id g) step = before @ mid @ Operation step # after"
      and mid: "flattenTimelineItems mid = filter (\<lambda>s. st_id s \<noteq> st_id step) (gr_items g)"
      and mid_ids: "set (getTimelineItemIds mid) \<subseteq> insert (gr_id g) (set (map st_id (flattenTimelineItems mid)))"
      and mid_distinct: "distinct (map st_id (gr_items g)) \<Longrightarrow> gr_id g \<notin> set (map st_id (gr_items g)) \<Longrightarrow>
         distinct (getTimelineItemIds mid)"
    have "mset (gr_items g) = add_mset step (mset (flattenTimelineItems mid))"
      using mset_remaining [OF ids(2) assms(3)] mid by simp
    then have "mset (flattenTimelineItems (before @ mid @ Operation step # after)) =
        mset (flattenTimelineItems items)" by (simp add: items)
    moreover have "distinct (getTimelineItemIds (before @ mid @ Operation step # after))"
    proof -
      have "st_id step \<noteq> gr_id g" using assms(3) ids(3) by (metis imageI)
      then have "set (getTimelineItemIds mid) \<subseteq> insert (gr_id g) (st_id ` set (gr_items g)) - {st_id step}"
        using mid_ids mid \<open>st_id step \<noteq> gr_id g\<close> by auto
      moreover have "distinct (getTimelineItemIds mid)" using mid_distinct ids by simp
      moreover have "distinct (getTimelineItemIds before @ (gr_id g # map st_id (gr_items g)) @
          getTimelineItemIds after)" using assms(1) by (simp add: items)
      moreover have "st_id step \<in> st_id ` set (gr_items g)" using assms(3) by simp
      ultimately show ?thesis by (auto simp: disjoint_iff)
    qed
    ultimately show ?thesis by (simp add: moved)
  qed
qed

text \<open>The pattern that is sent has the items of the timeline numbered from 1 in order, and unfolding
  its groups gives the steps of the timeline, in order and with their parameters.\<close>

lemma create_steps_follow_timeline:
  "map payload_seq (timelineItemsToCreateSteps items) = map (\<lambda>k. 1 + int k) [0 ..< length items] \<and>
   concat (map payload_items (timelineItemsToCreateSteps items)) = map group_item (flattenTimelineItems items)"
  by (simp add: timelineItemsToCreateSteps_def create_steps_seq create_steps_items)

text \<open>Committing a header dissolves every group of the timeline, even when only blanks of the header
  have changed and no rename is recorded.\<close>

lemma header_commit_dissolves_groups:
  assumes "shouldRecordHeaderRename (cm_rowIndex p)"
  shows "list_all (\<lambda>item. \<not> isOperationGroup item)
           (fst (handleHeaderRenameCommit False p newId now (items, state))) \<and>
         (normalizeHeader (cm_newValue p) = normalizeHeader (cm_oldValue p) \<longrightarrow>
            handleHeaderRenameCommit False p newId now (items, state) =
            (map Operation (flattenTimelineItems items), state))"
  using assms
  by (auto simp: handleHeaderRenameCommit_def recordRenameColumnStep_def Let_def list_all_iff
      split: prod.splits)

section \<open>Witnesses\<close>

definition demo_op :: "string \<Rightarrow> pattern_step" where
  "demo_op i = \<lparr> st_id = i, st_kind = DELETE_COLUMN, st_disabled = False, st_createdAt = [],
     st_target = None, st_a1 = None, st_formula = None, st_params = Some (DeleteColumnParams 2) \<rparr>"

definition demo_group :: operation_group where
  "demo_group = \<lparr> gr_id = ''g'', gr_name = ''clean up'', gr_items = [demo_op ''a'', demo_op ''b''],
     gr_collapsed = False, gr_createdAt = [] \<rparr>"

lemma move_out_of_group_keeps_steps_witness:
  "mset (flattenTimelineItems (moveStepOutOfGroup [Group demo_group, Operation (demo_op ''c'')] ''g'' (demo_op ''a''))) =
   {#demo_op ''a'', demo_op ''b'', demo_op ''c''#}"
proof -
  have "distinct (getTimelineItemIds [Group demo_group, Operation (demo_op ''c'')])"
    "demo_op ''a'' \<in> set (gr_items demo_group)" "gr_id demo_group = ''g''"
    by (simp_all add: demo_group_def demo_op_def)
  with move_out_of_group_keeps_steps [of "[Group demo_group, Operation (demo_op ''c'')]" demo_group "demo_op ''a''"]
  show ?thesis by (simp add: demo_group_def)
qed

lemma header_commit_dissolves_groups_witness:
  "handleHeaderRenameCommit False \<lparr> cm_rowIndex = 0, cm_colIndex = 1, cm_newValue = ''A '', cm_oldValue = ''A'' \<rparr>
     ''s'' 5 ([Group demo_group], []) = ([Operation (demo_op ''a''), Operation (demo_op ''b'')], [])"
proof -
  have "normalizeHeader ''A '' = normalizeHeader ''A''" by code_simp
  with header_commit_dissolves_groups [of "\<lparr> cm_rowIndex = 0, cm_colIndex = 1, cm_newValue = ''A '', cm_oldValue = ''A'' \<rparr>"
      "''s''" 5 "[Group demo_group]" "[]"]
  show ?thesis by (simp add: shouldRecordHeaderRename_def HEADER_ROW_INDEX_def demo_group_def)
qed

end
