(* ===== verification/Rename_Replay.thy ===== *)
theory Rename_Replay imports Rename_Recorder begin

text \<open>
  Replaying recorded header renames: the branch \<open>SET_COLUMN_NAME\<close> of \<open>_execute_one_step\<close> in
  \<open>src/backend/spreadsheet/services.py\<close>, and the session of a user who edits headers in the grid, whose
  commits reach the recorder through \<open>handleHeaderRenameCommit\<close>.
\<close>

section \<open>Replaying\<close>

text \<open>The texts of the cells; the columns of the sheet are the list \<open>cols\<close>.  \<open>Inl\<close> is a
  \<open>ValidationError\<close>.\<close>

type_synonym header_cells = "int \<times> int \<rightharpoonup> string"

definition set_text :: "int \<Rightarrow> int \<Rightarrow> string \<Rightarrow> header_cells \<Rightarrow> header_cells" where
  "set_text row col text cells = cells((row, col) := if js_trim text = [] then None else Some text)"

definition exec_set_column_name :: "int list \<Rightarrow> rename_params \<Rightarrow> header_cells \<Rightarrow> string + header_cells" where
  "exec_set_column_name cols p cells =
     (let row = rp_header_row_index p - 1; col = rp_column_index p - 1
      in if row < 0 then Inl ''Invalid SET_COLUMN_NAME target''
         else if col < 0 then Inl ''Invalid column index for SET_COLUMN_NAME step''
         else if col \<in> set cols then Inr (set_text row col (rp_to_header p) cells)
         else Inr cells)"

fun replay_renames :: "int list \<Rightarrow> rename_params list \<Rightarrow> header_cells \<Rightarrow> string + header_cells" where
  "replay_renames cols [] cells = Inr cells"
| "replay_renames cols (p # ps) cells =
     (case exec_set_column_name cols p cells of Inl e \<Rightarrow> Inl e | Inr cells' \<Rightarrow> replay_renames cols ps cells')"

section \<open>A session in the grid\<close>

record header_session =
  hs_cells :: header_cells
  hs_items :: "timeline_item list"
  hs_dedup :: dedup_state

record header_commit =
  hc_column :: int
  hc_value :: string
  hc_id :: string
  hc_now :: int

definition commit_header :: "header_commit \<Rightarrow> header_session \<Rightarrow> header_session" where
  "commit_header h s =
     (let prevValue = nullish (hs_cells s (0, hc_column h)) [];
          recorded = (if prevValue \<noteq> hc_value h
                      then handleHeaderRenameCommit False
                             \<lparr> cm_rowIndex = 0, cm_colIndex = hc_column h, cm_newValue = hc_value h,
                               cm_oldValue = prevValue \<rparr>
                             (hc_id h) (hc_now h) (hs_items s, hs_dedup s)
                      else (hs_items s, hs_dedup s))
      in \<lparr> hs_cells = set_text 0 (hc_column h) (hc_value h) (hs_cells s),
           hs_items = fst recorded, hs_dedup = snd recorded \<rparr>)"

section \<open>Normal forms of headers\<close>

lemma set_dropWhile_nonspace: "c \<in> set s \<Longrightarrow> \<not> is_space c \<Longrightarrow> c \<in> set (dropWhile is_space s)"
  by (induction s) auto

lemma collapse_nonspace: "c \<in> set s \<Longrightarrow> \<not> is_space c \<Longrightarrow> c \<in> set (collapse_spaces s)"
  by (induction s rule: collapse_spaces.induct) (auto intro: set_dropWhile_nonspace)

lemma collapse_Nil_iff [simp]: "collapse_spaces s = [] \<longleftrightarrow> s = []"
  by (cases s) auto

lemma is_space_blank [simp]: "is_space (CHR '' '')"
  by (simp add: is_space_def code_of_def)

lemma hd_collapse: "s \<noteq> [] \<Longrightarrow> \<not> is_space (hd s) \<Longrightarrow> hd (collapse_spaces s) = hd s"
  by (cases s) auto

lemma last_collapse: "s \<noteq> [] \<Longrightarrow> \<not> is_space (last s) \<Longrightarrow> last (collapse_spaces s) = last s"
proof (induction s rule: collapse_spaces.induct)
  case (2 c s)
  show ?case
  proof (cases "is_space c")
    case True
    with 2 have "s \<noteq> []" "last s \<in> set s" "\<not> is_space (last s)" by (auto split: if_splits)
    then have "dropWhile is_space s \<noteq> []" by (metis dropWhile_eq_Nil_conv)
    with 2 True show ?thesis by (auto simp: last_dropWhile split: if_splits)
  next
    case False
    with 2 show ?thesis by auto
  qed
qed simp

lemma dropWhile_collapse_dropWhile:
  "dropWhile is_space (collapse_spaces (dropWhile is_space s)) = collapse_spaces (dropWhile is_space s)"
proof (cases "dropWhile is_space s")
  case (Cons c r)
  then have "\<not> is_space c" by (metis hd_dropWhile list.sel(1) list.simps(3))
  with Cons show ?thesis by simp
next
  case Nil
  show ?thesis unfolding Nil by simp
qed

lemma collapse_idem: "collapse_spaces (collapse_spaces s) = collapse_spaces s"
  by (induction s rule: collapse_spaces.induct) (simp_all add: dropWhile_collapse_dropWhile)

lemma js_trim_normal: "js_trim (normalizeHeader s) = normalizeHeader s"
proof (cases "js_trim s = []")
  case False
  then show ?thesis unfolding normalizeHeader_def
    by (intro js_trim_id) (simp_all add: hd_collapse last_collapse js_trim_ends)
qed (simp add: normalizeHeader_def)

lemma normalize_idem [simp]: "normalizeHeader (normalizeHeader s) = normalizeHeader s"
  using js_trim_normal [of s] by (simp add: normalizeHeader_def collapse_idem)

lemma normalize_blank: "js_trim s = [] \<Longrightarrow> normalizeHeader s = []"
  by (simp add: normalizeHeader_def)

section \<open>What the recorded steps do\<close>

abbreviation column_of :: "rename_params \<Rightarrow> int" where
  "column_of p \<equiv> rp_column_index p - 1"

definition replayable :: "int list \<Rightarrow> rename_params \<Rightarrow> bool" where
  "replayable cols p \<longleftrightarrow> rp_header_row_index p = 1 \<and> 0 \<le> column_of p \<and> column_of p \<in> set cols \<and>
     js_trim (rp_to_header p) \<noteq> [] \<and> normalizeHeader (rp_to_header p) = rp_to_header p"

definition last_name :: "rename_params list \<Rightarrow> int \<Rightarrow> string option" where
  "last_name ps = map_of (rev (map (\<lambda>p. (column_of p, rp_to_header p)) ps))"

definition renamed :: "rename_params list \<Rightarrow> header_cells \<Rightarrow> header_cells" where
  "renamed ps cells = fold (\<lambda>p. set_text 0 (column_of p) (rp_to_header p)) ps cells"

lemma replay_renamed: "\<forall>p \<in> set ps. replayable cols p \<Longrightarrow> replay_renames cols ps cells = Inr (renamed ps cells)"
  by (induction ps arbitrary: cells) (auto simp: exec_set_column_name_def replayable_def renamed_def Let_def)

lemma renamed_header:
  "\<forall>p \<in> set ps. replayable cols p \<Longrightarrow>
   renamed ps cells (0, col) = (case last_name ps col of None \<Rightarrow> cells (0, col) | Some n \<Rightarrow> Some n)"
  by (induction ps rule: rev_induct) (auto simp: renamed_def last_name_def set_text_def replayable_def)

lemma last_name_append:
  "last_name (ps @ [p]) col = (if col = column_of p then Some (rp_to_header p) else last_name ps col)"
  by (simp add: last_name_def)

lemma last_name_update:
  assumes k: "k < length ps" and col: "column_of (ps ! k) = column_of p"
    and later: "\<forall>j. k < j \<and> j < length ps \<longrightarrow> column_of (ps ! j) \<noteq> column_of p"
  shows "last_name (ps[k := p]) c = (if c = column_of p then Some (rp_to_header p) else last_name ps c)"
proof -
  let ?f = "\<lambda>p. (column_of p, rp_to_header p)"
  have split: "ps = take k ps @ ps ! k # drop (Suc k) ps" using k by (rule id_take_nth_drop)
  have upd: "ps[k := p] = take k ps @ p # drop (Suc k) ps" using k by (rule upd_conv_take_nth_drop)
  have none: "map_of (rev (map ?f (drop (Suc k) ps))) (column_of p) = None"
  proof -
    have "column_of q \<noteq> column_of p" if q: "q \<in> set (drop (Suc k) ps)" for q
    proof -
      obtain i where "i < length ps - Suc k" "q = ps ! (Suc k + i)" using q by (auto simp: in_set_conv_nth)
      with later [rule_format, of "Suc k + i"] show ?thesis by simp
    qed
    then have "column_of p \<notin> fst ` set (rev (map ?f (drop (Suc k) ps)))" by fastforce
    then show ?thesis by (simp only: map_of_eq_None_iff not_False_eq_True)
  qed
  have "last_name ps c = (map_of (rev (map ?f (take k ps))) ++ map_of [?f (ps ! k)] ++
      map_of (rev (map ?f (drop (Suc k) ps)))) c"
    unfolding last_name_def by (subst split) simp
  moreover have "last_name (ps[k := p]) c = (map_of (rev (map ?f (take k ps))) ++ map_of [?f p] ++
      map_of (rev (map ?f (drop (Suc k) ps)))) c"
    unfolding last_name_def by (subst upd) simp
  ultimately show ?thesis using none col by (auto simp: map_add_def split: option.splits)
qed

text \<open>Every entry of the deduplication state names the last step recorded for its column.\<close>

definition dedup_ok :: "string list \<Rightarrow> int list \<Rightarrow> dedup_state \<Rightarrow> bool" where
  "dedup_ok ids cs st \<longleftrightarrow> (\<forall>c e. obj_get st (dedup_key c) = Some e \<longrightarrow>
     (\<exists>k. k < length ids \<and> ids ! k = dd_stepId e \<and> cs ! k = c \<and> (\<forall>j. k < j \<and> j < length cs \<longrightarrow> cs ! j \<noteq> c)))"

lemma dedup_key_inject [simp]: "dedup_key a = dedup_key b \<longleftrightarrow> a = b"
  by (simp add: dedup_key_def str_key_inject)

lemma dedup_ok_append:
  assumes "dedup_ok ids cs st" and "length cs = length ids"
  shows "dedup_ok (ids @ [i]) (cs @ [c]) (obj_set (dedup_key c) \<lparr> dd_stepId = i, dd_timestamp = now \<rparr> st)"
  unfolding dedup_ok_def
proof (intro allI impI)
  fix c' e assume e: "obj_get (obj_set (dedup_key c) \<lparr> dd_stepId = i, dd_timestamp = now \<rparr> st) (dedup_key c') = Some e"
  show "\<exists>k. k < length (ids @ [i]) \<and> (ids @ [i]) ! k = dd_stepId e \<and> (cs @ [c]) ! k = c' \<and>
      (\<forall>j. k < j \<and> j < length (cs @ [c]) \<longrightarrow> (cs @ [c]) ! j \<noteq> c')"
  proof (cases "c' = c")
    case True
    with e assms(2) show ?thesis by (intro exI [of _ "length ids"]) (auto simp: nth_append)
  next
    case False
    with e have "obj_get st (dedup_key c') = Some e" by simp
    with assms(1) obtain k where "k < length ids" "ids ! k = dd_stepId e" "cs ! k = c'"
      "\<forall>j. k < j \<and> j < length cs \<longrightarrow> cs ! j \<noteq> c'" unfolding dedup_ok_def by blast
    with False assms(2) show ?thesis by (intro exI [of _ k]) (auto simp: nth_append less_Suc_eq)
  qed
qed

lemma dedup_ok_touch:
  "dedup_ok ids cs st \<Longrightarrow> obj_get st (dedup_key c) = Some e \<Longrightarrow>
   dedup_ok ids cs (obj_set (dedup_key c) \<lparr> dd_stepId = dd_stepId e, dd_timestamp = now \<rparr> st)"
  by (simp add: dedup_ok_def)

section \<open>The invariant of a session\<close>

definition recording :: "int list \<Rightarrow> header_cells \<Rightarrow> string list \<Rightarrow> pattern_step list \<Rightarrow> rename_params list \<Rightarrow>
  header_cells \<Rightarrow> dedup_state \<Rightarrow> bool" where
  "recording cols cells0 used steps ps cells st \<longleftrightarrow>
     map st_params steps = map (\<lambda>p. Some (RenameParams p)) ps \<and> (\<forall>s \<in> set steps. st_kind s = SET_COLUMN_NAME) \<and>
     (\<forall>p \<in> set ps. replayable cols p) \<and> distinct (map st_id steps) \<and> set (map st_id steps) \<subseteq> set used \<and>
     dedup_ok (map st_id steps) (map column_of ps) st \<and>
     (\<forall>col. normalizeHeader (nullish (renamed ps cells0 (0, col)) []) = normalizeHeader (nullish (cells (0, col)) []))"

lemma recording_lengths: "recording cols cells0 used steps ps cells st \<Longrightarrow> length ps = length steps"
  unfolding recording_def by (metis length_map)

lemma find_step:
  assumes "distinct (map st_id steps)" and "\<forall>s \<in> set steps. st_kind s = SET_COLUMN_NAME" and "k < length steps"
  shows "find_index (\<lambda>s. st_id s = st_id (steps ! k) \<and> st_kind s = SET_COLUMN_NAME) steps = Some k"
    (is "find_index ?P steps = _")
proof (cases "find_index ?P steps")
  case None
  with assms(2,3) show ?thesis by (auto simp: find_index_None)
next
  case (Some i)
  with assms(1,3) find_index_Some [OF this] show ?thesis by (simp add: distinct_conv_nth) metis
qed

lemma shown_after_rename:
  assumes "\<forall>p \<in> set ps. replayable cols p" and "\<forall>p \<in> set ps'. replayable cols p"
    and "\<And>c. last_name ps' c = (if c = col then Some (normalizeHeader n) else last_name ps c)"
    and "\<forall>c. normalizeHeader (nullish (renamed ps cells0 (0, c)) []) = normalizeHeader (nullish (cells (0, c)) [])"
    and "js_trim n \<noteq> []"
  shows "normalizeHeader (nullish (renamed ps' cells0 (0, c)) []) =
    normalizeHeader (nullish (set_text 0 col n cells (0, c)) [])"
  using assms(3) [of c] assms(4,5)
  by (auto simp: renamed_header [OF assms(1)] renamed_header [OF assms(2)] set_text_def)

lemma set_text_same: "js_trim n \<noteq> [] \<Longrightarrow> nullish (cells (0, c)) [] = n \<Longrightarrow> set_text 0 c n cells = cells"
  by (cases "cells (0, c)") (auto simp: set_text_def)

lemma recording_append:
  assumes "recording cols cells0 used steps ps cells st" and "i \<notin> set used"
    and "replayable cols p" and "rp_to_header p = normalizeHeader n" and "js_trim n \<noteq> []"
  shows "recording cols cells0 (i # used) (steps @ [rename_step i p now]) (ps @ [p])
     (set_text 0 (column_of p) n cells) (obj_set (dedup_key (column_of p)) \<lparr> dd_stepId = i, dd_timestamp = now \<rparr> st)"
proof -
  have "\<forall>c. normalizeHeader (nullish (renamed (ps @ [p]) cells0 (0, c)) []) =
      normalizeHeader (nullish (set_text 0 (column_of p) n cells (0, c)) [])"
    using assms by (intro allI shown_after_rename) (auto simp: recording_def last_name_append)
  with assms dedup_ok_append [of "map st_id steps" "map column_of ps" st i "column_of p" now]
    recording_lengths [OF assms(1)]
  show ?thesis by (auto simp: recording_def rename_step_def)
qed

lemma recording_merge:
  assumes rec: "recording cols cells0 used steps ps cells st"
    and e: "obj_get st (dedup_key (column_of p)) = Some e"
    and p: "replayable cols p" "rp_to_header p = normalizeHeader n" "js_trim n \<noteq> []"
  obtains k where "find_index (\<lambda>s. st_id s = dd_stepId e \<and> st_kind s = SET_COLUMN_NAME) steps = Some k"
    and "recording cols cells0 (i # used)
      (steps[k := (steps ! k)\<lparr> st_params := Some (RenameParams p), st_createdAt := t \<rparr>]) (ps[k := p])
      (set_text 0 (column_of p) n cells)
      (obj_set (dedup_key (column_of p)) \<lparr> dd_stepId = dd_stepId e, dd_timestamp = now \<rparr> st)"
proof -
  have len: "length ps = length steps" using rec by (rule recording_lengths)
  have "dedup_ok (map st_id steps) (map column_of ps) st" using rec by (simp only: recording_def)
  from this [unfolded dedup_ok_def, rule_format, OF e] obtain k where k': "k < length (map st_id steps)"
    "map st_id steps ! k = dd_stepId e" "map column_of ps ! k = column_of p"
    "\<forall>j. k < j \<and> j < length (map column_of ps) \<longrightarrow> map column_of ps ! j \<noteq> column_of p" by blast
  have k: "k < length steps" "st_id (steps ! k) = dd_stepId e"
    "column_of (ps ! k) = column_of p" "\<forall>j. k < j \<and> j < length ps \<longrightarrow> column_of (ps ! j) \<noteq> column_of p"
    using k' len by simp_all
  let ?steps = "steps[k := (steps ! k)\<lparr> st_params := Some (RenameParams p), st_createdAt := t \<rparr>]"
  have ids: "map st_id ?steps = map st_id steps" using k(1) by (simp add: map_update list_update_same_conv)
  have cols: "map column_of (ps[k := p]) = map column_of ps" using k(1,3) len by (simp add: map_update list_update_same_conv)
  have "set (ps[k := p]) \<subseteq> insert p (set ps)" by (rule set_update_subset_insert)
  then have good: "\<forall>q \<in> set (ps[k := p]). replayable cols q" using rec p(1) by (auto simp: recording_def)
  have upd: "last_name (ps[k := p]) c = (if c = column_of p then Some (normalizeHeader n) else last_name ps c)" for c
    using last_name_update [OF _ k(3,4), of c] k(1) len p(2) by simp
  have "\<forall>c. normalizeHeader (nullish (renamed (ps[k := p]) cells0 (0, c)) []) =
      normalizeHeader (nullish (set_text 0 (column_of p) n cells (0, c)) [])"
    using rec by (intro allI shown_after_rename [OF _ good upd _ p(3)]) (auto simp: recording_def)
  moreover have "set ?steps \<subseteq> insert ((steps ! k)\<lparr> st_params := Some (RenameParams p), st_createdAt := t \<rparr>) (set steps)"
    by (rule set_update_subset_insert)
  then have "\<forall>s \<in> set ?steps. st_kind s = SET_COLUMN_NAME" using rec k(1) by (auto simp: recording_def)
  moreover have "map st_params ?steps = map (\<lambda>p. Some (RenameParams p)) (ps[k := p])"
    using rec by (simp add: recording_def map_update)
  ultimately have "recording cols cells0 (i # used) ?steps (ps[k := p]) (set_text 0 (column_of p) n cells)
      (obj_set (dedup_key (column_of p)) \<lparr> dd_stepId = dd_stepId e, dd_timestamp = now \<rparr> st)"
    unfolding recording_def ids cols using rec good e dedup_ok_touch by (auto simp: recording_def)
  moreover have "find_index (\<lambda>s. st_id s = dd_stepId e \<and> st_kind s = SET_COLUMN_NAME) steps = Some k"
    using find_step [of steps k] rec k(1,2) by (simp add: recording_def)
  ultimately show ?thesis using that by blast
qed

lemma recording_used: "recording cols cells0 used steps ps cells st \<Longrightarrow> recording cols cells0 (i # used) steps ps cells st"
  by (auto simp: recording_def)

text \<open>One commit keeps the invariant.\<close>

definition session_ok :: "int list \<Rightarrow> header_cells \<Rightarrow> string list \<Rightarrow> header_session \<Rightarrow> bool" where
  "session_ok cols cells0 used s \<longleftrightarrow>
     (\<exists>steps ps. hs_items s = map Operation steps \<and> recording cols cells0 used steps ps (hs_cells s) (hs_dedup s))"

definition commit_ok :: "int list \<Rightarrow> header_commit \<Rightarrow> bool" where
  "commit_ok cols h \<longleftrightarrow> 0 \<le> hc_column h \<and> hc_column h \<in> set cols \<and> normalizeHeader (hc_value h) \<noteq> []"

lemma session_ok_commit:
  assumes s: "session_ok cols cells0 used s" and h: "commit_ok cols h" and fresh: "hc_id h \<notin> set used"
  shows "session_ok cols cells0 (hc_id h # used) (commit_header h s)"
proof -
  obtain steps ps where items: "hs_items s = map Operation steps"
    and rec: "recording cols cells0 used steps ps (hs_cells s) (hs_dedup s)" using s by (auto simp: session_ok_def)
  let ?prev = "nullish (hs_cells s (0, hc_column h)) []"
  let ?input = "\<lparr> ri_columnIndex = hc_column h, ri_newName = hc_value h, ri_oldName = Some ?prev,
                   ri_headerRowIndex = Some HEADER_ROW_INDEX \<rparr>"
  let ?p = "rename_payload ?input"
  have blank: "js_trim (hc_value h) \<noteq> []" using h normalize_blank by (auto simp: commit_ok_def)
  have p: "replayable cols ?p" "rp_to_header ?p = normalizeHeader (hc_value h)" "column_of ?p = hc_column h"
    using h by (auto simp: replayable_def rename_payload_def Let_def commit_ok_def HEADER_ROW_INDEX_def js_trim_normal)
  note append = recording_append [OF rec fresh p(1,2) blank, of "hc_now h", unfolded p(3)]
  consider (same) "?prev = hc_value h" | (norm) "?prev \<noteq> hc_value h" "normalizeHeader (hc_value h) = normalizeHeader ?prev"
    | (new) "?prev \<noteq> hc_value h" "normalizeHeader (hc_value h) \<noteq> normalizeHeader ?prev" by blast
  then show ?thesis
  proof cases
    case same
    have "set_text 0 (hc_column h) (hc_value h) (hs_cells s) = hs_cells s"
      using blank same by (rule set_text_same)
    with same recording_used [OF rec] items show ?thesis
      by (auto simp: session_ok_def commit_header_def Let_def)
  next
    case norm
    have "recording cols cells0 (hc_id h # used) steps ps (set_text 0 (hc_column h) (hc_value h) (hs_cells s)) (hs_dedup s)"
      using recording_used [OF rec] norm(2) blank by (auto simp: recording_def set_text_def)
    with norm items show ?thesis
      by (auto simp: session_ok_def commit_header_def Let_def handleHeaderRenameCommit_def shouldRecordHeaderRename_def
          HEADER_ROW_INDEX_def recordRenameColumnStep_def)
  next
    case new
    have recorded: "session_ok cols cells0 (hc_id h # used) (commit_header h s)"
      if "recordRenameColumnStep steps ?input (hs_dedup s) (hc_id h) (hc_now h) RENAME_DEDUP_WINDOW_MS = (steps', st')"
        and "recording cols cells0 (hc_id h # used) steps' ps' (set_text 0 (hc_column h) (hc_value h) (hs_cells s)) st'"
      for steps' st' ps'
      using that new(1) items
      by (auto simp: session_ok_def commit_header_def Let_def handleHeaderRenameCommit_def shouldRecordHeaderRename_def
          HEADER_ROW_INDEX_def)
    show ?thesis
    proof (cases "\<exists>e. obj_get (hs_dedup s) (dedup_key (hc_column h)) = Some e \<and>
                       hc_now h - dd_timestamp e \<le> RENAME_DEDUP_WINDOW_MS")
      case True
      then obtain e where e: "obj_get (hs_dedup s) (dedup_key (hc_column h)) = Some e"
        and window: "hc_now h - dd_timestamp e \<le> RENAME_DEDUP_WINDOW_MS" by blast
      show ?thesis
      proof (rule recording_merge [OF rec, of ?p e "hc_value h" "hc_id h" "iso_string (hc_now h)" "hc_now h", unfolded p(3)])
        fix k
        assume "find_index (\<lambda>s. st_id s = dd_stepId e \<and> st_kind s = SET_COLUMN_NAME) steps = Some k"
          and "recording cols cells0 (hc_id h # used)
            (steps[k := (steps ! k)\<lparr> st_params := Some (RenameParams ?p), st_createdAt := iso_string (hc_now h) \<rparr>])
            (ps[k := ?p]) (set_text 0 (hc_column h) (hc_value h) (hs_cells s))
            (obj_set (dedup_key (hc_column h)) \<lparr> dd_stepId = dd_stepId e, dd_timestamp = hc_now h \<rparr> (hs_dedup s))"
        then show ?thesis
          using e window new(2) h
          by (intro recorded) (auto simp: recordRenameColumnStep_def Let_def commit_ok_def)
      qed (use e p blank in auto)
    next
      case False
      then show ?thesis
        using append new(2) h
        by (intro recorded) (auto simp: recordRenameColumnStep_def Let_def commit_ok_def split: option.splits)
    qed
  qed
qed

lemma session_ok_commits:
  "session_ok cols cells0 used s \<Longrightarrow> list_all (commit_ok cols) hs \<Longrightarrow> distinct (map hc_id hs @ used) \<Longrightarrow>
   \<exists>used'. session_ok cols cells0 used' (fold commit_header hs s)"
proof (induction hs arbitrary: s used)
  case (Cons h hs)
  from Cons.prems have "session_ok cols cells0 (hc_id h # used) (commit_header h s)"
    by (intro session_ok_commit) auto
  with Cons.IH [of "hc_id h # used" "commit_header h s"] Cons.prems show ?case by auto
qed auto


definition demo_commits :: "header_commit list" where
  "demo_commits =
     [\<lparr> hc_column = 0, hc_value = ''First'', hc_id = ''s1'', hc_now = 1000 \<rparr>,
      \<lparr> hc_column = 1, hc_value = '' Cost  EUR'', hc_id = ''s2'', hc_now = 1100 \<rparr>,
      \<lparr> hc_column = 0, hc_value = ''Final'', hc_id = ''s3'', hc_now = 1200 \<rparr>]"


end
