(* ===== verification/Pivot.thy ===== *)
theory Pivot imports Js_Number Js_Object begin

text \<open>
  Pivot tables (\<open>src/frontend/src/lib/spreadsheet/pivot.ts\<close>) and what the spreadsheet page does when a
  pivot is configured (\<open>handlePivotConfigChange\<close> of
  \<open>src/frontend/src/app/(project)/spreadsheets/[spreadsheetId]/page.tsx\<close>).  Numbers are rational
  (theory \<open>Js_Number\<close>); the order of \<open>localeCompare\<close> belongs to the browser and is the parameter
  \<open>locale_cmp\<close>.
\<close>

section \<open>Data\<close>

datatype aggregation = Agg_SUM | Agg_COUNT | Agg_AVG | Agg_MIN | Agg_MAX | Agg_MEDIAN

fun aggregation_text :: "aggregation \<Rightarrow> string" where
  "aggregation_text Agg_SUM = ''SUM''"
| "aggregation_text Agg_COUNT = ''COUNT''"
| "aggregation_text Agg_AVG = ''AVG''"
| "aggregation_text Agg_MIN = ''MIN''"
| "aggregation_text Agg_MAX = ''MAX''"
| "aggregation_text Agg_MEDIAN = ''MEDIAN''"

datatype display_mode = Show_Value | Row_Percent | Column_Percent | Total_Percent
datatype sort_order = Asc | Desc

record column_config =
  cc_field :: string
  cc_sort :: "sort_order option"

datatype column_item = Column_Name string | Column_Config column_config

record value_config =
  vc_field :: string
  vc_aggregation :: aggregation
  vc_display :: "display_mode option"

record pivot_config =
  sourceSheetId :: int
  pv_rows :: "string list"
  pv_columns :: "column_item list"
  pv_values :: "value_config list"
  showGrandTotalRow :: "bool option"

datatype pivot_cell = PText string | PNumber rat

record pivot_result =
  pv_headers :: "string list list"
  pv_body :: "pivot_cell list list"
  rowCount :: nat
  colCount :: nat

record source_column =
  sc_index :: nat
  sc_header :: string

type_synonym source_row = "nat \<rightharpoonup> string"

record value_field =
  vf_index :: nat
  vf_aggregation :: aggregation
  vf_field :: string

fun normalize_column :: "column_item \<Rightarrow> column_config" where
  "normalize_column (Column_Name f) = \<lparr> cc_field = f, cc_sort = Some Asc \<rparr>"
| "normalize_column (Column_Config c) = c\<lparr> cc_sort := Some (nullish (cc_sort c) Asc) \<rparr>"

definition normalizeColumnConfig :: "column_item list \<Rightarrow> column_config list" where
  "normalizeColumnConfig columns = map normalize_column columns"

definition getFieldIndex :: "source_column list \<Rightarrow> string \<Rightarrow> nat option" where
  "getFieldIndex columns fieldName = map_option sc_index (List.find (\<lambda>c. sc_header c = fieldName) columns)"

definition field_indices :: "source_column list \<Rightarrow> string list \<Rightarrow> nat list" where
  "field_indices columns names = List.map_filter (getFieldIndex columns) names"

definition value_fields :: "source_column list \<Rightarrow> value_config list \<Rightarrow> value_field list" where
  "value_fields columns valueConfigs =
     List.map_filter (\<lambda>vc. map_option (\<lambda>i. \<lparr> vf_index = i, vf_aggregation = vc_aggregation vc,
                                             vf_field = vc_field vc \<rparr>)
                                      (getFieldIndex columns (vc_field vc))) valueConfigs"

definition createEmptyPivotConfig :: "int \<Rightarrow> pivot_config" where
  "createEmptyPivotConfig sheetId =
     \<lparr> sourceSheetId = sheetId, pv_rows = [], pv_columns = [], pv_values = [],
       showGrandTotalRow = Some True \<rparr>"

definition isPivotConfigValid :: "pivot_config \<Rightarrow> bool" where
  "isPivotConfigValid config \<longleftrightarrow> length (pv_rows config) > 0 \<and> length (pv_values config) > 0"

section \<open>Aggregation\<close>

definition roundToPrecision :: "rat \<Rightarrow> nat \<Rightarrow> rat" where
  "roundToPrecision value decimals = of_int (js_round (value * 10 ^ decimals)) / 10 ^ decimals"

definition median_of :: "rat list \<Rightarrow> rat" where
  "median_of values =
     (let sorted = sort values; mid = length sorted div 2
      in if length sorted mod 2 = 0 then (sorted ! (mid - 1) + sorted ! mid) / 2 else sorted ! mid)"

fun aggregate :: "rat list \<Rightarrow> aggregation \<Rightarrow> rat" where
  "aggregate [] _ = 0"
| "aggregate (v # vs) Agg_SUM = roundToPrecision (foldl (+) 0 (v # vs)) 10"
| "aggregate (v # vs) Agg_COUNT = of_nat (length (v # vs))"
| "aggregate (v # vs) Agg_AVG = roundToPrecision (foldl (+) 0 (v # vs) / of_nat (length (v # vs))) 10"
| "aggregate (v # vs) Agg_MIN = roundToPrecision (foldl min v vs) 10"
| "aggregate (v # vs) Agg_MAX = roundToPrecision (foldl max v vs) 10"
| "aggregate (v # vs) Agg_MEDIAN = roundToPrecision (median_of (v # vs)) 10"

section \<open>Keys\<close>

fun js_join :: "string \<Rightarrow> string list \<Rightarrow> string" where
  "js_join sep [] = []"
| "js_join sep [x] = x"
| "js_join sep (x # y # r) = x @ sep @ js_join sep (y # r)"

text \<open>\<open>s.split(sep)\<close> for a separator that is not empty; \<open>cur\<close> is the current part, reversed.\<close>

function js_split :: "string \<Rightarrow> string \<Rightarrow> string \<Rightarrow> string list" where
  "js_split sep cur [] = [rev cur]"
| "js_split sep cur (c # s) =
     (if take (length sep) (c # s) = sep then rev cur # js_split sep [] (drop (length sep - 1) s)
      else js_split sep (c # cur) s)"
  by pat_completeness auto
termination by (relation "measure (\<lambda>(_, _, s). length s)") auto

abbreviation bars :: string where "bars \<equiv> ''|||''"

abbreviation total_key :: string where "total_key \<equiv> ''__TOTAL__''"

definition row_cell :: "source_row \<Rightarrow> nat \<Rightarrow> string" where
  "row_cell row idx = js_trim (nullish (row idx) [])"

definition buildCompositeKey :: "source_row \<Rightarrow> nat list \<Rightarrow> string" where
  "buildCompositeKey row fieldIndices = js_join bars (map (row_cell row) fieldIndices)"

definition map_key :: "string \<Rightarrow> string \<Rightarrow> string" where
  "map_key rowKey colKey = rowKey @ '':::'' @ colKey"

section \<open>Collecting the source rows\<close>

record pivot_data =
  row_keys :: "string list"
  col_keys :: "string list"
  data_map :: "(string, (nat, rat list) jmap) jmap"

definition set_add :: "'a \<Rightarrow> 'a list \<Rightarrow> 'a list" where
  "set_add x xs = (if x \<in> set xs then xs else xs @ [x])"

definition source_number :: "source_row \<Rightarrow> nat \<Rightarrow> rat" where
  "source_number row idx = nullish (js_parse_float (row_cell row idx)) 0"

definition push_value :: "source_row \<Rightarrow> nat \<times> value_field \<Rightarrow> (nat, rat list) jmap \<Rightarrow> (nat, rat list) jmap" where
  "push_value row p m =
     jmap_set (fst p) (nullish (jmap_get m (fst p)) [] @ [source_number row (vf_index (snd p))]) m"

definition push_values :: "source_row \<Rightarrow> value_field list \<Rightarrow> (nat, rat list) jmap \<Rightarrow> (nat, rat list) jmap" where
  "push_values row vfs m = fold (push_value row) (enumerate 0 vfs) m"

definition column_key :: "nat list \<Rightarrow> source_row \<Rightarrow> string" where
  "column_key colFields row =
     (if colFields = [] then total_key
      else (let colKey = buildCompositeKey row colFields
            in if list_all (\<lambda>k. k \<noteq> []) (js_split bars [] colKey) then colKey else total_key))"

definition has_column_key :: "nat list \<Rightarrow> source_row \<Rightarrow> bool" where
  "has_column_key colFields row \<longleftrightarrow>
     colFields \<noteq> [] \<and> list_all (\<lambda>k. k \<noteq> []) (js_split bars [] (buildCompositeKey row colFields))"

definition row_complete :: "nat list \<Rightarrow> source_row \<Rightarrow> bool" where
  "row_complete rowFields row \<longleftrightarrow> \<not> list_ex (\<lambda>idx. row_cell row idx = []) rowFields"

definition collect_row :: "nat list \<Rightarrow> nat list \<Rightarrow> value_field list \<Rightarrow> source_row \<Rightarrow> pivot_data \<Rightarrow> pivot_data" where
  "collect_row rowFields colFields vfs row d =
     (if \<not> row_complete rowFields row then d
      else (let rowKey = buildCompositeKey row rowFields;
                colKey = column_key colFields row;
                mapKey = map_key rowKey colKey
            in d\<lparr> row_keys := set_add rowKey (row_keys d),
                  col_keys := (if has_column_key colFields row then set_add colKey (col_keys d)
                               else col_keys d),
                  data_map := jmap_set mapKey
                    (push_values row vfs (nullish (jmap_get (data_map d) mapKey) [])) (data_map d) \<rparr>))"

definition collect_rows :: "nat list \<Rightarrow> nat list \<Rightarrow> value_field list \<Rightarrow> source_row list \<Rightarrow> pivot_data" where
  "collect_rows rowFields colFields vfs rows =
     fold (collect_row rowFields colFields vfs) rows \<lparr> row_keys = [], col_keys = [], data_map = [] \<rparr>"

section \<open>The table\<close>

definition sorted_row_keys :: "(string \<Rightarrow> string \<Rightarrow> int) \<Rightarrow> pivot_data \<Rightarrow> string list" where
  "sorted_row_keys locale_cmp d = js_sort locale_cmp (row_keys d)"

definition sorted_col_keys ::
  "(string \<Rightarrow> string \<Rightarrow> int) \<Rightarrow> sort_order \<Rightarrow> nat list \<Rightarrow> pivot_data \<Rightarrow> string list" where
  "sorted_col_keys locale_cmp columnSort colFields d =
     (if colFields \<noteq> [] \<and> length (col_keys d) > 0
      then js_sort (\<lambda>a b. if columnSort = Desc then locale_cmp b a else locale_cmp a b) (col_keys d)
      else [total_key])"

definition value_header :: "value_field \<Rightarrow> string" where
  "value_header vf = aggregation_text (vf_aggregation vf) @ ''('' @ vf_field vf @ '')''"

definition column_header :: "nat \<Rightarrow> string \<Rightarrow> string" where
  "column_header columnCount colKey =
     (if columnCount = 1 then colKey else js_join '' / '' (js_split bars [] colKey))"

definition pivot_header_rows ::
  "string list \<Rightarrow> nat \<Rightarrow> nat list \<Rightarrow> value_field list \<Rightarrow> string list \<Rightarrow> string list list" where
  "pivot_header_rows rowFields columnCount colFields vfs colKeys =
     (if colFields \<noteq> [] \<and> hd colKeys \<noteq> total_key \<and> length vfs > 0
      then [rowFields @ concat (map (\<lambda>colKey. map (\<lambda>i. if i = 0 then column_header columnCount colKey else [])
                                              [0..<length vfs]) colKeys),
            map (\<lambda>_. []) rowFields @ concat (map (\<lambda>_. map value_header vfs) colKeys)]
      else [rowFields @ map value_header vfs])"

definition base_values ::
  "(string, (nat, rat list) jmap) jmap \<Rightarrow> value_field list \<Rightarrow> string list \<Rightarrow> string list \<Rightarrow> rat list list list" where
  "base_values dm vfs rowKeys colKeys =
     map (\<lambda>rowKey. map (\<lambda>colKey.
            let valueMap = jmap_get dm (map_key rowKey colKey)
            in map (\<lambda>(vi, vf).
                 aggregate (case valueMap of None \<Rightarrow> [] | Some m \<Rightarrow> nullish (jmap_get m vi) []) (vf_aggregation vf))
                 (enumerate 0 vfs)) colKeys) rowKeys"

text \<open>The running totals of the code, per row, per column and over all.\<close>

definition row_total :: "rat list list list \<Rightarrow> nat \<Rightarrow> nat \<Rightarrow> rat" where
  "row_total base ri vi = foldl (\<lambda>t cell. t + cell ! vi) 0 (base ! ri)"

definition col_total :: "rat list list list \<Rightarrow> nat \<Rightarrow> nat \<Rightarrow> rat" where
  "col_total base ci vi = foldl (\<lambda>t row. t + row ! ci ! vi) 0 base"

definition grand_total :: "rat list list list \<Rightarrow> nat \<Rightarrow> rat" where
  "grand_total base vi = foldl (\<lambda>t row. foldl (\<lambda>u cell. u + cell ! vi) t row) 0 base"

definition display_modes :: "value_config list \<Rightarrow> display_mode list" where
  "display_modes valueConfigs = map (\<lambda>vc. nullish (vc_display vc) Show_Value) valueConfigs"

definition percent_of :: "rat \<Rightarrow> rat \<Rightarrow> rat" where
  "percent_of base denom = (if denom \<noteq> 0 then base / denom * 100 else 0)"

definition display_cell :: "display_mode list \<Rightarrow> rat list list list \<Rightarrow> nat \<Rightarrow> nat \<Rightarrow> nat \<Rightarrow> pivot_cell" where
  "display_cell modes base ri ci vi =
     (let b = base ! ri ! ci ! vi; mode = modes ! vi;
          value = (case mode of
                     Show_Value \<Rightarrow> b
                   | Row_Percent \<Rightarrow> percent_of b (row_total base ri vi)
                   | Column_Percent \<Rightarrow> percent_of b (col_total base ci vi)
                   | Total_Percent \<Rightarrow> percent_of b (grand_total base vi))
      in if mode = Show_Value then PNumber (roundToPrecision value 10)
         else PText (fixed2 (js_round (value * 10 ^ 2)) @ ''%''))"

definition body_row ::
  "display_mode list \<Rightarrow> rat list list list \<Rightarrow> nat \<Rightarrow> nat \<Rightarrow> nat \<times> string \<Rightarrow> pivot_cell list" where
  "body_row modes base nc nv p =
     map PText (js_split bars [] (snd p)) @
     concat (map (\<lambda>ci. map (\<lambda>vi. display_cell modes base (fst p) ci vi) [0..<nv]) [0..<nc])"

definition total_cell :: "display_mode list \<Rightarrow> rat list list list \<Rightarrow> nat \<Rightarrow> nat \<Rightarrow> pivot_cell" where
  "total_cell modes base ci vi =
     (if modes ! vi = Show_Value then PNumber (roundToPrecision (col_total base ci vi) 10)
      else PText ''100.00%'')"

definition total_row ::
  "display_mode list \<Rightarrow> rat list list list \<Rightarrow> nat \<Rightarrow> nat \<Rightarrow> nat \<Rightarrow> pivot_cell list" where
  "total_row modes base rowHeaderCount nc nv =
     map (\<lambda>i. PText (if i = 0 then ''Total'' else [])) [0..<rowHeaderCount] @
     concat (map (\<lambda>ci. map (\<lambda>vi. total_cell modes base ci vi) [0..<nv]) [0..<nc])"

definition empty_pivot :: pivot_result where
  "empty_pivot = \<lparr> pv_headers = [], pv_body = [], rowCount = 0, colCount = 0 \<rparr>"

definition column_sort :: "column_config list \<Rightarrow> sort_order" where
  "column_sort cs = (case cs of [] \<Rightarrow> Asc | c # _ \<Rightarrow> nullish (cc_sort c) Asc)"

definition pivot_rows_of ::
  "display_mode list \<Rightarrow> rat list list list \<Rightarrow> nat \<Rightarrow> string list \<Rightarrow> nat \<Rightarrow> nat \<Rightarrow> bool \<Rightarrow> pivot_cell list list" where
  "pivot_rows_of modes base rowHeaderCount rowKeys nc nv showTotal =
     map (body_row modes base nc nv) (enumerate 0 rowKeys) @
     (if showTotal \<and> length rowKeys > 0 then [total_row modes base rowHeaderCount nc nv] else [])"

definition buildPivotTable ::
  "(string \<Rightarrow> string \<Rightarrow> int) \<Rightarrow> source_row list \<Rightarrow> source_column list \<Rightarrow> pivot_config \<Rightarrow> pivot_result" where
  "buildPivotTable locale_cmp sourceRows columns config =
     (if pv_rows config = [] \<or> pv_values config = [] then empty_pivot
      else
       (let rowFields = field_indices columns (pv_rows config);
            normalized = normalizeColumnConfig (pv_columns config);
            columnFields = map cc_field normalized;
            colFields = field_indices columns columnFields;
            vfs = value_fields columns (pv_values config)
        in if rowFields = [] \<or> vfs = [] then empty_pivot
           else
            (let d = collect_rows rowFields colFields vfs sourceRows;
                 rowKeys = sorted_row_keys locale_cmp d;
                 colKeys = sorted_col_keys locale_cmp (column_sort normalized) colFields d;
                 headers = pivot_header_rows (pv_rows config) (length columnFields) colFields vfs colKeys;
                 base = base_values (data_map d) vfs rowKeys colKeys;
                 body = pivot_rows_of (display_modes (pv_values config)) base (length (pv_rows config))
                          rowKeys (length colKeys) (length vfs) (nullish (showGrandTotalRow config) True)
             in \<lparr> pv_headers = headers, pv_body = body, rowCount = length body + length headers,
                  colCount = (case headers of [] \<Rightarrow> 0 | h # _ \<Rightarrow> length h) \<rparr>)))"

section \<open>Cell operations\<close>

datatype cell_op = Set_Cell nat nat string | Clear_Cell nat nat

definition formatNumberForCell :: "rat \<Rightarrow> string" where
  "formatNumberForCell value = decimal_text (js_round (value * 10 ^ 10))"

fun cell_text :: "pivot_cell \<Rightarrow> string" where
  "cell_text (PNumber x) = (if x = 0 then [] else formatNumberForCell x)"
| "cell_text (PText s) = s"

definition row_operations :: "nat \<Rightarrow> string list \<Rightarrow> cell_op list" where
  "row_operations row texts = map (\<lambda>(col, s). Set_Cell row col s) (enumerate 0 texts)"

definition pivotResultToCellOperations :: "pivot_result \<Rightarrow> cell_op list" where
  "pivotResultToCellOperations result =
     concat (map (\<lambda>(hi, headerRow). row_operations hi headerRow) (enumerate 0 (pv_headers result))) @
     concat (map (\<lambda>(row, cells). row_operations row (map cell_text cells))
                 (enumerate (length (pv_headers result)) (pv_body result)))"

definition generateClearOperationsForStaleCells :: "nat \<Rightarrow> nat \<Rightarrow> nat \<Rightarrow> nat \<Rightarrow> cell_op list" where
  "generateClearOperationsForStaleCells previousRowCount previousColCount newRowCount newColCount =
     concat (map (\<lambda>row. map (Clear_Cell row) [newColCount..<previousColCount]) [0..<previousRowCount]) @
     concat (map (\<lambda>row. map (Clear_Cell row) [0..<newColCount]) [newRowCount..<previousRowCount])"

section \<open>Sheet names\<close>

definition lower_char :: "char \<Rightarrow> char" where
  "lower_char c = (if 65 \<le> code_of c \<and> code_of c \<le> 90 then char_of (code_of c + 32) else c)"

definition pivot_number :: "string \<Rightarrow> nat option" where
  "pivot_number name =
     (if map lower_char (take 12 name) = ''pivot table '' \<and> all_digits (drop 12 name)
      then Some (dec_val (drop 12 name)) else None)"

definition max_pivot_number :: "string list \<Rightarrow> nat" where
  "max_pivot_number names =
     foldl (\<lambda>m name. case pivot_number name of None \<Rightarrow> m | Some n \<Rightarrow> if n > m then n else m) 0 names"

definition generatePivotSheetName :: "string list \<Rightarrow> string" where
  "generatePivotSheetName existingNames = ''Pivot Table '' @ nat_dec (max_pivot_number existingNames + 1)"

section \<open>The page\<close>

record source_cell =
  rawInput :: string
  computedString :: "string option"

record source_sheet =
  ss_cells :: "nat \<times> nat \<rightharpoonup> source_cell"
  ss_rowCount :: nat
  ss_colCount :: nat

definition pivot_columns :: "source_sheet \<Rightarrow> source_column list" where
  "pivot_columns sd =
     List.map_filter (\<lambda>col.
       let header = js_trim (case ss_cells sd (0, col) of None \<Rightarrow> [] | Some c \<Rightarrow> rawInput c)
       in if header \<noteq> [] then Some \<lparr> sc_index = col, sc_header = header \<rparr> else None) [0..<ss_colCount sd]"

definition cell_value :: "source_sheet \<Rightarrow> nat \<Rightarrow> nat \<Rightarrow> string" where
  "cell_value sd row col =
     (case ss_cells sd (row, col) of None \<Rightarrow> [] | Some c \<Rightarrow> nullish (computedString c) (rawInput c))"

definition pivot_source_rows :: "source_sheet \<Rightarrow> source_row list" where
  "pivot_source_rows sd =
     List.map_filter (\<lambda>row.
       if list_ex (\<lambda>col. js_trim (cell_value sd row col) \<noteq> []) [0..<ss_colCount sd]
       then Some (\<lambda>col. if col < ss_colCount sd then Some (cell_value sd row col) else None)
       else None) [1..<ss_rowCount sd]"

definition pivot_operations :: "pivot_result \<Rightarrow> nat \<times> nat \<Rightarrow> cell_op list" where
  "pivot_operations result prevDims =
     pivotResultToCellOperations result @
     generateClearOperationsForStaleCells (fst prevDims) (snd prevDims) (rowCount result) (colCount result)"

definition pivot_resize :: "pivot_result \<Rightarrow> nat \<times> nat \<Rightarrow> nat \<times> nat" where
  "pivot_resize result prevDims =
     (max (max (rowCount result + 10) (fst prevDims + 10)) 100,
      max (max (colCount result + 5) (snd prevDims + 5)) 26)"

definition refresh_pivot ::
  "(string \<Rightarrow> string \<Rightarrow> int) \<Rightarrow> source_sheet \<Rightarrow> pivot_config \<Rightarrow> nat \<times> nat \<Rightarrow>
   (pivot_result \<times> (nat \<times> nat) \<times> cell_op list) option" where
  "refresh_pivot locale_cmp sd config prevDims =
     (if \<not> isPivotConfigValid config then None
      else (let result = buildPivotTable locale_cmp (pivot_source_rows sd) (pivot_columns sd) config
            in Some (result, pivot_resize result prevDims, pivot_operations result prevDims)))"

end
