(* ===== verification/Pivot_Table.thy ===== *)
theory Pivot_Table imports Pivot begin

text \<open>
  What a pivot table shows: its keys round-trip through the separator, its cells aggregate exactly the
  source rows of their keys, its rows fill a rectangle, and refreshing it leaves nothing of the table
  it replaces.
\<close>

section \<open>Composite keys\<close>

definition free_of :: "char \<Rightarrow> string \<Rightarrow> bool" where
  "free_of c s \<longleftrightarrow> c \<notin> set s"

lemma split_part: "free_of (CHR ''|'') x \<Longrightarrow> js_split bars cur (x @ s) = js_split bars (rev x @ cur) s"
  by (induction x arbitrary: cur) (auto simp: free_of_def)

lemma split_sep: "js_split bars cur (bars @ s) = rev cur # js_split bars [] s"
  by simp

lemma split_join:
  "parts \<noteq> [] \<Longrightarrow> \<forall>x \<in> set parts. free_of (CHR ''|'') x \<Longrightarrow> js_split bars [] (js_join bars parts) = parts"
proof (induction parts rule: induct_list012)
  case (2 x)
  then show ?case using split_part [of x "[]" "[]"] by simp
next
  case (3 x y r)
  then show ?case using split_part [of x "[]" "bars @ js_join bars (y # r)"] split_sep by simp
qed simp

lemma free_of_join: "\<forall>x \<in> set parts. free_of (CHR '':'') x \<Longrightarrow> free_of (CHR '':'') (js_join bars parts)"
  by (induction parts rule: induct_list012) (auto simp: free_of_def)

lemma map_key_inject:
  "free_of (CHR '':'') r \<Longrightarrow> free_of (CHR '':'') r' \<Longrightarrow> map_key r c = map_key r' c' \<longleftrightarrow> r = r' \<and> c = c'"
proof (induction r arbitrary: r')
  case Nil
  then show ?case by (cases r') (auto simp: map_key_def free_of_def)
next
  case (Cons a r)
  then show ?case by (cases r') (auto simp: map_key_def free_of_def)
qed

section \<open>What is collected\<close>

lemma get_push_value:
  "jmap_get (push_value row p m) vi =
   (if vi = fst p then Some (nullish (jmap_get m vi) [] @ [source_number row (vf_index (snd p))])
    else jmap_get m vi)"
  by (simp add: push_value_def md.get_put)

lemma get_push_values_from:
  "jmap_get (fold (push_value row) (enumerate k vfs) m) vi =
   (if k \<le> vi \<and> vi < k + length vfs
    then Some (nullish (jmap_get m vi) [] @ [source_number row (vf_index (vfs ! (vi - k)))]) else jmap_get m vi)"
  by (induction vfs arbitrary: k m) (auto simp: get_push_value nth_Cons' Suc_le_eq)

lemma get_push_values:
  "vi < length vfs \<Longrightarrow> jmap_get (push_values row vfs m) vi =
     Some (nullish (jmap_get m vi) [] @ [source_number row (vf_index (vfs ! vi))])"
  by (simp add: push_values_def get_push_values_from)

definition collected :: "pivot_data \<Rightarrow> string \<Rightarrow> string \<Rightarrow> nat \<Rightarrow> rat list" where
  "collected d rk ck vi =
     (case jmap_get (data_map d) (map_key rk ck) of None \<Rightarrow> [] | Some m \<Rightarrow> nullish (jmap_get m vi) [])"

definition row_matches :: "nat list \<Rightarrow> nat list \<Rightarrow> string \<Rightarrow> string \<Rightarrow> source_row \<Rightarrow> bool" where
  "row_matches rf cf rk ck row \<longleftrightarrow>
     row_complete rf row \<and> buildCompositeKey row rf = rk \<and> column_key cf row = ck"

lemma collected_step:
  assumes "vi < length vfs" and "free_of (CHR '':'') rk" and "free_of (CHR '':'') (buildCompositeKey row rf)"
  shows "collected (collect_row rf cf vfs row d) rk ck vi =
    collected d rk ck vi @ (if row_matches rf cf rk ck row then [source_number row (vf_index (vfs ! vi))] else [])"
  using assms
  by (auto simp: collected_def collect_row_def row_matches_def Let_def md.get_put map_key_inject
      get_push_values md.get_emp split: option.splits)

lemma collected_fold:
  assumes "vi < length vfs" and "free_of (CHR '':'') rk"
    and "\<forall>row \<in> set rows. free_of (CHR '':'') (buildCompositeKey row rf)"
  shows "collected (fold (collect_row rf cf vfs) rows d) rk ck vi =
    collected d rk ck vi @
    map (\<lambda>row. source_number row (vf_index (vfs ! vi))) (filter (row_matches rf cf rk ck) rows)"
  using assms(3)
proof (induction rows arbitrary: d)
  case (Cons row rows)
  then show ?case using assms(1,2) by (simp add: collected_step)
qed simp

lemma collected_rows:
  assumes "vi < length vfs" and "free_of (CHR '':'') rk"
    and "\<forall>row \<in> set rows. free_of (CHR '':'') (buildCompositeKey row rf)"
  shows "collected (collect_rows rf cf vfs rows) rk ck vi =
    map (\<lambda>row. source_number row (vf_index (vfs ! vi))) (filter (row_matches rf cf rk ck) rows)"
  unfolding collect_rows_def
  by (subst collected_fold [OF assms]) (simp add: collected_def jmap_get_def)

text \<open>The keys are the distinct keys of the source rows, in the order of their first row.\<close>

lemma set_dedup_snoc: "set_dedup (xs @ [x]) = set_add x (set_dedup xs)"
  by (induction xs) (auto simp: set_add_def)

lemma fold_keys:
  "row_keys (fold (collect_row rf cf vfs) rows d) =
     fold set_add (map (\<lambda>row. buildCompositeKey row rf) (filter (row_complete rf) rows)) (row_keys d)"
  "col_keys (fold (collect_row rf cf vfs) rows d) =
     fold set_add (map (column_key cf) (filter (\<lambda>row. row_complete rf row \<and> has_column_key cf row) rows)) (col_keys d)"
  by (induction rows arbitrary: d) (simp_all add: collect_row_def Let_def)

lemma fold_set_add: "fold set_add xs [] = set_dedup xs"
  by (induction xs rule: rev_induct) (simp_all add: set_dedup_snoc)

lemma collected_keys:
  "row_keys (collect_rows rf cf vfs rows) =
     set_dedup (map (\<lambda>row. buildCompositeKey row rf) (filter (row_complete rf) rows))"
  "col_keys (collect_rows rf cf vfs rows) =
     set_dedup (map (column_key cf) (filter (\<lambda>row. row_complete rf row \<and> has_column_key cf row) rows))"
  by (simp_all add: collect_rows_def fold_keys fold_set_add)

section \<open>The reference\<close>

text \<open>A pivot table read directly off the source rows: for every pair of keys, the rows that have them.\<close>

definition reference_base ::
  "source_row list \<Rightarrow> nat list \<Rightarrow> nat list \<Rightarrow> value_field list \<Rightarrow> string list \<Rightarrow> string list \<Rightarrow> rat list list list" where
  "reference_base rows rf cf vfs rks cks =
     map (\<lambda>rk. map (\<lambda>ck. map (\<lambda>vf.
        aggregate (map (\<lambda>row. source_number row (vf_index vf)) (filter (row_matches rf cf rk ck) rows))
                  (vf_aggregation vf)) vfs) cks) rks"

lemma map_enumerate_nth: "map (\<lambda>(i, x). f i x) (enumerate 0 xs) = map (\<lambda>i. f i (xs ! i)) [0..<length xs]"
  by (rule nth_equalityI) (simp_all add: nth_enumerate_eq)

lemma base_values_reference:
  assumes "\<forall>row \<in> set rows. free_of (CHR '':'') (buildCompositeKey row rf)"
    and "\<forall>rk \<in> set rks. free_of (CHR '':'') rk"
  shows "base_values (data_map (collect_rows rf cf vfs rows)) vfs rks cks = reference_base rows rf cf vfs rks cks"
proof -
  have vals: "map (\<lambda>(vi, vf). aggregate (case jmap_get (data_map (collect_rows rf cf vfs rows)) (map_key rk ck) of
                None \<Rightarrow> [] | Some m \<Rightarrow> nullish (jmap_get m vi) []) (vf_aggregation vf)) (enumerate 0 vfs) =
        map (\<lambda>vf. aggregate (map (\<lambda>row. source_number row (vf_index vf)) (filter (row_matches rf cf rk ck) rows))
                  (vf_aggregation vf)) vfs" (is "?l = ?r")
    if "rk \<in> set rks" for rk ck
  proof (rule nth_equalityI)
    fix vi assume "vi < length ?l"
    then have vi: "vi < length vfs" by simp
    with collected_rows [OF vi _ assms(1), of rk cf ck] assms(2) that show "?l ! vi = ?r ! vi"
      by (simp add: collected_def nth_enumerate_eq)
  qed simp
  show ?thesis unfolding base_values_def reference_base_def Let_def
    by (intro map_cong refl) (simp add: vals)
qed

definition reference_row_keys :: "nat list \<Rightarrow> source_row list \<Rightarrow> string list" where
  "reference_row_keys rf rows = set_dedup (map (\<lambda>row. buildCompositeKey row rf) (filter (row_complete rf) rows))"

definition reference_col_keys :: "nat list \<Rightarrow> nat list \<Rightarrow> source_row list \<Rightarrow> string list" where
  "reference_col_keys rf cf rows =
     set_dedup (map (column_key cf) (filter (\<lambda>row. row_complete rf row \<and> has_column_key cf row) rows))"

definition plain_rows :: "nat list \<Rightarrow> source_row list \<Rightarrow> bool" where
  "plain_rows rf rows \<longleftrightarrow>
     (\<forall>row \<in> set rows. \<forall>i \<in> set rf. free_of (CHR '':'') (row_cell row i) \<and> free_of (CHR ''|'') (row_cell row i))"

lemma plain_rows_key: "plain_rows rf rows \<Longrightarrow> row \<in> set rows \<Longrightarrow> free_of (CHR '':'') (buildCompositeKey row rf)"
  by (auto simp: plain_rows_def buildCompositeKey_def intro!: free_of_join)

lemma plain_rows_split:
  "plain_rows rf rows \<Longrightarrow> row \<in> set rows \<Longrightarrow> rf \<noteq> [] \<Longrightarrow>
   js_split bars [] (buildCompositeKey row rf) = map (row_cell row) rf"
  by (auto simp: plain_rows_def buildCompositeKey_def intro!: split_join)

lemma set_reference_row_keys:
  "set (reference_row_keys rf rows) = (\<lambda>row. buildCompositeKey row rf) ` {row \<in> set rows. row_complete rf row}"
  by (simp add: reference_row_keys_def)

lemma sorted_row_keys_reference:
  "sorted_row_keys lc (collect_rows rf cf vfs rows) = js_sort lc (reference_row_keys rf rows)"
  by (simp add: sorted_row_keys_def collected_keys reference_row_keys_def)

lemma row_key_origin:
  assumes "rk \<in> set (sorted_row_keys lc (collect_rows rf cf vfs rows))"
  obtains row where "row \<in> set rows" "rk = buildCompositeKey row rf"
  using assms by (auto simp: sorted_row_keys_reference set_reference_row_keys)

definition reference_body ::
  "(string \<Rightarrow> string \<Rightarrow> int) \<Rightarrow> source_row list \<Rightarrow> source_column list \<Rightarrow> pivot_config \<Rightarrow> pivot_cell list list" where
  "reference_body lc rows columns config =
     (let rf = field_indices columns (pv_rows config);
          normalized = normalizeColumnConfig (pv_columns config);
          cf = field_indices columns (map cc_field normalized);
          vfs = value_fields columns (pv_values config);
          rks = js_sort lc (reference_row_keys rf rows);
          cks = (if cf \<noteq> [] \<and> reference_col_keys rf cf rows \<noteq> []
                 then js_sort (\<lambda>a b. if column_sort normalized = Desc then lc b a else lc a b)
                        (reference_col_keys rf cf rows)
                 else [total_key])
      in if rf = [] \<or> vfs = [] then []
         else pivot_rows_of (display_modes (pv_values config)) (reference_base rows rf cf vfs rks cks)
                (length (pv_rows config)) rks (length cks) (length vfs) (nullish (showGrandTotalRow config) True))"

lemma no_fields [simp]: "field_indices columns [] = []" "value_fields columns [] = []"
  by (simp_all add: field_indices_def value_fields_def List.map_filter_def)

lemma base_values_keys:
  assumes "plain_rows rf rows"
  shows "base_values (data_map (collect_rows rf cf vfs rows)) vfs (js_sort lc (reference_row_keys rf rows)) cks =
    reference_base rows rf cf vfs (js_sort lc (reference_row_keys rf rows)) cks"
  by (rule base_values_reference) (auto simp: set_reference_row_keys plain_rows_key [OF assms])


section \<open>The rectangle\<close>

lemma length_concat_grid: "length (concat (map (\<lambda>x. map (f x) ys) xs)) = length xs * length ys"
  by (induction xs) simp_all

lemma length_field_indices:
  "\<forall>f \<in> set names. getFieldIndex columns f \<noteq> None \<Longrightarrow> length (field_indices columns names) = length names"
  by (induction names) (auto simp: field_indices_def List.map_filter_simps)

definition row_fields_found :: "source_column list \<Rightarrow> pivot_config \<Rightarrow> bool" where
  "row_fields_found columns config \<longleftrightarrow> (\<forall>f \<in> set (pv_rows config). getFieldIndex columns f \<noteq> None)"

definition no_total_column :: "nat list \<Rightarrow> source_row list \<Rightarrow> bool" where
  "no_total_column cf rows \<longleftrightarrow> (\<forall>row \<in> set rows. buildCompositeKey row cf \<noteq> total_key)"

definition column_fields :: "source_column list \<Rightarrow> pivot_config \<Rightarrow> nat list" where
  "column_fields columns config = field_indices columns (map cc_field (normalizeColumnConfig (pv_columns config)))"

lemma column_key_not_total:
  "has_column_key cf row \<Longrightarrow> column_key cf row = buildCompositeKey row cf"
  by (simp add: has_column_key_def column_key_def Let_def)

lemma sorted_col_keys_cases:
  assumes "no_total_column cf rows"
  obtains (total) "sorted_col_keys lc srt cf (collect_rows rf cf vfs rows) = [total_key]"
    | (keys) "cf \<noteq> []" "sorted_col_keys lc srt cf (collect_rows rf cf vfs rows) \<noteq> []"
        "hd (sorted_col_keys lc srt cf (collect_rows rf cf vfs rows)) \<noteq> total_key"
proof (cases "cf \<noteq> [] \<and> length (col_keys (collect_rows rf cf vfs rows)) > 0")
  case True
  let ?ks = "sorted_col_keys lc srt cf (collect_rows rf cf vfs rows)"
  have set: "set ?ks = set (col_keys (collect_rows rf cf vfs rows))"
    using True by (simp add: sorted_col_keys_def)
  with True have ne: "?ks \<noteq> []" by (metis length_greater_0_conv set_empty)
  then have "hd ?ks \<in> set (col_keys (collect_rows rf cf vfs rows))" using set by (metis hd_in_set)
  then have "hd ?ks \<noteq> total_key"
    using assms by (auto simp: collected_keys column_key_not_total no_total_column_def)
  with True ne show ?thesis by (intro keys) simp_all
next
  case False
  then show ?thesis by (intro total) (auto simp: sorted_col_keys_def)
qed

lemma length_header_rows:
  assumes "cks = [total_key] \<or> (cf \<noteq> [] \<and> cks \<noteq> [] \<and> hd cks \<noteq> total_key)" and "vfs \<noteq> []"
    and "h \<in> set (pivot_header_rows names n cf vfs cks)"
  shows "length h = length names + length cks * length vfs"
  using assms by (auto simp: pivot_header_rows_def length_concat_grid length_concat sum_list_triv comp_def
      split: if_splits)

lemma length_total_row [simp]: "length (total_row modes base k nc nv) = k + nc * nv"
  by (simp add: total_row_def length_concat_grid)

lemma length_body_row:
  "length (body_row modes base nc nv p) = length (js_split bars [] (snd p)) + nc * nv"
  by (simp add: body_row_def length_concat_grid)

definition rectangular :: "pivot_result \<Rightarrow> bool" where
  "rectangular r \<longleftrightarrow> rowCount r = length (pv_headers r) + length (pv_body r) \<and>
     (\<forall>h \<in> set (pv_headers r). length h = colCount r) \<and> (\<forall>row \<in> set (pv_body r). length row = colCount r)"

lemma body_row_lengths:
  assumes "plain_rows rf rows" and "rf \<noteq> []" and "length rf = k"
    and "row \<in> set (pivot_rows_of modes base k (sorted_row_keys lc (collect_rows rf cf vfs rows)) nc nv t)"
  shows "length row = k + nc * nv"
proof -
  have "length (js_split bars [] rk) = k" if "rk \<in> set (sorted_row_keys lc (collect_rows rf cf vfs rows))" for rk
    using that assms(1-3) by (auto elim!: row_key_origin simp: plain_rows_split)
  with assms(4) show ?thesis
    by (auto simp: pivot_rows_of_def length_body_row in_set_enumerate_eq split: if_splits)
qed

lemma rectangularI:
  assumes "hs \<noteq> []" and "\<forall>h \<in> set hs. length h = n" and "\<forall>row \<in> set body. length row = n"
  shows "rectangular \<lparr> pv_headers = hs, pv_body = body, rowCount = length body + length hs,
                       colCount = (case hs of [] \<Rightarrow> 0 | h # _ \<Rightarrow> length h) \<rparr>"
  using assms by (cases hs) (auto simp: rectangular_def)

lemma pivot_rectangular:
  assumes found: "row_fields_found columns config"
    and plain: "plain_rows (field_indices columns (pv_rows config)) rows"
    and nt: "no_total_column (column_fields columns config) rows"
  shows "rectangular (buildPivotTable lc rows columns config)"
proof -
  let ?rf = "field_indices columns (pv_rows config)"
  let ?cf = "column_fields columns config"
  let ?vfs = "value_fields columns (pv_values config)"
  let ?d = "collect_rows ?rf ?cf ?vfs rows"
  let ?srt = "column_sort (normalizeColumnConfig (pv_columns config))"
  let ?cks = "sorted_col_keys lc ?srt ?cf ?d"
  let ?n = "length (pv_rows config) + length ?cks * length ?vfs"
  show ?thesis
  proof (cases "?rf = [] \<or> ?vfs = []")
    case True
    then show ?thesis
      by (auto simp: buildPivotTable_def Let_def empty_pivot_def rectangular_def)
  next
    case False
    have len: "length ?rf = length (pv_rows config)"
      using found by (intro length_field_indices) (simp add: row_fields_found_def)
    have cks: "?cks = [total_key] \<or> (?cf \<noteq> [] \<and> ?cks \<noteq> [] \<and> hd ?cks \<noteq> total_key)"
      using nt by (rule sorted_col_keys_cases [of _ _ lc ?srt ?rf ?vfs]) auto
    have heads: "\<forall>h \<in> set (pivot_header_rows (pv_rows config) k ?cf ?vfs ?cks). length h = ?n" for k
      using length_header_rows [OF cks] False by blast
    have body: "\<forall>row \<in> set (pivot_rows_of modes base (length (pv_rows config)) (sorted_row_keys lc ?d)
                 (length ?cks) (length ?vfs) t). length row = ?n" for modes base t
      using body_row_lengths [OF plain _ len] False by blast
    have "pivot_header_rows (pv_rows config) k ?cf ?vfs ?cks \<noteq> []" for k
      by (simp add: pivot_header_rows_def)
    from rectangularI [OF this heads body] False show ?thesis
      by (auto simp: buildPivotTable_def Let_def column_fields_def)
  qed
qed

end
