(* ===== verification/Pivot_Refresh.thy ===== *)
theory Pivot_Refresh imports Pivot_Table begin

text \<open>
  Refreshing a pivot sheet: the batch of cell operations the page sends, and what the sheet holds after
  the backend has applied it (\<open>batch_update_cells\<close> of \<open>src/backend/spreadsheet/services.py\<close>).
\<close>

section \<open>The batch on the backend\<close>

text \<open>The raw inputs of the cells of a sheet; a cell that is soft-deleted has none.\<close>

type_synonym sheet_cells = "nat \<times> nat \<rightharpoonup> string"

fun apply_cell_op :: "cell_op \<Rightarrow> sheet_cells \<Rightarrow> sheet_cells" where
  "apply_cell_op (Clear_Cell r c) cells = cells((r, c) := None)"
| "apply_cell_op (Set_Cell r c raw) cells = cells((r, c) := if js_trim raw = [] then None else Some raw)"

fun op_position :: "cell_op \<Rightarrow> nat \<times> nat" where
  "op_position (Clear_Cell r c) = (r, c)"
| "op_position (Set_Cell r c raw) = (r, c)"

definition shown_text :: "string \<Rightarrow> string option" where
  "shown_text raw = (if js_trim raw = [] then None else Some raw)"

lemma apply_other: "p \<notin> set (map op_position ops) \<Longrightarrow> fold apply_cell_op ops cells p = cells p"
proof (induction ops arbitrary: cells)
  case (Cons x ops)
  then show ?case by (cases x) auto
qed simp

lemma apply_set:
  "distinct (map op_position ops) \<Longrightarrow> Set_Cell r c raw \<in> set ops \<Longrightarrow>
   fold apply_cell_op ops cells (r, c) = shown_text raw"
proof (induction ops arbitrary: cells)
  case (Cons x ops)
  show ?case
  proof (cases "x = Set_Cell r c raw")
    case True
    with Cons.prems have "(r, c) \<notin> set (map op_position ops)" by auto
    with True show ?thesis by (simp add: apply_other shown_text_def)
  qed (use Cons in auto)
qed simp

lemma apply_clears:
  "\<forall>x \<in> set ops. \<exists>r c. x = Clear_Cell r c \<Longrightarrow>
   fold apply_cell_op ops cells p = (if p \<in> set (map op_position ops) then None else cells p)"
  by (induction ops arbitrary: cells) auto

section \<open>Positions\<close>

lemma positions_row: "map op_position (row_operations r texts) = map (Pair r) [0..<length texts]"
  by (rule nth_equalityI) (simp_all add: row_operations_def nth_enumerate_eq)

lemma positions_rows:
  "\<forall>x \<in> set xs. length (f x) = n \<Longrightarrow>
   map op_position (concat (map (\<lambda>(i, x). row_operations i (f x)) (enumerate k xs))) =
   List.product [k..<k + length xs] [0..<n]"
proof (induction xs arbitrary: k)
  case (Cons x xs)
  have "[k..<k + length (x # xs)] = k # [Suc k..<Suc k + length xs]" by (simp add: upt_conv_Cons del: upt_Suc)
  with Cons show ?case by (simp add: positions_row del: upt_Suc)
qed simp

lemma product_append: "List.product (xs @ ys) zs = List.product xs zs @ List.product ys zs"
  by (induction xs) simp_all

lemma set_operations_positions:
  assumes "rectangular r"
  shows "map op_position (pivotResultToCellOperations r) = List.product [0..<rowCount r] [0..<colCount r]"
proof -
  let ?h = "length (pv_headers r)"
  have "map op_position (pivotResultToCellOperations r) =
      List.product [0..<?h] [0..<colCount r] @ List.product [?h..<?h + length (pv_body r)] [0..<colCount r]"
    using positions_rows [of "pv_headers r" "\<lambda>h. h" "colCount r" 0]
      positions_rows [of "pv_body r" "map cell_text" "colCount r" ?h] assms
    by (simp add: pivotResultToCellOperations_def rectangular_def)
  also have "\<dots> = List.product [0..<?h + length (pv_body r)] [0..<colCount r]"
    by (simp only: product_append [symmetric] upt_add_eq_append [OF le0])
  finally show ?thesis using assms by (simp add: rectangular_def)
qed

definition pivot_text :: "pivot_result \<Rightarrow> nat \<Rightarrow> nat \<Rightarrow> string" where
  "pivot_text r row col = (pv_headers r @ map (map cell_text) (pv_body r)) ! row ! col"

lemma row_operations_mem: "c < length texts \<Longrightarrow> Set_Cell r c (texts ! c) \<in> set (row_operations r texts)"
proof -
  assume "c < length texts"
  then have "(c, texts ! c) \<in> set (enumerate 0 texts)" by (simp add: in_set_enumerate_eq)
  then show ?thesis unfolding row_operations_def set_map by (rule rev_image_eqI) simp
qed

lemma set_operations_mem:
  assumes "rectangular r" and "row < rowCount r" and "col < colCount r"
  shows "Set_Cell row col (pivot_text r row col) \<in> set (pivotResultToCellOperations r)"
proof (cases "row < length (pv_headers r)")
  case True
  then have len: "length (pv_headers r ! row) = colCount r" using assms(1) by (auto simp: rectangular_def)
  have "(row, pv_headers r ! row) \<in> set (enumerate 0 (pv_headers r))" using True by (simp add: in_set_enumerate_eq)
  with row_operations_mem [of col "pv_headers r ! row" row] True assms(3) len show ?thesis
    unfolding pivotResultToCellOperations_def pivot_text_def by (fastforce simp: nth_append)
next
  case False
  let ?b = "pv_body r ! (row - length (pv_headers r))"
  have i: "row - length (pv_headers r) < length (pv_body r)" using False assms by (auto simp: rectangular_def)
  then have len: "length ?b = colCount r" using assms(1) by (auto simp: rectangular_def)
  have "(row, ?b) \<in> set (enumerate (length (pv_headers r)) (pv_body r))"
    using False i by (simp add: in_set_enumerate_eq)
  with row_operations_mem [of col "map cell_text ?b" row] False i assms(3) len show ?thesis
    unfolding pivotResultToCellOperations_def pivot_text_def by (fastforce simp: nth_append)
qed

lemma clear_positions:
  "set (map op_position (generateClearOperationsForStaleCells pr pc nr nc)) =
   {(r, c). (r < pr \<and> nc \<le> c \<and> c < pc) \<or> (nr \<le> r \<and> r < pr \<and> c < nc)}"
proof -
  have rows: "set (map op_position (concat (map (\<lambda>row. map (Clear_Cell row) cs) rs))) = set rs \<times> set cs" for rs cs
    by (induction rs) auto
  show ?thesis
    by (auto simp: generateClearOperationsForStaleCells_def rows simp del: set_map set_concat)
qed

lemma clears_only: "\<forall>x \<in> set (generateClearOperationsForStaleCells pr pc nr nc). \<exists>r c. x = Clear_Cell r c"
  by (auto simp: generateClearOperationsForStaleCells_def)

text \<open>The clears reach outside the table they are to remove when the new table is wider and shorter.\<close>

lemma clear_outside_old_pivot:
  assumes "nr < pr" and "pc < nc"
  shows "Clear_Cell nr pc \<in> set (generateClearOperationsForStaleCells pr pc nr nc)"
proof -
  have "Clear_Cell nr pc \<in> set (map (Clear_Cell nr) [0..<nc])" using assms by auto
  moreover have "map (Clear_Cell nr) [0..<nc] \<in> set (map (\<lambda>row. map (Clear_Cell row) [0..<nc]) [nr..<pr])"
    unfolding set_map using assms by (intro imageI) simp
  ultimately show ?thesis
    unfolding generateClearOperationsForStaleCells_def set_append set_concat by (intro UnI2 UN_I)
qed

lemma apply_pivot_operations:
  assumes r: "rectangular r" and old: "\<forall>p \<in> dom cells. fst p < fst dims \<and> snd p < snd dims"
  shows "fold apply_cell_op (pivot_operations r dims) cells (row, col) =
    (if row < rowCount r \<and> col < colCount r then shown_text (pivot_text r row col) else None)"
proof -
  let ?sets = "pivotResultToCellOperations r"
  let ?clears = "generateClearOperationsForStaleCells (fst dims) (snd dims) (rowCount r) (colCount r)"
  let ?in = "row < rowCount r \<and> col < colCount r"
  have pos: "set (map op_position ?sets) = {0..<rowCount r} \<times> {0..<colCount r}"
    using set_operations_positions [OF r] by simp
  have dist: "distinct (map op_position ?sets)"
    using set_operations_positions [OF r] by (simp add: distinct_product)
  have sets: "fold apply_cell_op ?sets cells (row, col) =
      (if ?in then shown_text (pivot_text r row col) else cells (row, col))"
    using apply_set [OF dist set_operations_mem [OF r]] apply_other [of "(row, col)" ?sets cells] pos by auto
  have "fold apply_cell_op (pivot_operations r dims) cells (row, col) =
      (if (row, col) \<in> set (map op_position ?clears) then None else fold apply_cell_op ?sets cells (row, col))"
    by (simp only: pivot_operations_def fold_append comp_apply apply_clears [OF clears_only])
  also have "\<dots> = (if ?in then shown_text (pivot_text r row col) else None)"
  proof (cases ?in)
    case True
    then show ?thesis by (simp only: sets clear_positions) auto
  next
    case False
    have "cells (row, col) = None" if "\<not> (row < fst dims \<and> col < snd dims)"
      using that old bspec [OF old, of "(row, col)"] by (cases "cells (row, col)") (auto simp: dom_def)
    with False show ?thesis by (simp only: sets clear_positions) auto
  qed
  finally show ?thesis .
qed

section \<open>Properties\<close>


lemma refresh_result:
  assumes "refresh_pivot lc sd config dims = Some (r, dims2, ops)"
  shows "r = buildPivotTable lc (pivot_source_rows sd) (pivot_columns sd) config"
    "dims2 = pivot_resize r dims" "ops = pivot_operations r dims"
  using assms by (auto simp: refresh_pivot_def Let_def split: if_splits)

lemma operations_inside:
  assumes "rectangular r" and "x \<in> set (pivot_operations r dims)"
  shows "fst (op_position x) < fst (pivot_resize r dims) \<and> snd (op_position x) < snd (pivot_resize r dims)"
proof -
  have "op_position x \<in> set (map op_position (pivot_operations r dims))" using assms(2) by simp
  moreover have "set (map op_position (pivot_operations r dims)) =
      {0..<rowCount r} \<times> {0..<colCount r} \<union>
      {(a, b). (a < fst dims \<and> colCount r \<le> b \<and> b < snd dims) \<or> (rowCount r \<le> a \<and> a < fst dims \<and> b < colCount r)}"
    unfolding pivot_operations_def map_append set_append set_operations_positions [OF assms(1)] clear_positions
    by simp
  ultimately show ?thesis by (auto simp: pivot_resize_def less_max_iff_disj)
qed


lemma lower_digit: "is_digit d \<Longrightarrow> lower_char c = d \<Longrightarrow> c = d"
  by (auto simp: lower_char_def is_digit_def code_of_def split: if_splits)

lemma lower_digits: "list_all is_digit s \<Longrightarrow> map lower_char t = map lower_char s \<Longrightarrow> t = s"
proof (induction s arbitrary: t)
  case (Cons d s)
  then obtain c t' where t: "t = c # t'" "lower_char c = lower_char d" "map lower_char t' = map lower_char s" by auto
  have "lower_char d = d" using Cons.prems(1) by (auto simp: lower_char_def is_digit_def)
  with t Cons show ?case by (auto dest: lower_digit)
qed simp

lemma max_pivot_number_ge:
  "name \<in> set names \<Longrightarrow> pivot_number name = Some n \<Longrightarrow> n \<le> max_pivot_number names"
proof (induction names rule: rev_induct)
  case (snoc x names)
  then show ?case
    by (auto simp: max_pivot_number_def split: option.splits)
qed simp

lemma pivot_number_generated:
  "map lower_char name = map lower_char (''Pivot Table '' @ nat_dec n) \<Longrightarrow> pivot_number name = Some n"
proof -
  assume eq: "map lower_char name = map lower_char (''Pivot Table '' @ nat_dec n)"
  have "map lower_char (take 12 name) = take 12 (map lower_char name)" by (rule take_map [symmetric])
  also have "\<dots> = map lower_char ''Pivot Table ''" unfolding eq map_append by simp
  also have "\<dots> = ''pivot table ''" by code_simp
  finally have head: "map lower_char (take 12 name) = ''pivot table ''" .
  have "map lower_char (drop 12 name) = drop 12 (map lower_char name)" by (rule drop_map [symmetric])
  also have "\<dots> = map lower_char (nat_dec n)" unfolding eq map_append by simp
  finally have rest: "map lower_char (drop 12 name) = map lower_char (nat_dec n)" .
  have "list_all is_digit (nat_dec n)" using nat_dec_digits [of n] by (simp only: all_digits_def)
  from lower_digits [OF this rest] have "drop 12 name = nat_dec n" .
  with head show ?thesis by (simp add: pivot_number_def nat_dec_digits)
qed

text \<open>The name generated for a new pivot sheet differs from the name of every existing sheet, also
  when upper and lower case are not distinguished.\<close>

lemma pivot_sheet_name_fresh:
  "map lower_char (generatePivotSheetName existingNames) \<notin> map lower_char ` set existingNames"
proof
  assume "map lower_char (generatePivotSheetName existingNames) \<in> map lower_char ` set existingNames"
  then obtain name where name: "name \<in> set existingNames"
    and eq: "map lower_char name = map lower_char (generatePivotSheetName existingNames)" by auto
  from eq have "pivot_number name = Some (max_pivot_number existingNames + 1)"
    unfolding generatePivotSheetName_def by (rule pivot_number_generated)
  with max_pivot_number_ge [OF name] show False by fastforce
qed

section \<open>A value field that is not in the source\<close>

lemma pivot_rows_of_modes:
  assumes "\<And>vi. vi < nv \<Longrightarrow> modes ! vi = modes' ! vi"
  shows "pivot_rows_of modes base k rks nc nv t = pivot_rows_of modes' base k rks nc nv t"
proof -
  have "map (display_cell modes base i ci) [0..<nv] = map (display_cell modes' base i ci) [0..<nv]"
    "map (total_cell modes base ci) [0..<nv] = map (total_cell modes' base ci) [0..<nv]" for i ci
    using assms by (auto simp: display_cell_def total_cell_def)
  then show ?thesis by (simp only: pivot_rows_of_def body_row_def [abs_def] total_row_def)
qed

text \<open>The display modes are looked up by the position among all value settings, although settings
  whose field is not in the source have been dropped from the columns: if the first of two value
  fields has disappeared from the source, the table shows the second one with the display mode of the
  first.\<close>

lemma missing_value_field_shifts_display:
  assumes missing: "getFieldIndex columns (vc_field a) = None"
    and found: "getFieldIndex columns (vc_field b) = Some i"
  shows "buildPivotTable lc rows columns (config\<lparr> pv_values := [a, b] \<rparr>) =
    buildPivotTable lc rows columns (config\<lparr> pv_values := [b\<lparr> vc_display := vc_display a \<rparr>] \<rparr>)"
proof -
  have vfs: "value_fields columns [a, b] = value_fields columns [b\<lparr> vc_display := vc_display a \<rparr>]"
    "length (value_fields columns [b\<lparr> vc_display := vc_display a \<rparr>]) = 1"
    using missing found by (simp_all add: value_fields_def List.map_filter_simps)
  have "display_modes [a, b] ! vi = display_modes [b\<lparr> vc_display := vc_display a \<rparr>] ! vi" if "vi < 1" for vi
    using that by (simp add: display_modes_def)
  from pivot_rows_of_modes [OF this] show ?thesis
    by (simp add: buildPivotTable_def vfs(1)) (simp add: Let_def vfs(2))
qed

section \<open>An example\<close>

text \<open>A source with a header row and three rows, one of them computed and one with a blank before its
  key, summed by channel.\<close>

definition demo_sheet :: source_sheet where
  "demo_sheet =
     \<lparr> ss_cells = map_of [((0, 0), \<lparr> rawInput = ''Channel'', computedString = None \<rparr>),
         ((0, 1), \<lparr> rawInput = ''Spend'', computedString = None \<rparr>),
         ((1, 0), \<lparr> rawInput = ''Search'', computedString = None \<rparr>),
         ((1, 1), \<lparr> rawInput = ''2'', computedString = None \<rparr>),
         ((2, 0), \<lparr> rawInput = ''Mail'', computedString = None \<rparr>),
         ((2, 1), \<lparr> rawInput = ''=1+2'', computedString = Some ''3'' \<rparr>),
         ((3, 0), \<lparr> rawInput = '' Search'', computedString = None \<rparr>),
         ((3, 1), \<lparr> rawInput = ''5'', computedString = None \<rparr>)],
       ss_rowCount = 4, ss_colCount = 2 \<rparr>"

definition demo_config :: pivot_config where
  "demo_config = \<lparr> sourceSheetId = 1, pv_rows = [''Channel''], pv_columns = [],
     pv_values = [\<lparr> vc_field = ''Spend'', vc_aggregation = Agg_SUM, vc_display = None \<rparr>],
     showGrandTotalRow = Some True \<rparr>"

definition demo_compare :: "string \<Rightarrow> string \<Rightarrow> int" where
  "demo_compare a b = int (code_of (hd (a @ '' ''))) - int (code_of (hd (b @ '' '')))"

definition demo_pivot :: pivot_result where
  "demo_pivot = buildPivotTable demo_compare (pivot_source_rows demo_sheet) (pivot_columns demo_sheet) demo_config"

lemma demo_plain: "plain_rows (field_indices (pivot_columns demo_sheet) (pv_rows demo_config)) (pivot_source_rows demo_sheet)"
  by code_simp

lemma demo_found: "row_fields_found (pivot_columns demo_sheet) demo_config"
  by code_simp

lemma demo_no_total:
  "no_total_column (column_fields (pivot_columns demo_sheet) demo_config) (pivot_source_rows demo_sheet)"
  by code_simp

lemma demo_body:
  "pv_body demo_pivot = [[PText ''Mail'', PNumber 3], [PText ''Search'', PNumber 7], [PText ''Total'', PNumber 10]]"
  by code_simp

lemma demo_size: "rowCount demo_pivot = 4" "colCount demo_pivot = 2"
  by code_simp+

lemma demo_refresh:
  "refresh_pivot demo_compare demo_sheet demo_config dims =
     Some (demo_pivot, pivot_resize demo_pivot dims, pivot_operations demo_pivot dims)"
  by (simp add: refresh_pivot_def demo_pivot_def isPivotConfigValid_def demo_config_def Let_def)




lemma missing_value_field_shifts_display_witness:
  "let b = \<lparr> vc_field = ''Spend'', vc_aggregation = Agg_SUM, vc_display = Some Total_Percent \<rparr>;
       gone = \<lparr> vc_field = ''Clicks'', vc_aggregation = Agg_SUM, vc_display = None \<rparr>
   in buildPivotTable demo_compare (pivot_source_rows demo_sheet) (pivot_columns demo_sheet)
        (demo_config\<lparr> pv_values := [gone, b] \<rparr>) = demo_pivot"
proof -
  have "getFieldIndex (pivot_columns demo_sheet) ''Clicks'' = None"
    "getFieldIndex (pivot_columns demo_sheet) ''Spend'' = Some 1" by code_simp+
  with missing_value_field_shifts_display [where columns = "pivot_columns demo_sheet" and i = 1
      and a = "\<lparr> vc_field = ''Clicks'', vc_aggregation = Agg_SUM, vc_display = None \<rparr>"
      and b = "\<lparr> vc_field = ''Spend'', vc_aggregation = Agg_SUM, vc_display = Some Total_Percent \<rparr>"
      and lc = demo_compare and rows = "pivot_source_rows demo_sheet" and config = demo_config]
  show ?thesis by (simp add: demo_pivot_def Let_def) (simp add: demo_config_def)
qed

end
