(* ===== verification/Task_Store.thy ===== *)
theory Task_Store imports Js_Object Event_System begin

text \<open>
  The task store (\<open>src/frontend/src/lib/taskStore.ts\<close>) and the optimistic edit of one task in the list
  view (\<open>updateSingleTask\<close> and \<open>pickTaskFields\<close> of \<open>src/frontend/src/components/tasks/ListView.tsx\<close>).

  A task has an id and its other properties by name; a property that is present with the value
  \<open>undefined\<close> is \<open>Some None\<close>, an absent one \<open>None\<close>, as the code tells them apart (\<open>field in task\<close>).
\<close>

section \<open>The store\<close>

type_synonym task_fields = "string \<rightharpoonup> js_val option"

record task =
  tk_id :: "int option"
  tk_fields :: task_fields

record task_store =
  tasks :: "task list"
  currentTask :: "task option"
  task_loading :: bool
  task_error :: js_val
  latestTaskOperationIds :: "string obj"

definition init_task_store :: task_store where
  "init_task_store = \<lparr> tasks = [], currentTask = None, task_loading = False, task_error = JNull,
     latestTaskOperationIds = [] \<rparr>"

definition taskOperationKey :: "int \<Rightarrow> string \<Rightarrow> string" where
  "taskOperationKey taskId operationScope = int_dec taskId @ '':'' @ operationScope"

definition spread_task :: "task_fields \<Rightarrow> task \<Rightarrow> task" where
  "spread_task patch t = t\<lparr> tk_fields := tk_fields t ++ patch \<rparr>"

definition mergeTaskPatch :: "int \<Rightarrow> task_fields \<Rightarrow> task_store \<Rightarrow> task_store" where
  "mergeTaskPatch taskId patch s =
     s\<lparr> tasks := map_where (\<lambda>t. tk_id t = Some taskId) (spread_task patch) (tasks s),
        currentTask := map_option (\<lambda>t. if tk_id t = Some taskId then spread_task patch t else t) (currentTask s) \<rparr>"

definition setTasks :: "task list \<Rightarrow> task_store \<Rightarrow> task_store" where
  "setTasks ts s = s\<lparr> tasks := ts \<rparr>"

definition setCurrentTask :: "task option \<Rightarrow> task_store \<Rightarrow> task_store" where
  "setCurrentTask t s = s\<lparr> currentTask := t \<rparr>"

definition setTaskLoading :: "bool \<Rightarrow> task_store \<Rightarrow> task_store" where
  "setTaskLoading b s = s\<lparr> task_loading := b \<rparr>"

definition setTaskError :: "js_val \<Rightarrow> task_store \<Rightarrow> task_store" where
  "setTaskError e s = s\<lparr> task_error := e \<rparr>"

definition updateTask :: "int \<Rightarrow> task_fields \<Rightarrow> task_store \<Rightarrow> task_store" where
  "updateTask taskId updatedData s = mergeTaskPatch taskId updatedData s"

definition latest_operation :: "int \<Rightarrow> string \<Rightarrow> task_store \<Rightarrow> string option" where
  "latest_operation taskId operationScope s =
     obj_get (latestTaskOperationIds s) (str_key (taskOperationKey taskId operationScope))"

definition beginTaskOperation :: "int \<Rightarrow> string \<Rightarrow> string \<Rightarrow> task_store \<Rightarrow> task_store" where
  "beginTaskOperation taskId operationScope operationId s =
     s\<lparr> latestTaskOperationIds :=
          obj_set (str_key (taskOperationKey taskId operationScope)) operationId (latestTaskOperationIds s) \<rparr>"

definition resolveTaskFromServer ::
  "int \<Rightarrow> task_fields \<Rightarrow> string \<Rightarrow> string \<Rightarrow> task_store \<Rightarrow> bool \<times> task_store" where
  "resolveTaskFromServer taskId serverPatch operationScope operationId s =
     (if latest_operation taskId operationScope s \<noteq> Some operationId then (False, s)
      else (True, mergeTaskPatch taskId serverPatch s))"

definition rollbackTaskOperation ::
  "int \<Rightarrow> task_fields \<Rightarrow> string \<Rightarrow> string \<Rightarrow> task_store \<Rightarrow> bool \<times> task_store" where
  "rollbackTaskOperation taskId previousPatch operationScope operationId s =
     (if latest_operation taskId operationScope s \<noteq> Some operationId then (False, s)
      else (True, mergeTaskPatch taskId previousPatch s))"

definition id_in :: "int list \<Rightarrow> task \<Rightarrow> bool" where
  "id_in taskIds t = (case tk_id t of None \<Rightarrow> False | Some i \<Rightarrow> i \<noteq> 0 \<and> i \<in> set taskIds)"

definition updateTasksBulk :: "int list \<Rightarrow> task_fields \<Rightarrow> task_store \<Rightarrow> task_store" where
  "updateTasksBulk taskIds updatedData s =
     s\<lparr> tasks := map_where (id_in taskIds) (spread_task updatedData) (tasks s),
        currentTask := map_option (\<lambda>t. if id_in taskIds t then spread_task updatedData t else t) (currentTask s) \<rparr>"

definition addTask :: "task \<Rightarrow> task_store \<Rightarrow> task_store" where
  "addTask t s = s\<lparr> tasks := t # tasks s \<rparr>"

definition removeTask :: "int \<Rightarrow> task_store \<Rightarrow> task_store" where
  "removeTask taskId s = s\<lparr> tasks := filter (\<lambda>t. tk_id t \<noteq> Some taskId) (tasks s) \<rparr>"

section \<open>Editing one task\<close>

definition pickTaskFields :: "task_fields \<Rightarrow> string list \<Rightarrow> task_fields" where
  "pickTaskFields t names = (\<lambda>f. if f \<in> set names then t f else None)"

fun comma_join :: "string list \<Rightarrow> string" where
  "comma_join [] = []"
| "comma_join [x] = x"
| "comma_join (x # y # r) = x @ '','' @ comma_join (y # r)"

definition operation_scope :: "string list \<Rightarrow> string" where
  "operation_scope patchFields =
     comma_join (js_sort (\<lambda>a b. if a = b then 0 else if string_le a b then - 1 else 1) patchFields)"

text \<open>What the closure of the running call keeps: the task, the fields, the ids and the values to go back
  to.\<close>

record task_request =
  rq_task :: int
  rq_fields :: "string list"
  rq_id :: string
  rq_previous :: task_fields

definition rq_scope :: "task_request \<Rightarrow> string" where
  "rq_scope r = operation_scope (rq_fields r)"

definition updateSingleTask_begin ::
  "task \<Rightarrow> (string \<times> js_val option) list \<Rightarrow> string \<Rightarrow> task_store \<Rightarrow> task_request option \<times> task_store" where
  "updateSingleTask_begin task patch operationId s =
     (case tk_id task of
        None \<Rightarrow> (None, s)
      | Some taskId \<Rightarrow>
          if taskId = 0 then (None, s)
          else (let patchFields = map fst patch;
                    current = nullish (List.find (\<lambda>t. tk_id t = Some taskId) (tasks s)) task;
                    previousPatch = pickTaskFields (tk_fields current) patchFields;
                    s1 = beginTaskOperation taskId (operation_scope patchFields) operationId s
                in (Some \<lparr> rq_task = taskId, rq_fields = patchFields, rq_id = operationId,
                           rq_previous = previousPatch \<rparr>,
                    updateTask taskId (map_of patch) s1)))"

definition updateSingleTask_fail :: "task_request \<Rightarrow> task_store \<Rightarrow> bool \<times> task_store" where
  "updateSingleTask_fail r s =
     (False, snd (rollbackTaskOperation (rq_task r) (rq_previous r) (rq_scope r) (rq_id r) s))"

definition updateSingleTask_ok ::
  "task_request \<Rightarrow> string option \<Rightarrow> task_fields \<Rightarrow> task_store \<Rightarrow> bool \<times> task_store" where
  "updateSingleTask_ok r operation_id serverTask s =
     (if operation_id \<noteq> Some (rq_id r) then updateSingleTask_fail r s
      else resolveTaskFromServer (rq_task r) (pickTaskFields serverTask (rq_fields r)) (rq_scope r) (rq_id r) s)"

section \<open>The keys of operations\<close>

lemma taskOperationKey_inject [simp]:
  "taskOperationKey t sc = taskOperationKey t' sc' \<longleftrightarrow> t = t' \<and> sc = sc'"
  using before_separator [OF int_dec_no_colon int_dec_no_colon] by (simp add: taskOperationKey_def)

lemma latest_begin:
  "latest_operation t sc (beginTaskOperation t' sc' i s) = (if t = t' \<and> sc = sc' then Some i else latest_operation t sc s)"
  by (auto simp: latest_operation_def beginTaskOperation_def str_key_inject)

lemma latest_merge [simp]: "latest_operation t sc (mergeTaskPatch i p s) = latest_operation t sc s"
  by (simp add: latest_operation_def mergeTaskPatch_def)

text \<open>The tasks on the screen: those of the list and the open one.\<close>

definition shown_tasks :: "task_store \<Rightarrow> task set" where
  "shown_tasks s = set (tasks s) \<union> set_option (currentTask s)"

definition shows_field :: "int \<Rightarrow> string \<Rightarrow> js_val option option \<Rightarrow> task_store \<Rightarrow> bool" where
  "shows_field t f v s \<longleftrightarrow> (\<forall>task \<in> shown_tasks s. tk_id task = Some t \<longrightarrow> tk_fields task f = v)"

lemma shown_merge:
  "shown_tasks (mergeTaskPatch i p s) = (\<lambda>t. if tk_id t = Some i then spread_task p t else t) ` shown_tasks s"
  by (cases "currentTask s") (auto simp: shown_tasks_def mergeTaskPatch_def map_where_def)

lemma shown_begin [simp]: "shown_tasks (beginTaskOperation t sc i s) = shown_tasks s"
  by (simp add: shown_tasks_def beginTaskOperation_def)

lemma shows_merge_other: "t \<noteq> i \<or> p f = None \<Longrightarrow> shows_field t f v s \<Longrightarrow> shows_field t f v (mergeTaskPatch i p s)"
  by (auto simp: shows_field_def shown_merge spread_task_def map_add_def split: if_splits)

lemma shows_merge_same: "p f = Some v \<Longrightarrow> shows_field t f (Some v) (mergeTaskPatch t p s)"
  by (auto simp: shows_field_def shown_merge spread_task_def map_add_def)

end
