(* ===== verification/Task_Sync.thy ===== *)
theory Task_Sync imports Task_Store begin

text \<open>
  Editing tasks while requests are under way: the list view, the server and the network as one
  transition system.  The server handles the requests in the order in which they were sent; the replies
  arrive in any order.
\<close>

section \<open>The system\<close>

record task_sync =
  sy_store :: task_store
  sy_server :: "int \<Rightarrow> task_fields"
  sy_queue :: "task_request list"
  sy_replies :: "(task_request \<times> task_fields) list"
  sy_used :: "string list"

datatype task_event =
  EditTask task "(string \<times> js_val option) list" string
| ServerHandles "(string \<times> js_val option) list"
| ReplyArrives nat

text \<open>\<open>ServerHandles vals\<close>: the server stores values for the fields of the oldest request, those sent or
  others, and the reply carries the whole task.\<close>

fun task_perform :: "task_event \<Rightarrow> task_sync \<Rightarrow> task_sync" where
  "task_perform (EditTask t patch i) s =
     (case updateSingleTask_begin t patch i (sy_store s) of
        (None, st) \<Rightarrow> s\<lparr> sy_store := st \<rparr>
      | (Some r, st) \<Rightarrow> s\<lparr> sy_store := st, sy_queue := sy_queue s @ [r], sy_used := i # sy_used s \<rparr>)"
| "task_perform (ServerHandles vals) s =
     (case sy_queue s of
        [] \<Rightarrow> s
      | r # rest \<Rightarrow>
          (let server = (sy_server s)(rq_task r := sy_server s (rq_task r) ++ map_of vals)
           in s\<lparr> sy_server := server, sy_queue := rest, sy_replies := sy_replies s @ [(r, server (rq_task r))] \<rparr>))"
| "task_perform (ReplyArrives k) s =
     (let (r, serverTask) = sy_replies s ! k
      in s\<lparr> sy_store := snd (updateSingleTask_ok r (Some (rq_id r)) serverTask (sy_store s)),
            sy_replies := splice_remove k (sy_replies s) \<rparr>)"

text \<open>The field lists that the list view edits together, \<open>scopes\<close>, are disjoint: one field each, or an id
  with the object it names.\<close>

fun task_guard :: "string list list \<Rightarrow> task_sync \<Rightarrow> task_event \<Rightarrow> bool" where
  "task_guard scopes s (EditTask t patch i) \<longleftrightarrow> map fst patch \<in> set scopes \<and> i \<notin> set (sy_used s)"
| "task_guard scopes s (ServerHandles vals) \<longleftrightarrow>
     (case sy_queue s of [] \<Rightarrow> False | r # _ \<Rightarrow> set (map fst vals) = set (rq_fields r))"
| "task_guard scopes s (ReplyArrives k) \<longleftrightarrow> k < length (sy_replies s)"

definition disjoint_scopes :: "string list list \<Rightarrow> bool" where
  "disjoint_scopes scopes \<longleftrightarrow> (\<forall>F \<in> set scopes. \<forall>G \<in> set scopes.
     (operation_scope F = operation_scope G \<and> set F = set G) \<or>
     (operation_scope F \<noteq> operation_scope G \<and> set F \<inter> set G = {}))"

definition list_view_scopes :: "string list list" where
  "list_view_scopes = [[''summary''], [''due_date''], [''start_date''], [''priority''],
     [''owner_id'', ''owner''], [''current_approver_id'', ''current_approver'']]"

section \<open>The invariant\<close>

definition has_key :: "int \<Rightarrow> string \<Rightarrow> task_request \<Rightarrow> bool" where
  "has_key t sc r \<longleftrightarrow> rq_task r = t \<and> rq_scope r = sc"

definition queued :: "int \<Rightarrow> string \<Rightarrow> task_sync \<Rightarrow> task_request list" where
  "queued t sc s = filter (has_key t sc) (sy_queue s)"

definition awaited :: "int \<Rightarrow> string \<Rightarrow> task_sync \<Rightarrow> (task_request \<times> task_fields) list" where
  "awaited t sc s = filter (\<lambda>p. latest_operation t sc (sy_store s) = Some (rq_id (fst p)) \<and> has_key t sc (fst p))
     (sy_replies s)"

text \<open>For one task and one list of fields: the newest queued request is the latest operation; the awaited
  reply of the latest operation has the server's values; otherwise the screen has them.\<close>

definition replies_ok :: "task_fields \<Rightarrow> string list \<Rightarrow> (task_request \<times> task_fields) list \<Rightarrow> bool" where
  "replies_ok server F ps \<longleftrightarrow> (\<forall>p \<in> set ps. \<forall>f \<in> set F. snd p f = server f \<and> snd p f \<noteq> None)"

definition screen_ok :: "int \<Rightarrow> task_fields \<Rightarrow> string list \<Rightarrow> task_store \<Rightarrow> bool" where
  "screen_ok t server F st \<longleftrightarrow> (\<forall>f \<in> set F. shows_field t f (server f) st)"

definition fields_ok :: "int \<Rightarrow> string list \<Rightarrow> task_sync \<Rightarrow> bool" where
  "fields_ok t F s \<longleftrightarrow>
     (let sc = operation_scope F
      in if queued t sc s \<noteq> []
         then latest_operation t sc (sy_store s) = Some (rq_id (last (queued t sc s)))
         else if awaited t sc s \<noteq> []
         then replies_ok (sy_server s t) F (awaited t sc s)
         else screen_ok t (sy_server s t) F (sy_store s))"

definition requests :: "task_sync \<Rightarrow> task_request list" where
  "requests s = map fst (sy_replies s) @ sy_queue s"

definition sync_ok :: "string list list \<Rightarrow> task_sync \<Rightarrow> bool" where
  "sync_ok scopes s \<longleftrightarrow>
     distinct (map rq_id (requests s)) \<and> set (map rq_id (requests s)) \<subseteq> set (sy_used s) \<and>
     (\<forall>r \<in> set (requests s). rq_fields r \<in> set scopes) \<and> (\<forall>t. \<forall>F \<in> set scopes. fields_ok t F s)"

lemma fields_server_cong:
  assumes "\<And>f. f \<in> set F \<Longrightarrow> server f = server' f"
  shows "replies_ok server F ps = replies_ok server' F ps" "screen_ok t server F st = screen_ok t server' F st"
  using assms by (auto simp: replies_ok_def screen_ok_def)

lemma disjoint_scopesD:
  assumes "disjoint_scopes scopes" and "F \<in> set scopes" and "G \<in> set scopes"
  shows "operation_scope F = operation_scope G \<Longrightarrow> set F = set G"
    and "operation_scope F \<noteq> operation_scope G \<Longrightarrow> f \<in> set F \<Longrightarrow> f \<notin> set G"
  using assms by (auto simp: disjoint_scopes_def)

lemma shows_pick_other:
  "t \<noteq> i \<or> f \<notin> set G \<Longrightarrow> shows_field t f v s \<Longrightarrow> shows_field t f v (mergeTaskPatch i (pickTaskFields p G) s)"
  by (rule shows_merge_other) (auto simp: pickTaskFields_def)

text \<open>Editing.\<close>

lemma begin_result:
  assumes "updateSingleTask_begin t patch i st = (Some r, st')"
  shows "rq_fields r = map fst patch" "rq_id r = i"
    "st' = mergeTaskPatch (rq_task r) (map_of patch) (beginTaskOperation (rq_task r) (rq_scope r) i st)"
  using assms by (auto simp: updateSingleTask_begin_def Let_def updateTask_def rq_scope_def split: option.splits if_splits)

lemma begin_none: "updateSingleTask_begin t patch i st = (None, st') \<Longrightarrow> st' = st"
  by (auto simp: updateSingleTask_begin_def Let_def split: option.splits if_splits)

lemma sync_ok_edit:
  assumes d: "disjoint_scopes scopes" and s: "sync_ok scopes s" and g: "task_guard scopes s (EditTask t patch i)"
  shows "sync_ok scopes (task_perform (EditTask t patch i) s)"
proof (cases "updateSingleTask_begin t patch i (sy_store s)")
  case (Pair req st)
  show ?thesis
  proof (cases req)
    case None
    with Pair have "task_perform (EditTask t patch i) s = s" using begin_none by fastforce
    with s show ?thesis by simp
  next
    case (Some r)
    note started = begin_result [OF Pair [unfolded Some]]
    let ?s' = "s\<lparr> sy_store := st, sy_queue := sy_queue s @ [r], sy_used := i # sy_used s \<rparr>"
    have r: "rq_fields r \<in> set scopes" "i \<notin> set (sy_used s)" using g started(1) by auto
    have "fields_ok t' F ?s'" if F: "F \<in> set scopes" for t' F
    proof (cases "has_key t' (operation_scope F) r")
      case True
      then show ?thesis
        by (simp add: fields_ok_def queued_def started(2,3) Let_def latest_begin has_key_def)
    next
      case False
      have latest: "latest_operation t' (operation_scope F) st = latest_operation t' (operation_scope F) (sy_store s)"
        using False by (auto simp: started(3) latest_begin has_key_def)
      have screen: "shows_field t' f v st" if "f \<in> set F" and "shows_field t' f v (sy_store s)" for f v
      proof -
        have "t' \<noteq> rq_task r \<or> f \<notin> set (rq_fields r)"
          using False that(1) disjoint_scopesD(2) [OF d F r(1)] by (auto simp: has_key_def rq_scope_def)
        then have "t' \<noteq> rq_task r \<or> map_of patch f = None" by (auto simp: started(1) map_of_eq_None_iff)
        with that(2) show ?thesis unfolding started(3) by (intro shows_merge_other) (auto simp: shows_field_def)
      qed
      have "fields_ok t' F s" using s F by (simp add: sync_ok_def)
      then show ?thesis using False latest screen
        by (auto simp: fields_ok_def queued_def awaited_def screen_ok_def Let_def split: if_splits)
    qed
    with s r started(2) have "sync_ok scopes ?s'" by (auto simp: sync_ok_def requests_def)
    with Pair Some show ?thesis by simp
  qed
qed

text \<open>The server handles the oldest request.\<close>

lemma sync_ok_handles:
  assumes d: "disjoint_scopes scopes" and s: "sync_ok scopes s" and g: "task_guard scopes s (ServerHandles vals)"
  shows "sync_ok scopes (task_perform (ServerHandles vals) s)"
proof -
  obtain r rest where q: "sy_queue s = r # rest" and vals: "set (map fst vals) = set (rq_fields r)"
    using g by (auto split: list.splits)
  let ?server = "(sy_server s)(rq_task r := sy_server s (rq_task r) ++ map_of vals)"
  let ?s' = "s\<lparr> sy_server := ?server, sy_queue := rest, sy_replies := sy_replies s @ [(r, ?server (rq_task r))] \<rparr>"
  have ids: "distinct (map rq_id (requests s))" using s by (simp add: sync_ok_def)
  have r: "rq_fields r \<in> set scopes" using s q by (auto simp: sync_ok_def requests_def)
  have set_val: "?server (rq_task r) f \<noteq> None" if "f \<in> set (rq_fields r)" for f
  proof -
    have "map_of vals f \<noteq> None" using that vals by (auto simp: map_of_eq_None_iff)
    then show ?thesis by (auto simp: map_add_def split: option.splits)
  qed
  have "fields_ok t F ?s'" if F: "F \<in> set scopes" for t F
  proof -
    have old: "fields_ok t F s" using s F by (simp add: sync_ok_def)
    show ?thesis
    proof (cases "has_key t (operation_scope F) r")
      case True
      have eqF: "set F = set (rq_fields r)"
        using True disjoint_scopesD(1) [OF d F r] by (simp add: has_key_def rq_scope_def)
      have latest: "latest_operation t (operation_scope F) (sy_store s) = Some (rq_id (last (queued t (operation_scope F) s)))"
        using old True q by (simp add: fields_ok_def queued_def Let_def)
      show ?thesis
      proof (cases "filter (has_key t (operation_scope F)) rest = []")
        case True': True
        then have latest': "latest_operation t (operation_scope F) (sy_store s) = Some (rq_id r)"
          using latest True q by (simp add: queued_def)
        have "\<not> (Some (rq_id r) = Some (rq_id (fst p)) \<and> has_key t (operation_scope F) (fst p))"
          if "p \<in> set (sy_replies s)" for p
        proof -
          have "rq_id (fst p) \<noteq> rq_id r" using ids q that by (auto simp: requests_def image_iff)
          then show ?thesis by simp
        qed
        then have "awaited t (operation_scope F) ?s' = [(r, ?server (rq_task r))]"
          using True by (simp add: awaited_def latest' filter_empty_conv)
        then show ?thesis using True' True set_val eqF
          by (simp add: fields_ok_def queued_def replies_ok_def Let_def has_key_def)
      next
        case False
        then show ?thesis using latest True q by (simp add: fields_ok_def queued_def Let_def)
      qed
    next
      case False
      have other: "t \<noteq> rq_task r \<or> f \<notin> set (rq_fields r)" if "f \<in> set F" for f
        using False that disjoint_scopesD(2) [OF d F r] by (auto simp: has_key_def rq_scope_def)
      have server: "?server t f = sy_server s t f" if "f \<in> set F" for f
      proof -
        have "t \<noteq> rq_task r \<or> map_of vals f = None" using other [OF that] vals by (auto simp: map_of_eq_None_iff)
        then show ?thesis by (auto simp: map_add_def)
      qed
      have "queued t (operation_scope F) ?s' = queued t (operation_scope F) s"
        "awaited t (operation_scope F) ?s' = awaited t (operation_scope F) s"
        using False q by (simp_all add: queued_def awaited_def)
      with old fields_server_cong [of F "?server t" "sy_server s t", OF server] show ?thesis
        by (simp add: fields_ok_def Let_def)
    qed
  qed
  moreover have "mset (map rq_id (requests ?s')) = mset (map rq_id (requests s))"
    by (simp add: requests_def q)
  then have "distinct (map rq_id (requests ?s'))" "set (map rq_id (requests ?s')) = set (map rq_id (requests s))"
    using ids by (metis mset_eq_imp_distinct_iff, metis mset_eq_setD)
  moreover have "set (requests ?s') = set (requests s)" by (auto simp: requests_def q)
  ultimately have "sync_ok scopes ?s'" using s by (auto simp: sync_ok_def)
  then show ?thesis by (simp add: q)
qed

text \<open>A reply arrives.\<close>

lemma splice_remove_filter:
  "k < length xs \<Longrightarrow> \<not> P (xs ! k) \<Longrightarrow> filter P (splice_remove k xs) = filter P xs"
  by (subst (2) id_take_nth_drop [of k xs]) (simp_all add: splice_remove_def)

lemma set_splice_remove: "set (splice_remove k xs) \<subseteq> set xs"
  using set_take_subset [of k xs] set_drop_subset [of "Suc k" xs] by (auto simp: splice_remove_def)

lemma distinct_splice_remove:
  "distinct (map f xs) \<Longrightarrow> k < length xs \<Longrightarrow> x \<in> set (splice_remove k xs) \<Longrightarrow> f x \<noteq> f (xs ! k)"
  by (subst (asm) (1) id_take_nth_drop [of k xs]) (auto simp: splice_remove_def, (metis image_eqI)+)

lemma reply_result:
  "snd (updateSingleTask_ok r (Some (rq_id r)) p st) =
   (if latest_operation (rq_task r) (rq_scope r) st = Some (rq_id r)
    then mergeTaskPatch (rq_task r) (pickTaskFields p (rq_fields r)) st else st)"
  by (simp add: updateSingleTask_ok_def resolveTaskFromServer_def)

lemma sync_ok_reply:
  assumes d: "disjoint_scopes scopes" and s: "sync_ok scopes s" and k: "k < length (sy_replies s)"
  shows "sync_ok scopes (task_perform (ReplyArrives k) s)"
proof (cases "sy_replies s ! k")
  case (Pair r p)
  let ?st = "snd (updateSingleTask_ok r (Some (rq_id r)) p (sy_store s))"
  let ?s' = "s\<lparr> sy_store := ?st, sy_replies := splice_remove k (sy_replies s) \<rparr>"
  have mem: "(r, p) \<in> set (sy_replies s)" using k Pair by (metis nth_mem)
  have "r \<in> set (requests s)" using mem by (auto simp: requests_def intro: rev_image_eqI)
  then have r: "rq_fields r \<in> set scopes" using s by (simp add: sync_ok_def)
  have latest [simp]: "latest_operation t sc ?st = latest_operation t sc (sy_store s)" for t sc
    by (simp add: reply_result)
  have "fields_ok t F ?s'" if F: "F \<in> set scopes" for t F
  proof -
    have old: "fields_ok t F s" using s F by (simp add: sync_ok_def)
    let ?P = "\<lambda>q. latest_operation t (operation_scope F) (sy_store s) = Some (rq_id (fst q)) \<and>
                   has_key t (operation_scope F) (fst q)"
    have queue: "queued t (operation_scope F) ?s' = queued t (operation_scope F) s" by (simp add: queued_def)
    show ?thesis
    proof (cases "?P (r, p)")
      case True
      then have hk: "t = rq_task r" "operation_scope F = rq_scope r" "latest_operation t (rq_scope r) (sy_store s) = Some (rq_id r)"
        by (auto simp: has_key_def)
      have eqF: "set F = set (rq_fields r)" using disjoint_scopesD(1) [OF d F r] hk(2) by (simp add: rq_scope_def)
      have "distinct (map (\<lambda>q. rq_id (fst q)) (sy_replies s))"
        using s by (simp add: sync_ok_def requests_def comp_def)
      then have none: "awaited t (operation_scope F) ?s' = []"
        using distinct_splice_remove [of "\<lambda>q. rq_id (fst q)" "sy_replies s" k] k Pair hk
        by (fastforce simp: awaited_def filter_empty_conv)
      show ?thesis
      proof (cases "queued t (operation_scope F) s = []")
        case qe: True
        have "(r, p) \<in> set (awaited t (operation_scope F) s)" using True mem by (simp add: awaited_def)
        then have "awaited t (operation_scope F) s \<noteq> []" by auto
        with old qe have "replies_ok (sy_server s t) F (awaited t (operation_scope F) s)"
          by (simp add: fields_ok_def Let_def)
        from bspec [OF this [unfolded replies_ok_def] \<open>(r, p) \<in> set (awaited t (operation_scope F) s)\<close>]
        have vals: "\<forall>f \<in> set F. p f = sy_server s t f \<and> p f \<noteq> None" by (simp only: snd_conv)
        have "shows_field t f (sy_server s t f) ?st" if f: "f \<in> set F" for f
        proof -
          obtain v where v: "p f = Some v" using vals f by (metis option.exhaust)
          then have "pickTaskFields p (rq_fields r) f = Some v" using f eqF by (simp add: pickTaskFields_def)
          from shows_merge_same [of "pickTaskFields p (rq_fields r)", OF this] vals f v hk show ?thesis
            by (simp add: reply_result)
        qed
        with qe none queue show ?thesis by (simp add: fields_ok_def screen_ok_def Let_def)
      next
        case False
        with old queue show ?thesis by (simp add: fields_ok_def Let_def)
      qed
    next
      case False
      have aw: "awaited t (operation_scope F) ?s' = awaited t (operation_scope F) s"
        using splice_remove_filter [OF k, of ?P] False Pair by (simp add: awaited_def)
      have "shows_field t f v ?st" if f: "f \<in> set F" and "shows_field t f v (sy_store s)" for f v
      proof (cases "latest_operation (rq_task r) (rq_scope r) (sy_store s) = Some (rq_id r)")
        case True
        with False have "t \<noteq> rq_task r \<or> operation_scope F \<noteq> operation_scope (rq_fields r)"
          by (auto simp: has_key_def rq_scope_def)
        then have "t \<noteq> rq_task r \<or> f \<notin> set (rq_fields r)" using disjoint_scopesD(2) [OF d F r] f by blast
        then show ?thesis using that(2) by (simp add: reply_result shows_pick_other)
      qed (use that(2) in \<open>simp add: reply_result\<close>)
      with old aw queue show ?thesis by (auto simp: fields_ok_def screen_ok_def Let_def split: if_splits)
    qed
  qed
  moreover have mset: "mset (requests s) = add_mset r (mset (requests ?s'))"
    using arg_cong [OF mset_splice_remove [OF k], of "image_mset fst"] Pair by (simp add: requests_def)
  then have "mset (map rq_id (requests s)) = mset (rq_id r # map rq_id (requests ?s'))" by simp
  then have "distinct (rq_id r # map rq_id (requests ?s'))" using s
    by (metis mset_eq_imp_distinct_iff sync_ok_def)
  moreover have sub: "set (requests ?s') \<subseteq> set (requests s)"
    using arg_cong [OF mset, of set_mset] by auto
  moreover have "rq_id ` set (requests ?s') \<subseteq> set (sy_used s)"
    by (rule subset_trans [OF image_mono [OF sub]]) (use s in \<open>simp add: sync_ok_def\<close>)
  ultimately have "sync_ok scopes ?s'" using s by (simp add: sync_ok_def subset_iff)
  with Pair show ?thesis by simp
qed

section \<open>Properties\<close>

lemma list_view_scopes_disjoint: "disjoint_scopes list_view_scopes"
  by code_simp

lemma sync_ok_step:
  "sync_ok list_view_scopes s \<Longrightarrow> task_guard list_view_scopes s e \<Longrightarrow> sync_ok list_view_scopes (task_perform e s)"
  using sync_ok_edit [OF list_view_scopes_disjoint, of s] sync_ok_handles [OF list_view_scopes_disjoint, of s]
    sync_ok_reply [OF list_view_scopes_disjoint, of s]
  by (cases e) simp_all

interpretation task_edits: event_system "task_guard list_view_scopes" task_perform "sync_ok list_view_scopes"
  by unfold_locales (rule sync_ok_step)

definition in_step :: "task_sync \<Rightarrow> bool" where
  "in_step s \<longleftrightarrow> (\<forall>t. \<forall>F \<in> set list_view_scopes. \<forall>f \<in> set F. shows_field t f (sy_server s t f) (sy_store s))"

definition nothing_under_way :: "task_sync \<Rightarrow> bool" where
  "nothing_under_way s \<longleftrightarrow> sy_queue s = [] \<and> sy_replies s = []"

lemma sync_ok_quiet: "nothing_under_way s \<Longrightarrow> sync_ok list_view_scopes s \<longleftrightarrow> in_step s"
  by (auto simp: sync_ok_def in_step_def nothing_under_way_def requests_def fields_ok_def queued_def awaited_def
      screen_ok_def Let_def)


lemma fail_result:
  "snd (updateSingleTask_fail r st) =
   (if latest_operation (rq_task r) (rq_scope r) st = Some (rq_id r)
    then mergeTaskPatch (rq_task r) (rq_previous r) st else st)"
  by (simp add: updateSingleTask_fail_def rollbackTaskOperation_def)

lemma begin_found:
  assumes "List.find (\<lambda>t. tk_id t = Some i) (tasks st) = Some t0" and "i \<noteq> 0" and "tk_id t = Some i"
  shows "updateSingleTask_begin t [(f, v)] op st =
    (Some \<lparr> rq_task = i, rq_fields = [f], rq_id = op, rq_previous = pickTaskFields (tk_fields t0) [f] \<rparr>,
     mergeTaskPatch i [f \<mapsto> v] (beginTaskOperation i (operation_scope [f]) op st))"
  using assms by (simp add: updateSingleTask_begin_def updateTask_def Let_def)

lemma find_merge:
  "List.find (\<lambda>t. tk_id t = Some i) (tasks (mergeTaskPatch i p st)) =
   map_option (spread_task p) (List.find (\<lambda>t. tk_id t = Some i) (tasks st))"
proof -
  have "List.find (\<lambda>t. tk_id t = Some i) (map_where (\<lambda>t. tk_id t = Some i) (spread_task p) ts) =
      map_option (spread_task p) (List.find (\<lambda>t. tk_id t = Some i) ts)" for ts
    by (induction ts) (auto simp: spread_task_def)
  then show ?thesis by (simp add: mergeTaskPatch_def)
qed

lemma find_begin [simp]: "tasks (beginTaskOperation i sc op st) = tasks st"
  by (simp add: beginTaskOperation_def)

text \<open>When two overlapping edits of one field both fail, the screen keeps the value of the first
  one, which the server has rejected: the first failure is ignored because a newer edit has begun, and
  the second one goes back to the value that was on the screen when it began.\<close>

lemma two_failures_keep_rejected_value:
  assumes t: "List.find (\<lambda>t. tk_id t = Some i) (tasks st) = Some t0" and i: "i \<noteq> 0"
    and ops: "op1 \<noteq> op2"
    and first: "updateSingleTask_begin t0 [(f, rejected)] op1 st = (Some r1, st1)"
    and second: "updateSingleTask_begin t1 [(f, v)] op2 st1 = (Some r2, st2)" and t1: "tk_id t1 = Some i"
  shows "shows_field i f (Some rejected) (snd (updateSingleTask_fail r2 (snd (updateSingleTask_fail r1 st2))))"
proof -
  have t0: "tk_id t0 = Some i" using t by (auto dest: find_Some_D)
  have st1: "st1 = mergeTaskPatch i [f \<mapsto> rejected] (beginTaskOperation i (operation_scope [f]) op1 st)"
    and r1: "rq_task r1 = i" "rq_scope r1 = operation_scope [f]" "rq_id r1 = op1"
    using first begin_found [OF t i t0] by (auto simp: rq_scope_def)
  have "List.find (\<lambda>t. tk_id t = Some i) (tasks st1) = Some (spread_task [f \<mapsto> rejected] t0)"
    by (simp add: st1 find_merge t)
  from begin_found [OF this i t1, of f v op2] second
  have st2: "st2 = mergeTaskPatch i [f \<mapsto> v] (beginTaskOperation i (operation_scope [f]) op2 st1)"
    and r2: "rq_task r2 = i" "rq_scope r2 = operation_scope [f]" "rq_id r2 = op2"
      "rq_previous r2 = pickTaskFields (tk_fields (spread_task [f \<mapsto> rejected] t0)) [f]"
    by (auto simp: rq_scope_def)
  have "snd (updateSingleTask_fail r1 st2) = st2" using ops by (simp add: fail_result r1 st2 latest_begin)
  moreover have "snd (updateSingleTask_fail r2 st2) = mergeTaskPatch i (rq_previous r2) st2"
    by (simp add: fail_result r2(1-3) st2 latest_begin)
  moreover have "rq_previous r2 f = Some rejected" by (simp add: r2(4) pickTaskFields_def spread_task_def)
  ultimately show ?thesis by (simp add: shows_merge_same)
qed

text \<open>A field that the task did not have before an edit is not in the values to go back to, so a failed
  edit leaves the optimistic value on the screen.\<close>

lemma failed_edit_of_absent_field:
  assumes "List.find (\<lambda>t. tk_id t = Some i) (tasks st) = Some t0" and "i \<noteq> 0" and "tk_fields t0 f = None"
    and b: "updateSingleTask_begin t0 [(f, v)] op st = (Some r, st')"
  shows "shows_field i f (Some v) (snd (updateSingleTask_fail r st'))"
proof -
  have t0: "tk_id t0 = Some i" using assms(1) by (auto dest: find_Some_D)
  have "rq_task r = i" "rq_previous r f = None" "st' = mergeTaskPatch i [f \<mapsto> v] (beginTaskOperation i (operation_scope [f]) op st)"
    using b begin_found [OF assms(1,2) t0] assms(3) by (auto simp: pickTaskFields_def)
  then show ?thesis
    using shows_merge_same [of "[f \<mapsto> v]" f v i]
    by (auto simp: fail_result intro: shows_merge_other)
qed

section \<open>An example\<close>

definition demo_fields :: task_fields where
  "demo_fields = [''summary'' \<mapsto> Some (JStr ''A''), ''priority'' \<mapsto> Some (JStr ''LOW'')]"

definition demo_task :: task where
  "demo_task = \<lparr> tk_id = Some 1, tk_fields = demo_fields \<rparr>"

definition demo_store :: task_store where
  "demo_store = init_task_store\<lparr> tasks := [demo_task], currentTask := Some demo_task \<rparr>"

definition demo_sync :: task_sync where
  "demo_sync = \<lparr> sy_store = demo_store, sy_server = (\<lambda>t. demo_fields), sy_queue = [], sy_replies = [], sy_used = [] \<rparr>"

text \<open>Two edits of the summary; the second reply overtakes the first.\<close>

definition demo_events :: "task_event list" where
  "demo_events =
     [EditTask demo_task [(''summary'', Some (JStr ''B''))] ''a'', EditTask demo_task [(''summary'', Some (JStr ''C''))] ''b'',
      ServerHandles [(''summary'', Some (JStr ''B''))], ServerHandles [(''summary'', Some (JStr ''c''))],
      ReplyArrives 1, ReplyArrives 0]"

lemma demo_in_step: "in_step demo_sync" "nothing_under_way demo_sync"
  by (auto simp: in_step_def nothing_under_way_def demo_sync_def shows_field_def shown_tasks_def demo_store_def
      demo_task_def init_task_store_def)

lemma demo_run:
  obtains s where "guarded_run (task_guard list_view_scopes) task_perform demo_events demo_sync = Some s"
    and "nothing_under_way s" and "sy_server s 1 ''summary'' = Some (Some (JStr ''c''))"
  by (simp add: demo_events_def demo_sync_def demo_store_def demo_task_def init_task_store_def updateSingleTask_begin_def
      Let_def updateTask_def list_view_scopes_def splice_remove_def nothing_under_way_def)


lemma two_failures_keep_rejected_value_witness:
  "\<exists>r1 st1 r2 st2.
     updateSingleTask_begin demo_task [(''summary'', Some (JStr ''B''))] ''a'' demo_store = (Some r1, st1) \<and>
     updateSingleTask_begin demo_task [(''summary'', Some (JStr ''C''))] ''b'' st1 = (Some r2, st2) \<and>
     shows_field 1 ''summary'' (Some (Some (JStr ''B''))) (snd (updateSingleTask_fail r2 (snd (updateSingleTask_fail r1 st2))))"
proof -
  have found: "List.find (\<lambda>t. tk_id t = Some 1) (tasks demo_store) = Some demo_task"
    and id: "tk_id demo_task = Some 1" by (simp_all add: demo_store_def demo_task_def)
  obtain r1 st1 where b1: "updateSingleTask_begin demo_task [(''summary'', Some (JStr ''B''))] ''a'' demo_store = (Some r1, st1)"
    using begin_found [OF found _ id] by simp
  obtain r2 st2 where b2: "updateSingleTask_begin demo_task [(''summary'', Some (JStr ''C''))] ''b'' st1 = (Some r2, st2)"
    by (simp add: updateSingleTask_begin_def id Let_def)
  have "(1::int) \<noteq> 0" "''a'' \<noteq> ''b''" by simp_all
  from two_failures_keep_rejected_value [OF found this b1 b2 id] b1 b2 show ?thesis by blast
qed

end
