(* ===== verification/Typing_Text.thy ===== *)
theory Typing_Text imports Js_Number "HOL-Library.Sublist" begin

text \<open>
  The typing effect of the agent message board: the pace and the text that is visible
  (\<open>src/frontend/src/lib/streamingTextUtils.ts\<close>) and the animation loop that advances it
  (\<open>scheduleLoop\<close> in \<open>src/frontend/src/hooks/useAgentMessageBoardText.ts\<close>).  Times are rational numbers of
  milliseconds; every character is one code point.
\<close>

section \<open>Pace\<close>

definition NORMAL_TYPING_CHARS_PER_MINUTE :: rat where
  "NORMAL_TYPING_CHARS_PER_MINUTE = 200"

definition DEFAULT_MS_PER_CHAR :: int where
  "DEFAULT_MS_PER_CHAR = js_round (60000 / NORMAL_TYPING_CHARS_PER_MINUTE)"

definition BACKLOG_FAST_THRESHOLD :: nat where
  "BACKLOG_FAST_THRESHOLD = 80"

definition BACKLOG_SLOW_THRESHOLD :: nat where
  "BACKLOG_SLOW_THRESHOLD = 24"

definition FAST_MS_PER_CHAR :: int where
  "FAST_MS_PER_CHAR = max 8 (js_round (of_int DEFAULT_MS_PER_CHAR / 6))"

definition MIN_MS_PER_CHAR :: int where
  "MIN_MS_PER_CHAR = 2"

definition BACKLOG_PROPORTIONAL_REF :: nat where
  "BACKLOG_PROPORTIONAL_REF = BACKLOG_FAST_THRESHOLD"

definition SLOW_MS_PER_CHAR :: int where
  "SLOW_MS_PER_CHAR = js_round (of_int DEFAULT_MS_PER_CHAR * (3 / 2))"

definition msPerCharForBacklogDrain :: "nat \<Rightarrow> int" where
  "msPerCharForBacklogDrain backlog =
     (if backlog \<le> BACKLOG_SLOW_THRESHOLD then FAST_MS_PER_CHAR
      else (let proportional =
                  js_round (of_int (FAST_MS_PER_CHAR * int BACKLOG_PROPORTIONAL_REF) / of_nat backlog)
            in max MIN_MS_PER_CHAR proportional))"

definition computeAdaptiveMsPerChar :: "nat \<Rightarrow> bool \<Rightarrow> int" where
  "computeAdaptiveMsPerChar backlog expectMoreContent =
     (if backlog \<le> 0 then DEFAULT_MS_PER_CHAR
      else if expectMoreContent \<and> backlog < BACKLOG_SLOW_THRESHOLD then SLOW_MS_PER_CHAR
      else if backlog < BACKLOG_SLOW_THRESHOLD then FAST_MS_PER_CHAR
      else msPerCharForBacklogDrain backlog)"

section \<open>The visible text\<close>

definition textLength :: "string \<Rightarrow> nat" where
  "textLength text = length text"

definition sliceByCodePoints :: "string \<Rightarrow> int \<Rightarrow> string" where
  "sliceByCodePoints text endIndex = (if endIndex \<le> 0 then [] else take (nat endIndex) text)"

definition getBacklog :: "string \<Rightarrow> string \<Rightarrow> nat" where
  "getBacklog target displayed = textLength target - textLength displayed"

definition charsToRevealForElapsed :: "rat \<Rightarrow> int \<Rightarrow> int" where
  "charsToRevealForElapsed elapsedMs msPerChar =
     (if elapsedMs \<le> 0 \<or> msPerChar \<le> 0 then 0 else floor (elapsedMs / of_int msPerChar))"

definition isDisplayedPrefixOfTarget :: "string \<Rightarrow> string \<Rightarrow> bool" where
  "isDisplayedPrefixOfTarget target displayed \<longleftrightarrow>
     displayed = [] \<or> sliceByCodePoints target (int (textLength displayed)) = displayed"

definition nextRevealChunk :: "string \<Rightarrow> string \<Rightarrow> int \<Rightarrow> string" where
  "nextRevealChunk target displayed n =
     (if n \<le> 0 \<or> target = [] then displayed
      else (let displayedLen = textLength displayed; targetLen = textLength target
            in if displayedLen \<ge> targetLen then displayed
               else (let chunkLen = min (nat n) (targetLen - displayedLen)
                     in take (displayedLen + chunkLen) target)))"

definition advanceTypingDisplay :: "string \<Rightarrow> string \<Rightarrow> rat \<Rightarrow> int \<Rightarrow> string" where
  "advanceTypingDisplay target displayed0 elapsedMs msPerChar =
     (let displayed = (if isDisplayedPrefixOfTarget target displayed0 then displayed0 else []);
          backlog = getBacklog target displayed
      in if backlog \<le> 0 then displayed
         else (let chars = min (int backlog) (charsToRevealForElapsed elapsedMs msPerChar)
               in if chars \<le> 0 then displayed else nextRevealChunk target displayed chars))"

section \<open>Segments\<close>

record text_segment =
  sg_id :: string
  sg_text :: string

record segment_offset =
  so_id :: string
  so_start :: nat
  so_end :: nat

fun flatten_loop :: "text_segment list \<Rightarrow> string \<Rightarrow> segment_offset list \<Rightarrow> string \<times> segment_offset list" where
  "flatten_loop [] target offsets = (target, offsets)"
| "flatten_loop (seg # segs) target offsets =
     (let t1 = (if target \<noteq> [] then target @ [CHR 0x0A] else target);
          start = textLength t1;
          t2 = t1 @ sg_text seg
      in flatten_loop segs t2
           (offsets @ [\<lparr> so_id = sg_id seg, so_start = start, so_end = textLength t2 \<rparr>]))"

definition flattenSegments :: "text_segment list \<Rightarrow> string \<times> segment_offset list" where
  "flattenSegments segs = flatten_loop segs [] []"

definition slice_segment :: "segment_offset list \<Rightarrow> nat \<Rightarrow> text_segment \<Rightarrow> string" where
  "slice_segment offsets displayedLen seg =
     (case List.find (\<lambda>o'. so_id o' = sg_id seg) offsets of
        None \<Rightarrow> []
      | Some off \<Rightarrow>
          if displayedLen \<le> so_start off then []
          else if displayedLen \<ge> so_end off then sg_text seg
          else sliceByCodePoints (sg_text seg) (int (displayedLen - so_start off)))"

text \<open>The record of visible texts, in the order in which the segments are looked at; a repeated id
  overwrites.\<close>

definition sliceSegmentsByDisplayed :: "text_segment list \<Rightarrow> string \<Rightarrow> string \<rightharpoonup> string" where
  "sliceSegmentsByDisplayed segs displayed =
     (let offsets = snd (flattenSegments segs); displayedLen = textLength displayed
      in foldl (\<lambda>result seg. result(sg_id seg \<mapsto> slice_segment offsets displayedLen seg)) (\<lambda>_. None) segs)"

section \<open>The animation loop\<close>

record typing =
  ty_displayed :: string
  ty_carry :: rat
  ty_last :: "rat option"
  ty_running :: bool
  ty_complete :: bool

definition typing_frame :: "string \<Rightarrow> bool \<Rightarrow> bool \<Rightarrow> rat \<Rightarrow> typing \<Rightarrow> typing" where
  "typing_frame target active expectMoreContent timestamp s =
     (if \<not> active then s\<lparr> ty_running := False \<rparr>
      else
       (let elapsed = (case ty_last s of None \<Rightarrow> 0 | Some l \<Rightarrow> timestamp - l);
            carry0 = ty_carry s + elapsed;
            ok = isDisplayedPrefixOfTarget target (ty_displayed s);
            current = (if ok then ty_displayed s else []);
            carry = (if ok then carry0 else 0);
            backlog = getBacklog target current
        in if backlog \<le> 0
           then s\<lparr> ty_displayed := target, ty_carry := carry, ty_last := Some timestamp, ty_running := False,
                  ty_complete := True \<rparr>
           else (let msPerChar = computeAdaptiveMsPerChar backlog expectMoreContent;
                     next = advanceTypingDisplay target current carry msPerChar;
                     charsRevealed = int (textLength next) - int (textLength current)
                 in s\<lparr> ty_displayed := next, ty_last := Some timestamp,
                       ty_carry := max 0 (carry - of_int (charsRevealed * msPerChar)) \<rparr>)))"

text \<open>The frames the browser delivers while the part is active: their times and whether more content is
  expected.  The loop asks for no frame after it has stopped.\<close>

fun typing_frames :: "string \<Rightarrow> (rat \<times> bool) list \<Rightarrow> typing \<Rightarrow> typing" where
  "typing_frames target [] s = s"
| "typing_frames target ((t, expectMore) # fs) s =
     (if ty_running s then typing_frames target fs (typing_frame target True expectMore t s) else s)"

section \<open>Pace: bounds\<close>

lemma pace_values:
  "DEFAULT_MS_PER_CHAR = 300" "FAST_MS_PER_CHAR = 50" "SLOW_MS_PER_CHAR = 450"
proof -
  have r: "js_round (of_int n) = n" for n :: int by simp
  show d: "DEFAULT_MS_PER_CHAR = 300"
    using r [of 300] by (simp add: DEFAULT_MS_PER_CHAR_def NORMAL_TYPING_CHARS_PER_MINUTE_def)
  show "FAST_MS_PER_CHAR = 50" using r [of 50] by (simp add: FAST_MS_PER_CHAR_def d)
  show "SLOW_MS_PER_CHAR = 450" using r [of 450] by (simp add: SLOW_MS_PER_CHAR_def d)
qed

lemma js_round_mono: "x \<le> y \<Longrightarrow> js_round x \<le> js_round y"
  unfolding js_round_def by (rule floor_mono) simp

lemma drain_bounds: "2 \<le> msPerCharForBacklogDrain b" "msPerCharForBacklogDrain b \<le> 160"
proof -
  show "2 \<le> msPerCharForBacklogDrain b"
    by (auto simp: msPerCharForBacklogDrain_def Let_def pace_values MIN_MS_PER_CHAR_def)
  show "msPerCharForBacklogDrain b \<le> 160"
  proof (cases "b \<le> BACKLOG_SLOW_THRESHOLD")
    case False
    then have b: "25 \<le> b" by (simp add: BACKLOG_SLOW_THRESHOLD_def)
    then have "(4000 :: rat) / of_nat b \<le> of_int 160" by (simp add: divide_le_eq)
    then have "js_round (4000 / of_nat b) \<le> js_round (of_int 160)" by (rule js_round_mono)
    then have "js_round (4000 / of_nat b) \<le> 160" by (simp only: js_round_of_int)
    with False show ?thesis
      by (simp add: msPerCharForBacklogDrain_def Let_def pace_values MIN_MS_PER_CHAR_def
          BACKLOG_PROPORTIONAL_REF_def BACKLOG_FAST_THRESHOLD_def)
  qed (simp add: msPerCharForBacklogDrain_def pace_values)
qed

lemma pace_bounds: "2 \<le> computeAdaptiveMsPerChar b e" "computeAdaptiveMsPerChar b e \<le> 450"
  using drain_bounds [of b] by (auto simp: computeAdaptiveMsPerChar_def pace_values)

section \<open>One frame\<close>

lemma displayed_prefix: "isDisplayedPrefixOfTarget target d \<longleftrightarrow> prefix d target"
proof -
  have "take (length d) target = d \<longleftrightarrow> prefix d target"
    by (metis append_eq_conv_conj prefix_def take_is_prefix)
  then show ?thesis by (auto simp: isDisplayedPrefixOfTarget_def sliceByCodePoints_def textLength_def)
qed

definition revealed_count :: "string \<Rightarrow> string \<Rightarrow> rat \<Rightarrow> int \<Rightarrow> nat" where
  "revealed_count target d C m = min (length target - length d) (nat \<lfloor>C / of_int m\<rfloor>)"

lemma advance_prefix:
  assumes "prefix d target" and "0 \<le> C" and "2 \<le> m"
  shows "advanceTypingDisplay target d C m = take (length d + revealed_count target d C m) target"
proof -
  have d: "take (length d) target = d" using assms(1) by (auto simp: prefix_def)
  have fl: "charsToRevealForElapsed C m = \<lfloor>C / of_int m\<rfloor>"
    using assms(2,3) by (cases "C = 0") (auto simp: charsToRevealForElapsed_def)
  have "0 \<le> \<lfloor>C / of_int m\<rfloor>" using assms(2,3) by simp
  then show ?thesis
    using assms(1) d
    by (auto simp: advanceTypingDisplay_def displayed_prefix getBacklog_def textLength_def fl nextRevealChunk_def
        revealed_count_def Let_def min_def nat_le_iff not_le prefix_length_le)
qed

lemma carry_after:
  assumes "0 \<le> C" and "2 \<le> m"
  shows "0 \<le> C - of_int (int (revealed_count target d C m) * m)"
    and "length d + revealed_count target d C m < length target \<Longrightarrow> C - of_int (int (revealed_count target d C m) * m) < of_int m"
proof -
  have m: "(0 :: rat) < of_int m" using assms(2) by simp
  have n: "int (nat \<lfloor>C / of_int m\<rfloor>) = \<lfloor>C / of_int m\<rfloor>" using assms by simp
  have "revealed_count target d C m \<le> nat \<lfloor>C / of_int m\<rfloor>" by (simp add: revealed_count_def)
  then have "int (revealed_count target d C m) \<le> \<lfloor>C / of_int m\<rfloor>" using n by linarith
  then have "of_int (int (revealed_count target d C m)) \<le> C / of_int m" by (simp only: le_floor_iff)
  then show "0 \<le> C - of_int (int (revealed_count target d C m) * m)"
    using m by (simp add: le_divide_eq)
  assume "length d + revealed_count target d C m < length target"
  then have "revealed_count target d C m = nat \<lfloor>C / of_int m\<rfloor>" by (simp add: revealed_count_def min_def split: if_splits)
  then have "C / of_int m < of_int (int (revealed_count target d C m)) + 1" using n by simp linarith
  then show "C - of_int (int (revealed_count target d C m) * m) < of_int m"
    using m by (simp add: divide_less_eq algebra_simps)
qed

definition elapsed_at :: "rat \<Rightarrow> typing \<Rightarrow> rat" where
  "elapsed_at t s = (case ty_last s of None \<Rightarrow> 0 | Some l \<Rightarrow> t - l)"

definition typing_ok :: "string \<Rightarrow> typing \<Rightarrow> bool" where
  "typing_ok target s \<longleftrightarrow> prefix (ty_displayed s) target \<and> 0 \<le> ty_carry s"

lemma frame_end:
  "typing_ok target s \<Longrightarrow> length target \<le> length (ty_displayed s) \<Longrightarrow>
   typing_frame target True e t s =
     s\<lparr> ty_displayed := target, ty_carry := ty_carry s + elapsed_at t s, ty_last := Some t, ty_running := False,
        ty_complete := True \<rparr>"
  by (simp add: typing_frame_def typing_ok_def displayed_prefix getBacklog_def textLength_def Let_def elapsed_at_def)

lemma frame_reveals:
  assumes ok: "typing_ok target s" and more: "length (ty_displayed s) < length target" and "0 \<le> elapsed_at t s"
  obtains n where "typing_frame target True e t s =
      s\<lparr> ty_displayed := take (length (ty_displayed s) + n) target, ty_last := Some t,
         ty_carry := ty_carry (typing_frame target True e t s) \<rparr>"
    and "length (ty_displayed s) + n \<le> length target"
    and "0 \<le> ty_carry (typing_frame target True e t s)"
    and "ty_carry s + elapsed_at t s \<le> ty_carry (typing_frame target True e t s) + 450 * of_nat n"
    and "length (ty_displayed s) + n < length target \<Longrightarrow> ty_carry (typing_frame target True e t s) < 450"
proof -
  let ?d = "ty_displayed s" and ?C = "ty_carry s + elapsed_at t s"
  let ?m = "computeAdaptiveMsPerChar (length target - length ?d) e"
  let ?n = "revealed_count target ?d ?C ?m"
  have p: "prefix ?d target" and C: "0 \<le> ?C" using ok assms(3) by (simp_all add: typing_ok_def)
  note m = pace_bounds [of "length target - length ?d" e]
  have "?n \<le> length target - length ?d" by (simp add: revealed_count_def)
  then have n: "length ?d + ?n \<le> length target" using more by linarith
  have frame: "typing_frame target True e t s =
      s\<lparr> ty_displayed := take (length ?d + ?n) target, ty_last := Some t, ty_carry := ?C - of_int (int ?n * ?m) \<rparr>"
    using p more n carry_after(1) [OF C m(1), of target ?d] advance_prefix [OF p C m(1)]
    by (simp add: typing_frame_def displayed_prefix getBacklog_def textLength_def elapsed_at_def Let_def)
  have "of_int (int ?n * ?m) \<le> (450 * of_nat ?n :: rat)"
    using m(2) by (simp add: mult.commute mult_right_mono)
  moreover have "?C - of_int (int ?n * ?m) < 450" if "length ?d + ?n < length target"
    using carry_after(2) [OF C m(1) that] m(2) by linarith
  ultimately show ?thesis using frame n carry_after(1) [OF C m(1), of target ?d]
    by (intro that [of ?n]) simp_all
qed

section \<open>All frames\<close>

text \<open>The debt of a running loop: the time that has gone by is covered by the carried time and at most
  450 milliseconds per character that has been revealed.\<close>

definition paid :: "string \<Rightarrow> nat \<Rightarrow> rat \<Rightarrow> typing \<Rightarrow> bool" where
  "paid target shown time s \<longleftrightarrow> typing_ok target s \<and> shown \<le> length (ty_displayed s) \<and>
     (if ty_running s
      then time \<le> ty_carry s + 450 * of_nat (length (ty_displayed s) - shown) \<and>
           (length (ty_displayed s) < length target \<longrightarrow> ty_carry s < 450 \<or> time \<le> ty_carry s \<and> ty_carry s = 0)
      else ty_complete s \<and> ty_displayed s = target)"

lemma paid_frame:
  assumes s: "paid target shown time s" and run: "ty_running s" and t: "0 \<le> elapsed_at t s"
  shows "paid target shown (time + elapsed_at t s) (typing_frame target True e t s) \<and>
    (ty_running (typing_frame target True e t s) \<longrightarrow> ty_last (typing_frame target True e t s) = Some t)"
proof (cases "length (ty_displayed s) < length target")
  case True
  have ok: "typing_ok target s" using s by (simp add: paid_def)
  let ?f = "typing_frame target True e t s"
  obtain n where f: "?f = s\<lparr> ty_displayed := take (length (ty_displayed s) + n) target, ty_last := Some t, ty_carry := ty_carry ?f \<rparr>"
    and n: "length (ty_displayed s) + n \<le> length target" and c: "0 \<le> ty_carry ?f"
    and debt: "ty_carry s + elapsed_at t s \<le> ty_carry ?f + 450 * of_nat n"
    and rest: "length (ty_displayed s) + n < length target \<Longrightarrow> ty_carry ?f < 450"
    by (rule frame_reveals [OF ok True t, of e]) blast
  have d: "ty_displayed ?f = take (length (ty_displayed s) + n) target" "ty_running ?f = ty_running s" "ty_last ?f = Some t"
    by (subst f, simp)+
  have sh: "shown \<le> length (ty_displayed s)" and paid: "time \<le> ty_carry s + 450 * of_nat (length (ty_displayed s) - shown)"
    using s run by (simp_all only: paid_def if_True)
  have "length (ty_displayed s) + n - shown = (length (ty_displayed s) - shown) + n" using sh by simp
  then have "time + elapsed_at t s \<le> ty_carry ?f + 450 * of_nat (length (ty_displayed s) + n - shown)"
    using paid debt by simp
  moreover have "length (ty_displayed ?f) = length (ty_displayed s) + n" using n by (simp add: d)
  ultimately show ?thesis
    using c rest sh run by (auto simp: paid_def typing_ok_def d take_is_prefix)
next
  case False
  then have "typing_frame target True e t s =
      s\<lparr> ty_displayed := target, ty_carry := ty_carry s + elapsed_at t s, ty_last := Some t, ty_running := False,
         ty_complete := True \<rparr>"
    using s by (intro frame_end) (simp_all add: paid_def)
  with s t show ?thesis by (auto simp: paid_def typing_ok_def dest: prefix_length_le)
qed

lemma paid_frames:
  "paid target shown time s \<Longrightarrow> (ty_running s \<longrightarrow> ty_last s = Some l) \<Longrightarrow> sorted (l # map fst fs) \<Longrightarrow>
   paid target shown (time + (last (l # map fst fs) - l)) (typing_frames target fs s) \<or>
   ty_complete (typing_frames target fs s) \<and> ty_displayed (typing_frames target fs s) = target"
proof (induction fs arbitrary: s l time)
  case (Cons x fs)
  obtain t e where x: "x = (t, e)" by (cases x)
  show ?case
  proof (cases "ty_running s")
    case True
    with Cons.prems have el: "elapsed_at t s = t - l" "0 \<le> elapsed_at t s" by (simp_all add: elapsed_at_def x)
    note step = paid_frame [OF Cons.prems(1) True el(2), of e]
    have "sorted (t # map fst fs)" using Cons.prems(3) by (simp add: x)
    with Cons.IH [of "time + elapsed_at t s" "typing_frame target True e t s" t] step
    show ?thesis using True by (simp add: x el(1))
  next
    case False
    with Cons.prems show ?thesis by (simp add: x paid_def)
  qed
qed simp

lemma paid_enough:
  assumes paid: "paid target shown time s" and run: "ty_running s"
    and time: "450 * of_nat (length target - shown) \<le> time"
  shows "length target \<le> length (ty_displayed s)"
proof (rule ccontr)
  assume "\<not> length target \<le> length (ty_displayed s)"
  then have less: "length (ty_displayed s) < length target" by simp
  have sh: "shown \<le> length (ty_displayed s)"
    and debt: "time \<le> ty_carry s + 450 * of_nat (length (ty_displayed s) - shown)"
    and rest: "ty_carry s < 450 \<or> time \<le> ty_carry s \<and> ty_carry s = 0"
    using paid run less unfolding paid_def by (simp_all only: if_True simp_thms)
  have "length (ty_displayed s) - shown + 1 \<le> length target - shown" using sh less by linarith
  then have "(of_nat (length (ty_displayed s) - shown + 1) :: rat) \<le> of_nat (length target - shown)"
    by (simp only: of_nat_le_iff)
  then have "(of_nat (length (ty_displayed s) - shown) :: rat) + 1 \<le> of_nat (length target - shown)"
    by (simp only: of_nat_add of_nat_1)
  moreover have "(0 :: rat) \<le> of_nat (length (ty_displayed s) - shown)" by (rule of_nat_0_le_iff)
  ultimately show False using debt rest time by linarith
qed

lemma typing_frames_append: "typing_frames target (xs @ ys) s = typing_frames target ys (typing_frames target xs s)"
proof (induction xs arbitrary: s)
  case (Cons x xs)
  have stop: "typing_frames target zs s = s" if "\<not> ty_running s" for zs s
    using that by (cases zs) auto
  show ?case using Cons stop by (cases x) auto
qed simp

lemma last_frame:
  assumes "paid target shown time s \<or> ty_complete s \<and> ty_displayed s = target"
    and "450 * of_nat (length target - shown) \<le> time"
  shows "ty_displayed (typing_frames target [(t, e)] s) = target \<and> ty_complete (typing_frames target [(t, e)] s)"
proof (cases "ty_running s")
  case True
  from assms(1) show ?thesis
  proof
    assume paid: "paid target shown time s"
    then have "typing_ok target s" by (simp only: paid_def)
    from frame_end [OF this paid_enough [OF paid True assms(2)], of e t] True show ?thesis by simp
  next
    assume "ty_complete s \<and> ty_displayed s = target"
    with True show ?thesis
      by (simp add: typing_frame_def displayed_prefix getBacklog_def textLength_def)
  qed
next
  case False
  with assms(1) show ?thesis by (auto simp: paid_def)
qed

text \<open>C19: The typing effect ends: from any start, whatever the pace the loop chooses from frame to frame
  and however long the frames take, the whole text is shown once 450 milliseconds per missing character
  have gone by between the frames, and with the frame after that the loop stops and marks the part
  complete.\<close>

theorem typing_completes:
  assumes start: "ty_running s" "ty_last s = None" "ty_carry s = 0" "prefix (ty_displayed s) target"
    and sorted: "sorted (t0 # map fst fs @ [t1])"
    and time: "450 * of_nat (length target - length (ty_displayed s)) \<le> last (t0 # map fst fs) - t0"
  shows "ty_displayed (typing_frames target ((t0, e0) # fs @ [(t1, e1)]) s) = target \<and>
    ty_complete (typing_frames target ((t0, e0) # fs @ [(t1, e1)]) s)"
proof -
  let ?shown = "length (ty_displayed s)" and ?frame = "typing_frame target True e0 t0 s"
  have p0: "paid target ?shown 0 s" using start by (simp add: paid_def typing_ok_def)
  have "elapsed_at t0 s = 0" using start by (simp add: elapsed_at_def)
  with paid_frame [OF p0 start(1), of t0 e0]
  have "paid target ?shown 0 ?frame" "ty_running ?frame \<longrightarrow> ty_last ?frame = Some t0" by simp_all
  moreover have "sorted (t0 # map fst fs)" using sorted by (simp add: sorted_append)
  ultimately have "paid target ?shown (0 + (last (t0 # map fst fs) - t0)) (typing_frames target fs ?frame) \<or>
      ty_complete (typing_frames target fs ?frame) \<and> ty_displayed (typing_frames target fs ?frame) = target"
    by (rule paid_frames)
  from last_frame [OF this, of t1 e1] time show ?thesis
    using start(1) by (simp only: add_0 append_Cons typing_frames.simps(2) if_True typing_frames_append)
qed

theorem typing_completes_witness:
  "let s = \<lparr> ty_displayed = ''h'', ty_carry = 0, ty_last = None, ty_running = True, ty_complete = False \<rparr>;
       s' = typing_frames ''hey'' [(0, True), (500, True), (901, False), (910, True)] s
   in ty_displayed s' = ''hey'' \<and> ty_complete s'"
  using typing_completes [of "\<lparr> ty_displayed = ''h'', ty_carry = 0, ty_last = None, ty_running = True, ty_complete = False \<rparr>"
      "''hey''" 0 "[(500, True), (901, False)]" 910 True True]
  by (simp add: Let_def del: typing_frames.simps)

end
