(* ===== verification/Meeting_Url.thy ===== *)
theory Meeting_Url imports Js_Text begin

text \<open>
  The filters of the meetings hub in the address bar
  (\<open>src/frontend/src/lib/meetings/meetingDiscoveryUrl.ts\<close>).  A \<open>URLSearchParams\<close> is the list of its
  name-value pairs; its percent-encoded text and the parsing of that text belong to the browser, which
  gives the pairs back.  Numbers are the integers (\<open>Js_Text\<close>): a fraction or an exponent in an id or a page is
outside the model, and so is the lower case of letters that are not ASCII.
\<close>

section \<open>URLSearchParams\<close>

type_synonym search_params = "(string \<times> string) list"

definition sp_get :: "search_params \<Rightarrow> string \<Rightarrow> string option" where
  "sp_get p k = map_of p k"

definition sp_getAll :: "search_params \<Rightarrow> string \<Rightarrow> string list" where
  "sp_getAll p k = map snd (filter (\<lambda>kv. fst kv = k) p)"

definition sp_has :: "search_params \<Rightarrow> string \<Rightarrow> bool" where
  "sp_has p k \<longleftrightarrow> sp_get p k \<noteq> None"

definition sp_append :: "string \<Rightarrow> string \<Rightarrow> search_params \<Rightarrow> search_params" where
  "sp_append k v p = p @ [(k, v)]"

text \<open>\<open>set\<close> overwrites the first pair of the name and removes the others.\<close>

fun sp_set :: "string \<Rightarrow> string \<Rightarrow> search_params \<Rightarrow> search_params" where
  "sp_set k v [] = [(k, v)]"
| "sp_set k v ((k', v') # p) = (if k' = k then (k, v) # filter (\<lambda>kv. fst kv \<noteq> k) p else (k', v') # sp_set k v p)"

section \<open>The parameters\<close>

definition DEFAULT_MEETING_ORDERING :: string where
  "DEFAULT_MEETING_ORDERING = ''-created_at''"

record meeting_params =
  mp_q :: "string option"
  mp_meeting_type :: "string list option"
  mp_tag :: "string option"
  mp_participant :: "int list option"
  mp_exclude_participant :: "int list option"
  mp_date_from :: "string option"
  mp_date_to :: "string option"
  mp_is_archived :: "bool option"
  mp_has_generated_decisions :: "bool option"
  mp_has_generated_tasks :: "bool option"
  mp_ordering :: "string option"
  mp_page :: "int option"

definition triBoolToSelect :: "bool option \<Rightarrow> string" where
  "triBoolToSelect v = (if v = Some True then ''yes'' else if v = Some False then ''no'' else [])"

definition selectToTriBool :: "string \<Rightarrow> bool option" where
  "selectToTriBool s = (if s = ''yes'' then Some True else if s = ''no'' then Some False else None)"

text \<open>\<open>s || undefined\<close>.\<close>

definition truthy_string :: "string option \<Rightarrow> string option" where
  "truthy_string s = (if s = Some [] then None else s)"

definition truthy_list :: "'a list \<Rightarrow> 'a list option" where
  "truthy_list xs = (if xs = [] then None else Some xs)"

definition lower_ascii :: "char \<Rightarrow> char" where
  "lower_ascii c = (if 65 \<le> code_of c \<and> code_of c \<le> 90 then char_of (code_of c + 32) else c)"

definition parse_tri :: "search_params \<Rightarrow> string \<Rightarrow> bool option" where
  "parse_tri p k =
     (if sp_has p k
      then (let v = map lower_ascii (nullish (sp_get p k) [])
            in if v \<in> {''false'', ''0'', ''no''} then Some False
               else if v \<in> {''true'', ''1'', ''yes''} then Some True else None)
      else None)"

definition parse_ids :: "string list \<Rightarrow> int list" where
  "parse_ids vs = List.map_filter (\<lambda>s. case js_number (js_trim s) of NaN \<Rightarrow> None
                                        | Num n \<Rightarrow> if n \<ge> 1 then Some n else None) vs"

definition parse_page :: "string option \<Rightarrow> int option" where
  "parse_page raw =
     (case raw of
        None \<Rightarrow> None
      | Some s \<Rightarrow>
          if s = [] then None
          else Some (max 1 (case js_number s of NaN \<Rightarrow> 1 | Num n \<Rightarrow> if n = 0 then 1 else n)))"

definition trimmed_param :: "search_params \<Rightarrow> string \<Rightarrow> string option" where
  "trimmed_param p k = truthy_string (map_option js_trim (sp_get p k))"

definition parseMeetingDiscoveryParams :: "search_params \<Rightarrow> meeting_params" where
  "parseMeetingDiscoveryParams p =
     \<lparr> mp_q = trimmed_param p ''q'',
       mp_meeting_type = truthy_list (set_dedup (filter (\<lambda>s. s \<noteq> []) (map js_trim (sp_getAll p ''meeting_type'')))),
       mp_tag = trimmed_param p ''tag'',
       mp_participant = truthy_list (set_dedup (parse_ids (sp_getAll p ''participant''))),
       mp_exclude_participant = truthy_list (set_dedup (parse_ids (sp_getAll p ''exclude_participant''))),
       mp_date_from = trimmed_param p ''date_from'', mp_date_to = trimmed_param p ''date_to'',
       mp_is_archived = parse_tri p ''is_archived'',
       mp_has_generated_decisions = parse_tri p ''has_generated_decisions'',
       mp_has_generated_tasks = parse_tri p ''has_generated_tasks'',
       mp_ordering = trimmed_param p ''ordering'', mp_page = parse_page (sp_get p ''page'') \<rparr>"

section \<open>Patches\<close>

text \<open>A property of a patch is absent (\<open>None\<close>), \<open>undefined\<close> (\<open>Some None\<close>) or has a value.\<close>

record meeting_patch =
  pt_q :: "string option option"
  pt_meeting_type :: "string list option option"
  pt_tag :: "string option option"
  pt_participant :: "int list option option"
  pt_exclude_participant :: "int list option option"
  pt_date_from :: "string option option"
  pt_date_to :: "string option option"
  pt_is_archived :: "bool option option"
  pt_has_generated_decisions :: "bool option option"
  pt_has_generated_tasks :: "bool option option"
  pt_ordering :: "string option option"
  pt_page :: "int option option"

definition mergeMeetingDiscoveryPatch ::
  "meeting_params \<Rightarrow> meeting_patch \<Rightarrow> bool \<Rightarrow> string \<Rightarrow> meeting_params" where
  "mergeMeetingDiscoveryPatch current patch resetPage defaultOrdering =
     (let page0 = nullish (pt_page patch) (mp_page current);
          page1 = (if resetPage \<and> nullish (pt_page patch) None = None then None else page0);
          page2 = (if page1 = Some 1 then None else page1);
          ord = nullish (pt_ordering patch) (mp_ordering current)
      in \<lparr> mp_q = nullish (pt_q patch) (mp_q current),
           mp_meeting_type = nullish (pt_meeting_type patch) (mp_meeting_type current),
           mp_tag = nullish (pt_tag patch) (mp_tag current),
           mp_participant = nullish (pt_participant patch) (mp_participant current),
           mp_exclude_participant = nullish (pt_exclude_participant patch) (mp_exclude_participant current),
           mp_date_from = nullish (pt_date_from patch) (mp_date_from current),
           mp_date_to = nullish (pt_date_to patch) (mp_date_to current),
           mp_is_archived = nullish (pt_is_archived patch) (mp_is_archived current),
           mp_has_generated_decisions = nullish (pt_has_generated_decisions patch) (mp_has_generated_decisions current),
           mp_has_generated_tasks = nullish (pt_has_generated_tasks patch) (mp_has_generated_tasks current),
           mp_ordering = (if truthy_string ord = None \<or> ord = Some defaultOrdering then None else ord),
           mp_page = page2 \<rparr>)"

definition active_string :: "string option \<Rightarrow> bool" where
  "active_string s \<longleftrightarrow> truthy_string s \<noteq> None"

definition active_list :: "'a list option \<Rightarrow> bool" where
  "active_list xs \<longleftrightarrow> (case xs of None \<Rightarrow> False | Some ys \<Rightarrow> ys \<noteq> [])"

definition active_ordering :: "string option \<Rightarrow> bool" where
  "active_ordering s \<longleftrightarrow> active_string s \<and> s \<noteq> Some DEFAULT_MEETING_ORDERING"

definition hasActiveDiscoveryFilters :: "meeting_params \<Rightarrow> bool" where
  "hasActiveDiscoveryFilters m \<longleftrightarrow>
     active_string (mp_q m) \<or> active_list (mp_meeting_type m) \<or> active_string (mp_tag m) \<or>
     active_list (mp_participant m) \<or> active_list (mp_exclude_participant m) \<or>
     active_string (mp_date_from m) \<or> active_string (mp_date_to m) \<or> mp_is_archived m \<noteq> None \<or>
     mp_has_generated_decisions m \<noteq> None \<or> mp_has_generated_tasks m \<noteq> None \<or> active_ordering (mp_ordering m)"

definition activeMeetingDiscoveryFilterCount :: "meeting_params \<Rightarrow> nat" where
  "activeMeetingDiscoveryFilterCount m =
     sum_list (map of_bool
       [active_string (mp_tag m), active_list (mp_participant m), active_list (mp_exclude_participant m),
        active_string (mp_date_from m), active_string (mp_date_to m), mp_is_archived m \<noteq> None,
        mp_has_generated_decisions m \<noteq> None, mp_has_generated_tasks m \<noteq> None, active_ordering (mp_ordering m)])"

section \<open>Printing\<close>

definition set_if :: "string \<Rightarrow> string option \<Rightarrow> search_params \<Rightarrow> search_params" where
  "set_if k v p = (case v of None \<Rightarrow> p | Some s \<Rightarrow> sp_set k s p)"

definition append_each :: "string \<Rightarrow> string list \<Rightarrow> search_params \<Rightarrow> search_params" where
  "append_each k vs p = foldl (\<lambda>p v. sp_append k v p) p vs"

definition trimmed :: "string option \<Rightarrow> string option" where
  "trimmed s = truthy_string (map_option js_trim s)"

definition printed_ids :: "int list option \<Rightarrow> string list" where
  "printed_ids xs = map int_dec (filter (\<lambda>n. n \<ge> 1) (nullish xs []))"

definition printed_bool :: "bool option \<Rightarrow> string option" where
  "printed_bool b = map_option (\<lambda>b. if b then ''true'' else ''false'') b"

definition discoveryParamsToSearchParams :: "meeting_params \<Rightarrow> search_params" where
  "discoveryParamsToSearchParams m =
     (let p1 = set_if ''q'' (trimmed (mp_q m)) [];
          p2 = append_each ''meeting_type'' (filter (\<lambda>s. s \<noteq> []) (map js_trim (nullish (mp_meeting_type m) []))) p1;
          p3 = set_if ''tag'' (trimmed (mp_tag m)) p2;
          p4 = append_each ''participant'' (printed_ids (mp_participant m)) p3;
          p5 = append_each ''exclude_participant'' (printed_ids (mp_exclude_participant m)) p4;
          p6 = set_if ''date_from'' (truthy_string (mp_date_from m)) p5;
          p7 = set_if ''date_to'' (truthy_string (mp_date_to m)) p6;
          p8 = set_if ''is_archived'' (printed_bool (mp_is_archived m)) p7;
          p9 = set_if ''has_generated_decisions'' (printed_bool (mp_has_generated_decisions m)) p8;
          p10 = set_if ''has_generated_tasks'' (printed_bool (mp_has_generated_tasks m)) p9;
          p11 = set_if ''ordering'' (if active_ordering (mp_ordering m) then mp_ordering m else None) p10
      in set_if ''page'' (case mp_page m of None \<Rightarrow> None | Some n \<Rightarrow> if n > 1 then Some (int_dec n) else None) p11)"

section \<open>What is read back\<close>

lemma get_set: "sp_get (sp_set k v p) k' = (if k' = k then Some v else sp_get p k')"
proof -
  have "map_of (filter (\<lambda>kv. fst kv \<noteq> k) q) k' = map_of q k'" if "k' \<noteq> k" for q :: search_params
    using that by (induction q) auto
  then show ?thesis by (induction k v p rule: sp_set.induct) (auto simp: sp_get_def)
qed

lemma getAll_set: "k' \<noteq> k \<Longrightarrow> sp_getAll (sp_set k v p) k' = sp_getAll p k'"
  by (induction k v p rule: sp_set.induct) (auto simp: sp_getAll_def intro!: arg_cong [of _ _ "map snd"] filter_cong)

lemma get_set_if: "sp_get (set_if k v p) k' = (if k' = k \<and> v \<noteq> None then v else sp_get p k')"
  by (cases v) (auto simp: set_if_def get_set)

lemma getAll_set_if: "k' \<noteq> k \<Longrightarrow> sp_getAll (set_if k v p) k' = sp_getAll p k'"
  by (cases v) (auto simp: set_if_def getAll_set)

lemma append_each_eq: "append_each k vs p = p @ map (Pair k) vs"
  by (induction vs arbitrary: p) (auto simp: append_each_def sp_append_def)

lemma get_append_each: "k' \<noteq> k \<Longrightarrow> sp_get (append_each k vs p) k' = sp_get p k'"
proof -
  assume "k' \<noteq> k"
  then have "map_of (map (Pair k) vs) k' = None" by (induction vs) auto
  then show ?thesis by (simp add: append_each_eq sp_get_def map_add_def split: option.split)
qed

lemma getAll_append_each: "sp_getAll (append_each k vs p) k' = sp_getAll p k' @ (if k' = k then vs else [])"
  by (auto simp: append_each_eq sp_getAll_def comp_def)

lemma get_Nil: "sp_get [] k = None" and getAll_Nil: "sp_getAll [] k = []"
  by (simp_all add: sp_get_def sp_getAll_def)

lemmas read_back = get_set_if getAll_set_if get_append_each getAll_append_each get_Nil getAll_Nil

lemma truthy_idem [simp]: "truthy_string (truthy_string s) = truthy_string s"
  by (simp add: truthy_string_def)

lemma trimmed_param_eq: "sp_get p k = s \<Longrightarrow> trimmed_param p k = trimmed s"
  by (simp add: trimmed_param_def trimmed_def)

lemma trimmed_idem [simp]: "trimmed (trimmed s) = trimmed s"
  by (cases s) (auto simp: trimmed_def truthy_string_def)

lemma trimmed_truthy [simp]: "trimmed (truthy_string s) = trimmed s"
  by (cases s) (auto simp: trimmed_def truthy_string_def)

lemma parse_tri_printed: "sp_get p k = printed_bool b \<Longrightarrow> parse_tri p k = b"
  by (cases b) (auto simp: parse_tri_def sp_has_def printed_bool_def lower_ascii_def code_of_def)

lemma parse_ids_Cons:
  "parse_ids (v # vs) = (case js_number (js_trim v) of NaN \<Rightarrow> [] | Num n \<Rightarrow> if n \<ge> 1 then [n] else []) @ parse_ids vs"
  by (simp add: parse_ids_def List.map_filter_simps split: js_num.split)

lemma number_trimmed_dec: "0 \<le> n \<Longrightarrow> js_number (js_trim (int_dec n)) = Num n"
  using number_int_dec [of n] by (simp add: js_number_def)

lemma parse_printed_ids: "parse_ids (printed_ids xs) = filter (\<lambda>n. n \<ge> 1) (nullish xs [])"
proof -
  have "parse_ids (map int_dec ns) = ns" if "\<forall>n \<in> set ns. 1 \<le> n" for ns
    using that by (induction ns) (simp_all add: parse_ids_Cons number_trimmed_dec, simp add: parse_ids_def List.map_filter_simps)
  then show ?thesis by (simp add: printed_ids_def)
qed

lemma int_dec_nonempty: "int_dec n \<noteq> []"
  using nat_dec_digits [of "nat n"] by (auto simp: int_dec_def all_digits_def)

lemma parse_no_page: "parse_page None = None"
  by (simp add: parse_page_def)

lemma parse_printed_page: "1 < n \<Longrightarrow> parse_page (Some (int_dec n)) = Some n"
  by (simp add: parse_page_def number_int_dec int_dec_nonempty)

text \<open>What reading the printed parameters gives.\<close>

definition normal_params :: "meeting_params \<Rightarrow> meeting_params" where
  "normal_params m =
     \<lparr> mp_q = trimmed (mp_q m),
       mp_meeting_type = truthy_list (set_dedup (filter (\<lambda>s. s \<noteq> []) (map js_trim (nullish (mp_meeting_type m) [])))),
       mp_tag = trimmed (mp_tag m),
       mp_participant = truthy_list (set_dedup (filter (\<lambda>n. n \<ge> 1) (nullish (mp_participant m) []))),
       mp_exclude_participant = truthy_list (set_dedup (filter (\<lambda>n. n \<ge> 1) (nullish (mp_exclude_participant m) []))),
       mp_date_from = trimmed (mp_date_from m), mp_date_to = trimmed (mp_date_to m),
       mp_is_archived = mp_is_archived m,
       mp_has_generated_decisions = mp_has_generated_decisions m,
       mp_has_generated_tasks = mp_has_generated_tasks m,
       mp_ordering = (if active_ordering (mp_ordering m) then trimmed (mp_ordering m) else None),
       mp_page = (case mp_page m of None \<Rightarrow> None | Some n \<Rightarrow> if n > 1 then Some n else None) \<rparr>"

lemma read_printed: "parseMeetingDiscoveryParams (discoveryParamsToSearchParams m) = normal_params m"
proof -
  let ?p = "discoveryParamsToSearchParams m"
  note at = discoveryParamsToSearchParams_def Let_def read_back
  have "sp_get ?p ''q'' = trimmed (mp_q m)" "sp_get ?p ''tag'' = trimmed (mp_tag m)"
    "sp_get ?p ''date_from'' = truthy_string (mp_date_from m)" "sp_get ?p ''date_to'' = truthy_string (mp_date_to m)"
    "sp_get ?p ''ordering'' = (if active_ordering (mp_ordering m) then mp_ordering m else None)"
    by (simp_all add: at)
  note texts = this [THEN trimmed_param_eq]
  have "sp_get ?p ''is_archived'' = printed_bool (mp_is_archived m)"
    "sp_get ?p ''has_generated_decisions'' = printed_bool (mp_has_generated_decisions m)"
    "sp_get ?p ''has_generated_tasks'' = printed_bool (mp_has_generated_tasks m)"
    by (simp_all add: at)
  note bools = this [THEN parse_tri_printed]
  have lists: "sp_getAll ?p ''meeting_type'' = filter (\<lambda>s. s \<noteq> []) (map js_trim (nullish (mp_meeting_type m) []))"
    "sp_getAll ?p ''participant'' = printed_ids (mp_participant m)"
    "sp_getAll ?p ''exclude_participant'' = printed_ids (mp_exclude_participant m)"
    by (simp_all add: at)
  have page: "sp_get ?p ''page'' = (case mp_page m of None \<Rightarrow> None | Some n \<Rightarrow> if n > 1 then Some (int_dec n) else None)"
    by (simp add: at)
  have trims: "filter (\<lambda>s. s \<noteq> []) (map js_trim (filter (\<lambda>s. s \<noteq> []) (map js_trim xs))) =
      filter (\<lambda>s. s \<noteq> []) (map js_trim xs)" for xs
    by (induction xs) auto
  have "parse_page (sp_get ?p ''page'') = (case mp_page m of None \<Rightarrow> None | Some n \<Rightarrow> if n > 1 then Some n else None)"
    by (auto simp: page parse_printed_page parse_no_page split: option.split)
  moreover have "trimmed None = None" by (simp add: trimmed_def truthy_string_def)
  ultimately show ?thesis
    unfolding parseMeetingDiscoveryParams_def normal_params_def
    by (simp add: texts bools lists parse_printed_ids trims)
qed

text \<open>Parameters that were read are already in that form, up to a default ordering and a first page.\<close>

lemma trimmed_in_range: "trimmed (trimmed_param p k) = trimmed_param p k"
  by (simp add: trimmed_param_eq [OF refl])

lemma nullish_truthy_list: "nullish (truthy_list xs) [] = xs"
  by (simp add: truthy_list_def nullish_def)

lemma parse_ids_pos: "n \<in> set (parse_ids vs) \<Longrightarrow> 1 \<le> n"
  by (induction vs) (auto simp: parse_ids_Cons split: js_num.splits if_splits, simp add: parse_ids_def List.map_filter_simps)

lemma dedup_ids: "set_dedup (filter (\<lambda>n. n \<ge> 1) (set_dedup (parse_ids vs))) = set_dedup (parse_ids vs)"
proof -
  have "filter (\<lambda>n. n \<ge> 1) (set_dedup (parse_ids vs)) = set_dedup (parse_ids vs)"
    by (rule filter_True) (auto dest: parse_ids_pos)
  then show ?thesis by simp
qed

lemma dedup_types:
  "set_dedup (filter (\<lambda>s. s \<noteq> []) (map js_trim (set_dedup (filter (\<lambda>s. s \<noteq> []) (map js_trim vs))))) =
   set_dedup (filter (\<lambda>s. s \<noteq> []) (map js_trim vs))" (is "set_dedup (filter _ (map _ ?d)) = _")
proof -
  have "map js_trim ?d = ?d" by (rule map_idI) auto
  moreover have "filter (\<lambda>s. s \<noteq> []) ?d = ?d" by (rule filter_True) auto
  ultimately show ?thesis by simp
qed

lemma normal_parsed:
  "normal_params (parseMeetingDiscoveryParams p) =
     (parseMeetingDiscoveryParams p)
       \<lparr> mp_ordering := (if trimmed_param p ''ordering'' = Some DEFAULT_MEETING_ORDERING then None
                          else trimmed_param p ''ordering''),
         mp_page := (if parse_page (sp_get p ''page'') = Some 1 then None else parse_page (sp_get p ''page'')) \<rparr>"
proof -
  have "parse_page v = Some n \<Longrightarrow> 1 \<le> n" for v n
    by (auto simp: parse_page_def split: option.splits if_splits)
  then have page: "(case parse_page v of None \<Rightarrow> None | Some n \<Rightarrow> if n > 1 then Some n else None) =
      (if parse_page v = Some 1 then None else parse_page v)" for v
    by (cases "parse_page v") fastforce+
  have ord: "active_ordering (trimmed_param p k) \<longleftrightarrow>
      trimmed_param p k \<noteq> None \<and> trimmed_param p k \<noteq> Some DEFAULT_MEETING_ORDERING" for k
    by (auto simp: active_ordering_def active_string_def trimmed_param_def)
  show ?thesis
    unfolding normal_params_def parseMeetingDiscoveryParams_def
    by (auto simp: nullish_truthy_list dedup_ids dedup_types page ord trimmed_in_range)
qed

text \<open>The address of the meetings hub keeps the filters: whatever the address bar held, reading it,
printing what was read and reading that again gives the same filters, for every one of the twelve names;
only a first page and the default ordering are left out, which does not change whether the hub shows
filters as active, nor the number on the filter button.\<close>

lemma meeting_url_keeps_filters:
  "let m = parseMeetingDiscoveryParams p;
       n = parseMeetingDiscoveryParams (discoveryParamsToSearchParams m)
   in n = m \<lparr> mp_ordering := (if mp_ordering m = Some DEFAULT_MEETING_ORDERING then None else mp_ordering m),
              mp_page := (if mp_page m = Some 1 then None else mp_page m) \<rparr> \<and>
      hasActiveDiscoveryFilters n = hasActiveDiscoveryFilters m \<and>
      activeMeetingDiscoveryFilterCount n = activeMeetingDiscoveryFilterCount m"
  by (simp add: Let_def read_printed normal_parsed)
     (simp add: parseMeetingDiscoveryParams_def hasActiveDiscoveryFilters_def activeMeetingDiscoveryFilterCount_def
        active_ordering_def active_string_def truthy_string_def)

end
