(* ===== verification/Decision_Links.thy ===== *)
theory Decision_Links imports Js_Object Js_Date begin

text \<open>
  The links of the decision map: the functions of
  \<open>src/frontend/src/components/decisions/decisionGraphLinks.ts\<close> and the handlers of
  \<open>src/frontend/src/components/decisions/hooks/useDecisionGraphLinks.ts\<close>.  The request that stores the
  links of one decision is a parameter.  A handler runs to its end before the next one starts: the editor
  is disabled while a save is under way.
\<close>

section \<open>Nodes and edges\<close>

record graph_node =
  gn_id :: int
  gn_projectSeq :: "int option"
  gn_createdAt :: string
  gn_projectId :: "js_id option"

datatype edge_type = FOLLOW_UP | RELATED

record graph_edge =
  ge_from :: int
  ge_to :: int
  ge_type :: "edge_type option"

type_synonym node_map = "(int, graph_node) jmap"

definition id_to_node :: "graph_node list \<Rightarrow> node_map" where
  "id_to_node ns = fold (\<lambda>n. jmap_set (gn_id n) n) ns []"

text \<open>\<open>!node?.projectSeq\<close>.\<close>

definition numbered :: "graph_node option \<Rightarrow> bool" where
  "numbered n \<longleftrightarrow> (case n of None \<Rightarrow> False | Some x \<Rightarrow> gn_projectSeq x \<noteq> None \<and> gn_projectSeq x \<noteq> Some 0)"

definition normalizeDirectedEdge :: "int \<Rightarrow> int \<Rightarrow> node_map \<Rightarrow> edge_type option \<Rightarrow> graph_edge option" where
  "normalizeDirectedEdge fromId toId idToNode edgeType =
     (if \<not> numbered (jmap_get idToNode fromId) \<or> \<not> numbered (jmap_get idToNode toId) then None
      else if fromId = toId then None
      else Some \<lparr> ge_from = fromId, ge_to = toId, ge_type = Some (nullish edgeType RELATED) \<rparr>)"

definition normalizeUndirectedEdge :: "int \<Rightarrow> int \<Rightarrow> node_map \<Rightarrow> graph_edge option" where
  "normalizeUndirectedEdge fromId toId idToNode = normalizeDirectedEdge fromId toId idToNode (Some RELATED)"

fun edge_type_name :: "edge_type \<Rightarrow> string" where
  "edge_type_name FOLLOW_UP = ''FOLLOW_UP''"
| "edge_type_name RELATED = ''RELATED''"

definition directedEdgeKey :: "graph_edge \<Rightarrow> string" where
  "directedEdgeKey e =
     int_dec (ge_from e) @ ''->'' @ int_dec (ge_to e) @ '':'' @ edge_type_name (nullish (ge_type e) RELATED)"

definition edgeKey :: "graph_edge \<Rightarrow> string" where
  "edgeKey e =
     (if ge_from e < ge_to e then int_dec (ge_from e) @ '','' @ int_dec (ge_to e)
      else int_dec (ge_to e) @ '','' @ int_dec (ge_from e))"

definition joins :: "int \<Rightarrow> int \<Rightarrow> graph_edge \<Rightarrow> bool" where
  "joins fromId toId e \<longleftrightarrow> ge_from e = fromId \<and> ge_to e = toId \<or> ge_from e = toId \<and> ge_to e = fromId"

definition hasEdge :: "graph_edge list \<Rightarrow> int \<Rightarrow> int \<Rightarrow> bool" where
  "hasEdge edges fromId toId = list_ex (joins fromId toId) edges"

section \<open>Linking a project in sequence\<close>

definition chain_cmp :: "graph_node \<Rightarrow> graph_node \<Rightarrow> int" where
  "chain_cmp a b =
     (let aSeq = nullish (gn_projectSeq a) max_safe_integer;
          bSeq = nullish (gn_projectSeq b) max_safe_integer
      in if aSeq \<noteq> bSeq then aSeq - bSeq
         else time_diff (get_time (gn_createdAt a)) (get_time (gn_createdAt b)))"

definition sortNodesForChain :: "graph_node list \<Rightarrow> graph_node list" where
  "sortNodesForChain ns = js_sort chain_cmp ns"

fun chain_loop :: "node_map \<Rightarrow> graph_node list \<Rightarrow> graph_edge list \<Rightarrow> graph_edge list" where
  "chain_loop idToNode (from # to # rest) nextEdges =
     chain_loop idToNode (to # rest)
       (if hasEdge nextEdges (gn_id from) (gn_id to) then nextEdges
        else case normalizeDirectedEdge (gn_id from) (gn_id to) idToNode (Some RELATED) of
               None \<Rightarrow> nextEdges
             | Some e \<Rightarrow> nextEdges @ [e])"
| "chain_loop idToNode _ nextEdges = nextEdges"

definition buildSequentialChainEdges :: "graph_node list \<Rightarrow> graph_edge list \<Rightarrow> graph_edge list" where
  "buildSequentialChainEdges ns existingEdges =
     (if length ns < 2 then existingEdges
      else chain_loop (id_to_node ns) (sortNodesForChain ns) existingEdges)"

section \<open>Storing the changes\<close>

definition add_neighbour :: "int \<Rightarrow> int \<Rightarrow> (int, int list) jmap \<Rightarrow> (int, int list) jmap" where
  "add_neighbour i j byNode =
     (let ids = nullish (jmap_get byNode i) [] in jmap_set i (if j \<in> set ids then ids else ids @ [j]) byNode)"

definition link_edge :: "node_map \<Rightarrow> (int, int list) jmap \<Rightarrow> graph_edge \<Rightarrow> (int, int list) jmap" where
  "link_edge idToNode byNode e =
     (case (jmap_get idToNode (ge_from e), jmap_get idToNode (ge_to e)) of
        (Some fromNode, Some toNode) \<Rightarrow>
          add_neighbour (ge_to e) (gn_id fromNode) (add_neighbour (ge_from e) (gn_id toNode) byNode)
      | _ \<Rightarrow> byNode)"

definition connectedIdsFromEdges :: "graph_edge list \<Rightarrow> node_map \<Rightarrow> (int, int list) jmap" where
  "connectedIdsFromEdges edges idToNode =
     map (\<lambda>(i, ids). (i, js_sort (\<lambda>a b. a - b) ids)) (foldl (link_edge idToNode) [] edges)"

record link_update =
  lu_decision :: int
  lu_connected :: "int list"
  lu_project :: js_id

definition node_update ::
  "(int, int list) jmap \<Rightarrow> (int, int list) jmap \<Rightarrow> graph_node \<Rightarrow> link_update option" where
  "node_update currentByNode initialByNode node =
     (case gn_projectId node of
        None \<Rightarrow> None
      | Some p \<Rightarrow>
          if \<not> id_truthy p then None
          else (let current = nullish (jmap_get currentByNode (gn_id node)) [];
                    initial = nullish (jmap_get initialByNode (gn_id node)) [];
                    setCurrent = set_dedup current; setInitial = set_dedup initial
                in if length setCurrent \<noteq> length setInitial \<or> list_ex (\<lambda>s. s \<notin> set setInitial) current
                   then Some \<lparr> lu_decision = gn_id node, lu_connected = current, lu_project = p \<rparr>
                   else None))"

definition ownerNodeIds :: "graph_edge list \<Rightarrow> graph_edge list \<Rightarrow> int list" where
  "ownerNodeIds nextEdges prevEdges =
     (let currentKeys = map edgeKey nextEdges; initialKeys = map edgeKey prevEdges;
          changedEdges = filter (\<lambda>e. edgeKey e \<notin> set initialKeys) nextEdges @
                         filter (\<lambda>e. edgeKey e \<notin> set currentKeys) prevEdges
      in map (\<lambda>e. if ge_from e \<le> ge_to e then ge_from e else ge_to e) changedEdges)"

definition filteredUpdates :: "graph_node list \<Rightarrow> graph_edge list \<Rightarrow> graph_edge list \<Rightarrow> link_update list" where
  "filteredUpdates ns nextEdges prevEdges =
     (let idToNode = id_to_node ns;
          currentByNode = connectedIdsFromEdges nextEdges idToNode;
          initialByNode = connectedIdsFromEdges prevEdges idToNode;
          updates = List.map_filter (node_update currentByNode initialByNode) ns
      in filter (\<lambda>u. lu_decision u \<in> set (ownerNodeIds nextEdges prevEdges)) updates)"

text \<open>\<open>updateConnectionsById\<close>: a decision, the decisions it is to be linked with, the project of the
  request.\<close>

type_synonym 'w put_links = "int \<Rightarrow> int list \<Rightarrow> js_id \<Rightarrow> 'w \<Rightarrow> (string + unit) \<times> 'w"

fun send_updates :: "'w put_links \<Rightarrow> js_id \<Rightarrow> link_update list \<Rightarrow> 'w \<Rightarrow> (string + unit) \<times> 'w" where
  "send_updates put projectId [] w = (Inr (), w)"
| "send_updates put projectId (u # us) w =
     (case put (lu_decision u) (lu_connected u)
             (if id_truthy (lu_project u) then lu_project u else projectId) w of
        (Inl e, w') \<Rightarrow> (Inl e, w')
      | (Inr _, w') \<Rightarrow> send_updates put projectId us w')"

definition persistGraphLinkChanges ::
  "'w put_links \<Rightarrow> graph_node list \<Rightarrow> graph_edge list \<Rightarrow> graph_edge list \<Rightarrow> js_id \<Rightarrow> 'w \<Rightarrow>
     (string + unit) \<times> 'w" where
  "persistGraphLinkChanges put ns nextEdges prevEdges projectId w =
     send_updates put projectId (filteredUpdates ns nextEdges prevEdges) w"

section \<open>The handlers\<close>

record links_hook =
  lk_project :: "js_id option"
  lk_nodes :: "graph_node list"
  lk_enabled :: bool
  lk_edges :: "graph_edge list"
  lk_saving :: bool

definition lk_active :: "links_hook \<Rightarrow> bool" where
  "lk_active h \<longleftrightarrow> lk_enabled h \<and> (case lk_project h of None \<Rightarrow> False | Some p \<Rightarrow> id_truthy p)"

definition applyEdgeChange ::
  "'w put_links \<Rightarrow> graph_edge list \<Rightarrow> graph_edge list \<Rightarrow> links_hook \<Rightarrow> 'w \<Rightarrow>
     (string + unit) \<times> links_hook \<times> 'w" where
  "applyEdgeChange put nextEdges prevEdges h w =
     (if \<not> lk_active h then (Inr (), h, w)
      else case persistGraphLinkChanges put (lk_nodes h) nextEdges prevEdges (the (lk_project h)) w of
             (Inl e, w') \<Rightarrow> (Inl e, h\<lparr> lk_saving := False \<rparr>, w')
           | (Inr _, w') \<Rightarrow> (Inr (), h\<lparr> lk_edges := nextEdges, lk_saving := False \<rparr>, w'))"

datatype link_toast = CannotLink | LinkAdded | LinkRemoved | LinkError string

definition handleCreateLink ::
  "'w put_links \<Rightarrow> int \<Rightarrow> int \<Rightarrow> links_hook \<Rightarrow> 'w \<Rightarrow> link_toast option \<times> links_hook \<times> 'w" where
  "handleCreateLink put fromId toId h w =
     (if \<not> lk_active h \<or> lk_saving h then (None, h, w)
      else case normalizeDirectedEdge fromId toId (id_to_node (lk_nodes h)) (Some RELATED) of
             None \<Rightarrow> (Some CannotLink, h, w)
           | Some newEdge \<Rightarrow>
               if hasEdge (lk_edges h) (ge_from newEdge) (ge_to newEdge) then (None, h, w)
               else (case applyEdgeChange put (lk_edges h @ [newEdge]) (lk_edges h) h w of
                       (Inl e, h', w') \<Rightarrow> (Some (LinkError e), h', w')
                     | (Inr _, h', w') \<Rightarrow> (Some LinkAdded, h', w')))"

definition handleAutoLinkSequence ::
  "'w put_links \<Rightarrow> links_hook \<Rightarrow> 'w \<Rightarrow> bool \<times> links_hook \<times> 'w" where
  "handleAutoLinkSequence put h w =
     (if \<not> lk_active h \<or> length (lk_nodes h) < 2 then (False, h, w)
      else let nextEdges = buildSequentialChainEdges (lk_nodes h) (lk_edges h)
           in if length nextEdges = length (lk_edges h) then (False, h, w)
              else case applyEdgeChange put nextEdges (lk_edges h) h w of
                     (Inl e, h', w') \<Rightarrow> (False, h', w')
                   | (Inr _, h', w') \<Rightarrow> (True, h', w'))"

definition handleRemoveLink ::
  "'w put_links \<Rightarrow> int \<Rightarrow> int \<Rightarrow> links_hook \<Rightarrow> 'w \<Rightarrow> link_toast option \<times> links_hook \<times> 'w" where
  "handleRemoveLink put fromId toId h w =
     (if \<not> lk_active h then (None, h, w)
      else let nextEdges = filter (\<lambda>e. \<not> joins fromId toId e) (lk_edges h)
           in if length nextEdges = length (lk_edges h) then (None, h, w)
              else case applyEdgeChange put nextEdges (lk_edges h) h w of
                     (Inl e, h', w') \<Rightarrow> (Some (LinkError e), h', w')
                   | (Inr _, h', w') \<Rightarrow> (Some LinkRemoved, h', w'))"

section \<open>Links without direction\<close>

definition pair :: "int \<Rightarrow> int \<Rightarrow> int \<times> int" where
  "pair a b = (min a b, max a b)"

definition edge_pair :: "graph_edge \<Rightarrow> int \<times> int" where
  "edge_pair e = pair (ge_from e) (ge_to e)"

definition links :: "graph_edge list \<Rightarrow> (int \<times> int) set" where
  "links es = edge_pair ` set es"

definition touches :: "int \<Rightarrow> int \<times> int \<Rightarrow> bool" where
  "touches d q \<longleftrightarrow> fst q = d \<or> snd q = d"

definition on_page :: "graph_node list \<Rightarrow> graph_edge list \<Rightarrow> bool" where
  "on_page ns es \<longleftrightarrow> (\<forall>e \<in> set es. ge_from e \<in> gn_id ` set ns \<and> ge_to e \<in> gn_id ` set ns \<and> ge_from e \<noteq> ge_to e)"

lemma pair_eq: "pair a b = pair c d \<longleftrightarrow> a = c \<and> b = d \<or> a = d \<and> b = c"
  by (auto simp: pair_def min_def max_def split: if_splits)

lemma pair_commute: "pair a b = pair b a"
  by (simp add: pair_eq)

lemma touches_pair [simp]: "touches d (pair a b) \<longleftrightarrow> d = a \<or> d = b"
  by (auto simp: touches_def pair_def min_def max_def)

lemma joins_pair: "joins a b e \<longleftrightarrow> edge_pair e = pair a b"
  by (auto simp: joins_def edge_pair_def pair_eq)

lemma pair_ends: "q \<in> links es \<Longrightarrow> q = pair (fst q) (snd q)"
  by (auto simp: links_def edge_pair_def pair_def)

lemma hasEdge_iff: "hasEdge es a b \<longleftrightarrow> pair a b \<in> links es"
  by (force simp: hasEdge_def joins_pair links_def list_ex_iff image_iff)

lemma int_dec_no_comma: "CHR '','' \<notin> set (int_dec n)"
proof -
  have "CHR '','' \<notin> set (nat_dec n)" for n
    using nat_dec_digits [of n] by (auto simp: all_digits_def list_all_iff is_digit_def code_of_def)
  then show ?thesis by (simp add: int_dec_def)
qed

lemma edgeKey_eq: "edgeKey e = edgeKey e' \<longleftrightarrow> edge_pair e = edge_pair e'"
proof -
  have key: "edgeKey x = int_dec (fst (edge_pair x)) @ '','' @ int_dec (snd (edge_pair x))" for x
    by (simp add: edgeKey_def edge_pair_def pair_def min_def max_def)
  show ?thesis
    unfolding key using before_separator [OF int_dec_no_comma int_dec_no_comma]
    by (auto simp: prod_eq_iff)
qed

lemma jmap_get_id_to_node:
  "jmap_get (id_to_node ns) i = List.find (\<lambda>n. gn_id n = i) (rev ns)"
proof -
  have "jmap_get (fold (\<lambda>n. jmap_set (gn_id n) n) ns m) i =
      (case List.find (\<lambda>n. gn_id n = i) (rev ns) of None \<Rightarrow> jmap_get m i | Some n \<Rightarrow> Some n)" for m
    by (induction ns rule: rev_induct) (auto simp: jmap_get_set split: option.splits)
  from this [of "[]"] show ?thesis by (auto simp: id_to_node_def jmap_get_def split: option.splits)
qed

lemma id_to_node_Some: "jmap_get (id_to_node ns) i = Some n \<Longrightarrow> n \<in> set ns \<and> gn_id n = i"
  using find_Some_D [of "\<lambda>n. gn_id n = i" "rev ns" n] by (simp add: jmap_get_id_to_node)

lemma id_to_node_None: "jmap_get (id_to_node ns) i = None \<longleftrightarrow> i \<notin> gn_id ` set ns"
  by (auto simp: jmap_get_id_to_node find_None_iff)

text \<open>The neighbours the requests are built from.\<close>

definition neighbours :: "graph_edge list \<Rightarrow> int \<Rightarrow> int set" where
  "neighbours es i = {j. pair i j \<in> links es}"

lemma neighbours_get:
  "set (nullish (jmap_get (add_neighbour i j m) k) []) =
   (if k = i then insert j (set (nullish (jmap_get m k) [])) else set (nullish (jmap_get m k) []))"
  by (auto simp: add_neighbour_def Let_def jmap_get_set)

lemma connected_loop:
  assumes "on_page ns es"
  shows "set (nullish (jmap_get (foldl (link_edge (id_to_node ns)) m es) k) []) =
    set (nullish (jmap_get m k) []) \<union> neighbours es k"
  using assms
proof (induction es arbitrary: m)
  case (Cons e es)
  obtain f t where ft: "jmap_get (id_to_node ns) (ge_from e) = Some f" "jmap_get (id_to_node ns) (ge_to e) = Some t"
    using Cons.prems id_to_node_None [of ns] by (fastforce simp: on_page_def)
  have "set (nullish (jmap_get (link_edge (id_to_node ns) m e) k) []) =
      set (nullish (jmap_get m k) []) \<union> neighbours [e] k"
    using ft [THEN id_to_node_Some]
    by (auto simp: link_edge_def ft neighbours_get neighbours_def links_def edge_pair_def pair_eq)
  moreover have "neighbours (e # es) k = neighbours [e] k \<union> neighbours es k"
    by (auto simp: neighbours_def links_def)
  moreover have "on_page ns es" using Cons.prems by (simp add: on_page_def)
  ultimately show ?case using Cons.IH by auto
qed (simp add: neighbours_def links_def)

lemma connected_get:
  "jmap_get (connectedIdsFromEdges es m) k = map_option (js_sort (\<lambda>a b. a - b)) (jmap_get (foldl (link_edge m) [] es) k)"
  by (simp add: connectedIdsFromEdges_def jmap_get_def map_of_map comp_def)

lemma connected_ids:
  "on_page ns es \<Longrightarrow> set (nullish (jmap_get (connectedIdsFromEdges es (id_to_node ns)) k) []) = neighbours es k"
  using connected_loop [of ns es "[]" k]
  by (cases "jmap_get (foldl (link_edge (id_to_node ns)) [] es) k") (simp_all add: connected_get md.get_emp)

lemma distinct_connected: "distinct (nullish (jmap_get (connectedIdsFromEdges es m) k) [])"
proof -
  have d: "distinct (nullish (jmap_get (add_neighbour i j m) k) [])" if "\<And>k. distinct (nullish (jmap_get m k) [])"
    for i j k and m :: "(int, int list) jmap"
    using that by (simp add: add_neighbour_def Let_def jmap_get_set)
  have "distinct (nullish (jmap_get (foldl (link_edge m) byNode es) k) [])" if "\<And>k. distinct (nullish (jmap_get byNode k) [])"
    for byNode k
    using that by (induction es arbitrary: byNode) (auto simp: link_edge_def intro!: d split: option.split)
  from this [of "[]" k] show ?thesis
    by (cases "jmap_get (foldl (link_edge m) [] es) k")
       (simp_all add: connected_get md.get_emp js_sort_diff [of id, simplified])
qed

lemma changed_neighbours:
  "length (set_dedup xs) \<noteq> length (set_dedup ys) \<or> list_ex (\<lambda>x. x \<notin> set ys) xs \<longleftrightarrow> set xs \<noteq> set ys"
proof -
  have "length (set_dedup zs) = card (set zs)" for zs :: "'a list"
    using distinct_card [of "set_dedup zs"] by simp
  then show ?thesis by (auto simp: list_ex_iff intro: card_subset_eq [THEN equalityD2, THEN subsetD])
qed

lemma owner_iff:
  "d \<in> set (ownerNodeIds nextEdges prevEdges) \<longleftrightarrow>
   (\<exists>q \<in> (links nextEdges - links prevEdges) \<union> (links prevEdges - links nextEdges). fst q = d)"
proof -
  have own: "(if ge_from e \<le> ge_to e then ge_from e else ge_to e) = fst (edge_pair e)" for e
    by (simp add: edge_pair_def pair_def min_def)
  have keys: "edgeKey e \<in> edgeKey ` set es \<longleftrightarrow> edge_pair e \<in> links es" for e es
    by (auto simp: links_def edgeKey_eq image_iff)
  have "set (ownerNodeIds nextEdges prevEdges) = fst ` edge_pair ` ({e \<in> set nextEdges. edge_pair e \<notin> links prevEdges} \<union>
      {e \<in> set prevEdges. edge_pair e \<notin> links nextEdges})"
    by (auto simp: ownerNodeIds_def Let_def own keys image_comp)
  moreover have "edge_pair ` {e \<in> set es. edge_pair e \<notin> L} = links es - L" for es L
    by (auto simp: links_def)
  then have "edge_pair ` ({e \<in> set nextEdges. edge_pair e \<notin> links prevEdges} \<union>
      {e \<in> set prevEdges. edge_pair e \<notin> links nextEdges}) =
    (links nextEdges - links prevEdges) \<union> (links prevEdges - links nextEdges)"
    by (simp only: image_Un)
  ultimately show ?thesis by (simp only: image_iff) blast
qed

definition in_projects :: "graph_node list \<Rightarrow> bool" where
  "in_projects ns \<longleftrightarrow> (\<forall>n \<in> set ns. case gn_projectId n of None \<Rightarrow> False | Some p \<Rightarrow> id_truthy p)"

lemma filtered_update:
  assumes u: "u \<in> set (filteredUpdates ns nextEdges prevEdges)" and page: "on_page ns nextEdges"
  shows "lu_decision u \<in> gn_id ` set ns" "lu_decision u \<in> set (ownerNodeIds nextEdges prevEdges)"
    "set (lu_connected u) = neighbours nextEdges (lu_decision u)" "distinct (lu_connected u)"
proof -
  obtain n where n: "n \<in> set ns" "lu_decision u = gn_id n"
      "lu_connected u = nullish (jmap_get (connectedIdsFromEdges nextEdges (id_to_node ns)) (gn_id n)) []"
    using u by (auto simp: filteredUpdates_def Let_def List.map_filter_def node_update_def split: option.splits if_splits)
  then show "lu_decision u \<in> gn_id ` set ns" "set (lu_connected u) = neighbours nextEdges (lu_decision u)"
    "distinct (lu_connected u)" using connected_ids [OF page] distinct_connected by simp_all
  show "lu_decision u \<in> set (ownerNodeIds nextEdges prevEdges)"
    using u by (simp add: filteredUpdates_def Let_def)
qed

lemma update_sent:
  assumes "on_page ns nextEdges" and "on_page ns prevEdges" and "in_projects ns" and "d \<in> gn_id ` set ns"
    and "d \<in> set (ownerNodeIds nextEdges prevEdges)" and "neighbours nextEdges d \<noteq> neighbours prevEdges d"
  shows "\<exists>u \<in> set (filteredUpdates ns nextEdges prevEdges). lu_decision u = d"
proof -
  let ?cur = "connectedIdsFromEdges nextEdges (id_to_node ns)" and ?ini = "connectedIdsFromEdges prevEdges (id_to_node ns)"
  obtain n where n: "n \<in> set ns" "gn_id n = d" using assms(4) by auto
  have "set (nullish (jmap_get ?cur d) []) \<noteq> set (nullish (jmap_get ?ini d) [])"
    using assms(6) connected_ids [OF assms(1)] connected_ids [OF assms(2)] by simp
  then obtain u where "node_update ?cur ?ini n = Some u" "lu_decision u = d"
    using assms(3) n changed_neighbours [of "nullish (jmap_get ?cur d) []" "nullish (jmap_get ?ini d) []"]
    by (auto simp: node_update_def in_projects_def Let_def split: option.splits)
  with n assms(5) show ?thesis
    by (force simp: filteredUpdates_def Let_def List.map_filter_def)
qed

lemma pair_neighbours: "pair d ` neighbours es d = {q \<in> links es. touches d q}"
proof -
  have "\<exists>j. q = pair d j" if "touches d q" and "q \<in> links es" for q
    using that pair_ends [of q es] pair_commute by (auto simp: touches_def) metis+
  then show ?thesis by (fastforce simp: neighbours_def)
qed

lemma neighbours_on_page: "on_page ns es \<Longrightarrow> j \<in> neighbours es d \<Longrightarrow> j \<in> gn_id ` set ns \<and> j \<noteq> d"
  by (fastforce simp: neighbours_def links_def edge_pair_def pair_eq on_page_def)

lemma links_on_page: "on_page ns es \<Longrightarrow> pair a b \<in> links es \<Longrightarrow> a \<in> gn_id ` set ns"
  using neighbours_on_page [of ns es a b] by (simp add: neighbours_def pair_commute)

section \<open>What the map relies on\<close>

text \<open>A store of links between the decisions \<open>known\<close>: to put the links of one decision replaces exactly
  the links that touch it.\<close>

locale link_store =
  fixes put :: "'w put_links"
    and related :: "'w \<Rightarrow> (int \<times> int) set"
    and valid :: "'w \<Rightarrow> bool"
    and known :: "'w \<Rightarrow> int set"
  assumes put_law: "valid w \<Longrightarrow> d \<in> known w \<Longrightarrow> set ids \<subseteq> known w \<Longrightarrow> distinct ids \<Longrightarrow> d \<notin> set ids \<Longrightarrow>
    \<exists>w'. put d ids p w = (Inr (), w') \<and> valid w' \<and> known w' = known w \<and>
      related w' = {q \<in> related w. \<not> touches d q} \<union> pair d ` set ids"
begin

lemma updates_work:
  assumes "valid w"
    and "\<And>u. u \<in> set us \<Longrightarrow> lu_decision u \<in> known w \<and> set (lu_connected u) = neighbours es (lu_decision u) \<and>
      set (lu_connected u) \<subseteq> known w \<and> distinct (lu_connected u) \<and> lu_decision u \<notin> set (lu_connected u)"
  shows "\<exists>w'. send_updates put p us w = (Inr (), w') \<and> valid w' \<and> known w' = known w \<and>
    related w' = {q \<in> related w. \<forall>u \<in> set us. \<not> touches (lu_decision u) q} \<union>
                 {q \<in> links es. \<exists>u \<in> set us. touches (lu_decision u) q}"
  using assms
proof (induction us arbitrary: w)
  case (Cons u us)
  have u: "lu_decision u \<in> known w" "set (lu_connected u) \<subseteq> known w" "distinct (lu_connected u)"
      "lu_decision u \<notin> set (lu_connected u)" using Cons.prems(2) [of u] by (blast intro: list.set_intros)+
  obtain w1 where w1: "put (lu_decision u) (lu_connected u) (if id_truthy (lu_project u) then lu_project u else p) w = (Inr (), w1)"
      "valid w1" "known w1 = known w"
      "related w1 = {q \<in> related w. \<not> touches (lu_decision u) q} \<union> pair (lu_decision u) ` set (lu_connected u)"
    using put_law [OF Cons.prems(1) u] by blast
  have new: "pair (lu_decision u) ` set (lu_connected u) = {q \<in> links es. touches (lu_decision u) q}"
    using Cons.prems(2) [of u] pair_neighbours by simp
  obtain w' where w': "send_updates put p us w1 = (Inr (), w')" "valid w'" "known w' = known w"
      "related w' = {q \<in> related w1. \<forall>u \<in> set us. \<not> touches (lu_decision u) q} \<union>
                    {q \<in> links es. \<exists>u \<in> set us. touches (lu_decision u) q}"
    using Cons.IH [OF w1(2)] Cons.prems(2) by (auto simp: w1(3))
  have "related w' = {q \<in> related w. \<forall>v \<in> set (u # us). \<not> touches (lu_decision v) q} \<union>
                     {q \<in> links es. \<exists>v \<in> set (u # us). touches (lu_decision v) q}"
    unfolding w'(4) w1(4) new by auto
  with w1 w' show ?case by simp
qed simp

lemma persist_works:
  assumes "valid w" and "gn_id ` set ns \<subseteq> known w" and "in_projects ns"
    and "on_page ns nextEdges" and "on_page ns prevEdges" and "related w = links prevEdges"
  shows "\<exists>w'. persistGraphLinkChanges put ns nextEdges prevEdges p w = (Inr (), w') \<and> valid w' \<and>
    known w' = known w \<and> related w' = links nextEdges"
proof -
  let ?us = "filteredUpdates ns nextEdges prevEdges"
  have "\<exists>u \<in> set ?us. touches (lu_decision u) q"
    if q: "q \<in> (links nextEdges - links prevEdges) \<union> (links prevEdges - links nextEdges)" for q
  proof -
    have "q = pair (fst q) (snd q)" using q pair_ends by blast
    then obtain a b where ab: "q = pair a b" "a = fst q" by blast
    have "pair a b \<in> links nextEdges \<or> pair a b \<in> links prevEdges" using q ab(1) by blast
    then have "a \<in> gn_id ` set ns" using links_on_page assms(4,5) by blast
    moreover have "a \<in> set (ownerNodeIds nextEdges prevEdges)" unfolding owner_iff ab(2) using q by auto
    moreover have "neighbours nextEdges a \<noteq> neighbours prevEdges a" using q ab(1) by (auto simp: neighbours_def)
    ultimately have "\<exists>u \<in> set ?us. lu_decision u = a" by (rule update_sent [OF assms(4,5,3)])
    then obtain u where "u \<in> set ?us" "lu_decision u = a" by blast
    with ab show ?thesis by (intro bexI [of _ u]) (simp_all add: touches_def)
  qed
  then have "{q \<in> links prevEdges. \<forall>u \<in> set ?us. \<not> touches (lu_decision u) q} \<union>
      {q \<in> links nextEdges. \<exists>u \<in> set ?us. touches (lu_decision u) q} = links nextEdges" by auto
  moreover have "lu_decision u \<in> known w \<and> set (lu_connected u) = neighbours nextEdges (lu_decision u) \<and>
      set (lu_connected u) \<subseteq> known w \<and> distinct (lu_connected u) \<and> lu_decision u \<notin> set (lu_connected u)"
    if "u \<in> set ?us" for u
    using filtered_update [OF that assms(4)] neighbours_on_page [OF assms(4)] assms(2) by auto
  then have "\<exists>w'. send_updates put p ?us w = (Inr (), w') \<and> valid w' \<and> known w' = known w \<and>
      related w' = {q \<in> related w. \<forall>u \<in> set ?us. \<not> touches (lu_decision u) q} \<union>
                   {q \<in> links nextEdges. \<exists>u \<in> set ?us. touches (lu_decision u) q}"
    by (rule updates_work [OF assms(1)])
  ultimately show ?thesis by (simp add: persistGraphLinkChanges_def assms(6))
qed

end

end
