(* ===== verification/Decision_Save.thy ===== *)
theory Decision_Save imports Decision_Links Event_System "HOL-Library.Sublist" begin

text \<open>
  Saving the links of the decision map: the view that stores the links of one decision
  (\<open>DecisionViewSet.connections\<close> of \<open>src/backend/decision/views.py\<close>) and the view that sends the map
  (\<open>decisions_graph\<close> of \<open>src/backend/core/views.py\<close>), together with the map of \<open>Decision_Links\<close>.  The user
  may edit the decision: the permission class, which runs before the view, has let the request pass.
\<close>

section \<open>The database\<close>

record db_decision =
  dd_project :: "int option"
  dd_deleted :: bool

record db_project =
  pj_organization :: int
  pj_deleted :: bool

record link_row =
  lr_from :: int
  lr_to :: int
  lr_type :: edge_type

record decision_db =
  db_decisions :: "int \<rightharpoonup> db_decision"
  db_projects :: "int \<rightharpoonup> db_project"
  db_member_of :: "int list"
  db_superuser :: bool
  db_links :: "link_row list"

definition row_pair :: "link_row \<Rightarrow> int \<times> int" where
  "row_pair r = (lr_from r, lr_to r)"

text \<open>The projects whose decisions the user may link to: those of the organization that are not deleted
  and, unless the user is a superuser, in which the user is an active member.\<close>

definition linkable_project :: "decision_db \<Rightarrow> int \<Rightarrow> int \<Rightarrow> bool" where
  "linkable_project db org p \<longleftrightarrow>
     (case db_projects db p of
        None \<Rightarrow> False
      | Some pj \<Rightarrow> pj_organization pj = org \<and> \<not> pj_deleted pj \<and> (db_superuser db \<or> p \<in> set (db_member_of db)))"

definition link_target :: "decision_db \<Rightarrow> int \<Rightarrow> int \<Rightarrow> bool" where
  "link_target db org t \<longleftrightarrow>
     (case db_decisions db t of
        None \<Rightarrow> False
      | Some x \<Rightarrow> \<not> dd_deleted x \<and> (case dd_project x of None \<Rightarrow> False | Some p \<Rightarrow> linkable_project db org p))"

section \<open>Storing the links of one decision\<close>

definition desired_pairs :: "int \<Rightarrow> int list \<Rightarrow> (int \<times> int) list" where
  "desired_pairs d targets = set_dedup (map (\<lambda>t. if t < d then (t, d) else (d, t)) targets)"

definition incident :: "int \<Rightarrow> link_row \<Rightarrow> bool" where
  "incident d r \<longleftrightarrow> lr_from r = d \<or> lr_to r = d"

definition update_links :: "int \<Rightarrow> (int \<times> int) list \<Rightarrow> link_row list \<Rightarrow> link_row list" where
  "update_links d desired rows =
     (let existing_pairs = map row_pair (filter (\<lambda>r. incident d r \<and> lr_type r = RELATED) rows);
          all_directed_pairs = map row_pair (filter (incident d) rows);
          edges_to_delete = filter (\<lambda>q. q \<notin> set desired) existing_pairs;
          missing = filter (\<lambda>q. q \<notin> set existing_pairs) desired;
          edges_to_upgrade = filter (\<lambda>q. q \<in> set all_directed_pairs) missing;
          edges_to_add = filter (\<lambda>q. q \<notin> set all_directed_pairs) missing;
          kept = filter (\<lambda>r. \<not> (lr_type r = RELATED \<and> row_pair r \<in> set edges_to_delete)) rows;
          upgraded = map_where (\<lambda>r. row_pair r \<in> set edges_to_upgrade) (\<lambda>r. r\<lparr> lr_type := RELATED \<rparr>) kept
      in upgraded @ map (\<lambda>(f, t). \<lparr> lr_from = f, lr_to = t, lr_type = RELATED \<rparr>) edges_to_add)"

text \<open>\<open>PUT /decisions/{d}/connections/\<close> with \<open>connectedDecisionIds\<close>; the project of the request plays no
  part.\<close>

definition put_connections :: "decision_db put_links" where
  "put_connections d ids _ db =
     (case db_decisions db d of
        None \<Rightarrow> (Inl ''Not found.'', db)
      | Some decision \<Rightarrow>
          if dd_deleted decision then (Inl ''Not found.'', db)
          else (case dd_project decision of
                  None \<Rightarrow> (Inl ''Decision must belong to a project.'', db)
                | Some project \<Rightarrow>
                    if list_ex (\<lambda>i. i < 1) ids then (Inl ''Ensure this value is greater than or equal to 1.'', db)
                    else if \<not> distinct ids then (Inl ''Duplicate connectedDecisionIds are not allowed.'', db)
                    else (let requested = filter (\<lambda>t. t \<noteq> d) ids;
                              org = (case db_projects db project of None \<Rightarrow> 0 | Some pj \<Rightarrow> pj_organization pj);
                              targets = filter (link_target db org) requested
                          in if length targets \<noteq> length requested
                             then (Inl ''One or more connectedDecisionIds are invalid or not visible.'', db)
                             else (Inr (), db\<lparr> db_links := update_links d (desired_pairs d targets) (db_links db) \<rparr>))))"

section \<open>Sending the map\<close>

definition decision_in :: "decision_db \<Rightarrow> int list \<Rightarrow> int \<Rightarrow> bool" where
  "decision_in db projects i \<longleftrightarrow>
     (case db_decisions db i of
        None \<Rightarrow> False
      | Some x \<Rightarrow> (case dd_project x of None \<Rightarrow> False | Some p \<Rightarrow> p \<in> set projects))"

definition decisions_graph_edges :: "decision_db \<Rightarrow> int list \<Rightarrow> graph_edge list" where
  "decisions_graph_edges db projects =
     map (\<lambda>r. \<lparr> ge_from = lr_from r, ge_to = lr_to r, ge_type = Some (lr_type r) \<rparr>)
       (filter (\<lambda>r. decision_in db projects (lr_from r) \<and> decision_in db projects (lr_to r)) (db_links db))"

section \<open>What a request does\<close>

definition row_of :: "edge_type \<Rightarrow> int \<times> int \<Rightarrow> link_row" where
  "row_of ty q = \<lparr> lr_from = fst q, lr_to = snd q, lr_type = ty \<rparr>"

lemma row_of_pair: "lr_type r = ty \<Longrightarrow> r = row_of ty (row_pair r)"
  by (cases r) (simp add: row_of_def row_pair_def)

lemma set_desired [simp]: "set (desired_pairs d ids) = pair d ` set ids"
proof -
  have "(\<lambda>t. if t < d then (t, d) else (d, t)) = pair d" by (auto simp: pair_def fun_eq_iff)
  then show ?thesis by (simp add: desired_pairs_def)
qed

lemma row_of_simps [simp]:
  "lr_type (row_of ty q) = ty" "row_pair (row_of ty q) = q" "incident d (row_of ty q) \<longleftrightarrow> touches d q"
  "row_of ty q = row_of ty' q' \<longleftrightarrow> ty = ty' \<and> q = q'" "(row_of ty q)\<lparr> lr_type := ty' \<rparr> = row_of ty' q"
  by (auto simp: row_of_def row_pair_def incident_def touches_def prod_eq_iff)

lemma incident_touches: "incident d r \<longleftrightarrow> touches d (row_pair r)"
  by (simp add: incident_def touches_def row_pair_def)

lemma row_cases: obtains ty q where "r = row_of ty q"
  using row_of_pair by blast

lemma ex_row: "(\<exists>r. P r) \<longleftrightarrow> (\<exists>ty q. P (row_of ty q))"
  using row_of_pair by metis

lemma ex_edge_type: "(\<exists>ty. P ty) \<longleftrightarrow> P FOLLOW_UP \<or> P RELATED"
  by (metis edge_type.exhaust)

lemma unique_row: "distinct (map row_pair rows) \<Longrightarrow> row_of ty q \<in> set rows \<Longrightarrow> row_of ty' q \<in> set rows \<Longrightarrow> ty = ty'"
  by (metis distinct_map inj_onD row_of_simps(2,4))

text \<open>Rows that do not touch the decision stay; of those that touch it a \<open>FOLLOW_UP\<close> outside the list
  stays, and for the list there is one \<open>RELATED\<close> row each, from the smaller id to the larger.\<close>

lemma update_links_rows:
  assumes uniq: "distinct (map row_pair rows)" and at: "\<forall>q \<in> set desired. touches d q"
  shows "set (update_links d desired rows) =
    {r \<in> set rows. \<not> incident d r} \<union> {r \<in> set rows. lr_type r = FOLLOW_UP \<and> row_pair r \<notin> set desired} \<union>
    row_of RELATED ` set desired" (is "?new = ?rows")
proof (rule set_eqI)
  fix r
  obtain ty q where r: "r = row_of ty q" by (rule row_cases)
  let ?has = "\<lambda>ty q. row_of ty q \<in> set rows"
  have image: "q \<in> row_pair ` {r \<in> set rows. P r} \<longleftrightarrow> (\<exists>ty. ?has ty q \<and> P (row_of ty q))" for q P
    by (simp add: image_iff Bex_def ex_row) (cases q, auto)
  have upgraded: "row_of ty q \<in> set (map_where (\<lambda>r. row_pair r \<in> U) (\<lambda>r. r\<lparr> lr_type := RELATED \<rparr>) xs) \<longleftrightarrow>
      (if q \<in> U then ty = RELATED \<and> (\<exists>ty'. row_of ty' q \<in> set xs) else row_of ty q \<in> set xs)" for U xs
    by (simp add: map_where_def image_iff Bex_def ex_row if_distrib cong: if_cong) (cases q, auto)
  have "(\<lambda>(f, t). \<lparr> lr_from = f, lr_to = t, lr_type = RELATED \<rparr>) = row_of RELATED"
    by (simp add: fun_eq_iff row_of_def)
  then have added: "row_of ty q \<in> (\<lambda>(f, t). \<lparr> lr_from = f, lr_to = t, lr_type = RELATED \<rparr>) ` A \<longleftrightarrow>
      ty = RELATED \<and> q \<in> A" for A by auto
  have one: "\<not> (?has FOLLOW_UP q \<and> ?has RELATED q)" using unique_row [OF uniq] by blast
  have "row_of ty q \<in> ?new \<longleftrightarrow>
      (if q \<in> set desired \<and> \<not> ?has RELATED q \<and> ?has FOLLOW_UP q then ty = RELATED
       else ?has ty q \<and> \<not> (ty = RELATED \<and> touches d q \<and> q \<notin> set desired)) \<or>
      (ty = RELATED \<and> q \<in> set desired \<and> \<not> ?has RELATED q \<and> \<not> ?has FOLLOW_UP q)"
    unfolding update_links_def Let_def set_append Un_iff upgraded
    by (simp add: image ex_edge_type added) (cases ty; use at one in auto)
  also have "\<dots> \<longleftrightarrow> row_of ty q \<in> ?rows"
    using one at by (cases ty) (auto simp: r)
  finally show "r \<in> ?new \<longleftrightarrow> r \<in> ?rows" by (simp add: r)
qed

text \<open>A request that is granted: the decision exists in a project, and so does every target, where the
  user may link to it.\<close>

definition linkable_in :: "int \<Rightarrow> decision_db \<Rightarrow> int set" where
  "linkable_in org db = {d. 1 \<le> d \<and> link_target db org d}"

lemma put_granted:
  assumes "d \<in> linkable_in org db" and "set ids \<subseteq> linkable_in org db" and "distinct ids" and "d \<notin> set ids"
  shows "put_connections d ids p db =
    (Inr (), db\<lparr> db_links := update_links d (desired_pairs d ids) (db_links db) \<rparr>)"
proof -
  have d: "link_target db org d" and ids: "\<forall>i \<in> set ids. 1 \<le> i \<and> link_target db org i"
    using assms(1,2) by (auto simp: linkable_in_def)
  obtain x pr pj where x: "db_decisions db d = Some x" "\<not> dd_deleted x" "dd_project x = Some pr"
      "db_projects db pr = Some pj" "pj_organization pj = org"
    using d by (auto simp: link_target_def linkable_project_def split: option.splits)
  have "filter (\<lambda>t. t \<noteq> d) ids = ids" using assms(4) by (auto simp: filter_id_conv)
  moreover have "filter (link_target db org) ids = ids" using ids by (simp add: filter_id_conv)
  moreover have "\<not> list_ex (\<lambda>i. i < 1) ids" using ids by (auto simp: list_ex_iff)
  ultimately show ?thesis using x assms(3) by (simp add: put_connections_def)
qed

lemma distinct_update_links:
  assumes "distinct (map row_pair rows)" and "distinct desired" and "\<forall>q \<in> set desired. touches d q"
  shows "distinct (map row_pair (update_links d desired rows))"
proof -
  have up: "map row_pair (map_where P (\<lambda>r. r\<lparr> lr_type := RELATED \<rparr>) xs) = map row_pair xs" for P xs
    by (rule map_map_where) (simp add: row_pair_def)
  have new: "row_pair r \<notin> set desired" if "r \<in> set rows" and "row_pair r \<notin> row_pair ` {r \<in> set rows. incident d r}" for r
    using that assms(3) by (auto simp: incident_def touches_def row_pair_def)
  have "distinct (map row_pair (filter P rows))" for P
    using assms(1) by (rule distinct_map_filter)
  moreover have "map row_pair (map (\<lambda>(f, t). \<lparr> lr_from = f, lr_to = t, lr_type = RELATED \<rparr>) xs) = xs" for xs
    by (induction xs) (auto simp: row_pair_def)
  ultimately show ?thesis
    using assms(2) new by (auto simp: update_links_def Let_def up comp_def)
qed

section \<open>Plain links\<close>

text \<open>The links the map itself stores: \<open>RELATED\<close>, from the smaller id to the larger.\<close>

definition plain_links :: "decision_db \<Rightarrow> bool" where
  "plain_links db \<longleftrightarrow> distinct (map row_pair (db_links db)) \<and>
     (\<forall>r \<in> set (db_links db). lr_type r = RELATED \<and> lr_from r < lr_to r)"

definition stored_pairs :: "decision_db \<Rightarrow> (int \<times> int) set" where
  "stored_pairs db = row_pair ` set (db_links db)"

lemma linkable_in_links [simp]: "linkable_in org (db\<lparr> db_links := rows \<rparr>) = linkable_in org db"
proof -
  have "linkable_project (db\<lparr> db_links := rows \<rparr>) = linkable_project db"
    by (auto simp: linkable_project_def fun_eq_iff split: option.split)
  then have "link_target (db\<lparr> db_links := rows \<rparr>) = link_target db"
    by (auto simp: link_target_def fun_eq_iff split: option.split)
  then show ?thesis by (simp add: linkable_in_def)
qed

lemma plain_put:
  assumes plain: "plain_links db" and "d \<in> linkable_in org db" and "set ids \<subseteq> linkable_in org db"
    and "distinct ids" and "d \<notin> set ids"
  shows "\<exists>db'. put_connections d ids p db = (Inr (), db') \<and> plain_links db' \<and> linkable_in org db' = linkable_in org db \<and>
    stored_pairs db' = {q \<in> stored_pairs db. \<not> touches d q} \<union> pair d ` set ids"
proof -
  let ?D = "desired_pairs d ids"
  let ?rows = "update_links d ?D (db_links db)"
  have at: "\<forall>q \<in> set ?D. touches d q" and dis: "distinct ?D" by simp (simp add: desired_pairs_def)
  have uniq: "distinct (map row_pair (db_links db))" using plain by (simp add: plain_links_def)
  note rows = update_links_rows [OF uniq at]
  have old: "\<And>r. r \<in> set (db_links db) \<Longrightarrow> lr_type r = RELATED" using plain by (simp add: plain_links_def)
  have set: "set ?rows = {r \<in> set (db_links db). \<not> incident d r} \<union> row_of RELATED ` pair d ` set ids"
    using old unfolding rows set_desired by (auto dest: old)
  have "fst (pair d i) < snd (pair d i)" if "i \<in> set ids" for i
    using that assms(5) by (cases "d = i") (auto simp: pair_def)
  then have "plain_links (db\<lparr> db_links := ?rows \<rparr>)"
    using plain distinct_update_links [OF uniq dis at] by (auto simp: plain_links_def set) (auto simp: row_of_def)
  moreover have "stored_pairs (db\<lparr> db_links := ?rows \<rparr>) = {q \<in> stored_pairs db. \<not> touches d q} \<union> pair d ` set ids"
    by (auto simp: stored_pairs_def set image_Un image_image incident_touches)
  ultimately show ?thesis using put_granted [OF assms(2-5)] by simp
qed

interpretation link_db: link_store put_connections stored_pairs plain_links "linkable_in org" for org
  by unfold_locales (rule plain_put)

section \<open>Editing the map\<close>

datatype link_event = CreateLink int int | RemoveLink int int | AutoLink | Reload "int list"

fun link_perform :: "link_event \<Rightarrow> links_hook \<times> decision_db \<Rightarrow> links_hook \<times> decision_db" where
  "link_perform (CreateLink a b) (h, db) = snd (handleCreateLink put_connections a b h db)"
| "link_perform (RemoveLink a b) (h, db) = snd (handleRemoveLink put_connections a b h db)"
| "link_perform AutoLink (h, db) = snd (handleAutoLinkSequence put_connections h db)"
| "link_perform (Reload projects) (h, db) = (h\<lparr> lk_edges := decisions_graph_edges db projects \<rparr>, db)"

text \<open>A reload asks for the projects of all stored links.\<close>

fun link_guard :: "links_hook \<times> decision_db \<Rightarrow> link_event \<Rightarrow> bool" where
  "link_guard (h, db) (Reload projects) \<longleftrightarrow>
     (\<forall>r \<in> set (db_links db). decision_in db projects (lr_from r) \<and> decision_in db projects (lr_to r))"
| "link_guard s _ \<longleftrightarrow> True"

text \<open>What the edits mean for the set of links.\<close>

definition can_link :: "graph_node list \<Rightarrow> int \<Rightarrow> int \<Rightarrow> bool" where
  "can_link ns a b \<longleftrightarrow> numbered (jmap_get (id_to_node ns) a) \<and> numbered (jmap_get (id_to_node ns) b) \<and> a \<noteq> b"

fun sequence_links :: "graph_node list \<Rightarrow> graph_node list \<Rightarrow> (int \<times> int) set" where
  "sequence_links ns (a # b # rest) =
     (if can_link ns (gn_id a) (gn_id b) then {pair (gn_id a) (gn_id b)} else {}) \<union> sequence_links ns (b # rest)"
| "sequence_links ns _ = {}"

fun link_spec :: "graph_node list \<Rightarrow> link_event \<Rightarrow> (int \<times> int) set \<Rightarrow> (int \<times> int) set" where
  "link_spec ns (CreateLink a b) L = (if can_link ns a b then insert (pair a b) L else L)"
| "link_spec ns (RemoveLink a b) L = L - {pair a b}"
| "link_spec ns AutoLink L = L \<union> sequence_links ns (sortNodesForChain ns)"
| "link_spec ns (Reload projects) L = L"

definition map_ok :: "int \<Rightarrow> links_hook \<times> decision_db \<Rightarrow> bool" where
  "map_ok org s \<longleftrightarrow> (case s of (h, db) \<Rightarrow>
     plain_links db \<and> lk_active h \<and> \<not> lk_saving h \<and> gn_id ` set (lk_nodes h) \<subseteq> linkable_in org db \<and>
     in_projects (lk_nodes h) \<and> on_page (lk_nodes h) (lk_edges h) \<and> links (lk_edges h) = stored_pairs db)"

lemma normalize_eq:
  "normalizeDirectedEdge a b (id_to_node ns) (Some ty) =
   (if can_link ns a b then Some \<lparr> ge_from = a, ge_to = b, ge_type = Some ty \<rparr> else None)"
  by (auto simp: normalizeDirectedEdge_def can_link_def)

lemma can_link_on_page: "can_link ns a b \<Longrightarrow> a \<in> gn_id ` set ns \<and> b \<in> gn_id ` set ns \<and> a \<noteq> b"
  using id_to_node_None [of ns a] id_to_node_None [of ns b] by (auto simp: can_link_def numbered_def)

lemma chain_links:
  "on_page ns es \<Longrightarrow>
   on_page ns (chain_loop (id_to_node ns) xs es) \<and> links (chain_loop (id_to_node ns) xs es) = links es \<union> sequence_links ns xs \<and>
   prefix es (chain_loop (id_to_node ns) xs es)"
proof (induction ns xs arbitrary: es rule: sequence_links.induct)
  case (1 ns a b rest)
  let ?e = "\<lparr> ge_from = gn_id a, ge_to = gn_id b, ge_type = Some RELATED \<rparr>"
  let ?es = "if hasEdge es (gn_id a) (gn_id b) \<or> \<not> can_link ns (gn_id a) (gn_id b) then es else es @ [?e]"
  have "on_page ns ?es" using 1(2) can_link_on_page by (auto simp: on_page_def)
  moreover have "links ?es = links es \<union> (if can_link ns (gn_id a) (gn_id b) then {pair (gn_id a) (gn_id b)} else {})"
    by (auto simp: links_def hasEdge_iff edge_pair_def)
  moreover have "chain_loop (id_to_node ns) (a # b # rest) es = chain_loop (id_to_node ns) (b # rest) ?es"
    by (simp add: normalize_eq)
  moreover have "prefix es ?es" by simp
  ultimately show ?case using 1(1) [of ?es] by (auto intro: prefix_order.trans)
qed simp_all

text \<open>A save that changes the edges from those stored to others.\<close>

lemma apply_works:
  assumes "map_ok org (h, db)" and "on_page (lk_nodes h) nextEdges"
  shows "\<exists>db'. applyEdgeChange put_connections nextEdges (lk_edges h) h db = (Inr (), h\<lparr> lk_edges := nextEdges \<rparr>, db') \<and>
    map_ok org (h\<lparr> lk_edges := nextEdges \<rparr>, db') \<and> stored_pairs db' = links nextEdges"
proof -
  obtain db' where "persistGraphLinkChanges put_connections (lk_nodes h) nextEdges (lk_edges h) (the (lk_project h)) db = (Inr (), db')"
      "plain_links db'" "linkable_in org db' = linkable_in org db" "stored_pairs db' = links nextEdges"
    using link_db.persist_works [of db "lk_nodes h" org nextEdges "lk_edges h"] assms by (force simp: map_ok_def)
  with assms show ?thesis by (simp add: applyEdgeChange_def map_ok_def lk_active_def)
qed

text \<open>One lemma per event: the step keeps the map in order, and the stored links change as specified.\<close>

definition refines :: "int \<Rightarrow> links_hook \<times> decision_db \<Rightarrow> link_event \<Rightarrow> bool" where
  "refines org s e \<longleftrightarrow> map_ok org (link_perform e s) \<and> lk_nodes (fst (link_perform e s)) = lk_nodes (fst s) \<and>
     stored_pairs (snd (link_perform e s)) = link_spec (lk_nodes (fst s)) e (stored_pairs (snd s))"

lemma map_okD:
  assumes "map_ok org (h, db)"
  shows "on_page (lk_nodes h) (lk_edges h)" "links (lk_edges h) = stored_pairs db" "lk_active h" "\<not> lk_saving h"
    "plain_links db" "in_projects (lk_nodes h)" "gn_id ` set (lk_nodes h) \<subseteq> linkable_in org db"
  using assms by (simp_all add: map_ok_def)

lemma saved_refines:
  assumes ok: "map_ok org (h, db)" and page: "on_page (lk_nodes h) es"
    and spec: "links es = link_spec (lk_nodes h) e (stored_pairs db)"
    and run: "\<And>db'. applyEdgeChange put_connections es (lk_edges h) h db = (Inr (), h\<lparr> lk_edges := es \<rparr>, db') \<Longrightarrow>
      link_perform e (h, db) = (h\<lparr> lk_edges := es \<rparr>, db')"
  shows "refines org (h, db) e"
proof -
  obtain db' where db': "applyEdgeChange put_connections es (lk_edges h) h db = (Inr (), h\<lparr> lk_edges := es \<rparr>, db')"
      "map_ok org (h\<lparr> lk_edges := es \<rparr>, db')" "stored_pairs db' = links es"
    using apply_works [OF ok page] by blast
  with run [OF db'(1)] spec show ?thesis by (simp add: refines_def)
qed

lemma unchanged_refines:
  "map_ok org (h, db) \<Longrightarrow> link_perform e (h, db) = (h, db) \<Longrightarrow>
   stored_pairs db = link_spec (lk_nodes h) e (stored_pairs db) \<Longrightarrow> refines org (h, db) e"
  by (simp add: refines_def)

lemma create_run:
  assumes "lk_active h" and "\<not> lk_saving h"
  shows "handleCreateLink put a b h w =
    (if \<not> can_link (lk_nodes h) a b then (Some CannotLink, h, w)
     else if hasEdge (lk_edges h) a b then (None, h, w)
     else case applyEdgeChange put (lk_edges h @ [\<lparr> ge_from = a, ge_to = b, ge_type = Some RELATED \<rparr>]) (lk_edges h) h w of
            (Inl e, h', w') \<Rightarrow> (Some (LinkError e), h', w')
          | (Inr _, h', w') \<Rightarrow> (Some LinkAdded, h', w'))"
  unfolding handleCreateLink_def normalize_eq using assms by simp

lemma create_refines:
  assumes ok: "map_ok org (h, db)"
  shows "refines org (h, db) (CreateLink a b)"
proof (cases "can_link (lk_nodes h) a b \<and> \<not> hasEdge (lk_edges h) a b")
  case True
  let ?es = "lk_edges h @ [\<lparr> ge_from = a, ge_to = b, ge_type = Some RELATED \<rparr>]"
  show ?thesis
  proof (rule saved_refines [OF ok, of ?es])
    show "on_page (lk_nodes h) ?es"
      using map_okD(1) [OF ok] True can_link_on_page [of "lk_nodes h" a b] by (simp add: on_page_def)
    show "links ?es = link_spec (lk_nodes h) (CreateLink a b) (stored_pairs db)"
      using True by (simp add: map_okD(2) [OF ok, symmetric] links_def edge_pair_def)
    show "link_perform (CreateLink a b) (h, db) = (h\<lparr> lk_edges := ?es \<rparr>, db')"
      if "applyEdgeChange put_connections ?es (lk_edges h) h db = (Inr (), h\<lparr> lk_edges := ?es \<rparr>, db')" for db'
      using True by (simp only: link_perform.simps create_run [OF map_okD(3,4) [OF ok]] that if_False) simp
  qed
next
  case False
  show ?thesis
  proof (rule unchanged_refines [OF ok])
    show "link_perform (CreateLink a b) (h, db) = (h, db)"
      using False by (simp add: create_run [OF map_okD(3,4) [OF ok]])
    show "stored_pairs db = link_spec (lk_nodes h) (CreateLink a b) (stored_pairs db)"
      using False by (simp add: hasEdge_iff map_okD(2) [OF ok] insert_absorb)
  qed
qed

lemma remove_refines:
  assumes ok: "map_ok org (h, db)"
  shows "refines org (h, db) (RemoveLink a b)"
proof -
  let ?es = "filter (\<lambda>e. \<not> joins a b e) (lk_edges h)"
  have page: "on_page (lk_nodes h) ?es" using map_okD(1) [OF ok] by (simp add: on_page_def)
  have spec: "links ?es = link_spec (lk_nodes h) (RemoveLink a b) (stored_pairs db)"
    by (auto simp: map_okD(2) [OF ok, symmetric] links_def joins_pair)
  show ?thesis
  proof (cases "length ?es = length (lk_edges h)")
    case True
    then have same: "?es = lk_edges h" by (metis filter_id_conv length_filter_less nat_neq_iff)
    show ?thesis
    proof (rule unchanged_refines [OF ok])
      show "link_perform (RemoveLink a b) (h, db) = (h, db)"
        using True map_okD(3) [OF ok] by (simp add: handleRemoveLink_def Let_def)
      show "stored_pairs db = link_spec (lk_nodes h) (RemoveLink a b) (stored_pairs db)"
        using spec same map_okD(2) [OF ok] by simp
    qed
  next
    case False
    show ?thesis
      by (rule saved_refines [OF ok page spec]) (use False map_okD(3) [OF ok] in \<open>simp add: handleRemoveLink_def Let_def\<close>)
  qed
qed

lemma auto_refines:
  assumes ok: "map_ok org (h, db)"
  shows "refines org (h, db) AutoLink"
proof -
  let ?ns = "lk_nodes h"
  let ?es = "buildSequentialChainEdges ?ns (lk_edges h)"
  have short: "sequence_links ?ns (sortNodesForChain ?ns) = {}" if "length ?ns < 2"
  proof -
    have "length (sortNodesForChain ?ns) < 2" using that by (simp add: sortNodesForChain_def)
    then show ?thesis by (cases "sortNodesForChain ?ns" rule: remdups_adj.cases) simp_all
  qed
  have es: "on_page ?ns ?es" "links ?es = link_spec ?ns AutoLink (stored_pairs db)" "prefix (lk_edges h) ?es"
    using chain_links [OF map_okD(1) [OF ok], of "sortNodesForChain ?ns"] short map_okD(1,2) [OF ok]
    by (auto simp: buildSequentialChainEdges_def)
  show ?thesis
  proof (cases "length ?ns < 2 \<or> length ?es = length (lk_edges h)")
    case True
    then have same: "?es = lk_edges h"
      using es(3) by (auto simp: buildSequentialChainEdges_def prefix_def)
    show ?thesis
    proof (rule unchanged_refines [OF ok])
      show "link_perform AutoLink (h, db) = (h, db)"
        using True map_okD(3) [OF ok] by (auto simp: handleAutoLinkSequence_def Let_def)
      show "stored_pairs db = link_spec ?ns AutoLink (stored_pairs db)"
        using es(2) same map_okD(2) [OF ok] by simp
    qed
  next
    case False
    show ?thesis
      by (rule saved_refines [OF ok es(1,2)]) (use False map_okD(3) [OF ok] in \<open>simp add: handleAutoLinkSequence_def Let_def\<close>)
  qed
qed

lemma stored_on_page:
  assumes "on_page ns es" and "links es = stored_pairs db" and "plain_links db"
    and "r \<in> set (db_links db)"
  shows "lr_from r \<in> gn_id ` set ns" "lr_to r \<in> gn_id ` set ns" "row_pair r = pair (lr_from r) (lr_to r)" "lr_from r \<noteq> lr_to r"
proof -
  show p: "row_pair r = pair (lr_from r) (lr_to r)" "lr_from r \<noteq> lr_to r"
    using assms(3,4) by (auto simp: plain_links_def row_pair_def pair_def)
  have "pair (lr_from r) (lr_to r) \<in> links es" using assms(2,4) p(1) by (force simp: stored_pairs_def)
  then show "lr_from r \<in> gn_id ` set ns" "lr_to r \<in> gn_id ` set ns"
    using links_on_page [OF assms(1)] pair_commute by metis+
qed

lemma reload_refines:
  assumes ok: "map_ok org (h, db)" and guard: "link_guard (h, db) (Reload projects)"
  shows "refines org (h, db) (Reload projects)"
proof -
  let ?es = "decisions_graph_edges db projects"
  have "filter (\<lambda>r. decision_in db projects (lr_from r) \<and> decision_in db projects (lr_to r)) (db_links db) = db_links db"
    using guard by (simp add: filter_id_conv)
  then have es: "?es = map (\<lambda>r. \<lparr> ge_from = lr_from r, ge_to = lr_to r, ge_type = Some (lr_type r) \<rparr>) (db_links db)"
    by (simp add: decisions_graph_edges_def)
  note rows = stored_on_page [OF map_okD(1,2,5) [OF ok]]
  have "on_page (lk_nodes h) ?es" using rows by (auto simp: es on_page_def)
  moreover have "links ?es = stored_pairs db"
    using rows(3) by (auto simp: es links_def stored_pairs_def edge_pair_def image_image intro!: image_eqI)
  ultimately show ?thesis using ok by (simp add: refines_def map_ok_def lk_active_def)
qed

lemma step_refines: "map_ok org s \<Longrightarrow> link_guard s e \<Longrightarrow> refines org s e"
  by (cases s; cases e) (auto intro: create_refines remove_refines auto_refines reload_refines)

interpretation map_edits: event_system link_guard link_perform "map_ok org" for org
  by unfold_locales (use step_refines in \<open>simp add: refines_def\<close>)


section \<open>Links of other kinds\<close>

text \<open>An edit that changes one link sends one request, for the smaller of the two decisions.\<close>

lemma distinct_updates: "distinct (map gn_id ns) \<Longrightarrow> distinct (map lu_decision (filteredUpdates ns nextEdges prevEdges))"
proof -
  have id: "node_update cur ini n = Some u \<Longrightarrow> lu_decision u = gn_id n" for cur ini n u
    by (auto simp: node_update_def Let_def split: option.splits if_splits)
  have "distinct (map lu_decision (List.map_filter (node_update cur ini) ns))" if "distinct (map gn_id ns)" for cur ini
    using that
  proof (induction ns)
    case (Cons n ns)
    then show ?case using id [of cur ini n]
      by (fastforce simp: List.map_filter_simps image_iff map_filter_def split: option.split dest: id)
  qed (simp add: List.map_filter_simps)
  then show "distinct (map gn_id ns) \<Longrightarrow> ?thesis"
    unfolding filteredUpdates_def Let_def by (simp add: distinct_map_filter)
qed

lemma single_update:
  assumes "distinct (map gn_id ns)" and "on_page ns nextEdges" and "on_page ns prevEdges" and "in_projects ns"
    and changed: "(links nextEdges - links prevEdges) \<union> (links prevEdges - links nextEdges) = {pair a b}"
  shows "\<exists>u. filteredUpdates ns nextEdges prevEdges = [u] \<and> lu_decision u = min a b \<and>
    set (lu_connected u) = neighbours nextEdges (min a b) \<and> distinct (lu_connected u)"
proof -
  let ?us = "filteredUpdates ns nextEdges prevEdges"
  have owners: "set (ownerNodeIds nextEdges prevEdges) = {min a b}"
    by (rule set_eqI) (simp add: owner_iff changed pair_def eq_commute)
  have one: "lu_decision u = min a b" if "u \<in> set ?us" for u
    using filtered_update(2) [OF that assms(2)] owners by simp
  have p: "pair a b = pair (min a b) (max a b)" by (simp add: pair_def)
  have "pair a b \<in> links nextEdges \<or> pair a b \<in> links prevEdges" using changed by blast
  then have node: "min a b \<in> gn_id ` set ns" using links_on_page assms(2,3) p by metis
  have "max a b \<in> neighbours nextEdges (min a b) \<longleftrightarrow> max a b \<notin> neighbours prevEdges (min a b)"
    using changed unfolding neighbours_def mem_Collect_eq p [symmetric] by blast
  then have "neighbours nextEdges (min a b) \<noteq> neighbours prevEdges (min a b)" by blast
  then obtain u where u: "u \<in> set ?us" using update_sent [OF assms(2,3,4) node] owners by blast
  have "length ?us \<le> 1"
  proof -
    have "set (map lu_decision ?us) \<subseteq> {min a b}" using one by auto
    then have "card (set (map lu_decision ?us)) \<le> 1" using card_mono [of "{min a b}"] by fastforce
    then show ?thesis using distinct_card [OF distinct_updates [OF assms(1)]] by simp
  qed
  with u have "?us = [u]" by (cases ?us) auto
  with one u filtered_update(3,4) [OF u assms(2)] show ?thesis by auto
qed

definition map_can_save :: "int \<Rightarrow> links_hook \<Rightarrow> decision_db \<Rightarrow> bool" where
  "map_can_save org h db \<longleftrightarrow> distinct (map row_pair (db_links db)) \<and> lk_active h \<and> \<not> lk_saving h \<and>
     distinct (map gn_id (lk_nodes h)) \<and> in_projects (lk_nodes h) \<and> on_page (lk_nodes h) (lk_edges h) \<and>
     gn_id ` set (lk_nodes h) \<subseteq> linkable_in org db"

lemma single_change_saved:
  assumes ok: "map_can_save org h db" and page: "on_page (lk_nodes h) es"
    and changed: "(links es - links (lk_edges h)) \<union> (links (lk_edges h) - links es) = {pair a b}"
  shows "\<exists>db'. applyEdgeChange put_connections es (lk_edges h) h db = (Inr (), h\<lparr> lk_edges := es \<rparr>, db') \<and>
    set (db_links db') = {r \<in> set (db_links db). \<not> incident (min a b) r} \<union>
      {r \<in> set (db_links db). lr_type r = FOLLOW_UP \<and> row_pair r \<notin> pair (min a b) ` neighbours es (min a b)} \<union>
      row_of RELATED ` pair (min a b) ` neighbours es (min a b)"
proof -
  let ?d = "min a b"
  have h: "distinct (map row_pair (db_links db))" "lk_active h" "\<not> lk_saving h" "gn_id ` set (lk_nodes h) \<subseteq> linkable_in org db"
    using ok by (simp_all add: map_can_save_def)
  obtain u where u: "filteredUpdates (lk_nodes h) es (lk_edges h) = [u]" "lu_decision u = ?d"
      "set (lu_connected u) = neighbours es ?d" "distinct (lu_connected u)"
    using single_update [OF _ page _ _ changed] ok by (auto simp: map_can_save_def)
  have "?d \<in> linkable_in org db"
    using filtered_update(1) [of u "lk_nodes h" es "lk_edges h"] u(1,2) page h(4) by auto
  moreover have "neighbours es ?d \<subseteq> linkable_in org db" "?d \<notin> neighbours es ?d"
    using neighbours_on_page [OF page] h(4) by blast+
  ultimately have "put_connections ?d (lu_connected u) p db =
      (Inr (), db\<lparr> db_links := update_links ?d (desired_pairs ?d (lu_connected u)) (db_links db) \<rparr>)" for p
    using put_granted u(3,4) by simp
  then have "applyEdgeChange put_connections es (lk_edges h) h db =
      (Inr (), h\<lparr> lk_edges := es \<rparr>, db\<lparr> db_links := update_links ?d (desired_pairs ?d (lu_connected u)) (db_links db) \<rparr>)"
    using h(2,3) by (simp add: applyEdgeChange_def persistGraphLinkChanges_def u(1,2))
  moreover have "\<forall>q \<in> set (desired_pairs ?d (lu_connected u)). touches ?d q" by simp
  ultimately show ?thesis
    using update_links_rows [OF h(1), of "desired_pairs ?d (lu_connected u)" ?d] by (simp add: u(3))
qed

text \<open>A new link also rewrites the other links of the smaller of its two decisions: each link that
  the map shows for that decision is stored as \<open>RELATED\<close> afterwards, also if it was a \<open>FOLLOW_UP\<close>, and
  each of its \<open>RELATED\<close> links that the map does not show, such as a link to another project, is deleted.
  The new link itself is stored from the smaller to the larger id, whichever way the user drew it.\<close>

lemma new_link_rewrites_other_links:
  assumes ok: "map_can_save org h db" and "can_link (lk_nodes h) a b" and "\<not> hasEdge (lk_edges h) a b"
  shows "\<exists>h' db'. handleCreateLink put_connections a b h db = (Some LinkAdded, h', db') \<and>
    row_of RELATED (min a b, max a b) \<in> set (db_links db') \<and>
    (\<forall>x. hasEdge (lk_edges h) (min a b) x \<longrightarrow>
       row_of RELATED (pair (min a b) x) \<in> set (db_links db') \<and>
       row_of FOLLOW_UP (pair (min a b) x) \<notin> set (db_links db')) \<and>
    (\<forall>x. x \<noteq> max a b \<longrightarrow> \<not> hasEdge (lk_edges h) (min a b) x \<longrightarrow>
       row_of RELATED (pair (min a b) x) \<notin> set (db_links db'))"
proof -
  let ?es = "lk_edges h @ [\<lparr> ge_from = a, ge_to = b, ge_type = Some RELATED \<rparr>]" and ?d = "min a b"
  have h: "lk_active h" "\<not> lk_saving h" "on_page (lk_nodes h) (lk_edges h)" using ok by (simp_all add: map_can_save_def)
  have page: "on_page (lk_nodes h) ?es"
    using h(3) assms(2) can_link_on_page [of "lk_nodes h" a b] by (simp add: on_page_def)
  have ab: "pair a b = pair ?d (max a b)" "pair ?d (max a b) = (?d, max a b)" by (simp_all add: pair_def)
  have links: "links ?es = insert (pair a b) (links (lk_edges h))" by (simp add: links_def edge_pair_def)
  then have changed: "(links ?es - links (lk_edges h)) \<union> (links (lk_edges h) - links ?es) = {pair a b}"
    using assms(3) by (auto simp: hasEdge_iff)
  obtain db' where db': "applyEdgeChange put_connections ?es (lk_edges h) h db = (Inr (), h\<lparr> lk_edges := ?es \<rparr>, db')"
      "set (db_links db') = {r \<in> set (db_links db). \<not> incident ?d r} \<union>
        {r \<in> set (db_links db). lr_type r = FOLLOW_UP \<and> row_pair r \<notin> pair ?d ` neighbours ?es ?d} \<union>
        row_of RELATED ` pair ?d ` neighbours ?es ?d"
    using single_change_saved [OF ok page changed] by blast
  have "handleCreateLink put_connections a b h db = (Some LinkAdded, h\<lparr> lk_edges := ?es \<rparr>, db')"
    using assms(2,3) by (simp add: create_run [OF h(1,2)] db'(1))
  moreover
  have near: "x \<in> neighbours ?es ?d \<longleftrightarrow> x = max a b \<or> hasEdge (lk_edges h) ?d x" for x
    unfolding neighbours_def links by (auto simp: hasEdge_iff ab(1) pair_eq)
  moreover have "row_of ty (pair ?d x) \<in> set (db_links db') \<longleftrightarrow>
      (if x = max a b \<or> hasEdge (lk_edges h) ?d x then ty = RELATED
       else ty = FOLLOW_UP \<and> row_of ty (pair ?d x) \<in> set (db_links db))" for ty x
  proof -
    have "pair ?d x \<in> pair ?d ` neighbours ?es ?d \<longleftrightarrow> x \<in> neighbours ?es ?d"
      by (simp add: image_iff pair_eq) metis
    then show ?thesis unfolding db'(2) near [symmetric] by (cases ty) auto
  qed
  ultimately show ?thesis unfolding ab(2) [symmetric] by simp
qed

text \<open>Removing a \<open>FOLLOW_UP\<close> link on the map does not remove it: the map says \<open>Link removed\<close> and no
  longer shows it, but the row stays in the database and the link is back when the map is loaded
  again.\<close>

lemma removed_follow_up_link_stays:
  assumes ok: "map_can_save org h db" and "hasEdge (lk_edges h) a b"
    and "row_of FOLLOW_UP (a, b) \<in> set (db_links db)"
  shows "\<exists>h' db'. handleRemoveLink put_connections a b h db = (Some LinkRemoved, h', db') \<and>
    \<not> hasEdge (lk_edges h') a b \<and> row_of FOLLOW_UP (a, b) \<in> set (db_links db')"
proof -
  let ?es = "filter (\<lambda>e. \<not> joins a b e) (lk_edges h)" and ?d = "min a b"
  have h: "lk_active h" "on_page (lk_nodes h) (lk_edges h)" using ok by (simp_all add: map_can_save_def)
  have page: "on_page (lk_nodes h) ?es" using h(2) by (simp add: on_page_def)
  have links: "links ?es = links (lk_edges h) - {pair a b}" by (auto simp: links_def joins_pair)
  have "pair a b \<in> links (lk_edges h)" using assms(2) by (simp add: hasEdge_iff)
  then have changed: "(links ?es - links (lk_edges h)) \<union> (links (lk_edges h) - links ?es) = {pair a b}"
    unfolding links by blast
  obtain db' where db': "applyEdgeChange put_connections ?es (lk_edges h) h db = (Inr (), h\<lparr> lk_edges := ?es \<rparr>, db')"
      "set (db_links db') = {r \<in> set (db_links db). \<not> incident ?d r} \<union>
        {r \<in> set (db_links db). lr_type r = FOLLOW_UP \<and> row_pair r \<notin> pair ?d ` neighbours ?es ?d} \<union>
        row_of RELATED ` pair ?d ` neighbours ?es ?d"
    using single_change_saved [OF ok page changed] by blast
  have "length ?es < length (lk_edges h)"
    using assms(2) by (auto simp: hasEdge_def list_ex_iff intro: length_filter_less)
  then have "handleRemoveLink put_connections a b h db = (Some LinkRemoved, h\<lparr> lk_edges := ?es \<rparr>, db')"
    using h(1) by (simp add: handleRemoveLink_def Let_def db'(1))
  moreover have "\<not> hasEdge ?es a b" by (simp add: hasEdge_iff links)
  moreover have "(a, b) \<notin> pair ?d ` neighbours ?es ?d"
  proof
    assume "(a, b) \<in> pair ?d ` neighbours ?es ?d"
    then have "(a, b) \<in> links ?es" by (auto simp: neighbours_def)
    moreover from this have "(a, b) = pair a b" using pair_ends by fastforce
    ultimately show False by (simp add: links)
  qed
  ultimately show ?thesis using assms(3) by (simp add: db'(2))
qed

section \<open>Examples\<close>

definition demo_node :: "int \<Rightarrow> graph_node" where
  "demo_node i = \<lparr> gn_id = i, gn_projectSeq = Some i, gn_createdAt = ''2026-01-05T00:00:00Z'', gn_projectId = Some (NumId 7) \<rparr>"

definition demo_db :: "link_row list \<Rightarrow> decision_db" where
  "demo_db rows =
     \<lparr> db_decisions = (\<lambda>i. if i \<in> {1, 2, 3} then Some \<lparr> dd_project = Some 7, dd_deleted = False \<rparr>
                         else if i = 9 then Some \<lparr> dd_project = Some 8, dd_deleted = False \<rparr> else None),
       db_projects = (\<lambda>p. if p \<in> {7, 8} then Some \<lparr> pj_organization = 5, pj_deleted = False \<rparr> else None),
       db_member_of = [7, 8], db_superuser = False, db_links = rows \<rparr>"

definition demo_map :: "graph_edge list \<Rightarrow> links_hook" where
  "demo_map es = \<lparr> lk_project = Some (NumId 7), lk_nodes = map demo_node [1, 2, 3], lk_enabled = True,
     lk_edges = es, lk_saving = False \<rparr>"

lemma demo_linkable: "gn_id ` set (lk_nodes (demo_map es)) \<subseteq> linkable_in 5 (demo_db rows)"
  by (auto simp: demo_map_def demo_node_def linkable_in_def link_target_def linkable_project_def demo_db_def)

lemma demo_simps [simp]:
  "lk_nodes (demo_map es) = map demo_node [1, 2, 3]" "lk_edges (demo_map es) = es" "db_links (demo_db rows) = rows"
  "lk_active (demo_map es)" "\<not> lk_saving (demo_map es)" "in_projects [demo_node 1, demo_node 2, demo_node 3]"
  by (simp_all add: demo_map_def demo_db_def lk_active_def in_projects_def demo_node_def)

lemma demo_can_link: "can_link (map demo_node [1, 2, 3]) a b \<longleftrightarrow> a \<in> {1, 2, 3} \<and> b \<in> {1, 2, 3} \<and> a \<noteq> b"
  by (auto simp: can_link_def numbered_def id_to_node_def demo_node_def jmap_get_def)


lemma new_link_rewrites_other_links_witness:
  "\<exists>h' db'. handleCreateLink put_connections 3 1 (demo_map [\<lparr> ge_from = 1, ge_to = 2, ge_type = Some FOLLOW_UP \<rparr>])
      (demo_db [row_of FOLLOW_UP (1, 2), row_of RELATED (1, 9)]) = (Some LinkAdded, h', db') \<and>
    row_of RELATED (1, 3) \<in> set (db_links db') \<and> row_of FOLLOW_UP (1, 2) \<notin> set (db_links db') \<and>
    row_of RELATED (1, 9) \<notin> set (db_links db')"
proof -
  let ?h = "demo_map [\<lparr> ge_from = 1, ge_to = 2, ge_type = Some FOLLOW_UP \<rparr>]"
    and ?db = "demo_db [row_of FOLLOW_UP (1, 2), row_of RELATED (1, 9)]"
  have "map_can_save 5 ?h ?db"
    using demo_linkable [of "lk_edges ?h"] by (simp add: map_can_save_def on_page_def row_of_def row_pair_def)
      (simp add: demo_node_def)
  moreover have "can_link (lk_nodes ?h) 3 1" using demo_can_link by simp
  moreover have "\<not> hasEdge (lk_edges ?h) 3 1" by (simp add: hasEdge_def joins_def)
  ultimately obtain h' db' where
    "handleCreateLink put_connections 3 1 ?h ?db = (Some LinkAdded, h', db')"
    "row_of RELATED (min 3 1, max 3 1) \<in> set (db_links db')"
    "hasEdge (lk_edges ?h) (min 3 1) 2 \<longrightarrow> row_of FOLLOW_UP (pair (min 3 1) 2) \<notin> set (db_links db')"
    "\<not> hasEdge (lk_edges ?h) (min 3 1) 9 \<longrightarrow> row_of RELATED (pair (min 3 1) 9) \<notin> set (db_links db')"
    using new_link_rewrites_other_links [of 5 ?h ?db 3 1] by force
  then show ?thesis by (simp add: hasEdge_def joins_def pair_def)
qed

lemma removed_follow_up_link_stays_witness:
  "\<exists>h' db'. handleRemoveLink put_connections 2 1 (demo_map [\<lparr> ge_from = 2, ge_to = 1, ge_type = Some FOLLOW_UP \<rparr>])
      (demo_db [row_of FOLLOW_UP (2, 1)]) = (Some LinkRemoved, h', db') \<and>
    \<not> hasEdge (lk_edges h') 2 1 \<and> row_of FOLLOW_UP (2, 1) \<in> set (db_links db')"
proof (rule removed_follow_up_link_stays)
  let ?h = "demo_map [\<lparr> ge_from = 2, ge_to = 1, ge_type = Some FOLLOW_UP \<rparr>]"
  show "map_can_save 5 ?h (demo_db [row_of FOLLOW_UP (2, 1)])"
    using demo_linkable [of "lk_edges ?h"] by (simp add: map_can_save_def on_page_def row_of_def row_pair_def)
      (simp add: demo_node_def)
qed (simp_all add: hasEdge_def joins_def)

end
