(* ===== verification/Decision_Graph.thy ===== *)
theory Decision_Graph imports Js_Object begin

text \<open>
  Which cards of the decision map belong together
  (\<open>src/frontend/src/components/decisions/decisionGraphViewport.ts\<close>).  Of a node of the flow chart only
  the id matters here, of an edge its two ends.  A \<open>Set\<close> is the list of its elements in insertion order;
  a stack is a list with its top first.
\<close>

section \<open>Connected components\<close>

record flow_edge =
  edge_source :: string
  edge_target :: string

definition FIT_ALL_MAX_NODES :: nat where
  "FIT_ALL_MAX_NODES = 20"

definition FIT_LARGEST_MAX_NODES :: nat where
  "FIT_LARGEST_MAX_NODES = 60"

definition ROOT_SUBTREE_MAX_DEPTH :: nat where
  "ROOT_SUBTREE_MAX_DEPTH = 2"

type_synonym adjacency = "(string, string list) jmap"

definition set_add :: "'a \<Rightarrow> 'a list \<Rightarrow> 'a list" where
  "set_add x xs = (if x \<in> set xs then xs else xs @ [x])"

definition add_to :: "string \<Rightarrow> string \<Rightarrow> adjacency \<Rightarrow> adjacency" where
  "add_to a b adj = (case jmap_get adj a of None \<Rightarrow> adj | Some xs \<Rightarrow> jmap_set a (set_add b xs) adj)"

definition adjacency_of :: "string list \<Rightarrow> flow_edge list \<Rightarrow> adjacency" where
  "adjacency_of nodeIds edges =
     foldl (\<lambda>adj e. add_to (edge_target e) (edge_source e) (add_to (edge_source e) (edge_target e) adj))
       (foldl (\<lambda>adj i. jmap_set i [] adj) [] nodeIds) edges"

definition neighbours_of :: "adjacency \<Rightarrow> string \<Rightarrow> string list" where
  "neighbours_of adj i = nullish (jmap_get adj i) []"

fun visit_neighbour :: "string list \<times> string list \<Rightarrow> string \<Rightarrow> string list \<times> string list" where
  "visit_neighbour (stack, visited) n = (if n \<in> set visited then (stack, visited) else (n # stack, visited @ [n]))"

definition adjacency_nodes :: "adjacency \<Rightarrow> string set" where
  "adjacency_nodes adj = (\<Union>kv \<in> set adj. set (snd kv))"

lemma finite_adjacency_nodes [simp]: "finite (adjacency_nodes adj)"
  by (simp add: adjacency_nodes_def)

lemma neighbours_in_nodes: "set (neighbours_of adj i) \<subseteq> adjacency_nodes adj"
  by (cases "jmap_get adj i") (auto simp: neighbours_of_def adjacency_nodes_def jmap_get_def dest: map_of_SomeD)

text \<open>Every node that is pushed leaves the unvisited nodes, so the two together shrink with each node
  that is popped.\<close>

lemma visit_measure:
  "set ns \<subseteq> U \<Longrightarrow> finite U \<Longrightarrow>
   (case foldl visit_neighbour (stack, visited) ns of (stack', visited') \<Rightarrow>
      card (U - set visited') + length stack' = card (U - set visited) + length stack)"
proof (induction ns arbitrary: stack visited)
  case (Cons n ns)
  show ?case
  proof (cases "n \<in> set visited")
    case True
    with Cons show ?thesis by simp
  next
    case False
    then have "n \<in> U - set visited" using Cons.prems by simp
    moreover have "U - set (visited @ [n]) = U - set visited - {n}" by auto
    ultimately have "card (U - set visited) = Suc (card (U - set (visited @ [n])))"
      using card.remove [of "U - set visited" n] Cons.prems(2) by simp
    moreover obtain st vis where r: "foldl visit_neighbour (n # stack, visited @ [n]) ns = (st, vis)"
      by (cases "foldl visit_neighbour (n # stack, visited @ [n]) ns")
    ultimately have "card (U - set vis) + length st = card (U - set visited) + length stack"
      using Cons.IH [of "visited @ [n]" "n # stack"] Cons.prems by (simp add: r)
    with False r show ?thesis by (simp del: set_append)
  qed
qed simp

function explore ::
  "adjacency \<Rightarrow> string list \<Rightarrow> string list \<Rightarrow> string list \<Rightarrow> string list \<times> string list" where
  "explore adj [] visited component = (visited, component)"
| "explore adj (current # stack) visited component =
     (let (stack', visited') = foldl visit_neighbour (stack, visited) (neighbours_of adj current)
      in explore adj stack' visited' (component @ [current]))"
  by pat_completeness auto
termination
proof (relation "measure (\<lambda>(adj, stack, visited, _). card (adjacency_nodes adj - set visited) + length stack)", goal_cases)
  case (2 adj current stack visited)
  then show ?case
    using visit_measure [OF neighbours_in_nodes [of adj current] finite_adjacency_nodes, where stack = stack and visited = visited]
    by (simp split: prod.splits) 
qed simp

fun component_step ::
  "adjacency \<Rightarrow> string list \<times> string list list \<Rightarrow> string \<Rightarrow> string list \<times> string list list" where
  "component_step adj (visited, components) i =
     (if i \<in> set visited then (visited, components)
      else let (visited', component) = explore adj [i] (visited @ [i]) [] in (visited', components @ [component]))"

definition findConnectedComponents :: "string list \<Rightarrow> flow_edge list \<Rightarrow> string list list" where
  "findConnectedComponents nodeIds edges =
     snd (foldl (component_step (adjacency_of nodeIds edges)) ([], []) nodeIds)"

section \<open>What to bring into view\<close>

definition by_length :: "string list \<Rightarrow> string list \<Rightarrow> int" where
  "by_length a b = int (length b) - int (length a)"

definition pickLargestLinkedComponentIds :: "string list \<Rightarrow> flow_edge list \<Rightarrow> string list" where
  "pickLargestLinkedComponentIds nodeIds edges =
     (if nodeIds = [] then []
      else let linked = filter (\<lambda>c. 1 < length c) (findConnectedComponents nodeIds edges)
           in if linked = [] then nodeIds else hd (js_sort by_length linked))"

definition count_edge ::
  "string list \<Rightarrow> (string, nat) jmap \<times> adjacency \<Rightarrow> flow_edge \<Rightarrow> (string, nat) jmap \<times> adjacency" where
  "count_edge nodeIds acc e =
     (if edge_source e \<notin> set nodeIds \<or> edge_target e \<notin> set nodeIds then acc
      else (jmap_set (edge_target e) (nullish (jmap_get (fst acc) (edge_target e)) 0 + 1) (fst acc),
            jmap_set (edge_source e) (neighbours_of (snd acc) (edge_source e) @ [edge_target e]) (snd acc)))"

definition degrees :: "string list \<Rightarrow> flow_edge list \<Rightarrow> (string, nat) jmap \<times> adjacency" where
  "degrees nodeIds edges =
     foldl (count_edge nodeIds)
       (foldl (\<lambda>m i. jmap_set i 0 m) [] nodeIds, foldl (\<lambda>m i. jmap_set i [] m) [] nodeIds) edges"

lemma fewer_unvisited:
  "finite U \<Longrightarrow> U' \<subseteq> insert i U \<Longrightarrow> i \<notin> V \<Longrightarrow> card (U' - insert i V) < card (insert i U - V)"
  by (rule psubset_card_mono) auto

function subtree ::
  "adjacency \<Rightarrow> nat \<Rightarrow> (string \<times> nat) list \<Rightarrow> string list \<Rightarrow> string list" where
  "subtree out maxDepth [] visited = visited"
| "subtree out maxDepth ((i, depth) # queue) visited =
     (if i \<in> set visited then subtree out maxDepth queue visited
      else let visited' = visited @ [i]
           in if depth \<ge> maxDepth then subtree out maxDepth queue visited'
              else subtree out maxDepth
                     (queue @ map (\<lambda>c. (c, depth + 1)) (filter (\<lambda>c. c \<notin> set visited') (neighbours_of out i))) visited')"
  by pat_completeness auto
termination
proof (relation "measures [\<lambda>(out, _, queue, visited). card (adjacency_nodes out \<union> fst ` set queue - set visited),
    \<lambda>(_, _, queue, _). length queue]", goal_cases)
  case (2 out maxDepth i depth queue visited)
  then show ?case by (simp add: insert_Diff_if)
next
  case (3 out maxDepth i depth queue visited)
  then show ?case
    using fewer_unvisited [of "adjacency_nodes out \<union> fst ` set queue" _ i "set visited"] by auto
next
  case (4 out maxDepth i depth queue visited)
  let ?children = "{c \<in> set (neighbours_of out i). c \<noteq> i \<and> c \<notin> set visited}"
  have "adjacency_nodes out \<union> (fst ` set queue \<union> ?children) \<subseteq> insert i (adjacency_nodes out \<union> fst ` set queue)"
    using neighbours_in_nodes [of out i] by auto
  from fewer_unvisited [OF _ this] 4 show ?case by (simp add: image_Un image_image)
qed simp

definition pickRootSubtreeNodeIds :: "string list \<Rightarrow> flow_edge list \<Rightarrow> nat \<Rightarrow> string list" where
  "pickRootSubtreeNodeIds nodeIds edges maxDepth =
     (if nodeIds = [] then []
      else let (incoming, outgoing) = degrees nodeIds edges;
               roots = filter (\<lambda>i. nullish (jmap_get incoming i) 0 = 0 \<and> neighbours_of outgoing i \<noteq> []) nodeIds
           in if roots = [] then pickLargestLinkedComponentIds nodeIds edges
              else subtree outgoing maxDepth (map (\<lambda>i. (i, 0)) roots) [])"

definition pickInitialFitNodeIds :: "string list \<Rightarrow> flow_edge list \<Rightarrow> string list" where
  "pickInitialFitNodeIds nodeIds edges =
     (let count = length nodeIds
      in if count = 0 then []
         else if count \<le> FIT_ALL_MAX_NODES then nodeIds
         else if count \<le> FIT_LARGEST_MAX_NODES then pickLargestLinkedComponentIds nodeIds edges
         else pickRootSubtreeNodeIds nodeIds edges ROOT_SUBTREE_MAX_DEPTH)"

definition reach_over :: "string list \<Rightarrow> string \<Rightarrow> string \<Rightarrow> string list \<times> string list \<Rightarrow> string list \<times> string list" where
  "reach_over frontier a b acc =
     (case acc of (visited, next) \<Rightarrow>
        if a \<in> set frontier \<and> b \<notin> set visited then (visited @ [b], set_add b next) else (visited, next))"

fun hop :: "flow_edge list \<Rightarrow> string list \<times> string list \<Rightarrow> string list \<times> string list" where
  "hop edges (visited, frontier) =
     foldl (\<lambda>acc e. reach_over frontier (edge_target e) (edge_source e)
                     (reach_over frontier (edge_source e) (edge_target e) acc)) (visited, []) edges"

definition neighborNodeIds :: "string \<Rightarrow> flow_edge list \<Rightarrow> nat \<Rightarrow> string list" where
  "neighborNodeIds nodeId edges hops = fst ((hop edges ^^ hops) ([nodeId], [nodeId]))"

section \<open>Components are the classes of connected cards\<close>

definition joined :: "flow_edge list \<Rightarrow> (string \<times> string) set" where
  "joined edges = (\<Union>e \<in> set edges. {(edge_source e, edge_target e), (edge_target e, edge_source e)})"

definition edges_within :: "string list \<Rightarrow> flow_edge list \<Rightarrow> bool" where
  "edges_within nodeIds edges \<longleftrightarrow> (\<forall>e \<in> set edges. edge_source e \<in> set nodeIds \<and> edge_target e \<in> set nodeIds)"

lemma set_set_add [simp]: "set (set_add x xs) = insert x (set xs)"
  by (auto simp: set_add_def)

lemma joined_sym: "(a, b) \<in> joined edges \<Longrightarrow> (b, a) \<in> joined edges"
  by (auto simp: joined_def)

lemma joined_within: "edges_within nodeIds edges \<Longrightarrow> (a, b) \<in> joined edges \<Longrightarrow> b \<in> set nodeIds"
  by (auto simp: joined_def edges_within_def)

lemma get_same_value:
  "jmap_get (foldl (\<lambda>m i. jmap_set i v m) m ids) k = (if k \<in> set ids then Some v else jmap_get m k)"
  by (induction ids arbitrary: m) (auto simp: jmap_get_set)

lemma get_add_to: "jmap_get (add_to a b adj) k = (if k = a then map_option (set_add b) (jmap_get adj a) else jmap_get adj k)"
  by (auto simp: add_to_def jmap_get_set split: option.split)

lemma has_add_to: "jmap_get (add_to a b adj) k = None \<longleftrightarrow> jmap_get adj k = None"
  by (simp add: get_add_to)

lemma neighbours_add_to:
  "set (neighbours_of (add_to a b adj) k) =
   set (neighbours_of adj k) \<union> (if k = a \<and> jmap_get adj a \<noteq> None then {b} else {})"
  by (cases "jmap_get adj a") (simp_all add: neighbours_of_def get_add_to)

lemma joined_snoc:
  "joined (edges @ [e]) `` {k} = joined edges `` {k} \<union> (if k = edge_source e then {edge_target e} else {}) \<union>
     (if k = edge_target e then {edge_source e} else {})"
  by (simp add: joined_def Image_Un Image_def) auto

lemma adjacency_snoc:
  "adjacency_of nodeIds (edges @ [e]) =
   add_to (edge_target e) (edge_source e) (add_to (edge_source e) (edge_target e) (adjacency_of nodeIds edges))"
  by (simp add: adjacency_of_def)

lemma has_adjacency: "jmap_get (adjacency_of nodeIds edges) k = None \<longleftrightarrow> k \<notin> set nodeIds"
proof (induction edges rule: rev_induct)
  case Nil
  show ?case by (simp add: adjacency_of_def get_same_value md.get_emp)
qed (simp add: adjacency_snoc has_add_to)

lemma neighbours_joined:
  "edges_within nodeIds edges \<Longrightarrow> set (neighbours_of (adjacency_of nodeIds edges) k) = joined edges `` {k}"
proof (induction edges rule: rev_induct)
  case Nil
  show ?case by (simp add: adjacency_of_def neighbours_of_def get_same_value joined_def md.get_emp)
next
  case (snoc e edges)
  then have "edges_within nodeIds edges" "edge_source e \<in> set nodeIds" "edge_target e \<in> set nodeIds"
    by (simp_all add: edges_within_def)
  with snoc.IH show ?case by (simp add: adjacency_snoc neighbours_add_to has_add_to has_adjacency joined_snoc)
qed

text \<open>Exploring from a node outside a closed set of visited nodes.\<close>

lemma visit_all:
  "foldl visit_neighbour (stack, visited) ns = (stack', visited') \<Longrightarrow>
   \<exists>new. stack' = rev new @ stack \<and> visited' = visited @ new \<and> distinct new \<and> set new = set ns - set visited"
proof (induction ns arbitrary: stack visited)
  case (Cons n ns)
  show ?case
  proof (cases "n \<in> set visited")
    case True
    with Cons.prems have "foldl visit_neighbour (stack, visited) ns = (stack', visited')" by simp
    from Cons.IH [OF this] True show ?thesis by (simp add: insert_Diff_if)
  next
    case False
    with Cons.prems have "foldl visit_neighbour (n # stack, visited @ [n]) ns = (stack', visited')" by simp
    from Cons.IH [OF this] obtain new where new: "stack' = rev new @ n # stack" "visited' = visited @ n # new"
        "distinct new" "set new = set ns - insert n (set visited)" by auto
    have "insert n (set ns - insert n (set visited)) = set (n # ns) - set visited" using False by auto
    with new show ?thesis by (intro exI [of _ "n # new"]) simp
  qed
qed simp

lemma explore_result:
  assumes "explore adj stack visited component = (visited', component')"
    and "\<And>k. set (neighbours_of adj k) = R `` {k}"
    and "set visited = V \<union> set stack \<union> set component" and "distinct (stack @ component)"
    and "V \<inter> (set stack \<union> set component) = {}"
    and "R `` set component \<subseteq> set visited" and "set stack \<union> set component \<subseteq> C" and "R `` C \<subseteq> C"
  shows "set visited' = V \<union> set component' \<and> distinct component' \<and> V \<inter> set component' = {} \<and>
    set stack \<union> set component \<subseteq> set component' \<and> set component' \<subseteq> C \<and> R `` set component' \<subseteq> V \<union> set component'"
  using assms
proof (induction adj stack visited component arbitrary: visited' component' rule: explore.induct)
  case (1 adj visited component)
  then show ?case by auto
next
  case (2 adj current stack visited component)
  obtain st vis where step: "foldl visit_neighbour (stack, visited) (neighbours_of adj current) = (st, vis)"
    by (cases "foldl visit_neighbour (stack, visited) (neighbours_of adj current)")
  obtain new where new: "st = rev new @ stack" "vis = visited @ new" "distinct new" "set new = R `` {current} - set visited"
    using visit_all [OF step] "2.prems"(2) by auto
  have run: "explore adj st vis (component @ [current]) = (visited', component')"
    using "2.prems"(1) step by simp
  have vis: "set vis = V \<union> set st \<union> set (component @ [current])" using "2.prems"(3) new by auto
  have fresh: "set new \<inter> set visited = {}" "R `` {current} \<subseteq> set visited \<union> set new" using new(4) by auto
  have dis: "distinct (st @ component @ [current])" using "2.prems"(3,4) new(1,3) fresh(1) by auto
  have out: "V \<inter> (set st \<union> set (component @ [current])) = {}" using "2.prems"(3,5) new(1) fresh(1) by auto
  have closed: "R `` set (component @ [current]) \<subseteq> set vis" using "2.prems"(6) new(2) fresh(2) by auto
  have sub: "set st \<union> set (component @ [current]) \<subseteq> C" using "2.prems"(7,8) new(1,4) by auto
  show ?case
    using "2.IH" [OF step [symmetric] refl run "2.prems"(2) vis dis out closed sub "2.prems"(8)] new(1) by auto
qed

definition closed_under :: "('a \<times> 'a) set \<Rightarrow> 'a set \<Rightarrow> bool" where
  "closed_under R V \<longleftrightarrow> R `` V \<subseteq> V"

lemma closed_under_reach: "closed_under R V \<Longrightarrow> i \<in> V \<Longrightarrow> R\<^sup>* `` {i} \<subseteq> V"
proof -
  assume c: "closed_under R V" and i: "i \<in> V"
  have "j \<in> V" if "(i, j) \<in> R\<^sup>*" for j
    using that i by (induction rule: rtrancl_induct) (use c in \<open>auto simp: closed_under_def\<close>)
  then show ?thesis by auto
qed

lemma explore_component:
  assumes within: "edges_within nodeIds edges" and new: "i \<notin> set visited" and closed: "closed_under (joined edges) (set visited)"
    and run: "explore (adjacency_of nodeIds edges) [i] (visited @ [i]) [] = (visited', component)"
  shows "set component = (joined edges)\<^sup>* `` {i}" "distinct component" "set visited' = set visited \<union> set component"
    "set visited \<inter> set component = {}"
proof -
  let ?C = "(joined edges)\<^sup>* `` {i}"
  have "joined edges `` ?C \<subseteq> ?C" by (auto intro: rtrancl_into_rtrancl)
  then have r: "set visited' = set visited \<union> set component \<and> distinct component \<and> set visited \<inter> set component = {} \<and>
      set [i] \<union> set [] \<subseteq> set component \<and> set component \<subseteq> ?C \<and> joined edges `` set component \<subseteq> set visited \<union> set component"
    using new by (intro explore_result [OF run neighbours_joined [OF within]]) auto
  have "closed_under (joined edges) (set component)"
    using r closed joined_sym by (fastforce simp: closed_under_def)
  then have "?C \<subseteq> set component" using closed_under_reach r by fastforce
  with r show "set component = ?C" "distinct component" "set visited' = set visited \<union> set component"
    "set visited \<inter> set component = {}" by auto
qed

definition components_ok :: "string list \<Rightarrow> flow_edge list \<Rightarrow> string list \<times> string list list \<Rightarrow> bool" where
  "components_ok nodeIds edges acc \<longleftrightarrow> (case acc of (visited, components) \<Rightarrow>
     set visited = set (concat components) \<and> distinct (concat components) \<and> [] \<notin> set components \<and>
     closed_under (joined edges) (set visited) \<and> set visited \<subseteq> set nodeIds \<and>
     (\<forall>c \<in> set components. \<forall>i \<in> set c. set c = (joined edges)\<^sup>* `` {i}))"

lemma rtrancl_joined_sym: "(a, b) \<in> (joined edges)\<^sup>* \<Longrightarrow> (b, a) \<in> (joined edges)\<^sup>*"
  by (rule symD [OF sym_rtrancl]) (auto intro!: symI joined_sym)

lemma reach_class: "j \<in> (joined edges)\<^sup>* `` {i} \<Longrightarrow> (joined edges)\<^sup>* `` {i} = (joined edges)\<^sup>* `` {j}"
  using rtrancl_joined_sym by (auto intro: rtrancl_trans)

lemma component_step_ok:
  assumes within: "edges_within nodeIds edges" and ok: "components_ok nodeIds edges (visited, components)" and i: "i \<in> set nodeIds"
    and step: "component_step (adjacency_of nodeIds edges) (visited, components) i = (visited', components')"
  shows "components_ok nodeIds edges (visited', components') \<and> set visited \<union> {i} \<subseteq> set visited'"
proof (cases "i \<in> set visited")
  case True
  with step ok show ?thesis by auto
next
  case False
  obtain c where c: "explore (adjacency_of nodeIds edges) [i] (visited @ [i]) [] = (visited', c)" "components' = components @ [c]"
    using step False by (auto split: prod.splits)
  have closed: "closed_under (joined edges) (set visited)"
    using ok unfolding components_ok_def prod.case by blast
  note r = explore_component [OF within False closed c(1)]
  have "closed_under (joined edges) (set visited')"
    using closed unfolding r(1,3) closed_under_def by (auto intro: rtrancl_into_rtrancl)
  moreover have "set c \<subseteq> set nodeIds"
    unfolding r(1) by (rule closed_under_reach) (use joined_within [OF within] i in \<open>auto simp: closed_under_def\<close>)
  moreover have "\<forall>j \<in> set c. set c = (joined edges)\<^sup>* `` {j}" unfolding r(1) using reach_class by blast
  moreover have "i \<in> set c" unfolding r(1) by auto
  ultimately show ?thesis using ok r(2-4) by (auto simp: components_ok_def c(2))
qed

lemma components_fold:
  assumes "edges_within nodeIds edges" and "components_ok nodeIds edges acc" and "set ids \<subseteq> set nodeIds"
  shows "components_ok nodeIds edges (foldl (component_step (adjacency_of nodeIds edges)) acc ids) \<and>
    set (fst acc) \<union> set ids \<subseteq> set (fst (foldl (component_step (adjacency_of nodeIds edges)) acc ids))"
  using assms(2,3)
proof (induction ids arbitrary: acc)
  case (Cons i ids)
  obtain visited components where acc: "acc = (visited, components)" by (cases acc)
  obtain v c where step: "component_step (adjacency_of nodeIds edges) (visited, components) i = (v, c)" by force
  have "components_ok nodeIds edges (v, c) \<and> set visited \<union> {i} \<subseteq> set v"
    using component_step_ok [OF assms(1) _ _ step] Cons.prems acc by simp
  with Cons.IH [of "(v, c)"] Cons.prems(2) show ?case by (simp add: acc step del: component_step.simps) auto
qed simp

text \<open>Every card of the decision map is in exactly one component, and two cards are in the same one
  if and only if a path of links leads from one to the other, in whatever directions the links point.\<close>

lemma components_are_connected_classes:
  assumes "edges_within nodeIds edges"
  shows "distinct (concat (findConnectedComponents nodeIds edges)) \<and>
    set (concat (findConnectedComponents nodeIds edges)) = set nodeIds \<and>
    (\<forall>c \<in> set (findConnectedComponents nodeIds edges). c \<noteq> [] \<and> (\<forall>i \<in> set c. set c = (joined edges)\<^sup>* `` {i}))"
proof -
  obtain visited components where
    r: "foldl (component_step (adjacency_of nodeIds edges)) ([], []) nodeIds = (visited, components)" by force
  have "components_ok nodeIds edges ([], [])" by (simp add: components_ok_def closed_under_def)
  from components_fold [OF assms this, of nodeIds] r show ?thesis
    by (auto simp: findConnectedComponents_def components_ok_def)
qed

text \<open>The neighbours of a card within a number of hops, whatever the direction of the links.\<close>

fun ball :: "('a \<times> 'a) set \<Rightarrow> 'a \<Rightarrow> nat \<Rightarrow> 'a set" where
  "ball R x 0 = {x}"
| "ball R x (Suc k) = ball R x k \<union> R `` ball R x k"

lemma reach_over_set:
  "reach_over frontier a b (visited, next) = (visited', next') \<Longrightarrow>
   set visited' = set visited \<union> (if a \<in> set frontier then {b} else {}) \<and>
   set next' = set next \<union> (if a \<in> set frontier \<and> b \<notin> set visited then {b} else {})"
  by (auto simp: reach_over_def split: if_splits)

lemma hop_result:
  assumes "hop edges (visited, frontier) = (visited', frontier')"
  shows "set visited' = set visited \<union> joined edges `` set frontier \<and> set frontier' = joined edges `` set frontier - set visited"
  using assms
proof (induction edges arbitrary: visited' frontier' rule: rev_induct)
  case Nil
  then show ?case by (simp add: joined_def)
next
  case (snoc e edges)
  obtain v n where v: "hop edges (visited, frontier) = (v, n)" by force
  obtain v1 n1 where v1: "reach_over frontier (edge_source e) (edge_target e) (v, n) = (v1, n1)" by force
  have v2: "reach_over frontier (edge_target e) (edge_source e) (v1, n1) = (visited', frontier')"
    using snoc.prems v v1 by simp
  have "joined (edges @ [e]) `` set frontier = joined edges `` set frontier \<union>
      (if edge_source e \<in> set frontier then {edge_target e} else {}) \<union>
      (if edge_target e \<in> set frontier then {edge_source e} else {})"
    by (simp add: joined_def Image_Un Image_def) auto
  with snoc.IH [OF v] reach_over_set [OF v1] reach_over_set [OF v2] show ?case by auto
qed

lemma frontier_step:
  assumes "n \<subseteq> v" and "R `` (v - n) \<subseteq> v" and "v' = v \<union> R `` n" and "n' = R `` n - v"
  shows "v' = v \<union> R `` v" "n' \<subseteq> v'" "R `` (v' - n') \<subseteq> v'"
  unfolding assms(3,4) using assms(1,2) by blast+

lemma neighbours_are_ball: "set (neighborNodeIds x edges hops) = ball (joined edges) x hops"
proof -
  have "\<exists>v n. (hop edges ^^ k) ([x], [x]) = (v, n) \<and> set v = ball (joined edges) x k \<and> set n \<subseteq> set v \<and>
      joined edges `` (set v - set n) \<subseteq> set v" for k
  proof (induction k)
    case (Suc k)
    then obtain v n where v: "(hop edges ^^ k) ([x], [x]) = (v, n)" "set v = ball (joined edges) x k"
        "set n \<subseteq> set v" "joined edges `` (set v - set n) \<subseteq> set v" by blast
    obtain v' n' where v': "hop edges (v, n) = (v', n')" by force
    note r = hop_result [OF v']
    from frontier_step [OF v(3,4) conjunct1 [OF r] conjunct2 [OF r]] v(1,2) v' show ?case by simp
  qed simp
  from this [of hops] show ?thesis by (auto simp: neighborNodeIds_def)
qed

text \<open>The cards below the roots: breadth first, so a card is met first by a shortest path.  The depth at
  which each visited card was met is the function \<open>\<delta>\<close>.\<close>

definition out_edges :: "adjacency \<Rightarrow> (string \<times> string) set" where
  "out_edges out = {(a, b). b \<in> set (neighbours_of out a)}"

definition within :: "('a \<times> 'a) set \<Rightarrow> 'a set \<Rightarrow> nat \<Rightarrow> 'a set" where
  "within R A k = (\<Union>r \<in> A. ball R r k)"

definition met :: "(string \<times> string) set \<Rightarrow> string set \<Rightarrow> (string \<Rightarrow> nat) \<Rightarrow> string set \<Rightarrow> (string \<times> nat) set \<Rightarrow> nat \<Rightarrow> bool" where
  "met R A \<delta> V Q D \<longleftrightarrow>
     (\<forall>r \<in> A. r \<in> V \<and> \<delta> r = 0 \<or> (r, 0) \<in> Q) \<and>
     (\<forall>v \<in> V. \<delta> v < D \<longrightarrow> (\<forall>c \<in> R `` {v}. c \<in> V \<and> \<delta> c \<le> Suc (\<delta> v) \<or> (c, Suc (\<delta> v)) \<in> Q))"

definition sound :: "(string \<times> string) set \<Rightarrow> string set \<Rightarrow> (string \<Rightarrow> nat) \<Rightarrow> string set \<Rightarrow> (string \<times> nat) set \<Rightarrow> nat \<Rightarrow> bool" where
  "sound R A \<delta> V Q D \<longleftrightarrow> (\<forall>(i, d) \<in> Q. d \<le> D \<and> i \<in> within R A d) \<and> (\<forall>v \<in> V. \<delta> v \<le> D \<and> v \<in> within R A (\<delta> v))"

definition in_order :: "(string \<Rightarrow> nat) \<Rightarrow> string set \<Rightarrow> (string \<times> nat) list \<Rightarrow> bool" where
  "in_order \<delta> V queue \<longleftrightarrow> sorted (map snd queue) \<and>
     (\<forall>q \<in> set queue. (\<forall>v \<in> V. \<delta> v \<le> snd q) \<and> snd q \<le> Suc (snd (hd queue)))"

lemma within_step: "a \<in> within R A k \<Longrightarrow> (a, b) \<in> R \<Longrightarrow> b \<in> within R A (Suc k)"
  by (auto simp: within_def)

lemma within_Suc: "within R A (Suc k) = within R A k \<union> R `` within R A k"
  by (auto simp: within_def)

lemma within_mono: "k \<le> l \<Longrightarrow> within R A k \<subseteq> within R A l"
  by (rule lift_Suc_mono_le) (auto simp: within_Suc)

text \<open>An empty queue: everything within the bound has been met.\<close>

lemma met_all:
  assumes "met R A \<delta> V {} D" and "sound R A \<delta> V {} D"
  shows "V = within R A D"
proof -
  have "within R A k \<subseteq> {v \<in> V. \<delta> v \<le> k}" if "k \<le> D" for k
    using that
  proof (induction k)
    case 0
    with assms(1) show ?case by (auto simp: met_def within_def)
  next
    case (Suc k)
    then have old: "within R A k \<subseteq> {v \<in> V. \<delta> v \<le> k}" by simp
    have "c \<in> V \<and> \<delta> c \<le> Suc k" if "v \<in> within R A k" and "(v, c) \<in> R" for v c
    proof -
      have "v \<in> V" "\<delta> v \<le> k" using old that(1) by auto
      moreover from this Suc.prems that(2) have "c \<in> V \<and> \<delta> c \<le> Suc (\<delta> v)" using assms(1) by (simp add: met_def Image_def)
      ultimately show ?thesis by simp
    qed
    with old show ?case unfolding within_Suc by fastforce
  qed
  then have "within R A D \<subseteq> V" by blast
  moreover have "v \<in> within R A D" if "v \<in> V" for v
    using assms(2) that within_mono [of "\<delta> v" D R A] by (auto simp: sound_def)
  ultimately show ?thesis by blast
qed

text \<open>Meeting the next card of the queue, with its children if the bound allows.\<close>

lemma met_skip:
  assumes "met R A \<delta> V (set ((i, d) # queue)) D" and "in_order \<delta> V ((i, d) # queue)" and "i \<in> V"
  shows "met R A \<delta> V (set queue) D"
proof -
  have "\<delta> i \<le> d" using assms(2,3) by (simp add: in_order_def)
  with assms(1,3) show ?thesis by (auto simp: met_def)
qed

lemma met_visit:
  assumes m: "met R A \<delta> V (set ((i, d) # queue)) D" and o: "in_order \<delta> V ((i, d) # queue)" and new: "i \<notin> V"
    and children: "d < D \<Longrightarrow> (\<forall>c \<in> R `` {i}. c \<in> insert i V \<or> (c, Suc d) \<in> set kids)"
  shows "met R A (\<delta>(i := d)) (insert i V) (set (queue @ kids)) D"
proof -
  have le: "\<delta> v \<le> d" if "v \<in> V" for v using o that by (simp add: in_order_def)
  have "(\<delta>(i := d)) c \<le> Suc d" if "c \<in> insert i V" for c using le [of c] that by auto
  with children have "\<forall>c \<in> R `` {i}. d < D \<longrightarrow> c \<in> insert i V \<and> (\<delta>(i := d)) c \<le> Suc d \<or> (c, Suc d) \<in> set kids"
    by blast
  with m new show ?thesis by (auto simp: met_def)
qed

lemma order_skip: "in_order \<delta> V ((i, d) # queue) \<Longrightarrow> in_order \<delta> V queue"
  by (cases queue) (force simp: in_order_def)+

lemma order_visit:
  assumes "in_order \<delta> V ((i, d) # queue)" and "i \<notin> V" and "\<forall>q \<in> set kids. snd q = Suc d"
  shows "in_order (\<delta>(i := d)) (insert i V) (queue @ kids)"
proof -
  have "sorted (map snd kids)" using assms(3) by (induction kids) auto
  moreover have "d \<le> snd q \<and> snd q \<le> Suc d \<and> (\<forall>v \<in> V. \<delta> v \<le> d)" if "q \<in> set (queue @ kids)" for q
    using assms(1,3) that by (auto simp: in_order_def)
  moreover have "snd q \<le> Suc d" if "q \<in> set queue" for q
    using assms(1) that by (simp add: in_order_def)
  moreover have "sorted (map snd queue)" using assms(1) by (simp add: in_order_def)
  ultimately have "sorted (map snd (queue @ kids))"
    "\<forall>q \<in> set (queue @ kids). d \<le> snd q \<and> snd q \<le> Suc d \<and> (\<forall>v \<in> V. \<delta> v \<le> d)"
    using assms(3) by (auto simp: sorted_append)
  then show ?thesis
    unfolding in_order_def by (cases "queue @ kids") (auto intro: le_trans)
qed

lemma subtree_is_ball:
  assumes "met (out_edges out) A \<delta> (set visited) (set queue) D" and "sound (out_edges out) A \<delta> (set visited) (set queue) D"
    and "in_order \<delta> (set visited) queue"
  shows "set (subtree out D queue visited) = within (out_edges out) A D"
  using assms
proof (induction out D queue visited arbitrary: \<delta> rule: subtree.induct)
  case (1 out D visited)
  then show ?case using met_all by simp
next
  case (2 out D i d queue visited)
  show ?case
  proof (cases "i \<in> set visited")
    case True
    then show ?thesis
      using "2.IH"(1) [OF True met_skip [OF "2.prems"(1,3) True] _ order_skip [OF "2.prems"(3)]] "2.prems"(2)
      by (simp add: sound_def)
  next
    case False
    let ?more = "if D \<le> d then [] else map (\<lambda>c. (c, d + 1)) (filter (\<lambda>c. c \<notin> set (visited @ [i])) (neighbours_of out i))"
    have "met (out_edges out) A (\<delta>(i := d)) (set (visited @ [i])) (set (queue @ ?more)) D"
    proof -
      have "\<forall>c \<in> out_edges out `` {i}. c \<in> insert i (set visited) \<or> (c, Suc d) \<in> set ?more" if "d < D"
        using that by (auto simp: out_edges_def)
      from met_visit [OF "2.prems"(1,3) False this] show ?thesis by simp
    qed
    moreover have "sound (out_edges out) A (\<delta>(i := d)) (set (visited @ [i])) (set (queue @ ?more)) D"
      using "2.prems"(2) False within_step [of i "out_edges out" A d]
      by (auto simp: sound_def out_edges_def)
    moreover have "in_order (\<delta>(i := d)) (set (visited @ [i])) (queue @ ?more)"
      using order_visit [OF "2.prems"(3) False, of ?more] by auto
    ultimately show ?thesis
      using "2.IH"(2) [OF False refl] "2.IH"(3) [OF False refl] False by (cases "D \<le> d") simp_all
  qed
qed

lemma sorted_map_const: "sorted (map (\<lambda>_. c) xs)"
  by (induction xs) auto

lemma subtree_within: "set (subtree out D (map (\<lambda>i. (i, 0)) roots) []) = within (out_edges out) (set roots) D"
  by (rule subtree_is_ball [where \<delta> = "\<lambda>_. 0"])
     (auto simp: met_def sound_def in_order_def within_def comp_def sorted_map_const)

text \<open>The roots, and what is brought into view.\<close>

definition directed :: "string list \<Rightarrow> flow_edge list \<Rightarrow> (string \<times> string) set" where
  "directed nodeIds edges = {(edge_source e, edge_target e) | e. e \<in> set edges \<and> edge_source e \<in> set nodeIds \<and> edge_target e \<in> set nodeIds}"

lemma degrees_result:
  "out_edges (snd (degrees nodeIds edges)) = directed nodeIds edges \<and>
   (nullish (jmap_get (fst (degrees nodeIds edges)) k) 0 = 0 \<longleftrightarrow> k \<notin> Range (directed nodeIds edges))"
proof (induction edges rule: rev_induct)
  case Nil
  show ?case
    by (auto simp: degrees_def directed_def out_edges_def neighbours_of_def get_same_value md.get_emp split: if_splits)
next
  case (snoc e edges)
  let ?d = "degrees nodeIds edges"
  have snoc': "degrees nodeIds (edges @ [e]) = count_edge nodeIds ?d e" by (simp add: degrees_def)
  show ?case
  proof (cases "edge_source e \<in> set nodeIds \<and> edge_target e \<in> set nodeIds")
    case True
    then have dir: "directed nodeIds (edges @ [e]) = insert (edge_source e, edge_target e) (directed nodeIds edges)"
      by (auto simp: directed_def)
    have "out_edges (jmap_set a (neighbours_of m a @ [b]) m) = insert (a, b) (out_edges m)" for a b m
      by (auto simp: out_edges_def neighbours_of_def jmap_get_set split: if_splits)
    moreover have "nullish (jmap_get (jmap_set b (nullish (jmap_get m b) 0 + 1) m) k) 0 = (0::nat) \<longleftrightarrow>
        k \<noteq> b \<and> nullish (jmap_get m k) 0 = 0" for b and m :: "(string, nat) jmap"
      by (simp add: jmap_get_set)
    ultimately show ?thesis using snoc.IH True by (auto simp: snoc' count_edge_def dir)
  next
    case False
    then have "directed nodeIds (edges @ [e]) = directed nodeIds edges" by (auto simp: directed_def)
    with False snoc.IH show ?thesis by (auto simp: snoc' count_edge_def)
  qed
qed

definition roots_of :: "string list \<Rightarrow> flow_edge list \<Rightarrow> string set" where
  "roots_of nodeIds edges = {i \<in> set nodeIds. i \<notin> Range (directed nodeIds edges) \<and> i \<in> Domain (directed nodeIds edges)}"

lemma root_subtree:
  "set (pickRootSubtreeNodeIds nodeIds edges D) =
   (if roots_of nodeIds edges = {} then set (pickLargestLinkedComponentIds nodeIds edges)
    else within (directed nodeIds edges) (roots_of nodeIds edges) D)"
proof (cases "nodeIds = []")
  case True
  then show ?thesis by (simp add: pickRootSubtreeNodeIds_def roots_of_def pickLargestLinkedComponentIds_def)
next
  case False
  obtain incoming outgoing where d: "degrees nodeIds edges = (incoming, outgoing)" by force
  let ?roots = "filter (\<lambda>i. nullish (jmap_get incoming i) 0 = 0 \<and> neighbours_of outgoing i \<noteq> []) nodeIds"
  have out: "out_edges outgoing = directed nodeIds edges" using degrees_result [of nodeIds edges] d by simp
  have "neighbours_of outgoing i \<noteq> [] \<longleftrightarrow> i \<in> Domain (directed nodeIds edges)" for i
    unfolding out [symmetric] out_edges_def by (cases "neighbours_of outgoing i") auto
  moreover have "nullish (jmap_get incoming i) 0 = 0 \<longleftrightarrow> i \<notin> Range (directed nodeIds edges)" for i
    using degrees_result [of nodeIds edges i] d by simp
  ultimately have roots: "set ?roots = roots_of nodeIds edges" by (simp add: roots_of_def)
  show ?thesis
  proof (cases "?roots = []")
    case True
    with roots have "roots_of nodeIds edges = {}" by simp
    with False True d show ?thesis by (simp add: pickRootSubtreeNodeIds_def)
  next
    case nonempty: False
    with roots have "roots_of nodeIds edges \<noteq> {}" by (metis set_empty)
    with False nonempty d show ?thesis
      by (simp add: pickRootSubtreeNodeIds_def subtree_within out roots [simplified])
  qed
qed

lemma by_length_sort: "comparator UNIV by_length"
  by unfold_locales (auto simp: by_length_def)

lemma largest_component:
  assumes "edges_within nodeIds edges" and "nodeIds \<noteq> []"
  shows "pickLargestLinkedComponentIds nodeIds edges \<noteq> []" "set (pickLargestLinkedComponentIds nodeIds edges) \<subseteq> set nodeIds"
proof -
  let ?linked = "filter (\<lambda>c. 1 < length c) (findConnectedComponents nodeIds edges)"
  have "hd (js_sort by_length ?linked) \<in> set ?linked" if "?linked \<noteq> []"
    using that by (metis hd_in_set length_0_conv length_js_sort set_js_sort)
  moreover have "set c \<subseteq> set nodeIds" "c \<noteq> []" if "c \<in> set ?linked" for c
    using components_are_connected_classes [OF assms(1)] that by auto
  ultimately show "pickLargestLinkedComponentIds nodeIds edges \<noteq> []" "set (pickLargestLinkedComponentIds nodeIds edges) \<subseteq> set nodeIds"
    using assms(2) unfolding pickLargestLinkedComponentIds_def Let_def by (auto simp del: set_filter)
qed

lemma within_closed: "A \<subseteq> V \<Longrightarrow> R `` V \<subseteq> V \<Longrightarrow> within R A k \<subseteq> V"
  by (induction k) (auto simp: within_Suc, auto simp: within_def)

text \<open>C33: The first view of the decision map always shows some of its cards: all of them up to twenty,
  and on a map of more than sixty with a root exactly the cards that a root leads to by at most two
  links.\<close>

theorem initial_view_shows_cards:
  assumes "edges_within nodeIds edges" and "nodeIds \<noteq> []"
  shows "pickInitialFitNodeIds nodeIds edges \<noteq> [] \<and> set (pickInitialFitNodeIds nodeIds edges) \<subseteq> set nodeIds \<and>
    (length nodeIds \<le> 20 \<longrightarrow> pickInitialFitNodeIds nodeIds edges = nodeIds) \<and>
    (60 < length nodeIds \<and> roots_of nodeIds edges \<noteq> {} \<longrightarrow>
       set (pickInitialFitNodeIds nodeIds edges) = within (directed nodeIds edges) (roots_of nodeIds edges) 2)"
proof -
  have "within (directed nodeIds edges) (roots_of nodeIds edges) 2 \<subseteq> set nodeIds"
    by (rule within_closed) (auto simp: roots_of_def directed_def)
  moreover have "within (directed nodeIds edges) (roots_of nodeIds edges) 2 \<noteq> {}" if "roots_of nodeIds edges \<noteq> {}"
    using within_mono [of 0 2 "directed nodeIds edges" "roots_of nodeIds edges"] that by (auto simp: within_def)
  ultimately have "pickRootSubtreeNodeIds nodeIds edges 2 \<noteq> [] \<and> set (pickRootSubtreeNodeIds nodeIds edges 2) \<subseteq> set nodeIds"
    using root_subtree [of nodeIds edges 2] largest_component [OF assms]
    by (cases "roots_of nodeIds edges = {}") (auto simp: set_empty [symmetric] simp del: set_empty)
  then show ?thesis
    using assms(2) largest_component [OF assms] root_subtree [of nodeIds edges 2]
    by (auto simp: pickInitialFitNodeIds_def Let_def FIT_ALL_MAX_NODES_def FIT_LARGEST_MAX_NODES_def ROOT_SUBTREE_MAX_DEPTH_def)
qed

theorem initial_view_shows_cards_witness:
  "pickInitialFitNodeIds [''1'', ''2''] [\<lparr> edge_source = ''1'', edge_target = ''2'' \<rparr>] = [''1'', ''2'']"
  using initial_view_shows_cards [of "[''1'', ''2'']" "[\<lparr> edge_source = ''1'', edge_target = ''2'' \<rparr>]"]
  by (simp add: edges_within_def)

end
