(* ===== verification/Decision_Layout.thy ===== *)
theory Decision_Layout imports Decision_Graph Js_Number begin

text \<open>
  Where the cards of the decision map stand
  (\<open>src/frontend/src/components/decisions/decisionGraphLayout.ts\<close>, \<open>decisionGraphLayoutEngine.ts\<close> and
  \<open>decisionGraphLayoutStorage.ts\<close>).  The layout engines dagre and ELK are parameters: a function from
  the ids and links of a group to the coordinates of its cards.
\<close>

section \<open>Nodes of the flow chart\<close>

type_synonym point = "rat \<times> rat"

datatype anchor = AnchorLeft | AnchorRight

record flow_node =
  fn_id :: string
  fn_position :: point
  fn_sourcePosition :: "anchor option"
  fn_targetPosition :: "anchor option"

record layout_options =
  nodeWidth :: rat
  nodeHeight :: rat

definition GRID_COLUMNS :: nat where
  "GRID_COLUMNS = 4"

definition GRID_GAP_X :: rat where
  "GRID_GAP_X = 40"

definition GRID_GAP_Y :: rat where
  "GRID_GAP_Y = 40"

definition COMPONENT_GAP :: rat where
  "COMPONENT_GAP = 72"

record bounds =
  minX :: rat
  minY :: rat
  maxX :: rat
  maxY :: rat

definition componentBounds :: "flow_node list \<Rightarrow> layout_options \<Rightarrow> bounds" where
  "componentBounds ns opts =
     (let xs = map (fst \<circ> fn_position) ns; ys = map (snd \<circ> fn_position) ns
      in \<lparr> minX = Min (set xs), minY = Min (set ys), maxX = Max (set xs) + nodeWidth opts,
           maxY = Max (set ys) + nodeHeight opts \<rparr>)"

definition bounds_height :: "bounds \<Rightarrow> rat" where
  "bounds_height b = maxY b - minY b"

definition offsetNodes :: "flow_node list \<Rightarrow> rat \<Rightarrow> rat \<Rightarrow> flow_node list" where
  "offsetNodes ns dx dy = map (\<lambda>n. n\<lparr> fn_position := (fst (fn_position n) + dx, snd (fn_position n) + dy) \<rparr>) ns"

definition serpentine_cell :: "nat \<Rightarrow> nat \<times> nat" where
  "serpentine_cell index =
     (let row = index div GRID_COLUMNS; colInRow = index mod GRID_COLUMNS
      in (if row mod 2 = 0 then colInRow else GRID_COLUMNS - 1 - colInRow, row))"

definition layoutInSerpentine :: "flow_node list \<Rightarrow> rat \<Rightarrow> rat \<Rightarrow> layout_options \<Rightarrow> flow_node list" where
  "layoutInSerpentine ns originX originY opts =
     map (\<lambda>(index, n). case serpentine_cell index of (column, row) \<Rightarrow>
            n\<lparr> fn_position := (originX + of_nat column * (nodeWidth opts + GRID_GAP_X),
                              originY + of_nat row * (nodeHeight opts + GRID_GAP_Y)),
               fn_sourcePosition := Some AnchorRight, fn_targetPosition := Some AnchorLeft \<rparr>)
       (enumerate 0 ns)"

section \<open>The engines\<close>

text \<open>dagre gives each node its centre; ELK gives a list of children with an id and coordinates, no list,
  or fails.  A coordinate may be missing.\<close>

type_synonym dagre = "layout_options \<Rightarrow> string list \<Rightarrow> flow_edge list \<Rightarrow> string \<Rightarrow> (rat option \<times> rat option) option"

type_synonym elk = "layout_options \<Rightarrow> string list \<Rightarrow> flow_edge list \<Rightarrow> (string \<times> rat option \<times> rat option) list option option"

definition centred :: "layout_options \<Rightarrow> rat option \<times> rat option \<Rightarrow> point" where
  "centred opts p = (nullish (fst p) 0 - nodeWidth opts / 2, nullish (snd p) 0 - nodeHeight opts / 2)"

definition anchorPositions :: "flow_node list \<Rightarrow> (string, point) jmap \<Rightarrow> flow_node list" where
  "anchorPositions ns positions =
     map (\<lambda>n. n\<lparr> fn_position := nullish (jmap_get positions (fn_id n)) (fn_position n),
                fn_sourcePosition := Some AnchorRight, fn_targetPosition := Some AnchorLeft \<rparr>) ns"

definition layoutLinkedWithDagre :: "dagre \<Rightarrow> flow_node list \<Rightarrow> flow_edge list \<Rightarrow> layout_options \<Rightarrow> flow_node list" where
  "layoutLinkedWithDagre dagre ns edges opts =
     (let ids = map fn_id ns;
          layout = dagre opts ids (filter (\<lambda>e. edge_source e \<in> set ids \<and> edge_target e \<in> set ids) edges);
          positions = foldl (\<lambda>m n. jmap_set (fn_id n) (centred opts (nullish (layout (fn_id n)) (None, None))) m) [] ns
      in anchorPositions ns positions)"

definition layoutLinkedWithElk ::
  "elk \<Rightarrow> dagre \<Rightarrow> flow_node list \<Rightarrow> flow_edge list \<Rightarrow> layout_options \<Rightarrow> flow_node list" where
  "layoutLinkedWithElk elk dagre ns edges opts =
     (if ns = [] then ns
      else case elk opts (map fn_id ns) edges of
             None \<Rightarrow> layoutLinkedWithDagre dagre ns edges opts
           | Some children \<Rightarrow>
               anchorPositions ns
                 (foldl (\<lambda>m (i, p). if i = [] then m else jmap_set i (centred opts p) m) [] (nullish children [])))"

datatype engine = ELK | Dagre

definition layoutLinkedComponent ::
  "elk \<Rightarrow> dagre \<Rightarrow> flow_node list \<Rightarrow> flow_edge list \<Rightarrow> layout_options \<Rightarrow> engine \<Rightarrow> flow_node list" where
  "layoutLinkedComponent elk dagre ns edges opts engine =
     (if engine = Dagre then layoutLinkedWithDagre dagre ns edges opts
      else layoutLinkedWithElk elk dagre ns edges opts)"

section \<open>Placing all cards\<close>

type_synonym placed_nodes = "(string, flow_node) jmap"

definition node_by_id :: "flow_node list \<Rightarrow> string \<Rightarrow> flow_node option" where
  "node_by_id ns i = jmap_get (foldl (\<lambda>m n. jmap_set (fn_id n) n m) [] ns) i"

definition put_nodes :: "flow_node list \<Rightarrow> placed_nodes \<Rightarrow> placed_nodes" where
  "put_nodes ns m = foldl (\<lambda>m n. jmap_set (fn_id n) n m) m ns"

definition node_order :: "flow_node list \<Rightarrow> string \<Rightarrow> int" where
  "node_order ns i =
     nullish (jmap_get (foldl (\<lambda>m (k, n). jmap_set (fn_id n) (int k) m) [] (enumerate 0 ns)) i) 0"

text \<open>An id in a component without a node makes the code read a property of \<open>undefined\<close>: the result is
  \<open>None\<close>.\<close>

definition place_orphans :: "flow_node list \<Rightarrow> string list \<Rightarrow> layout_options \<Rightarrow> (placed_nodes \<times> rat) option" where
  "place_orphans ns orphanIds opts =
     (if orphanIds = [] then Some ([], 40)
      else case those (map (node_by_id ns) (js_sort (\<lambda>a b. node_order ns a - node_order ns b) orphanIds)) of
             None \<Rightarrow> None
           | Some orphanNodes \<Rightarrow>
               (let rows = ceiling (of_nat (length orphanNodes) / of_nat GRID_COLUMNS :: rat)
                in Some (put_nodes (layoutInSerpentine orphanNodes 40 40 opts) [],
                         40 + (of_int rows * (nodeHeight opts + GRID_GAP_Y) + COMPONENT_GAP))))"

definition place_component ::
  "(flow_node list \<Rightarrow> flow_edge list \<Rightarrow> flow_node list) \<Rightarrow> flow_node list \<Rightarrow> flow_edge list \<Rightarrow> layout_options \<Rightarrow>
     placed_nodes \<times> rat \<Rightarrow> string list \<Rightarrow> (placed_nodes \<times> rat) option" where
  "place_component layout ns edges opts acc componentIds =
     (case those (map (node_by_id ns) componentIds) of
        None \<Rightarrow> None
      | Some componentNodes \<Rightarrow>
          (let componentEdges = filter (\<lambda>e. edge_source e \<in> set componentIds \<and> edge_target e \<in> set componentIds) edges;
               layouted = layout componentNodes componentEdges;
               b = componentBounds layouted opts
           in Some (put_nodes (offsetNodes layouted (40 - minX b) (snd acc - minY b)) (fst acc),
                    snd acc + (bounds_height b + COMPONENT_GAP))))"

fun place_components ::
  "(flow_node list \<Rightarrow> flow_edge list \<Rightarrow> flow_node list) \<Rightarrow> flow_node list \<Rightarrow> flow_edge list \<Rightarrow> layout_options \<Rightarrow>
     placed_nodes \<times> rat \<Rightarrow> string list list \<Rightarrow> (placed_nodes \<times> rat) option" where
  "place_components layout ns edges opts acc [] = Some acc"
| "place_components layout ns edges opts acc (c # cs) =
     (case place_component layout ns edges opts acc c of
        None \<Rightarrow> None
      | Some acc' \<Rightarrow> place_components layout ns edges opts acc' cs)"

definition layout_groups ::
  "(flow_node list \<Rightarrow> flow_edge list \<Rightarrow> flow_node list) \<Rightarrow> flow_node list \<Rightarrow> flow_edge list \<Rightarrow> layout_options \<Rightarrow>
     flow_node list option" where
  "layout_groups layout ns edges opts =
     (if ns = [] then Some ns
      else let components = findConnectedComponents (map fn_id ns) edges;
               orphanIds = map hd (filter (\<lambda>c. length c = 1) components);
               linked = js_sort by_length (filter (\<lambda>c. length c \<noteq> 1) components)
           in case place_orphans ns orphanIds opts of
                None \<Rightarrow> None
              | Some acc \<Rightarrow>
                  map_option (\<lambda>acc'. map (\<lambda>n. nullish (jmap_get (fst acc') (fn_id n)) n) ns)
                    (place_components layout ns edges opts acc linked))"

definition layoutLinkedGroups ::
  "elk \<Rightarrow> dagre \<Rightarrow> flow_node list \<Rightarrow> flow_edge list \<Rightarrow> layout_options \<Rightarrow> engine \<Rightarrow> flow_node list option" where
  "layoutLinkedGroups elk dagre ns edges opts engine =
     layout_groups (\<lambda>cn ce. layoutLinkedComponent elk dagre cn ce opts engine) ns edges opts"

definition layoutLinkedWithDagreOnlyGraph ::
  "dagre \<Rightarrow> flow_node list \<Rightarrow> flow_edge list \<Rightarrow> layout_options \<Rightarrow> flow_node list option" where
  "layoutLinkedWithDagreOnlyGraph dagre ns edges opts =
     layout_groups (\<lambda>cn ce. layoutLinkedWithDagre dagre cn ce opts) ns edges opts"

section \<open>Cards the user has moved\<close>

type_synonym saved_positions = "point obj"

definition positionsFromNodes :: "flow_node list \<Rightarrow> saved_positions" where
  "positionsFromNodes ns = foldl (\<lambda>ps n. obj_set (str_key (fn_id n)) (fn_position n) ps) [] ns"

definition applySavedPositions :: "flow_node list \<Rightarrow> saved_positions option \<Rightarrow> flow_node list" where
  "applySavedPositions ns saved =
     (case saved of
        None \<Rightarrow> ns
      | Some ps \<Rightarrow> map (\<lambda>n. case obj_get ps (str_key (fn_id n)) of None \<Rightarrow> n | Some p \<Rightarrow> n\<lparr> fn_position := p \<rparr>) ns)"

type_synonym places = "(string, point) jmap"

definition has_place :: "places \<Rightarrow> string \<Rightarrow> bool" where
  "has_place placed i \<longleftrightarrow> jmap_get placed i \<noteq> None"

definition place_of :: "places \<Rightarrow> string \<Rightarrow> point" where
  "place_of placed i = the (jmap_get placed i)"

definition string_cmp :: "string \<Rightarrow> string \<Rightarrow> int" where
  "string_cmp a b = (if a = b then 0 else if string_le a b then - 1 else 1)"

text \<open>One card: beside a placed parent, else beside a placed child, else not yet.\<close>

definition place_beside :: "flow_edge list \<Rightarrow> rat \<Rightarrow> rat \<Rightarrow> string list \<Rightarrow> places \<Rightarrow> string \<Rightarrow> point option" where
  "place_beside edges hGap vGap unpinned placed i =
     (case map edge_source (filter (\<lambda>e. edge_target e = i \<and> has_place placed (edge_source e)) edges) of
        parentId # _ \<Rightarrow>
          (let parentPos = place_of placed parentId;
               childTargets = js_sort string_cmp
                 (filter (\<lambda>t. t \<in> set unpinned \<or> has_place placed t)
                    (map edge_target (filter (\<lambda>e. edge_source e = parentId) edges)));
               siblingIndex = (case find_index (\<lambda>t. t = i) childTargets of None \<Rightarrow> 0 | Some k \<Rightarrow> k)
           in Some (fst parentPos + hGap, snd parentPos + of_nat siblingIndex * vGap))
      | [] \<Rightarrow>
          (case map edge_target (filter (\<lambda>e. edge_source e = i \<and> has_place placed (edge_target e)) edges) of
             childId # _ \<Rightarrow> (let childPos = place_of placed childId in Some (fst childPos - hGap, snd childPos))
           | [] \<Rightarrow> None))"

fun place_pass ::
  "flow_edge list \<Rightarrow> rat \<Rightarrow> rat \<Rightarrow> string list \<Rightarrow> string list \<Rightarrow> places \<times> bool \<Rightarrow> places \<times> bool" where
  "place_pass edges hGap vGap unpinned [] acc = acc"
| "place_pass edges hGap vGap unpinned (i # is) (placed, progress) =
     place_pass edges hGap vGap unpinned is
       (if has_place placed i then (placed, progress)
        else case place_beside edges hGap vGap unpinned placed i of
               None \<Rightarrow> (placed, progress)
             | Some p \<Rightarrow> (jmap_set i p placed, True))"

lemma pass_keeps: "place_pass edges hGap vGap unpinned is (placed, progress) = (placed', progress') \<Longrightarrow>
  has_place placed k \<Longrightarrow> jmap_get placed' k = jmap_get placed k"
proof (induction "is" arbitrary: placed progress)
  case (Cons i "is")
  show ?case
  proof (cases "has_place placed i")
    case True
    with Cons show ?thesis by simp
  next
    case False
    show ?thesis
    proof (cases "place_beside edges hGap vGap unpinned placed i")
      case None
      with False Cons show ?thesis by simp
    next
      case (Some p)
      have "k \<noteq> i" using False Cons.prems(2) by auto
      with Cons.IH [of "jmap_set i p placed" True] Cons.prems False Some show ?thesis
        by (simp add: has_place_def jmap_get_set)
    qed
  qed
qed simp

lemma pass_progress: "place_pass edges hGap vGap unpinned is (placed, False) = (placed', True) \<Longrightarrow>
  \<exists>i \<in> set is. \<not> has_place placed i \<and> has_place placed' i"
proof (induction "is" arbitrary: placed)
  case (Cons i "is")
  show ?case
  proof (cases "has_place placed i \<or> place_beside edges hGap vGap unpinned placed i = None")
    case True
    with Cons.prems have "place_pass edges hGap vGap unpinned is (placed, False) = (placed', True)"
      by (auto split: if_splits)
    with Cons.IH show ?thesis by auto
  next
    case False
    then obtain p where "place_beside edges hGap vGap unpinned placed i = Some p" by auto
    with False Cons.prems have "place_pass edges hGap vGap unpinned is (jmap_set i p placed, True) = (placed', True)" by simp
    from pass_keeps [OF this, of i] False show ?thesis by (auto simp: has_place_def jmap_get_set)
  qed
qed simp

function place_loop :: "flow_edge list \<Rightarrow> rat \<Rightarrow> rat \<Rightarrow> string list \<Rightarrow> places \<Rightarrow> places" where
  "place_loop edges hGap vGap unpinned placed =
     (case place_pass edges hGap vGap unpinned unpinned (placed, False) of
        (placed', progress) \<Rightarrow> if progress then place_loop edges hGap vGap unpinned placed' else placed')"
  by pat_completeness auto
termination
proof (relation "measure (\<lambda>(_, _, _, unpinned, placed). card {i \<in> set unpinned. \<not> has_place placed i})", goal_cases)
  case (2 edges hGap vGap unpinned placed placed' progress)
  then have run: "place_pass edges hGap vGap unpinned unpinned (placed, False) = (placed', True)" by simp
  have "has_place placed' k" if "has_place placed k" for k
    using pass_keeps [OF run that] that by (simp add: has_place_def)
  then have "{i \<in> set unpinned. \<not> has_place placed' i} \<subset> {i \<in> set unpinned. \<not> has_place placed i}"
    using pass_progress [OF run] by blast
  then show ?case by (simp add: psubset_card_mono)
qed simp

text \<open>The defining equation is used one step at a time.\<close>

declare place_loop.simps [simp del]

definition mergePinnedLayout ::
  "flow_node list \<Rightarrow> flow_edge list \<Rightarrow> flow_node list \<Rightarrow> saved_positions option \<Rightarrow> layout_options \<Rightarrow> flow_node list" where
  "mergePinnedLayout ns edges autoLayoutNodes pinnedPositions opts =
     (case pinnedPositions of
        None \<Rightarrow> autoLayoutNodes
      | Some pinned \<Rightarrow>
          if pinned = [] then autoLayoutNodes
          else
           (let autoById = foldl (\<lambda>m n. jmap_set (fn_id n) (fn_position n) m) [] autoLayoutNodes;
                placed0 = foldl (\<lambda>m n. case obj_get pinned (str_key (fn_id n)) of None \<Rightarrow> m | Some p \<Rightarrow> jmap_set (fn_id n) p m) [] ns;
                unpinnedIds = map fn_id (filter (\<lambda>n. \<not> has_place placed0 (fn_id n)) ns)
            in if unpinnedIds = []
               then map (\<lambda>n. n\<lparr> fn_position := nullish (jmap_get placed0 (fn_id n)) (fn_position n) \<rparr>) ns
               else
                (let hGap = nodeWidth opts + GRID_GAP_X; vGap = nodeHeight opts + GRID_GAP_Y;
                     inScope = (\<lambda>i. i \<in> set unpinnedIds \<or> has_place placed0 i);
                     componentEdges = filter (\<lambda>e. inScope (edge_source e) \<and> inScope (edge_target e)) edges;
                     placed1 = place_loop componentEdges hGap vGap unpinnedIds placed0;
                     placed2 = foldl (\<lambda>m i. if has_place m i then m else jmap_set i (nullish (jmap_get autoById i) (0, 0)) m)
                                 placed1 unpinnedIds
                 in map (\<lambda>n. n\<lparr> fn_position := nullish (jmap_get placed2 (fn_id n))
                                                  (nullish (jmap_get autoById (fn_id n)) (fn_position n)) \<rparr>) ns)))"

definition finalizeLayout ::
  "flow_node list \<Rightarrow> flow_edge list \<Rightarrow> flow_node list \<Rightarrow> saved_positions option \<Rightarrow> layout_options option \<Rightarrow> flow_node list" where
  "finalizeLayout ns edges autoLayout pinnedPositions options =
     (case (pinnedPositions, options) of
        (Some pinned, Some opts) \<Rightarrow>
          if pinned = [] then autoLayout else mergePinnedLayout ns edges autoLayout (Some pinned) opts
      | _ \<Rightarrow> autoLayout)"

definition layoutDecisionGraphNodes ::
  "dagre \<Rightarrow> flow_node list \<Rightarrow> flow_edge list \<Rightarrow> layout_options \<Rightarrow> saved_positions option \<Rightarrow> flow_node list option" where
  "layoutDecisionGraphNodes dagre ns edges opts pinnedPositions =
     map_option (\<lambda>autoLayout. finalizeLayout ns edges autoLayout pinnedPositions (Some opts))
       (layoutLinkedWithDagreOnlyGraph dagre ns edges opts)"

definition layoutDecisionGraphNodesAsync ::
  "elk \<Rightarrow> dagre \<Rightarrow> flow_node list \<Rightarrow> flow_edge list \<Rightarrow> layout_options \<Rightarrow> saved_positions option \<Rightarrow> flow_node list option" where
  "layoutDecisionGraphNodesAsync elk dagre ns edges opts pinnedPositions =
     map_option (\<lambda>autoLayout. finalizeLayout ns edges autoLayout pinnedPositions (Some opts))
       (layoutLinkedGroups elk dagre ns edges opts ELK)"

section \<open>Cards do not overlap\<close>

definition apart :: "layout_options \<Rightarrow> point \<Rightarrow> point \<Rightarrow> bool" where
  "apart opts p q \<longleftrightarrow> \<bar>fst p - fst q\<bar> \<ge> nodeWidth opts \<or> \<bar>snd p - snd q\<bar> \<ge> nodeHeight opts"

definition real_cards :: "layout_options \<Rightarrow> bool" where
  "real_cards opts \<longleftrightarrow> 0 \<le> nodeWidth opts \<and> 0 \<le> nodeHeight opts"

text \<open>What the engines promise: the cards of a group are apart.\<close>

definition dagre_separates :: "dagre \<Rightarrow> layout_options \<Rightarrow> bool" where
  "dagre_separates dagre opts \<longleftrightarrow> (\<forall>ids edges i j. distinct ids \<longrightarrow> i \<in> set ids \<longrightarrow> j \<in> set ids \<longrightarrow> i \<noteq> j \<longrightarrow>
     apart opts (centred opts (nullish (dagre opts ids edges i) (None, None)))
                (centred opts (nullish (dagre opts ids edges j) (None, None))))"

end
