(* ===== verification/Decision_Cards.thy ===== *)
theory Decision_Cards imports Decision_Layout begin

text \<open>
  What the layout of the decision map shows: the automatic layout puts no card on another, and with cards
  the user has moved every moved card stays where it was put and the others stand beside their neighbours.
\<close>

declare split_paired_All [simp del] split_paired_Ex [simp del]

section \<open>Nodes by id\<close>

lemma ids_image: "map f xs = ys \<Longrightarrow> f ` set xs = set ys"
  by auto

lemma node_by_id_known:
  assumes "i \<in> fn_id ` set ns"
  shows "\<exists>n. node_by_id ns i = Some n \<and> n \<in> set ns \<and> fn_id n = i"
proof -
  obtain n where n: "node_by_id ns i = Some n"
    using filled_some [OF assms, of "\<lambda>n. n" "[]"] by (auto simp: node_by_id_def)
  then have "\<exists>m \<in> set ns. fn_id m = i \<and> m = n"
    using filled_from [of fn_id "\<lambda>n. n" "[]" ns i n] by (simp add: node_by_id_def md.get_emp)
  with n show ?thesis by auto
qed

lemma nodes_of_ids: "set ids \<subseteq> fn_id ` set ns \<Longrightarrow> \<exists>cn. those (map (node_by_id ns) ids) = Some cn \<and> map fn_id cn = ids"
proof (induction ids)
  case (Cons i ids)
  then obtain cn where "those (map (node_by_id ns) ids) = Some cn" "map fn_id cn = ids" by auto
  moreover obtain n where "node_by_id ns i = Some n" "fn_id n = i" using Cons.prems node_by_id_known [of i ns] by auto
  ultimately show ?case by auto
qed simp

section \<open>Cards apart\<close>

definition all_apart :: "layout_options \<Rightarrow> flow_node list \<Rightarrow> bool" where
  "all_apart opts ns \<longleftrightarrow> (\<forall>n \<in> set ns. \<forall>m \<in> set ns. fn_id n \<noteq> fn_id m \<longrightarrow> apart opts (fn_position n) (fn_position m))"

lemma apart_sym: "apart opts p q \<longleftrightarrow> apart opts q p"
  by (auto simp: apart_def abs_minus_commute)

text \<open>The serpentine.\<close>

lemma serpentine_inj: "serpentine_cell i = serpentine_cell j \<Longrightarrow> i = j"
proof -
  assume eq: "serpentine_cell i = serpentine_cell j"
  then have row: "i div 4 = j div 4" by (simp add: serpentine_cell_def Let_def GRID_COLUMNS_def)
  moreover have "i mod 4 < 4" "j mod 4 < 4" by simp_all
  ultimately have "i mod 4 = j mod 4" using eq
    by (simp add: serpentine_cell_def Let_def GRID_COLUMNS_def split: if_splits) linarith
  with row show "i = j" by (metis div_mult_mod_eq)
qed

definition cell_position :: "rat \<Rightarrow> rat \<Rightarrow> layout_options \<Rightarrow> nat \<Rightarrow> point" where
  "cell_position x y opts index =
     (x + of_nat (fst (serpentine_cell index)) * (nodeWidth opts + GRID_GAP_X),
      y + of_nat (snd (serpentine_cell index)) * (nodeHeight opts + GRID_GAP_Y))"

lemma ids_serpentine [simp]: "map fn_id (layoutInSerpentine ns x y opts) = map fn_id ns"
  by (rule nth_equalityI) (simp_all add: layoutInSerpentine_def nth_enumerate_eq split_beta)

lemma nth_serpentine: "k < length ns \<Longrightarrow> fn_position (layoutInSerpentine ns x y opts ! k) = cell_position x y opts k"
  by (simp add: layoutInSerpentine_def cell_position_def nth_enumerate_eq split_beta)

lemma length_serpentine [simp]: "length (layoutInSerpentine ns x y opts) = length ns"
  by (simp add: layoutInSerpentine_def)

lemma cells_apart:
  assumes "real_cards opts" and "i \<noteq> j"
  shows "apart opts (cell_position x y opts i) (cell_position x y opts j)"
proof -
  have far: "w \<le> \<bar>of_nat a * (w + 40) - of_nat b * (w + 40)\<bar>" if "a \<noteq> b" and "0 \<le> w" for a b :: nat and w :: rat
  proof -
    have "(1::rat) \<le> \<bar>of_nat a - of_nat b\<bar>" using that(1)
      by (cases a b rule: linorder_cases) (auto simp: abs_if of_nat_diff [symmetric] simp del: of_nat_diff)
    then have "1 * (w + 40) \<le> \<bar>of_nat a - of_nat b\<bar> * (w + 40)" using that(2) by (intro mult_right_mono) auto
    from order_trans [OF _ this, of w] have "w \<le> \<bar>of_nat a - of_nat b\<bar> * (w + 40)" by simp
    then show ?thesis using that(2) by (simp add: left_diff_distrib [symmetric] abs_mult)
  qed
  have "serpentine_cell i \<noteq> serpentine_cell j" using serpentine_inj assms(2) by blast
  then have "fst (serpentine_cell i) \<noteq> fst (serpentine_cell j) \<or> snd (serpentine_cell i) \<noteq> snd (serpentine_cell j)"
    by (simp add: prod_eq_iff)
  then show ?thesis
    using far assms(1) by (auto simp: apart_def cell_position_def real_cards_def GRID_GAP_X_def GRID_GAP_Y_def)
qed

lemma serpentine_apart:
  assumes "real_cards opts" and "distinct (map fn_id ns)"
  shows "all_apart opts (layoutInSerpentine ns x y opts)"
proof -
  have "apart opts (fn_position (layoutInSerpentine ns x y opts ! i)) (fn_position (layoutInSerpentine ns x y opts ! j))"
    if "i < length ns" "j < length ns" "i \<noteq> j" for i j
    using that cells_apart [OF assms(1) that(3)] by (simp add: nth_serpentine)
  then show ?thesis unfolding all_apart_def by (metis in_set_conv_nth length_serpentine)
qed

text \<open>A group layout keeps what it is given when the group is moved.\<close>

lemma offset_ids [simp]: "map fn_id (offsetNodes ns dx dy) = map fn_id ns"
  by (simp add: offsetNodes_def)

lemma offset_apart: "all_apart opts ns \<Longrightarrow> all_apart opts (offsetNodes ns dx dy)"
  by (auto simp: all_apart_def offsetNodes_def apart_def)

section \<open>All cards placed so far\<close>

text \<open>The cards in \<open>D\<close> are placed, apart from each other and above the line \<open>y\<close>.\<close>

definition placed_ok :: "layout_options \<Rightarrow> placed_nodes \<times> rat \<Rightarrow> string set \<Rightarrow> bool" where
  "placed_ok opts acc D \<longleftrightarrow>
     (\<forall>i. jmap_get (fst acc) i = None \<longleftrightarrow> i \<notin> D) \<and>
     (\<forall>i n. jmap_get (fst acc) i = Some n \<longrightarrow> fn_id n = i \<and> snd (fn_position n) + nodeHeight opts \<le> snd acc) \<and>
     (\<forall>i j n m. jmap_get (fst acc) i = Some n \<longrightarrow> jmap_get (fst acc) j = Some m \<longrightarrow> i \<noteq> j \<longrightarrow>
        apart opts (fn_position n) (fn_position m))"

lemma placed_empty: "placed_ok opts ([], y) {}"
  by (simp add: placed_ok_def md.get_emp)

lemma put_node: "distinct (map fn_id ns) \<Longrightarrow> n \<in> set ns \<Longrightarrow> jmap_get (put_nodes ns m) (fn_id n) = Some n"
  unfolding put_nodes_def by (rule filled)

lemma put_other: "i \<notin> fn_id ` set ns \<Longrightarrow> jmap_get (put_nodes ns m) i = jmap_get m i"
  unfolding put_nodes_def by (rule filled_other)

lemma put_nodes_below:
  assumes placed: "placed_ok opts (m, y) D" and fresh: "distinct (map fn_id ns)" "fn_id ` set ns \<inter> D = {}"
    and "all_apart opts ns" and below: "\<forall>n \<in> set ns. y \<le> snd (fn_position n) \<and> snd (fn_position n) + nodeHeight opts \<le> y'"
    and "y \<le> y'"
  shows "placed_ok opts (put_nodes ns m, y') (D \<union> fn_id ` set ns)"
proof -
  have got: "n \<in> set ns \<and> fn_id n = i \<or> i \<notin> fn_id ` set ns \<and> jmap_get m i = Some n"
    if "jmap_get (put_nodes ns m) i = Some n" for i n
    using that put_node [OF fresh(1)] put_other [of i ns m] by (cases "i \<in> fn_id ` set ns") auto
  have mixed: "apart opts (fn_position n) (fn_position n')" if "n \<in> set ns" and "jmap_get m j = Some n'" for n n' j
  proof -
    have "snd (fn_position n') + nodeHeight opts \<le> y" using placed that(2) by (auto simp: placed_ok_def)
    moreover have "y \<le> snd (fn_position n)" using below that(1) by simp
    ultimately show ?thesis by (simp add: apart_def abs_if)
  qed
  have "jmap_get (put_nodes ns m) i = None \<longleftrightarrow> i \<notin> D \<union> fn_id ` set ns" for i
    using put_node [OF fresh(1), of _ m] put_other [of i ns m] placed
    by (cases "i \<in> fn_id ` set ns") (auto simp: placed_ok_def)
  moreover have "fn_id n = i \<and> snd (fn_position n) + nodeHeight opts \<le> y'" if "jmap_get (put_nodes ns m) i = Some n" for i n
    using got [OF that] below placed assms(6) by (force simp: placed_ok_def)
  moreover have "apart opts (fn_position n) (fn_position n')"
    if "jmap_get (put_nodes ns m) i = Some n" "jmap_get (put_nodes ns m) j = Some n'" "i \<noteq> j" for i j n n'
    using got [OF that(1)] got [OF that(2)] that(3) mixed apart_sym placed assms(4)
    unfolding placed_ok_def all_apart_def by (metis fst_conv)
  ultimately show ?thesis by (simp add: placed_ok_def)
qed

lemma rows_enough: "k < n \<Longrightarrow> of_nat (k div GRID_COLUMNS) + 1 \<le> (of_int (ceiling (of_nat n / of_nat GRID_COLUMNS :: rat)) :: rat)"
proof -
  assume "k < n"
  have "k div 4 * 4 < n" using \<open>k < n\<close> by (meson div_times_less_eq_dividend le_less_trans)
  then have "of_nat (k div 4) * 4 < (of_nat n :: rat)" by (metis of_nat_less_iff of_nat_mult of_nat_numeral)
  then have "of_int (int (k div 4)) < (of_nat n / 4 :: rat)" by (simp add: field_simps)
  then have "int (k div 4) < ceiling (of_nat n / 4 :: rat)" by (simp only: less_ceiling_iff)
  then have "int (k div 4) + 1 \<le> ceiling (of_nat n / 4 :: rat)" by simp
  then have "(of_int (int (k div 4) + 1) :: rat) \<le> of_int (ceiling (of_nat n / 4 :: rat))" by (simp only: of_int_le_iff)
  then show ?thesis by (simp add: GRID_COLUMNS_def)
qed

lemma place_orphans_ok:
  assumes cards: "real_cards opts" and ids: "distinct orphanIds" "set orphanIds \<subseteq> fn_id ` set ns"
  shows "\<exists>acc. place_orphans ns orphanIds opts = Some acc \<and> placed_ok opts acc (set orphanIds)"
proof (cases "orphanIds = []")
  case True
  then show ?thesis by (simp add: place_orphans_def placed_empty)
next
  case False
  let ?ids = "js_sort (\<lambda>a b. node_order ns a - node_order ns b) orphanIds"
  obtain cn where cn: "those (map (node_by_id ns) ?ids) = Some cn" "map fn_id cn = ?ids"
    using nodes_of_ids [of ?ids ns] ids(2) by auto
  let ?laid = "layoutInSerpentine cn 40 40 opts"
  let ?rows = "of_int (ceiling (of_nat (length cn) / of_nat GRID_COLUMNS :: rat)) :: rat"
  let ?y = "40 + (?rows * (nodeHeight opts + GRID_GAP_Y) + COMPONENT_GAP)"
  have dist: "distinct (map fn_id cn)" using ids(1) cn(2) by (metis mset_js_sort mset_eq_imp_distinct_iff)
  have h: "0 \<le> nodeHeight opts" using cards by (simp add: real_cards_def)
  have cell: "40 \<le> snd (cell_position 40 40 opts k) \<and> snd (cell_position 40 40 opts k) + nodeHeight opts \<le> ?y"
    if "k < length cn" for k
  proof -
    have "(of_nat (k div GRID_COLUMNS) + 1) * (nodeHeight opts + GRID_GAP_Y) \<le> ?rows * (nodeHeight opts + GRID_GAP_Y)"
      using rows_enough [OF that] h by (intro mult_right_mono) (simp_all add: GRID_GAP_Y_def)
    moreover have "0 \<le> of_nat (k div GRID_COLUMNS) * (nodeHeight opts + GRID_GAP_Y)"
      using h by (simp add: GRID_GAP_Y_def)
    ultimately show ?thesis
      by (simp add: cell_position_def serpentine_cell_def Let_def COMPONENT_GAP_def GRID_GAP_Y_def distrib_right)
  qed
  have "40 \<le> snd (fn_position n) \<and> snd (fn_position n) + nodeHeight opts \<le> ?y" if "n \<in> set ?laid" for n
    using that cell by (metis in_set_conv_nth length_serpentine nth_serpentine)
  moreover have "40 \<le> ?y"
    using cell [of 0] cn(2) False h by (cases cn) (auto simp: COMPONENT_GAP_def)
  ultimately have "placed_ok opts (put_nodes ?laid [], ?y) ({} \<union> fn_id ` set ?laid)"
    using dist serpentine_apart [OF cards dist] by (intro put_nodes_below [OF placed_empty [of opts 40]]) auto
  moreover have "fn_id ` set ?laid = set orphanIds"
    using ids_image [OF ids_serpentine [of cn 40 40 opts]] ids_image [OF cn(2)] by (simp del: ids_serpentine)
  ultimately show ?thesis using False cn by (simp add: place_orphans_def)
qed

text \<open>What a group layout has to do: keep the nodes and their order, and put them apart.\<close>

definition separates :: "(flow_node list \<Rightarrow> flow_edge list \<Rightarrow> flow_node list) \<Rightarrow> layout_options \<Rightarrow> string set \<Rightarrow> bool" where
  "separates layout opts I \<longleftrightarrow> (\<forall>ns edges. distinct (map fn_id ns) \<and> fn_id ` set ns \<subseteq> I \<longrightarrow>
     map fn_id (layout ns edges) = map fn_id ns \<and> all_apart opts (layout ns edges))"

lemma place_component_ok:
  assumes cards: "real_cards opts" and layout: "separates layout opts I" and c: "distinct c" "c \<noteq> []"
    "set c \<subseteq> fn_id ` set ns" "set c \<subseteq> I" "set c \<inter> D = {}" and placed: "placed_ok opts acc D"
  shows "\<exists>acc'. place_component layout ns edges opts acc c = Some acc' \<and> placed_ok opts acc' (D \<union> set c)"
proof -
  obtain m y where acc: "acc = (m, y)" by force
  obtain cn where cn: "those (map (node_by_id ns) c) = Some cn" "map fn_id cn = c" using nodes_of_ids [OF c(3)] by auto
  let ?laid = "layout cn (filter (\<lambda>e. edge_source e \<in> set c \<and> edge_target e \<in> set c) edges)"
  let ?b = "componentBounds ?laid opts"
  let ?moved = "offsetNodes ?laid (40 - minX ?b) (y - minY ?b)"
  have cn_ids: "fn_id ` set cn = set c" by (rule ids_image [OF cn(2)])
  then have laid: "map fn_id ?laid = c" "all_apart opts ?laid"
    using layout cn(2) c(1,4) by (simp_all add: separates_def)
  then have ids: "map fn_id ?moved = c" by simp
  have inside: "minY ?b \<le> snd (fn_position n) \<and> snd (fn_position n) + nodeHeight opts \<le> maxY ?b" if "n \<in> set ?laid" for n
    using that by (simp add: componentBounds_def Let_def)
  have fit: "\<forall>n \<in> set ?moved. y \<le> snd (fn_position n) \<and>
      snd (fn_position n) + nodeHeight opts \<le> y + (bounds_height ?b + COMPONENT_GAP)"
    using inside by (fastforce simp: offsetNodes_def bounds_height_def COMPONENT_GAP_def)
  moreover obtain n where "n \<in> set ?moved" using ids c(2) by (cases ?moved) auto
  ultimately have "y \<le> y + (bounds_height ?b + COMPONENT_GAP)" using cards by (fastforce simp: real_cards_def)
  moreover have "fn_id ` set ?moved = set c" by (rule ids_image [OF ids])
  ultimately have "placed_ok opts (put_nodes ?moved m, y + (bounds_height ?b + COMPONENT_GAP)) (D \<union> set c)"
    using put_nodes_below [of opts m y D ?moved "y + (bounds_height ?b + COMPONENT_GAP)"] placed acc ids c(1,5)
      offset_apart [OF laid(2)] fit by simp
  with cn(1) acc show ?thesis by (simp add: place_component_def Let_def)
qed

lemma place_components_ok:
  assumes "real_cards opts" and "separates layout opts I" and "distinct (concat cs)" and "\<forall>c \<in> set cs. c \<noteq> []"
    and "set (concat cs) \<subseteq> fn_id ` set ns \<inter> I" and "set (concat cs) \<inter> D = {}" and "placed_ok opts acc D"
  shows "\<exists>acc'. place_components layout ns edges opts acc cs = Some acc' \<and> placed_ok opts acc' (D \<union> set (concat cs))"
  using assms(3-)
proof (induction cs arbitrary: acc D)
  case (Cons c cs)
  then have "set c \<inter> D = {}" by auto
  with Cons.prems obtain acc' where
    acc': "place_component layout ns edges opts acc c = Some acc'" "placed_ok opts acc' (D \<union> set c)"
    using place_component_ok [OF assms(1,2), of c ns D acc edges] by (auto simp del: split_paired_Ex)
  have "set (concat cs) \<inter> (D \<union> set c) = {}" using Cons.prems(1,4) by auto
  with Cons.prems Cons.IH [OF _ _ _ _ acc'(2)] acc'(1) show ?case by (simp add: Un_assoc)
qed simp

text \<open>Single cards and linked components together are all cards, each once.\<close>

lemma mset_concat_sort: "mset (concat (js_sort cmp cs)) = mset (concat cs)"
proof -
  have "mset (concat xs) = \<Sum>\<^sub># (image_mset mset (mset xs))" for xs :: "'a list list"
    by (induction xs) auto
  then show ?thesis by simp
qed

lemma singles: "\<forall>c \<in> set cs. length c = 1 \<Longrightarrow> map hd cs = concat cs"
proof (induction cs)
  case (Cons c cs)
  then show ?case by (cases c) auto
qed simp

lemma mset_groups:
  "mset (map hd (filter (\<lambda>c. length c = 1) cs) @ concat (js_sort cmp (filter (\<lambda>c. length c \<noteq> 1) cs))) = mset (concat cs)"
proof -
  have "mset (concat (filter P cs)) + mset (concat (filter (\<lambda>c. \<not> P c) cs)) = mset (concat cs)" for P
    by (induction cs) auto
  from this [of "\<lambda>c. length c = 1"] show ?thesis by (simp add: mset_concat_sort singles)
qed

lemma layout_groups_apart:
  assumes cards: "real_cards opts" and ids: "distinct (map fn_id ns)" and edges: "edges_within (map fn_id ns) edges"
    and layout: "separates layout opts (fn_id ` set ns)"
  shows "\<exists>out. layout_groups layout ns edges opts = Some out \<and> map fn_id out = map fn_id ns \<and> all_apart opts out"
proof (cases "ns = []")
  case True
  then show ?thesis by (simp add: layout_groups_def all_apart_def)
next
  case False
  let ?cs = "findConnectedComponents (map fn_id ns) edges"
  let ?orphans = "map hd (filter (\<lambda>c. length c = 1) ?cs)"
  let ?linked = "js_sort by_length (filter (\<lambda>c. length c \<noteq> 1) ?cs)"
  have cs: "distinct (concat ?cs)" "set (concat ?cs) = fn_id ` set ns" "\<forall>c \<in> set ?cs. c \<noteq> []"
    using components_are_connected_classes [OF edges] by auto
  have dist: "distinct (?orphans @ concat ?linked)"
    using mset_groups [of ?cs by_length] cs(1) mset_eq_imp_distinct_iff by blast
  have all: "set ?orphans \<union> set (concat ?linked) = fn_id ` set ns"
    using mset_eq_setD [OF mset_groups [of ?cs by_length]] cs(2) by (simp only: set_append)
  have "distinct ?orphans" "set ?orphans \<subseteq> fn_id ` set ns" using dist all by (simp_all only: distinct_append) blast
  from place_orphans_ok [OF cards this] obtain acc where
    acc: "place_orphans ns ?orphans opts = Some acc" "placed_ok opts acc (set ?orphans)" by blast
  have "distinct (concat ?linked)" "set (concat ?linked) \<inter> set ?orphans = {}" "set (concat ?linked) \<subseteq> fn_id ` set ns \<inter> fn_id ` set ns"
    using dist all by (simp_all only: distinct_append) auto
  moreover have "\<forall>c \<in> set ?linked. c \<noteq> []" using cs(3) by simp
  ultimately obtain acc' where acc': "place_components layout ns edges opts acc ?linked = Some acc'"
      "placed_ok opts acc' (fn_id ` set ns)"
    using place_components_ok [OF cards layout, of ?linked ns "set ?orphans" acc edges] acc(2) all by metis
  let ?out = "map (\<lambda>n. nullish (jmap_get (fst acc') (fn_id n)) n) ns"
  have out: "\<exists>m. jmap_get (fst acc') (fn_id n) = Some m \<and> fn_id m = fn_id n" if "n \<in> set ns" for n
    using acc'(2) that unfolding placed_ok_def by (metis image_eqI not_None_eq)
  then have "map fn_id ?out = map fn_id ns" by force
  moreover have "all_apart opts ?out"
    unfolding all_apart_def
  proof (intro ballI impI)
    fix n m assume "n \<in> set ?out" "m \<in> set ?out" and other: "fn_id n \<noteq> fn_id m"
    then have "jmap_get (fst acc') (fn_id n) = Some n" "jmap_get (fst acc') (fn_id m) = Some m"
      using out by force+
    with other acc'(2) show "apart opts (fn_position n) (fn_position m)" unfolding placed_ok_def by metis
  qed
  ultimately show ?thesis using False acc(1) acc'(1) by (simp add: layout_groups_def Let_def)
qed

section \<open>The engines put the cards of a group apart\<close>

lemma anchor_ids [simp]: "map fn_id (anchorPositions ns ps) = map fn_id ns"
  by (simp add: anchorPositions_def)

lemma anchors_apart:
  assumes "\<forall>n \<in> set ns. jmap_get ps (fn_id n) = Some (pos (fn_id n))"
    and "\<forall>n \<in> set ns. \<forall>m \<in> set ns. fn_id n \<noteq> fn_id m \<longrightarrow> apart opts (pos (fn_id n)) (pos (fn_id m))"
  shows "all_apart opts (anchorPositions ns ps)"
  using assms by (auto simp: all_apart_def anchorPositions_def)

lemma dagre_apart:
  assumes "dagre_separates dagre opts" and "distinct (map fn_id ns)"
  shows "all_apart opts (layoutLinkedWithDagre dagre ns edges opts)"
proof -
  let ?within = "filter (\<lambda>e. edge_source e \<in> set (map fn_id ns) \<and> edge_target e \<in> set (map fn_id ns)) edges"
  show ?thesis
    unfolding layoutLinkedWithDagre_def Let_def
    by (rule anchors_apart [where pos = "\<lambda>i. centred opts (nullish (dagre opts (map fn_id ns) ?within i) (None, None))"])
       (use assms in \<open>simp_all add: filled [OF assms(2)] dagre_separates_def\<close>)
qed

definition elk_separates :: "elk \<Rightarrow> layout_options \<Rightarrow> bool" where
  "elk_separates elk opts \<longleftrightarrow> (\<forall>ids edges children. distinct ids \<longrightarrow> elk opts ids edges = Some children \<longrightarrow>
     (\<exists>cs. children = Some cs \<and> map fst cs = ids \<and>
        (\<forall>c \<in> set cs. \<forall>c' \<in> set cs. fst c \<noteq> fst c' \<longrightarrow> apart opts (centred opts (snd c)) (centred opts (snd c')))))"

lemma skip_empty:
  "foldl (\<lambda>m (i, p). if i = [] then m else jmap_set i (f p) m) m cs =
   foldl (\<lambda>m c. jmap_set (fst c) (f (snd c)) m) m (filter (\<lambda>c. fst c \<noteq> []) cs)"
  by (induction cs arbitrary: m) auto

lemma elk_apart:
  assumes "elk_separates elk opts" and "dagre_separates dagre opts" and "distinct (map fn_id ns)" and "[] \<notin> fn_id ` set ns"
  shows "all_apart opts (layoutLinkedWithElk elk dagre ns edges opts)"
proof (cases "elk opts (map fn_id ns) edges")
  case None
  then show ?thesis
    using dagre_apart [OF assms(2,3)] by (simp add: layoutLinkedWithElk_def all_apart_def)
next
  case (Some children)
  with assms(1,3) obtain cs where cs: "children = Some cs" "map fst cs = map fn_id ns"
    "\<forall>c \<in> set cs. \<forall>c' \<in> set cs. fst c \<noteq> fst c' \<longrightarrow> apart opts (centred opts (snd c)) (centred opts (snd c'))"
    unfolding elk_separates_def by meson
  have dist: "distinct (map fst cs)" using cs(2) assms(3) by simp
  have "[] \<notin> fst ` set cs" using ids_image [OF cs(2)] assms(4) by simp
  then have named: "filter (\<lambda>c. fst c \<noteq> []) cs = cs" by (force simp: filter_id_conv)
  have child: "(fn_id n, the (map_of cs (fn_id n))) \<in> set cs" if "n \<in> set ns" for n
  proof -
    have "fn_id n \<in> fst ` set cs" using ids_image [OF cs(2)] that by simp
    then show ?thesis using dist by (force simp: map_of_eq_Some_iff)
  qed
  have "all_apart opts (anchorPositions ns (foldl (\<lambda>m c. jmap_set (fst c) (centred opts (snd c)) m) [] cs))"
  proof (rule anchors_apart [where pos = "\<lambda>i. centred opts (the (map_of cs i))"], intro ballI)
    fix n assume "n \<in> set ns"
    from filled [OF dist child [OF this], of "\<lambda>c. centred opts (snd c)" "[]"]
    show "jmap_get (foldl (\<lambda>m c. jmap_set (fst c) (centred opts (snd c)) m) [] cs) (fn_id n) =
        Some (centred opts (the (map_of cs (fn_id n))))" by simp
  next
    show "\<forall>n\<in>set ns. \<forall>m\<in>set ns. fn_id n \<noteq> fn_id m \<longrightarrow>
        apart opts (centred opts (the (map_of cs (fn_id n)))) (centred opts (the (map_of cs (fn_id m))))"
      using cs(3) [rule_format, OF child child] by simp
  qed
  with Some cs(1) named show ?thesis
    by (simp add: layoutLinkedWithElk_def all_apart_def skip_empty)
qed

lemma dagre_ids [simp]: "map fn_id (layoutLinkedWithDagre dagre ns edges opts) = map fn_id ns"
  by (simp add: layoutLinkedWithDagre_def Let_def)

lemma elk_ids [simp]: "map fn_id (layoutLinkedWithElk elk dagre ns edges opts) = map fn_id ns"
  by (simp add: layoutLinkedWithElk_def split: option.split)

text \<open>C32: The automatic layout of the decision map shows every card, in the order given, and puts no card
  on another: neither the unlinked cards among themselves, nor the cards of a group, nor the groups.  Of
  the engines it needs that each puts the cards of one group apart; ELK may fail, and then dagre takes
  over.\<close>

theorem cards_do_not_overlap:
  assumes "real_cards opts" and "distinct (map fn_id ns)" and "[] \<notin> fn_id ` set ns"
    and "edges_within (map fn_id ns) edges" and "dagre_separates dagre opts" and "elk_separates elk opts"
  shows "(\<exists>out. layoutDecisionGraphNodesAsync elk dagre ns edges opts None = Some out \<and>
            map fn_id out = map fn_id ns \<and> all_apart opts out) \<and>
         (\<exists>out. layoutDecisionGraphNodes dagre ns edges opts None = Some out \<and>
            map fn_id out = map fn_id ns \<and> all_apart opts out)"
proof -
  have "all_apart opts (layoutLinkedWithElk elk dagre cn ce opts)"
    if "distinct (map fn_id cn)" "fn_id ` set cn \<subseteq> fn_id ` set ns" for cn ce
    using elk_apart [OF assms(6,5) that(1)] that(2) assms(3) by blast
  then have "separates (\<lambda>cn ce. layoutLinkedComponent elk dagre cn ce opts ELK) opts (fn_id ` set ns)"
    by (simp add: separates_def layoutLinkedComponent_def)
  moreover have "separates (\<lambda>cn ce. layoutLinkedWithDagre dagre cn ce opts) opts (fn_id ` set ns)"
    using dagre_apart [OF assms(5)] by (simp add: separates_def)
  ultimately show ?thesis
    using layout_groups_apart [OF assms(1,2,4)]
    by (force simp: layoutDecisionGraphNodesAsync_def layoutDecisionGraphNodes_def layoutLinkedGroups_def
        layoutLinkedWithDagreOnlyGraph_def finalizeLayout_def)
qed

definition row_place :: "layout_options \<Rightarrow> string list \<Rightarrow> string \<Rightarrow> rat option \<times> rat option" where
  "row_place opts ids i = (Some (of_nat (length (takeWhile (\<lambda>j. j \<noteq> i) ids)) * nodeWidth opts), Some 0)"

definition row_dagre :: dagre where
  "row_dagre opts ids edges i = (if i \<in> set ids then Some (row_place opts ids i) else None)"

definition row_elk :: elk where
  "row_elk opts ids edges = Some (Some (map (\<lambda>i. (i, row_place opts ids i)) ids))"

lemma row_apart:
  assumes "0 \<le> nodeWidth opts" and "i \<in> set ids" and "j \<in> set ids" and "i \<noteq> j"
  shows "apart opts (centred opts (row_place opts ids i)) (centred opts (row_place opts ids j))"
proof -
  have at: "ids ! length (takeWhile (\<lambda>j. j \<noteq> k) ids) = k" if "k \<in> set ids" for k
    using that by (induction ids) auto
  let ?k = "length (takeWhile (\<lambda>k. k \<noteq> i) ids)" and ?l = "length (takeWhile (\<lambda>k. k \<noteq> j) ids)"
  have "?k \<noteq> ?l" using at assms(2-4) by metis
  then have "(1::rat) \<le> \<bar>of_nat ?k - of_nat ?l\<bar>" by (cases ?k ?l rule: linorder_cases) (auto simp: abs_if of_nat_diff [symmetric] simp del: of_nat_diff)
  from mult_right_mono [OF this assms(1)] have "nodeWidth opts \<le> \<bar>(of_nat ?k - of_nat ?l) * nodeWidth opts\<bar>"
    using assms(1) by (simp add: abs_mult)
  then show ?thesis by (simp add: apart_def centred_def row_place_def left_diff_distrib)
qed

lemma row_dagre_separates: "0 \<le> nodeWidth opts \<Longrightarrow> dagre_separates row_dagre opts"
  by (simp add: dagre_separates_def row_dagre_def row_apart)

lemma row_elk_separates: "0 \<le> nodeWidth opts \<Longrightarrow> elk_separates row_elk opts"
  by (auto simp: elk_separates_def row_elk_def row_apart comp_def)

definition new_card :: "string \<Rightarrow> flow_node" where
  "new_card i = \<lparr> fn_id = i, fn_position = (0, 0), fn_sourcePosition = None, fn_targetPosition = None \<rparr>"

definition card_size :: layout_options where
  "card_size = \<lparr> nodeWidth = 220, nodeHeight = 96 \<rparr>"

theorem cards_do_not_overlap_witness:
  "\<exists>out. layoutDecisionGraphNodes row_dagre (map new_card [''1'', ''2'', ''3''])
           [\<lparr> edge_source = ''1'', edge_target = ''3'' \<rparr>] card_size None = Some out \<and>
         map fn_id out = [''1'', ''2'', ''3''] \<and> all_apart card_size out"
  using cards_do_not_overlap [of card_size "map new_card [''1'', ''2'', ''3'']" "[\<lparr> edge_source = ''1'', edge_target = ''3'' \<rparr>]"
      row_dagre row_elk] row_dagre_separates [of card_size] row_elk_separates [of card_size]
  by (simp add: new_card_def card_size_def real_cards_def edges_within_def)

section \<open>Moved cards stay, the others stand beside their neighbours\<close>

definition child_rank :: "flow_edge list \<Rightarrow> string \<Rightarrow> string \<Rightarrow> nat option" where
  "child_rank edges parent i =
     find_index (\<lambda>t. t = i) (js_sort string_cmp (map edge_target (filter (\<lambda>e. edge_source e = parent) edges)))"

text \<open>The card \<open>i\<close> stands at \<open>p\<close>, one column right of a placed parent and in the row of its rank among the
  children of that parent, or one column left of a placed child.\<close>

definition beside :: "flow_edge list \<Rightarrow> rat \<Rightarrow> rat \<Rightarrow> (string \<Rightarrow> point option) \<Rightarrow> string \<Rightarrow> point \<Rightarrow> bool" where
  "beside edges hGap vGap pos i p \<longleftrightarrow>
     (\<exists>e \<in> set edges. edge_target e = i \<and> (\<exists>q k. pos (edge_source e) = Some q \<and> child_rank edges (edge_source e) i = Some k \<and>
        p = (fst q + hGap, snd q + of_nat k * vGap))) \<or>
     (\<exists>e \<in> set edges. edge_source e = i \<and> (\<exists>q. pos (edge_target e) = Some q \<and> p = (fst q - hGap, snd q)))"

lemma beside_mono: "beside edges h v pos i p \<Longrightarrow> (\<And>k q. pos k = Some q \<Longrightarrow> pos' k = Some q) \<Longrightarrow> beside edges h v pos' i p"
  unfolding beside_def by blast

definition in_scope :: "string list \<Rightarrow> places \<Rightarrow> flow_edge list \<Rightarrow> bool" where
  "in_scope unpinned placed edges \<longleftrightarrow> (\<forall>e \<in> set edges. edge_target e \<in> set unpinned \<or> has_place placed (edge_target e))"

lemma place_beside_rank:
  assumes "in_scope unpinned placed edges"
  shows "js_sort string_cmp (filter (\<lambda>t. t \<in> set unpinned \<or> has_place placed t)
      (map edge_target (filter (\<lambda>e. edge_source e = parent) edges))) =
    js_sort string_cmp (map edge_target (filter (\<lambda>e. edge_source e = parent) edges))"
  using assms by (intro arg_cong [where f = "js_sort string_cmp"] filter_True) (auto simp: in_scope_def)

lemma place_beside_some:
  assumes "place_beside edges h v unpinned placed i = Some p" and "in_scope unpinned placed edges"
  shows "beside edges h v (jmap_get placed) i p"
proof (cases "map edge_source (filter (\<lambda>e. edge_target e = i \<and> has_place placed (edge_source e)) edges)")
  case (Cons parent parents)
  then have "parent \<in> edge_source ` {e \<in> set edges. edge_target e = i \<and> has_place placed (edge_source e)}"
    by (metis list.set_intros(1) set_filter set_map)
  then obtain e q where e: "e \<in> set edges" "edge_target e = i" "edge_source e = parent" "jmap_get placed parent = Some q"
    by (auto simp: has_place_def)
  moreover obtain k where "child_rank edges parent i = Some k"
    using e(1-3) by (cases "child_rank edges parent i") (auto simp: child_rank_def find_index_None)
  ultimately show ?thesis
    using assms Cons
    by (auto simp: place_beside_def beside_def Let_def place_of_def place_beside_rank child_rank_def)
next
  case Nil
  then obtain child children where
    "map edge_target (filter (\<lambda>e. edge_source e = i \<and> has_place placed (edge_target e)) edges) = child # children"
    using assms(1) by (auto simp: place_beside_def split: list.splits)
  moreover from this have "child \<in> edge_target ` {e \<in> set edges. edge_source e = i \<and> has_place placed (edge_target e)}"
    by (metis list.set_intros(1) set_filter set_map)
  ultimately show ?thesis
    using assms(1) Nil by (auto simp: place_beside_def beside_def Let_def place_of_def has_place_def)
qed

lemma place_beside_none:
  assumes "place_beside edges h v unpinned placed i = None" and "(i, j) \<in> joined edges"
  shows "\<not> has_place placed j"
  using assms by (auto simp: place_beside_def joined_def Let_def filter_empty_conv split: list.splits)

lemma place_beside_joined:
  "beside edges h v (jmap_get placed) i p \<Longrightarrow> \<exists>j. has_place placed j \<and> (j, i) \<in> joined edges"
  by (fastforce simp: beside_def joined_def has_place_def)

text \<open>An invariant of the placing loop, and what holds when it stops.\<close>

lemma pass_invariant:
  assumes step: "\<And>placed i p. I placed \<Longrightarrow> i \<in> set unpinned \<Longrightarrow> \<not> has_place placed i \<Longrightarrow>
      place_beside edges h v unpinned placed i = Some p \<Longrightarrow> I (jmap_set i p placed)"
    and "I placed" and "set is \<subseteq> set unpinned"
  shows "I (fst (place_pass edges h v unpinned is (placed, progress)))"
  using assms(2,3) by (induction "is" arbitrary: placed progress) (auto split: option.split intro: step)

lemma pass_done: "snd (place_pass edges h v unpinned is (placed, True))"
proof (induction "is" arbitrary: placed)
  case (Cons i "is")
  then show ?case by (auto split: option.split)
qed simp

lemma pass_stuck:
  "\<not> snd (place_pass edges h v unpinned is (placed, False)) \<Longrightarrow>
   fst (place_pass edges h v unpinned is (placed, False)) = placed \<and>
   (\<forall>i \<in> set is. has_place placed i \<or> place_beside edges h v unpinned placed i = None)"
proof (induction "is")
  case (Cons i "is")
  have i: "has_place placed i \<or> place_beside edges h v unpinned placed i = None"
  proof (rule ccontr)
    assume "\<not> ?thesis"
    then obtain p where "\<not> has_place placed i" "place_beside edges h v unpinned placed i = Some p" by auto
    with Cons.prems pass_done [of edges h v unpinned "is" "jmap_set i p placed"] show False by simp
  qed
  then have "(if has_place placed i then (placed, False)
      else case place_beside edges h v unpinned placed i of None \<Rightarrow> (placed, False)
           | Some p \<Rightarrow> (jmap_set i p placed, True)) = (placed, False)" by auto
  then have skip: "place_pass edges h v unpinned (i # is) (placed, False) = place_pass edges h v unpinned is (placed, False)"
    by (simp only: place_pass.simps)
  show ?case using Cons.IH Cons.prems i unfolding skip by (simp del: place_pass.simps)
qed simp

lemma loop_result:
  assumes step: "\<And>placed i p. I placed \<Longrightarrow> i \<in> set unpinned \<Longrightarrow> \<not> has_place placed i \<Longrightarrow>
      place_beside edges h v unpinned placed i = Some p \<Longrightarrow> I (jmap_set i p placed)"
    and "I placed"
  shows "I (place_loop edges h v unpinned placed) \<and>
    (\<forall>i \<in> set unpinned. has_place (place_loop edges h v unpinned placed) i \<or>
       place_beside edges h v unpinned (place_loop edges h v unpinned placed) i = None)"
  using assms
proof (induction edges h v unpinned placed rule: place_loop.induct)
  case (1 edges h v unpinned placed)
  obtain placed' progress where r: "place_pass edges h v unpinned unpinned (placed, False) = (placed', progress)" by force
  have inv: "I placed'" using pass_invariant [of I unpinned edges h v placed unpinned False] 1(2,3) r by simp
  show ?case
  proof (cases progress)
    case True
    then have again: "place_loop edges h v unpinned placed = place_loop edges h v unpinned placed'"
      by (subst place_loop.simps) (simp add: r)
    show ?thesis unfolding again by (rule 1(1) [OF r [symmetric] True 1(2) inv])
  next
    case False
    then have stop: "place_loop edges h v unpinned placed = placed'"
      by (subst place_loop.simps) (simp add: r)
    have "placed' = placed \<and> (\<forall>i \<in> set unpinned. has_place placed i \<or> place_beside edges h v unpinned placed i = None)"
      using pass_stuck [of edges h v unpinned unpinned placed] r False by (simp del: place_pass.simps)
    then show ?thesis unfolding stop using inv by (elim conjE) (simp del: split_paired_All)
  qed
qed

text \<open>The cards the loop has placed, seen from the pinned ones.\<close>

definition places_ok :: "flow_edge list \<Rightarrow> rat \<Rightarrow> rat \<Rightarrow> places \<Rightarrow> places \<Rightarrow> bool" where
  "places_ok edges h v placed0 placed \<longleftrightarrow>
     (\<forall>i p. jmap_get placed0 i = Some p \<longrightarrow> jmap_get placed i = Some p) \<and>
     (\<forall>i p. jmap_get placed i = Some p \<longrightarrow> jmap_get placed0 i = Some p \<or> beside edges h v (jmap_get placed) i p) \<and>
     (\<forall>i. has_place placed i \<longrightarrow> i \<in> (joined edges)\<^sup>* `` {k. has_place placed0 k})"

lemma places_keep: "places_ok edges h v placed0 placed \<Longrightarrow> jmap_get placed0 i = Some p \<Longrightarrow> jmap_get placed i = Some p"
  unfolding places_ok_def by blast

lemma places_keep_placed: "places_ok edges h v placed0 placed \<Longrightarrow> has_place placed0 i \<Longrightarrow> has_place placed i"
  unfolding has_place_def using places_keep by blast

lemma places_beside: "places_ok edges h v placed0 placed \<Longrightarrow> jmap_get placed i = Some p \<Longrightarrow> jmap_get placed0 i = None \<Longrightarrow>
  beside edges h v (jmap_get placed) i p"
  unfolding places_ok_def by (metis option.distinct(1))

lemma places_start: "places_ok edges h v placed0 placed0"
  by (auto simp: places_ok_def)

lemma places_step:
  assumes ok: "places_ok edges h v placed0 placed" and new: "\<not> has_place placed i"
    and p: "beside edges h v (jmap_get placed) i p"
  shows "places_ok edges h v placed0 (jmap_set i p placed)"
proof -
  have mono: "jmap_get placed k = Some q \<Longrightarrow> jmap_get (jmap_set i p placed) k = Some q" for k q
    using new by (cases "k = i") (simp_all add: jmap_get_set has_place_def del: split_paired_All)
  obtain j where "has_place placed j" "(j, i) \<in> joined edges" using place_beside_joined [OF p] by blast
  moreover from this ok have "j \<in> (joined edges)\<^sup>* `` {k. has_place placed0 k}" by (simp add: places_ok_def)
  ultimately have "i \<in> (joined edges)\<^sup>* `` {k. has_place placed0 k}"
    by (auto intro: rtrancl_into_rtrancl)
  moreover have new_beside: "beside edges h v (jmap_get (jmap_set i p placed)) i p" by (rule beside_mono [OF p mono])
  have "jmap_get placed0 k = Some q \<or> beside edges h v (jmap_get (jmap_set i p placed)) k q"
    if at: "jmap_get (jmap_set i p placed) k = Some q" for k q
  proof (cases "k = i")
    case True
    with at new_beside show ?thesis by (simp add: jmap_get_set)
  next
    case False
    with at have "jmap_get placed k = Some q" by (simp add: jmap_get_set)
    with ok have "jmap_get placed0 k = Some q \<or> beside edges h v (jmap_get placed) k q" by (simp add: places_ok_def del: split_paired_All)
    then show ?thesis using beside_mono [of edges h v "jmap_get placed" k q "jmap_get (jmap_set i p placed)", OF _ mono] by (elim disjE) simp_all
  qed
  moreover have "jmap_get (jmap_set i p placed) k = Some q" if "jmap_get placed0 k = Some q" for k q
    by (rule mono) (use ok that in \<open>simp add: places_ok_def del: split_paired_All\<close>)
  moreover have "k = i \<or> has_place placed k" if "has_place (jmap_set i p placed) k" for k
    using that by (auto simp: has_place_def jmap_get_set split: if_splits)
  ultimately show ?thesis using ok unfolding places_ok_def by metis
qed

lemma loop_places:
  assumes scope: "in_scope unpinned placed0 edges" "\<forall>e \<in> set edges. edge_source e \<in> set unpinned \<or> has_place placed0 (edge_source e)"
  shows "places_ok edges h v placed0 (place_loop edges h v unpinned placed0) \<and>
    (\<forall>i. has_place (place_loop edges h v unpinned placed0) i \<longleftrightarrow> i \<in> (joined edges)\<^sup>* `` {k. has_place placed0 k})"
proof -
  let ?placed = "place_loop edges h v unpinned placed0"
  have r: "places_ok edges h v placed0 ?placed \<and> (\<forall>i \<in> set unpinned. has_place ?placed i \<or>
      place_beside edges h v unpinned ?placed i = None)"
  proof (rule loop_result [OF _ places_start])
    fix placed i p
    assume ok: "places_ok edges h v placed0 placed" and new: "\<not> has_place placed i"
      and p: "place_beside edges h v unpinned placed i = Some p"
    have "in_scope unpinned placed edges" using scope(1) places_keep_placed [OF ok] by (auto simp: in_scope_def)
    from places_step [OF ok new place_beside_some [OF p this]] show "places_ok edges h v placed0 (jmap_set i p placed)" .
  qed
  have closed: "has_place ?placed j" if "has_place ?placed i" "(i, j) \<in> joined edges" for i j
  proof (rule ccontr)
    assume unplaced: "\<not> has_place ?placed j"
    have "j \<in> set unpinned \<or> has_place placed0 j" using that(2) scope by (auto simp: joined_def in_scope_def)
    with unplaced r places_keep_placed have "place_beside edges h v unpinned ?placed j = None" by blast
    from place_beside_none [OF this joined_sym [OF that(2)]] that(1) show False by simp
  qed
  have "has_place ?placed j" if "has_place ?placed i" "(i, j) \<in> (joined edges)\<^sup>*" for i j
    using that(2,1) by (induction rule: rtrancl_induct) (auto intro: closed)
  then have "i \<in> (joined edges)\<^sup>* `` {k. has_place placed0 k} \<Longrightarrow> has_place ?placed i" for i
    using places_keep_placed [of edges h v placed0 ?placed] r by blast
  with r show ?thesis unfolding places_ok_def by blast
qed

text \<open>The map with the moved cards only, and the map completed from the automatic layout.\<close>

lemma get_pinned:
  "jmap_get (foldl (\<lambda>m n. case obj_get pinned (str_key (fn_id n)) of None \<Rightarrow> m | Some p \<Rightarrow> jmap_set (fn_id n) p m) m ns) k =
   (if k \<in> fn_id ` set ns \<and> obj_get pinned (str_key k) \<noteq> None then obj_get pinned (str_key k) else jmap_get m k)"
  by (induction ns arbitrary: m) (auto simp: jmap_get_set split: option.split)

lemma get_completed:
  "jmap_get (foldl (\<lambda>m i. if has_place m i then m else jmap_set i (d i) m) m ids) k =
   (if jmap_get m k = None \<and> k \<in> set ids then Some (d k) else jmap_get m k)"
  by (induction ids arbitrary: m) (auto simp: jmap_get_set has_place_def)

definition links_among :: "string list \<Rightarrow> flow_edge list \<Rightarrow> flow_edge list" where
  "links_among ids edges = filter (\<lambda>e. edge_source e \<in> set ids \<and> edge_target e \<in> set ids) edges"

definition moved :: "string list \<Rightarrow> saved_positions \<Rightarrow> string set" where
  "moved ids pinned = {i \<in> set ids. obj_get pinned (str_key i) \<noteq> None}"

definition merged_right ::
  "flow_edge list \<Rightarrow> layout_options \<Rightarrow> saved_positions \<Rightarrow> string list \<Rightarrow> flow_node list \<Rightarrow> (string \<Rightarrow> point option) \<Rightarrow> string \<Rightarrow> bool" where
  "merged_right links opts pinned ids auto pos i \<longleftrightarrow>
     (if i \<in> moved ids pinned then pos i = obj_get pinned (str_key i)
      else if i \<in> (joined links)\<^sup>* `` moved ids pinned
      then \<exists>p. pos i = Some p \<and> beside links (nodeWidth opts + GRID_GAP_X) (nodeHeight opts + GRID_GAP_Y) pos i p
      else \<exists>n \<in> set auto. fn_id n = i \<and> pos i = Some (fn_position n))"

lemma merged_positions:
  assumes places: "places_ok links h v placed0 placed1" "\<And>i. has_place placed1 i \<longleftrightarrow> i \<in> (joined links)\<^sup>* `` moved ids pinned"
    and placed0: "\<And>k. jmap_get placed0 k = (if k \<in> moved ids pinned then obj_get pinned (str_key k) else None)"
    and rest: "\<And>k. jmap_get completed k = (if jmap_get placed1 k = None \<and> k \<in> U then Some (d k) else jmap_get placed1 k)"
    and U: "i \<in> U \<or> i \<in> moved ids pinned"
    and d: "\<exists>n \<in> set auto. fn_id n = i \<and> d i = fn_position n"
    and gaps: "h = nodeWidth opts + GRID_GAP_X" "v = nodeHeight opts + GRID_GAP_Y"
  shows "merged_right links opts pinned ids auto (jmap_get completed) i"
proof -
  have mono: "jmap_get placed1 k = Some q \<Longrightarrow> jmap_get completed k = Some q" for k q by (simp add: rest)
  consider (moved) "i \<in> moved ids pinned" | (linked) "i \<notin> moved ids pinned" "i \<in> (joined links)\<^sup>* `` moved ids pinned"
    | (other) "i \<notin> moved ids pinned" "i \<notin> (joined links)\<^sup>* `` moved ids pinned" by blast
  then show ?thesis
  proof cases
    case moved
    then obtain p where "obj_get pinned (str_key i) = Some p" by (auto simp: moved_def)
    then have "jmap_get placed1 i = Some p" using places_keep [OF places(1)] placed0 moved by simp
    with mono moved show ?thesis using \<open>obj_get pinned (str_key i) = Some p\<close> by (simp add: merged_right_def)
  next
    case linked
    then have "has_place placed1 i" using places(2) by simp
    then obtain p where p: "jmap_get placed1 i = Some p" unfolding has_place_def by blast
    then have "beside links h v (jmap_get placed1) i p" using places_beside [OF places(1)] placed0 linked(1) by simp
    from beside_mono [OF this mono] mono [OF p] show ?thesis using linked gaps by (auto simp: merged_right_def)
  next
    case other
    then have "jmap_get placed1 i = None" using places(2) [of i] unfolding has_place_def by blast
    with other U d rest show ?thesis by (auto simp: merged_right_def)
  qed
qed

lemma merged_layout:
  assumes "pinned \<noteq> []" and "distinct (map fn_id ns)" and "map fn_id auto = map fn_id ns"
  shows "\<exists>pos. mergePinnedLayout ns edges auto (Some pinned) opts = map (\<lambda>n. n\<lparr> fn_position := the (pos (fn_id n)) \<rparr>) ns \<and>
    (\<forall>i \<in> fn_id ` set ns. merged_right (links_among (map fn_id ns) edges) opts pinned (map fn_id ns) auto pos i)"
proof -
  let ?ids = "map fn_id ns" and ?links = "links_among (map fn_id ns) edges"
  let ?h = "nodeWidth opts + GRID_GAP_X" and ?v = "nodeHeight opts + GRID_GAP_Y"
  let ?placed0 = "foldl (\<lambda>m n. case obj_get pinned (str_key (fn_id n)) of None \<Rightarrow> m | Some p \<Rightarrow> jmap_set (fn_id n) p m) [] ns"
  let ?unpinned = "map fn_id (filter (\<lambda>n. \<not> has_place ?placed0 (fn_id n)) ns)"
  let ?auto = "foldl (\<lambda>m n. jmap_set (fn_id n) (fn_position n) m) [] auto"
  have placed0: "jmap_get ?placed0 k = (if k \<in> moved ?ids pinned then obj_get pinned (str_key k) else None)" for k
    by (auto simp: get_pinned moved_def md.get_emp)
  have U: "set ?unpinned = set ?ids - moved ?ids pinned" using placed0 by (auto simp: has_place_def moved_def)
  show ?thesis
  proof (cases "?unpinned = []")
    case True
    then have all: "i \<in> moved ?ids pinned" if "i \<in> fn_id ` set ns" for i using U that by (auto simp del: map_is_Nil_conv)
    then have "\<exists>p. jmap_get ?placed0 i = Some p" if "i \<in> fn_id ` set ns" for i
      using placed0 [of i] that unfolding moved_def by force
    then have "mergePinnedLayout ns edges auto (Some pinned) opts =
        map (\<lambda>n. n\<lparr> fn_position := the (jmap_get ?placed0 (fn_id n)) \<rparr>) ns"
      using assms(1) True unfolding mergePinnedLayout_def by (force simp: Let_def)
    moreover have "merged_right ?links opts pinned ?ids auto (jmap_get ?placed0) i" if "i \<in> fn_id ` set ns" for i
      using all [OF that] placed0 [of i] by (simp add: merged_right_def)
    ultimately show ?thesis by blast
  next
    case False
    let ?placed1 = "place_loop ?links ?h ?v ?unpinned ?placed0"
    let ?placed2 = "foldl (\<lambda>m i. if has_place m i then m else jmap_set i (nullish (jmap_get ?auto i) (0, 0)) m) ?placed1 ?unpinned"
    have scope: "(\<lambda>i. i \<in> set ?unpinned \<or> has_place ?placed0 i) = (\<lambda>i. i \<in> set ?ids)"
      using U placed0 by (auto simp: fun_eq_iff has_place_def moved_def)
    then have merged: "mergePinnedLayout ns edges auto (Some pinned) opts = map (\<lambda>n. n\<lparr> fn_position :=
        nullish (jmap_get ?placed2 (fn_id n)) (nullish (jmap_get ?auto (fn_id n)) (fn_position n)) \<rparr>) ns"
      using assms(1) False unfolding mergePinnedLayout_def links_among_def by (simp add: Let_def)
    have closed: "in_scope ?unpinned ?placed0 ?links"
        "\<forall>e \<in> set ?links. edge_source e \<in> set ?unpinned \<or> has_place ?placed0 (edge_source e)"
      using scope by (auto simp: in_scope_def links_among_def fun_eq_iff)
    have placed1: "places_ok ?links ?h ?v ?placed0 ?placed1"
        "\<And>i. has_place ?placed1 i \<longleftrightarrow> i \<in> (joined ?links)\<^sup>* `` moved ?ids pinned"
      using loop_places [OF closed, of ?h ?v] placed0 by (simp_all add: has_place_def moved_def)
    have right: "merged_right ?links opts pinned ?ids auto (jmap_get ?placed2) i" and there: "jmap_get ?placed2 i \<noteq> None"
      if "i \<in> fn_id ` set ns" for i
    proof -
      have "i \<in> fn_id ` set auto" using that ids_image [OF assms(3)] by simp
      then obtain n where n: "n \<in> set auto" "fn_id n = i" by blast
      from filled [of fn_id auto n fn_position "[]"] n assms(2,3) have "jmap_get ?auto i = Some (fn_position n)" by auto
      with n have d: "\<exists>n \<in> set auto. fn_id n = i \<and> nullish (jmap_get ?auto i) (0, 0) = fn_position n" by auto
      have "i \<in> set ?unpinned \<or> i \<in> moved ?ids pinned" using U that by auto
      then show "merged_right ?links opts pinned ?ids auto (jmap_get ?placed2) i"
        by (rule merged_positions [where completed = ?placed2 and U = "set ?unpinned" and
              d = "\<lambda>i. nullish (jmap_get ?auto i) (0, 0)", OF placed1 placed0 get_completed _ d refl refl])
      then show "jmap_get ?placed2 i \<noteq> None"
        by (auto simp: merged_right_def moved_def split: if_splits)
    qed
    from there merged have "mergePinnedLayout ns edges auto (Some pinned) opts =
        map (\<lambda>n. n\<lparr> fn_position := the (jmap_get ?placed2 (fn_id n)) \<rparr>) ns" by fastforce
    with right show ?thesis by blast
  qed
qed

text \<open>With cards the user has moved, the layout keeps all cards and their order, puts every moved card
  where the user put it, and a card that links lead to from a moved one right of one of its parents (in
  the row of its rank among the children of that parent) or left of one of its children; only a card
  without such links stands where the automatic layout puts it.\<close>

lemma moved_cards_stay:
  assumes "pinned \<noteq> []" and "distinct (map fn_id ns)" and "map fn_id auto = map fn_id ns"
  shows "\<exists>pos. mergePinnedLayout ns edges auto (Some pinned) opts = map (\<lambda>n. n\<lparr> fn_position := the (pos (fn_id n)) \<rparr>) ns \<and>
    (\<forall>i \<in> fn_id ` set ns. merged_right (links_among (map fn_id ns) edges) opts pinned (map fn_id ns) auto pos i)"
  by (rule merged_layout [OF assms])

lemma moved_cards_stay_witness:
  "\<exists>pos. mergePinnedLayout (map new_card [''1'', ''2'']) [\<lparr> edge_source = ''1'', edge_target = ''2'' \<rparr>]
       (map new_card [''1'', ''2'']) (Some [(str_key ''1'', (500, 300))]) card_size =
     map (\<lambda>n. n\<lparr> fn_position := the (pos (fn_id n)) \<rparr>) (map new_card [''1'', ''2'']) \<and> pos ''1'' = Some (500, 300)"
  using moved_cards_stay [of "[(str_key ''1'', (500, 300))]" "map new_card [''1'', ''2'']" "map new_card [''1'', ''2'']"
      "[\<lparr> edge_source = ''1'', edge_target = ''2'' \<rparr>]" card_size]
  by (fastforce simp: new_card_def merged_right_def moved_def obj_get_def)

text \<open>Two cards whose only link leads to the same moved card are put on exactly the same place, one
  column left of it: the layout hides one behind the other, although the automatic layout keeps all cards
  apart.\<close>

lemma parents_of_moved_card_coincide:
  assumes "distinct (map fn_id ns)" and "map fn_id auto = map fn_id ns" and "0 < nodeWidth opts" "0 < nodeHeight opts"
    and abc: "{a, b, c} \<subseteq> fn_id ` set ns" "a \<noteq> b" and c: "obj_get pinned (str_key c) = Some p"
    and ab: "obj_get pinned (str_key a) = None" "obj_get pinned (str_key b) = None"
    and links: "\<lparr> edge_source = a, edge_target = c \<rparr> \<in> set edges" "\<lparr> edge_source = b, edge_target = c \<rparr> \<in> set edges"
      "\<forall>e \<in> set edges. edge_target e \<notin> {a, b} \<and> (edge_source e \<in> {a, b} \<longrightarrow> edge_target e = c)"
  shows "\<not> all_apart opts (mergePinnedLayout ns edges auto (Some pinned) opts)"
proof -
  let ?links = "links_among (map fn_id ns) edges"
  have "pinned \<noteq> []" using c by (auto simp: obj_get_Nil)
  from merged_layout [OF this assms(1,2)] obtain pos where
    out: "mergePinnedLayout ns edges auto (Some pinned) opts = map (\<lambda>n. n\<lparr> fn_position := the (pos (fn_id n)) \<rparr>) ns"
    and right: "\<And>i. i \<in> fn_id ` set ns \<Longrightarrow> merged_right ?links opts pinned (map fn_id ns) auto pos i" by blast
  have "c \<in> moved (map fn_id ns) pinned" using abc(1) c by (auto simp: moved_def)
  then have pc: "pos c = Some p" using right [of c] abc(1) c by (simp add: merged_right_def)
  have left: "pos i = Some (fst p - (nodeWidth opts + GRID_GAP_X), snd p)" if i: "i \<in> {a, b}" for i
  proof -
    have "i \<notin> moved (map fn_id ns) pinned" using i ab by (auto simp: moved_def)
    moreover have "(c, i) \<in> joined ?links" using i links abc(1) by (force simp: joined_def links_among_def)
    moreover from this have "i \<in> (joined ?links)\<^sup>* `` moved (map fn_id ns) pinned"
      using \<open>c \<in> moved (map fn_id ns) pinned\<close> by blast
    moreover have "i \<in> fn_id ` set ns" using i abc(1) by blast
    ultimately obtain q where q: "pos i = Some q"
        "beside ?links (nodeWidth opts + GRID_GAP_X) (nodeHeight opts + GRID_GAP_Y) pos i q"
      using right [of i] by (auto simp: merged_right_def)
    then show ?thesis using links(3) i pc by (force simp: beside_def links_among_def)
  qed
  obtain n m where nm: "n \<in> set ns" "m \<in> set ns" "fn_id n = a" "fn_id m = b" using abc(1) by auto
  let ?at = "\<lambda>n. n\<lparr> fn_position := the (pos (fn_id n)) \<rparr>"
  have "?at n \<in> set (map ?at ns)" "?at m \<in> set (map ?at ns)" "fn_id (?at n) \<noteq> fn_id (?at m)"
    using nm abc(2) by auto
  moreover have "\<not> apart opts (fn_position (?at n)) (fn_position (?at m))"
    using left [of a] left [of b] nm assms(3,4) by (simp add: apart_def)
  ultimately show ?thesis unfolding all_apart_def out by blast
qed

lemma parents_of_moved_card_coincide_witness:
  "\<not> all_apart card_size (mergePinnedLayout (map new_card [''1'', ''2'', ''3''])
      [\<lparr> edge_source = ''1'', edge_target = ''3'' \<rparr>, \<lparr> edge_source = ''2'', edge_target = ''3'' \<rparr>]
      (map new_card [''1'', ''2'', ''3'']) (Some [(str_key ''3'', (500, 300))]) card_size)"
  by (rule parents_of_moved_card_coincide [of _ _ _ "''1''" "''2''" "''3''" _ "(500, 300)"])
     (simp_all add: new_card_def card_size_def obj_get_def str_key_inject)

end
