(* ===== verification/Ranking.thy ===== *)
theory Ranking imports Js_Number Js_Object begin

text \<open>
  The leaderboards of ads and creatives: the composite score
  (\<open>src/frontend/src/components/meta-ads/rankingScoring.ts\<close>), the order and the pages of the table
  (\<open>RankingTable.tsx\<close>), and the ratios the rows carry (\<open>src/backend/meta_ads/views.py\<close>).  A metric
  arrives as text; how the backend prints a \<open>Decimal\<close> is a parameter.
\<close>

section \<open>Number of a text\<close>

text \<open>\<open>Number(s)\<close> where it is finite: optional sign, digits with at most one point, optional exponent; or a
  radix prefix.  \<open>NaN\<close> and \<open>Infinity\<close> are \<open>None\<close>.\<close>

definition full_exponent :: "string \<Rightarrow> int option" where
  "full_exponent s =
     (case s of
        [] \<Rightarrow> Some 0
      | c # r \<Rightarrow>
          if c = CHR ''e'' \<or> c = CHR ''E''
          then (case signed r of (neg, t) \<Rightarrow>
                  if all_digits t then Some (if neg then - int (dec_val t) else int (dec_val t)) else None)
          else None)"

definition decimal_literal :: "string \<Rightarrow> rat option" where
  "decimal_literal s =
     (case signed s of (neg, t) \<Rightarrow>
        (let whole = takeWhile is_digit t; r1 = dropWhile is_digit t;
             dotted = (case r1 of [] \<Rightarrow> False | c # _ \<Rightarrow> c = CHR ''.'');
             frac = (if dotted then takeWhile is_digit (tl r1) else []);
             r2 = (if dotted then dropWhile is_digit (tl r1) else r1)
         in if whole = [] \<and> frac = [] then None
            else map_option (\<lambda>e. let v = of_nat (dec_val (whole @ frac)) * ten_power (e - int (length frac))
                                 in if neg then - v else v) (full_exponent r2)))"

definition radix_prefix :: "string \<Rightarrow> nat option" where
  "radix_prefix s =
     (case s of
        c # d # _ \<Rightarrow>
          if c \<noteq> CHR ''0'' then None
          else if d \<in> {CHR ''x'', CHR ''X''} then Some 16
          else if d \<in> {CHR ''o'', CHR ''O''} then Some 8
          else if d \<in> {CHR ''b'', CHR ''B''} then Some 2 else None
      | _ \<Rightarrow> None)"

definition finite_number :: "string \<Rightarrow> rat option" where
  "finite_number s =
     (let t = js_trim s
      in if t = [] then Some 0
         else case radix_prefix t of
                Some b \<Rightarrow> map_option of_nat (radix_val b (drop 2 t))
              | None \<Rightarrow> decimal_literal t)"

section \<open>Metrics and weights\<close>

datatype ranking_metric = Roas | Cpa | Hook_Rate_Strict | Hold_Rate | Ctr | Cost_Per_Lpv | Cost_Per_Comment

record metric_row =
  rk_id :: int
  rk_roas :: string
  rk_cpa :: string
  rk_hook_rate_strict :: string
  rk_hold_rate :: string
  rk_ctr :: string
  rk_cost_per_lpv :: string
  rk_cost_per_comment :: string

definition RANKING_METRICS :: "ranking_metric list" where
  "RANKING_METRICS = [Roas, Cpa, Hook_Rate_Strict, Hold_Rate, Ctr, Cost_Per_Lpv, Cost_Per_Comment]"

definition INVERTED_METRICS :: "ranking_metric set" where
  "INVERTED_METRICS = {Cpa, Cost_Per_Lpv, Cost_Per_Comment}"

text \<open>A weight may be missing in an object that is not complete.\<close>

type_synonym weight_set = "ranking_metric \<Rightarrow> rat option"

datatype preset_name = Performance | Engagement | Cost_Efficient

fun PRESETS :: "preset_name \<Rightarrow> ranking_metric \<Rightarrow> rat" where
  "PRESETS Performance m =
     (case m of Roas \<Rightarrow> 50 / 100 | Cpa \<Rightarrow> 30 / 100 | Hook_Rate_Strict \<Rightarrow> 10 / 100 | Hold_Rate \<Rightarrow> 5 / 100
      | Ctr \<Rightarrow> 5 / 100 | Cost_Per_Lpv \<Rightarrow> 0 | Cost_Per_Comment \<Rightarrow> 0)"
| "PRESETS Engagement m =
     (case m of Roas \<Rightarrow> 10 / 100 | Cpa \<Rightarrow> 10 / 100 | Hook_Rate_Strict \<Rightarrow> 25 / 100 | Hold_Rate \<Rightarrow> 25 / 100
      | Ctr \<Rightarrow> 20 / 100 | Cost_Per_Lpv \<Rightarrow> 5 / 100 | Cost_Per_Comment \<Rightarrow> 5 / 100)"
| "PRESETS Cost_Efficient m =
     (case m of Roas \<Rightarrow> 20 / 100 | Cpa \<Rightarrow> 40 / 100 | Hook_Rate_Strict \<Rightarrow> 0 | Hold_Rate \<Rightarrow> 0
      | Ctr \<Rightarrow> 5 / 100 | Cost_Per_Lpv \<Rightarrow> 25 / 100 | Cost_Per_Comment \<Rightarrow> 10 / 100)"

definition applyPreset :: "preset_name \<Rightarrow> weight_set" where
  "applyPreset name m = Some (PRESETS name m)"

definition PRESET_EQ_TOLERANCE :: rat where
  "PRESET_EQ_TOLERANCE = 1 / 1000"

definition weight :: "weight_set \<Rightarrow> ranking_metric \<Rightarrow> rat" where
  "weight weights m = nullish (weights m) 0"

definition preset_matches :: "weight_set \<Rightarrow> preset_name \<Rightarrow> bool" where
  "preset_matches weights name \<longleftrightarrow>
     list_all (\<lambda>m. \<not> \<bar>weight weights m - PRESETS name m\<bar> > PRESET_EQ_TOLERANCE) RANKING_METRICS"

text \<open>\<open>None\<close> is \<open>"custom"\<close>.\<close>

definition detectActivePreset :: "weight_set \<Rightarrow> preset_name option" where
  "detectActivePreset weights = find (preset_matches weights) [Performance, Engagement, Cost_Efficient]"

definition sumWeights :: "weight_set \<Rightarrow> rat" where
  "sumWeights weights = foldl (\<lambda>total m. total + weight weights m) 0 RANKING_METRICS"

fun metric_text :: "metric_row \<Rightarrow> ranking_metric \<Rightarrow> string" where
  "metric_text row Roas = rk_roas row"
| "metric_text row Cpa = rk_cpa row"
| "metric_text row Hook_Rate_Strict = rk_hook_rate_strict row"
| "metric_text row Hold_Rate = rk_hold_rate row"
| "metric_text row Ctr = rk_ctr row"
| "metric_text row Cost_Per_Lpv = rk_cost_per_lpv row"
| "metric_text row Cost_Per_Comment = rk_cost_per_comment row"

definition readMetric :: "metric_row \<Rightarrow> ranking_metric \<Rightarrow> rat option" where
  "readMetric row m = finite_number (metric_text row m)"

section \<open>Scores\<close>

text \<open>The extremes of a metric: \<open>None\<close> stands for the initial \<open>Infinity\<close> and \<open>-Infinity\<close>.\<close>

definition widen :: "rat option \<times> rat option \<Rightarrow> rat option \<Rightarrow> rat option \<times> rat option" where
  "widen acc value =
     (case value of
        None \<Rightarrow> acc
      | Some v \<Rightarrow> (case fst acc of None \<Rightarrow> Some v | Some mn \<Rightarrow> if v < mn then Some v else Some mn,
                   case snd acc of None \<Rightarrow> Some v | Some mx \<Rightarrow> if v > mx then Some v else Some mx))"

definition extremes :: "metric_row list \<Rightarrow> ranking_metric \<Rightarrow> rat option \<times> rat option" where
  "extremes rows m = foldl (\<lambda>acc r. widen acc (readMetric r m)) (None, None) rows"

record metric_range =
  mr_min :: rat
  mr_max :: rat
  mr_range :: rat

definition computeRanges :: "metric_row list \<Rightarrow> ranking_metric \<Rightarrow> metric_range" where
  "computeRanges rows m =
     (case extremes rows m of
        (Some mn, Some mx) \<Rightarrow> \<lparr> mr_min = mn, mr_max = mx, mr_range = mx - mn \<rparr>
      | _ \<Rightarrow> \<lparr> mr_min = 0, mr_max = 0, mr_range = 0 \<rparr>)"

definition normalized :: "rat \<Rightarrow> rat \<Rightarrow> bool \<Rightarrow> rat \<Rightarrow> rat" where
  "normalized mn width invert raw =
     (let norm = (if width = 0 then 0 else (raw - mn) / width) in if invert then 1 - norm else norm)"

definition add_metric :: "(ranking_metric \<Rightarrow> metric_range) \<Rightarrow> weight_set \<Rightarrow> metric_row \<Rightarrow> rat \<Rightarrow> ranking_metric \<Rightarrow> rat" where
  "add_metric ranges weights row s m =
     (if weight weights m = 0 then s
      else case readMetric row m of
             None \<Rightarrow> s
           | Some raw \<Rightarrow>
               s + weight weights m * normalized (mr_min (ranges m)) (mr_range (ranges m)) (m \<in> INVERTED_METRICS) raw)"

definition row_score :: "(ranking_metric \<Rightarrow> metric_range) \<Rightarrow> weight_set \<Rightarrow> metric_row \<Rightarrow> rat" where
  "row_score ranges weights row = foldl (add_metric ranges weights row) 0 RANKING_METRICS"

definition computeCompositeScores :: "metric_row list \<Rightarrow> weight_set \<Rightarrow> (int, rat) jmap" where
  "computeCompositeScores rows weights =
     (let ranges = computeRanges rows
      in foldl (\<lambda>scores r. jmap_set (rk_id r) (row_score ranges weights r) scores) [] rows)"

definition computeMinMaxNormalized :: "metric_row list \<Rightarrow> ranking_metric \<Rightarrow> bool \<Rightarrow> (int, rat) jmap" where
  "computeMinMaxNormalized rows m invert =
     (let ext = extremes rows m;
          width = (case ext of (Some mn, Some mx) \<Rightarrow> mx - mn | _ \<Rightarrow> 0)
      in foldl (\<lambda>out r.
           case readMetric r m of
             None \<Rightarrow> jmap_set (rk_id r) 0 out
           | Some raw \<Rightarrow> jmap_set (rk_id r) (normalized (nullish (fst ext) 0) width invert raw) out) [] rows)"

section \<open>The table\<close>

record ranked_row =
  rr_row :: metric_row
  rr_score :: rat
  rr_rank :: nat

text \<open>Only the sign of the difference of two scores matters to \<open>sort\<close>.\<close>

definition by_score :: "ranked_row \<Rightarrow> ranked_row \<Rightarrow> int" where
  "by_score a b = (if rr_score b < rr_score a then - 1 else if rr_score a < rr_score b then 1 else 0)"

definition ranked :: "metric_row list \<Rightarrow> weight_set \<Rightarrow> ranked_row list" where
  "ranked rows weights =
     (let scoreMap = computeCompositeScores rows weights;
          out = map (\<lambda>row. \<lparr> rr_row = row, rr_score = nullish (jmap_get scoreMap (rk_id row)) 0, rr_rank = 0 \<rparr>) rows
      in map (\<lambda>(i, r). r\<lparr> rr_rank := i + 1 \<rparr>) (enumerate 0 (js_sort by_score out)))"

definition total_pages :: "'a list \<Rightarrow> nat \<Rightarrow> nat" where
  "total_pages rs pageSize = max 1 (nat (ceiling (of_nat (length rs) / of_nat pageSize :: rat)))"

definition paged :: "'a list \<Rightarrow> nat \<Rightarrow> nat \<Rightarrow> 'a list" where
  "paged rs pageSize currentPage =
     (let safePage = min currentPage (total_pages rs pageSize)
      in drop ((safePage - 1) * pageSize) (take (safePage * pageSize) rs))"

section \<open>The rows of the backend\<close>

definition safe_ratio :: "rat \<Rightarrow> rat \<Rightarrow> rat" where
  "safe_ratio n d = (if d = 0 then 0 else n / d)"

record ad_totals =
  ad_id :: int
  ad_spend :: rat
  ad_revenue :: rat
  ad_impressions :: nat
  ad_clicks :: nat
  ad_purchases :: nat
  ad_p25 :: nat
  ad_p75 :: nat
  ad_v3 :: nat
  ad_lpv :: nat
  ad_comments :: nat

definition ad_row :: "(rat \<Rightarrow> string) \<Rightarrow> ad_totals \<Rightarrow> metric_row" where
  "ad_row decimal_str ad =
     \<lparr> rk_id = ad_id ad,
       rk_roas = decimal_str (safe_ratio (ad_revenue ad) (ad_spend ad)),
       rk_cpa = decimal_str (safe_ratio (ad_spend ad) (of_nat (ad_purchases ad))),
       rk_hook_rate_strict = decimal_str (safe_ratio (of_nat (ad_v3 ad)) (of_nat (ad_impressions ad)) * 100),
       rk_hold_rate = decimal_str (safe_ratio (of_nat (ad_p75 ad)) (of_nat (ad_p25 ad)) * 100),
       rk_ctr = decimal_str (safe_ratio (of_nat (ad_clicks ad)) (of_nat (ad_impressions ad)) * 100),
       rk_cost_per_lpv = decimal_str (safe_ratio (ad_spend ad) (of_nat (ad_lpv ad))),
       rk_cost_per_comment = decimal_str (safe_ratio (ad_spend ad) (of_nat (ad_comments ad))) \<rparr>"

section \<open>A metric spread over the rows\<close>

definition metric_values :: "metric_row list \<Rightarrow> ranking_metric \<Rightarrow> rat set" where
  "metric_values rows m = {v. \<exists>r \<in> set rows. readMetric r m = Some v}"

lemma finite_metric_values [simp]: "finite (metric_values rows m)"
proof -
  have "metric_values rows m \<subseteq> (\<lambda>r. the (readMetric r m)) ` set rows" by (force simp: metric_values_def)
  then show ?thesis by (rule finite_subset) simp
qed

lemma metric_values_snoc: "metric_values (rows @ [r]) m = (case readMetric r m of None \<Rightarrow> metric_values rows m | Some v \<Rightarrow> insert v (metric_values rows m))"
  by (auto simp: metric_values_def split: option.split)

lemma extremes_are: "extremes rows m =
  (if metric_values rows m = {} then (None, None) else (Some (Min (metric_values rows m)), Some (Max (metric_values rows m))))"
proof (induction rows rule: rev_induct)
  case Nil
  then show ?case by (simp add: extremes_def metric_values_def)
next
  case (snoc r rows)
  have "extremes (rows @ [r]) m = widen (extremes rows m) (readMetric r m)" by (simp add: extremes_def)
  moreover have "widen (Some mn, Some mx) (Some v) = (Some (min v mn), Some (max v mx))" for mn mx v
    by (auto simp: widen_def)
  moreover have "widen (None, None) (Some v) = (Some v, Some v)" and "widen acc None = acc" for v acc
    by (auto simp: widen_def)
  moreover have "Min (insert v S) = min v (Min S)" "Max (insert v S) = max v (Max S)" if "finite S" "S \<noteq> {}" for v :: rat and S
    using that by simp_all
  ultimately show ?case using snoc
    by (cases "metric_values rows m = {}"; cases "readMetric r m") (simp_all add: metric_values_snoc)
qed

lemma range_of_values:
  assumes "metric_values rows m \<noteq> {}"
  shows "computeRanges rows m = \<lparr> mr_min = Min (metric_values rows m), mr_max = Max (metric_values rows m),
    mr_range = Max (metric_values rows m) - Min (metric_values rows m) \<rparr>"
  using assms by (simp add: computeRanges_def extremes_are)

text \<open>The value a metric contributes: between nothing and its weight, and never less for a better value.\<close>

definition share :: "metric_row list \<Rightarrow> ranking_metric \<Rightarrow> rat \<Rightarrow> rat" where
  "share rows m raw = normalized (mr_min (computeRanges rows m)) (mr_range (computeRanges rows m)) (m \<in> INVERTED_METRICS) raw"

definition no_worse :: "ranking_metric \<Rightarrow> rat \<Rightarrow> rat \<Rightarrow> bool" where
  "no_worse m v u \<longleftrightarrow> (if m \<in> INVERTED_METRICS then v \<le> u else u \<le> v)"

lemma norm_unit:
  fixes v mn mx :: rat
  assumes "mn \<le> v" "v \<le> mx"
  shows "0 \<le> (v - mn) / (mx - mn)" "(v - mn) / (mx - mn) \<le> 1"
proof -
  show "0 \<le> (v - mn) / (mx - mn)" using assms by simp
  show "(v - mn) / (mx - mn) \<le> 1" using assms by (cases "mx = mn") (simp_all add: divide_le_eq)
qed

lemma share_unit: "v \<in> metric_values rows m \<Longrightarrow> 0 \<le> share rows m v \<and> share rows m v \<le> 1"
proof -
  assume v: "v \<in> metric_values rows m"
  then have "metric_values rows m \<noteq> {}" by blast
  from range_of_values [OF this] norm_unit [of "Min (metric_values rows m)" v "Max (metric_values rows m)"] v
  show ?thesis by (simp add: share_def normalized_def Let_def)
qed

lemma share_mono:
  assumes "v \<in> metric_values rows m" "u \<in> metric_values rows m" "no_worse m v u"
  shows "share rows m u \<le> share rows m v"
proof -
  have "Min (metric_values rows m) \<le> Max (metric_values rows m)" using assms(1) by (meson Max_ge Min_le finite_metric_values order_trans)
  moreover have "metric_values rows m \<noteq> {}" using assms(1) by blast
  ultimately show ?thesis
    using assms(3) divide_right_mono [of "v - Min (metric_values rows m)" "u - Min (metric_values rows m)"
        "Max (metric_values rows m) - Min (metric_values rows m)"]
      divide_right_mono [of "u - Min (metric_values rows m)" "v - Min (metric_values rows m)"
        "Max (metric_values rows m) - Min (metric_values rows m)"]
    by (simp add: share_def normalized_def range_of_values no_worse_def Let_def split: if_splits)
qed

lemma share_strict:
  assumes "v \<in> metric_values rows m" "u \<in> metric_values rows m" "no_worse m v u" "v \<noteq> u"
  shows "share rows m u < share rows m v"
proof -
  have "Min (metric_values rows m) < Max (metric_values rows m)"
    using assms(1,2,4) Max_ge [OF finite_metric_values] Min_le [OF finite_metric_values] by (metis antisym_conv not_le_imp_less order_trans)
  moreover have "metric_values rows m \<noteq> {}" using assms(1) by blast
  ultimately show ?thesis
    using assms(3,4) divide_strict_right_mono [of "v - Min (metric_values rows m)" "u - Min (metric_values rows m)"
        "Max (metric_values rows m) - Min (metric_values rows m)"]
      divide_strict_right_mono [of "u - Min (metric_values rows m)" "v - Min (metric_values rows m)"
        "Max (metric_values rows m) - Min (metric_values rows m)"]
    by (simp add: share_def normalized_def range_of_values no_worse_def Let_def split: if_splits)
qed

section \<open>Scores and ranks\<close>

definition contribution :: "metric_row list \<Rightarrow> weight_set \<Rightarrow> metric_row \<Rightarrow> ranking_metric \<Rightarrow> rat" where
  "contribution rows weights row m = (case readMetric row m of None \<Rightarrow> 0 | Some v \<Rightarrow> weight weights m * share rows m v)"

lemma add_metric_contribution: "add_metric (computeRanges rows) weights row s m = s + contribution rows weights row m"
  by (simp add: add_metric_def contribution_def share_def split: option.split)

definition composite :: "metric_row list \<Rightarrow> weight_set \<Rightarrow> metric_row \<Rightarrow> rat" where
  "composite rows weights row = (\<Sum>m \<leftarrow> RANKING_METRICS. contribution rows weights row m)"

lemma row_score_composite: "row_score (computeRanges rows) weights row = composite rows weights row"
  by (simp add: row_score_def composite_def RANKING_METRICS_def add_metric_contribution)

lemma score_of: "distinct (map rk_id rows) \<Longrightarrow> row \<in> set rows \<Longrightarrow>
  jmap_get (computeCompositeScores rows weights) (rk_id row) = Some (composite rows weights row)"
  by (simp add: computeCompositeScores_def Let_def filled row_score_composite)

lemma all_metrics: "m \<in> set RANKING_METRICS"
  by (cases m) (simp_all add: RANKING_METRICS_def)

interpretation score_order: comparator UNIV by_score
  by unfold_locales (auto simp: by_score_def split: if_splits)

lemma sum_list_strict:
  fixes f g :: "'a \<Rightarrow> rat"
  assumes "\<forall>x \<in> set xs. f x \<le> g x" and "x \<in> set xs" "f x < g x"
  shows "sum_list (map f xs) < sum_list (map g xs)"
  using assms
proof (induction xs)
  case (Cons y ys)
  have le: "sum_list (map f ys) \<le> sum_list (map g ys)" using Cons.prems(1) by (intro sum_list_mono) auto
  show ?case
  proof (cases "x = y")
    case True
    with le Cons.prems(3) show ?thesis by (simp add: add_less_le_mono)
  next
    case False
    with Cons show ?thesis by (simp add: add_le_less_mono)
  qed
qed simp

text \<open>The table: every row once, in the order of the scores, numbered from one.\<close>

lemma length_ranked [simp]: "length (ranked rows weights) = length rows"
  by (simp add: ranked_def Let_def)

lemma ranked_nth:
  assumes "i < length rows"
  shows "rr_rank (ranked rows weights ! i) = i + 1"
  using assms by (simp add: ranked_def Let_def nth_enumerate_eq)

lemma ranked_rows: "mset (map rr_row (ranked rows weights)) = mset rows"
proof -
  let ?out = "map (\<lambda>row. \<lparr> rr_row = row, rr_score = nullish (jmap_get (computeCompositeScores rows weights) (rk_id row)) 0, rr_rank = 0 \<rparr>) rows"
  have "map rr_row (ranked rows weights) = map rr_row (js_sort by_score ?out)"
    by (rule nth_equalityI) (simp_all add: ranked_def Let_def nth_enumerate_eq)
  also have "mset \<dots> = mset (map rr_row ?out)" by (simp only: mset_map mset_js_sort)
  finally show ?thesis by (simp add: comp_def)
qed

lemma ranked_scores:
  assumes "distinct (map rk_id rows)" and "r \<in> set (ranked rows weights)"
  shows "rr_score r = composite rows weights (rr_row r) \<and> rr_row r \<in> set rows"
proof -
  obtain r' where r': "r' \<in> set (js_sort by_score (map (\<lambda>row. \<lparr> rr_row = row,
      rr_score = nullish (jmap_get (computeCompositeScores rows weights) (rk_id row)) 0, rr_rank = 0 \<rparr>) rows))"
    "rr_row r = rr_row r'" "rr_score r = rr_score r'"
    using assms(2) by (force simp: ranked_def Let_def in_set_enumerate_eq simp del: set_js_sort)
  with assms(1) show ?thesis by (auto simp: score_of)
qed

lemma ranked_sorted:
  assumes "i < j" and "j < length rows"
  shows "rr_score (ranked rows weights ! j) \<le> rr_score (ranked rows weights ! i)"
proof -
  let ?out = "map (\<lambda>row. \<lparr> rr_row = row, rr_score = nullish (jmap_get (computeCompositeScores rows weights) (rk_id row)) 0, rr_rank = 0 \<rparr>) rows"
  have "sorted_wrt (\<lambda>a b. by_score a b \<le> 0) (js_sort by_score ?out)" by (rule score_order.sort_sorted) simp
  from sorted_wrt_nth_less [OF this assms(1)] assms(2) have "by_score (js_sort by_score ?out ! i) (js_sort by_score ?out ! j) \<le> 0" by simp
  moreover have "rr_score (ranked rows weights ! k) = rr_score (js_sort by_score ?out ! k)" if "k < length rows" for k
    using that by (simp add: ranked_def Let_def nth_enumerate_eq)
  ultimately show ?thesis using assms by (simp add: by_score_def split: if_splits)
qed

lemma higher_score_ranks_first:
  assumes "distinct (map rk_id rows)" and "ra \<in> set (ranked rows weights)" "rb \<in> set (ranked rows weights)"
    and "composite rows weights (rr_row rb) < composite rows weights (rr_row ra)"
  shows "rr_rank ra < rr_rank rb"
proof -
  obtain i j where ij: "i < length rows" "ranked rows weights ! i = ra" "j < length rows" "ranked rows weights ! j = rb"
    using assms(2,3) by (metis in_set_conv_nth length_ranked)
  have "rr_score rb < rr_score ra" using ranked_scores [OF assms(1)] assms(2-4) by simp
  then have "\<not> j < i" and "i \<noteq> j" using ranked_sorted [of j i rows weights] ij by auto
  with ij ranked_nth [of i rows weights] ranked_nth [of j rows weights] show ?thesis by simp
qed

lemma value_in: "row \<in> set rows \<Longrightarrow> readMetric row m = Some v \<Longrightarrow> v \<in> metric_values rows m"
  by (auto simp: metric_values_def)

lemma contribution_bounds:
  assumes "0 \<le> weight weights m" and "row \<in> set rows"
  shows "0 \<le> contribution rows weights row m \<and> contribution rows weights row m \<le> weight weights m"
  using assms share_unit [OF value_in, of row rows m]
  by (auto simp: contribution_def mult_left_le split: option.split)

lemma sumWeights_sum: "sumWeights weights = (\<Sum>m \<leftarrow> RANKING_METRICS. weight weights m)"
  by (simp add: sumWeights_def RANKING_METRICS_def)

lemma composite_bounds:
  assumes "\<forall>m. 0 \<le> weight weights m" and "row \<in> set rows"
  shows "0 \<le> composite rows weights row \<and> composite rows weights row \<le> sumWeights weights"
  using contribution_bounds [OF _ assms(2)] assms(1)
  by (auto simp: composite_def sumWeights_sum intro!: sum_list_nonneg sum_list_mono)

definition at_least_as_good :: "weight_set \<Rightarrow> metric_row \<Rightarrow> metric_row \<Rightarrow> bool" where
  "at_least_as_good weights a b \<longleftrightarrow>
     (\<forall>m. 0 < weight weights m \<longrightarrow> (\<exists>v u. readMetric a m = Some v \<and> readMetric b m = Some u \<and> no_worse m v u))"

lemma better_scores_higher:
  assumes weights: "\<forall>m. 0 \<le> weight weights m" and rows: "a \<in> set rows" "b \<in> set rows"
    and good: "at_least_as_good weights a b" and better: "0 < weight weights m" "readMetric a m \<noteq> readMetric b m"
  shows "composite rows weights b < composite rows weights a"
  unfolding composite_def
proof (rule sum_list_strict [OF _ all_metrics])
  have "contribution rows weights b k \<le> contribution rows weights a k" for k
  proof (cases "weight weights k = 0")
    case True
    then show ?thesis by (simp add: contribution_def split: option.split)
  next
    case False
    then have "0 < weight weights k" using weights by (metis less_eq_rat_def)
    moreover from this obtain v u where "readMetric a k = Some v" "readMetric b k = Some u" "no_worse k v u"
      using good by (auto simp: at_least_as_good_def)
    ultimately show ?thesis using share_mono [of v rows k u] value_in rows by (simp add: contribution_def)
  qed
  then show "\<forall>k \<in> set RANKING_METRICS. contribution rows weights b k \<le> contribution rows weights a k" by blast
  obtain v u where "readMetric a m = Some v" "readMetric b m = Some u" "no_worse m v u"
    using good better(1) by (auto simp: at_least_as_good_def)
  then show "contribution rows weights b m < contribution rows weights a m"
    using share_strict [of v rows m u] value_in rows better by (simp add: contribution_def)
qed

text \<open>C39: In the leaderboard an ad that is at least as good as another in every metric with a weight, and
  different in one of them, has the higher score and stands above it; every score lies between nothing
  and the sum of the weights.  A lower cost is better.\<close>

theorem better_ad_ranks_higher:
  assumes "distinct (map rk_id rows)" and "\<forall>m. 0 \<le> weight weights m"
    and "ra \<in> set (ranked rows weights)" "rb \<in> set (ranked rows weights)"
    and "at_least_as_good weights (rr_row ra) (rr_row rb)"
    and "0 < weight weights m" "readMetric (rr_row ra) m \<noteq> readMetric (rr_row rb) m"
  shows "0 \<le> rr_score rb \<and> rr_score rb < rr_score ra \<and> rr_score ra \<le> sumWeights weights \<and> rr_rank ra < rr_rank rb"
proof -
  have rows: "rr_row ra \<in> set rows" "rr_row rb \<in> set rows" using ranked_scores [OF assms(1)] assms(3,4) by auto
  from better_scores_higher [OF assms(2) rows assms(5-7)] show ?thesis
    using composite_bounds [OF assms(2)] rows ranked_scores [OF assms(1)] assms(3,4)
      higher_score_ranks_first [OF assms(1,3,4)] by auto
qed

definition plain_row :: "int \<Rightarrow> string \<Rightarrow> string \<Rightarrow> metric_row" where
  "plain_row i roas cpa = \<lparr> rk_id = i, rk_roas = roas, rk_cpa = cpa, rk_hook_rate_strict = ''0'', rk_hold_rate = ''0'',
     rk_ctr = ''0'', rk_cost_per_lpv = ''0'', rk_cost_per_comment = ''0'' \<rparr>"

lemma best_first: "ranked [plain_row 1 ''1'' ''20'', plain_row 2 ''4'' ''12''] (applyPreset Performance) =
  [\<lparr> rr_row = plain_row 2 ''4'' ''12'', rr_score = 4 / 5, rr_rank = 1 \<rparr>, \<lparr> rr_row = plain_row 1 ''1'' ''20'', rr_score = 0, rr_rank = 2 \<rparr>]"
  by code_simp

theorem better_ad_ranks_higher_witness:
  "(\<lparr> rr_row = plain_row 2 ''4'' ''12'', rr_score = 4 / 5, rr_rank = 1 \<rparr> :: ranked_row) \<in>
     set (ranked [plain_row 1 ''1'' ''20'', plain_row 2 ''4'' ''12''] (applyPreset Performance)) \<and> (4 / 5 :: rat) \<le> sumWeights (applyPreset Performance)"
proof -
  have read: "readMetric (plain_row i r c) m = (case m of Roas \<Rightarrow> finite_number r | Cpa \<Rightarrow> finite_number c | _ \<Rightarrow> finite_number ''0'')" for i r c m
    by (cases m) (simp_all add: plain_row_def readMetric_def)
  have texts: "finite_number ''1'' = Some 1" "finite_number ''4'' = Some 4" "finite_number ''20'' = Some 20"
    "finite_number ''12'' = Some 12" "finite_number ''0'' = Some 0" by code_simp+
  have "at_least_as_good (applyPreset Performance) (plain_row 2 ''4'' ''12'') (plain_row 1 ''1'' ''20'')"
    unfolding at_least_as_good_def
  proof (intro allI impI)
    fix m show "\<exists>v u. readMetric (plain_row 2 ''4'' ''12'') m = Some v \<and> readMetric (plain_row 1 ''1'' ''20'') m = Some u \<and> no_worse m v u"
      by (cases m) (simp_all add: read texts no_worse_def INVERTED_METRICS_def)
  qed
  moreover have "0 \<le> weight (applyPreset Performance) m" for m by (cases m) (simp_all add: weight_def applyPreset_def)
  ultimately show ?thesis
    using better_ad_ranks_higher [of "[plain_row 1 ''1'' ''20'', plain_row 2 ''4'' ''12'']" "applyPreset Performance"
        "\<lparr> rr_row = plain_row 2 ''4'' ''12'', rr_score = 4 / 5, rr_rank = 1 \<rparr>"
        "\<lparr> rr_row = plain_row 1 ''1'' ''20'', rr_score = 0, rr_rank = 2 \<rparr>" Roas]
    by (simp add: best_first read texts) (simp add: plain_row_def weight_def applyPreset_def)
qed

text \<open>The radar chart shows a metric exactly as the leaderboard scores it when it has all the weight.\<close>

lemma radar_agrees_with_ranking:
  "computeMinMaxNormalized rows m (m \<in> INVERTED_METRICS) = computeCompositeScores rows (\<lambda>k. Some (if k = m then 1 else 0))"
proof -
  let ?w = "\<lambda>k. Some (if k = m then 1 else 0 :: rat)"
  have "row_score (computeRanges rows) ?w r = (case readMetric r m of None \<Rightarrow> 0 | Some v \<Rightarrow> share rows m v)" for r
    unfolding row_score_composite composite_def
    by (cases m; cases "readMetric r m") (simp_all add: RANKING_METRICS_def contribution_def weight_def split: option.split)
  moreover have "normalized (nullish (fst (extremes rows m)) 0)
      (case extremes rows m of (Some mn, Some mx) \<Rightarrow> mx - mn | _ \<Rightarrow> 0) (m \<in> INVERTED_METRICS) v = share rows m v"
    if "r \<in> set rows" "readMetric r m = Some v" for r v
    using value_in [OF that] by (auto simp: share_def extremes_are range_of_values)
  ultimately show ?thesis
    unfolding computeMinMaxNormalized_def computeCompositeScores_def Let_def
    by (intro foldl_cong) (auto split: option.split)
qed

text \<open>The presets add up to one and are recognised; the pages of the table cut it into pieces.\<close>

lemma presets_recognised: "detectActivePreset (applyPreset name) = Some name \<and> sumWeights (applyPreset name) = 1"
  by (cases name)
     (simp_all add: detectActivePreset_def preset_matches_def weight_def applyPreset_def PRESET_EQ_TOLERANCE_def
       sumWeights_def RANKING_METRICS_def)

lemma pages_up_to: "concat (map (\<lambda>p. drop ((p - 1) * n) (take (p * n) xs)) [1..<Suc k]) = take (k * n) xs"
proof (induction k)
  case (Suc k)
  have "take (k * n) xs @ drop (k * n) (take (Suc k * n) xs) = take (Suc k * n) xs"
    by (metis append_take_drop_id le_add2 min.absorb1 mult_Suc take_take)
  with Suc show ?case by simp
qed simp

lemma pages_cover:
  assumes "0 < pageSize"
  shows "concat (map (paged xs pageSize) [1..<Suc (total_pages xs pageSize)]) = xs"
proof -
  have "map (paged xs pageSize) [1..<Suc (total_pages xs pageSize)] =
      map (\<lambda>p. drop ((p - 1) * pageSize) (take (p * pageSize) xs)) [1..<Suc (total_pages xs pageSize)]"
    by (rule map_cong) (auto simp: paged_def Let_def min_def)
  moreover have "length xs \<le> total_pages xs pageSize * pageSize"
  proof -
    have "(of_nat (length xs) / of_nat pageSize :: rat) \<le> of_int (ceiling (of_nat (length xs) / of_nat pageSize :: rat))"
      by (rule le_of_int_ceiling)
    also have "\<dots> \<le> of_nat (total_pages xs pageSize)" by (simp add: total_pages_def of_nat_nat)
    finally have "of_nat (length xs) \<le> (of_nat (total_pages xs pageSize) * of_nat pageSize :: rat)"
      using assms by (simp add: field_simps)
    then show ?thesis by (metis of_nat_le_iff of_nat_mult)
  qed
  ultimately show ?thesis by (simp only: pages_up_to take_all)
qed

text \<open>A metric of cost that is the same for all rows counts with its full weight, not with nothing as the
  comment on the module says; one of profit counts with nothing.\<close>

lemma constant_metric:
  assumes "\<forall>r \<in> set rows. readMetric r m = Some v" and "row \<in> set rows"
  shows "contribution rows weights row m = (if m \<in> INVERTED_METRICS then weight weights m else 0)"
proof -
  have "metric_values rows m = {v}" using assms by (force simp: metric_values_def)
  then show ?thesis using assms by (simp add: contribution_def share_def normalized_def range_of_values)
qed

section \<open>Ads without results\<close>

text \<open>What the printing of a \<open>Decimal\<close> has to keep: nought, and the sign of a positive number.\<close>

definition prints_decimals :: "(rat \<Rightarrow> string) \<Rightarrow> bool" where
  "prints_decimals decimal_str \<longleftrightarrow>
     finite_number (decimal_str 0) = Some 0 \<and> (\<forall>x > 0. \<exists>y > 0. finite_number (decimal_str x) = Some y)"

definition without_results :: "ad_totals \<Rightarrow> bool" where
  "without_results ad \<longleftrightarrow> ad_purchases ad = 0 \<and> ad_lpv ad = 0 \<and> ad_comments ad = 0"

lemma printed_ratio:
  assumes "prints_decimals decimal_str" and "0 \<le> n" and "0 \<le> d"
  shows "\<exists>y \<ge> 0. finite_number (decimal_str (safe_ratio n d)) = Some y \<and> (y = 0 \<longleftrightarrow> n = 0 \<or> d = 0)"
proof (cases "n = 0 \<or> d = 0")
  case True
  then have "safe_ratio n d = 0" by (auto simp: safe_ratio_def)
  with True assms(1) show ?thesis by (auto simp: prints_decimals_def)
next
  case False
  then have "0 < safe_ratio n d" using assms(2,3) by (simp add: safe_ratio_def)
  with assms(1) obtain y where "0 < y" "finite_number (decimal_str (safe_ratio n d)) = Some y" by (auto simp: prints_decimals_def)
  with False show ?thesis by (intro exI [of _ y]) auto
qed

text \<open>When only costs have weight, an ad that has brought nothing at all - no purchase, no page view, no
  comment - stands above every ad that has sold something: the backend reports a cost of nought where
  there is nothing to divide by, and the score takes the lowest cost for the best.\<close>

lemma ad_without_results_ranks_first:
  assumes "distinct (map ad_id ads)" and "\<forall>m. 0 \<le> weight weights m" "\<forall>m. m \<notin> INVERTED_METRICS \<longrightarrow> weight weights m = 0"
    and "0 < weight weights Cpa" and "prints_decimals decimal_str" and ads: "a \<in> set ads" "b \<in> set ads"
    and "without_results a" and b: "0 < ad_spend b" "0 < ad_purchases b"
    and "ra \<in> set (ranked (map (ad_row decimal_str) ads) weights)" "rb \<in> set (ranked (map (ad_row decimal_str) ads) weights)"
    and "rr_row ra = ad_row decimal_str a" "rr_row rb = ad_row decimal_str b"
  shows "rr_rank ra < rr_rank rb"
proof -
  have ids: "distinct (map rk_id (map (ad_row decimal_str) ads))" using assms(1) by (simp add: comp_def ad_row_def)
  have nought: "readMetric (ad_row decimal_str a) m = Some 0" if "m \<in> INVERTED_METRICS" for m
    using that assms(5,8) by (auto simp: INVERTED_METRICS_def readMetric_def ad_row_def without_results_def safe_ratio_def prints_decimals_def)
  have cost: "\<exists>y \<ge> 0. readMetric (ad_row decimal_str b) m = Some y" if "m \<in> INVERTED_METRICS" for m
  proof -
    have "\<exists>y \<ge> 0. finite_number (decimal_str (safe_ratio (ad_spend b) (of_nat k))) = Some y" for k
      using printed_ratio [OF assms(5), of "ad_spend b" "of_nat k"] b(1) by auto
    with that show ?thesis by (auto simp: INVERTED_METRICS_def readMetric_def ad_row_def)
  qed
  have "readMetric (ad_row decimal_str b) Cpa \<noteq> Some 0"
    using printed_ratio [OF assms(5), of "ad_spend b" "of_nat (ad_purchases b)"] b by (auto simp: readMetric_def ad_row_def)
  then have "readMetric (ad_row decimal_str a) Cpa \<noteq> readMetric (ad_row decimal_str b) Cpa"
    using nought [of Cpa] by (simp add: INVERTED_METRICS_def)
  moreover have "at_least_as_good weights (ad_row decimal_str a) (ad_row decimal_str b)"
    unfolding at_least_as_good_def using assms(3) nought cost
    by (metis less_irrefl no_worse_def)
  ultimately have "composite (map (ad_row decimal_str) ads) weights (rr_row rb) < composite (map (ad_row decimal_str) ads) weights (rr_row ra)"
    using better_scores_higher [OF assms(2), of "ad_row decimal_str a" "map (ad_row decimal_str) ads"] assms(4,13,14) ads by simp
  from higher_score_ranks_first [OF ids assms(11,12) this] show ?thesis .
qed

definition an_ad :: "int \<Rightarrow> nat \<Rightarrow> ad_totals" where
  "an_ad i purchases = \<lparr> ad_id = i, ad_spend = 100, ad_revenue = 0, ad_impressions = 1, ad_clicks = 0,
     ad_purchases = purchases, ad_p25 = 0, ad_p75 = 0, ad_v3 = 0, ad_lpv = 0, ad_comments = 0 \<rparr>"

definition short_decimal :: "rat \<Rightarrow> string" where
  "short_decimal x = (if x = 0 then ''0'' else ''1'')"

lemma short_decimal_prints: "prints_decimals short_decimal"
proof -
  have "finite_number ''0'' = Some 0" "finite_number ''1'' = Some 1" by code_simp+
  then show ?thesis by (auto simp: prints_decimals_def short_decimal_def)
qed

lemma ad_without_results_ranks_first_witness:
  "map rr_rank (ranked (map (ad_row short_decimal) [an_ad 1 1, an_ad 2 0]) (\<lambda>m. Some (if m = Cpa then 1 else 0))) = [1, 2] \<and>
   (1::nat) < 2"
proof -
  let ?ads = "[an_ad 1 1, an_ad 2 0]" and ?w = "\<lambda>m. Some (if m = Cpa then 1 else 0 :: rat)"
  have table: "ranked (map (ad_row short_decimal) ?ads) ?w =
      [\<lparr> rr_row = ad_row short_decimal (an_ad 2 0), rr_score = 1, rr_rank = 1 \<rparr>,
       \<lparr> rr_row = ad_row short_decimal (an_ad 1 1), rr_score = 0, rr_rank = 2 \<rparr>]" by code_simp
  have "rr_rank (\<lparr> rr_row = ad_row short_decimal (an_ad 2 0), rr_score = 1, rr_rank = 1 \<rparr>) <
      rr_rank (\<lparr> rr_row = ad_row short_decimal (an_ad 1 1), rr_score = 0, rr_rank = 2 \<rparr>)"
    by (rule ad_without_results_ranks_first [of ?ads ?w short_decimal "an_ad 2 0" "an_ad 1 1", OF _ _ _ _ short_decimal_prints])
       (simp_all only: table, simp_all add: an_ad_def weight_def INVERTED_METRICS_def without_results_def)
  then show ?thesis unfolding table by simp
qed

end
