(* ===== verification/Task_Autosave.thy ===== *)
theory Task_Autosave imports Js_Object Event_System begin

text \<open>
  The drafts of the task form (\<open>src/frontend/src/hooks/useTaskFormAutosave.ts\<close>) and the cache that holds
  them (\<open>TaskFormAutosaveView\<close> of \<open>src/backend/task/views.py\<close>).  A payload is its JSON text, a request
  is in flight until it is answered, and a timer is pending until it fires or is cleared.
\<close>

section \<open>State\<close>

datatype draft_request =
    Flush_Put string string
  | Replay_Put string string "string list"
  | Draft_Delete string

record autosave =
  au_type :: string
  au_storage :: "(string, string list) jmap"
  au_timers :: "(nat \<times> string) list"
  au_saveTimeoutRef :: "nat option"
  au_next_timer :: nat
  au_suspendAutoSaveRef :: bool
  au_pendingPayloadRef :: "string option"
  au_requests :: "draft_request list"
  au_isSaving :: bool
  au_lastSavedAt :: "int option"
  au_server :: "(string, string) jmap"

section \<open>The local queue\<close>

definition readQueue :: "string \<Rightarrow> autosave \<Rightarrow> string list" where
  "readQueue t s = nullish (jmap_get (au_storage s) t) []"

definition pushToQueue :: "string \<Rightarrow> string \<Rightarrow> autosave \<Rightarrow> autosave" where
  "pushToQueue t payload s = s\<lparr> au_storage := jmap_set t (readQueue t s @ [payload]) (au_storage s) \<rparr>"

definition clearQueue :: "string \<Rightarrow> autosave \<Rightarrow> autosave" where
  "clearQueue t s = s\<lparr> au_storage := jmap_delete t (au_storage s) \<rparr>"

section \<open>The hook\<close>

definition clear_timeout :: "autosave \<Rightarrow> autosave" where
  "clear_timeout s =
     (case au_saveTimeoutRef s of
        None \<Rightarrow> s
      | Some i \<Rightarrow> s\<lparr> au_timers := filter (\<lambda>t. fst t \<noteq> i) (au_timers s) \<rparr>)"

definition send :: "draft_request \<Rightarrow> autosave \<Rightarrow> autosave" where
  "send r s = s\<lparr> au_requests := au_requests s @ [r] \<rparr>"

definition flush :: "string \<Rightarrow> string \<Rightarrow> autosave \<Rightarrow> autosave" where
  "flush t payload s = send (Flush_Put t payload) (s\<lparr> au_isSaving := True \<rparr>)"

definition save :: "string \<Rightarrow> autosave \<Rightarrow> autosave" where
  "save payload s =
     (let s1 = s\<lparr> au_pendingPayloadRef := Some payload \<rparr>
      in if au_suspendAutoSaveRef s1 then s1
         else let s2 = clear_timeout s1
              in s2\<lparr> au_timers := au_timers s2 @ [(au_next_timer s2, au_type s2)],
                     au_saveTimeoutRef := Some (au_next_timer s2), au_next_timer := Suc (au_next_timer s2) \<rparr>)"

definition timer_fires :: "nat \<Rightarrow> autosave \<Rightarrow> autosave" where
  "timer_fires i s =
     (case map_of (au_timers s) i of
        None \<Rightarrow> s
      | Some t \<Rightarrow>
          (let s1 = s\<lparr> au_timers := filter (\<lambda>t. fst t \<noteq> i) (au_timers s) \<rparr>
           in case au_pendingPayloadRef s1 of
                None \<Rightarrow> s1
              | Some payload \<Rightarrow> if au_suspendAutoSaveRef s1 then s1 else flush t payload s1))"

definition saveNow :: "autosave \<Rightarrow> autosave" where
  "saveNow s =
     (let s1 = (clear_timeout s)\<lparr> au_saveTimeoutRef := None \<rparr>
      in case au_pendingPayloadRef s1 of None \<Rightarrow> s1 | Some payload \<Rightarrow> flush (au_type s1) payload s1)"

definition clear_draft :: "autosave \<Rightarrow> autosave" where
  "clear_draft s =
     (let s1 = (clear_timeout s)\<lparr> au_saveTimeoutRef := None, au_pendingPayloadRef := None \<rparr>
      in send (Draft_Delete (au_type s1)) (clearQueue (au_type s1) s1))"

definition suspend :: "autosave \<Rightarrow> autosave" where
  "suspend s = (clear_timeout (s\<lparr> au_suspendAutoSaveRef := True \<rparr>))\<lparr> au_saveTimeoutRef := None \<rparr>"

definition resume :: "autosave \<Rightarrow> autosave" where
  "resume s = s\<lparr> au_suspendAutoSaveRef := False \<rparr>"

text \<open>The loop over the queue stands at its first request.\<close>

definition onOnline :: "autosave \<Rightarrow> autosave" where
  "onOnline s =
     (case readQueue (au_type s) s of
        [] \<Rightarrow> s
      | payload # rest \<Rightarrow> send (Replay_Put (au_type s) payload rest) (clearQueue (au_type s) s))"

section \<open>Replies\<close>

text \<open>What becomes of a request: the cache may have changed although the reply got lost.\<close>

datatype outcome = Answered | Refused | Reply_Lost

definition put_cache :: "string \<Rightarrow> string \<Rightarrow> autosave \<Rightarrow> autosave" where
  "put_cache t payload s = s\<lparr> au_server := jmap_set t payload (au_server s) \<rparr>"

definition delete_cache :: "string \<Rightarrow> autosave \<Rightarrow> autosave" where
  "delete_cache t s = s\<lparr> au_server := jmap_delete t (au_server s) \<rparr>"

definition reach_cache :: "draft_request \<Rightarrow> autosave \<Rightarrow> autosave" where
  "reach_cache r s =
     (case r of Flush_Put t p \<Rightarrow> put_cache t p s | Replay_Put t p _ \<Rightarrow> put_cache t p s | Draft_Delete t \<Rightarrow> delete_cache t s)"

fun settled_ok :: "draft_request \<Rightarrow> int \<Rightarrow> autosave \<Rightarrow> autosave" where
  "settled_ok (Flush_Put t p) now s = s\<lparr> au_lastSavedAt := Some now, au_isSaving := False \<rparr>"
| "settled_ok (Replay_Put t p rest) now s =
     (let s1 = s\<lparr> au_lastSavedAt := Some now \<rparr>
      in case rest of [] \<Rightarrow> s1 | p' # rest' \<Rightarrow> send (Replay_Put t p' rest') s1)"
| "settled_ok (Draft_Delete t) now s = s"

fun settled_error :: "draft_request \<Rightarrow> bool \<Rightarrow> autosave \<Rightarrow> autosave" where
  "settled_error (Flush_Put t p) onLine s = (if onLine then s else pushToQueue t p s)\<lparr> au_isSaving := False \<rparr>"
| "settled_error (Replay_Put t p rest) onLine s = pushToQueue t p s"
| "settled_error (Draft_Delete t) onLine s = s"

definition settle_request :: "nat \<Rightarrow> outcome \<Rightarrow> bool \<Rightarrow> int \<Rightarrow> autosave \<Rightarrow> autosave" where
  "settle_request i result onLine now s =
     (if i < length (au_requests s)
      then let r = au_requests s ! i;
               s1 = s\<lparr> au_requests := take i (au_requests s) @ drop (Suc i) (au_requests s) \<rparr>;
               s2 = (if result = Refused then s1 else reach_cache r s1)
           in if result = Answered then settled_ok r now s2 else settled_error r onLine s2
      else s)"

section \<open>All interleavings\<close>

datatype autosave_event =
    Save string
  | Timer_Fires nat
  | Save_Now
  | Clear_Draft
  | Suspend
  | Resume
  | Online
  | Settle nat outcome bool int
  | Change_Type string
  | Unmount

fun perform_autosave :: "autosave_event \<Rightarrow> autosave \<Rightarrow> autosave" where
  "perform_autosave (Save p) s = save p s"
| "perform_autosave (Timer_Fires i) s = timer_fires i s"
| "perform_autosave Save_Now s = saveNow s"
| "perform_autosave Clear_Draft s = clear_draft s"
| "perform_autosave Suspend s = suspend s"
| "perform_autosave Resume s = resume s"
| "perform_autosave Online s = onOnline s"
| "perform_autosave (Settle i result onLine now) s = settle_request i result onLine now s"
| "perform_autosave (Change_Type t) s = s\<lparr> au_type := t \<rparr>"
| "perform_autosave Unmount s = clear_timeout s"

section \<open>A form that is left alone\<close>

text \<open>Nothing fails, requests are answered in the order they were sent, and the form keeps its type.\<close>

fun calm :: "autosave \<Rightarrow> autosave_event \<Rightarrow> bool" where
  "calm s (Save p) \<longleftrightarrow> True"
| "calm s (Timer_Fires i) \<longleftrightarrow> i \<in> fst ` set (au_timers s)"
| "calm s Save_Now \<longleftrightarrow> True"
| "calm s Clear_Draft \<longleftrightarrow> True"
| "calm s Online \<longleftrightarrow> True"
| "calm s (Settle i result onLine now) \<longleftrightarrow> i = 0 \<and> au_requests s \<noteq> [] \<and> result = Answered"
| "calm s Suspend \<longleftrightarrow> False"
| "calm s Resume \<longleftrightarrow> False"
| "calm s (Change_Type t) \<longleftrightarrow> False"
| "calm s Unmount \<longleftrightarrow> False"

definition quiet :: "autosave \<Rightarrow> bool" where
  "quiet s \<longleftrightarrow> au_timers s = [] \<and> au_requests s = []"

text \<open>What the cache will hold once all requests have been answered.\<close>

fun after_request :: "string option \<Rightarrow> draft_request \<Rightarrow> string option" where
  "after_request d (Flush_Put t p) = Some p"
| "after_request d (Replay_Put t p rest) = Some (last (p # rest))"
| "after_request d (Draft_Delete t) = None"

definition eventual :: "autosave \<Rightarrow> string option" where
  "eventual s = foldl after_request (jmap_get (au_server s) (au_type s)) (au_requests s)"

fun plain_request :: "string \<Rightarrow> draft_request \<Rightarrow> bool" where
  "plain_request t (Flush_Put t' p) \<longleftrightarrow> t' = t"
| "plain_request t (Replay_Put t' p rest) \<longleftrightarrow> False"
| "plain_request t (Draft_Delete t') \<longleftrightarrow> t' = t"

definition draft_inv :: "autosave \<Rightarrow> bool" where
  "draft_inv s \<longleftrightarrow> \<not> au_suspendAutoSaveRef s \<and> readQueue (au_type s) s = [] \<and>
     list_all (plain_request (au_type s)) (au_requests s) \<and>
     (au_timers s = [] \<and> eventual s = au_pendingPayloadRef s \<or>
      (\<exists>i. au_timers s = [(i, au_type s)] \<and> au_saveTimeoutRef s = Some i \<and> au_pendingPayloadRef s \<noteq> None))"

lemma readQueue_cong [simp]:
  "readQueue t (s\<lparr> au_timers := a \<rparr>) = readQueue t s" "readQueue t (s\<lparr> au_saveTimeoutRef := b \<rparr>) = readQueue t s"
  "readQueue t (s\<lparr> au_next_timer := c \<rparr>) = readQueue t s" "readQueue t (s\<lparr> au_pendingPayloadRef := d \<rparr>) = readQueue t s"
  "readQueue t (s\<lparr> au_requests := e \<rparr>) = readQueue t s" "readQueue t (s\<lparr> au_isSaving := f \<rparr>) = readQueue t s"
  "readQueue t (s\<lparr> au_lastSavedAt := g \<rparr>) = readQueue t s" "readQueue t (s\<lparr> au_server := h \<rparr>) = readQueue t s"
  by (simp_all add: readQueue_def)

lemma eventual_cong [simp]:
  "eventual (s\<lparr> au_timers := a \<rparr>) = eventual s" "eventual (s\<lparr> au_saveTimeoutRef := b \<rparr>) = eventual s"
  "eventual (s\<lparr> au_next_timer := c \<rparr>) = eventual s" "eventual (s\<lparr> au_pendingPayloadRef := d \<rparr>) = eventual s"
  "eventual (s\<lparr> au_isSaving := e \<rparr>) = eventual s" "eventual (s\<lparr> au_lastSavedAt := f \<rparr>) = eventual s"
  "eventual (s\<lparr> au_storage := g \<rparr>) = eventual s"
  by (simp_all add: eventual_def)

lemma eventual_send: "eventual (send r s) = after_request (eventual s) r"
  by (simp add: eventual_def send_def)

lemma draft_inv_timers: "draft_inv s \<Longrightarrow> au_timers (clear_timeout s) = []"
  by (auto simp: draft_inv_def clear_timeout_def split: option.split)

lemma clear_timeout_fields [simp]:
  "au_type (clear_timeout s) = au_type s" "au_suspendAutoSaveRef (clear_timeout s) = au_suspendAutoSaveRef s"
  "au_requests (clear_timeout s) = au_requests s" "readQueue t (clear_timeout s) = readQueue t s"
  "au_pendingPayloadRef (clear_timeout s) = au_pendingPayloadRef s" "eventual (clear_timeout s) = eventual s"
  "au_server (clear_timeout s) = au_server s" "au_storage (clear_timeout s) = au_storage s"
  by (simp_all add: clear_timeout_def split: option.split)

lemma inv_save: "draft_inv s \<Longrightarrow> draft_inv (save p s)"
proof -
  assume inv: "draft_inv s"
  then have "draft_inv (s\<lparr> au_pendingPayloadRef := Some p \<rparr>) \<or> au_timers s = []" by (auto simp: draft_inv_def)
  then have "au_timers (clear_timeout (s\<lparr> au_pendingPayloadRef := Some p \<rparr>)) = []"
    using draft_inv_timers [of "s\<lparr> au_pendingPayloadRef := Some p \<rparr>"] by (auto simp: clear_timeout_def split: option.split)
  with inv show ?thesis by (simp add: draft_inv_def save_def Let_def)
qed

lemma inv_timer: "draft_inv s \<Longrightarrow> i \<in> fst ` set (au_timers s) \<Longrightarrow> draft_inv (timer_fires i s)"
  by (auto simp: draft_inv_def timer_fires_def Let_def flush_def eventual_send send_def [symmetric])
     (simp_all add: send_def)

lemma inv_save_now: "draft_inv s \<Longrightarrow> draft_inv (saveNow s)"
  using draft_inv_timers [of s]
  by (cases "au_pendingPayloadRef s") (auto simp: draft_inv_def saveNow_def Let_def flush_def eventual_send, auto simp: send_def)

lemma inv_clear: "draft_inv s \<Longrightarrow> draft_inv (clear_draft s)"
  using draft_inv_timers [of s]
  by (auto simp: draft_inv_def clear_draft_def Let_def eventual_send, 
      auto simp: send_def clearQueue_def readQueue_def jmap_get_delete)

lemma inv_online: "draft_inv s \<Longrightarrow> onOnline s = s"
  by (simp add: draft_inv_def onOnline_def)

lemma inv_settle:
  assumes inv: "draft_inv s" and some: "au_requests s \<noteq> []"
  shows "draft_inv (settle_request 0 Answered onLine now s)"
    "au_pendingPayloadRef (settle_request 0 Answered onLine now s) = au_pendingPayloadRef s"
    "au_timers (settle_request 0 Answered onLine now s) = au_timers s"
    "length (au_requests s) = Suc (length (au_requests (settle_request 0 Answered onLine now s)))"
proof -
  obtain r rs where rs: "au_requests s = r # rs" using some by (cases "au_requests s") auto
  with inv have plain: "plain_request (au_type s) r" by (simp add: draft_inv_def)
  let ?s = "settle_request 0 Answered onLine now s"
  have fields: "au_requests ?s = rs \<and> au_type ?s = au_type s \<and> au_timers ?s = au_timers s \<and> au_saveTimeoutRef ?s = au_saveTimeoutRef s \<and>
      au_pendingPayloadRef ?s = au_pendingPayloadRef s \<and> au_suspendAutoSaveRef ?s = au_suspendAutoSaveRef s \<and>
      readQueue (au_type s) ?s = readQueue (au_type s) s \<and> eventual ?s = eventual s"
    using rs plain
    by (cases r) (simp_all add: settle_request_def reach_cache_def put_cache_def delete_cache_def eventual_def
        jmap_get_set jmap_get_delete readQueue_def)
  then show "au_pendingPayloadRef ?s = au_pendingPayloadRef s" "au_timers ?s = au_timers s"
    "length (au_requests s) = Suc (length (au_requests ?s))" using rs by simp_all
  show "draft_inv ?s" using fields inv rs by (simp add: draft_inv_def)
qed

interpretation draft: event_system calm perform_autosave draft_inv
proof
  fix s e assume "draft_inv s" "calm s e"
  then show "draft_inv (perform_autosave e s)"
    by (cases e) (simp_all add: inv_save inv_timer inv_save_now inv_clear inv_online inv_settle)
qed

text \<open>From here to rest: the timer fires and the requests are answered.\<close>

lemma settle_all:
  "draft_inv s \<Longrightarrow> au_timers s = [] \<Longrightarrow>
   \<exists>s'. reaches calm perform_autosave s s' \<and> quiet s' \<and> au_pendingPayloadRef s' = au_pendingPayloadRef s"
proof (induction "length (au_requests s)" arbitrary: s)
  case 0
  then show ?case by (intro exI [of _ s]) (auto simp: quiet_def)
next
  case (Suc n)
  let ?s = "settle_request 0 Answered True 0 s"
  have "au_requests s \<noteq> []" using Suc(2) by auto
  note one = inv_settle [OF Suc(3) this, where onLine = True and now = 0]
  have "n = length (au_requests ?s)" using Suc(2) one(4) by simp
  from Suc(1) [OF this one(1)] one(2,3) Suc(4) obtain s' where
    "reaches calm perform_autosave ?s s'" "quiet s'" "au_pendingPayloadRef s' = au_pendingPayloadRef s" by auto
  moreover have "reaches calm perform_autosave s ?s"
    using reaches_step [OF reaches_init, where e = "Settle 0 Answered True 0" and guard = calm and perform = perform_autosave]
      \<open>au_requests s \<noteq> []\<close> by simp
  ultimately show ?case using reaches_trans by metis
qed

lemma comes_to_rest:
  assumes "draft_inv s"
  shows "\<exists>s'. reaches calm perform_autosave s s' \<and> quiet s' \<and> au_pendingPayloadRef s' = au_pendingPayloadRef s"
proof (cases "au_timers s = []")
  case True
  then show ?thesis using settle_all [OF assms] by simp
next
  case False
  with assms obtain i p where i: "au_timers s = [(i, au_type s)]" "au_pendingPayloadRef s = Some p" "\<not> au_suspendAutoSaveRef s"
    by (auto simp: draft_inv_def)
  let ?s = "timer_fires i s"
  have "reaches calm perform_autosave s ?s"
    using reaches_step [OF reaches_init, where e = "Timer_Fires i" and guard = calm and perform = perform_autosave] i(1) by simp
  moreover have "draft_inv ?s" using inv_timer assms i(1) by simp
  moreover have "au_timers ?s = []" "au_pendingPayloadRef ?s = au_pendingPayloadRef s"
    using i by (simp_all add: timer_fires_def Let_def flush_def send_def)
  ultimately show ?thesis using settle_all [of ?s] reaches_trans by metis
qed

lemma quiet_holds: "draft_inv s \<Longrightarrow> quiet s \<Longrightarrow> jmap_get (au_server s) (au_type s) = au_pendingPayloadRef s"
  by (auto simp: draft_inv_def quiet_def eventual_def)

definition fresh_form :: "autosave \<Rightarrow> bool" where
  "fresh_form s \<longleftrightarrow> au_timers s = [] \<and> au_requests s = [] \<and> \<not> au_suspendAutoSaveRef s \<and>
     readQueue (au_type s) s = [] \<and> au_pendingPayloadRef s = None \<and> jmap_get (au_server s) (au_type s) = None"

lemma fresh_inv: "fresh_form s \<Longrightarrow> draft_inv s"
  by (simp add: fresh_form_def draft_inv_def eventual_def)


definition new_form :: "string list \<Rightarrow> autosave" where
  "new_form queue = \<lparr> au_type = ''budget'', au_storage = (if queue = [] then [] else [(''budget'', queue)]), au_timers = [],
     au_saveTimeoutRef = None, au_next_timer = 0, au_suspendAutoSaveRef = False, au_pendingPayloadRef = None,
     au_requests = [], au_isSaving = False, au_lastSavedAt = None, au_server = [] \<rparr>"


section \<open>The queue of drafts that could not be sent\<close>

definition answered :: "autosave \<Rightarrow> autosave" where
  "answered s = settle_request 0 Answered True 0 s"

lemma answered_replay:
  assumes "au_requests s = [Replay_Put t p rest]"
  shows "au_requests (answered s) = (case rest of [] \<Rightarrow> [] | p' # rest' \<Rightarrow> [Replay_Put t p' rest'])"
    "jmap_get (au_server (answered s)) t = Some p" "readQueue t (answered s) = readQueue t s"
    "au_timers (answered s) = au_timers s" "au_pendingPayloadRef (answered s) = au_pendingPayloadRef s"
  using assms
  by (simp_all add: answered_def settle_request_def reach_cache_def put_cache_def send_def jmap_get_set readQueue_def Let_def
      split: list.split)

lemma answered_replays:
  assumes "au_requests s = [Replay_Put t p0 rest0]" and "p0 # rest0 = ps @ p # qs"
  shows "au_requests ((answered ^^ length ps) s) = [Replay_Put t p qs] \<and>
    jmap_get (au_server ((answered ^^ length ps) s)) t = (if ps = [] then jmap_get (au_server s) t else Some (last ps)) \<and>
    readQueue t ((answered ^^ length ps) s) = readQueue t s \<and> au_timers ((answered ^^ length ps) s) = au_timers s \<and>
    au_pendingPayloadRef ((answered ^^ length ps) s) = au_pendingPayloadRef s"
  using assms
proof (induction ps arbitrary: s p0 rest0)
  case (Cons q ps)
  then have q: "p0 = q" "rest0 = ps @ p # qs" by simp_all
  obtain p1 rest1 where r: "rest0 = p1 # rest1" using q(2) by (cases ps) auto
  have "au_requests (answered s) = [Replay_Put t p1 rest1]" using answered_replay(1) [OF Cons.prems(1)] r by simp
  from Cons.IH [OF this] q r answered_replay [OF Cons.prems(1)]
  show ?case by (simp add: funpow_swap1)
qed simp

lemma online_replays:
  assumes "au_requests s = []" and "readQueue (au_type s) s = p # rest"
  shows "au_requests (onOnline s) = [Replay_Put (au_type s) p rest]" "readQueue (au_type s) (onOnline s) = []"
    "au_server (onOnline s) = au_server s" "au_timers (onOnline s) = au_timers s"
    "au_pendingPayloadRef (onOnline s) = au_pendingPayloadRef s"
  using assms by (simp_all add: onOnline_def send_def clearQueue_def readQueue_def jmap_get_delete)

text \<open>When the connection returns, the queue is emptied before its drafts are sent; if one of them
  cannot be sent, it alone is put back, and all drafts queued after it, the newest among them, are
  nowhere any more: not in the queue, not in a request and not in the cache.\<close>

lemma failed_replay_drops_later_drafts:
  assumes "au_requests s = []" and "readQueue (au_type s) s = ps @ p # qs"
  shows "readQueue (au_type s) (settle_request 0 Refused onLine now ((answered ^^ length ps) (onOnline s))) = [p] \<and>
    au_requests (settle_request 0 Refused onLine now ((answered ^^ length ps) (onOnline s))) = [] \<and>
    au_timers (settle_request 0 Refused onLine now ((answered ^^ length ps) (onOnline s))) = au_timers s \<and>
    jmap_get (au_server (settle_request 0 Refused onLine now ((answered ^^ length ps) (onOnline s)))) (au_type s) =
      (if ps = [] then jmap_get (au_server s) (au_type s) else Some (last ps))"
proof -
  obtain p0 rest0 where queue: "readQueue (au_type s) s = p0 # rest0" using assms(2) by (cases ps) auto
  note on = online_replays [OF assms(1) queue]
  have "p0 # rest0 = ps @ p # qs" using queue assms(2) by simp
  from answered_replays [OF on(1) this] on show ?thesis
    by (auto simp: settle_request_def pushToQueue_def readQueue_def jmap_get_set)
qed

lemma failed_replay_drops_later_drafts_witness:
  "readQueue ''budget'' (settle_request 0 Refused True 0 ((answered ^^ 1) (onOnline (new_form [''a'', ''b'', ''c''])))) = [''b'']"
  using failed_replay_drops_later_drafts [of "new_form [''a'', ''b'', ''c'']" "[''a'']" "''b''" "[''c'']" True 0]
  by (simp add: new_form_def readQueue_def jmap_get_def)

text \<open>A draft left in the queue overwrites a newer one that has been saved since: nothing empties the queue
  when a save succeeds.\<close>

lemma saved_draft:
  assumes "au_timers s = []" and "au_requests s = []" and "\<not> au_suspendAutoSaveRef s"
  shows "jmap_get (au_server (answered (timer_fires (au_next_timer s) (save d s)))) (au_type s) = Some d \<and>
    au_requests (answered (timer_fires (au_next_timer s) (save d s))) = [] \<and>
    au_type (answered (timer_fires (au_next_timer s) (save d s))) = au_type s \<and>
    readQueue t (answered (timer_fires (au_next_timer s) (save d s))) = readQueue t s \<and>
    au_pendingPayloadRef (answered (timer_fires (au_next_timer s) (save d s))) = Some d"
proof -
  have "au_timers (clear_timeout (s\<lparr> au_pendingPayloadRef := Some d \<rparr>)) = []" and
    "au_next_timer (clear_timeout (s\<lparr> au_pendingPayloadRef := Some d \<rparr>)) = au_next_timer s"
    using assms(1) by (simp_all add: clear_timeout_def split: option.split)
  with assms(2,3) show ?thesis
    by (simp add: save_def Let_def timer_fires_def flush_def send_def answered_def settle_request_def reach_cache_def
        put_cache_def jmap_get_set)
qed

lemma old_queue_overwrites_newer_draft:
  assumes "au_timers s = []" and "au_requests s = []" and "\<not> au_suspendAutoSaveRef s"
    and queue: "readQueue (au_type s) s = qs @ [q]"
    and saved: "s1 = answered (timer_fires (au_next_timer s) (save d s))"
  shows "jmap_get (au_server s1) (au_type s) = Some d \<and>
    jmap_get (au_server (answered ((answered ^^ length qs) (onOnline s1)))) (au_type s) = Some q \<and>
    au_pendingPayloadRef (answered ((answered ^^ length qs) (onOnline s1))) = Some d"
proof -
  have s1: "jmap_get (au_server s1) (au_type s) = Some d" "au_requests s1 = []" "au_type s1 = au_type s"
      "readQueue (au_type s1) s1 = qs @ [q]" "au_pendingPayloadRef s1 = Some d"
    using saved_draft [OF assms(1-3), of d "au_type s"] queue saved by simp_all
  obtain p0 rest0 where p0: "qs @ [q] = p0 # rest0" by (cases "qs @ [q]") auto
  note on = online_replays [OF s1(2), of p0 rest0]
  have "au_requests (onOnline s1) = [Replay_Put (au_type s) p0 rest0]" using on(1) s1(3,4) p0 by simp
  from answered_replays [OF this, of qs q "[]"] p0 have
    r: "au_requests ((answered ^^ length qs) (onOnline s1)) = [Replay_Put (au_type s) q []]"
      "au_pendingPayloadRef ((answered ^^ length qs) (onOnline s1)) = au_pendingPayloadRef (onOnline s1)" by simp_all
  from answered_replay [OF r(1)] r(2) on(5) s1 p0 show ?thesis by simp
qed

text \<open>A save that is still on its way when the form is discarded brings the draft back.\<close>

lemma discarded_draft_returns:
  assumes "au_requests s = [Flush_Put (au_type s) d]"
  shows "jmap_get (au_server (answered (settle_request 1 Answered True 0 (clear_draft s)))) (au_type s) = Some d"
  using assms
  by (simp add: clear_draft_def Let_def send_def settle_request_def answered_def reach_cache_def put_cache_def
      delete_cache_def clearQueue_def jmap_get_set)

end
