(* ===== verification/Message_Blocks.thy ===== *)
theory Message_Blocks imports Js_Prelude "HOL-Library.Sublist" begin

text \<open>
  The blocks of an agent message: paragraphs, lists and tables
  (\<open>src/frontend/src/lib/agentMessageContentBlocks.ts\<close>).  A text is the list of its code points, which is
  the array \<open>[...source]\<close> of the code; a regular expression is written out as a function.
\<close>

section \<open>Characters\<close>

type_synonym code_points = "int list"

definition newline :: int where
  "newline = 10"

definition bullet_dot :: int where
  "bullet_dot = 8226"

definition pipe :: int where
  "pipe = 124"

definition hyphen :: int where
  "hyphen = 45"

definition cp :: "string \<Rightarrow> code_points" where
  "cp s = map (\<lambda>c. (of_char c :: int)) s"

text \<open>The class \<open>\s\<close>, which is also what \<open>trim\<close> removes.\<close>

definition is_ws :: "int \<Rightarrow> bool" where
  "is_ws c \<longleftrightarrow> 9 \<le> c \<and> c \<le> 13 \<or> c \<in> {32, 160, 5760, 8232, 8233, 8239, 8287, 12288, 65279} \<or> 8192 \<le> c \<and> c \<le> 8202"

definition is_dec_digit :: "int \<Rightarrow> bool" where
  "is_dec_digit c \<longleftrightarrow> 48 \<le> c \<and> c \<le> 57"

definition text_trim_start :: "code_points \<Rightarrow> code_points" where
  "text_trim_start t = dropWhile is_ws t"

definition text_trim_end :: "code_points \<Rightarrow> code_points" where
  "text_trim_end t = rev (dropWhile is_ws (rev t))"

definition text_trim :: "code_points \<Rightarrow> code_points" where
  "text_trim t = text_trim_end (text_trim_start t)"

definition code_slice :: "code_points \<Rightarrow> nat \<Rightarrow> nat \<Rightarrow> code_points" where
  "code_slice t a b = take (b - a) (drop a t)"

section \<open>Lines\<close>

datatype block_type = Paragraph_Block | List_Block | Table_Block

record content_block =
  cb_type :: block_type
  cb_markdown :: code_points
  cb_start :: nat
  cb_end :: nat

record line_info =
  li_text :: code_points
  li_start :: nat
  li_end :: nat

definition line_step :: "code_points \<Rightarrow> line_info list \<times> nat \<Rightarrow> nat \<Rightarrow> line_info list \<times> nat" where
  "line_step chars acc i =
     (case acc of (lines, lineStart) \<Rightarrow>
        if chars ! i \<noteq> newline then (lines, lineStart)
        else (lines @ [\<lparr> li_text = code_slice chars lineStart i, li_start = lineStart, li_end = i + 1 \<rparr>], i + 1))"

definition splitLinesWithOffsets :: "code_points \<Rightarrow> line_info list" where
  "splitLinesWithOffsets chars =
     (case foldl (line_step chars) ([], 0) [0..<length chars] of (lines, lineStart) \<Rightarrow>
        if lineStart \<le> length chars
        then lines @ [\<lparr> li_text = drop lineStart chars, li_start = lineStart, li_end = length chars \<rparr>]
        else lines)"

definition sliceByCodePointsRange :: "code_points \<Rightarrow> nat \<Rightarrow> nat \<Rightarrow> code_points" where
  "sliceByCodePointsRange source a b = (if a \<ge> b then [] else code_slice source a b)"

definition isBlankLine :: "code_points \<Rightarrow> bool" where
  "isBlankLine t \<longleftrightarrow> length (text_trim t) = 0"

section \<open>What a line looks like\<close>

definition starts_with_ws :: "code_points \<Rightarrow> bool" where
  "starts_with_ws t \<longleftrightarrow> (case t of [] \<Rightarrow> False | c # _ \<Rightarrow> is_ws c)"

text \<open>\<open>/^\s*(?:[-*+]\s+|\d+\.\s+|\<bullet>\s*)/\<close>\<close>

definition isListLine :: "code_points \<Rightarrow> bool" where
  "isListLine t \<longleftrightarrow>
     (case text_trim_start t of
        [] \<Rightarrow> False
      | c # r \<Rightarrow>
          c = bullet_dot \<or> (c \<in> {hyphen, 42, 43} \<and> starts_with_ws r) \<or>
          (is_dec_digit c \<and>
             (case dropWhile is_dec_digit r of [] \<Rightarrow> False | d # r' \<Rightarrow> d = 46 \<and> starts_with_ws r')))"

text \<open>\<open>/^\s*\<bullet>\s*/\<close>\<close>

definition isBulletDotLine :: "code_points \<Rightarrow> bool" where
  "isBulletDotLine t \<longleftrightarrow> (case text_trim_start t of [] \<Rightarrow> False | c # _ \<Rightarrow> c = bullet_dot)"

text \<open>One match of \<open>(?:^|\s)\<bullet>\s+\<close> at the head of the text: what is left after it.\<close>

definition bullet_match :: "bool \<Rightarrow> code_points \<Rightarrow> code_points option" where
  "bullet_match atStart t =
     (case t of
        [] \<Rightarrow> None
      | c # r \<Rightarrow>
          if atStart \<and> c = bullet_dot \<and> starts_with_ws r then Some (dropWhile is_ws r)
          else case r of
                 [] \<Rightarrow> None
               | d # r' \<Rightarrow> if is_ws c \<and> d = bullet_dot \<and> starts_with_ws r' then Some (dropWhile is_ws r') else None)"

lemma bullet_match_shorter: "bullet_match b t = Some r \<Longrightarrow> length r < length t"
  by (auto simp: bullet_match_def split: list.splits if_splits intro: le_less_trans [OF length_dropWhile_le])

function bullet_matches :: "bool \<Rightarrow> code_points \<Rightarrow> nat" where
  "bullet_matches atStart [] = 0"
| "bullet_matches atStart (c # t) =
     (case bullet_match atStart (c # t) of
        Some r \<Rightarrow> 1 + bullet_matches False r
      | None \<Rightarrow> bullet_matches False t)"
  by pat_completeness auto
termination
  by (relation "measure (\<lambda>(_, t). length t)") (auto dest: bullet_match_shorter)

definition containsInlineBulletList :: "code_points \<Rightarrow> bool" where
  "containsInlineBulletList t \<longleftrightarrow> (if bullet_dot \<notin> set t then False else 2 \<le> bullet_matches True t)"

definition isTableRowCandidate :: "code_points \<Rightarrow> bool" where
  "isTableRowCandidate line \<longleftrightarrow>
     (let t = text_trim line in if pipe \<notin> set t then False else 2 \<le> length (filter (\<lambda>c. c = pipe) t))"

text \<open>\<open>/^\|?[\s:|-]+\|?$/\<close>: the optional bars are in the class themselves.\<close>

definition isTableSeparatorRow :: "code_points \<Rightarrow> bool" where
  "isTableSeparatorRow line \<longleftrightarrow>
     (let t = text_trim line
      in if pipe \<notin> set t \<or> hyphen \<notin> set t then False
         else t \<noteq> [] \<and> list_all (\<lambda>c. is_ws c \<or> c \<in> {58, pipe, hyphen}) t \<and> hyphen \<in> set t)"

fun isTableStart :: "line_info list \<Rightarrow> bool" where
  "isTableStart (l # m # ls) \<longleftrightarrow> isTableRowCandidate (li_text l) \<and> isTableSeparatorRow (li_text m)"
| "isTableStart _ \<longleftrightarrow> False"

section \<open>Blocks\<close>

definition in_table :: "line_info \<Rightarrow> bool" where
  "in_table l \<longleftrightarrow> \<not> (isBlankLine (li_text l) \<or> \<not> isTableRowCandidate (li_text l))"

definition in_list :: "line_info \<Rightarrow> bool" where
  "in_list l \<longleftrightarrow> \<not> isBlankLine (li_text l) \<and>
     (isListLine (li_text l) \<or> starts_with_ws (li_text l) \<or> isBulletDotLine (li_text l))"

text \<open>The lines a paragraph takes, and the lines after it.\<close>

fun paragraph_lines :: "line_info list \<Rightarrow> line_info list \<times> line_info list" where
  "paragraph_lines [] = ([], [])"
| "paragraph_lines (l # ls) =
     (if isBlankLine (li_text l) \<or> isTableStart (l # ls) \<or> isListLine (li_text l) then ([], l # ls)
      else case paragraph_lines ls of (taken, rest) \<Rightarrow> (l # taken, rest))"

lemma paragraph_lines_append: "paragraph_lines ls = (taken, rest) \<Longrightarrow> ls = taken @ rest"
  by (induction ls arbitrary: taken rest) (auto split: if_splits prod.splits)

definition block_of :: "code_points \<Rightarrow> (code_points \<Rightarrow> block_type) \<Rightarrow> line_info \<Rightarrow> line_info list \<Rightarrow> content_block" where
  "block_of source kind l taken =
     (let b = li_end (last (l # taken)); markdown = sliceByCodePointsRange source (li_start l) b
      in \<lparr> cb_type = kind markdown, cb_markdown = markdown, cb_start = li_start l, cb_end = b \<rparr>)"

definition paragraph_kind :: "code_points \<Rightarrow> block_type" where
  "paragraph_kind markdown = (if containsInlineBulletList markdown then List_Block else Paragraph_Block)"

function blocks_from :: "code_points \<Rightarrow> line_info list \<Rightarrow> content_block list" where
  "blocks_from source [] = []"
| "blocks_from source (l # ls) =
     (if isBlankLine (li_text l) then blocks_from source ls
      else if isTableStart (l # ls)
      then (let taken = take 1 ls @ takeWhile in_table (drop 1 ls)
            in block_of source (\<lambda>_. Table_Block) l taken # blocks_from source (dropWhile in_table (drop 1 ls)))
      else if isListLine (li_text l)
      then block_of source (\<lambda>_. List_Block) l (takeWhile in_list ls) # blocks_from source (dropWhile in_list ls)
      else block_of source paragraph_kind l (fst (paragraph_lines ls)) # blocks_from source (snd (paragraph_lines ls)))"
  by pat_completeness auto
termination
proof (relation "measure (\<lambda>(_, ls). length ls)", goal_cases)
  case (3 source l ls)
  then show ?case by (simp add: le_imp_less_Suc order_trans [OF length_dropWhile_le])
next
  case (4 source l ls)
  then show ?case by (simp add: le_imp_less_Suc length_dropWhile_le)
next
  case (5 source l ls)
  then show ?case using paragraph_lines_append [of ls] by (cases "paragraph_lines ls") force
qed auto

definition parseAgentMessageContentBlocks :: "code_points \<Rightarrow> content_block list" where
  "parseAgentMessageContentBlocks source = blocks_from source (splitLinesWithOffsets source)"

definition splitBlocksForDisplayLength :: "content_block list \<Rightarrow> code_points \<Rightarrow> int \<Rightarrow> content_block list \<times> code_points" where
  "splitBlocksForDisplayLength blocks source displayLength =
     (let safeLen = nat (max 0 (min displayLength (int (length source))))
      in if safeLen = 0 then ([], [])
         else let completeBlocks = takeWhile (\<lambda>b. cb_end b \<le> safeLen) blocks;
                  lastCompleteEnd = (if completeBlocks \<noteq> [] then cb_end (last completeBlocks) else 0)
              in (completeBlocks, sliceByCodePointsRange source lastCompleteEnd safeLen))"

section \<open>The lines tile the text\<close>

fun tiles :: "code_points \<Rightarrow> nat \<Rightarrow> line_info list \<Rightarrow> bool" where
  "tiles src a [] \<longleftrightarrow> a = length src"
| "tiles src a (l # ls) \<longleftrightarrow> li_start l = a \<and> a \<le> li_end l \<and> li_end l \<le> length src \<and>
     code_slice src a (li_end l) = li_text l @ (if ls = [] then [] else [newline]) \<and> tiles src (li_end l) ls"

fun full_lines :: "code_points \<Rightarrow> nat \<Rightarrow> line_info list \<Rightarrow> nat \<Rightarrow> bool" where
  "full_lines src a [] b \<longleftrightarrow> a = b"
| "full_lines src a (l # ls) b \<longleftrightarrow> li_start l = a \<and> a \<le> li_end l \<and> li_end l \<le> length src \<and>
     code_slice src a (li_end l) = li_text l @ [newline] \<and> full_lines src (li_end l) ls b"

lemma full_lines_append: "full_lines src a (ls @ ms) c \<longleftrightarrow> (\<exists>b. full_lines src a ls b \<and> full_lines src b ms c)"
  by (induction ls arbitrary: a) auto

lemma code_slice_Suc: "a \<le> i \<Longrightarrow> i < length t \<Longrightarrow> code_slice t a (Suc i) = code_slice t a i @ [t ! i]"
  by (simp add: code_slice_def Suc_diff_le take_Suc_conv_app_nth)

lemma lines_scanned:
  "n \<le> length src \<Longrightarrow> (case foldl (line_step src) ([], 0) [0..<n] of (ls, b) \<Rightarrow> full_lines src 0 ls b \<and> b \<le> n)"
proof (induction n)
  case (Suc n)
  obtain ls b where r: "foldl (line_step src) ([], 0) [0..<n] = (ls, b)" by force
  with Suc have ok: "full_lines src 0 ls b" "b \<le> n" by auto
  have step: "foldl (line_step src) ([], 0) [0..<Suc n] = line_step src (ls, b) n" by (simp add: r)
  show ?case
  proof (cases "src ! n = newline")
    case True
    with ok Suc.prems show ?thesis
      unfolding step by (simp add: line_step_def full_lines_append code_slice_Suc)
  next
    case False
    with ok show ?thesis unfolding step by (simp add: line_step_def)
  qed
qed simp

lemma tiles_full: "full_lines src a ls b \<Longrightarrow> tiles src b ms \<Longrightarrow> ms \<noteq> [] \<Longrightarrow> tiles src a (ls @ ms)"
  by (induction ls arbitrary: a) auto

lemma lines_tile: "tiles src 0 (splitLinesWithOffsets src)"
proof -
  obtain ls b where r: "foldl (line_step src) ([], 0) [0..<length src] = (ls, b)" by force
  with lines_scanned [of "length src" src] have ok: "full_lines src 0 ls b" "b \<le> length src" by auto
  then show ?thesis using r by (auto simp: splitLinesWithOffsets_def code_slice_def intro!: tiles_full)
qed

lemma tiles_append:
  "tiles src a (ls @ ms) \<Longrightarrow> ls \<noteq> [] \<Longrightarrow>
   li_start (hd ls) = a \<and> a \<le> li_end (last ls) \<and> li_end (last ls) \<le> length src \<and> tiles src (li_end (last ls)) ms"
proof (induction ls arbitrary: a)
  case (Cons l ls)
  then show ?case by (cases "ls = []") force+
qed simp

section \<open>Blocks keep the text\<close>

lemma blank_iff: "isBlankLine t \<longleftrightarrow> (\<forall>c \<in> set t. is_ws c)"
  by (auto simp: isBlankLine_def text_trim_def text_trim_end_def text_trim_start_def dropWhile_eq_Nil_conv
      dest: set_dropWhileD) (metis dropWhile_eq_Nil_conv hd_dropWhile list.set_sel(1))

lemma newline_ws: "is_ws newline"
  by (simp add: is_ws_def newline_def)

text \<open>A line that is not blank opens a block, which takes some of the lines after it.\<close>

lemma blocks_step:
  assumes "\<not> isBlankLine (li_text l)"
  shows "\<exists>kind taken rest. ls = taken @ rest \<and> blocks_from source (l # ls) = block_of source kind l taken # blocks_from source rest"
proof (cases "isTableStart (l # ls)")
  case True
  have "ls = (take 1 ls @ takeWhile in_table (drop 1 ls)) @ dropWhile in_table (drop 1 ls)" by simp
  with True assms show ?thesis by (metis blocks_from.simps(2))
next
  case False
  show ?thesis
  proof (cases "isListLine (li_text l)")
    case True
    with False assms show ?thesis by (metis blocks_from.simps(2) takeWhile_dropWhile_id)
  next
    case no_list: False
    have "ls = fst (paragraph_lines ls) @ snd (paragraph_lines ls)"
      using paragraph_lines_append [of ls "fst (paragraph_lines ls)" "snd (paragraph_lines ls)"] by simp
    with False no_list assms show ?thesis by (metis blocks_from.simps(2))
  qed
qed

definition covered :: "content_block list \<Rightarrow> nat \<Rightarrow> bool" where
  "covered blocks k \<longleftrightarrow> (\<exists>b \<in> set blocks. cb_start b \<le> k \<and> k < cb_end b)"

definition block_ok :: "code_points \<Rightarrow> nat \<Rightarrow> content_block \<Rightarrow> bool" where
  "block_ok src a b \<longleftrightarrow> a \<le> cb_start b \<and> cb_start b < cb_end b \<and> cb_end b \<le> length src \<and>
     cb_markdown b = code_slice src (cb_start b) (cb_end b)"

definition blocks_ok :: "code_points \<Rightarrow> nat \<Rightarrow> content_block list \<Rightarrow> bool" where
  "blocks_ok src a blocks \<longleftrightarrow> list_all (block_ok src a) blocks \<and> sorted_wrt (\<lambda>b c. cb_end b \<le> cb_start c) blocks \<and>
     (\<forall>k. a \<le> k \<and> k < length src \<longrightarrow> is_ws (src ! k) \<or> covered blocks k)"

lemma block_ok_mono: "block_ok src e b \<Longrightarrow> a \<le> e \<Longrightarrow> block_ok src a b"
  by (simp add: block_ok_def)

lemma blocks_ok_Cons:
  assumes b: "block_ok src a b" "cb_start b = a" and bs: "blocks_ok src (cb_end b) bs"
  shows "blocks_ok src a (b # bs)"
proof -
  have "a \<le> cb_end b" using b by (simp add: block_ok_def)
  then have "list_all (block_ok src a) (b # bs)" using b bs block_ok_mono by (auto simp: blocks_ok_def list_all_iff)
  moreover have "sorted_wrt (\<lambda>b c. cb_end b \<le> cb_start c) (b # bs)"
    using bs by (auto simp: blocks_ok_def list_all_iff block_ok_def)
  moreover have "is_ws (src ! k) \<or> covered (b # bs) k" if "a \<le> k" "k < length src" for k
    using b(2) bs that by (cases "k < cb_end b") (auto simp: blocks_ok_def covered_def)
  ultimately show ?thesis by (simp add: blocks_ok_def)
qed

lemma blocks_ok_skip:
  assumes bs: "blocks_ok src e bs" and "a \<le> e" and "\<And>k. a \<le> k \<Longrightarrow> k < e \<Longrightarrow> is_ws (src ! k)"
  shows "blocks_ok src a bs"
proof -
  have "is_ws (src ! k) \<or> covered bs k" if "a \<le> k" "k < length src" for k
    using that assms by (cases "k < e") (auto simp: blocks_ok_def)
  with bs assms(2) block_ok_mono show ?thesis by (auto simp: blocks_ok_def list_all_iff)
qed

lemma slice_nth: "a \<le> k \<Longrightarrow> k < b \<Longrightarrow> b \<le> length src \<Longrightarrow> src ! k \<in> set (code_slice src a b)"
  by (force simp: code_slice_def in_set_conv_nth intro: exI [of _ "k - a"])

lemma blocks_keep_text: "tiles src a ls \<Longrightarrow> blocks_ok src a (blocks_from src ls)"
proof (induction ls arbitrary: a rule: length_induct)
  case (1 ls)
  show ?case
  proof (cases ls)
    case Nil
    with "1.prems" show ?thesis by (auto simp: blocks_ok_def)
  next
    case (Cons l ms)
    with "1.prems" have l: "li_start l = a" "a \<le> li_end l" "li_end l \<le> length src" "tiles src (li_end l) ms"
      "code_slice src a (li_end l) = li_text l @ (if ms = [] then [] else [newline])" by auto
    show ?thesis
    proof (cases "isBlankLine (li_text l)")
      case True
      then have "\<forall>c \<in> set (code_slice src a (li_end l)). is_ws c" using l(5) newline_ws by (auto simp: blank_iff)
      then have "is_ws (src ! k)" if "a \<le> k" "k < li_end l" for k using slice_nth that l(3) by blast
      moreover have "blocks_ok src (li_end l) (blocks_from src ms)" using "1.IH" Cons l(4) by simp
      ultimately have "blocks_ok src a (blocks_from src ms)" using blocks_ok_skip l(2) by blast
      with True Cons show ?thesis by simp
    next
      case False
      from blocks_step [OF this, of ms src] obtain kind taken rest where
        step: "ms = taken @ rest" "blocks_from src ls = block_of src kind l taken # blocks_from src rest" using Cons by auto
      let ?b = "block_of src kind l taken" and ?e = "li_end (last (l # taken))"
      have tile: "?e \<le> length src" "tiles src ?e rest"
        using tiles_append [of src a "l # taken" rest] "1.prems" Cons step(1) by auto
      have "li_text l \<noteq> []" using False by (auto simp: blank_iff)
      then have "a < li_end l" using l(2,5) by (cases "a = li_end l") (auto simp: code_slice_def)
      moreover have "li_end l \<le> ?e"
        using tiles_append [of src "li_end l" taken rest] l(4) step(1) by (cases "taken = []") auto
      ultimately have b: "cb_start ?b = a" "cb_end ?b = ?e" "a < ?e" "cb_markdown ?b = code_slice src a ?e"
        using l(1) by (auto simp: block_of_def Let_def sliceByCodePointsRange_def)
      have rest: "blocks_ok src ?e (blocks_from src rest)" using "1.IH" Cons step(1) tile(2) by simp
      show ?thesis unfolding step(2)
        by (rule blocks_ok_Cons) (use b tile(1) rest in \<open>simp_all add: block_ok_def\<close>)
    qed
  qed
qed

lemma parsed_ok: "blocks_ok source 0 (parseAgentMessageContentBlocks source)"
  unfolding parseAgentMessageContentBlocks_def by (rule blocks_keep_text) (rule lines_tile)

section \<open>What is shown while the message is typed\<close>

lemma covered_at: "blocks_ok src 0 blocks \<Longrightarrow> k < length src \<Longrightarrow> \<not> is_ws (src ! k) \<Longrightarrow>
  \<exists>b \<in> set blocks. cb_start b \<le> k \<and> k < cb_end b"
  by (auto simp: blocks_ok_def covered_def)

lemma shown_split:
  assumes ok: "blocks_ok src 0 blocks" and n: "n \<le> length src" and complete: "complete = takeWhile (\<lambda>b. cb_end b \<le> n) blocks"
    and e: "e = (if complete \<noteq> [] then cb_end (last complete) else 0)"
  shows "e \<le> n" "\<And>k. k < n \<Longrightarrow> is_ws (src ! k) \<or> covered complete k \<or> e \<le> k"
    "n = length src \<Longrightarrow> complete = blocks" "\<And>k. n = length src \<Longrightarrow> e \<le> k \<Longrightarrow> k < n \<Longrightarrow> is_ws (src ! k)"
proof -
  have parts: "blocks = complete @ dropWhile (\<lambda>b. cb_end b \<le> n) blocks"
    unfolding complete by (rule takeWhile_dropWhile_id [symmetric])
  have ends: "cb_end b \<le> n" if "b \<in> set complete" for b using that unfolding complete by (rule set_takeWhileD [THEN conjunct2])
  then show "e \<le> n" using e by simp
  have "sorted_wrt (\<lambda>b c. cb_end b \<le> cb_start c) blocks" using ok by (simp add: blocks_ok_def)
  then have "sorted_wrt (\<lambda>b c. cb_end b \<le> cb_start c) (complete @ dropWhile (\<lambda>b. cb_end b \<le> n) blocks)"
    using parts by argo
  then have after: "e \<le> cb_start b" if "b \<in> set (dropWhile (\<lambda>b. cb_end b \<le> n) blocks)" for b
    using that e by (auto simp: sorted_wrt_append)
  show shown: "is_ws (src ! k) \<or> covered complete k \<or> e \<le> k" if "k < n" for k
  proof (cases "is_ws (src ! k)")
    case False
    then obtain b where "b \<in> set blocks" "cb_start b \<le> k" "k < cb_end b"
      using covered_at [OF ok less_le_trans [OF \<open>k < n\<close> n] False] by blast
    then show ?thesis using parts after by (metis UnE covered_def order_trans set_append)
  qed simp
  show all: "complete = blocks" if "n = length src"
  proof -
    have "\<forall>b \<in> set blocks. cb_end b \<le> n" using ok that by (auto simp: blocks_ok_def block_ok_def list_all_iff)
    then show ?thesis unfolding complete by (simp add: takeWhile_eq_all_conv)
  qed
  show "is_ws (src ! k)" if "n = length src" "e \<le> k" "k < n" for k
  proof (rule ccontr)
    assume "\<not> is_ws (src ! k)"
    then obtain b where b: "b \<in> set blocks" "k < cb_end b"
      using covered_at [OF ok less_le_trans [OF \<open>k < n\<close> n]] by blast
    then have "blocks \<noteq> []" by auto
    have "cb_end b \<le> cb_end (last blocks)"
    proof (cases "b = last blocks")
      case False
      with b(1) \<open>blocks \<noteq> []\<close> have "b \<in> set (butlast blocks)" by (metis append_butlast_last_id rotate1.simps(2) set_ConsD set_rotate1)
      moreover have "sorted_wrt (\<lambda>b c. cb_end b \<le> cb_start c) (butlast blocks @ [last blocks])"
        using ok \<open>blocks \<noteq> []\<close> by (simp add: blocks_ok_def)
      moreover have "cb_start (last blocks) < cb_end (last blocks)"
        using ok \<open>blocks \<noteq> []\<close> by (auto simp: blocks_ok_def block_ok_def list_all_iff)
      ultimately show ?thesis by (fastforce simp: sorted_wrt_append)
    qed simp
    with b(2) that(2) e all [OF that(1)] \<open>blocks \<noteq> []\<close> show False by simp
  qed
qed



section \<open>Finished blocks stay when the message grows\<close>

lemma slice_append: "b \<le> length src \<Longrightarrow> code_slice (src @ added) a b = code_slice src a b"
  by (cases "a \<le> b") (simp_all add: code_slice_def)

lemma block_of_append: "li_end (last (l # taken)) \<le> length src \<Longrightarrow> block_of (src @ added) kind l taken = block_of src kind l taken"
  by (simp add: block_of_def Let_def sliceByCodePointsRange_def slice_append)

lemma scan_appends: "\<exists>rest. fst (foldl (line_step src) (ls, b) is) = ls @ rest"
  by (induction "is" arbitrary: ls b) (auto simp: line_step_def, metis append_assoc)

lemma lines_grow:
  assumes "src \<noteq> []" and "last src = newline"
  shows "\<exists>ls rest. splitLinesWithOffsets src = ls @ [\<lparr> li_text = [], li_start = length src, li_end = length src \<rparr>] \<and>
    splitLinesWithOffsets (src @ added) = ls @ rest \<and> (\<forall>l \<in> set ls. li_end l \<le> length src)"
proof -
  obtain n where n: "length src = Suc n" using assms(1) by (cases "length src") auto
  obtain ls b where r: "foldl (line_step src) ([], 0) [0..<length src] = (ls, b)" by force
  have "src ! n = newline" using assms n by (simp add: last_conv_nth)
  then have b: "b = length src" using r n by (auto simp: line_step_def split: prod.splits)
  have "foldl (line_step (src @ added)) ([], 0) [0..<length src] = foldl (line_step src) ([], 0) [0..<length src]"
    by (rule foldl_cong) (auto simp: line_step_def nth_append slice_append)
  moreover have "[0..<length (src @ added)] = [0..<length src] @ [length src..<length (src @ added)]"
    by (simp add: upt_add_eq_append [symmetric])
  ultimately have "foldl (line_step (src @ added)) ([], 0) [0..<length (src @ added)] =
      foldl (line_step (src @ added)) (ls, b) [length src..<length (src @ added)]" using r by simp
  moreover obtain rest c where "foldl (line_step (src @ added)) (ls, b) [length src..<length (src @ added)] = (ls @ rest, c)"
    using scan_appends [of "src @ added" ls b] by (metis prod.collapse)
  ultimately have "\<exists>rest. splitLinesWithOffsets (src @ added) = ls @ rest"
    by (auto simp: splitLinesWithOffsets_def)
  moreover have "splitLinesWithOffsets src = ls @ [\<lparr> li_text = [], li_start = length src, li_end = length src \<rparr>]"
    using r b by (simp add: splitLinesWithOffsets_def)
  moreover have "full_lines src a ls c \<Longrightarrow> \<forall>l \<in> set ls. li_end l \<le> length src" for a c ls
    by (induction ls arbitrary: a) auto
  ultimately show ?thesis using lines_scanned [of "length src" src] r by auto
qed

lemma blank_no_separator: "isBlankLine (li_text e) \<Longrightarrow> \<not> isTableSeparatorRow (li_text e)"
  by (auto simp: isTableSeparatorRow_def isBlankLine_def)

lemma table_start_grows: "ls \<noteq> [] \<Longrightarrow> isTableStart (l # ls @ ms) = isTableStart (l # ls @ ms')"
  by (cases ls) simp_all

lemma paragraph_grows:
  assumes "isBlankLine (li_text e)"
  shows "paragraph_lines (ls @ [e]) = (ls, [e]) \<or>
    (\<exists>taken rest. rest \<noteq> [] \<and> (\<forall>ms. paragraph_lines (ls @ ms) = (taken, rest @ ms)))"
proof (induction ls)
  case Nil
  with assms show ?case by simp
next
  case (Cons l ls)
  show ?case
  proof (cases "isBlankLine (li_text l) \<or> isListLine (li_text l)")
    case True
    then have "\<forall>ms. paragraph_lines ((l # ls) @ ms) = ([], (l # ls) @ ms)" by auto
    then show ?thesis by (intro disjI2 exI [of _ "[]"] exI [of _ "l # ls"]) simp
  next
    case plain: False
    show ?thesis
    proof (cases "ls = []")
      case True
      then show ?thesis using plain assms blank_no_separator [OF assms] by simp
    next
      case False
      then have same: "isTableStart (l # ls @ ms) = isTableStart (l # ls @ [e])" for ms by (rule table_start_grows)
      show ?thesis
      proof (cases "isTableStart (l # ls @ [e])")
        case True
        then have "\<forall>ms. paragraph_lines ((l # ls) @ ms) = ([], (l # ls) @ ms)" using same by simp
        then show ?thesis by (intro disjI2 exI [of _ "[]"] exI [of _ "l # ls"]) simp
      next
        case no_table: False
        from Cons.IH show ?thesis
        proof
          assume "paragraph_lines (ls @ [e]) = (ls, [e])"
          then show ?thesis using plain no_table by simp
        next
          assume "\<exists>taken rest. rest \<noteq> [] \<and> (\<forall>ms. paragraph_lines (ls @ ms) = (taken, rest @ ms))"
          then obtain taken rest where "rest \<noteq> []" "\<And>ms. paragraph_lines (ls @ ms) = (taken, rest @ ms)" by auto
          then have "\<forall>ms. paragraph_lines ((l # ls) @ ms) = (l # taken, rest @ ms)" using plain no_table same by simp
          with \<open>rest \<noteq> []\<close> show ?thesis by blast
        qed
      qed
    qed
  qed
qed

lemma while_grows:
  assumes "\<not> P e"
  shows "takeWhile P (ls @ [e]) = ls \<and> dropWhile P (ls @ [e]) = [e] \<or>
    (\<exists>taken rest. ls = taken @ rest \<and> rest \<noteq> [] \<and> (\<forall>ms. takeWhile P (ls @ ms) = taken \<and> dropWhile P (ls @ ms) = rest @ ms))"
proof (cases "\<forall>l \<in> set ls. P l")
  case True
  with assms show ?thesis by (simp add: takeWhile_append2 dropWhile_append2)
next
  case False
  then obtain l where "l \<in> set ls" "\<not> P l" by blast
  then have "takeWhile P (ls @ ms) = takeWhile P ls" "dropWhile P (ls @ ms) = dropWhile P ls @ ms" for ms
    by (simp_all add: takeWhile_append1 dropWhile_append1)
  moreover have "dropWhile P ls \<noteq> []" using False by (simp add: dropWhile_eq_Nil_conv)
  ultimately show ?thesis by (metis takeWhile_dropWhile_id)
qed

lemma blank_stops: "isBlankLine (li_text e) \<Longrightarrow> \<not> in_table e \<and> \<not> in_list e"
  by (simp add: in_table_def in_list_def)

text \<open>The head line of a block decides the same way in both texts, or the block reaches the end.\<close>

lemma blocks_step_grows:
  assumes e: "isBlankLine (li_text e)" and l: "\<not> isBlankLine (li_text l)"
  shows "\<exists>kind taken rest. blocks_from src (l # ls @ [e]) = block_of src kind l taken # blocks_from src rest \<and>
    (rest = [e] \<or> (\<exists>ls'. ls = taken @ ls' \<and> rest = ls' @ [e] \<and>
       (\<forall>s ms. blocks_from s (l # ls @ ms) = block_of s kind l taken # blocks_from s (ls' @ ms))))"
proof -
  have no_sep: "\<not> isTableSeparatorRow (li_text e)" by (rule blank_no_separator [OF e])
  show ?thesis
  proof (cases "isTableStart (l # ls @ [e])")
    case True
    then obtain m ms where ls: "ls = m # ms" using no_sep by (cases ls) auto
    have start: "isTableStart (l # ls @ ns)" for ns using True ls by simp
    have step: "blocks_from s (l # ls @ ns) = block_of s (\<lambda>_. Table_Block) l (m # takeWhile in_table (ms @ ns)) #
        blocks_from s (dropWhile in_table (ms @ ns))" for s ns
      using l start [of ns] ls by (simp add: Let_def)
    from while_grows [of in_table e ms] blank_stops [OF e] consider
      "takeWhile in_table (ms @ [e]) = ms" "dropWhile in_table (ms @ [e]) = [e]" |
      taken rest where "ms = taken @ rest" "\<And>ns. takeWhile in_table (ms @ ns) = taken" "\<And>ns. dropWhile in_table (ms @ ns) = rest @ ns" by blast
    then show ?thesis
    proof cases
      case 1
      with step [of src "[e]"] show ?thesis by metis
    next
      case (2 taken rest)
      have "ls = (m # taken) @ rest" using ls 2(1) by simp
      with step 2(2,3) show ?thesis by metis
    qed
  next
    case no_table: False
    show ?thesis
    proof (cases "isListLine (li_text l)")
      case list: True
      show ?thesis
      proof (cases "ls = []")
        case True
        have "blocks_from src (l # ls @ [e]) = block_of src (\<lambda>_. List_Block) l [] # blocks_from src [e]"
          using True list l no_table blank_stops [OF e] no_sep by simp
        then show ?thesis by blast
      next
        case False
        have step: "blocks_from s (l # ls @ ns) = block_of s (\<lambda>_. List_Block) l (takeWhile in_list (ls @ ns)) #
            blocks_from s (dropWhile in_list (ls @ ns))" for s ns
          using l list no_table table_start_grows [OF False, of l ns "[e]"] by simp
        from while_grows [of in_list e ls] blank_stops [OF e] step show ?thesis by metis
      qed
    next
      case no_list: False
      show ?thesis
      proof (cases "ls = []")
        case True
        have "blocks_from src (l # ls @ [e]) = block_of src paragraph_kind l [] # blocks_from src [e]"
          using True no_list l no_table e no_sep by simp
        then show ?thesis by blast
      next
        case False
        have step: "blocks_from s (l # ls @ ns) = block_of s paragraph_kind l (fst (paragraph_lines (ls @ ns))) #
            blocks_from s (snd (paragraph_lines (ls @ ns)))" for s ns
          using l no_list no_table table_start_grows [OF False, of l ns "[e]"] by simp
        from paragraph_grows [OF e, of ls] show ?thesis
        proof
          assume "paragraph_lines (ls @ [e]) = (ls, [e])"
          with step [of src "[e]"] show ?thesis by (metis fst_conv snd_conv)
        next
          assume "\<exists>taken rest. rest \<noteq> [] \<and> (\<forall>ms. paragraph_lines (ls @ ms) = (taken, rest @ ms))"
          then obtain taken rest where p: "\<And>ms. paragraph_lines (ls @ ms) = (taken, rest @ ms)" by blast
          then have "ls = taken @ rest" using paragraph_lines_append [OF p [of "[]"]] by simp
          with step p show ?thesis by (metis fst_conv snd_conv)
        qed
      qed
    qed
  qed
qed

lemma blocks_grow:
  assumes e: "isBlankLine (li_text e)"
  shows "\<forall>l \<in> set ls. li_end l \<le> length src \<Longrightarrow>
    prefix (butlast (blocks_from src (ls @ [e]))) (blocks_from (src @ added) (ls @ ms))"
proof (induction ls rule: length_induct)
  case (1 ls)
  show ?case
  proof (cases ls)
    case Nil
    with e show ?thesis by simp
  next
    case (Cons l ks)
    show ?thesis
    proof (cases "isBlankLine (li_text l)")
      case True
      with 1 Cons show ?thesis by simp
    next
      case False
      from blocks_step_grows [OF e False, of src ks] obtain kind taken rest where
        step: "blocks_from src (l # ks @ [e]) = block_of src kind l taken # blocks_from src rest" and
        or: "rest = [e] \<or> (\<exists>ls'. ks = taken @ ls' \<and> rest = ls' @ [e] \<and>
          (\<forall>s ms. blocks_from s (l # ks @ ms) = block_of s kind l taken # blocks_from s (ls' @ ms)))" by blast
      from or show ?thesis
      proof
        assume "rest = [e]"
        with step e Cons show ?thesis by simp
      next
        assume "\<exists>ls'. ks = taken @ ls' \<and> rest = ls' @ [e] \<and>
          (\<forall>s ms. blocks_from s (l # ks @ ms) = block_of s kind l taken # blocks_from s (ls' @ ms))"
        then obtain ls' where ls': "ks = taken @ ls'" "rest = ls' @ [e]"
          "\<And>s ms. blocks_from s (l # ks @ ms) = block_of s kind l taken # blocks_from s (ls' @ ms)" by blast
        have "li_end (last (l # taken)) \<le> length src" using "1.prems" Cons ls'(1) by (cases taken) auto
        then have "blocks_from (src @ added) (ls @ ms) = block_of src kind l taken # blocks_from (src @ added) (ls' @ ms)"
          using ls'(3) Cons by (simp add: block_of_append)
        moreover have "prefix (butlast (blocks_from src (ls' @ [e]))) (blocks_from (src @ added) (ls' @ ms))"
          using "1.IH" "1.prems" Cons ls'(1) by auto
        ultimately show ?thesis using step ls'(2) Cons by (cases "blocks_from src rest = []") auto
      qed
    qed
  qed
qed

text \<open>A message that grows line by line never changes a block that another block follows: with every
  complete line received so far, all blocks but the last are final, whatever comes next.\<close>

lemma finished_blocks_stay:
  assumes "source \<noteq> []" and "last source = newline"
  shows "prefix (butlast (parseAgentMessageContentBlocks source)) (parseAgentMessageContentBlocks (source @ added))"
proof -
  from lines_grow [OF assms, of added] obtain ls rest where
    "splitLinesWithOffsets source = ls @ [\<lparr> li_text = [], li_start = length source, li_end = length source \<rparr>]"
    "splitLinesWithOffsets (source @ added) = ls @ rest" "\<forall>l \<in> set ls. li_end l \<le> length source" by blast
  then show ?thesis
    using blocks_grow [of "\<lparr> li_text = [], li_start = length source, li_end = length source \<rparr>" ls source added rest]
    by (simp add: parseAgentMessageContentBlocks_def blank_iff)
qed

lemma finished_blocks_stay_witness:
  "prefix (butlast (parseAgentMessageContentBlocks [97, 10, 10, 98, 10])) (parseAgentMessageContentBlocks ([97, 10, 10, 98, 10] @ [99]))"
  by (rule finished_blocks_stay) (simp_all add: newline_def)

section \<open>Bullets as list markers\<close>

fun split_newlines :: "code_points \<Rightarrow> code_points \<Rightarrow> code_points list" where
  "split_newlines acc [] = [acc]"
| "split_newlines acc (c # t) = (if c = newline then acc # split_newlines [] t else split_newlines (acc @ [c]) t)"

fun join_with :: "code_points \<Rightarrow> code_points list \<Rightarrow> code_points" where
  "join_with sep [] = []"
| "join_with sep [t] = t"
| "join_with sep (t # u # ts) = t @ sep @ join_with sep (u # ts)"

definition dash_line :: "code_points \<Rightarrow> code_points" where
  "dash_line line = (if isBulletDotLine line then cp ''- '' @ dropWhile is_ws (tl (text_trim_start line)) else line)"

definition normalizeBulletDotLineMarkdown :: "code_points \<Rightarrow> code_points" where
  "normalizeBulletDotLineMarkdown markdown = join_with [newline] (map dash_line (split_newlines [] markdown))"

text \<open>\<open>text.split(/(?:^|\s)\<bullet>\s+/)\<close>\<close>

function split_bullets :: "bool \<Rightarrow> code_points \<Rightarrow> code_points \<Rightarrow> code_points list" where
  "split_bullets atStart acc [] = [acc]"
| "split_bullets atStart acc (c # t) =
     (case bullet_match atStart (c # t) of
        Some r \<Rightarrow> acc # split_bullets False [] r
      | None \<Rightarrow> split_bullets False (acc @ [c]) t)"
  by pat_completeness auto
termination
  by (relation "measure (\<lambda>(_, _, t). length t)") (auto dest: bullet_match_shorter)

definition suffix_words :: "code_points list" where
  "suffix_words = map cp [''Found'', ''Would'', ''Note'', ''Please'', ''Analysis'', ''In'', ''The'', ''This'', ''If'', ''You'']"

definition word_char :: "int \<Rightarrow> bool" where
  "word_char c \<longleftrightarrow> is_dec_digit c \<or> 65 \<le> c \<and> c \<le> 90 \<or> 97 \<le> c \<and> c \<le> 122 \<or> c = 95"

definition starts_with_word :: "code_points \<Rightarrow> bool" where
  "starts_with_word t \<longleftrightarrow>
     list_ex (\<lambda>w. prefix w t \<and> (case drop (length w) t of [] \<Rightarrow> True | c # _ \<Rightarrow> \<not> word_char c)) suffix_words"

text \<open>\<open>/^([\s\S]*?\.)\s+((?:Found|...|You)\b[\s\S]*)$/\<close>: the first full stop before such a word.\<close>

fun suffix_match :: "code_points \<Rightarrow> code_points \<Rightarrow> (code_points \<times> code_points) option" where
  "suffix_match acc [] = None"
| "suffix_match acc (c # t) =
     (if c = 46 \<and> starts_with_ws t \<and> starts_with_word (dropWhile is_ws t) then Some (acc @ [c], dropWhile is_ws t)
      else suffix_match (acc @ [c]) t)"

definition bullet_chunks :: "code_points \<Rightarrow> code_points list \<Rightarrow> code_points \<Rightarrow> code_points" where
  "bullet_chunks pre items closing =
     join_with [newline, newline]
       ((if pre \<noteq> [] then [pre] else []) @ [join_with [newline] (map (\<lambda>item. cp ''- '' @ item) items)] @
        (if closing \<noteq> [] then [closing] else []))"

definition normalizeInlineBulletParagraph :: "code_points \<Rightarrow> code_points" where
  "normalizeInlineBulletParagraph t =
     (let parts = split_bullets True [] t
      in if length parts < 2 then t
         else let pre = text_trim_end (hd parts);
                  items = filter (\<lambda>p. p \<noteq> []) (map text_trim (tl parts))
              in if items = [] then t
                 else case suffix_match [] (last items) of
                        Some (item, closing) \<Rightarrow> bullet_chunks pre (butlast items @ [text_trim item]) (text_trim closing)
                      | None \<Rightarrow> bullet_chunks pre items [])"

definition normalizeAgentMessageMarkdown :: "code_points \<Rightarrow> code_points" where
  "normalizeAgentMessageMarkdown markdown =
     (if bullet_dot \<notin> set markdown then normalizeBulletDotLineMarkdown markdown
      else let lines = split_newlines [] markdown
           in if 0 < length lines \<and> list_all (\<lambda>l. text_trim l = [] \<or> isBulletDotLine l) lines
              then normalizeBulletDotLineMarkdown markdown
              else if containsInlineBulletList markdown then normalizeInlineBulletParagraph markdown
              else normalizeBulletDotLineMarkdown markdown)"

lemma join_split: "join_with [newline] (split_newlines acc t) = acc @ t"
proof (induction acc t rule: split_newlines.induct)
  case (2 acc c t)
  then show ?case by (cases "split_newlines [] t") auto
qed simp

lemma split_no_bullet: "bullet_dot \<notin> set acc \<union> set t \<Longrightarrow> l \<in> set (split_newlines acc t) \<Longrightarrow> bullet_dot \<notin> set l"
  by (induction acc t rule: split_newlines.induct) (auto split: if_splits)

text \<open>A text without bullets is left as it is.\<close>

lemma no_bullets_unchanged: "bullet_dot \<notin> set t \<Longrightarrow> normalizeAgentMessageMarkdown t = t"
proof -
  assume none: "bullet_dot \<notin> set t"
  have "dash_line l = l" if "l \<in> set (split_newlines [] t)" for l
    using split_no_bullet [of "[]" t l] none that
    by (auto simp: dash_line_def isBulletDotLine_def text_trim_start_def split: list.splits)
       (metis list.set_intros(1) set_dropWhileD)
  then have "map dash_line (split_newlines [] t) = split_newlines [] t" by (simp add: map_idI)
  with none show ?thesis by (simp add: normalizeAgentMessageMarkdown_def normalizeBulletDotLineMarkdown_def join_split)
qed

end
