(* ===== verification/Board_Blocks.thy ===== *)
theory Board_Blocks imports Js_Prelude "HOL-Library.Sublist" begin

text \<open>
  The ids of the blocks on the agent message board, in the order they are rendered
  (\<open>src/frontend/src/components/agent/chat/agentMessageBoardBlockIds.ts\<close>).  The read state keeps the
  progress of each block under its id.  Of an array of a message only its length matters here.
\<close>

datatype message_role = User_Role | Assistant_Role

record board_message =
  bm_id :: string
  bm_role :: "message_role option"
  bm_content :: string
  bm_type :: "string option"
  bm_eventType :: "string option"
  bm_stepProgress :: "nat option"
  bm_navigateTo :: "string option"
  bm_navigateLabel :: "string option"
  bm_anomalies :: "nat option"
  bm_recommendedTasks :: "nat option"
  bm_decisionNodes :: "nat option"
  bm_calendarEvents :: bool

datatype anchor_mode = After_Miro_Started | After_Tasks_Created

record block_options =
  bo_latestAnalysisMessageId :: "string option"
  bo_showFollowUpToggle :: bool
  bo_stepState :: "bool option"
  bo_tasksCardMessageId :: "string option"
  bo_suppressMiroMessageNav :: bool
  bo_wantsTasks :: "bool option"
  bo_wantsDecisions :: "bool option"

record board_options = block_options +
  bo_bottomCardsMessageId :: string
  bo_showMiroCard :: bool
  bo_showReupload :: bool
  bo_miroCardsAnchorMode :: "anchor_mode option"

definition is_anchor :: "anchor_mode \<Rightarrow> board_message \<Rightarrow> bool" where
  "is_anchor mode m \<longleftrightarrow> bm_role m = Some Assistant_Role \<and>
     (case mode of
        After_Tasks_Created \<Rightarrow> bm_type m = Some ''tasks_created''
      | After_Miro_Started \<Rightarrow> bm_eventType m = Some ''miro_generation_started'')"

definition getMiroCardsAnchorMessageId :: "board_message list \<Rightarrow> anchor_mode option \<Rightarrow> string option" where
  "getMiroCardsAnchorMessageId messages mode =
     foldl (\<lambda>anchorId m. if is_anchor (nullish mode After_Miro_Started) m then Some (bm_id m) else anchorId) None messages"

definition getMiroGenerateBlockId :: "string \<Rightarrow> bool \<Rightarrow> string option" where
  "getMiroGenerateBlockId bottomCardsMessageId showMiroCard =
     (if \<not> showMiroCard then None else Some (bottomCardsMessageId @ ''-miro-generate''))"

definition getMiroActionCardBlockIds :: "string \<Rightarrow> bool \<Rightarrow> string list" where
  "getMiroActionCardBlockIds bottomCardsMessageId showMiroCard =
     (case getMiroGenerateBlockId bottomCardsMessageId showMiroCard of None \<Rightarrow> [] | Some i \<Rightarrow> [i])"

definition non_empty :: "nat option \<Rightarrow> bool" where
  "non_empty n \<longleftrightarrow> (case n of None \<Rightarrow> False | Some k \<Rightarrow> 0 < k)"

definition given_string :: "string option \<Rightarrow> bool" where
  "given_string s \<longleftrightarrow> (case s of None \<Rightarrow> False | Some t \<Rightarrow> t \<noteq> [])"

definition push_if :: "bool \<Rightarrow> string \<Rightarrow> string list" where
  "push_if c i = (if c then [i] else [])"

definition getAssistantMessageBlockIds :: "board_message \<Rightarrow> 'a block_options_scheme \<Rightarrow> string list" where
  "getAssistantMessageBlockIds m opts =
     push_if (bm_content m \<noteq> [] \<and> bm_type m \<noteq> Some ''calendar_invite'') (bm_id m @ ''-bubble'') @
     push_if (non_empty (bm_stepProgress m)) (bm_id m @ ''-steps'') @
     push_if (given_string (bm_navigateTo m) \<and> given_string (bm_navigateLabel m) \<and>
              \<not> (bo_suppressMiroMessageNav opts \<and> bm_navigateTo m = Some ''miro'')) (bm_id m @ ''-nav'') @
     push_if (bm_type m = Some ''calendar_invite'') (bm_id m @ ''-calendar'') @
     push_if (non_empty (bm_anomalies m)) (bm_id m @ ''-anomalies'') @
     push_if (nullish (bo_wantsTasks opts) True \<and> non_empty (bm_recommendedTasks m) \<and>
              bm_type m \<in> {Some ''analysis'', Some ''tasks_created''} \<and>
              (\<not> given_string (bo_tasksCardMessageId opts) \<or> Some (bm_id m) = bo_tasksCardMessageId opts))
       (bm_id m @ ''-tasks'') @
     push_if (nullish (bo_wantsDecisions opts) True \<and> non_empty (bm_decisionNodes m) \<and>
              bm_type m \<in> {Some ''analysis'', Some ''decisions_created'', Some ''tasks_created''})
       (bm_id m @ ''-decisions'') @
     push_if (bm_type m \<in> {Some ''analysis'', Some ''tasks_created''} \<and> bm_calendarEvents m)
       (bm_id m @ ''-calendar-events'') @
     push_if (bo_showFollowUpToggle opts \<and> Some (bm_id m) = bo_latestAnalysisMessageId opts \<and>
              nullish (bo_stepState opts) True)
       (bm_id m @ ''-followup'')"

definition shown_message :: "board_message \<Rightarrow> bool" where
  "shown_message m \<longleftrightarrow> \<not> bm_type m = Some ''approval_request'' \<and> \<not> bm_role m \<noteq> Some Assistant_Role"

definition message_ids :: "'a block_options_scheme \<Rightarrow> string option \<Rightarrow> string list \<Rightarrow> board_message \<Rightarrow> string list" where
  "message_ids opts miroAnchorId miroCardBlockIds m =
     (if shown_message m
      then getAssistantMessageBlockIds m opts @ (if Some (bm_id m) = miroAnchorId then miroCardBlockIds else [])
      else [])"

definition getMessageBoardBlockIds :: "board_message list \<Rightarrow> board_options \<Rightarrow> string list" where
  "getMessageBoardBlockIds messages opts =
     (let miroAnchorId = getMiroCardsAnchorMessageId messages (bo_miroCardsAnchorMode opts);
          miroCardBlockIds = getMiroActionCardBlockIds (bo_bottomCardsMessageId opts) (bo_showMiroCard opts)
      in concat (map (message_ids opts miroAnchorId miroCardBlockIds) messages) @
         (if \<not> given_string miroAnchorId \<and> 0 < length miroCardBlockIds then miroCardBlockIds else []) @
         (if bo_showReupload opts then [''reupload''] else []))"

section \<open>No two blocks share an id\<close>

definition block_suffixes :: "string list" where
  "block_suffixes = [''-bubble'', ''-steps'', ''-nav'', ''-calendar'', ''-anomalies'', ''-tasks'', ''-decisions'',
     ''-calendar-events'', ''-followup'', ''-miro-generate'']"

lemma no_suffix_in_suffix: "list_all (\<lambda>s. list_all (\<lambda>t. suffix t s \<longrightarrow> s = t) block_suffixes) block_suffixes"
  by code_simp

lemma suffix_unique:
  assumes "a @ s = b @ t" and "s \<in> set block_suffixes" and "t \<in> set block_suffixes"
  shows "a = b \<and> s = t"
proof -
  have "suffix t s \<or> suffix s t" using assms(1) by (auto simp: append_eq_append_conv2 suffix_def)
  with no_suffix_in_suffix assms(2,3) have "s = t" by (auto simp: list_all_iff)
  with assms(1) show ?thesis by simp
qed

lemma set_push_if [simp]: "set (push_if c i) = (if c then {i} else {})"
  by (simp add: push_if_def)

lemma distinct_push_if [simp]: "distinct (push_if c i)"
  by (simp add: push_if_def)

lemma push_if_subset: "i \<in> A \<Longrightarrow> set (push_if c i) \<subseteq> A"
  by simp

lemma message_blocks_subset:
  "set (getAssistantMessageBlockIds m opts) \<subseteq> (@) (bm_id m) ` (set block_suffixes - {''-miro-generate''})"
  unfolding getAssistantMessageBlockIds_def set_append
  by (intro Un_least push_if_subset imageI) (simp_all add: block_suffixes_def)

lemma message_block_has_suffix:
  "i \<in> set (getAssistantMessageBlockIds m opts) \<Longrightarrow>
   \<exists>s \<in> set block_suffixes. s \<noteq> ''-miro-generate'' \<and> i = bm_id m @ s"
  using message_blocks_subset [of m opts] by blast

lemma message_blocks_distinct: "distinct (getAssistantMessageBlockIds m opts)"
  by (simp add: getAssistantMessageBlockIds_def)

definition miro_card :: "string \<Rightarrow> bool \<Rightarrow> string list" where
  "miro_card bottom shown = (if shown then [bottom @ ''-miro-generate''] else [])"

lemma miro_card: "getMiroActionCardBlockIds bottom shown = miro_card bottom shown"
  by (simp add: getMiroActionCardBlockIds_def getMiroGenerateBlockId_def miro_card_def)

lemma card_is_no_message_block: "bottom @ ''-miro-generate'' \<notin> set (getAssistantMessageBlockIds m opts)"
proof
  assume "bottom @ ''-miro-generate'' \<in> set (getAssistantMessageBlockIds m opts)"
  then obtain s where "s \<in> set block_suffixes" "s \<noteq> ''-miro-generate''" "bottom @ ''-miro-generate'' = bm_id m @ s"
    using message_block_has_suffix by blast
  with suffix_unique [of bottom "''-miro-generate''" "bm_id m" s] show False by (simp add: block_suffixes_def)
qed

lemma message_ids_set:
  "i \<in> set (message_ids opts anchor (miro_card bottom shown) m) \<Longrightarrow>
   i \<in> set (getAssistantMessageBlockIds m opts) \<or> Some (bm_id m) = anchor \<and> i \<in> set (miro_card bottom shown)"
  by (auto simp: message_ids_def split: if_splits)

lemma message_ids_distinct: "distinct (message_ids opts anchor (miro_card bottom shown) m)"
  using message_blocks_distinct [of m opts] card_is_no_message_block [of bottom m opts]
  by (auto simp: message_ids_def miro_card_def)

lemma blocks_of_two_messages:
  assumes "bm_id m \<noteq> bm_id n"
  shows "set (message_ids opts anchor (miro_card bottom shown) m) \<inter> set (message_ids opts anchor (miro_card bottom shown) n) = {}"
proof -
  have "set (getAssistantMessageBlockIds m opts) \<inter> set (getAssistantMessageBlockIds n opts) = {}"
    using assms by (auto dest!: message_block_has_suffix dest: suffix_unique)
  moreover have "set (miro_card bottom shown) \<inter> set (getAssistantMessageBlockIds k opts) = {}" for k
    using card_is_no_message_block [of bottom k opts] by (auto simp: miro_card_def)
  ultimately show ?thesis using assms by (fastforce dest!: message_ids_set)
qed

lemma all_message_ids_distinct:
  "distinct (map bm_id ms) \<Longrightarrow> distinct (concat (map (message_ids opts anchor (miro_card bottom shown)) ms))"
proof (induction ms)
  case (Cons m ms)
  then show ?case using blocks_of_two_messages [of m _ opts anchor bottom shown]
    by (fastforce simp: message_ids_distinct)
qed simp

lemma reupload_is_no_block: "''reupload'' \<notin> set (message_ids opts anchor (miro_card bottom shown) m) \<union> set (miro_card bottom shown)"
proof -
  have "''reupload'' \<noteq> a @ s" if "s \<in> set block_suffixes" for a s
  proof
    assume eq: "''reupload'' = a @ s"
    with that have "suffix s ''reupload''" by (auto simp: suffix_def)
    moreover have "list_all (\<lambda>s. \<not> suffix s ''reupload'') block_suffixes" by code_simp
    ultimately show False using that by (auto simp: list_all_iff)
  qed
  moreover have "''-miro-generate'' \<in> set block_suffixes" by (simp add: block_suffixes_def)
  ultimately have "''reupload'' \<notin> set (miro_card bottom shown)" "''reupload'' \<notin> set (getAssistantMessageBlockIds m opts)"
    using message_block_has_suffix [of "''reupload''" m opts] by (auto simp: miro_card_def split: if_splits)
  then show ?thesis using message_ids_set [of "''reupload''" opts anchor bottom shown m] by blast
qed

lemma anchor_is_a_message: "foldl (\<lambda>a m. if P m then Some (bm_id m) else a) a0 ms = Some i \<Longrightarrow>
   a0 = Some i \<or> (\<exists>m \<in> set ms. P m \<and> bm_id m = i)"
proof (induction ms arbitrary: a0)
  case (Cons m ms)
  from Cons.IH [of "if P m then Some (bm_id m) else a0"] Cons.prems show ?case by (auto split: if_splits)
qed simp

lemma miro_card_is_shown:
  assumes "bo_showMiroCard opts" and plain: "\<forall>m \<in> set messages. bm_type m \<noteq> Some ''approval_request''"
  shows "bo_bottomCardsMessageId opts @ ''-miro-generate'' \<in> set (getMessageBoardBlockIds messages opts)"
proof (cases "getMiroCardsAnchorMessageId messages (bo_miroCardsAnchorMode opts)")
  case None
  with assms(1) show ?thesis by (simp add: getMessageBoardBlockIds_def miro_card miro_card_def given_string_def)
next
  case (Some i)
  then obtain m where m: "m \<in> set messages" "is_anchor (nullish (bo_miroCardsAnchorMode opts) After_Miro_Started) m" "bm_id m = i"
    using anchor_is_a_message [of "is_anchor (nullish (bo_miroCardsAnchorMode opts) After_Miro_Started)" None messages i]
    by (auto simp: getMiroCardsAnchorMessageId_def)
  with plain have "shown_message m" by (simp add: shown_message_def is_anchor_def)
  with m Some assms(1) show ?thesis
    by (auto simp: getMessageBoardBlockIds_def miro_card miro_card_def message_ids_def Let_def intro!: bexI [of _ m])
qed


definition sample_message :: "string \<Rightarrow> string \<Rightarrow> board_message" where
  "sample_message i eventType =
     \<lparr> bm_id = i, bm_role = Some Assistant_Role, bm_content = ''done'', bm_type = Some ''analysis'', bm_eventType = Some eventType,
       bm_stepProgress = Some 3, bm_navigateTo = Some ''miro'', bm_navigateLabel = Some ''Open'', bm_anomalies = Some 2,
       bm_recommendedTasks = Some 1, bm_decisionNodes = None, bm_calendarEvents = True \<rparr>"

definition sample_options :: board_options where
  "sample_options =
     \<lparr> bo_latestAnalysisMessageId = Some ''b'', bo_showFollowUpToggle = True, bo_stepState = None, bo_tasksCardMessageId = None,
       bo_suppressMiroMessageNav = False, bo_wantsTasks = None, bo_wantsDecisions = None, bo_bottomCardsMessageId = ''b'',
       bo_showMiroCard = True, bo_showReupload = True, bo_miroCardsAnchorMode = None \<rparr>"


end
