(* ===== verification/Grid_Layout.thy ===== *)
theory Grid_Layout imports Js_Number Js_Object begin

text \<open>
  Where the cells of the spreadsheet grid stand, which of them are on the screen and which tiles are loaded
  for them (\<open>src/frontend/src/components/spreadsheets/SpreadsheetGrid.tsx\<close>).  A length in pixels is a rational
  number; the sizes the user has set are the properties of an object, one per row or column.
\<close>

section \<open>Constants\<close>

definition ROW_HEIGHT :: rat where "ROW_HEIGHT = 24"
definition COLUMN_WIDTH :: rat where "COLUMN_WIDTH = 120"
definition ROW_MIN_HEIGHT :: rat where "ROW_MIN_HEIGHT = 20"
definition COLUMN_MIN_WIDTH :: rat where "COLUMN_MIN_WIDTH = 40"
definition ROW_NUMBER_WIDTH :: rat where "ROW_NUMBER_WIDTH = 50"
definition HEADER_HEIGHT :: rat where "HEADER_HEIGHT = 24"
definition OVERSCAN_ROWS :: int where "OVERSCAN_ROWS = 20"
definition OVERSCAN_COLUMNS :: int where "OVERSCAN_COLUMNS = 6"
definition MAX_ROWS :: int where "MAX_ROWS = 100000"
definition MAX_COLUMNS :: int where "MAX_COLUMNS = 702"
definition TILE_ROWS :: int where "TILE_ROWS = 50"
definition TILE_COLUMNS :: int where "TILE_COLUMNS = 20"

section \<open>Sizes and offsets\<close>

type_synonym sizes = "(int, rat) jmap"

record size_index =
  si_indices :: "int list"
  si_prefix :: "rat list"
  si_totalDelta :: rat

definition size_entries :: "sizes \<Rightarrow> rat \<Rightarrow> (int \<times> rat) list" where
  "size_entries sizes defaultSize =
     js_sort (\<lambda>a b. fst a - fst b)
       (filter (\<lambda>e. snd e \<noteq> 0) (map (\<lambda>(index, size). (index, size - defaultSize)) sizes))"

definition index_entry :: "size_index \<Rightarrow> int \<times> rat \<Rightarrow> size_index" where
  "index_entry si e =
     (let totalDelta = si_totalDelta si + snd e
      in \<lparr> si_indices = si_indices si @ [fst e], si_prefix = si_prefix si @ [totalDelta], si_totalDelta = totalDelta \<rparr>)"

definition buildSizeIndex :: "sizes \<Rightarrow> rat \<Rightarrow> size_index" where
  "buildSizeIndex sizes defaultSize =
     foldl index_entry \<lparr> si_indices = [], si_prefix = [], si_totalDelta = 0 \<rparr> (size_entries sizes defaultSize)"

function delta_loop :: "int list \<Rightarrow> int \<Rightarrow> int \<Rightarrow> int \<Rightarrow> int \<Rightarrow> int" where
  "delta_loop indices index low high position =
     (if low \<le> high
      then (let mid = (low + high) div 2
            in if indices ! nat mid < index then delta_loop indices index (mid + 1) high mid
               else delta_loop indices index low (mid - 1) position)
      else position)"
  by pat_completeness auto
termination
  by (relation "measure (\<lambda>(_, _, low, high, _). nat (high - low + 1))") auto

declare delta_loop.simps [simp del]

definition getDeltaBefore :: "int \<Rightarrow> size_index \<Rightarrow> rat" where
  "getDeltaBefore index si =
     (let position = delta_loop (si_indices si) index 0 (int (length (si_indices si)) - 1) (-1)
      in if position \<ge> 0 then si_prefix si ! nat position else 0)"

function find_loop :: "rat \<Rightarrow> (int \<Rightarrow> rat) \<Rightarrow> (int \<Rightarrow> rat) \<Rightarrow> int \<Rightarrow> int \<Rightarrow> int + int" where
  "find_loop x getOffset getSize low high =
     (if low \<le> high
      then (let mid = (low + high) div 2; a = getOffset mid; b = a + getSize mid
            in if x < a then find_loop x getOffset getSize low (mid - 1)
               else if x \<ge> b then find_loop x getOffset getSize (mid + 1) high
               else Inr mid)
      else Inl low)"
  by pat_completeness auto
termination
  by (relation "measure (\<lambda>(_, _, _, low, high). nat (high - low + 1))") auto

declare find_loop.simps [simp del]

definition findIndexAtOffset :: "rat \<Rightarrow> int \<Rightarrow> (int \<Rightarrow> rat) \<Rightarrow> (int \<Rightarrow> rat) \<Rightarrow> int" where
  "findIndexAtOffset offset cellCount getOffset getSize =
     (if cellCount \<le> 0 then 0
      else case find_loop (max 0 offset) getOffset getSize 0 (cellCount - 1) of
             Inr mid \<Rightarrow> mid
           | Inl low \<Rightarrow> max 0 (min (cellCount - 1) low))"

record grid_size =
  gs_rowCount :: int
  gs_colCount :: int
  gs_rowHeights :: sizes
  gs_colWidths :: sizes

definition getRowHeight :: "grid_size \<Rightarrow> int \<Rightarrow> rat" where
  "getRowHeight g row = nullish (jmap_get (gs_rowHeights g) row) ROW_HEIGHT"

definition getColumnWidth :: "grid_size \<Rightarrow> int \<Rightarrow> rat" where
  "getColumnWidth g col = nullish (jmap_get (gs_colWidths g) col) COLUMN_WIDTH"

definition getRowOffset :: "grid_size \<Rightarrow> int \<Rightarrow> rat" where
  "getRowOffset g rowIndex =
     (let clamped = max 0 (min rowIndex (gs_rowCount g))
      in of_int clamped * ROW_HEIGHT + getDeltaBefore clamped (buildSizeIndex (gs_rowHeights g) ROW_HEIGHT))"

definition getColumnOffset :: "grid_size \<Rightarrow> int \<Rightarrow> rat" where
  "getColumnOffset g colIndex =
     (let clamped = max 0 (min colIndex (gs_colCount g))
      in of_int clamped * COLUMN_WIDTH + getDeltaBefore clamped (buildSizeIndex (gs_colWidths g) COLUMN_WIDTH))"

definition getRowIndexAtOffset :: "grid_size \<Rightarrow> rat \<Rightarrow> int" where
  "getRowIndexAtOffset g offset = findIndexAtOffset offset (gs_rowCount g) (getRowOffset g) (getRowHeight g)"

definition getColumnIndexAtOffset :: "grid_size \<Rightarrow> rat \<Rightarrow> int" where
  "getColumnIndexAtOffset g offset = findIndexAtOffset offset (gs_colCount g) (getColumnOffset g) (getColumnWidth g)"

definition totalRowHeight :: "grid_size \<Rightarrow> rat" where
  "totalRowHeight g = of_int (gs_rowCount g) * ROW_HEIGHT + si_totalDelta (buildSizeIndex (gs_rowHeights g) ROW_HEIGHT)"

text \<open>Dragging the border of a row or a column: the object of its sizes gets one property.\<close>

definition resize_col :: "int \<Rightarrow> rat \<Rightarrow> rat \<Rightarrow> grid_size \<Rightarrow> grid_size" where
  "resize_col index startSize delta g =
     g\<lparr> gs_colWidths := jmap_set index (max COLUMN_MIN_WIDTH (startSize + delta)) (gs_colWidths g) \<rparr>"

definition resize_row :: "int \<Rightarrow> rat \<Rightarrow> rat \<Rightarrow> grid_size \<Rightarrow> grid_size" where
  "resize_row index startSize delta g =
     g\<lparr> gs_rowHeights := jmap_set index (max ROW_MIN_HEIGHT (startSize + delta)) (gs_rowHeights g) \<rparr>"

definition updateGridDimensionsLocal :: "int \<Rightarrow> int \<Rightarrow> grid_size \<Rightarrow> grid_size" where
  "updateGridDimensionsLocal targetRows targetCols g =
     g\<lparr> gs_rowCount := min MAX_ROWS (max 0 targetRows), gs_colCount := min MAX_COLUMNS (max 0 targetCols) \<rparr>"

section \<open>What is on the screen\<close>

record container =
  clientHeight :: rat
  clientWidth :: rat
  scrollTop :: rat
  scrollLeft :: rat

record cell_range =
  startRow :: int
  endRow :: int
  startColumn :: int
  endColumn :: int

definition safeDefaultRange :: "grid_size \<Rightarrow> cell_range" where
  "safeDefaultRange g =
     \<lparr> startRow = 0, endRow = min 30 (max 0 (gs_rowCount g - 1)), startColumn = 0, endColumn = min 10 (max 0 (gs_colCount g - 1)) \<rparr>"

definition computeVisibleRange :: "grid_size \<Rightarrow> container option \<Rightarrow> cell_range" where
  "computeVisibleRange g gridRef =
     (let maxRow = max 1 (gs_rowCount g) - 1; maxCol = max 1 (gs_colCount g) - 1
      in case gridRef of
           None \<Rightarrow> \<lparr> startRow = 0, endRow = min 30 maxRow, startColumn = 0, endColumn = min 10 maxCol \<rparr>
         | Some c \<Rightarrow>
             if clientHeight c \<le> 0 \<or> clientWidth c \<le> 0 then safeDefaultRange g
             else let maxScrollTop = max 0 (totalRowHeight g - clientHeight c + HEADER_HEIGHT);
                      clampedScrollTop = min (scrollTop c) maxScrollTop;
                      adjustedScrollTop = max 0 (clampedScrollTop - HEADER_HEIGHT);
                      startRow0 = max 0 (min maxRow (getRowIndexAtOffset g adjustedScrollTop - OVERSCAN_ROWS));
                      endRow0 = max startRow0
                        (min maxRow (max startRow0
                           (getRowIndexAtOffset g (min (adjustedScrollTop + clientHeight c) (totalRowHeight g)) + OVERSCAN_ROWS)));
                      dataViewportWidth = max 0 (clientWidth c - ROW_NUMBER_WIDTH);
                      startColumn0 = max 0 (getColumnIndexAtOffset g (scrollLeft c) - OVERSCAN_COLUMNS);
                      endColumn0 = max startColumn0
                        (min maxCol (getColumnIndexAtOffset g (scrollLeft c + dataViewportWidth) + OVERSCAN_COLUMNS))
                  in \<lparr> startRow = startRow0, endRow = min maxRow (max startRow0 endRow0),
                       startColumn = startColumn0, endColumn = min maxCol (max startColumn0 endColumn0) \<rparr>)"

section \<open>Tiles\<close>

definition tile_at :: "int \<Rightarrow> int \<Rightarrow> int \<Rightarrow> int \<Rightarrow> cell_range" where
  "tile_at maxRow maxCol r c =
     \<lparr> startRow = r * TILE_ROWS, endRow = min maxRow ((r + 1) * TILE_ROWS - 1),
       startColumn = c * TILE_COLUMNS, endColumn = min maxCol ((c + 1) * TILE_COLUMNS - 1) \<rparr>"

definition enumerateTilesInRange :: "cell_range \<Rightarrow> int \<Rightarrow> int \<Rightarrow> cell_range list" where
  "enumerateTilesInRange area rowLimit colLimit =
     (let maxRow = max 0 (min (rowLimit - 1) (MAX_ROWS - 1));
          maxCol = max 0 (min (colLimit - 1) (MAX_COLUMNS - 1));
          sr = max 0 (min (startRow area) maxRow);
          er = max sr (min (endRow area) maxRow);
          sc = max 0 (min (startColumn area) maxCol);
          ec = max sc (min (endColumn area) maxCol)
      in if sr > er \<or> sc > ec then []
         else concat (map (\<lambda>r. map (tile_at maxRow maxCol r) [sc div TILE_COLUMNS..ec div TILE_COLUMNS])
                        [sr div TILE_ROWS..er div TILE_ROWS]))"

definition in_range :: "cell_range \<Rightarrow> int \<Rightarrow> int \<Rightarrow> bool" where
  "in_range t r c \<longleftrightarrow> startRow t \<le> r \<and> r \<le> endRow t \<and> startColumn t \<le> c \<and> c \<le> endColumn t"

section \<open>Offsets are sums of sizes\<close>

lemma delta_loop_invariant:
  assumes "sorted_wrt (<) indices" and "0 \<le> low" and "low \<le> high + 1" and "high < int (length indices)"
    and "\<forall>i. 0 \<le> i \<and> i < low \<longrightarrow> indices ! nat i < index"
    and "\<forall>i. high < i \<and> i < int (length indices) \<longrightarrow> index \<le> indices ! nat i"
    and "position = low - 1"
  shows "let p = delta_loop indices index low high position
     in -1 \<le> p \<and> p < int (length indices) \<and> (\<forall>i. 0 \<le> i \<and> i \<le> p \<longrightarrow> indices ! nat i < index) \<and>
        (\<forall>i. p < i \<and> i < int (length indices) \<longrightarrow> index \<le> indices ! nat i)"
  using assms
proof (induction indices index low high position rule: delta_loop.induct)
  case (1 indices index low high position)
  show ?case
  proof (cases "low \<le> high")
    case False
    with "1.prems" show ?thesis by (subst delta_loop.simps) (auto simp: Let_def)
  next
    case True
    define mid where "mid = (low + high) div 2"
    from True have mid: "low \<le> mid" "mid \<le> high" by (auto simp: mid_def)
    have mono: "indices ! nat i \<le> indices ! nat j" if "0 \<le> i" "i \<le> j" "j < int (length indices)" for i j
      using "1.prems"(1) that sorted_wrt_nth_less [of "(<)" indices "nat i" "nat j"] by (cases "i = j") (auto simp: nat_less_iff)
    show ?thesis
    proof (cases "indices ! nat mid < index")
      case below: True
      have "\<forall>i. 0 \<le> i \<and> i < mid + 1 \<longrightarrow> indices ! nat i < index"
      proof (intro allI impI)
        fix i assume "0 \<le> i \<and> i < mid + 1"
        with mono [of i mid] mid "1.prems"(4) below show "indices ! nat i < index" by simp
      qed
      with "1.IH"(1) [OF True mid_def below] "1.prems" mid below True show ?thesis
        by (subst delta_loop.simps) (simp add: mid_def [symmetric] Let_def)
    next
      case above: False
      have "\<forall>i. mid - 1 < i \<and> i < int (length indices) \<longrightarrow> index \<le> indices ! nat i"
      proof (intro allI impI)
        fix i assume "mid - 1 < i \<and> i < int (length indices)"
        with mono [of mid i] mid "1.prems"(2) above show "index \<le> indices ! nat i" by simp
      qed
      with "1.IH"(2) [OF True mid_def above] "1.prems" mid above True show ?thesis
        by (subst delta_loop.simps) (simp add: mid_def [symmetric] Let_def)
    qed
  qed
qed

text \<open>The index holds the entries of the object in ascending order, and the sums of their deltas.\<close>

lemma index_fold:
  "foldl index_entry si es =
   \<lparr> si_indices = si_indices si @ map fst es,
     si_prefix = si_prefix si @ map (\<lambda>n. si_totalDelta si + sum_list (map snd (take (Suc n) es))) [0..<length es],
     si_totalDelta = si_totalDelta si + sum_list (map snd es) \<rparr>"
proof (induction es arbitrary: si)
  case (Cons e es)
  have "foldl index_entry si (e # es) = foldl index_entry (index_entry si e) es" by simp
  also have "\<dots> = \<lparr> si_indices = si_indices si @ map fst (e # es),
     si_prefix = si_prefix si @ map (\<lambda>n. si_totalDelta si + sum_list (map snd (take (Suc n) (e # es)))) [0..<length (e # es)],
     si_totalDelta = si_totalDelta si + sum_list (map snd (e # es)) \<rparr>"
    unfolding Cons.IH
    by (simp add: index_entry_def Let_def upt_conv_Cons map_Suc_upt [symmetric] comp_def add.assoc del: upt_Suc)
  finally show ?case .
qed simp

lemma buildSizeIndex:
  "buildSizeIndex sizes d =
   \<lparr> si_indices = map fst (size_entries sizes d),
     si_prefix = map (\<lambda>n. sum_list (map snd (take (Suc n) (size_entries sizes d)))) [0..<length (size_entries sizes d)],
     si_totalDelta = sum_list (map snd (size_entries sizes d)) \<rparr>"
  by (simp add: buildSizeIndex_def index_fold)

lemma sorted_entries:
  assumes "distinct (map fst sizes)"
  shows "sorted_wrt (<) (map fst (size_entries sizes d))"
proof -
  have "distinct (map fst (filter (\<lambda>e. snd e \<noteq> 0) (map (\<lambda>(index, size). (index, size - d)) sizes)))"
    using assms by (intro distinct_map_filter) (simp add: case_prod_beta' comp_def)
  then have "distinct (map fst (size_entries sizes d))" by (simp add: size_entries_def js_sort_diff distinct_map)
  moreover have "sorted (map fst (size_entries sizes d))" by (simp add: size_entries_def js_sort_diff)
  ultimately show ?thesis by (simp add: strict_sorted_iff)
qed

lemma delta_before:
  assumes "distinct (map fst sizes)"
  shows "getDeltaBefore index (buildSizeIndex sizes d) =
    sum_list (map snd (filter (\<lambda>e. fst e < index) (size_entries sizes d)))"
proof -
  define es where "es = size_entries sizes d"
  define p where "p = delta_loop (map fst es) index 0 (int (length (map fst es)) - 1) (-1)"
  have "sorted_wrt (<) (map fst es)" using sorted_entries [OF assms] by (simp add: es_def)
  then have inv: "-1 \<le> p \<and> p < int (length (map fst es)) \<and> (\<forall>i. 0 \<le> i \<and> i \<le> p \<longrightarrow> map fst es ! nat i < index) \<and>
      (\<forall>i. p < i \<and> i < int (length (map fst es)) \<longrightarrow> index \<le> map fst es ! nat i)"
    unfolding p_def by (intro delta_loop_invariant [unfolded Let_def]) simp_all
  then have low: "-1 \<le> p" and high: "p < int (length es)" by simp_all
  have before: "fst (es ! nat i) < index" if "0 \<le> i" "i \<le> p" for i
    using inv that nth_map [of "nat i" es fst] by (auto simp: nat_less_iff)
  have after: "index \<le> fst (es ! nat i)" if "p < i" "i < int (length es)" for i
    using inv that nth_map [of "nat i" es fst] low by (auto simp: nat_less_iff)
  let ?n = "nat (p + 1)"
  have "filter (\<lambda>e. fst e < index) (take ?n es) = take ?n es"
  proof (intro filter_True ballI)
    fix e assume "e \<in> set (take ?n es)"
    then obtain i where "i < ?n" "i < length es" "e = es ! i" by (auto simp: in_set_conv_nth)
    with before [of "int i"] show "fst e < index" by simp
  qed
  moreover have "filter (\<lambda>e. fst e < index) (drop ?n es) = []"
  proof (intro filter_False ballI)
    fix e assume "e \<in> set (drop ?n es)"
    then obtain i where "i < length es - ?n" "e = es ! (?n + i)" by (auto simp: in_set_conv_nth)
    then have "?n + i < length es" and e: "e = es ! (?n + i)" by simp_all
    then have "p + 1 + int i < int (length es)" using low by linarith
    with after [of "p + 1 + int i"] low e show "\<not> fst e < index" by (simp add: nat_add_distrib)
  qed
  ultimately have "filter (\<lambda>e. fst e < index) es = take ?n es" by (metis append_Nil2 append_take_drop_id filter_append)
  moreover have "getDeltaBefore index (buildSizeIndex sizes d) =
      (if 0 \<le> p then map (\<lambda>n. sum_list (map snd (take (Suc n) es))) [0..<length es] ! nat p else 0)"
    by (simp add: getDeltaBefore_def buildSizeIndex es_def p_def Let_def)
  then have "getDeltaBefore index (buildSizeIndex sizes d) = sum_list (map snd (take ?n es))"
    using low high by (cases "0 \<le> p") (simp_all add: Suc_nat_eq_nat_zadd1 add.commute nat_less_iff)
  ultimately show ?thesis by (simp add: es_def)
qed

definition size_at :: "sizes \<Rightarrow> rat \<Rightarrow> int \<Rightarrow> rat" where
  "size_at sizes d i = nullish (jmap_get sizes i) d"

lemma entries_mset:
  "mset (size_entries sizes d) = filter_mset (\<lambda>e. snd e \<noteq> 0) (mset (map (\<lambda>(index, size). (index, size - d)) sizes))"
  by (simp add: size_entries_def)

lemma sum_list_mset: "sum_list (map snd (filter P xs)) = sum_mset (image_mset snd (filter_mset P (mset xs)))"
  by (induction xs) auto

lemma sum_of_entries:
  assumes "distinct (map fst sizes)"
  shows "sum_list (map snd (filter P (size_entries sizes d))) = (\<Sum>(i, s) \<leftarrow> filter (\<lambda>(i, s). P (i, s - d)) sizes. s - d)"
proof -
  let ?es = "map (\<lambda>(index, size). (index, size - d)) sizes"
  have "sum_list (map snd (filter P (size_entries sizes d))) = sum_mset (image_mset snd (filter_mset P (mset (size_entries sizes d))))"
    by (simp add: sum_list_mset)
  also have "\<dots> = sum_mset (image_mset snd (filter_mset P (filter_mset (\<lambda>e. snd e \<noteq> 0) (mset ?es))))"
    by (simp add: entries_mset)
  also have "\<dots> = sum_list (map snd (filter P (filter (\<lambda>e. snd e \<noteq> 0) ?es)))"
    by (simp only: sum_list_mset mset_filter)
  also have "\<dots> = sum_list (map snd (filter P ?es))" by (induction sizes) auto
  also have "\<dots> = (\<Sum>(i, s) \<leftarrow> filter (\<lambda>(i, s). P (i, s - d)) sizes. s - d)" by (induction sizes) auto
  finally show ?thesis .
qed

lemma deltas_in_range:
  assumes "distinct (map fst sizes)" and "\<forall>i \<in> set (map fst sizes). 0 \<le> i"
  shows "(\<Sum>(i, s) \<leftarrow> filter (\<lambda>(i, s). i < index) sizes. s - d) = (\<Sum>i \<in> {0..<index}. size_at sizes d i - d)"
  using assms
proof (induction sizes)
  case Nil
  then show ?case by (simp add: size_at_def jmap_get_def)
next
  case (Cons x sizes)
  obtain i s where x: "x = (i, s)" by force
  with Cons.prems have fresh: "jmap_get sizes i = None" by (auto simp: jmap_get_def map_of_eq_None_iff)
  have other: "size_at (x # sizes) d j = size_at sizes d j" if "j \<noteq> i" for j
    using that by (simp add: size_at_def jmap_get_def x)
  have here: "size_at (x # sizes) d i = s" "size_at sizes d i = d" using fresh by (simp_all add: size_at_def jmap_get_def x)
  show ?case
  proof (cases "i < index")
    case True
    with Cons.prems x have "i \<in> {0..<index}" by simp
    then have "(\<Sum>j \<in> {0..<index}. size_at (x # sizes) d j - d) = (s - d) + (\<Sum>j \<in> {0..<index}. size_at sizes d j - d)"
      by (simp add: sum.remove here other)
    with Cons True x show ?thesis by simp
  next
    case False
    then have "(\<Sum>j \<in> {0..<index}. size_at (x # sizes) d j - d) = (\<Sum>j \<in> {0..<index}. size_at sizes d j - d)"
      by (intro sum.cong) (auto simp: other)
    with Cons False x show ?thesis by simp
  qed
qed

definition sizes_ok :: "sizes \<Rightarrow> bool" where
  "sizes_ok sizes \<longleftrightarrow> distinct (map fst sizes) \<and> (\<forall>(i, s) \<in> set sizes. 0 \<le> i \<and> 0 < s)"

lemma offset_is_sum:
  assumes "sizes_ok sizes" and "0 \<le> n"
  shows "of_int n * d + getDeltaBefore n (buildSizeIndex sizes d) = (\<Sum>i \<in> {0..<n}. size_at sizes d i)"
proof -
  have ok: "distinct (map fst sizes)" "\<forall>i \<in> set (map fst sizes). 0 \<le> i" using assms(1) by (auto simp: sizes_ok_def)
  have "getDeltaBefore n (buildSizeIndex sizes d) = (\<Sum>i \<in> {0..<n}. size_at sizes d i - d)"
    using deltas_in_range [OF ok, where index = n and d = d] sum_of_entries [OF ok(1), of "\<lambda>e. fst e < n" d] by (simp add: delta_before [OF ok(1)])
  then show ?thesis using assms(2) by (simp add: sum_subtractf)
qed

section \<open>The row or column at an offset\<close>

lemma find_loop_hits:
  assumes step: "\<And>i. 0 \<le> i \<Longrightarrow> i < n \<Longrightarrow> getOffset (i + 1) = getOffset i + getSize i"
  shows "0 \<le> low \<Longrightarrow> low \<le> high + 1 \<Longrightarrow> high < n \<Longrightarrow> getOffset low \<le> x \<Longrightarrow> x < getOffset (high + 1) \<Longrightarrow>
    \<exists>i. find_loop x getOffset getSize low high = Inr i \<and> 0 \<le> i \<and> i < n \<and> getOffset i \<le> x \<and> x < getOffset (i + 1)"
proof (induction "nat (high - low + 1)" arbitrary: low high rule: less_induct)
  case less
  define mid where "mid = (low + high) div 2"
  from less.prems have "low \<noteq> high + 1" by auto
  then have mid: "low \<le> mid" "mid \<le> high" using less.prems(2) by (auto simp: mid_def)
  then have next_mid: "getOffset (mid + 1) = getOffset mid + getSize mid" using step less.prems(1,3) by simp
  have loop: "find_loop x getOffset getSize low high =
      (if x < getOffset mid then find_loop x getOffset getSize low (mid - 1)
       else if x \<ge> getOffset (mid + 1) then find_loop x getOffset getSize (mid + 1) high else Inr mid)"
    using mid by (subst find_loop.simps) (simp add: Let_def mid_def [symmetric] next_mid)
  consider "x < getOffset mid" | "getOffset (mid + 1) \<le> x" "\<not> x < getOffset mid" | "getOffset mid \<le> x" "x < getOffset (mid + 1)" by fastforce
  then show ?case
  proof cases
    case 1
    with less.hyps [of "mid - 1" low] less.prems mid loop show ?thesis by simp
  next
    case 2
    with less.hyps [of high "mid + 1"] less.prems mid loop show ?thesis by simp
  next
    case 3
    with loop mid less.prems show ?thesis by simp
  qed
qed

lemma find_loop_beyond:
  assumes step: "\<And>i. 0 \<le> i \<Longrightarrow> i < n \<Longrightarrow> getOffset (i + 1) \<le> x \<and> getOffset (i + 1) = getOffset i + getSize i \<and> getOffset i \<le> x"
  shows "0 \<le> low \<Longrightarrow> low \<le> n \<Longrightarrow> find_loop x getOffset getSize low (n - 1) = Inl n"
proof (induction "nat (n - low)" arbitrary: low rule: less_induct)
  case less
  define mid where "mid = (low + (n - 1)) div 2"
  show ?case
  proof (cases "low = n")
    case True
    then show ?thesis by (subst find_loop.simps) simp
  next
    case False
    with less.prems have mid: "low \<le> mid" "mid \<le> n - 1" by (auto simp: mid_def)
    with step [of mid] less.prems have "find_loop x getOffset getSize low (n - 1) = find_loop x getOffset getSize (mid + 1) (n - 1)"
      by (subst find_loop.simps) (simp add: Let_def mid_def [symmetric])
    with less.hyps [of "mid + 1"] mid less.prems show ?thesis by simp
  qed
qed

text \<open>Offsets that grow by the sizes, which are positive.\<close>

definition axis :: "int \<Rightarrow> (int \<Rightarrow> rat) \<Rightarrow> (int \<Rightarrow> rat) \<Rightarrow> bool" where
  "axis n off sz \<longleftrightarrow> off 0 = 0 \<and> (\<forall>i. 0 \<le> i \<and> i < n \<longrightarrow> 0 < sz i \<and> off (i + 1) = off i + sz i)"

lemma axis_mono: "axis n off sz \<Longrightarrow> 0 \<le> i \<Longrightarrow> i \<le> j \<Longrightarrow> j \<le> n \<Longrightarrow> off i \<le> off j"
proof (induction "nat (j - i)" arbitrary: j)
  case (Suc k)
  then have "off i \<le> off (j - 1)" by simp
  moreover have "off (j - 1) < off (j - 1 + 1)"
    using Suc.prems Suc.hyps(2) by (auto simp: axis_def dest!: spec [of _ "j - 1"])
  ultimately show ?case by simp
qed simp

lemma index_at:
  assumes ax: "axis n off sz" and n: "0 < n" and x: "0 \<le> x"
  shows "let i = findIndexAtOffset x n off sz
    in 0 \<le> i \<and> i < n \<and> off i \<le> x \<and> (x < off n \<longrightarrow> x < off (i + 1)) \<and> (off n \<le> x \<longrightarrow> i = n - 1)"
proof (cases "x < off n")
  case True
  have "\<exists>i. find_loop x off sz 0 (n - 1) = Inr i \<and> 0 \<le> i \<and> i < n \<and> off i \<le> x \<and> x < off (i + 1)"
    by (rule find_loop_hits) (use ax n x True in \<open>simp_all add: axis_def\<close>)
  with True n x show ?thesis by (auto simp: findIndexAtOffset_def Let_def)
next
  case False
  then have below: "off i \<le> x" if "0 \<le> i" "i \<le> n" for i using axis_mono [OF ax that(1) that(2)] by simp
  have "find_loop x off sz 0 (n - 1) = Inl n"
  proof (rule find_loop_beyond)
    fix i assume "0 \<le> i" "i < n"
    with ax below [of i] below [of "i + 1"] show "off (i + 1) \<le> x \<and> off (i + 1) = off i + sz i \<and> off i \<le> x"
      by (simp add: axis_def)
  qed (use n in simp_all)
  with below show ?thesis using False n x by (simp add: findIndexAtOffset_def)
qed

lemma index_mono:
  assumes ax: "axis n off sz" and "0 < n" and "0 \<le> x" and "off i \<le> x" and "0 \<le> i" and "i < n"
  shows "i \<le> findIndexAtOffset x n off sz"
proof (rule ccontr)
  define j where "j = findIndexAtOffset x n off sz"
  assume "\<not> i \<le> findIndexAtOffset x n off sz"
  then have "j + 1 \<le> i" by (simp add: j_def)
  with index_at [OF ax assms(2,3)] axis_mono [OF ax, of "j + 1" i] assms(4,5,6) show False by (auto simp: Let_def j_def [symmetric])
qed

lemma index_least:
  assumes ax: "axis n off sz" and "0 < n" and "0 \<le> x" and "x < off (i + 1)" and "0 \<le> i" and "i < n"
  shows "findIndexAtOffset x n off sz \<le> i"
proof (rule ccontr)
  define j where "j = findIndexAtOffset x n off sz"
  assume "\<not> findIndexAtOffset x n off sz \<le> i"
  then have "i + 1 \<le> j" by (simp add: j_def)
  with index_at [OF ax assms(2,3)] axis_mono [OF ax, of "i + 1" j] assms(4,5,6) show False by (auto simp: Let_def j_def [symmetric])
qed

section \<open>The grid\<close>

definition grid_ok :: "grid_size \<Rightarrow> bool" where
  "grid_ok g \<longleftrightarrow> 0 < gs_rowCount g \<and> 0 < gs_colCount g \<and> gs_rowCount g \<le> MAX_ROWS \<and> gs_colCount g \<le> MAX_COLUMNS \<and>
     sizes_ok (gs_rowHeights g) \<and> sizes_ok (gs_colWidths g)"

lemma size_positive: "sizes_ok sizes \<Longrightarrow> 0 < d \<Longrightarrow> 0 < nullish (jmap_get sizes i) d"
  by (cases "jmap_get sizes i") (auto simp: sizes_ok_def jmap_get_def dest: map_of_SomeD)

lemma sum_step: "0 \<le> i \<Longrightarrow> (\<Sum>k \<in> {0..<i + 1}. f k) = (\<Sum>k \<in> {0..<i}. f k) + (f i :: rat)" for i :: int
proof -
  assume "0 \<le> i"
  then have "{0..<i + 1} = insert i {0..<i}" by auto
  then show ?thesis by (simp add: add.commute)
qed

lemma axis_of_sizes:
  assumes "sizes_ok sizes" and "0 < d" and off: "\<And>i. 0 \<le> i \<Longrightarrow> i \<le> n \<Longrightarrow> off i = of_int i * d + getDeltaBefore i (buildSizeIndex sizes d)"
    and "0 \<le> n"
  shows "axis n off (\<lambda>i. nullish (jmap_get sizes i) d)"
proof -
  have "off i = (\<Sum>k \<in> {0..<i}. nullish (jmap_get sizes k) d)" if "0 \<le> i" "i \<le> n" for i
    using off [OF that] offset_is_sum [OF assms(1) that(1), of d] by (simp add: size_at_def)
  then show ?thesis using assms(4) sum_step [of _ "\<lambda>i. nullish (jmap_get sizes i) d"] size_positive [OF assms(1,2)]
    by (simp add: axis_def)
qed

lemma row_axis: "grid_ok g \<Longrightarrow> axis (gs_rowCount g) (getRowOffset g) (getRowHeight g)"
  unfolding getRowHeight_def [abs_def]
  by (rule axis_of_sizes) (simp_all add: grid_ok_def getRowOffset_def ROW_HEIGHT_def)

lemma column_axis: "grid_ok g \<Longrightarrow> axis (gs_colCount g) (getColumnOffset g) (getColumnWidth g)"
  unfolding getColumnWidth_def [abs_def]
  by (rule axis_of_sizes) (simp_all add: grid_ok_def getColumnOffset_def COLUMN_WIDTH_def)

lemma resize_keeps_ok:
  assumes "grid_ok g" and "0 \<le> index"
  shows "grid_ok (resize_col index startSize delta g)" and "grid_ok (resize_row index startSize delta g)"
  using assms
  by (auto simp: grid_ok_def resize_col_def resize_row_def sizes_ok_def distinct_jmap_set COLUMN_MIN_WIDTH_def ROW_MIN_HEIGHT_def
      dest!: jmap_set_in)

text \<open>A column starts where the columns before it end: its offset, which the code finds by binary search in an
  index of the changed widths, is the sum of the widths of all columns before it.  The same holds for rows.\<close>

lemma offsets_are_sums:
  assumes "grid_ok g" and "0 \<le> n"
  shows "(n \<le> gs_colCount g \<longrightarrow> getColumnOffset g n = (\<Sum>i \<in> {0..<n}. getColumnWidth g i)) \<and>
    (n \<le> gs_rowCount g \<longrightarrow> getRowOffset g n = (\<Sum>i \<in> {0..<n}. getRowHeight g i))"
  using assms offset_is_sum [of "gs_colWidths g" n COLUMN_WIDTH] offset_is_sum [of "gs_rowHeights g" n ROW_HEIGHT]
  by (simp add: grid_ok_def getColumnOffset_def getRowOffset_def getColumnWidth_def getRowHeight_def size_at_def Let_def)

lemma atLeastLessThan_3: "{0..<3 :: int} = {0, 1, 2}"
  by auto

lemma offsets_are_sums_witness:
  "getColumnOffset \<lparr> gs_rowCount = 9, gs_colCount = 5, gs_rowHeights = [], gs_colWidths = [(1, 40), (3, 200)] \<rparr> 3 = 280"
  using offsets_are_sums [of "\<lparr> gs_rowCount = 9, gs_colCount = 5, gs_rowHeights = [], gs_colWidths = [(1, 40), (3, 200)] \<rparr>" 3]
  by (simp add: grid_ok_def sizes_ok_def MAX_ROWS_def MAX_COLUMNS_def getColumnWidth_def jmap_get_def COLUMN_WIDTH_def
      atLeastLessThan_3)

text \<open>The pointer selects the cell it is over: the binary search over the offsets finds, for every point inside
  a cell, the row and the column of that cell.\<close>

lemma pointer_finds_cell:
  assumes "grid_ok g" and "0 \<le> row" and "row < gs_rowCount g" and "0 \<le> col" and "col < gs_colCount g"
    and "0 \<le> x" and "x < getColumnWidth g col" and "0 \<le> y" and "y < getRowHeight g row"
  shows "getRowIndexAtOffset g (getRowOffset g row + y) = row \<and> getColumnIndexAtOffset g (getColumnOffset g col + x) = col"
proof -
  have "findIndexAtOffset (off i + d) n off sz = i" if ax: "axis n off sz" "0 \<le> i" "i < n" "0 \<le> d" "d < sz i" for n off sz i d
  proof -
    have "0 \<le> off i" using axis_mono [OF ax(1), of 0 i] ax by (simp add: axis_def)
    moreover have "off (i + 1) = off i + sz i" using ax by (simp add: axis_def)
    ultimately show ?thesis
      using index_mono [OF ax(1), of "off i + d" i] index_least [OF ax(1), of "off i + d" i] ax by simp
  qed
  from this [OF row_axis] this [OF column_axis] assms show ?thesis
    by (simp add: getRowIndexAtOffset_def getColumnIndexAtOffset_def)
qed

lemma pointer_finds_cell_witness:
  "getColumnIndexAtOffset \<lparr> gs_rowCount = 9, gs_colCount = 5, gs_rowHeights = [], gs_colWidths = [(1, 40)] \<rparr>
     (getColumnOffset \<lparr> gs_rowCount = 9, gs_colCount = 5, gs_rowHeights = [], gs_colWidths = [(1, 40)] \<rparr> 1 + 39) = 1"
  using pointer_finds_cell [of "\<lparr> gs_rowCount = 9, gs_colCount = 5, gs_rowHeights = [], gs_colWidths = [(1, 40)] \<rparr>" 0 1 39 0]
  by (simp add: grid_ok_def sizes_ok_def MAX_ROWS_def MAX_COLUMNS_def getColumnWidth_def getRowHeight_def jmap_get_def
      ROW_HEIGHT_def)

section \<open>What is visible is loaded\<close>

text \<open>A cell shows if a part of it stands below the header and beside the row numbers.\<close>

definition row_shows :: "grid_size \<Rightarrow> container \<Rightarrow> int \<Rightarrow> bool" where
  "row_shows g c r \<longleftrightarrow> scrollTop c < getRowOffset g (r + 1) \<and> getRowOffset g r < scrollTop c + clientHeight c - HEADER_HEIGHT"

definition column_shows :: "grid_size \<Rightarrow> container \<Rightarrow> int \<Rightarrow> bool" where
  "column_shows g c k \<longleftrightarrow> scrollLeft c < getColumnOffset g (k + 1) \<and>
     getColumnOffset g k < scrollLeft c + clientWidth c - ROW_NUMBER_WIDTH"

text \<open>The total height counts the size of every row that has one, also of rows behind the last one.\<close>

lemma total_height:
  assumes "grid_ok g" and "\<forall>(i, s) \<in> set (gs_rowHeights g). i < gs_rowCount g"
  shows "totalRowHeight g = getRowOffset g (gs_rowCount g)"
proof -
  have "fst e < gs_rowCount g" if "e \<in> set (size_entries (gs_rowHeights g) ROW_HEIGHT)" for e
    using assms(2) that by (auto simp: size_entries_def)
  then have "filter (\<lambda>e. fst e < gs_rowCount g) (size_entries (gs_rowHeights g) ROW_HEIGHT) = size_entries (gs_rowHeights g) ROW_HEIGHT"
    by simp
  then have "getDeltaBefore (gs_rowCount g) (buildSizeIndex (gs_rowHeights g) ROW_HEIGHT) =
      si_totalDelta (buildSizeIndex (gs_rowHeights g) ROW_HEIGHT)"
    using assms(1) delta_before [of "gs_rowHeights g" "gs_rowCount g" ROW_HEIGHT]
    by (simp add: grid_ok_def sizes_ok_def) (simp add: buildSizeIndex)
  then show ?thesis using assms(1) by (simp add: totalRowHeight_def getRowOffset_def Let_def grid_ok_def)
qed

lemma clamped_start: "low \<le> r \<Longrightarrow> 0 \<le> r \<Longrightarrow> 0 \<le> k \<Longrightarrow> max 0 (min m (low - k)) \<le> r \<and> max 0 (low - k) \<le> r" for r :: int
  by auto

lemma clamped_end: "r \<le> high \<Longrightarrow> r \<le> m \<Longrightarrow> 0 \<le> k \<Longrightarrow>
    r \<le> min m (max s (max s (min m (max s (high + k))))) \<and> r \<le> min m (max s (max s (min m (high + k))))" for r :: int
  by auto

lemma rows_rendered:
  assumes ok: "grid_ok g" "\<forall>(i, s) \<in> set (gs_rowHeights g). i < gs_rowCount g"
    and c: "0 < clientHeight c" "0 < clientWidth c" "0 \<le> scrollTop c"
    and r: "0 \<le> r" "r < gs_rowCount g" "row_shows g c r"
  shows "startRow (computeVisibleRange g (Some c)) \<le> r \<and> r \<le> endRow (computeVisibleRange g (Some c))"
proof -
  note ax = row_axis [OF ok(1)]
  have n: "0 < gs_rowCount g" using r by simp
  define T where "T = totalRowHeight g"
  have T: "T = getRowOffset g (gs_rowCount g)" unfolding T_def by (rule total_height [OF ok])
  define a where "a = max 0 (min (scrollTop c) (max 0 (T - clientHeight c + HEADER_HEIGHT)) - HEADER_HEIGHT)"
  have "0 \<le> a" "a \<le> scrollTop c" using c(3) by (auto simp: a_def HEADER_HEIGHT_def)
  have "0 \<le> T" using axis_mono [OF ax, of 0 "gs_rowCount g"] n ax by (simp add: T axis_def)
  have "getRowOffset g r < T"
  proof -
    have "getRowOffset g r < getRowOffset g (r + 1)" using ax r by (simp add: axis_def)
    also have "\<dots> \<le> T" using axis_mono [OF ax, of "r + 1" "gs_rowCount g"] r by (simp add: T)
    finally show ?thesis .
  qed
  have low: "getRowIndexAtOffset g a \<le> r"
    unfolding getRowIndexAtOffset_def
    using index_least [OF ax n \<open>0 \<le> a\<close> _ r(1,2)] r(3) \<open>a \<le> scrollTop c\<close> by (simp add: row_shows_def)
  have "getRowOffset g r \<le> min (a + clientHeight c) T"
    using r(3) \<open>getRowOffset g r < T\<close> by (auto simp: row_shows_def a_def HEADER_HEIGHT_def min_def max_def)
  then have high: "r \<le> getRowIndexAtOffset g (min (a + clientHeight c) T)"
    unfolding getRowIndexAtOffset_def
    using index_mono [OF ax n _ _ r(1,2)] c(1) \<open>0 \<le> a\<close> \<open>0 \<le> T\<close> by simp
  have m: "r \<le> max 1 (gs_rowCount g) - 1" using r by simp
  have o: "0 \<le> OVERSCAN_ROWS" by (simp add: OVERSCAN_ROWS_def)
  from c show ?thesis
    by (simp only: computeVisibleRange_def Let_def T_def [symmetric] a_def [symmetric] option.case cell_range.simps
        not_le [symmetric] if_False de_Morgan_disj simp_thms)
      (use clamped_start [OF low r(1) o] clamped_end [OF high m o] in simp)
qed

lemma columns_rendered:
  assumes ok: "grid_ok g" and c: "0 < clientHeight c" "0 < clientWidth c" "0 \<le> scrollLeft c"
    and k: "0 \<le> k" "k < gs_colCount g" "column_shows g c k"
  shows "startColumn (computeVisibleRange g (Some c)) \<le> k \<and> k \<le> endColumn (computeVisibleRange g (Some c))"
proof -
  note ax = column_axis [OF ok(1)]
  have n: "0 < gs_colCount g" using k by simp
  have low: "getColumnIndexAtOffset g (scrollLeft c) \<le> k"
    unfolding getColumnIndexAtOffset_def using index_least [OF ax n c(3) _ k(1,2)] k(3) by (simp add: column_shows_def)
  have high: "k \<le> getColumnIndexAtOffset g (scrollLeft c + max 0 (clientWidth c - ROW_NUMBER_WIDTH))"
    unfolding getColumnIndexAtOffset_def
    by (rule index_mono [OF ax n _ _ k(1,2)]) (use k(3) c in \<open>auto simp: column_shows_def\<close>)
  have m: "k \<le> max 1 (gs_colCount g) - 1" using k by simp
  have o: "0 \<le> OVERSCAN_COLUMNS" by (simp add: OVERSCAN_COLUMNS_def)
  from c show ?thesis
    by (simp only: computeVisibleRange_def Let_def option.case cell_range.simps
        not_le [symmetric] if_False de_Morgan_disj simp_thms)
      (use clamped_start [OF low k(1) o] clamped_end [OF high m o] in simp)
qed

lemma in_tile:
  assumes "r \<le> maxRow" and "k \<le> maxCol"
  shows "in_range (tile_at maxRow maxCol i j) r k \<longleftrightarrow> i = r div TILE_ROWS \<and> j = k div TILE_COLUMNS"
  using assms by (auto simp: in_range_def tile_at_def TILE_ROWS_def TILE_COLUMNS_def)

lemma one_tile:
  assumes area: "in_range area r k" and "0 \<le> r" and "r < rowLimit" and "r < MAX_ROWS" and "0 \<le> k" and "k < colLimit" and "k < MAX_COLUMNS"
  shows "\<exists>!t. t \<in> set (enumerateTilesInRange area rowLimit colLimit) \<and> in_range t r k"
proof -
  define maxRow where "maxRow = max 0 (min (rowLimit - 1) (MAX_ROWS - 1))"
  define maxCol where "maxCol = max 0 (min (colLimit - 1) (MAX_COLUMNS - 1))"
  define sr where "sr = max 0 (min (startRow area) maxRow)"
  define er where "er = max sr (min (endRow area) maxRow)"
  define sc where "sc = max 0 (min (startColumn area) maxCol)"
  define ec where "ec = max sc (min (endColumn area) maxCol)"
  have r: "sr \<le> r" "r \<le> er" "r \<le> maxRow" and k: "sc \<le> k" "k \<le> ec" "k \<le> maxCol"
    using assms by (auto simp: in_range_def sr_def er_def sc_def ec_def maxRow_def maxCol_def)
  have tiles: "set (enumerateTilesInRange area rowLimit colLimit) =
      {tile_at maxRow maxCol i j | i j. sr div TILE_ROWS \<le> i \<and> i \<le> er div TILE_ROWS \<and> sc div TILE_COLUMNS \<le> j \<and> j \<le> ec div TILE_COLUMNS}"
    using r k unfolding enumerateTilesInRange_def Let_def maxRow_def [symmetric] maxCol_def [symmetric] sr_def [symmetric]
      sc_def [symmetric] er_def [symmetric] ec_def [symmetric] by (auto, blast)
  have "sr div TILE_ROWS \<le> r div TILE_ROWS" "r div TILE_ROWS \<le> er div TILE_ROWS"
    "sc div TILE_COLUMNS \<le> k div TILE_COLUMNS" "k div TILE_COLUMNS \<le> ec div TILE_COLUMNS"
    using r k by (simp_all add: TILE_ROWS_def TILE_COLUMNS_def zdiv_mono1)
  then have "tile_at maxRow maxCol (r div TILE_ROWS) (k div TILE_COLUMNS) \<in> set (enumerateTilesInRange area rowLimit colLimit)"
    unfolding tiles by blast
  moreover have "t = tile_at maxRow maxCol (r div TILE_ROWS) (k div TILE_COLUMNS)"
    if "t \<in> set (enumerateTilesInRange area rowLimit colLimit)" "in_range t r k" for t
    using that in_tile [OF r(3) k(3)] unfolding tiles by (auto simp: in_tile [OF r(3) k(3)])
  ultimately show ?thesis using in_tile [OF r(3) k(3)] by blast
qed

text \<open>C10: What shows on the screen is rendered and loaded: every cell that has a part inside the viewport belongs to
  the rendered range, and to exactly one of the tiles that are requested for it.\<close>

theorem visible_cells_are_loaded:
  assumes "grid_ok g" and "\<forall>(i, s) \<in> set (gs_rowHeights g). i < gs_rowCount g"
    and "0 < clientHeight c" and "0 < clientWidth c" and "0 \<le> scrollTop c" and "0 \<le> scrollLeft c"
    and "0 \<le> r" and "r < gs_rowCount g" and "row_shows g c r"
    and "0 \<le> k" and "k < gs_colCount g" and "column_shows g c k"
  shows "in_range (computeVisibleRange g (Some c)) r k \<and>
    (\<exists>!t. t \<in> set (enumerateTilesInRange (computeVisibleRange g (Some c)) (gs_rowCount g) (gs_colCount g)) \<and> in_range t r k)"
proof -
  have "in_range (computeVisibleRange g (Some c)) r k"
    using rows_rendered columns_rendered assms by (simp add: in_range_def)
  with one_tile assms show ?thesis by (simp add: grid_ok_def)
qed

definition sample_grid :: grid_size where
  "sample_grid = \<lparr> gs_rowCount = 200, gs_colCount = 30, gs_rowHeights = [(1, 48)], gs_colWidths = [] \<rparr>"

definition sample_container :: container where
  "sample_container = \<lparr> clientHeight = 240, clientWidth = 600, scrollTop = 30, scrollLeft = 100 \<rparr>"

theorem visible_cells_are_loaded_witness:
  "in_range (computeVisibleRange sample_grid (Some sample_container)) 1 2 \<and>
   (\<exists>!t. t \<in> set (enumerateTilesInRange (computeVisibleRange sample_grid (Some sample_container)) 200 30) \<and> in_range t 1 2)"
proof -
  have ok: "grid_ok sample_grid"
    by (simp add: grid_ok_def sample_grid_def sizes_ok_def MAX_ROWS_def MAX_COLUMNS_def)
  have "row_shows sample_grid sample_container 1"
    using offset_is_sum [of "[(1, 48)]" 1 24] offset_is_sum [of "[(1, 48)]" 2 24]
    by (simp add: row_shows_def sample_grid_def sample_container_def getRowOffset_def ROW_HEIGHT_def HEADER_HEIGHT_def sizes_ok_def
        size_at_def jmap_get_def sum_step [of 1, simplified] sum_step [of 0, simplified])
  moreover have "column_shows sample_grid sample_container 2"
    using offset_is_sum [of "[]" 2 120] offset_is_sum [of "[]" 3 120]
    by (simp add: column_shows_def sample_grid_def sample_container_def getColumnOffset_def COLUMN_WIDTH_def ROW_NUMBER_WIDTH_def
        sizes_ok_def size_at_def jmap_get_def)
  ultimately show ?thesis
    using visible_cells_are_loaded [OF ok, of sample_container 1 2] by (simp add: sample_grid_def sample_container_def)
qed

end
