(* ===== verification/Grid_Formula.thy ===== *)
theory Grid_Formula imports Sheet_A1 Js_Number Js_Object begin

text \<open>
  The formulas the spreadsheet grid evaluates itself, while the server has not answered
  (\<open>evaluateFormulaLocally\<close> of \<open>src/frontend/src/components/spreadsheets/SpreadsheetGrid.tsx\<close>): the cells, the
  tokens of a formula and the parser that computes its value.  The key \<open>row:col\<close> of a cell is the pair of the two
  numbers.  A JavaScript number is \<open>Some\<close> exact rational, or \<open>None\<close> when it is not finite.
\<close>

section \<open>Cells\<close>

datatype cell_number = Number_Value rat | Number_Text string

record cell_data =
  rawInput :: string
  computedType :: "string option"
  computedNumber :: "cell_number option"
  computedString :: "string option"
  errorCode :: "string option"
  updatedAt :: "int option"
  isLoaded :: bool

type_synonym cell_map = "(int \<times> int, cell_data) jmap"

definition getCellKey :: "int \<Rightarrow> int \<Rightarrow> int \<times> int" where
  "getCellKey row col = (row, col)"

type_synonym js_float = "rat option"

text \<open>\<open>Number(s)\<close>: an optional sign, digits with an optional point, and an optional exponent, up to the end.\<close>

definition exponent_ok :: "string \<Rightarrow> bool" where
  "exponent_ok s \<longleftrightarrow>
     (case s of [] \<Rightarrow> True
      | c # r \<Rightarrow> (c = CHR ''e'' \<or> c = CHR ''E'') \<and> (case signed r of (neg, t) \<Rightarrow> all_digits t))"

definition after_number :: "string \<Rightarrow> string" where
  "after_number t =
     (let r1 = dropWhile is_digit t
      in case r1 of [] \<Rightarrow> [] | c # r \<Rightarrow> if c = CHR ''.'' then dropWhile is_digit r else r1)"

definition to_number :: "string \<Rightarrow> js_float" where
  "to_number s =
     (let t = js_trim s
      in case js_number s of
           Num n \<Rightarrow> Some (of_int n)
         | NaN \<Rightarrow> if exponent_ok (after_number (snd (signed t))) then js_parse_float t else None)"

definition cell_number :: "cell_number \<Rightarrow> js_float" where
  "cell_number n = (case n of Number_Value v \<Rightarrow> Some v | Number_Text t \<Rightarrow> to_number t)"

definition starts_with :: "char \<Rightarrow> string \<Rightarrow> bool" where
  "starts_with c s \<longleftrightarrow> (case s of [] \<Rightarrow> False | d # _ \<Rightarrow> d = c)"

definition getCellNumericValue :: "cell_map \<Rightarrow> int \<Rightarrow> int \<Rightarrow> js_float" where
  "getCellNumericValue cells row col =
     (case jmap_get cells (getCellKey row col) of
        None \<Rightarrow> Some 0
      | Some cellData \<Rightarrow>
          if js_trim (rawInput cellData) = [] then Some 0
          else if computedType cellData = Some ''number'' \<and> computedNumber cellData \<noteq> None
          then cell_number (the (computedNumber cellData))
          else if \<not> starts_with (CHR ''='') (rawInput cellData)
          then (case to_number (rawInput cellData) of Some v \<Rightarrow> Some v | None \<Rightarrow> Some 0)
          else Some 0)"

section \<open>Tokens\<close>

datatype token = Num_Tok string | Op_Tok char | Ref_Tok string | LParen | RParen

definition blank :: "char \<Rightarrow> bool" where
  "blank c \<longleftrightarrow> c = CHR '' '' \<or> code_of c = 9"

definition operator :: "char \<Rightarrow> bool" where
  "operator c \<longleftrightarrow> c \<in> {CHR ''+'', CHR ''-'', CHR ''*'', CHR ''/''}"

definition number_char :: "char \<Rightarrow> bool" where
  "number_char c \<longleftrightarrow> is_digit c \<or> c = CHR ''.''"

function tokens :: "string \<Rightarrow> token list option" where
  "tokens [] = Some []"
| "tokens (c # s) =
     (if blank c then tokens s
      else if operator c then map_option ((#) (Op_Tok c)) (tokens s)
      else if c = CHR ''('' then map_option ((#) LParen) (tokens s)
      else if c = CHR '')'' then map_option ((#) RParen) (tokens s)
      else if number_char c
      then map_option ((#) (Num_Tok (c # takeWhile number_char s))) (tokens (dropWhile number_char s))
      else if is_letter c
      then (let colLabel = concat (map upcase (c # takeWhile is_letter s));
                rest = dropWhile is_letter s;
                rowLabel = takeWhile is_digit rest
            in if rowLabel \<noteq> []
               then map_option ((#) (Ref_Tok (colLabel @ rowLabel))) (tokens (dropWhile is_digit rest))
               else None)
      else None)"
  by pat_completeness auto
termination
  by (relation "measure length") (auto intro: le_less_trans [OF length_dropWhile_le] order_trans [OF length_dropWhile_le] simp: less_Suc_eq_le)

section \<open>The parser\<close>

definition lift2 :: "(rat \<Rightarrow> rat \<Rightarrow> rat) \<Rightarrow> js_float \<Rightarrow> js_float \<Rightarrow> js_float" where
  "lift2 f x y = (case x of None \<Rightarrow> None | Some a \<Rightarrow> (case y of None \<Rightarrow> None | Some b \<Rightarrow> Some (f a b)))"

definition ref_value :: "cell_map \<Rightarrow> string \<Rightarrow> js_float option" where
  "ref_value cells t =
     (case match_cell t of
        Some (label, digits, []) \<Rightarrow>
          (case colLabelToIndex label of
             Inl _ \<Rightarrow> None
           | Inr colIndex \<Rightarrow>
               (let rowIndex = int (dec_val digits) - 1
                in if rowIndex < 0 \<or> colIndex < 0 then None else Some (getCellNumericValue cells rowIndex colIndex)))
      | _ \<Rightarrow> None)"

function parseExpression :: "cell_map \<Rightarrow> token list \<Rightarrow> (js_float \<times> token list) option"
and expression_loop :: "cell_map \<Rightarrow> js_float \<Rightarrow> token list \<Rightarrow> (js_float \<times> token list) option"
and parseTerm :: "cell_map \<Rightarrow> token list \<Rightarrow> (js_float \<times> token list) option"
and term_loop :: "cell_map \<Rightarrow> js_float \<Rightarrow> token list \<Rightarrow> (js_float \<times> token list) option"
and parseFactor :: "cell_map \<Rightarrow> token list \<Rightarrow> (js_float \<times> token list) option"
where
  "parseExpression cells ts =
     (case parseTerm cells ts of None \<Rightarrow> None | Some (v, rest) \<Rightarrow> expression_loop cells v rest)"
| "expression_loop cells v ts =
     (case ts of
        Op_Tok c # rest \<Rightarrow>
          if c = CHR ''+'' \<or> c = CHR ''-''
          then (case parseTerm cells rest of
                  None \<Rightarrow> None
                | Some (right, rest') \<Rightarrow>
                    expression_loop cells (if c = CHR ''+'' then lift2 (+) v right else lift2 (-) v right) rest')
          else Some (v, ts)
      | _ \<Rightarrow> Some (v, ts))"
| "parseTerm cells ts =
     (case parseFactor cells ts of None \<Rightarrow> None | Some (v, rest) \<Rightarrow> term_loop cells v rest)"
| "term_loop cells v ts =
     (case ts of
        Op_Tok c # rest \<Rightarrow>
          if c = CHR ''*'' \<or> c = CHR ''/''
          then (case parseFactor cells rest of
                  None \<Rightarrow> None
                | Some (right, rest') \<Rightarrow>
                    if c = CHR ''*'' then term_loop cells (lift2 (*) v right) rest'
                    else if right = Some 0 then None else term_loop cells (lift2 (/) v right) rest')
          else Some (v, ts)
      | _ \<Rightarrow> Some (v, ts))"
| "parseFactor cells ts =
     (case ts of
        [] \<Rightarrow> None
      | Op_Tok c # rest \<Rightarrow>
          if c = CHR ''+'' \<or> c = CHR ''-''
          then (case parseFactor cells rest of
                  None \<Rightarrow> None
                | Some (v, rest') \<Rightarrow> Some (if c = CHR ''+'' then v else map_option uminus v, rest'))
          else None
      | Num_Tok t # rest \<Rightarrow> (case to_number t of None \<Rightarrow> None | Some v \<Rightarrow> Some (Some v, rest))
      | Ref_Tok t # rest \<Rightarrow> (case ref_value cells t of None \<Rightarrow> None | Some v \<Rightarrow> Some (v, rest))
      | LParen # rest \<Rightarrow>
          (case parseExpression cells rest of
             Some (inner, RParen # rest') \<Rightarrow> Some (inner, rest')
           | _ \<Rightarrow> None)
      | RParen # _ \<Rightarrow> None)"
  by pat_completeness auto

text \<open>Every function of the parser leaves fewer tokens than it was given, the loops no more.\<close>

lemma parser_shortens:
  "parseExpression_expression_loop_parseTerm_term_loop_parseFactor_dom (Inl (Inl (cells, ts))) \<Longrightarrow>
     parseExpression cells ts = Some (w, r) \<Longrightarrow> length r < length ts"
  "parseExpression_expression_loop_parseTerm_term_loop_parseFactor_dom (Inl (Inr (cells, v, ts))) \<Longrightarrow>
     expression_loop cells v ts = Some (w, r) \<Longrightarrow> length r \<le> length ts"
  "parseExpression_expression_loop_parseTerm_term_loop_parseFactor_dom (Inr (Inl (cells, ts))) \<Longrightarrow>
     parseTerm cells ts = Some (w, r) \<Longrightarrow> length r < length ts"
  "parseExpression_expression_loop_parseTerm_term_loop_parseFactor_dom (Inr (Inr (Inl (cells, v, ts)))) \<Longrightarrow>
     term_loop cells v ts = Some (w, r) \<Longrightarrow> length r \<le> length ts"
  "parseExpression_expression_loop_parseTerm_term_loop_parseFactor_dom (Inr (Inr (Inr (cells, ts)))) \<Longrightarrow>
     parseFactor cells ts = Some (w, r) \<Longrightarrow> length r < length ts"
proof (induction cells ts and cells v ts and cells ts and cells v ts and cells ts arbitrary: w r and w r and w r and w r and w r
    rule: parseExpression_expression_loop_parseTerm_term_loop_parseFactor.pinduct)
  case (1 cells ts)
  then show ?case by (force simp: parseExpression.psimps split: option.splits)
next
  case (2 cells v ts)
  then show ?case by (force simp: expression_loop.psimps split: option.splits list.splits token.splits if_splits)
next
  case (3 cells ts)
  then show ?case by (force simp: parseTerm.psimps split: option.splits)
next
  case (4 cells v ts)
  then show ?case by (force simp: term_loop.psimps split: option.splits list.splits token.splits if_splits)
next
  case (5 cells ts)
  then show ?case by (force simp: parseFactor.psimps split: option.splits list.splits token.splits if_splits)
qed

termination parseExpression
  by (relation "measure (\<lambda>x. case x of
        Inl (Inl (cells, ts)) \<Rightarrow> 3 * length ts + 2
      | Inl (Inr (cells, v, ts)) \<Rightarrow> 3 * length ts
      | Inr (Inl (cells, ts)) \<Rightarrow> 3 * length ts + 1
      | Inr (Inr (Inl (cells, v, ts))) \<Rightarrow> 3 * length ts
      | Inr (Inr (Inr (cells, ts))) \<Rightarrow> 3 * length ts)")
    (auto dest: parser_shortens)

declare parseExpression.simps [simp del] expression_loop.simps [simp del] parseTerm.simps [simp del]
  term_loop.simps [simp del] parseFactor.simps [simp del]

definition evaluateFormulaLocally :: "cell_map \<Rightarrow> string \<Rightarrow> rat option" where
  "evaluateFormulaLocally cells formula =
     (if \<not> starts_with (CHR ''='') formula then None
      else case tokens (tl formula) of
             None \<Rightarrow> None
           | Some ts \<Rightarrow>
               (case parseExpression cells ts of
                  None \<Rightarrow> None
                | Some (result, rest) \<Rightarrow> if rest \<noteq> [] then None else result))"

section \<open>Formulas as trees\<close>

datatype arith = Add | Sub | Mul | Div

datatype formula =
  Literal string
| At int int
| Signed bool formula
| Binary arith formula formula

text \<open>The value of a formula: \<open>None\<close> is the error of the code (\<open>null\<close>), as for a division by zero.\<close>

definition apply_op :: "arith \<Rightarrow> js_float \<Rightarrow> js_float \<Rightarrow> js_float option" where
  "apply_op f v w =
     (case f of
        Add \<Rightarrow> Some (lift2 (+) v w)
      | Sub \<Rightarrow> Some (lift2 (-) v w)
      | Mul \<Rightarrow> Some (lift2 (*) v w)
      | Div \<Rightarrow> if w = Some 0 then None else Some (lift2 (/) v w))"

fun formula_value :: "(int \<Rightarrow> int \<Rightarrow> js_float) \<Rightarrow> formula \<Rightarrow> js_float option" where
  "formula_value get (Literal t) = (case to_number t of None \<Rightarrow> None | Some v \<Rightarrow> Some (Some v))"
| "formula_value get (At row col) = Some (get row col)"
| "formula_value get (Signed neg e) = map_option (\<lambda>v. if neg then map_option uminus v else v) (formula_value get e)"
| "formula_value get (Binary f a b) =
     (case formula_value get a of
        None \<Rightarrow> None
      | Some v \<Rightarrow> (case formula_value get b of None \<Rightarrow> None | Some w \<Rightarrow> apply_op f v w))"

text \<open>A formula as the user writes it, with the brackets it needs: a sum is at level 0, a product at level 1 and an
  operand at level 2.  Rows and columns are counted from 0.\<close>

definition op_char :: "arith \<Rightarrow> char" where
  "op_char f = (case f of Add \<Rightarrow> CHR ''+'' | Sub \<Rightarrow> CHR ''-'' | Mul \<Rightarrow> CHR ''*'' | Div \<Rightarrow> CHR ''/'')"

definition op_level :: "arith \<Rightarrow> nat" where
  "op_level f = (case f of Add \<Rightarrow> 0 | Sub \<Rightarrow> 0 | Mul \<Rightarrow> 1 | Div \<Rightarrow> 1)"

definition cell_name :: "int \<Rightarrow> int \<Rightarrow> string" where
  "cell_name row col = column_label col @ int_dec (row + 1)"

fun formula_tokens :: "nat \<Rightarrow> formula \<Rightarrow> token list" where
  "formula_tokens p (Literal t) = [Num_Tok t]"
| "formula_tokens p (At row col) = [Ref_Tok (cell_name row col)]"
| "formula_tokens p (Signed neg e) = Op_Tok (if neg then CHR ''-'' else CHR ''+'') # formula_tokens 2 e"
| "formula_tokens p (Binary f a b) =
     (let ts = formula_tokens (op_level f) a @ Op_Tok (op_char f) # formula_tokens (op_level f + 1) b
      in if op_level f < p then LParen # ts @ [RParen] else ts)"

fun formula_ok :: "formula \<Rightarrow> bool" where
  "formula_ok (Literal t) \<longleftrightarrow> t \<noteq> [] \<and> list_all number_char t"
| "formula_ok (At row col) \<longleftrightarrow> 0 \<le> row \<and> 0 \<le> col"
| "formula_ok (Signed neg e) \<longleftrightarrow> formula_ok e"
| "formula_ok (Binary f a b) \<longleftrightarrow> formula_ok a \<and> formula_ok b"

section \<open>The parser computes the value of the tree\<close>

definition no_product :: "token list \<Rightarrow> bool" where
  "no_product ts \<longleftrightarrow> (case ts of Op_Tok c # _ \<Rightarrow> c \<noteq> CHR ''*'' \<and> c \<noteq> CHR ''/'' | _ \<Rightarrow> True)"

definition continue :: "('v \<Rightarrow> 'a option) \<Rightarrow> 'v option \<Rightarrow> 'a option" where
  "continue f x = (case x of None \<Rightarrow> None | Some v \<Rightarrow> f v)"

lemma continue_simps [simp]: "continue f None = None" "continue f (Some v) = f v"
  by (simp_all add: continue_def)

lemma term_loop_stops: "no_product rest \<Longrightarrow> term_loop cells v rest = Some (v, rest)"
  by (subst term_loop.simps) (auto simp: no_product_def split: list.splits token.splits)

lemma term_of_factor:
  "parseFactor cells ts = map_option (\<lambda>v. (v, rest)) x \<Longrightarrow> parseTerm cells ts = continue (\<lambda>v. term_loop cells v rest) x"
  by (cases x) (simp_all add: parseTerm.simps)

lemma expression_of_term:
  "parseTerm cells ts = continue (\<lambda>v. term_loop cells v rest) x \<Longrightarrow> no_product rest \<Longrightarrow>
   parseExpression cells ts = continue (\<lambda>v. expression_loop cells v rest) x"
  by (cases x) (simp_all add: parseExpression.simps term_loop_stops)

lemma factor_of_expression:
  assumes "parseExpression cells (ts @ RParen # rest) = continue (\<lambda>v. expression_loop cells v (RParen # rest)) x"
  shows "parseFactor cells (LParen # ts @ RParen # rest) = map_option (\<lambda>v. (v, rest)) x"
  using assms by (cases x) (simp_all add: parseFactor.simps expression_loop.simps)

definition parses :: "cell_map \<Rightarrow> (nat \<Rightarrow> token list) \<Rightarrow> js_float option \<Rightarrow> bool" where
  "parses cells ts x \<longleftrightarrow> (\<forall>rest.
     (no_product rest \<longrightarrow> parseExpression cells (ts 0 @ rest) = continue (\<lambda>v. expression_loop cells v rest) x) \<and>
     parseTerm cells (ts 1 @ rest) = continue (\<lambda>v. term_loop cells v rest) x \<and>
     parseFactor cells (ts 2 @ rest) = map_option (\<lambda>v. (v, rest)) x)"

lemma parses_factor:
  assumes "\<And>rest. parseFactor cells (ts @ rest) = map_option (\<lambda>v. (v, rest)) x"
  shows "parses cells (\<lambda>_. ts) x"
  using assms by (simp add: parses_def term_of_factor expression_of_term)

lemma sum_parses:
  assumes a: "parses cells A x" and b: "parses cells B y" and f: "op_level f = 0"
  shows "no_product rest \<Longrightarrow> parseExpression cells (A 0 @ Op_Tok (op_char f) # B 1 @ rest) =
    continue (\<lambda>v. expression_loop cells v rest) (continue (\<lambda>v. continue (apply_op f v) y) x)"
proof -
  assume rest: "no_product rest"
  have "no_product (Op_Tok (op_char f) # B 1 @ rest)" using f by (cases f) (simp_all add: no_product_def op_level_def op_char_def)
  with a have "parseExpression cells (A 0 @ Op_Tok (op_char f) # B 1 @ rest) =
      continue (\<lambda>v. expression_loop cells v (Op_Tok (op_char f) # B 1 @ rest)) x" by (simp add: parses_def)
  moreover have "expression_loop cells v (Op_Tok (op_char f) # B 1 @ rest) = continue (\<lambda>v. expression_loop cells v rest) (continue (apply_op f v) y)" for v
    using b rest f
    by (subst expression_loop.simps; cases y; cases f) (simp_all add: parses_def op_char_def op_level_def apply_op_def term_loop_stops)
  ultimately show ?thesis by (cases x) simp_all
qed

lemma product_parses:
  assumes a: "parses cells A x" and b: "parses cells B y" and f: "op_level f = 1"
  shows "parseTerm cells (A 1 @ Op_Tok (op_char f) # B 2 @ rest) =
    continue (\<lambda>v. term_loop cells v rest) (continue (\<lambda>v. continue (apply_op f v) y) x)"
proof -
  from a have "parseTerm cells (A 1 @ Op_Tok (op_char f) # B 2 @ rest) =
      continue (\<lambda>v. term_loop cells v (Op_Tok (op_char f) # B 2 @ rest)) x" by (simp add: parses_def)
  moreover have "term_loop cells v (Op_Tok (op_char f) # B 2 @ rest) = continue (\<lambda>v. term_loop cells v rest) (continue (apply_op f v) y)" for v
    using b f
    by (subst term_loop.simps; cases y; cases f) (simp_all add: parses_def op_char_def op_level_def apply_op_def)
  ultimately show ?thesis by (cases x) simp_all
qed

lemma cell_name_value:
  assumes "0 \<le> row" and "0 \<le> col"
  shows "ref_value cells (cell_name row col) = Some (getCellNumericValue cells row col)"
proof -
  have "match_cell (column_label col @ int_dec (row + 1) @ []) = Some (column_label col, int_dec (row + 1), [])"
    using assms by (intro match_cell_split) (simp_all add: column_label_facts int_dec_pos)
  with assms show ?thesis by (simp add: ref_value_def cell_name_def column_label_facts int_dec_pos)
qed

lemma formula_parses:
  "formula_ok e \<Longrightarrow> parses cells (\<lambda>p. formula_tokens p e) (formula_value (getCellNumericValue cells) e)"
proof (induction e)
  case (Literal t)
  have "parses cells (\<lambda>_. [Num_Tok t]) (formula_value (getCellNumericValue cells) (Literal t))"
    by (rule parses_factor) (simp add: parseFactor.simps split: option.splits)
  then show ?case by simp
next
  case (At row col)
  have "parses cells (\<lambda>_. [Ref_Tok (cell_name row col)]) (formula_value (getCellNumericValue cells) (At row col))"
    using At by (intro parses_factor) (simp add: parseFactor.simps cell_name_value)
  then show ?case by simp
next
  case (Signed neg e)
  have "parses cells (\<lambda>_. formula_tokens 0 (Signed neg e)) (formula_value (getCellNumericValue cells) (Signed neg e))"
    using Signed by (intro parses_factor; cases "formula_value (getCellNumericValue cells) e")
      (auto simp: parses_def parseFactor.simps [of _ "Op_Tok _ # _"])
  then show ?case by simp
next
  case (Binary f a b)
  define A where "A p = formula_tokens p a" for p
  define B where "B p = formula_tokens p b" for p
  define x where "x = continue (\<lambda>v. continue (apply_op f v) (formula_value (getCellNumericValue cells) b)) (formula_value (getCellNumericValue cells) a)"
  have val: "formula_value (getCellNumericValue cells) (Binary f a b) = x" by (simp add: x_def continue_def)
  have ab: "parses cells A (formula_value (getCellNumericValue cells) a)" "parses cells B (formula_value (getCellNumericValue cells) b)"
    using Binary by (simp_all add: A_def [abs_def] B_def [abs_def])
  show ?case
  proof (cases "op_level f = 0")
    case True
    define ts where "ts = A 0 @ Op_Tok (op_char f) # B 1"
    have e: "no_product rest \<Longrightarrow> parseExpression cells (ts @ rest) = continue (\<lambda>v. expression_loop cells v rest) x" for rest
      using sum_parses [OF ab True] by (simp add: ts_def x_def)
    then have "parses cells (\<lambda>_. LParen # ts @ [RParen]) x"
      by (intro parses_factor) (simp add: factor_of_expression no_product_def)
    moreover have "formula_tokens p (Binary f a b) = (if p = 0 then ts else LParen # ts @ [RParen])" for p
      using True by (simp add: ts_def A_def B_def)
    ultimately show ?thesis unfolding val using e by (simp add: parses_def)
  next
    case False
    then have f: "op_level f = 1" by (cases f) (simp_all add: op_level_def)
    define ts where "ts = A 1 @ Op_Tok (op_char f) # B 2"
    have t: "parseTerm cells (ts @ rest) = continue (\<lambda>v. term_loop cells v rest) x" for rest
      using product_parses [OF ab f] by (simp add: ts_def x_def)
    then have e: "no_product rest \<Longrightarrow> parseExpression cells (ts @ rest) = continue (\<lambda>v. expression_loop cells v rest) x" for rest
      by (simp add: expression_of_term)
    then have "parses cells (\<lambda>_. LParen # ts @ [RParen]) x"
      by (intro parses_factor) (simp add: factor_of_expression no_product_def)
    moreover have "formula_tokens p (Binary f a b) = (if p \<le> 1 then ts else LParen # ts @ [RParen])" for p
      using f by (auto simp: ts_def A_def B_def numeral_2_eq_2)
    ultimately show ?thesis unfolding val using e t by (simp add: parses_def)
  qed
qed

section \<open>The text of a formula\<close>

fun token_text :: "token \<Rightarrow> string" where
  "token_text (Num_Tok t) = t"
| "token_text (Op_Tok c) = [c]"
| "token_text (Ref_Tok t) = t"
| "token_text LParen = [CHR ''('']"
| "token_text RParen = [CHR '')'']"

definition formula_text :: "formula \<Rightarrow> string" where
  "formula_text e = CHR ''='' # concat (map token_text (formula_tokens 0 e))"

fun operand :: "token \<Rightarrow> bool" where
  "operand (Num_Tok t) \<longleftrightarrow> True"
| "operand (Ref_Tok t) \<longleftrightarrow> True"
| "operand _ \<longleftrightarrow> False"

fun token_ok :: "token \<Rightarrow> bool" where
  "token_ok (Num_Tok t) \<longleftrightarrow> t \<noteq> [] \<and> list_all number_char t"
| "token_ok (Op_Tok c) \<longleftrightarrow> operator c"
| "token_ok (Ref_Tok t) \<longleftrightarrow> (\<exists>l d. t = l @ d \<and> l \<noteq> [] \<and> list_all is_upper l \<and> all_digits d)"
| "token_ok _ \<longleftrightarrow> True"

fun separated :: "token list \<Rightarrow> bool" where
  "separated (t # u # ts) \<longleftrightarrow> \<not> (operand t \<and> operand u) \<and> separated (u # ts)"
| "separated _ \<longleftrightarrow> True"

lemma separated_at: "\<not> operand t \<Longrightarrow> separated (xs @ t # ys) \<longleftrightarrow> separated xs \<and> separated ys"
by (induction xs rule: separated.induct) (cases ys; auto)+

lemma formula_tokens_ok: "formula_ok e \<Longrightarrow> list_all token_ok (formula_tokens p e) \<and> separated (formula_tokens p e)"
proof (induction p e rule: formula_tokens.induct)
  case (2 p row col)
  then have "column_label col \<noteq> [] \<and> list_all is_upper (column_label col) \<and> all_digits (int_dec (row + 1))"
    by (simp add: column_label_facts int_dec_pos)
  then show ?case by (auto simp: cell_name_def)
next
  case (3 p neg e)
  then show ?case using separated_at [of "Op_Tok _" "[]"] by (auto simp: operator_def)
next
  case (4 p f a b)
  have "operator (op_char f)" by (cases f) (simp_all add: op_char_def operator_def)
  with 4 show ?case using separated_at [of LParen "[]"] separated_at [of RParen _ "[]"] by (simp add: Let_def separated_at)
qed simp_all

text \<open>A character that ends an operand.\<close>

definition separator_char :: "char \<Rightarrow> bool" where
  "separator_char c \<longleftrightarrow> operator c \<or> c = CHR ''('' \<or> c = CHR '')''"

lemma separator_facts:
  "separator_char c \<Longrightarrow> \<not> number_char c \<and> \<not> is_letter c \<and> \<not> is_digit c \<and> \<not> is_upper c \<and> \<not> blank c \<and> ref_prefix c"
  by (auto simp: separator_char_def operator_def number_char_def is_letter_def is_digit_def is_upper_def blank_def ref_prefix_def code_of_def)

lemma number_char_facts: "number_char c \<Longrightarrow> \<not> blank c \<and> \<not> operator c \<and> c \<noteq> CHR ''('' \<and> c \<noteq> CHR '')'' \<and> \<not> is_upper c"
  by (auto simp: operator_def number_char_def is_digit_def is_upper_def blank_def code_of_def)

lemma upper_char_facts: "is_upper c \<Longrightarrow> \<not> blank c \<and> \<not> operator c \<and> c \<noteq> CHR ''('' \<and> c \<noteq> CHR '')'' \<and> \<not> number_char c \<and> is_letter c"
  by (auto simp: operator_def number_char_def is_digit_def is_upper_def blank_def code_of_def is_letter_def)

lemma tokens_step:
  assumes "token_ok t" and "operand t \<Longrightarrow> s = [] \<or> separator_char (hd s)"
  shows "tokens (token_text t @ s) = map_option ((#) t) (tokens s)"
proof (cases t)
  case (Num_Tok u)
  with assms(1) obtain c v where u: "u = c # v" "number_char c" "list_all number_char v" by (cases u) auto
  have "takeWhile number_char (v @ s) = v" "dropWhile number_char (v @ s) = s"
    using takeWhile_split [of number_char v s] u assms(2) Num_Tok separator_facts [of "hd s"] by auto
  with u Num_Tok number_char_facts [of c] show ?thesis by simp
next
  case (Ref_Tok u)
  with assms(1) obtain l d where u: "u = l @ d" "l \<noteq> []" "list_all is_upper l" "all_digits d" by auto
  then obtain c v where l: "l = c # v" "is_upper c" "list_all is_upper v" by (cases l) auto
  have letters: "list_all is_letter v" using l(3) upper_facts by (auto simp: list_all_iff)
  obtain b ds where d: "d = b # ds" "is_digit b" using u(4) by (cases d) (auto simp: all_digits_def)
  have "takeWhile is_letter (v @ d @ s) = v" "dropWhile is_letter (v @ d @ s) = d @ s"
    using takeWhile_split [of is_letter v "d @ s"] letters d digit_not_letter by auto
  moreover have "takeWhile is_digit (d @ s) = d" "dropWhile is_digit (d @ s) = s"
    using takeWhile_split [of is_digit d s] u(4) assms(2) Ref_Tok separator_facts [of "hd s"] by (auto simp: all_digits_def)
  moreover have "upcase c = [c]" "concat (map upcase v) = v" using l upper_facts upcase_upper [of v] by auto
  ultimately show ?thesis
    using u(1) l Ref_Tok d(1) upper_char_facts [of c] by simp
next
  case (Op_Tok c)
  with assms(1) separator_facts [of c] show ?thesis by (simp add: separator_char_def)
next
  case LParen
  with separator_facts [of "CHR ''(''"] show ?thesis by (simp add: separator_char_def operator_def)
next
  case RParen
  with separator_facts [of "CHR '')''"] show ?thesis by (simp add: separator_char_def operator_def)
qed

lemma operator_text: "token_ok t \<Longrightarrow> \<not> operand t \<Longrightarrow> \<exists>c. token_text t = [c] \<and> separator_char c"
  by (cases t) (auto simp: separator_char_def)

lemma text_after_operand:
  "list_all token_ok (t # ts) \<Longrightarrow> separated (t # ts) \<Longrightarrow> operand t \<Longrightarrow>
   concat (map token_text ts) = [] \<or> separator_char (hd (concat (map token_text ts)))"
  using operator_text [of "hd ts"] by (cases ts) auto

lemma tokens_of_text: "list_all token_ok ts \<Longrightarrow> separated ts \<Longrightarrow> tokens (concat (map token_text ts)) = Some ts"
proof (induction ts)
  case (Cons t ts)
  then have "separated ts" by (cases ts) auto
  with Cons text_after_operand [of t ts] show ?case by (simp add: tokens_step)
qed simp

lemma value_of_text:
  assumes "formula_ok e"
  shows "evaluateFormulaLocally cells (formula_text e) = continue id (formula_value (getCellNumericValue cells) e)"
proof -
  have "parseExpression cells (formula_tokens 0 e @ []) =
      continue (\<lambda>v. expression_loop cells v []) (formula_value (getCellNumericValue cells) e)"
    using formula_parses [OF assms, of cells] unfolding parses_def by (simp only: no_product_def list.case simp_thms)
  then show ?thesis
    using formula_tokens_ok [OF assms, of 0]
    by (cases "formula_value (getCellNumericValue cells) e")
      (simp_all add: evaluateFormulaLocally_def formula_text_def starts_with_def tokens_of_text expression_loop.simps)
qed

text \<open>C11: A formula that the grid computes itself gets its arithmetical value: for every formula of numbers, cells, signs
  and the four operations, written with the brackets it needs, the parser follows the precedence of the operators and
  groups them from the left; the result is missing exactly if a literal is no number, a divisor is zero or a value
  is not finite.\<close>

theorem local_value_is_formula_value:
  assumes "formula_ok e"
  shows "evaluateFormulaLocally cells (formula_text e) =
    (case formula_value (getCellNumericValue cells) e of None \<Rightarrow> None | Some v \<Rightarrow> v)"
  using value_of_text [OF assms] by (simp add: continue_def split: option.splits)

definition sample_formula :: formula where
  "sample_formula = Binary Sub (Binary Sub (Literal ''10'') (Binary Mul (Literal ''2.5'') (Binary Add (At 0 1) (Literal ''1'')))) (Literal ''3'')"

definition sample_cells :: cell_map where
  "sample_cells = [((0, 1), \<lparr> rawInput = ''7'', computedType = None, computedNumber = None, computedString = None, errorCode = None,
     updatedAt = None, isLoaded = True \<rparr>)]"

theorem local_value_is_formula_value_witness:
  "formula_text sample_formula = ''=10-2.5*(B1+1)-3'' \<and> evaluateFormulaLocally sample_cells ''=10-2.5*(B1+1)-3'' = Some (- 13)"
proof -
  have "formula_ok sample_formula" by code_simp
  moreover have "formula_text sample_formula = ''=10-2.5*(B1+1)-3''" by code_simp
  moreover have "formula_value (getCellNumericValue sample_cells) sample_formula = Some (Some (- 13))" by code_simp
  ultimately show ?thesis using local_value_is_formula_value [of sample_formula sample_cells] by simp
qed

section \<open>Filling a formula\<close>

fun shift_formula :: "int \<Rightarrow> int \<Rightarrow> formula \<Rightarrow> formula" where
  "shift_formula dr dc (Literal t) = Literal t"
| "shift_formula dr dc (At row col) =
     (if row + dr < 0 \<or> col + dc < 0 then At row col else At (row + dr) (col + dc))"
| "shift_formula dr dc (Signed neg e) = Signed neg (shift_formula dr dc e)"
| "shift_formula dr dc (Binary f a b) = Binary f (shift_formula dr dc a) (shift_formula dr dc b)"

fun shift_token :: "int \<Rightarrow> int \<Rightarrow> token \<Rightarrow> token" where
  "shift_token dr dc (Ref_Tok t) =
     (case match_cell t of None \<Rightarrow> Ref_Tok t | Some (l, d, _) \<Rightarrow> Ref_Tok (shift_cell dr dc [] l d))"
| "shift_token dr dc t = t"

lemma shift_cell_prefix: "shift_cell dr dc (c # p) l d = c # shift_cell dr dc p l d"
  by (simp add: shift_cell_def Let_def split: sum.splits)

lemma match_cell_no_upper: "s = [] \<or> \<not> is_upper (hd s) \<Longrightarrow> match_cell s = None"
  by (cases s) (auto simp: match_cell_def)

lemma replace_refs_pass:
  assumes "s = [] \<or> \<not> is_upper (hd s)" and "\<not> is_upper c"
  shows "replace_refs f b (c # s) = c # replace_refs f False s"
  using match_cell_no_upper [OF assms(1)] match_cell_no_upper [of "c # s"] assms(2)
  by (subst replace_refs.simps) (simp add: match_ref_def)

lemma replace_refs_number:
  "list_all number_char u \<Longrightarrow> s = [] \<or> \<not> is_upper (hd s) \<Longrightarrow> \<not> is_upper c \<Longrightarrow>
   replace_refs f b (c # u @ s) = c # u @ replace_refs f False s"
proof (induction u arbitrary: b c)
  case Nil
  then show ?case by (simp add: replace_refs_pass)
next
  case (Cons x u)
  then have x: "\<not> is_upper x" using number_char_facts by simp
  with Cons have "replace_refs f False (x # u @ s) = x # u @ replace_refs f False s" by simp
  with x Cons.prems replace_refs_pass [of "x # u @ s" c f b] show ?case by simp
qed

lemma replace_operand:
  assumes t: "token_ok t" "operand t" and s: "s = [] \<or> separator_char (hd s)" and c: "ref_prefix c"
  shows "replace_refs (shift_cell dr dc) b (c # token_text t @ s) =
    c # token_text (shift_token dr dc t) @ replace_refs (shift_cell dr dc) False s"
proof (cases t)
  case (Num_Tok u)
  with t s c separator_facts [of "hd s"] show ?thesis
    using replace_refs_number [of u s c] by (auto simp: ref_prefix_def)
next
  case (Ref_Tok u)
  with t obtain l d where u: "u = l @ d" "l \<noteq> []" "list_all is_upper l" "all_digits d" by auto
  have "replace_refs (shift_cell dr dc) b (c # l @ d @ s) = shift_cell dr dc [c] l d @ replace_refs (shift_cell dr dc) False s"
    using s separator_facts [of "hd s"] by (intro replace_refs_cell c u) auto
  moreover have "match_cell (l @ d @ []) = Some (l, d, [])" by (rule match_cell_split) (use u in simp_all)
  ultimately show ?thesis using u(1) Ref_Tok by (simp add: shift_cell_prefix)
qed (use t in simp_all)

lemma replace_text:
  "list_all token_ok ts \<Longrightarrow> separated ts \<Longrightarrow> ref_prefix c \<Longrightarrow>
   replace_refs (shift_cell dr dc) b (c # concat (map token_text ts)) = c # concat (map token_text (map (shift_token dr dc) ts))"
proof (induction ts arbitrary: b c rule: length_induct)
  case (1 ts)
  have c: "\<not> is_upper c" using "1.prems"(3) by (simp add: ref_prefix_def)
  show ?case
  proof (cases ts)
    case Nil
    then show ?thesis using replace_refs_pass [of "[]" c] c by (simp add: replace_refs.simps [of _ False "[]"] match_ref_def match_cell_def)
  next
    case (Cons t us)
    with "1.prems" have us: "list_all token_ok us" "separated us" "token_ok t" by (cases us; simp)+
    show ?thesis
    proof (cases "operand t")
      case False
      then obtain x where x: "token_text t = [x]" "separator_char x" using operator_text us by blast
      moreover have "shift_token dr dc t = t" using False by (cases t) simp_all
      moreover have "replace_refs (shift_cell dr dc) False (x # concat (map token_text us)) = x # concat (map token_text (map (shift_token dr dc) us))"
        using "1.IH" us Cons separator_facts [OF x(2)] by simp
      ultimately show ?thesis using Cons c separator_facts [OF x(2)] by (simp add: replace_refs_pass)
    next
      case True
      have "replace_refs (shift_cell dr dc) False (concat (map token_text us)) = concat (map token_text (map (shift_token dr dc) us))"
      proof (cases us)
        case Nil
        then show ?thesis by (simp add: replace_refs.simps [of _ False "[]"] match_ref_def match_cell_def)
      next
        case us': (Cons u vs)
        with "1.prems" Cons True have u: "\<not> operand u" "token_ok u" "list_all token_ok vs" "separated vs" by (cases vs; simp)+
        then obtain x where x: "token_text u = [x]" "separator_char x" using operator_text by blast
        moreover have "shift_token dr dc u = u" using u(1) by (cases u) simp_all
        ultimately show ?thesis using "1.IH" u us' Cons separator_facts [OF x(2)] by simp
      qed
      with replace_operand [OF us(3) True _ "1.prems"(3)] text_after_operand [of t us] "1.prems" Cons True show ?thesis by simp
    qed
  qed
qed

lemma shift_formula_tokens:
  "formula_ok e \<Longrightarrow> map (shift_token dr dc) (formula_tokens p e) = formula_tokens p (shift_formula dr dc e) \<and>
   formula_ok (shift_formula dr dc e)"
proof (induction p e rule: formula_tokens.induct)
  case (2 p row col)
  have "match_cell (column_label col @ int_dec (row + 1) @ []) = Some (column_label col, int_dec (row + 1), [])"
    using 2 by (intro match_cell_split) (simp_all add: column_label_facts int_dec_pos)
  with 2 show ?case
    by (auto simp: cell_name_def shift_cell_def Let_def column_label_facts int_dec_pos algebra_simps)
qed (simp_all add: Let_def)

lemma shifted_value:
  "formula_value get (shift_formula dr dc e) =
   formula_value (\<lambda>row col. if row + dr < 0 \<or> col + dc < 0 then get row col else get (row + dr) (col + dc)) e"
  by (induction e) (auto split: option.splits)

text \<open>C12: A formula filled into another cell computes there what it computed in its own cell from the cells beside it:
  the filled text is the formula with every reference moved, and its value is the value of the old formula on the
  sheet seen from the new cell (a reference that would leave the sheet stays where it is).\<close>

theorem filled_formula_value:
  assumes "formula_ok e" and "dr \<noteq> 0 \<or> dc \<noteq> 0"
  shows "adjustFormulaReferences (formula_text e) dr dc = formula_text (shift_formula dr dc e) \<and>
    evaluateFormulaLocally cells (adjustFormulaReferences (formula_text e) dr dc) =
    (case formula_value (\<lambda>row col. if row + dr < 0 \<or> col + dc < 0 then getCellNumericValue cells row col
                                   else getCellNumericValue cells (row + dr) (col + dc)) e of
       None \<Rightarrow> None | Some v \<Rightarrow> v)"
proof -
  have "ref_prefix (CHR ''='')" by (simp add: ref_prefix_def is_upper_def is_digit_def code_of_def)
  then have "adjustFormulaReferences (formula_text e) dr dc = formula_text (shift_formula dr dc e)"
    using formula_tokens_ok [OF assms(1), of 0] shift_formula_tokens [OF assms(1), of dr dc 0] assms(2)
    by (auto simp: adjustFormulaReferences_def formula_text_def replace_text)
  with shift_formula_tokens [OF assms(1)] value_of_text [of "shift_formula dr dc e" cells] show ?thesis
    by (simp add: shifted_value continue_def split: option.splits)
qed

theorem filled_formula_value_witness:
  "evaluateFormulaLocally sample_cells (adjustFormulaReferences ''=10-2.5*(A1+1)-3'' 0 1) = Some (- 13)"
proof -
  define e where "e = Binary Sub (Binary Sub (Literal ''10'') (Binary Mul (Literal ''2.5'') (Binary Add (At 0 0) (Literal ''1'')))) (Literal ''3'')"
  have "formula_ok e" "formula_text e = ''=10-2.5*(A1+1)-3''" unfolding e_def by code_simp+
  moreover have "formula_value (\<lambda>row col. if row + 0 < 0 \<or> col + 1 < 0 then getCellNumericValue sample_cells row col
      else getCellNumericValue sample_cells (row + 0) (col + 1)) e = Some (Some (- 13))" unfolding e_def by code_simp
  ultimately show ?thesis using conjunct2 [OF filled_formula_value [of e 0 1 sample_cells]] by simp
qed

end
