(* ===== verification/Grid_Cells.thy ===== *)
theory Grid_Cells imports Grid_Layout Grid_Formula begin

text \<open>
  The state of the spreadsheet grid and the operations on its cells: what the user types, pastes or clears, how it is
  queued for saving, and how the cells of the server are merged
  (\<open>src/frontend/src/components/spreadsheets/SpreadsheetGrid.tsx\<close>).  The state is that of the sheet that is open.  The
  attribute \<open>updatedAt\<close> is the time \<open>Date.parse\<close> gives, \<open>None\<close> if there is none.  Two objects are the same object if they
  have the same \<open>reference\<close>.
\<close>

section \<open>State\<close>

datatype value_type = Number_Type | String_Type

record pending_operation =
  po_row :: int
  po_column :: int
  po_clear :: bool
  po_raw_input :: "string option"
  po_value_type :: "value_type option"
  po_number_value :: "rat option"
  po_string_value :: "string option"
  po_reference :: nat

record number_format =
  nf_type :: string
  nf_currencyCode :: "string option"
  nf_decimalPlaces :: "int option"

record cell_format =
  bold :: bool
  italic :: bool
  strikethrough :: bool
  textColor :: "string option"
  fontFamily :: "string option"
  fontSize :: "int option"
  numberFormat :: "number_format option"

definition DEFAULT_CELL_FORMAT :: cell_format where
  "DEFAULT_CELL_FORMAT =
     \<lparr> bold = False, italic = False, strikethrough = False, textColor = None, fontFamily = None, fontSize = None,
       numberFormat = None \<rparr>"

record cell_change =
  ch_row :: int
  ch_col :: int
  ch_prevValue :: string
  ch_nextValue :: string

datatype color_target = Row_Target int | Column_Target int | Cell_Target int int

record color_change =
  cl_target :: color_target
  cc_prevColor :: "string option"

record color_redo = color_change +
  cc_nextColor :: "string option"

record format_change =
  fc_row :: int
  fc_col :: int
  fc_prev :: cell_format
  fc_next :: cell_format

datatype structure_type = Row_Insert | Col_Insert | Row_Delete | Col_Delete

record structure_step =
  ss_type :: structure_type
  ss_count :: int
  ss_position :: int

record structure_op = structure_step +
  so_operationId :: js_id

record sort_entry =
  previous_order :: "(js_id \<times> int) list"
  new_order :: "(js_id \<times> int) list"

datatype undo_entry =
  Cell_Undo "cell_change list"
| Color_Undo "color_change list"
| Format_Undo "format_change list"
| Structure_Undo structure_op
| Sort_Undo sort_entry

datatype redo_entry =
  Cell_Redo "cell_change list"
| Color_Redo "color_redo list"
| Format_Redo "format_change list"
| Structure_Redo structure_step
| Sort_Redo sort_entry

record highlight_op =
  ho_target :: color_target
  ho_color :: "string option"
  ho_clear :: bool

record grid = grid_size +
  gr_cells :: cell_map
  gr_pendingOps :: "(int \<times> int, pending_operation) jmap"
  gr_references :: nat
  gr_rowHighlights :: "(int, string) jmap"
  gr_colHighlights :: "(int, string) jmap"
  gr_cellHighlights :: "(int \<times> int, string) jmap"
  gr_highlightOps :: "highlight_op list"
  gr_cellFormats :: "(int \<times> int, cell_format) jmap"
  gr_undoStack :: "undo_entry list"
  gr_redoStack :: "redo_entry list"
  gr_isReverting :: bool
  gr_isSaving :: bool
  gr_activeCell :: "(int \<times> int) option"
  gr_anchorCell :: "(int \<times> int) option"
  gr_focusCell :: "(int \<times> int) option"
  gr_editingCell :: "(int \<times> int) option"
  gr_pendingCanonicalRefresh :: bool
  gr_canonicalRefreshInFlight :: nat

section \<open>What the user types\<close>

definition getCellRawInput :: "grid \<Rightarrow> int \<Rightarrow> int \<Rightarrow> string" where
  "getCellRawInput s row col =
     (case jmap_get (gr_cells s) (getCellKey row col) of None \<Rightarrow> [] | Some cellData \<Rightarrow> rawInput cellData)"

datatype committed_value = Formula_Value string | Numeric_Value string rat | String_Value string

definition currency_symbol :: "char \<Rightarrow> bool" where
  "currency_symbol c \<longleftrightarrow> code_of c \<in> {36, 163, 165}"

text \<open>\<open>/^-?\d+(\.\d+)?$/\<close>\<close>

definition plain_decimal :: "string \<Rightarrow> bool" where
  "plain_decimal s \<longleftrightarrow>
     (let t = (if starts_with (CHR ''-'') s then tl s else s); r = dropWhile is_digit t
      in takeWhile is_digit t \<noteq> [] \<and> (r = [] \<or> starts_with (CHR ''.'') r \<and> all_digits (tl r)))"

definition normalizeCommittedValue :: "string \<Rightarrow> committed_value" where
  "normalizeCommittedValue input =
     (let raw = js_trim input
      in if starts_with (CHR ''='') raw then Formula_Value raw
         else let cleaned = filter (\<lambda>c. c \<noteq> CHR '','') raw;
                  (sign, working) = (if starts_with (CHR ''-'') cleaned then (''-'', tl cleaned) else ([], cleaned));
                  (sign', working') =
                    (case working of
                       [] \<Rightarrow> (sign, working)
                     | c # r \<Rightarrow> if currency_symbol c
                                then if starts_with (CHR ''-'') r then (''-'', tl r) else (sign, r)
                                else (sign, working));
                  normalized = sign' @ working'
              in if plain_decimal normalized then Numeric_Value raw (case js_parse_float normalized of None \<Rightarrow> 0 | Some v \<Rightarrow> v)
                 else String_Value raw)"

definition committed_input :: "committed_value \<Rightarrow> string" where
  "committed_input v = (case v of Formula_Value t \<Rightarrow> t | Numeric_Value t _ \<Rightarrow> t | String_Value t \<Rightarrow> t)"

definition local_cell :: "string \<Rightarrow> cell_data" where
  "local_cell t =
     \<lparr> rawInput = t, computedType = None, computedNumber = None, computedString = None, errorCode = None, updatedAt = None,
       isLoaded = True \<rparr>"

definition pending_of :: "int \<Rightarrow> int \<Rightarrow> committed_value \<Rightarrow> nat \<Rightarrow> pending_operation" where
  "pending_of row col v ref =
     (let t = committed_input v
      in \<lparr> po_row = row, po_column = col, po_clear = (t = []), po_raw_input = (if t = [] then None else Some t),
           po_value_type = (if t = [] then None
                            else case v of Formula_Value _ \<Rightarrow> None | Numeric_Value _ _ \<Rightarrow> Some Number_Type | String_Value _ \<Rightarrow> Some String_Type),
           po_number_value = (if t = [] then None else case v of Numeric_Value _ n \<Rightarrow> Some n | _ \<Rightarrow> None),
           po_string_value = (if t = [] then None else case v of String_Value u \<Rightarrow> Some u | _ \<Rightarrow> None),
           po_reference = ref \<rparr>)"

definition setCellValue :: "int \<Rightarrow> int \<Rightarrow> string \<Rightarrow> grid \<Rightarrow> grid" where
  "setCellValue row col newValue s =
     (let key = getCellKey row col; normalized = normalizeCommittedValue newValue
      in s\<lparr> gr_cells := jmap_set key (local_cell (committed_input normalized)) (gr_cells s),
            gr_pendingOps := jmap_set key (pending_of row col normalized (gr_references s)) (gr_pendingOps s),
            gr_references := gr_references s + 1 \<rparr>)"

text \<open>\<open>setCellValue\<close> for each cell of a list, one after the other.\<close>

definition write_cells :: "((int \<times> int) \<times> string) list \<Rightarrow> grid \<Rightarrow> grid" where
  "write_cells ws s = foldl (\<lambda>s ((r, c), v). setCellValue r c v s) s ws"

definition pushHistoryEntry :: "cell_change list \<Rightarrow> grid \<Rightarrow> grid" where
  "pushHistoryEntry changes s =
     (if changes = [] then s
      else s\<lparr> gr_undoStack := gr_undoStack s @ [Cell_Undo changes], gr_redoStack := [] \<rparr>)"

definition same_place :: "cell_change \<Rightarrow> int \<times> int" where
  "same_place c = (ch_row c, ch_col c)"

definition prev_writes :: "cell_change list \<Rightarrow> ((int \<times> int) \<times> string) list" where
  "prev_writes changes = map (\<lambda>c. (same_place c, ch_prevValue c)) changes"

definition next_writes :: "cell_change list \<Rightarrow> ((int \<times> int) \<times> string) list" where
  "next_writes changes = map (\<lambda>c. (same_place c, ch_nextValue c)) changes"

text \<open>The cells of a list whose text differs from what they hold.\<close>

definition changes_of :: "grid \<Rightarrow> ((int \<times> int) \<times> string) list \<Rightarrow> cell_change list" where
  "changes_of s ws =
     map (\<lambda>((r, c), v). \<lparr> ch_row = r, ch_col = c, ch_prevValue = getCellRawInput s r c, ch_nextValue = v \<rparr>)
       (filter (\<lambda>((r, c), v). getCellRawInput s r c \<noteq> v) ws)"

text \<open>\<open>handleCommitEdit\<close>; what it tells the page (formulas and headers) is left out.\<close>

definition handleCommitEdit :: "string \<Rightarrow> grid \<Rightarrow> grid" where
  "handleCommitEdit editValue s =
     (case gr_editingCell s of
        None \<Rightarrow> s
      | Some (row, col) \<Rightarrow>
          if gr_pendingCanonicalRefresh s \<or> gr_canonicalRefreshInFlight s > 0 then s\<lparr> gr_editingCell := None \<rparr>
          else let s1 = pushHistoryEntry (changes_of s [((row, col), editValue)]) s
               in (setCellValue row col editValue s1)\<lparr> gr_editingCell := None \<rparr>)"

section \<open>The selection\<close>

definition computeSelectionRange :: "grid \<Rightarrow> cell_range option" where
  "computeSelectionRange s =
     (case (gr_anchorCell s, gr_focusCell s) of
        (Some (ar, ac), Some (fr, fc)) \<Rightarrow>
          Some \<lparr> startRow = min ar fr, endRow = max ar fr, startColumn = min ac fc, endColumn = max ac fc \<rparr>
      | _ \<Rightarrow> None)"

definition getEffectiveSelectionRange :: "grid \<Rightarrow> cell_range option" where
  "getEffectiveSelectionRange s =
     (case computeSelectionRange s of
        Some a \<Rightarrow> Some a
      | None \<Rightarrow>
          (case gr_activeCell s of
             Some (row, col) \<Rightarrow> Some \<lparr> startRow = row, endRow = row, startColumn = col, endColumn = col \<rparr>
           | None \<Rightarrow> None))"

definition range_cells :: "cell_range \<Rightarrow> (int \<times> int) list" where
  "range_cells a = concat (map (\<lambda>r. map (\<lambda>c. (r, c)) [startColumn a..endColumn a]) [startRow a..endRow a])"

text \<open>The key \<open>Delete\<close> or \<open>Backspace\<close>.\<close>

definition cleared_cells :: "grid \<Rightarrow> cell_range \<Rightarrow> cell_change list" where
  "cleared_cells s a = changes_of s (map (\<lambda>p. (p, [])) (range_cells a))"

definition isEditing :: "grid \<Rightarrow> bool" where
  "isEditing s \<longleftrightarrow> gr_editingCell s \<noteq> None"

definition clear_selection :: "grid \<Rightarrow> grid" where
  "clear_selection s =
     (case (if isEditing s then None else getEffectiveSelectionRange s) of
        None \<Rightarrow> s
      | Some a \<Rightarrow>
          let changes = cleared_cells s a
          in pushHistoryEntry changes (write_cells (next_writes changes) s))"

section \<open>The clipboard\<close>

definition newline_char :: char where
  "newline_char = CHR 0x0A"

definition tab_char :: char where
  "tab_char = CHR 0x09"

fun replace_crlf :: "string \<Rightarrow> string" where
  "replace_crlf (c # d # s) =
     (if c = CHR 0x0D \<and> d = CHR 0x0A then CHR 0x0A # replace_crlf s else c # replace_crlf (d # s))"
| "replace_crlf s = s"

fun split_by :: "char \<Rightarrow> string \<Rightarrow> string \<Rightarrow> string list" where
  "split_by sep acc [] = [acc]"
| "split_by sep acc (c # s) = (if c = sep then acc # split_by sep [] s else split_by sep (acc @ [c]) s)"

definition drop_last_empty :: "string list \<Rightarrow> string list" where
  "drop_last_empty rows = rev (dropWhile (\<lambda>r. r = []) (rev rows))"

definition parseTSV :: "string \<Rightarrow> string list list" where
  "parseTSV t =
     (if t = [] then []
      else map (split_by tab_char []) (drop_last_empty (split_by newline_char [] (replace_crlf t))))"

fun join_by :: "char \<Rightarrow> string list \<Rightarrow> string" where
  "join_by sep [] = []"
| "join_by sep [t] = t"
| "join_by sep (t # u # ts) = t @ sep # join_by sep (u # ts)"

text \<open>The text \<open>handleCopy\<close> puts on the clipboard; \<open>display\<close> is what the cells show.\<close>

definition display_matrix :: "(int \<Rightarrow> int \<Rightarrow> string) \<Rightarrow> cell_range \<Rightarrow> string list list" where
  "display_matrix display a = map (\<lambda>r. map (display r) [startColumn a..endColumn a]) [startRow a..endRow a]"

definition copied_text :: "(int \<Rightarrow> int \<Rightarrow> string) \<Rightarrow> cell_range \<Rightarrow> string" where
  "copied_text display a = join_by newline_char (map (join_by tab_char) (display_matrix display a))"

definition pasted_cells :: "int \<Rightarrow> int \<Rightarrow> string list list \<Rightarrow> ((int \<times> int) \<times> string) list" where
  "pasted_cells row0 col0 matrix =
     concat (map (\<lambda>(i, row). map (\<lambda>(j, t). ((row0 + int i, col0 + int j), t)) (enumerate 0 row)) (enumerate 0 matrix))"

definition paste_target :: "grid \<Rightarrow> int \<times> int" where
  "paste_target s =
     (case computeSelectionRange s of
        Some a \<Rightarrow> (startRow a, startColumn a)
      | None \<Rightarrow> nullish (gr_activeCell s) (0, 0))"

definition writable :: "grid \<Rightarrow> int \<times> int \<Rightarrow> bool" where
  "writable s p \<longleftrightarrow> fst p < gs_rowCount s \<and> snd p < gs_colCount s \<and> fst p < MAX_ROWS \<and> snd p < MAX_COLUMNS"

definition paste_cells :: "string list list \<Rightarrow> grid \<Rightarrow> ((int \<times> int) \<times> string) list" where
  "paste_cells matrix s = pasted_cells (fst (paste_target s)) (snd (paste_target s)) matrix"

definition handlePaste :: "string \<Rightarrow> grid \<Rightarrow> grid" where
  "handlePaste t s =
     (if isEditing s \<or> t = [] \<or> parseTSV t = [] then s
      else let cells = paste_cells (parseTSV t) s
           in pushHistoryEntry (changes_of s cells) (write_cells (filter (writable s \<circ> fst) cells) s))"

section \<open>Cells of the server\<close>

record response_cell =
  sv_row_position :: int
  sv_column_position :: int
  sv_raw_input :: "string option"
  sv_formula_value :: "string option"
  sv_string_value :: "string option"
  sv_number_value :: "string option"
  sv_computed_type :: "string option"
  sv_computed_number :: "cell_number option"
  sv_computed_string :: "string option"
  sv_error_code :: "string option"
  sv_updated_at :: "int option"

definition response_key :: "response_cell \<Rightarrow> int \<times> int" where
  "response_key c = getCellKey (sv_row_position c) (sv_column_position c)"

text \<open>The last alternative of the code, for a boolean value, is never reached: \<open>''\<close> is not nullish.\<close>

definition fallbackRawInput :: "response_cell \<Rightarrow> string" where
  "fallbackRawInput c =
     nullish (sv_raw_input c) (nullish (sv_formula_value c) (nullish (sv_string_value c) (nullish (sv_number_value c) [])))"

definition older :: "int option \<Rightarrow> int option \<Rightarrow> bool" where
  "older incoming existing = (case (incoming, existing) of (Some a, Some b) \<Rightarrow> a < b | _ \<Rightarrow> False)"

definition existing_time :: "cell_map \<Rightarrow> int \<times> int \<Rightarrow> int option" where
  "existing_time cells key = (case jmap_get cells key of None \<Rightarrow> None | Some c \<Rightarrow> updatedAt c)"

definition server_cell :: "response_cell \<Rightarrow> int option \<Rightarrow> cell_data" where
  "server_cell c time =
     \<lparr> rawInput = fallbackRawInput c, computedType = sv_computed_type c, computedNumber = sv_computed_number c,
       computedString = sv_computed_string c, errorCode = sv_error_code c, updatedAt = time, isLoaded = True \<rparr>"

datatype cell_source = Local_Source | Remote_Source

definition apply_response_cell :: "cell_source \<Rightarrow> (int \<times> int, pending_operation) jmap \<Rightarrow> cell_map \<Rightarrow> response_cell \<Rightarrow> cell_map" where
  "apply_response_cell source pending cells c =
     (let key = response_key c
      in if source = Remote_Source \<and> jmap_get pending key \<noteq> None then cells
         else if source = Remote_Source \<and> older (sv_updated_at c) (existing_time cells key) then cells
         else jmap_set key (server_cell c (orelse (sv_updated_at c) (existing_time cells key))) cells)"

definition applyCellsFromResponse :: "response_cell list \<Rightarrow> cell_source \<Rightarrow> grid \<Rightarrow> grid" where
  "applyCellsFromResponse response source s =
     s\<lparr> gr_cells := foldl (apply_response_cell source (gr_pendingOps s)) (gr_cells s) response \<rparr>"

definition load_cell :: "cell_map \<Rightarrow> response_cell \<Rightarrow> cell_map" where
  "load_cell cells c =
     (let key = response_key c
      in if older (sv_updated_at c) (existing_time cells key) then cells
         else jmap_set key (server_cell c (sv_updated_at c)) cells)"

definition load_cells :: "response_cell list \<Rightarrow> grid \<Rightarrow> grid" where
  "load_cells response s = s\<lparr> gr_cells := foldl load_cell (gr_cells s) response \<rparr>"


section \<open>What the grid holds after the cells are written\<close>

definition raw_of :: "grid \<Rightarrow> int \<times> int \<Rightarrow> string" where
  "raw_of s p = getCellRawInput s (fst p) (snd p)"

definition write_raw :: "((int \<times> int) \<times> string) list \<Rightarrow> (int \<times> int \<Rightarrow> string) \<Rightarrow> int \<times> int \<Rightarrow> string" where
  "write_raw ws f = foldl (\<lambda>f w. f(fst w := js_trim (snd w))) f ws"

lemma write_raw_simps [simp]:
  "write_raw [] f = f"
  "write_raw (w # ws) f = write_raw ws (f(fst w := js_trim (snd w)))"
  by (simp_all add: write_raw_def)

lemma write_raw_other: "p \<notin> fst ` set ws \<Longrightarrow> write_raw ws f p = f p"
  by (induction ws arbitrary: f) auto

lemma write_raw_in: "distinct (map fst ws) \<Longrightarrow> (p, t) \<in> set ws \<Longrightarrow> write_raw ws f p = js_trim t"
  by (induction ws arbitrary: f) (auto simp: write_raw_other)

lemma committed_input_normalize [simp]: "committed_input (normalizeCommittedValue t) = js_trim t"
  by (simp add: normalizeCommittedValue_def committed_input_def Let_def split: prod.split)

lemma raw_of_set [simp]: "raw_of (setCellValue r c t s) = (raw_of s)((r, c) := js_trim t)"
  by (auto simp: fun_eq_iff raw_of_def getCellRawInput_def setCellValue_def getCellKey_def jmap_get_set local_cell_def Let_def)

lemma raw_of_cong: "gr_cells s = gr_cells s' \<Longrightarrow> raw_of s = raw_of s'"
  by (simp add: fun_eq_iff raw_of_def getCellRawInput_def)

lemma write_cells_simps [simp]:
  "write_cells [] s = s"
  "write_cells (((r, c), t) # ws) s = write_cells ws (setCellValue r c t s)"
  by (simp_all add: write_cells_def)

lemma raw_of_write: "raw_of (write_cells ws s) = write_raw ws (raw_of s)"
  by (induction ws arbitrary: s) auto

definition rest_of :: "grid \<Rightarrow> grid" where
  "rest_of s = s\<lparr> gr_cells := [], gr_pendingOps := [], gr_references := 0 \<rparr>"

lemma rest_of_write [simp]: "rest_of (write_cells ws s) = rest_of s"
proof (induction ws arbitrary: s)
  case (Cons w ws)
  obtain r c t where "w = ((r, c), t)" by (metis surj_pair)
  with Cons show ?case by (simp add: rest_of_def setCellValue_def Let_def)
qed simp

lemma rest_of_fields:
  assumes "rest_of s = rest_of s'"
  shows "gr_undoStack s = gr_undoStack s'" "gr_redoStack s = gr_redoStack s'" "gr_cellFormats s = gr_cellFormats s'"
    "gr_editingCell s = gr_editingCell s'" "gs_rowCount s = gs_rowCount s'" "gs_colCount s = gs_colCount s'"
    "gr_isReverting s = gr_isReverting s'" "gr_rowHighlights s = gr_rowHighlights s'"
    "gr_colHighlights s = gr_colHighlights s'" "gr_cellHighlights s = gr_cellHighlights s'"
    "gr_highlightOps s = gr_highlightOps s'"
proof -
  have "f (rest_of s) = f (rest_of s')" for f :: "grid \<Rightarrow> 'b" using assms by simp
  show "gr_undoStack s = gr_undoStack s'" "gr_redoStack s = gr_redoStack s'" "gr_cellFormats s = gr_cellFormats s'"
    "gr_editingCell s = gr_editingCell s'" "gs_rowCount s = gs_rowCount s'" "gs_colCount s = gs_colCount s'"
    "gr_isReverting s = gr_isReverting s'" "gr_rowHighlights s = gr_rowHighlights s'"
    "gr_colHighlights s = gr_colHighlights s'" "gr_cellHighlights s = gr_cellHighlights s'"
    "gr_highlightOps s = gr_highlightOps s'"
    using assms
    by (cases s; cases s'; simp add: rest_of_def)+
qed

lemmas write_fields [simp] = rest_of_fields [OF rest_of_write]

section \<open>Copying and pasting\<close>

text \<open>A text that can stand in a cell of the clipboard.\<close>

definition clip_text :: "string \<Rightarrow> bool" where
  "clip_text t \<longleftrightarrow> list_all (\<lambda>c. c \<noteq> tab_char \<and> c \<noteq> newline_char \<and> c \<noteq> CHR 0x0D) t"

lemma split_by_text: "sep \<notin> set t \<Longrightarrow> split_by sep acc t = [acc @ t]"
  by (induction t arbitrary: acc) auto

lemma split_by_sep: "sep \<notin> set t \<Longrightarrow> split_by sep acc (t @ sep # u) = (acc @ t) # split_by sep [] u"
  by (induction t arbitrary: acc) auto

lemma split_by_join:
  "ts \<noteq> [] \<Longrightarrow> list_all (\<lambda>t. sep \<notin> set t) ts \<Longrightarrow> split_by sep [] (join_by sep ts) = ts"
  by (induction sep ts rule: join_by.induct) (simp_all add: split_by_text split_by_sep)

lemma replace_crlf_id: "CHR 0x0D \<notin> set t \<Longrightarrow> replace_crlf t = t"
  by (induction t rule: replace_crlf.induct) auto

lemma set_join: "c \<in> set (join_by sep ts) \<Longrightarrow> c = sep \<or> (\<exists>t \<in> set ts. c \<in> set t)"
  by (induction sep ts rule: join_by.induct) auto

lemma join_Nil: "join_by sep ts = [] \<longleftrightarrow> ts = [] \<or> ts = [[]]"
  by (cases "(sep, ts)" rule: join_by.cases) auto

lemma drop_last_empty_id: "rows \<noteq> [] \<Longrightarrow> last rows \<noteq> [] \<Longrightarrow> drop_last_empty rows = rows"
  by (cases rows rule: rev_cases) (simp_all add: drop_last_empty_def)

lemma parseTSV_join:
  assumes "matrix \<noteq> []" "list_all (\<lambda>row. row \<noteq> [] \<and> list_all clip_text row) matrix" "last matrix \<noteq> [[]]"
  shows "parseTSV (join_by newline_char (map (join_by tab_char) matrix)) = matrix"
proof -
  let ?rows = "map (join_by tab_char) matrix"
  let ?t = "join_by newline_char ?rows"
  have no: "c \<in> set row \<Longrightarrow> row \<in> set ?rows \<Longrightarrow> c \<noteq> newline_char \<and> c \<noteq> CHR 0x0D" for c row
    using assms(2) by (fastforce simp: list_all_iff clip_text_def tab_char_def newline_char_def dest!: set_join)
  have last: "last ?rows \<noteq> []"
    using assms by (simp add: last_map join_Nil list_all_iff)
  have "CHR 0x0D \<notin> set ?t"
  proof
    assume "CHR 0x0D \<in> set ?t"
    then obtain row where "row \<in> set ?rows" "CHR 0x0D \<in> set row"
      by (auto dest!: set_join simp: newline_char_def)
    with no show False by blast
  qed
  moreover have "?t \<noteq> []" using last assms(1) by (auto simp: join_Nil)
  moreover have "split_by newline_char [] ?t = ?rows"
    using assms(1) no by (intro split_by_join) (auto simp: list_all_iff)
  moreover have "map (split_by tab_char []) ?rows = matrix"
    using assms(2) by (auto simp: list_all_iff clip_text_def intro!: map_idI split_by_join) blast+
  ultimately show ?thesis
    using last assms(1) by (simp add: parseTSV_def replace_crlf_id drop_last_empty_id)
qed

lemma enumerate_upto: "enumerate 0 (map f [i..j]) = map (\<lambda>r. (nat (r - i), f r)) [i..j]"
  by (rule nth_equalityI) (auto simp: nth_enumerate_eq)

lemma pasted_display:
  "pasted_cells r0 c0 (display_matrix display a) =
   map (\<lambda>(r, c). ((r0 + (r - startRow a), c0 + (c - startColumn a)), display r c)) (range_cells a)"
proof -
  let ?row = "\<lambda>r. map (\<lambda>c. ((r0 + (r - startRow a), c0 + (c - startColumn a)), display r c)) [startColumn a..endColumn a]"
  have row: "map (\<lambda>(j, t). ((r0 + int (nat (r - startRow a)), c0 + int j), t))
          (enumerate 0 (map (display r) [startColumn a..endColumn a])) = ?row r"
    if "r \<in> set [startRow a..endRow a]" for r
    using that by (auto simp: enumerate_upto)
  have "pasted_cells r0 c0 (display_matrix display a) = concat (map ?row [startRow a..endRow a])"
    unfolding pasted_cells_def display_matrix_def enumerate_upto
    by (rule arg_cong [where f = concat]) (use row in \<open>simp add: comp_def\<close>)
  then show ?thesis by (simp add: range_cells_def map_concat comp_def)
qed

lemma set_range_cells [simp]:
  "set (range_cells a) = {startRow a..endRow a} \<times> {startColumn a..endColumn a}"
  by (auto simp: range_cells_def)

lemma distinct_product: "distinct xs \<Longrightarrow> distinct ys \<Longrightarrow> distinct (concat (map (\<lambda>x. map (Pair x) ys) xs))"
  by (induction xs) (auto simp: distinct_map inj_on_def)

lemma distinct_range_cells: "distinct (range_cells a)"
  by (simp add: range_cells_def distinct_product)

lemma push_history_cells [simp]:
  "gr_cells (pushHistoryEntry changes s) = gr_cells s" "raw_of (pushHistoryEntry changes s) = raw_of s"
  by (simp_all add: pushHistoryEntry_def raw_of_def getCellRawInput_def fun_eq_iff)

lemma raw_of_paste:
  assumes "\<not> isEditing s" "t \<noteq> []" "parseTSV t = matrix" "matrix \<noteq> []"
    and "list_all (writable s \<circ> fst) (paste_cells matrix s)"
  shows "raw_of (handlePaste t s) = write_raw (paste_cells matrix s) (raw_of s)"
proof -
  have "filter (writable s \<circ> fst) (paste_cells matrix s) = paste_cells matrix s"
    using assms(5) by (simp add: filter_id_conv list_all_iff)
  with assms(1-4) show ?thesis by (simp add: handlePaste_def Let_def raw_of_write)
qed

text \<open>Whether a block of the size of \<open>a\<close> fits into the grid at \<open>(r0, c0)\<close>.\<close>

definition block_fits :: "grid \<Rightarrow> cell_range \<Rightarrow> int \<Rightarrow> int \<Rightarrow> bool" where
  "block_fits s a r0 c0 \<longleftrightarrow> writable s (r0 + (endRow a - startRow a), c0 + (endColumn a - startColumn a))"

definition clip_range :: "(int \<Rightarrow> int \<Rightarrow> string) \<Rightarrow> cell_range \<Rightarrow> bool" where
  "clip_range display a \<longleftrightarrow>
     startRow a \<le> endRow a \<and> startColumn a \<le> endColumn a \<and>
     list_all (\<lambda>(r, c). clip_text (display r c)) (range_cells a) \<and>
     (startColumn a < endColumn a \<or> display (endRow a) (endColumn a) \<noteq> [])"

lemma parse_copied:
  assumes "clip_range display a"
  shows "parseTSV (copied_text display a) = display_matrix display a"
  unfolding copied_text_def
proof (rule parseTSV_join)
  let ?m = "display_matrix display a"
  have rows: "startRow a \<le> endRow a" and cols: "startColumn a \<le> endColumn a" using assms by (simp_all add: clip_range_def)
  show "?m \<noteq> []" using rows by (simp add: display_matrix_def)
  show "list_all (\<lambda>row. row \<noteq> [] \<and> list_all clip_text row) ?m"
    using assms by (auto simp: clip_range_def display_matrix_def list_all_iff)
  have "last ?m = map (display (endRow a)) [startColumn a..endColumn a]"
    using rows by (simp add: display_matrix_def last_map last_conv_nth)
  moreover have "map (display (endRow a)) [startColumn a..endColumn a] \<noteq> [[]]"
  proof (cases "startColumn a < endColumn a")
    case True
    then have "length [startColumn a..endColumn a] \<noteq> 1" by simp
    then show ?thesis by (metis length_map One_nat_def length_Cons list.size(3))
  next
    case False
    with assms cols show ?thesis by (simp add: clip_range_def)
  qed
  ultimately show "last ?m \<noteq> [[]]" by simp
qed

text \<open>C13: What is copied arrives: if the selected cells show texts without tabs and line breaks, the last row is not a
  single empty cell and the block fits into the grid, pasting makes the raw input of the cell at each place of the block
  the text, without outer blanks, that the copied cell at that place shows, and leaves every other cell as it was.
\<close>

theorem copied_cells_are_pasted:
  assumes "clip_range display a" "\<not> isEditing s" "paste_target s = (r0, c0)" "block_fits s a r0 c0"
  shows "getCellRawInput (handlePaste (copied_text display a) s) row col =
    (if r0 \<le> row \<and> row \<le> r0 + (endRow a - startRow a) \<and> c0 \<le> col \<and> col \<le> c0 + (endColumn a - startColumn a)
     then js_trim (display (startRow a + (row - r0)) (startColumn a + (col - c0)))
     else getCellRawInput s row col)"
proof -
  let ?m = "display_matrix display a" and ?t = "copied_text display a"
  let ?ws = "paste_cells ?m s" and ?at = "\<lambda>(r, c). (r0 + (r - startRow a), c0 + (c - startColumn a))"
  have ws: "?ws = map (\<lambda>p. (?at p, display (fst p) (snd p))) (range_cells a)"
    using assms(3) by (simp add: paste_cells_def pasted_display split_def)
  have parse: "parseTSV ?t = ?m" by (rule parse_copied [OF assms(1)])
  have ne: "?m \<noteq> []" using assms(1) by (simp add: display_matrix_def clip_range_def)
  with parse have "?t \<noteq> []" by (auto simp: parseTSV_def)
  moreover have "list_all (writable s \<circ> fst) ?ws"
    using assms(4) by (auto simp: ws list_all_iff writable_def block_fits_def)
  ultimately have raw: "raw_of (handlePaste ?t s) = write_raw ?ws (raw_of s)"
    using assms(2) parse ne by (intro raw_of_paste)
  have dist: "distinct (map fst ?ws)"
    by (auto simp: ws distinct_map comp_def distinct_range_cells inj_on_def)
  show ?thesis
  proof (cases "r0 \<le> row \<and> row \<le> r0 + (endRow a - startRow a) \<and> c0 \<le> col \<and> col \<le> c0 + (endColumn a - startColumn a)")
    case True
    let ?p = "(startRow a + (row - r0), startColumn a + (col - c0))"
    have "((row, col), display (fst ?p) (snd ?p)) \<in> set ?ws"
      using True by (subst ws, subst set_map, intro image_eqI [of _ _ ?p]) auto
    from write_raw_in [OF dist this] True raw show ?thesis by (simp add: raw_of_def fun_eq_iff)
  next
    case False
    then have "(row, col) \<notin> fst ` set ?ws" by (auto simp: ws)
    from write_raw_other [OF this] raw show ?thesis
      unfolding if_not_P [OF False] by (simp add: raw_of_def fun_eq_iff)
  qed
qed

definition sample_sheet :: grid where
  "sample_sheet =
     \<lparr> gs_rowCount = 4, gs_colCount = 3, gs_rowHeights = [], gs_colWidths = [],
       gr_cells = [((0, 0), local_cell ''a''), ((0, 1), local_cell ''=A1''), ((1, 1), local_cell ''7'')],
       gr_pendingOps = [], gr_references = 0, gr_rowHighlights = [], gr_colHighlights = [],
       gr_cellHighlights = [((0, 0), ''red'')], gr_highlightOps = [], gr_cellFormats = [], gr_undoStack = [], gr_redoStack = [],
       gr_isReverting = False, gr_isSaving = False, gr_activeCell = Some (2, 1), gr_anchorCell = None, gr_focusCell = None,
       gr_editingCell = None, gr_pendingCanonicalRefresh = False, gr_canonicalRefreshInFlight = 0 \<rparr>"

definition sample_block :: cell_range where
  "sample_block = \<lparr> startRow = 0, endRow = 1, startColumn = 0, endColumn = 1 \<rparr>"

theorem copied_cells_are_pasted_witness:
  "getCellRawInput (handlePaste (copied_text (getCellRawInput sample_sheet) sample_block) sample_sheet) 2 2 = ''=A1''"
proof -
  have c: "clip_range (getCellRawInput sample_sheet) sample_block" by code_simp
  have e: "\<not> isEditing sample_sheet" by code_simp
  have t: "paste_target sample_sheet = (2, 1)" by code_simp
  have f: "block_fits sample_sheet sample_block 2 1" by code_simp
  show ?thesis
    unfolding copied_cells_are_pasted [OF c e t f] by code_simp
qed

end
