(* ===== verification/Grid_History.thy ===== *)
theory Grid_History imports Grid_Cells Undo_History Event_System begin

text \<open>
  Undo and redo in the spreadsheet grid, and the operations that feed them: formats, highlights, inserting and deleting
  rows and columns, sorting (\<open>src/frontend/src/components/spreadsheets/SpreadsheetGrid.tsx\<close>).  An operation that waits for
  the server is two steps: the first gives the call, if there is one, and the second takes its outcome.  What the call
  needs from the state when it was made, such as the size of the grid, is in the call.
\<close>

section \<open>Formats\<close>

text \<open>\<open>Partial<CellFormat>\<close>: \<open>None\<close> is an absent attribute.\<close>

record format_patch =
  fp_bold :: "bool option"
  fp_italic :: "bool option"
  fp_strikethrough :: "bool option"
  fp_textColor :: "string option option"
  fp_fontFamily :: "string option option"
  fp_fontSize :: "int option option"
  fp_numberFormat :: "number_format option option"

definition patched :: "format_patch \<Rightarrow> cell_format \<Rightarrow> cell_format" where
  "patched patch prev =
     \<lparr> bold = nullish (fp_bold patch) (bold prev), italic = nullish (fp_italic patch) (italic prev),
       strikethrough = nullish (fp_strikethrough patch) (strikethrough prev),
       textColor = nullish (fp_textColor patch) (textColor prev),
       fontFamily = nullish (fp_fontFamily patch) (fontFamily prev),
       fontSize = nullish (fp_fontSize patch) (fontSize prev),
       numberFormat = nullish (fp_numberFormat patch) (numberFormat prev) \<rparr>"

definition getCellFormat :: "grid \<Rightarrow> int \<times> int \<Rightarrow> cell_format" where
  "getCellFormat s p = nullish (jmap_get (gr_cellFormats s) p) DEFAULT_CELL_FORMAT"

definition format_place :: "format_change \<Rightarrow> int \<times> int" where
  "format_place f = (fc_row f, fc_col f)"

definition set_formats :: "((int \<times> int) \<times> cell_format) list \<Rightarrow> grid \<Rightarrow> grid" where
  "set_formats fs s = s\<lparr> gr_cellFormats := foldl (\<lambda>m f. jmap_set (fst f) (snd f) m) (gr_cellFormats s) fs \<rparr>"

definition prev_formats :: "format_change list \<Rightarrow> ((int \<times> int) \<times> cell_format) list" where
  "prev_formats ops = map (\<lambda>f. (format_place f, fc_prev f)) ops"

definition next_formats :: "format_change list \<Rightarrow> ((int \<times> int) \<times> cell_format) list" where
  "next_formats ops = map (\<lambda>f. (format_place f, fc_next f)) ops"

definition format_changes :: "grid \<Rightarrow> format_patch \<Rightarrow> cell_range \<Rightarrow> format_change list" where
  "format_changes s patch a =
     map (\<lambda>(r, c). \<lparr> fc_row = r, fc_col = c, fc_prev = getCellFormat s (r, c), fc_next = patched patch (getCellFormat s (r, c)) \<rparr>)
       (filter (\<lambda>p. patched patch (getCellFormat s p) \<noteq> getCellFormat s p) (range_cells a))"

section \<open>Calls of the server\<close>

datatype server_call =
  Batch_Formats "format_change list" "((int \<times> int) \<times> cell_format) list"
| Revert_Structure structure_op int int
| Structure_Call structure_type int int int int
| Reorder_Rows sort_entry "(js_id \<times> int) list"

text \<open>\<open>applyFormatToSelection\<close> up to its \<open>await\<close>, and what it does when the call fails.\<close>

definition applyFormatToSelection :: "format_patch \<Rightarrow> grid \<Rightarrow> grid \<times> server_call option" where
  "applyFormatToSelection patch s =
     (case getEffectiveSelectionRange s of
        None \<Rightarrow> (s, None)
      | Some a \<Rightarrow>
          let ops = format_changes s patch a
          in if ops = [] then (s, None)
             else ((set_formats (next_formats ops) s)\<lparr> gr_undoStack := gr_undoStack s @ [Format_Undo ops], gr_redoStack := [] \<rparr>,
                   Some (Batch_Formats ops (next_formats ops))))"

definition format_failed :: "format_change list \<Rightarrow> grid \<Rightarrow> grid" where
  "format_failed ops s =
     (set_formats (prev_formats ops) s)\<lparr> gr_undoStack := butlast (gr_undoStack s) \<rparr>"

section \<open>Highlights\<close>

fun color_at :: "grid \<Rightarrow> color_target \<Rightarrow> string option" where
  "color_at s (Row_Target r) = jmap_get (gr_rowHighlights s) r"
| "color_at s (Column_Target c) = jmap_get (gr_colHighlights s) c"
| "color_at s (Cell_Target r c) = jmap_get (gr_cellHighlights s) (getCellKey r c)"

definition put_color :: "'k \<Rightarrow> string option \<Rightarrow> ('k, string) jmap \<Rightarrow> ('k, string) jmap" where
  "put_color k color m = (case color of None \<Rightarrow> jmap_delete k m | Some v \<Rightarrow> jmap_set k v m)"

fun set_color :: "color_target \<Rightarrow> string option \<Rightarrow> grid \<Rightarrow> grid" where
  "set_color (Row_Target r) color s = s\<lparr> gr_rowHighlights := put_color r color (gr_rowHighlights s) \<rparr>"
| "set_color (Column_Target c) color s = s\<lparr> gr_colHighlights := put_color c color (gr_colHighlights s) \<rparr>"
| "set_color (Cell_Target r c) color s = s\<lparr> gr_cellHighlights := put_color (getCellKey r c) color (gr_cellHighlights s) \<rparr>"

definition highlight_op_of :: "color_target \<Rightarrow> string option \<Rightarrow> highlight_op" where
  "highlight_op_of target color = \<lparr> ho_target = target, ho_color = color, ho_clear = (color = None) \<rparr>"

text \<open>The queue, which the timer sends after 400 ms, all at once (\<open>flush_highlights\<close>).\<close>

definition enqueueHighlightOps :: "highlight_op list \<Rightarrow> grid \<Rightarrow> grid" where
  "enqueueHighlightOps ops s = s\<lparr> gr_highlightOps := gr_highlightOps s @ ops \<rparr>"

definition flush_highlights :: "grid \<Rightarrow> grid \<times> highlight_op list" where
  "flush_highlights s = (s\<lparr> gr_highlightOps := [] \<rparr>, gr_highlightOps s)"

definition paint :: "(color_target \<times> string option) list \<Rightarrow> grid \<Rightarrow> grid" where
  "paint ts s = foldl (\<lambda>s (t, color). enqueueHighlightOps [highlight_op_of t color] (set_color t color s)) s ts"

definition applyUndoColor :: "color_change list \<Rightarrow> grid \<Rightarrow> grid" where
  "applyUndoColor ops s = paint (map (\<lambda>c. (cl_target c, cc_prevColor c)) ops) s"

definition applyRedoColor :: "color_redo list \<Rightarrow> grid \<Rightarrow> grid" where
  "applyRedoColor ops s = paint (map (\<lambda>c. (cl_target c, cc_nextColor c)) ops) s"

text \<open>The targets of a highlight: whole rows, whole columns or cells.\<close>

definition highlight_targets :: "grid \<Rightarrow> color_target list" where
  "highlight_targets s =
     (case getEffectiveSelectionRange s of
        None \<Rightarrow> []
      | Some a \<Rightarrow>
          (case computeSelectionRange s of
             Some b \<Rightarrow>
               if startColumn b = 0 \<and> endColumn b = max 0 (gs_colCount s - 1) then map Row_Target [startRow b..endRow b]
               else if startRow b = 0 \<and> endRow b = max 0 (gs_rowCount s - 1) then map Column_Target [startColumn b..endColumn b]
               else map (\<lambda>(r, c). Cell_Target r c) (range_cells a)
           | None \<Rightarrow> map (\<lambda>(r, c). Cell_Target r c) (range_cells a)))"

text \<open>The empty string is falsy, so it clears as \<open>null\<close> does.\<close>

definition truthy_color :: "string option \<Rightarrow> string option" where
  "truthy_color color = (case color of Some [] \<Rightarrow> None | _ \<Rightarrow> color)"

definition applyHighlightToSelection :: "string option \<Rightarrow> grid \<Rightarrow> grid" where
  "applyHighlightToSelection color s =
     (if getEffectiveSelectionRange s = None then s
      else let ts = highlight_targets s; shown = truthy_color color
           in enqueueHighlightOps (map (\<lambda>t. \<lparr> ho_target = t, ho_color = color, ho_clear = (shown = None) \<rparr>) ts)
                (foldl (\<lambda>s t. set_color t shown s)
                   (s\<lparr> gr_redoStack := [],
                       gr_undoStack := gr_undoStack s @ [Color_Undo (map (\<lambda>t. \<lparr> cl_target = t, cc_prevColor = color_at s t \<rparr>) ts)] \<rparr>) ts))"

section \<open>Rows and columns\<close>

definition clear_cell_cache :: "grid \<Rightarrow> grid" where
  "clear_cell_cache s = s\<lparr> gr_cells := [] \<rparr>"

text \<open>\<open>handleInsertRow\<close>, \<open>handleInsertColumn\<close>, \<open>handleDeleteRow\<close> and \<open>handleDeleteColumn\<close>; the page inserts at a position inside the
  grid, so that \<open>handleInsertColumn\<close> has nothing to widen first.\<close>

definition structure_request :: "structure_type \<Rightarrow> int \<Rightarrow> int \<Rightarrow> grid \<Rightarrow> server_call option" where
  "structure_request type position number s =
     (let rows = gs_rowCount s; cols = gs_colCount s;
          refused = (case type of Row_Insert \<Rightarrow> rows + number > MAX_ROWS | Col_Insert \<Rightarrow> cols + number > MAX_COLUMNS
                     | Row_Delete \<Rightarrow> rows - number < 0 | Col_Delete \<Rightarrow> cols - number < 0)
      in if refused then None else Some (Structure_Call type position number rows cols))"

fun resized :: "structure_type \<Rightarrow> int \<Rightarrow> int \<Rightarrow> int \<Rightarrow> grid \<Rightarrow> grid" where
  "resized Row_Insert number rows cols s = s\<lparr> gs_rowCount := rows + number \<rparr>"
| "resized Col_Insert number rows cols s = s\<lparr> gs_colCount := cols + number \<rparr>"
| "resized Row_Delete number rows cols s = s\<lparr> gs_rowCount := max 0 (rows - number) \<rparr>"
| "resized Col_Delete number rows cols s = s\<lparr> gs_colCount := max 0 (cols - number) \<rparr>"

definition structure_done :: "structure_type \<Rightarrow> int \<Rightarrow> int \<Rightarrow> int \<Rightarrow> int \<Rightarrow> js_id \<Rightarrow> grid \<Rightarrow> grid" where
  "structure_done type position number rows cols operation_id s =
     clear_cell_cache ((resized type number rows cols s)
       \<lparr> gr_undoStack := gr_undoStack s @
           [Structure_Undo \<lparr> ss_type = type, ss_count = number, ss_position = position, so_operationId = operation_id \<rparr>],
         gr_redoStack := [] \<rparr>)"

definition opposite :: "structure_type \<Rightarrow> structure_type" where
  "opposite type =
     (case type of Row_Insert \<Rightarrow> Row_Delete | Row_Delete \<Rightarrow> Row_Insert | Col_Insert \<Rightarrow> Col_Delete | Col_Delete \<Rightarrow> Col_Insert)"

definition performUndoStructure :: "structure_op \<Rightarrow> grid \<Rightarrow> grid \<times> server_call option" where
  "performUndoStructure op s =
     (if gr_isReverting s then (s, None)
      else (s\<lparr> gr_isReverting := True \<rparr>, Some (Revert_Structure op (gs_rowCount s) (gs_colCount s))))"

definition structure_reverted :: "structure_op \<Rightarrow> int \<Rightarrow> int \<Rightarrow> grid \<Rightarrow> grid" where
  "structure_reverted op rows cols s =
     (clear_cell_cache (resized (opposite (ss_type op)) (ss_count op) rows cols s))\<lparr> gr_isReverting := False \<rparr>"

definition structure_revert_failed :: "grid \<Rightarrow> grid" where
  "structure_revert_failed s = s\<lparr> gr_isReverting := False \<rparr>"

section \<open>Sorting\<close>

definition sorted_by_column :: "sort_entry \<Rightarrow> grid \<Rightarrow> grid" where
  "sorted_by_column entry s =
     (clear_cell_cache s)\<lparr> gr_undoStack := gr_undoStack s @ [Sort_Undo entry], gr_redoStack := [] \<rparr>"

definition rows_reordered :: "grid \<Rightarrow> grid" where
  "rows_reordered s = clear_cell_cache s"

definition redo_sort_failed :: "sort_entry \<Rightarrow> grid \<Rightarrow> grid" where
  "redo_sort_failed entry s =
     s\<lparr> gr_undoStack := butlast (gr_undoStack s), gr_redoStack := gr_redoStack s @ [Sort_Redo entry] \<rparr>"

section \<open>Undo and redo\<close>

definition handleUnifiedUndo :: "grid \<Rightarrow> grid \<times> server_call option" where
  "handleUnifiedUndo s =
     (if gr_undoStack s = [] then (s, None)
      else let s1 = s\<lparr> gr_undoStack := butlast (gr_undoStack s) \<rparr>
           in case last (gr_undoStack s) of
                Cell_Undo changes \<Rightarrow>
                  (write_cells (prev_writes changes) (s1\<lparr> gr_redoStack := gr_redoStack s @ [Cell_Redo changes] \<rparr>), None)
              | Color_Undo ops \<Rightarrow>
                  (applyUndoColor ops (s1\<lparr> gr_redoStack := gr_redoStack s @
                     [Color_Redo (map (\<lambda>c. \<lparr> cl_target = cl_target c, cc_prevColor = cc_prevColor c,
                        cc_nextColor = color_at s (cl_target c) \<rparr>) ops)] \<rparr>), None)
              | Format_Undo ops \<Rightarrow>
                  (set_formats (prev_formats ops) (s1\<lparr> gr_redoStack := gr_redoStack s @ [Format_Redo ops] \<rparr>),
                   Some (Batch_Formats ops (prev_formats ops)))
              | Structure_Undo op \<Rightarrow>
                  performUndoStructure op (s1\<lparr> gr_redoStack := gr_redoStack s @ [Structure_Redo (structure_step.truncate op)] \<rparr>)
              | Sort_Undo entry \<Rightarrow>
                  (s1\<lparr> gr_redoStack := gr_redoStack s @ [Sort_Redo entry] \<rparr>, Some (Reorder_Rows entry (previous_order entry))))"

definition handleUnifiedRedo :: "grid \<Rightarrow> grid \<times> server_call option" where
  "handleUnifiedRedo s =
     (if gr_redoStack s = [] then (s, None)
      else let s1 = s\<lparr> gr_redoStack := butlast (gr_redoStack s) \<rparr>
           in case last (gr_redoStack s) of
                Cell_Redo changes \<Rightarrow>
                  (write_cells (next_writes changes) (s1\<lparr> gr_undoStack := gr_undoStack s @ [Cell_Undo changes] \<rparr>), None)
              | Color_Redo ops \<Rightarrow>
                  (applyRedoColor ops (s1\<lparr> gr_undoStack := gr_undoStack s @
                     [Color_Undo (map (\<lambda>c. \<lparr> cl_target = cl_target c, cc_prevColor = cc_nextColor c \<rparr>) ops)] \<rparr>), None)
              | Format_Redo ops \<Rightarrow>
                  (set_formats (next_formats ops) (s1\<lparr> gr_undoStack := gr_undoStack s @ [Format_Undo ops] \<rparr>),
                   Some (Batch_Formats ops (next_formats ops)))
              | Structure_Redo op \<Rightarrow> (s1, structure_request (ss_type op) (ss_position op) (ss_count op) s1)
              | Sort_Redo entry \<Rightarrow>
                  (s1\<lparr> gr_undoStack := gr_undoStack s @ [Sort_Undo entry] \<rparr>, Some (Reorder_Rows entry (new_order entry))))"


section \<open>What the history promises\<close>

text \<open>
  The contract, on what the sheet shows: the raw inputs and the formats of the cells, and two stacks of entries, their
  tops first.  It covers what the user types, clears, pastes and formats.
\<close>

type_synonym sheet_values = "(int \<times> int \<Rightarrow> string) \<times> (int \<times> int \<Rightarrow> cell_format)"

datatype plain_entry = Cells "cell_change list" | Formats "format_change list"

record history_view =
  hv_values :: sheet_values
  hv_undo :: "plain_entry list"
  hv_redo :: "plain_entry list"

definition write_formats :: "((int \<times> int) \<times> cell_format) list \<Rightarrow> (int \<times> int \<Rightarrow> cell_format) \<Rightarrow> int \<times> int \<Rightarrow> cell_format" where
  "write_formats fs g = foldl (\<lambda>g f. g(fst f := snd f)) g fs"

fun before :: "plain_entry \<Rightarrow> sheet_values \<Rightarrow> sheet_values" where
  "before (Cells changes) v = (write_raw (prev_writes changes) (fst v), snd v)"
| "before (Formats ops) v = (fst v, write_formats (prev_formats ops) (snd v))"

fun after :: "plain_entry \<Rightarrow> sheet_values \<Rightarrow> sheet_values" where
  "after (Cells changes) v = (write_raw (next_writes changes) (fst v), snd v)"
| "after (Formats ops) v = (fst v, write_formats (next_formats ops) (snd v))"

definition view_undo :: "history_view \<Rightarrow> history_view option" where
  "view_undo h =
     (case hv_undo h of [] \<Rightarrow> None
      | e # es \<Rightarrow> Some \<lparr> hv_values = before e (hv_values h), hv_undo = es, hv_redo = e # hv_redo h \<rparr>)"

definition view_redo :: "history_view \<Rightarrow> history_view option" where
  "view_redo h =
     (case hv_redo h of [] \<Rightarrow> None
      | e # es \<Rightarrow> Some \<lparr> hv_values = after e (hv_values h), hv_undo = e # hv_undo h, hv_redo = es \<rparr>)"

datatype view_change = Write "((int \<times> int) \<times> string) list" | Restyle format_patch "(int \<times> int) list"

definition cell_changes :: "(int \<times> int \<Rightarrow> string) \<Rightarrow> ((int \<times> int) \<times> string) list \<Rightarrow> cell_change list" where
  "cell_changes f ws =
     map (\<lambda>((r, c), v). \<lparr> ch_row = r, ch_col = c, ch_prevValue = f (r, c), ch_nextValue = v \<rparr>) (filter (\<lambda>(p, v). f p \<noteq> v) ws)"

definition style_changes :: "(int \<times> int \<Rightarrow> cell_format) \<Rightarrow> format_patch \<Rightarrow> (int \<times> int) list \<Rightarrow> format_change list" where
  "style_changes g patch ps =
     map (\<lambda>(r, c). \<lparr> fc_row = r, fc_col = c, fc_prev = g (r, c), fc_next = patched patch (g (r, c)) \<rparr>)
       (filter (\<lambda>p. patched patch (g p) \<noteq> g p) ps)"

fun entry_of :: "sheet_values \<Rightarrow> view_change \<Rightarrow> plain_entry" where
  "entry_of v (Write ws) = Cells (cell_changes (fst v) ws)"
| "entry_of v (Restyle patch ps) = Formats (style_changes (snd v) patch ps)"

fun places_of :: "view_change \<Rightarrow> (int \<times> int) list" where
  "places_of (Write ws) = map fst ws"
| "places_of (Restyle patch ps) = ps"

definition view_edit :: "view_change \<Rightarrow> history_view \<Rightarrow> history_view" where
  "view_edit e h =
     (let entry = entry_of (hv_values h) e
      in if \<not> distinct (places_of e) \<or> entry = Cells [] \<or> entry = Formats [] then h
         else \<lparr> hv_values = after entry (hv_values h), hv_undo = entry # hv_undo h, hv_redo = [] \<rparr>)"

text \<open>What the top of the undo stack says of the values, and the top of the redo stack.\<close>

fun entry_done :: "plain_entry \<Rightarrow> sheet_values \<Rightarrow> bool" where
  "entry_done (Cells changes) v \<longleftrightarrow>
     distinct (map same_place changes) \<and>
     list_all (\<lambda>c. fst v (same_place c) = js_trim (ch_nextValue c) \<and> js_trim (ch_prevValue c) = ch_prevValue c) changes"
| "entry_done (Formats ops) v \<longleftrightarrow>
     distinct (map format_place ops) \<and> list_all (\<lambda>f. snd v (format_place f) = fc_next f) ops"

fun entry_todo :: "plain_entry \<Rightarrow> sheet_values \<Rightarrow> bool" where
  "entry_todo (Cells changes) v \<longleftrightarrow>
     distinct (map same_place changes) \<and>
     list_all (\<lambda>c. fst v (same_place c) = ch_prevValue c \<and> js_trim (ch_prevValue c) = ch_prevValue c) changes"
| "entry_todo (Formats ops) v \<longleftrightarrow>
     distinct (map format_place ops) \<and> list_all (\<lambda>f. snd v (format_place f) = fc_prev f) ops"

fun undo_chain :: "sheet_values \<Rightarrow> plain_entry list \<Rightarrow> bool" where
  "undo_chain v [] \<longleftrightarrow> True"
| "undo_chain v (e # es) \<longleftrightarrow> entry_done e v \<and> undo_chain (before e v) es"

fun redo_chain :: "sheet_values \<Rightarrow> plain_entry list \<Rightarrow> bool" where
  "redo_chain v [] \<longleftrightarrow> True"
| "redo_chain v (e # es) \<longleftrightarrow> entry_todo e v \<and> redo_chain (after e v) es"

definition view_ok :: "history_view \<Rightarrow> bool" where
  "view_ok h \<longleftrightarrow>
     undo_chain (hv_values h) (hv_undo h) \<and> redo_chain (hv_values h) (hv_redo h) \<and>
     (\<forall>p. js_trim (fst (hv_values h) p) = fst (hv_values h) p)"

text \<open>The values after everything is undone.\<close>

definition loaded_values :: "history_view \<Rightarrow> sheet_values" where
  "loaded_values h = foldl (\<lambda>v e. before e v) (hv_values h) (hv_undo h)"

lemma write_formats_simps [simp]:
  "write_formats [] g = g"
  "write_formats (f # fs) g = write_formats fs (g(fst f := snd f))"
  by (simp_all add: write_formats_def)

lemma write_formats_other: "p \<notin> fst ` set fs \<Longrightarrow> write_formats fs g p = g p"
  by (induction fs arbitrary: g) auto

lemma write_formats_in: "distinct (map fst fs) \<Longrightarrow> (p, f) \<in> set fs \<Longrightarrow> write_formats fs g p = f"
  by (induction fs arbitrary: g) (auto simp: write_formats_other)

lemma write_raw_eq:
  assumes "distinct (map fst ws)" "\<And>p t. (p, t) \<in> set ws \<Longrightarrow> js_trim t = f' p" "\<And>p. p \<notin> fst ` set ws \<Longrightarrow> f p = f' p"
  shows "write_raw ws f = f'"
proof
  show "write_raw ws f p = f' p" for p
  proof (cases "p \<in> fst ` set ws")
    case True
    then obtain t where "(p, t) \<in> set ws" by auto
    with assms show ?thesis by (simp add: write_raw_in)
  qed (simp add: assms write_raw_other)
qed

lemma write_formats_eq:
  assumes "distinct (map fst fs)" "\<And>p t. (p, t) \<in> set fs \<Longrightarrow> t = g' p" "\<And>p. p \<notin> fst ` set fs \<Longrightarrow> g p = g' p"
  shows "write_formats fs g = g'"
proof
  show "write_formats fs g p = g' p" for p
  proof (cases "p \<in> fst ` set fs")
    case True
    then obtain t where "(p, t) \<in> set fs" by auto
    with assms show ?thesis by (simp add: write_formats_in)
  qed (simp add: assms write_formats_other)
qed

lemma keys_of_writes [simp]:
  "map fst (prev_writes changes) = map same_place changes"
  "map fst (next_writes changes) = map same_place changes"
  "map fst (prev_formats ops) = map format_place ops"
  "map fst (next_formats ops) = map format_place ops"
  by (simp_all add: prev_writes_def next_writes_def prev_formats_def next_formats_def)

lemma fst_writes [simp]:
  "fst ` set (prev_writes changes) = same_place ` set changes"
  "fst ` set (next_writes changes) = same_place ` set changes"
  "fst ` set (prev_formats ops) = format_place ` set ops"
  "fst ` set (next_formats ops) = format_place ` set ops"
  by (auto simp: prev_writes_def next_writes_def prev_formats_def next_formats_def image_image)

lemma writes_member [simp]:
  "(p, t) \<in> set (prev_writes changes) \<longleftrightarrow> (\<exists>c \<in> set changes. p = same_place c \<and> t = ch_prevValue c)"
  "(p, t) \<in> set (next_writes changes) \<longleftrightarrow> (\<exists>c \<in> set changes. p = same_place c \<and> t = ch_nextValue c)"
  "(p, f) \<in> set (prev_formats ops) \<longleftrightarrow> (\<exists>o' \<in> set ops. p = format_place o' \<and> f = fc_prev o')"
  "(p, f) \<in> set (next_formats ops) \<longleftrightarrow> (\<exists>o' \<in> set ops. p = format_place o' \<and> f = fc_next o')"
  by (auto simp: prev_writes_def next_writes_def prev_formats_def next_formats_def)

lemma after_before: "entry_done e v \<Longrightarrow> after e (before e v) = v"
proof (induction e v rule: entry_done.induct)
  case (1 changes v)
  then have "write_raw (next_writes changes) (write_raw (prev_writes changes) (fst v)) = fst v"
    by (intro write_raw_eq) (auto simp: write_raw_other list_all_iff)
  then show ?case by simp
next
  case (2 ops v)
  then have "write_formats (next_formats ops) (write_formats (prev_formats ops) (snd v)) = snd v"
    by (intro write_formats_eq) (auto simp: write_formats_other list_all_iff)
  then show ?case by simp
qed

lemma before_after: "entry_todo e v \<Longrightarrow> before e (after e v) = v"
proof (induction e v rule: entry_todo.induct)
  case (1 changes v)
  then have "write_raw (prev_writes changes) (write_raw (next_writes changes) (fst v)) = fst v"
    by (intro write_raw_eq) (auto simp: write_raw_other list_all_iff)
  then show ?case by simp
next
  case (2 ops v)
  then have "write_formats (prev_formats ops) (write_formats (next_formats ops) (snd v)) = snd v"
    by (intro write_formats_eq) (auto simp: write_formats_other list_all_iff)
  then show ?case by simp
qed

lemma todo_before: "entry_done e v \<Longrightarrow> entry_todo e (before e v)"
proof (induction e v rule: entry_done.induct)
  case (1 changes v)
  then show ?case by (auto simp: list_all_iff intro!: write_raw_in [of _ _ "ch_prevValue c" for c, THEN trans])
next
  case (2 ops v)
  then show ?case by (auto simp: list_all_iff intro!: write_formats_in)
qed

lemma done_after: "entry_todo e v \<Longrightarrow> entry_done e (after e v)"
  by (induction e v rule: entry_todo.induct)
    (auto simp: list_all_iff intro!: write_raw_in write_formats_in)

definition trimmed_values :: "sheet_values \<Rightarrow> bool" where
  "trimmed_values v \<longleftrightarrow> (\<forall>p. js_trim (fst v p) = fst v p)"

lemma trimmed_write: "\<forall>p. js_trim (f p) = f p \<Longrightarrow> js_trim (write_raw ws f p) = write_raw ws f p"
  by (induction ws arbitrary: f) (simp_all del: split_paired_All)

lemma trimmed_steps [simp]: "trimmed_values v \<Longrightarrow> trimmed_values (before e v)" "trimmed_values v \<Longrightarrow> trimmed_values (after e v)"
  unfolding trimmed_values_def by (cases e; simp add: trimmed_write)+

lemma view_ok_alt:
  "view_ok h \<longleftrightarrow> undo_chain (hv_values h) (hv_undo h) \<and> redo_chain (hv_values h) (hv_redo h) \<and> trimmed_values (hv_values h)"
  by (simp add: view_ok_def trimmed_values_def)

lemma view_undo_Some:
  "view_undo h = Some h' \<longleftrightarrow>
   (\<exists>e es. hv_undo h = e # es \<and> h' = \<lparr> hv_values = before e (hv_values h), hv_undo = es, hv_redo = e # hv_redo h \<rparr>)"
  by (auto simp: view_undo_def split: list.splits)

lemma view_redo_Some:
  "view_redo h = Some h' \<longleftrightarrow>
   (\<exists>e es. hv_redo h = e # es \<and> h' = \<lparr> hv_values = after e (hv_values h), hv_undo = e # hv_undo h, hv_redo = es \<rparr>)"
  by (auto simp: view_redo_def split: list.splits)

lemma distinct_filtered: "distinct (map f xs) \<Longrightarrow> distinct (map f (filter P xs))"
  by (induction xs) auto

lemma todo_entry:
  assumes "distinct (places_of e)" "trimmed_values v"
  shows "entry_todo (entry_of v e) v"
proof (cases e)
  case (Write ws)
  have "map same_place (cell_changes (fst v) ws) = map fst (filter (\<lambda>(p, t). fst v p \<noteq> t) ws)"
    by (simp add: cell_changes_def same_place_def comp_def split_def)
  then have "distinct (map same_place (cell_changes (fst v) ws))" using assms Write by (simp add: distinct_filtered)
  moreover have "list_all (\<lambda>c. fst v (same_place c) = ch_prevValue c \<and> js_trim (ch_prevValue c) = ch_prevValue c)
    (cell_changes (fst v) ws)"
    using assms(2) by (auto simp: cell_changes_def list_all_iff same_place_def trimmed_values_def)
  ultimately show ?thesis using Write by simp
next
  case (Restyle patch ps)
  have "map format_place (style_changes (snd v) patch ps) = filter (\<lambda>p. patched patch (snd v p) \<noteq> snd v p) ps"
    by (simp add: style_changes_def format_place_def comp_def split_def)
  then have "distinct (map format_place (style_changes (snd v) patch ps))" using assms Restyle by simp
  moreover have "list_all (\<lambda>f. snd v (format_place f) = fc_prev f) (style_changes (snd v) patch ps)"
    by (auto simp: style_changes_def list_all_iff format_place_def)
  ultimately show ?thesis using Restyle by simp
qed

lemma view_edit_ok: "view_ok h \<Longrightarrow> view_ok (view_edit e h)"
  by (auto simp: view_ok_alt view_edit_def Let_def done_after before_after todo_entry)

interpretation grid_undo: undo_history view_ok view_undo view_redo view_edit
proof
  show "view_ok h'" if "view_ok h" "view_undo h = Some h'" for h h'
    using that by (auto simp: view_ok_alt view_undo_Some todo_before after_before)
  show "view_ok h'" if "view_ok h" "view_redo h = Some h'" for h h'
    using that by (auto simp: view_ok_alt view_redo_Some done_after before_after)
  show "view_redo h' = Some h" if "view_ok h" "view_undo h = Some h'" for h h'
    using that by (auto simp: view_ok_alt view_undo_Some view_redo_Some after_before)
  show "view_undo h' = Some h" if "view_ok h" "view_redo h = Some h'" for h h'
    using that by (auto simp: view_ok_alt view_undo_Some view_redo_Some before_after)
qed (rule view_edit_ok)

lemma base_undo: "view_undo h = Some h' \<Longrightarrow> loaded_values h' = loaded_values h"
  by (auto simp: view_undo_Some loaded_values_def)

lemma base_redo: "view_ok h \<Longrightarrow> view_redo h = Some h' \<Longrightarrow> loaded_values h' = loaded_values h"
  by (auto simp: view_ok_alt view_redo_Some loaded_values_def before_after)

lemma base_edit: "view_ok h \<Longrightarrow> loaded_values (view_edit e h) = loaded_values h"
  by (auto simp: view_ok_alt view_edit_def loaded_values_def Let_def before_after todo_entry)

lemma undo_everything:
  "\<exists>h'. repeat_opt view_undo (length (hv_undo h)) h = Some h' \<and> hv_values h' = loaded_values h"
proof (induction "length (hv_undo h)" arbitrary: h)
  case 0
  then show ?case by (simp add: loaded_values_def)
next
  case (Suc n)
  then obtain e es where es: "hv_undo h = e # es" by (cases "hv_undo h") auto
  let ?h = "\<lparr> hv_values = before e (hv_values h), hv_undo = es, hv_redo = e # hv_redo h \<rparr>"
  have u: "view_undo h = Some ?h" using es by (simp add: view_undo_Some)
  have "n = length (hv_undo ?h)" using Suc(2) es by simp
  from Suc(1) [OF this] u es show ?case by (simp add: base_undo)
qed

lemma undo_defined: "n \<le> length (hv_undo h) \<Longrightarrow> repeat_opt view_undo n h \<noteq> None"
proof (induction n arbitrary: h)
  case (Suc n)
  then obtain e es where es: "hv_undo h = e # es" by (cases "hv_undo h") auto
  let ?h = "\<lparr> hv_values = before e (hv_values h), hv_undo = es, hv_redo = e # hv_redo h \<rparr>"
  have u: "view_undo h = Some ?h" using es by (simp add: view_undo_Some)
  have "n \<le> length (hv_undo ?h)" using Suc.prems es by simp
  from Suc.IH [OF this] u show ?case by simp
qed simp

section \<open>The grid keeps the contract\<close>

fun plain_undo :: "undo_entry \<Rightarrow> plain_entry option" where
  "plain_undo (Cell_Undo changes) = Some (Cells changes)"
| "plain_undo (Format_Undo ops) = Some (Formats ops)"
| "plain_undo _ = None"

fun plain_redo :: "redo_entry \<Rightarrow> plain_entry option" where
  "plain_redo (Cell_Redo changes) = Some (Cells changes)"
| "plain_redo (Format_Redo ops) = Some (Formats ops)"
| "plain_redo _ = None"

definition plain_history :: "grid \<Rightarrow> bool" where
  "plain_history s \<longleftrightarrow>
     list_all (\<lambda>e. plain_undo e \<noteq> None) (gr_undoStack s) \<and> list_all (\<lambda>e. plain_redo e \<noteq> None) (gr_redoStack s)"

definition values_of :: "grid \<Rightarrow> sheet_values" where
  "values_of s = (raw_of s, getCellFormat s)"

definition history_of :: "grid \<Rightarrow> history_view" where
  "history_of s =
     \<lparr> hv_values = values_of s, hv_undo = map (the \<circ> plain_undo) (rev (gr_undoStack s)),
       hv_redo = map (the \<circ> plain_redo) (rev (gr_redoStack s)) \<rparr>"

definition undo_key :: "grid \<Rightarrow> grid" where
  "undo_key s = fst (handleUnifiedUndo s)"

definition redo_key :: "grid \<Rightarrow> grid" where
  "redo_key s = fst (handleUnifiedRedo s)"

lemma format_of_set [simp]: "getCellFormat (set_formats fs s) = write_formats fs (getCellFormat s)"
proof (induction fs arbitrary: s)
  case Nil
  show ?case by (simp add: set_formats_def getCellFormat_def fun_eq_iff)
next
  case (Cons f fs)
  let ?s = "s\<lparr> gr_cellFormats := jmap_set (fst f) (snd f) (gr_cellFormats s) \<rparr>"
  have "set_formats (f # fs) s = set_formats fs ?s" by (simp add: set_formats_def)
  moreover have "getCellFormat ?s = (getCellFormat s)(fst f := snd f)"
    by (auto simp: getCellFormat_def fun_eq_iff jmap_get_set)
  ultimately show ?case by (simp only: Cons write_formats_simps)
qed

lemma set_formats_fields [simp]:
  "gr_undoStack (set_formats fs s) = gr_undoStack s" "gr_redoStack (set_formats fs s) = gr_redoStack s"
  "raw_of (set_formats fs s) = raw_of s"
  by (simp_all add: set_formats_def raw_of_def getCellRawInput_def fun_eq_iff)

lemma format_of_cong: "gr_cellFormats s = gr_cellFormats s' \<Longrightarrow> getCellFormat s = getCellFormat s'"
  by (simp add: getCellFormat_def fun_eq_iff)

lemma format_of_write [simp]: "getCellFormat (write_cells ws s) = getCellFormat s"
  by (rule format_of_cong) simp

lemma stacks_leave_values [simp]:
  "values_of (s\<lparr> gr_undoStack := us, gr_redoStack := rs \<rparr>) = values_of s"
  "values_of (s\<lparr> gr_undoStack := us \<rparr>) = values_of s"
  "values_of (s\<lparr> gr_redoStack := rs \<rparr>) = values_of s"
  by (simp_all add: values_of_def raw_of_def getCellRawInput_def getCellFormat_def fun_eq_iff)

lemma values_of_write [simp]: "values_of (write_cells ws s) = (write_raw ws (fst (values_of s)), snd (values_of s))"
  by (simp add: values_of_def raw_of_write)

lemma values_of_set_formats [simp]:
  "values_of (set_formats fs s) = (fst (values_of s), write_formats fs (snd (values_of s)))"
  by (simp add: values_of_def)

lemma history_eq:
  assumes "values_of s = v" "gr_undoStack s = us" "gr_redoStack s = rs"
  shows "history_of s = \<lparr> hv_values = v, hv_undo = map (the \<circ> plain_undo) (rev us), hv_redo = map (the \<circ> plain_redo) (rev rs) \<rparr>"
  using assms by (simp add: history_of_def)

lemma hv_values_history [simp]: "hv_values (history_of s) = values_of s"
  by (simp add: history_of_def)

lemma undo_simulates:
  assumes "plain_history s" "view_undo (history_of s) = Some h"
  shows "history_of (undo_key s) = h \<and> plain_history (undo_key s)"
proof -
  from assms(2) have "gr_undoStack s \<noteq> []" by (auto simp: view_undo_Some history_of_def)
  then obtain us u where us: "gr_undoStack s = us @ [u]" by (cases "gr_undoStack s" rule: rev_cases) auto
  with assms show ?thesis
    by (cases u) (auto simp: undo_key_def handleUnifiedUndo_def Let_def plain_history_def view_undo_Some history_of_def)
qed

lemma redo_simulates:
  assumes "plain_history s" "view_redo (history_of s) = Some h"
  shows "history_of (redo_key s) = h \<and> plain_history (redo_key s)"
proof -
  from assms(2) have "gr_redoStack s \<noteq> []" by (auto simp: view_redo_Some history_of_def)
  then obtain rs r where rs: "gr_redoStack s = rs @ [r]" by (cases "gr_redoStack s" rule: rev_cases) auto
  with assms show ?thesis
    by (cases r) (auto simp: redo_key_def handleUnifiedRedo_def Let_def plain_history_def view_redo_Some history_of_def)
qed

lemma undo_nothing: "view_undo (history_of s) = None \<Longrightarrow> undo_key s = s"
  by (auto simp: view_undo_def history_of_def undo_key_def handleUnifiedUndo_def split: list.splits)

lemma redo_nothing: "view_redo (history_of s) = None \<Longrightarrow> redo_key s = s"
  by (auto simp: view_redo_def history_of_def redo_key_def handleUnifiedRedo_def split: list.splits)

lemma repeat_simulates:
  assumes "\<And>s h. plain_history s \<Longrightarrow> step (history_of s) = Some h \<Longrightarrow> history_of (f s) = h \<and> plain_history (f s)"
  shows "plain_history s \<Longrightarrow> repeat_opt step n (history_of s) = Some h \<Longrightarrow>
    history_of ((f ^^ n) s) = h \<and> plain_history ((f ^^ n) s)"
proof (induction n arbitrary: h)
  case (Suc n)
  from Suc.prems(2) obtain h1 where h1: "repeat_opt step n (history_of s) = Some h1" "step h1 = Some h"
    unfolding repeat_opt_snoc by (auto split: option.splits)
  with Suc.IH Suc.prems(1) have "history_of ((f ^^ n) s) = h1" "plain_history ((f ^^ n) s)" by auto
  with assms h1(2) show ?case by simp
qed simp

text \<open>A change as the page makes it: the texts are written, and what differs goes into the history.\<close>

lemma changes_of_values: "changes_of s ws = cell_changes (fst (values_of s)) ws"
  by (simp add: changes_of_def cell_changes_def values_of_def raw_of_def split_def)

lemma write_changed:
  assumes "distinct (map fst ws)" "trimmed_values (f, g)"
  shows "write_raw (next_writes (cell_changes f ws)) f = write_raw ws f"
proof (rule sym, rule write_raw_eq [OF assms(1)])
  let ?ns = "next_writes (cell_changes f ws)"
  have ns: "?ns = filter (\<lambda>(p, t). f p \<noteq> t) ws"
    by (induction ws) (auto simp: next_writes_def cell_changes_def same_place_def)
  with assms(1) have dist: "distinct (map fst ?ns)" by (simp add: distinct_filtered)
  show "js_trim t = write_raw ?ns f p" if "(p, t) \<in> set ws" for p t
  proof (cases "f p = t")
    case True
    have "(p, u) \<in> set ws \<Longrightarrow> u = t" for u using that assms(1) by (metis eq_key_imp_eq_value)
    with True have "p \<notin> fst ` set ?ns" by (auto simp: ns)
    then have "write_raw ?ns f p = f p" by (rule write_raw_other)
    moreover have "js_trim (f p) = f p" using assms(2) by (simp add: trimmed_values_def del: split_paired_All)
    ultimately show ?thesis using True by simp
  next
    case False
    with that have "(p, t) \<in> set ?ns" by (simp add: ns)
    from write_raw_in [OF dist this] show ?thesis by simp
  qed
  show "f p = write_raw ?ns f p" if "p \<notin> fst ` set ws" for p
    using that by (subst write_raw_other) (auto simp: ns)
qed

lemma edit_simulates:
  assumes "distinct (map fst ws)" "trimmed_values (values_of s)" "plain_history s"
    and "values_of s' = (write_raw ws (fst (values_of s)), snd (values_of s))"
    and "gr_undoStack s' = (if changes_of s ws = [] then gr_undoStack s else gr_undoStack s @ [Cell_Undo (changes_of s ws)])"
    and "gr_redoStack s' = (if changes_of s ws = [] then gr_redoStack s else [])"
  shows "history_of s' = view_edit (Write ws) (history_of s) \<and> plain_history s'"
proof -
  obtain f g where v: "values_of s = (f, g)" by fastforce
  note w = write_changed [OF assms(1), of f g]
  show ?thesis
  proof (cases "changes_of s ws = []")
    case True
    with v have "cell_changes f ws = []" by (simp add: changes_of_values)
    with w assms v have "values_of s' = values_of s" by (simp add: next_writes_def)
    with assms True v \<open>cell_changes f ws = []\<close> show ?thesis
      by (simp add: view_edit_def history_of_def plain_history_def)
  next
    case False
    with v have "cell_changes f ws \<noteq> []" by (simp add: changes_of_values)
    with w assms v False show ?thesis
      by (simp add: view_edit_def history_of_def plain_history_def changes_of_values Let_def)
  qed
qed

datatype grid_event =
  Commit_Edit string
| Cancel_Edit
| Start_Edit int int
| Select_Cells "(int \<times> int) option" "(int \<times> int) option" "(int \<times> int) option"
| Clear_Key
| Paste_Text string
| Style_Selection format_patch
| Undo_Key
| Redo_Key

fun grid_perform :: "grid_event \<Rightarrow> grid \<Rightarrow> grid" where
  "grid_perform (Commit_Edit t) s = handleCommitEdit t s"
| "grid_perform Cancel_Edit s = s\<lparr> gr_editingCell := None \<rparr>"
| "grid_perform (Start_Edit r c) s = s\<lparr> gr_editingCell := Some (r, c) \<rparr>"
| "grid_perform (Select_Cells active anchor focus) s =
     s\<lparr> gr_activeCell := active, gr_anchorCell := anchor, gr_focusCell := focus \<rparr>"
| "grid_perform Clear_Key s = clear_selection s"
| "grid_perform (Paste_Text t) s = handlePaste t s"
| "grid_perform (Style_Selection patch) s = fst (applyFormatToSelection patch s)"
| "grid_perform Undo_Key s = undo_key s"
| "grid_perform Redo_Key s = redo_key s"

text \<open>A paste has to fit into the grid; nothing else is asked of what the user does.\<close>

fun grid_guard :: "grid \<Rightarrow> grid_event \<Rightarrow> bool" where
  "grid_guard s (Paste_Text t) \<longleftrightarrow> list_all (writable s \<circ> fst) (paste_cells (parseTSV t) s)"
| "grid_guard s _ \<longleftrightarrow> True"

definition sheet_inv :: "sheet_values \<Rightarrow> grid \<Rightarrow> bool" where
  "sheet_inv v s \<longleftrightarrow> plain_history s \<and> view_ok (history_of s) \<and> loaded_values (history_of s) = v"

lemma sheet_inv_cong:
  assumes "sheet_inv v s" "values_of s' = values_of s" "gr_undoStack s' = gr_undoStack s" "gr_redoStack s' = gr_redoStack s"
  shows "sheet_inv v s'"
  using assms by (simp add: sheet_inv_def plain_history_def history_of_def)

lemma sheet_inv_edit:
  assumes "sheet_inv v s" "history_of s' = view_edit e (history_of s) \<and> plain_history s'"
  shows "sheet_inv v s'"
  using assms by (simp add: sheet_inv_def view_edit_ok base_edit)

lemma sheet_inv_trimmed: "sheet_inv v s \<Longrightarrow> trimmed_values (values_of s)"
  by (simp add: sheet_inv_def view_ok_alt history_of_def)

lemma sheet_inv_write:
  assumes "sheet_inv v s" "distinct (map fst ws)"
    and "values_of s' = (write_raw ws (fst (values_of s)), snd (values_of s))"
    and "gr_undoStack s' = (if changes_of s ws = [] then gr_undoStack s else gr_undoStack s @ [Cell_Undo (changes_of s ws)])"
    and "gr_redoStack s' = (if changes_of s ws = [] then gr_redoStack s else [])"
  shows "sheet_inv v s'"
  using edit_simulates [OF assms(2) sheet_inv_trimmed [OF assms(1)] _ assms(3-5)] assms(1)
  by (intro sheet_inv_edit [OF assms(1)]) (simp_all add: sheet_inv_def)

lemma push_history_fields [simp]:
  "gr_undoStack (pushHistoryEntry cs s) = (if cs = [] then gr_undoStack s else gr_undoStack s @ [Cell_Undo cs])"
  "gr_redoStack (pushHistoryEntry cs s) = (if cs = [] then gr_redoStack s else [])"
  "values_of (pushHistoryEntry cs s) = values_of s"
  by (simp_all add: pushHistoryEntry_def)

lemma selection_leaves_values [simp]:
  "values_of (s\<lparr> gr_editingCell := e \<rparr>) = values_of s"
  "values_of (s\<lparr> gr_activeCell := p, gr_anchorCell := q, gr_focusCell := r \<rparr>) = values_of s"
  by (simp_all add: values_of_def raw_of_def getCellRawInput_def getCellFormat_def fun_eq_iff)

lemma one_write: "setCellValue r c t s = write_cells [((r, c), t)] s"
  by simp

lemma inv_commit: "sheet_inv v s \<Longrightarrow> sheet_inv v (handleCommitEdit t s)"
proof -
  assume inv: "sheet_inv v s"
  show ?thesis
  proof (cases "gr_editingCell s")
    case None
    with inv show ?thesis by (simp add: handleCommitEdit_def)
  next
    case (Some p)
    obtain r c where p: "p = (r, c)" by fastforce
    show ?thesis
    proof (cases "gr_pendingCanonicalRefresh s \<or> gr_canonicalRefreshInFlight s > 0")
      case True
      with Some p inv show ?thesis by (intro sheet_inv_cong [OF inv]) (simp_all add: handleCommitEdit_def)
    next
      case False
      with Some p show ?thesis
        by (intro sheet_inv_write [OF inv, of "[((r, c), t)]"])
          (simp_all add: handleCommitEdit_def Let_def one_write del: write_cells_simps)
    qed
  qed
qed

lemma changes_of_changed:
  assumes "distinct (map fst ws)"
  shows "changes_of s (next_writes (changes_of s ws)) = changes_of s ws"
proof -
  have "next_writes (changes_of s ws) = filter (\<lambda>((r, c), t). getCellRawInput s r c \<noteq> t) ws"
    by (induction ws) (auto simp: next_writes_def changes_of_def same_place_def)
  then show ?thesis by (simp add: changes_of_def)
qed

lemma next_writes_changes: "next_writes (changes_of s ws) = filter (\<lambda>((r, c), t). getCellRawInput s r c \<noteq> t) ws"
  by (induction ws) (auto simp: next_writes_def changes_of_def same_place_def)

lemma inv_cleared: "sheet_inv v s \<Longrightarrow> sheet_inv v (clear_selection s)"
proof -
  assume inv: "sheet_inv v s"
  show ?thesis
  proof (cases "if isEditing s then None else getEffectiveSelectionRange s")
    case None
    with inv show ?thesis unfolding clear_selection_def by simp
  next
    case (Some a)
    let ?ws = "next_writes (cleared_cells s a)"
    have ch: "changes_of s ?ws = cleared_cells s a"
      by (simp add: cleared_cells_def changes_of_changed comp_def distinct_range_cells)
    have "distinct (map fst ?ws)"
      by (simp add: cleared_cells_def next_writes_changes distinct_filtered comp_def distinct_range_cells del: keys_of_writes)
    then show ?thesis
      unfolding clear_selection_def Some option.case Let_def
      by (rule sheet_inv_write [OF inv]) (simp_all only: ch push_history_fields values_of_write write_fields)
  qed
qed

lemma distinct_pasted_row: "distinct (map (\<lambda>(j, t). (r :: int, c0 + int j)) (enumerate 0 row))"
proof -
  have "map (\<lambda>(j, t). (r, c0 + int j)) (enumerate 0 row) = map (\<lambda>j. (r, c0 + int j)) (map fst (enumerate 0 row))"
    by (simp add: comp_def split_def del: map_fst_enumerate)
  also have "distinct \<dots>" by (simp add: distinct_map inj_on_def)
  finally show ?thesis .
qed

lemma distinct_pasted_rows:
  "distinct (concat (map (\<lambda>(i, row). map (\<lambda>(j, t). (r0 + int i, c0 + int j)) (enumerate 0 row)) (enumerate n matrix)))"
  by (induction matrix arbitrary: n) (auto simp: distinct_pasted_row dest!: in_set_enumerate_eq [THEN iffD1])

lemma distinct_pasted: "distinct (map fst (pasted_cells r0 c0 matrix))"
proof -
  have "map fst (pasted_cells r0 c0 matrix) =
    concat (map (\<lambda>(i, row). map (\<lambda>(j, t). (r0 + int i, c0 + int j)) (enumerate 0 row)) (enumerate 0 matrix))"
    by (simp add: pasted_cells_def map_concat comp_def split_def)
  then show ?thesis by (simp only: distinct_pasted_rows)
qed

lemma inv_paste:
  assumes inv: "sheet_inv v s" and fits: "list_all (writable s \<circ> fst) (paste_cells (parseTSV t) s)"
  shows "sheet_inv v (handlePaste t s)"
proof (cases "isEditing s \<or> t = [] \<or> parseTSV t = []")
  case True
  with inv show ?thesis unfolding handlePaste_def by simp
next
  case False
  let ?ws = "paste_cells (parseTSV t) s"
  have f: "filter (writable s \<circ> fst) ?ws = ?ws" using fits by (simp add: filter_id_conv list_all_iff)
  have "handlePaste t s = pushHistoryEntry (changes_of s ?ws) (write_cells ?ws s)"
    using False f by (simp add: handlePaste_def Let_def)
  then show ?thesis
    by (intro sheet_inv_write [OF inv, of ?ws]) (simp_all add: paste_cells_def distinct_pasted)
qed

lemma inv_style: "sheet_inv v s \<Longrightarrow> sheet_inv v (fst (applyFormatToSelection patch s))"
proof -
  assume inv: "sheet_inv v s"
  show ?thesis
  proof (cases "getEffectiveSelectionRange s")
    case None
    with inv show ?thesis by (simp add: applyFormatToSelection_def)
  next
    case (Some a)
    let ?ops = "format_changes s patch a"
    have ops: "?ops = style_changes (snd (values_of s)) patch (range_cells a)"
      by (simp add: format_changes_def style_changes_def values_of_def)
    show ?thesis
    proof (cases "?ops = []")
      case True
      with Some inv show ?thesis by (simp add: applyFormatToSelection_def)
    next
      case False
      with Some ops inv show ?thesis
        by (intro sheet_inv_edit [OF inv, of _ "Restyle patch (range_cells a)"])
          (simp add: applyFormatToSelection_def Let_def view_edit_def history_of_def plain_history_def sheet_inv_def
            distinct_range_cells)
    qed
  qed
qed

lemma inv_undo: "sheet_inv v s \<Longrightarrow> sheet_inv v (undo_key s)"
proof (cases "view_undo (history_of s)")
  case (Some h)
  assume inv: "sheet_inv v s"
  with Some have "history_of (undo_key s) = h \<and> plain_history (undo_key s)"
    by (intro undo_simulates) (simp_all add: sheet_inv_def)
  with inv Some show ?thesis by (auto simp: sheet_inv_def base_undo intro: grid_undo.undo_ok)
qed (simp add: undo_nothing)

lemma inv_redo: "sheet_inv v s \<Longrightarrow> sheet_inv v (redo_key s)"
proof (cases "view_redo (history_of s)")
  case (Some h)
  assume inv: "sheet_inv v s"
  with Some have "history_of (redo_key s) = h \<and> plain_history (redo_key s)"
    by (intro redo_simulates) (simp_all add: sheet_inv_def)
  with inv Some show ?thesis by (auto simp: sheet_inv_def base_redo intro: grid_undo.redo_ok)
qed (simp add: redo_nothing)

lemma sheet_inv_selection [simp]:
  "sheet_inv v (s\<lparr> gr_editingCell := e \<rparr>) = sheet_inv v s"
  "sheet_inv v (s\<lparr> gr_activeCell := p, gr_anchorCell := q, gr_focusCell := r \<rparr>) = sheet_inv v s"
  by (simp_all add: sheet_inv_def plain_history_def history_of_def)

interpretation grid_run: event_system grid_guard grid_perform "sheet_inv v" for v
proof
  show "sheet_inv v (grid_perform e s)" if "sheet_inv v s" "grid_guard s e" for s e
    using that
    by (cases e) (auto intro: inv_commit inv_cleared inv_paste inv_style inv_undo inv_redo)
qed

text \<open>A sheet as it was loaded: nothing to undo or redo, and no raw input with outer blanks.\<close>

definition loaded_sheet :: "grid \<Rightarrow> bool" where
  "loaded_sheet s \<longleftrightarrow>
     gr_undoStack s = [] \<and> gr_redoStack s = [] \<and> list_all (\<lambda>(p, c). js_trim (rawInput c) = rawInput c) (gr_cells s)"

lemma loaded_inv: "loaded_sheet s \<Longrightarrow> sheet_inv (values_of s) s"
proof -
  assume l: "loaded_sheet s"
  have "js_trim (raw_of s p) = raw_of s p" for p
  proof (cases "jmap_get (gr_cells s) p")
    case (Some c)
    then have "(p, c) \<in> set (gr_cells s)" by (auto simp: jmap_get_def dest: map_of_SomeD)
    with l Some show ?thesis
      by (auto simp: loaded_sheet_def list_all_iff raw_of_def getCellRawInput_def getCellKey_def)
  qed (simp add: raw_of_def getCellRawInput_def getCellKey_def)
  with l show ?thesis
    by (simp add: sheet_inv_def plain_history_def view_ok_alt history_of_def loaded_values_def loaded_sheet_def values_of_def
        trimmed_values_def del: split_paired_All)
qed



text \<open>A history: an edit, a format and a paste, all undone but the first.\<close>

definition sample_events :: "grid_event list" where
  "sample_events =
     [Start_Edit 0 0, Commit_Edit '' b '', Style_Selection
        \<lparr> fp_bold = Some True, fp_italic = None, fp_strikethrough = None, fp_textColor = None, fp_fontFamily = None,
          fp_fontSize = None, fp_numberFormat = None \<rparr>,
      Paste_Text ''x'', Undo_Key, Undo_Key, Redo_Key]"

definition sample_history :: grid where
  "sample_history = the (guarded_run grid_guard grid_perform sample_events sample_sheet)"

lemma sample_reaches: "loaded_sheet sample_sheet" "reaches grid_guard grid_perform sample_sheet sample_history"
proof -
  show "loaded_sheet sample_sheet" by code_simp
  have "guarded_run grid_guard grid_perform sample_events sample_sheet \<noteq> None" by code_simp
  then show "reaches grid_guard grid_perform sample_sheet sample_history"
    by (auto simp: sample_history_def intro: guarded_run_reaches)
qed



section \<open>What the history does not keep\<close>

lemma color_at_set: "color_at (set_color t color s) t' = (if t' = t then color else color_at s t')"
  by (cases t; cases t'; cases color)
    (auto simp: put_color_def jmap_get_set jmap_get_delete getCellKey_def)

lemma color_at_enqueue [simp]: "color_at (enqueueHighlightOps ops s) t = color_at s t"
  by (cases t) (simp_all add: enqueueHighlightOps_def)

lemma color_at_paint: "color_at (paint ts s) t = (case map_of (rev ts) t of Some color \<Rightarrow> color | None \<Rightarrow> color_at s t)"
  by (induction ts rule: rev_induct) (auto simp: paint_def color_at_set split: option.split)

lemma color_at_stacks [simp]:
  "color_at (s\<lparr> gr_undoStack := us \<rparr>) t = color_at s t" "color_at (s\<lparr> gr_redoStack := rs \<rparr>) t = color_at s t"
  "color_at (s\<lparr> gr_undoStack := us, gr_redoStack := rs \<rparr>) t = color_at s t"
  by (cases t; simp)+

lemma set_color_stacks [simp]:
  "gr_undoStack (set_color t color s) = gr_undoStack s" "gr_redoStack (set_color t color s) = gr_redoStack s"
  by (cases t; simp)+

lemma paint_stacks [simp]: "gr_undoStack (paint ts s) = gr_undoStack s" "gr_redoStack (paint ts s) = gr_redoStack s"
  by (induction ts rule: rev_induct) (auto simp: paint_def enqueueHighlightOps_def)

text \<open>Undoing a highlight gives every target its colour back, and redo takes that back.\<close>

lemma highlight_undone:
  assumes "gr_undoStack s = us @ [Color_Undo ops]" "distinct (map cl_target ops)" "c \<in> set ops"
  shows "color_at (undo_key s) (cl_target c) = cc_prevColor c \<and>
    color_at (redo_key (undo_key s)) (cl_target c) = color_at s (cl_target c)"
proof -
  have d: "distinct (map fst (rev (map (\<lambda>c. (cl_target c, g c)) ops)))" for g :: "color_change \<Rightarrow> string option"
    using assms(2) by (simp add: comp_def rev_map [symmetric])
  have m: "map_of (rev (map (\<lambda>c. (cl_target c, g c)) ops)) (cl_target c) = Some (g c)" for g :: "color_change \<Rightarrow> string option"
    using assms(3) by (intro map_of_is_SomeI d) auto
  show ?thesis
    using assms(1) m [of cc_prevColor] m [of "\<lambda>c. color_at s (cl_target c)"]
    by (simp add: undo_key_def redo_key_def handleUnifiedUndo_def handleUnifiedRedo_def Let_def applyUndoColor_def
        applyRedoColor_def color_at_paint comp_def)
qed

text \<open>C16: A highlight that was redone cannot be undone any more: redo records the new colours as the previous ones, so the
  next undo leaves every colour of the sheet as it is.
\<close>

theorem redone_highlight_is_not_undone:
  assumes "gr_redoStack s = rs @ [Color_Redo ops]"
  shows "color_at (undo_key (redo_key s)) target = color_at (redo_key s) target"
  using assms
  by (auto simp: undo_key_def redo_key_def handleUnifiedUndo_def handleUnifiedRedo_def Let_def applyUndoColor_def
      applyRedoColor_def color_at_paint comp_def split: option.split)

definition sample_highlight :: grid where
  "sample_highlight = undo_key (applyHighlightToSelection (Some ''blue'') (grid_perform (Select_Cells (Some (0, 0)) None None) sample_sheet))"

theorem redone_highlight_is_not_undone_witness:
  "color_at sample_highlight (Cell_Target 0 0) = Some ''red'' \<and>
   color_at (undo_key (redo_key sample_highlight)) (Cell_Target 0 0) = Some ''blue''"
proof -
  have r: "gr_redoStack sample_highlight =
      [] @ [Color_Redo [\<lparr> cl_target = Cell_Target 0 0, cc_prevColor = Some ''red'', cc_nextColor = Some ''blue'' \<rparr>]]"
    by code_simp
  have "color_at sample_highlight (Cell_Target 0 0) = Some ''red''" by code_simp
  moreover have "color_at (redo_key sample_highlight) (Cell_Target 0 0) = Some ''blue''" by code_simp
  ultimately show ?thesis unfolding redone_highlight_is_not_undone [OF r] by blast
qed

text \<open>When saving a format fails, the last entry of the history goes, which need not be that of the format: of an edit made
  while the format was being saved, the text stays and the entry is gone, and the entry of the format that was
  taken back stays.
\<close>

lemma failed_format_drops_later_edit:
  assumes "applyFormatToSelection patch s = (s1, Some (Batch_Formats ops fs))"
    and "\<not> gr_pendingCanonicalRefresh s" "gr_canonicalRefreshInFlight s = 0" "getCellRawInput s r c \<noteq> t"
  shows "let s2 = format_failed ops (handleCommitEdit t (grid_perform (Start_Edit r c) s1))
         in gr_undoStack s2 = gr_undoStack s @ [Format_Undo ops] \<and> getCellRawInput s2 r c = js_trim t \<and>
            fst (values_of (undo_key s2)) = fst (values_of s2)"
proof -
  from assms(1) have s1: "s1 = (set_formats (next_formats ops) s)\<lparr> gr_undoStack := gr_undoStack s @ [Format_Undo ops], gr_redoStack := [] \<rparr>"
    by (auto simp: applyFormatToSelection_def Let_def split: option.splits if_splits)
  let ?s = "s1\<lparr> gr_editingCell := Some (r, c) \<rparr>"
  have raw: "raw_of ?s = raw_of s"
    using s1 by (simp add: raw_of_def getCellRawInput_def set_formats_def fun_eq_iff)
  then have ne: "changes_of ?s [((r, c), t)] \<noteq> []" using assms(4) by (simp add: changes_of_def raw_of_def fun_eq_iff)
  let ?e = "handleCommitEdit t ?s"
  have e: "?e = (write_cells [((r, c), t)] (pushHistoryEntry (changes_of ?s [((r, c), t)]) ?s))\<lparr> gr_editingCell := None \<rparr>"
    using s1 assms(2,3) by (simp add: handleCommitEdit_def Let_def set_formats_def)
  have u: "gr_undoStack ?e = gr_undoStack s @ [Format_Undo ops, Cell_Undo (changes_of ?s [((r, c), t)])]"
    unfolding e using ne s1 by (simp del: write_cells_simps)
  have v: "fst (values_of ?e) = (raw_of s)((r, c) := js_trim t)"
    unfolding e using s1 by (simp del: write_cells_simps) (simp add: values_of_def write_raw_def)
  have "gr_undoStack (format_failed ops ?e) = gr_undoStack s @ [Format_Undo ops]"
    by (simp add: format_failed_def u butlast_append)
  moreover have "fst (values_of (format_failed ops ?e)) = (raw_of s)((r, c) := js_trim t)"
    using v by (simp add: format_failed_def)
  moreover from this have "getCellRawInput (format_failed ops ?e) r c = js_trim t"
    by (simp add: values_of_def raw_of_def fun_eq_iff)
  moreover have "fst (values_of (undo_key (format_failed ops ?e))) = fst (values_of (format_failed ops ?e))"
    using calculation(1) by (simp add: undo_key_def handleUnifiedUndo_def Let_def)
  ultimately show ?thesis by (simp add: Let_def)
qed

definition bold_patch :: format_patch where
  "bold_patch = \<lparr> fp_bold = Some True, fp_italic = None, fp_strikethrough = None, fp_textColor = None, fp_fontFamily = None,
     fp_fontSize = None, fp_numberFormat = None \<rparr>"

lemma failed_format_drops_later_edit_witness:
  "getCellRawInput (format_failed
     [\<lparr> fc_row = 2, fc_col = 1, fc_prev = DEFAULT_CELL_FORMAT, fc_next = patched bold_patch DEFAULT_CELL_FORMAT \<rparr>]
     (handleCommitEdit ''z'' (grid_perform (Start_Edit 0 0) (fst (applyFormatToSelection bold_patch sample_sheet))))) 0 0 = ''z''"
proof -
  let ?ops = "[\<lparr> fc_row = 2, fc_col = 1, fc_prev = DEFAULT_CELL_FORMAT, fc_next = patched bold_patch DEFAULT_CELL_FORMAT \<rparr>]"
  have a: "applyFormatToSelection bold_patch sample_sheet =
    (fst (applyFormatToSelection bold_patch sample_sheet), Some (Batch_Formats ?ops (next_formats ?ops)))"
    by code_simp
  have b: "\<not> gr_pendingCanonicalRefresh sample_sheet" "gr_canonicalRefreshInFlight sample_sheet = 0"
    "getCellRawInput sample_sheet 0 0 \<noteq> ''z''" by code_simp+
  have "js_trim ''z'' = ''z''" by code_simp
  with failed_format_drops_later_edit [OF a b] show ?thesis by (simp add: Let_def)
qed

text \<open>
  A paste that leaves the grid writes only the cells inside, but its entry has the others as well: undoing and redoing
  it writes outside of the grid.
\<close>

lemma redone_paste_leaves_grid:
  assumes "\<not> isEditing s" "t \<noteq> []" "parseTSV t \<noteq> []"
    and "(p, v) \<in> set (paste_cells (parseTSV t) s)" "\<not> writable s p" "raw_of s p \<noteq> v"
  shows "raw_of (handlePaste t s) p = raw_of s p \<and> raw_of (redo_key (undo_key (handlePaste t s))) p = js_trim v"
proof -
  let ?ws = "paste_cells (parseTSV t) s"
  let ?cs = "changes_of s ?ws"
  obtain r c where p: "p = (r, c)" by fastforce
  have paste: "handlePaste t s = pushHistoryEntry ?cs (write_cells (filter (writable s \<circ> fst) ?ws) s)"
    using assms(1-3) by (simp add: handlePaste_def Let_def)
  have pn: "(p, v) \<in> set (next_writes ?cs)"
    unfolding next_writes_changes using assms(4,6) p by (auto simp: raw_of_def)
  then have ne: "?cs \<noteq> []" by auto
  have dist: "distinct (map fst (next_writes ?cs))"
    unfolding next_writes_changes by (simp add: paste_cells_def distinct_pasted distinct_filtered)
  have u: "gr_redoStack (undo_key (handlePaste t s)) = [Cell_Redo ?cs]"
    using ne by (simp add: paste undo_key_def handleUnifiedUndo_def Let_def)
  then have "fst (values_of (redo_key (undo_key (handlePaste t s)))) = write_raw (next_writes ?cs) (fst (values_of (undo_key (handlePaste t s))))"
    by (simp add: redo_key_def handleUnifiedRedo_def Let_def)
  then have "raw_of (redo_key (undo_key (handlePaste t s))) p = js_trim v"
    using write_raw_in [OF dist pn] by (simp add: values_of_def)
  moreover have "raw_of (handlePaste t s) p = raw_of s p"
    using assms(5) by (simp add: paste raw_of_write) (subst write_raw_other; auto)
  ultimately show ?thesis by blast
qed

text \<open>
  An undo of an inserted or deleted row that the server refuses: its entry has left the history, the sheet is as it was,
  and redo would do it a second time.
\<close>

lemma failed_structure_undo_is_lost:
  assumes "gr_undoStack s = us @ [Structure_Undo op]"
  shows "let s1 = structure_revert_failed (undo_key s)
         in gr_undoStack s1 = us \<and> gr_redoStack s1 = gr_redoStack s @ [Structure_Redo (structure_step.truncate op)] \<and>
            values_of s1 = values_of s \<and> gs_rowCount s1 = gs_rowCount s \<and> gs_colCount s1 = gs_colCount s"
  using assms
  by (auto simp: undo_key_def handleUnifiedUndo_def performUndoStructure_def structure_revert_failed_def Let_def
      values_of_def raw_of_def getCellRawInput_def getCellFormat_def fun_eq_iff)

text \<open>Redoing an inserted row empties the redo history, whatever else there was to redo.\<close>

lemma structure_redo_empties_redo:
  assumes "gr_redoStack s = rs @ [Structure_Redo op]"
    and "snd (handleUnifiedRedo s) = Some (Structure_Call type position number rows cols)"
  shows "gr_redoStack (redo_key s) = rs \<and> gr_redoStack (structure_done type position number rows cols i (redo_key s)) = []"
  using assms by (auto simp: redo_key_def handleUnifiedRedo_def structure_done_def clear_cell_cache_def Let_def)

text \<open>An undo that the server carries out gives the grid its size back.\<close>

lemma structure_undo_restores_size:
  assumes "structure_request type position number s = Some (Structure_Call type position number rows cols)"
    and "0 \<le> number" "0 \<le> gs_rowCount s" "0 \<le> gs_colCount s" "\<not> gr_isReverting s"
  shows "let s1 = structure_done type position number rows cols i s
         in \<exists>op r c. snd (handleUnifiedUndo s1) = Some (Revert_Structure op r c) \<and>
              gs_rowCount (structure_reverted op r c (undo_key s1)) = gs_rowCount s \<and>
              gs_colCount (structure_reverted op r c (undo_key s1)) = gs_colCount s \<and>
              gr_undoStack (structure_reverted op r c (undo_key s1)) = gr_undoStack s"
  using assms
  by (cases type)
    (auto simp: structure_request_def structure_done_def undo_key_def handleUnifiedUndo_def performUndoStructure_def
      structure_reverted_def clear_cell_cache_def opposite_def Let_def split: if_splits)

end
