(* ===== verification/Grid_Sync.thy ===== *)
theory Grid_Sync imports Grid_History begin

text \<open>
  Saving the cells of the grid and following those of others
  (\<open>src/frontend/src/components/spreadsheets/SpreadsheetGrid.tsx\<close> and \<open>CellService\<close> in
  \<open>src/backend/spreadsheet/services.py\<close>), as one transition system: what is typed is queued and sent in batches, the
  ranges that become visible are read tile by tile, the server carries out the batches of this page and of others and
  sends the changed cells, and a change of the structure makes the page load its cells again.  The system is that of the
  raw inputs; computed values are those the server sends with them.
\<close>

declare split_paired_All [simp del] split_paired_Ex [simp del]

section \<open>The server\<close>

record stored_cell =
  st_raw :: string
  st_time :: int
  st_live :: bool

type_synonym stored_sheet = "(int \<times> int, stored_cell) jmap"

definition live_cell :: "stored_sheet \<Rightarrow> int \<times> int \<Rightarrow> bool" where
  "live_cell sheet k = (case jmap_get sheet k of Some c \<Rightarrow> st_live c | None \<Rightarrow> False)"

definition stored_raw :: "stored_sheet \<Rightarrow> int \<times> int \<Rightarrow> string" where
  "stored_raw sheet k = (case jmap_get sheet k of Some c \<Rightarrow> if st_live c then st_raw c else [] | None \<Rightarrow> [])"

definition cell_of :: "stored_sheet \<Rightarrow> int \<times> int \<Rightarrow> response_cell" where
  "cell_of sheet k =
     \<lparr> sv_row_position = fst k, sv_column_position = snd k, sv_raw_input = Some (stored_raw sheet k), sv_formula_value = None,
       sv_string_value = None, sv_number_value = None, sv_computed_type = None, sv_computed_number = None,
       sv_computed_string = None, sv_error_code = None, sv_updated_at = map_option st_time (jmap_get sheet k) \<rparr>"

text \<open>One operation of a batch at time \<open>now\<close>: \<open>clear\<close> does nothing to a cell that is not there.\<close>

definition store_op :: "int \<Rightarrow> (int \<times> int) \<times> string option \<Rightarrow> stored_sheet \<Rightarrow> stored_sheet" where
  "store_op now op sheet =
     (case snd op of
        Some t \<Rightarrow> jmap_set (fst op) \<lparr> st_raw = t, st_time = now, st_live = True \<rparr> sheet
      | None \<Rightarrow> if live_cell sheet (fst op) then jmap_set (fst op) \<lparr> st_raw = [], st_time = now, st_live = False \<rparr> sheet
               else sheet)"

text \<open>A recalculated formula keeps its raw input.\<close>

definition touch_cell :: "int \<Rightarrow> int \<times> int \<Rightarrow> stored_sheet \<Rightarrow> stored_sheet" where
  "touch_cell now k sheet =
     (case jmap_get sheet k of Some c \<Rightarrow> jmap_set k (c\<lparr> st_time := now \<rparr>) sheet | None \<Rightarrow> sheet)"

text \<open>
  \<open>batch_update_cells\<close>: the new sheet and the cells of the response; \<open>recalculated\<close> are the formulas that depend on
  the changed cells.
\<close>

definition batch_update_cells ::
  "int \<Rightarrow> ((int \<times> int) \<times> string option) list \<Rightarrow> (int \<times> int) list \<Rightarrow> stored_sheet \<Rightarrow> stored_sheet \<times> response_cell list" where
  "batch_update_cells now ops recalculated sheet =
     (let formulas = filter (live_cell sheet) recalculated;
          sheet' = foldl (\<lambda>sh k. touch_cell now k sh) (foldl (\<lambda>sh op. store_op now op sh) sheet ops) formulas;
          changed = filter (\<lambda>k. jmap_get sheet' k \<noteq> jmap_get sheet k) (map fst ops @ formulas)
      in (sheet', map (cell_of sheet') changed))"

definition read_cell_range :: "stored_sheet \<Rightarrow> cell_range \<Rightarrow> response_cell list" where
  "read_cell_range sheet tile =
     map (cell_of sheet) (filter (\<lambda>k. live_cell sheet k \<and> in_range tile (fst k) (snd k)) (map fst sheet))"

section \<open>The page and its messages\<close>

datatype server_message =
  Batch_Reply "(int \<times> int, pending_operation) jmap" "response_cell list"
| Batch_Error
| Cells_Updated "response_cell list"
| Tile_Answer cell_range nat "response_cell list"
| Sheet_Refresh

record grid_sync =
  gy_grid :: grid
  gy_loaded :: "cell_range list"
  gy_inFlight :: "cell_range list"
  gy_generation :: nat
  gy_visible :: cell_range
  gy_request :: "(int \<times> int, pending_operation) jmap option"
  gy_answered :: bool
  gy_reads :: "(cell_range \<times> nat) list"
  gy_server :: stored_sheet
  gy_now :: int
  gy_queue :: "server_message list"
  gy_doubt :: "(int \<times> int) list"

text \<open>\<open>loadCellRange\<close> up to its requests: a tile is read unless it is loaded or being read.\<close>

definition request_tile :: "bool \<Rightarrow> grid_sync \<Rightarrow> cell_range \<Rightarrow> grid_sync" where
  "request_tile force s tile =
     (if \<not> force \<and> tile \<in> set (gy_loaded s) \<or> tile \<in> set (gy_inFlight s) then s
      else s\<lparr> gy_inFlight := gy_inFlight s @ [tile], gy_reads := gy_reads s @ [(tile, gy_generation s)] \<rparr>)"

definition loadCellRange :: "cell_range \<Rightarrow> bool \<Rightarrow> grid_sync \<Rightarrow> grid_sync" where
  "loadCellRange a force s =
     (let tiles = enumerateTilesInRange a (max 1 (gs_rowCount (gy_grid s))) (max 1 (gs_colCount (gy_grid s)));
          s1 = (if force then s\<lparr> gy_loaded := filter (\<lambda>t. t \<notin> set tiles) (gy_loaded s) \<rparr> else s)
      in foldl (request_tile force) s1 tiles)"

definition tile_answered :: "cell_range \<Rightarrow> nat \<Rightarrow> response_cell list \<Rightarrow> grid_sync \<Rightarrow> grid_sync" where
  "tile_answered tile generation response s =
     (let s1 = s\<lparr> gy_inFlight := remove1 tile (gy_inFlight s) \<rparr>
      in if generation \<noteq> gy_generation s then s1
         else s1\<lparr> gy_grid := load_cells response (gy_grid s), gy_loaded := tile # gy_loaded s \<rparr>)"

definition resetSheetCaches :: "grid_sync \<Rightarrow> grid_sync" where
  "resetSheetCaches s =
     s\<lparr> gy_generation := gy_generation s + 1, gy_loaded := [], gy_inFlight := [], gy_grid := clear_cell_cache (gy_grid s),
        gy_doubt := [] \<rparr>"

definition refreshSheet :: "grid_sync \<Rightarrow> grid_sync" where
  "refreshSheet s =
     (let g = (gy_grid s)\<lparr> gr_editingCell := None, gr_pendingOps := [] \<rparr>
      in if gr_isSaving g then s\<lparr> gy_grid := g\<lparr> gr_pendingCanonicalRefresh := True \<rparr> \<rparr>
         else loadCellRange (gy_visible s) True (resetSheetCaches (s\<lparr> gy_grid :=
           g\<lparr> gr_pendingCanonicalRefresh := False, gr_canonicalRefreshInFlight := gr_canonicalRefreshInFlight g + 1 \<rparr> \<rparr>)))"

text \<open>\<open>flushPendingOps\<close> up to its request.\<close>

definition flush_enabled :: "grid \<Rightarrow> bool" where
  "flush_enabled g \<longleftrightarrow>
     gr_pendingOps g \<noteq> [] \<and> \<not> gr_isSaving g \<and> \<not> gr_pendingCanonicalRefresh g \<and> \<not> gr_canonicalRefreshInFlight g > 0"

definition flushPendingOps :: "grid_sync \<Rightarrow> grid_sync" where
  "flushPendingOps s =
     (if flush_enabled (gy_grid s)
      then s\<lparr> gy_grid := (gy_grid s)\<lparr> gr_isSaving := True \<rparr>, gy_request := Some (gr_pendingOps (gy_grid s)), gy_answered := False \<rparr>
      else s)"

text \<open>Only the operations that were sent go; two operations are the same if they are the same object.\<close>

definition still_pending :: "(int \<times> int, pending_operation) jmap \<Rightarrow> (int \<times> int, pending_operation) jmap \<Rightarrow> (int \<times> int, pending_operation) jmap" where
  "still_pending submitted current =
     filter (\<lambda>(k, op). map_option po_reference (jmap_get submitted k) \<noteq> Some (po_reference op)) current"

definition submitted_range :: "(int \<times> int, pending_operation) jmap \<Rightarrow> cell_range" where
  "submitted_range submitted =
     \<lparr> startRow = Min (set (map (po_row \<circ> snd) submitted)), endRow = Max (set (map (po_row \<circ> snd) submitted)),
       startColumn = Min (set (map (po_column \<circ> snd) submitted)), endColumn = Max (set (map (po_column \<circ> snd) submitted)) \<rparr>"

text \<open>
  \<open>flushPendingOps\<close> with the response.  \<open>gy_doubt\<close> is not in the code: it collects the cells that were cleared here and of
  which the server sent nothing, because they were not there any more, while the grid shows something.
\<close>

definition doubtful :: "(int \<times> int, pending_operation) jmap \<Rightarrow> response_cell list \<Rightarrow> grid \<Rightarrow> (int \<times> int) list" where
  "doubtful submitted response g =
     filter (\<lambda>k. k \<notin> set (map response_key response) \<and> raw_of g k \<noteq> []) (map fst submitted)"

definition batch_saved :: "(int \<times> int, pending_operation) jmap \<Rightarrow> response_cell list \<Rightarrow> grid_sync \<Rightarrow> grid_sync" where
  "batch_saved submitted response s =
     loadCellRange (submitted_range submitted) True
       (s\<lparr> gy_grid := applyCellsFromResponse response Local_Source
             ((gy_grid s)\<lparr> gr_pendingOps := still_pending submitted (gr_pendingOps (gy_grid s)) \<rparr>),
           gy_answered := True, gy_doubt := doubtful submitted response (gy_grid s) @ gy_doubt s \<rparr>)"

text \<open>\<open>setIsSaving(false)\<close>, after which the effect makes up for a refresh that had to wait.\<close>

definition saving_ended :: "grid_sync \<Rightarrow> grid_sync" where
  "saving_ended s =
     (let s1 = s\<lparr> gy_grid := (gy_grid s)\<lparr> gr_isSaving := False \<rparr>, gy_answered := False \<rparr>
      in if gr_pendingCanonicalRefresh (gy_grid s1) then refreshSheet s1 else s1)"

fun receive :: "server_message \<Rightarrow> grid_sync \<Rightarrow> grid_sync" where
  "receive (Batch_Reply submitted response) s = batch_saved submitted response s"
| "receive Batch_Error s = saving_ended s"
| "receive (Cells_Updated response) s = s\<lparr> gy_grid := applyCellsFromResponse response Remote_Source (gy_grid s) \<rparr>"
| "receive (Tile_Answer tile generation response) s = tile_answered tile generation response s"
| "receive Sheet_Refresh s = refreshSheet s"

section \<open>Events\<close>

text \<open>The operations of a batch as the server reads them.\<close>

definition batch_ops :: "(int \<times> int, pending_operation) jmap \<Rightarrow> ((int \<times> int) \<times> string option) list" where
  "batch_ops submitted = map (\<lambda>(k, op). (k, if po_clear op then None else po_raw_input op)) submitted"

datatype grid_sync_event =
  Write_Cell int int string
| Scroll_To cell_range
| Flush_Timer
| Server_Saves "(int \<times> int) list"
| Server_Rejects
| Server_Reads nat
| Read_Fails nat
| Peer_Saves "((int \<times> int) \<times> string option) list" "(int \<times> int) list"
| Peer_Restructures "((int \<times> int) \<times> (int \<times> int)) list"
| Message_Arrives
| Save_Ends
| Refresh_Ends
| Overtakes nat

text \<open>A change of the structure puts the cells at new places and drops the others.\<close>

definition restructured :: "((int \<times> int) \<times> (int \<times> int)) list \<Rightarrow> stored_sheet \<Rightarrow> stored_sheet" where
  "restructured places sheet =
     concat (map (\<lambda>(k, k'). case jmap_get sheet k of Some c \<Rightarrow> [(k', c)] | None \<Rightarrow> []) places)"

fun grid_sync_perform :: "grid_sync_event \<Rightarrow> grid_sync \<Rightarrow> grid_sync" where
  "grid_sync_perform (Write_Cell r c t) s = s\<lparr> gy_grid := setCellValue r c t (gy_grid s) \<rparr>"
| "grid_sync_perform (Scroll_To a) s = loadCellRange a False (s\<lparr> gy_visible := a \<rparr>)"
| "grid_sync_perform Flush_Timer s = flushPendingOps s"
| "grid_sync_perform (Server_Saves recalculated) s =
     (case gy_request s of
        None \<Rightarrow> s
      | Some submitted \<Rightarrow>
          let (sheet, response) = batch_update_cells (gy_now s + 1) (batch_ops submitted) recalculated (gy_server s)
          in s\<lparr> gy_request := None, gy_server := sheet, gy_now := gy_now s + 1,
                gy_queue := gy_queue s @ [Batch_Reply submitted response] \<rparr>)"
| "grid_sync_perform Server_Rejects s = s\<lparr> gy_request := None, gy_queue := gy_queue s @ [Batch_Error] \<rparr>"
| "grid_sync_perform (Server_Reads i) s =
     (let (tile, generation) = gy_reads s ! i
      in s\<lparr> gy_reads := splice_remove i (gy_reads s),
            gy_queue := gy_queue s @ [Tile_Answer tile generation (read_cell_range (gy_server s) tile)] \<rparr>)"
| "grid_sync_perform (Read_Fails i) s =
     s\<lparr> gy_reads := splice_remove i (gy_reads s), gy_inFlight := remove1 (fst (gy_reads s ! i)) (gy_inFlight s) \<rparr>"
| "grid_sync_perform (Peer_Saves ops recalculated) s =
     (let (sheet, response) = batch_update_cells (gy_now s + 1) ops recalculated (gy_server s)
      in s\<lparr> gy_server := sheet, gy_now := gy_now s + 1, gy_queue := gy_queue s @ [Cells_Updated response] \<rparr>)"
| "grid_sync_perform (Peer_Restructures places) s =
     s\<lparr> gy_server := restructured places (gy_server s), gy_queue := gy_queue s @ [Sheet_Refresh] \<rparr>"
| "grid_sync_perform Message_Arrives s =
     (case gy_queue s of [] \<Rightarrow> s | m # rest \<Rightarrow> receive m (s\<lparr> gy_queue := rest \<rparr>))"
| "grid_sync_perform Save_Ends s = saving_ended s"
| "grid_sync_perform Refresh_Ends s =
     s\<lparr> gy_grid := (gy_grid s)\<lparr> gr_canonicalRefreshInFlight := gr_canonicalRefreshInFlight (gy_grid s) - 1 \<rparr> \<rparr>"
| "grid_sync_perform (Overtakes i) s =
     s\<lparr> gy_queue := take i (gy_queue s) @ [gy_queue s ! (i + 1), gy_queue s ! i] @ drop (i + 2) (gy_queue s) \<rparr>"

text \<open>
  \<open>in_order\<close>: what the server sends to this page arrives in the order it was sent, whichever connection carries it.
  Saving ends when the reads that follow the response are over, which may be at any time; a request that fails was
  not carried out.
\<close>

fun grid_sync_guard :: "bool \<Rightarrow> grid_sync \<Rightarrow> grid_sync_event \<Rightarrow> bool" where
  "grid_sync_guard in_order s (Server_Saves recalculated) \<longleftrightarrow> gy_request s \<noteq> None"
| "grid_sync_guard in_order s Server_Rejects \<longleftrightarrow> gy_request s \<noteq> None"
| "grid_sync_guard in_order s (Server_Reads i) \<longleftrightarrow> i < length (gy_reads s)"
| "grid_sync_guard in_order s (Read_Fails i) \<longleftrightarrow> i < length (gy_reads s)"
| "grid_sync_guard in_order s (Peer_Restructures places) \<longleftrightarrow> distinct (map snd places)"
| "grid_sync_guard in_order s Message_Arrives \<longleftrightarrow> gy_queue s \<noteq> []"
| "grid_sync_guard in_order s Save_Ends \<longleftrightarrow> gy_answered s"
| "grid_sync_guard in_order s Refresh_Ends \<longleftrightarrow> gr_canonicalRefreshInFlight (gy_grid s) > 0"
| "grid_sync_guard in_order s (Overtakes i) \<longleftrightarrow> \<not> in_order \<and> i + 1 < length (gy_queue s)"
| "grid_sync_guard in_order s _ \<longleftrightarrow> True"

section \<open>What a batch does\<close>

definition at_time :: "int \<Rightarrow> stored_sheet \<Rightarrow> int \<times> int \<Rightarrow> bool" where
  "at_time now sheet k \<longleftrightarrow> (\<exists>c. jmap_get sheet k = Some c \<and> st_time c = now)"

lemma store_op_step:
  "jmap_get (store_op now op sheet) k = jmap_get sheet k \<or> at_time now (store_op now op sheet) k"
  "k = fst op \<Longrightarrow> at_time now (store_op now op sheet) k \<or> \<not> live_cell (store_op now op sheet) k"
  by (auto simp: store_op_def at_time_def live_cell_def jmap_get_set split: option.splits)

lemma touch_cell_step:
  "jmap_get (touch_cell now j sheet) k = jmap_get sheet k \<or> at_time now (touch_cell now j sheet) k"
  "live_cell (touch_cell now j sheet) k = live_cell sheet k"
  by (auto simp: touch_cell_def at_time_def live_cell_def jmap_get_set split: option.splits)

lemma at_time_keeps:
  "at_time now sheet k \<Longrightarrow> at_time now (store_op now op sheet) k" "at_time now sheet k \<Longrightarrow> at_time now (touch_cell now j sheet) k"
  by (auto simp: store_op_def touch_cell_def at_time_def live_cell_def jmap_get_set split: option.splits)

lemma stored_ops:
  fixes ops :: "((int \<times> int) \<times> string option) list" and sheet :: stored_sheet and now :: int
  defines "sheet' \<equiv> foldl (\<lambda>sh op. store_op now op sh) sheet ops"
  shows "jmap_get sheet' k = jmap_get sheet k \<or> at_time now sheet' k"
    and "k \<in> fst ` set ops \<Longrightarrow> at_time now sheet' k \<or> \<not> live_cell sheet' k"
proof -
  have "(jmap_get sheet' k = jmap_get sheet k \<or> at_time now sheet' k) \<and>
    (k \<in> fst ` set ops \<longrightarrow> at_time now sheet' k \<or> \<not> live_cell sheet' k)"
    unfolding sheet'_def
  proof (induction ops rule: rev_induct)
    case (snoc op ops)
    let ?sh = "foldl (\<lambda>sh op. store_op now op sh) sheet ops"
    from store_op_step(1) [of now op ?sh k] store_op_step(2) [of k op now ?sh] at_time_keeps(1) [of now ?sh k op] snoc
    show ?case by (auto simp: live_cell_def)
  qed simp
  then show "jmap_get sheet' k = jmap_get sheet k \<or> at_time now sheet' k"
    and "k \<in> fst ` set ops \<Longrightarrow> at_time now sheet' k \<or> \<not> live_cell sheet' k" by auto
qed

lemma touched_cells:
  fixes ks :: "(int \<times> int) list" and sheet :: stored_sheet and now :: int
  defines "sheet' \<equiv> foldl (\<lambda>sh k. touch_cell now k sh) sheet ks"
  shows "jmap_get sheet' k = jmap_get sheet k \<or> at_time now sheet' k"
    and "live_cell sheet' k = live_cell sheet k"
    and "at_time now sheet k \<Longrightarrow> at_time now sheet' k"
proof -
  have "(jmap_get sheet' k = jmap_get sheet k \<or> at_time now sheet' k) \<and> live_cell sheet' k = live_cell sheet k \<and>
    (at_time now sheet k \<longrightarrow> at_time now sheet' k)"
    unfolding sheet'_def
  proof (induction ks rule: rev_induct)
    case (snoc j ks)
    let ?sh = "foldl (\<lambda>sh k. touch_cell now k sh) sheet ks"
    from touch_cell_step [of now j ?sh k] at_time_keeps(2) [of now ?sh k j] snoc show ?case by auto
  qed simp
  then show "jmap_get sheet' k = jmap_get sheet k \<or> at_time now sheet' k" "live_cell sheet' k = live_cell sheet k"
    "at_time now sheet k \<Longrightarrow> at_time now sheet' k" by auto
qed

lemma touched_only:
  "k \<notin> set ks \<Longrightarrow> jmap_get (foldl (\<lambda>sh k. touch_cell now k sh) sheet ks) k = jmap_get sheet k"
  by (induction ks arbitrary: sheet) (auto simp: touch_cell_def jmap_get_set split: option.splits)

lemma stored_only:
  "k \<notin> fst ` set ops \<Longrightarrow> jmap_get (foldl (\<lambda>sh op. store_op now op sh) sheet ops) k = jmap_get sheet k"
  by (induction ops arbitrary: sheet) (auto simp: store_op_def jmap_get_set split: option.splits)

definition times_below :: "int \<Rightarrow> stored_sheet \<Rightarrow> bool" where
  "times_below now sheet \<longleftrightarrow> (\<forall>k c. jmap_get sheet k = Some c \<longrightarrow> st_time c < now)"

lemma response_key_cell_of [simp]: "response_key (cell_of sheet k) = k"
  by (simp add: response_key_def getCellKey_def cell_of_def)

lemma fallback_cell_of [simp]: "fallbackRawInput (cell_of sheet k) = stored_raw sheet k"
  by (simp add: fallbackRawInput_def cell_of_def)

lemma batch_result:
  assumes "batch_update_cells now ops recalculated sheet = (sheet', response)" "times_below now sheet"
  shows "\<And>c. c \<in> set response \<Longrightarrow> c = cell_of sheet' (response_key c) \<and> sv_updated_at c = Some now"
    and "k \<notin> response_key ` set response \<Longrightarrow> jmap_get sheet' k = jmap_get sheet k"
    and "k \<in> fst ` set ops \<Longrightarrow> k \<notin> response_key ` set response \<Longrightarrow> stored_raw sheet' k = []"
    and "times_below (now + 1) sheet'"
proof -
  let ?formulas = "filter (live_cell sheet) recalculated"
  let ?sheet1 = "foldl (\<lambda>sh op. store_op now op sh) sheet ops"
  have sheet': "sheet' = foldl (\<lambda>sh k. touch_cell now k sh) ?sheet1 ?formulas"
    and response: "response = map (cell_of sheet') (filter (\<lambda>k. jmap_get sheet' k \<noteq> jmap_get sheet k) (map fst ops @ ?formulas))"
    using assms(1) by (auto simp: batch_update_cells_def Let_def)
  have changed: "jmap_get sheet' k = jmap_get sheet k \<or> at_time now sheet' k" for k
    using touched_cells(1) [of now ?sheet1 ?formulas k] touched_cells(3) [of now ?sheet1 k ?formulas] stored_ops(1) [of now sheet ops k] by (auto simp: sheet')
  have "map response_key response = filter (\<lambda>k. jmap_get sheet' k \<noteq> jmap_get sheet k) (map fst ops @ ?formulas)"
    by (simp add: response comp_def)
  then have keys: "response_key ` set response = {k \<in> set (map fst ops @ ?formulas). jmap_get sheet' k \<noteq> jmap_get sheet k}"
    by (metis set_map set_filter)
  show "c = cell_of sheet' (response_key c) \<and> sv_updated_at c = Some now" if "c \<in> set response" for c
  proof -
    from that obtain k where k: "c = cell_of sheet' k" "jmap_get sheet' k \<noteq> jmap_get sheet k" by (auto simp: response)
    with changed [of k] show ?thesis by (auto simp: cell_of_def at_time_def response_key_def getCellKey_def)
  qed
  show "k \<notin> response_key ` set response \<Longrightarrow> jmap_get sheet' k = jmap_get sheet k"
    using touched_only [of k ?formulas now ?sheet1] stored_only [of k ops now sheet] unfolding keys by (auto simp: sheet')
  show "stored_raw sheet' k = []" if "k \<in> fst ` set ops" "k \<notin> response_key ` set response"
  proof -
    have "jmap_get sheet' k = jmap_get sheet k" using that by (auto simp: keys)
    with assms(2) have "\<not> at_time now sheet' k" by (auto simp: at_time_def times_below_def)
    then have "\<not> live_cell sheet' k"
      using stored_ops(2) [of k ops now sheet] that(1) touched_cells(2) [of now ?sheet1 ?formulas k]
        touched_cells(3) [of now ?sheet1 k ?formulas] by (auto simp: sheet')
    then show ?thesis by (auto simp: live_cell_def stored_raw_def split: option.splits)
  qed
  show "times_below (now + 1) sheet'"
    unfolding times_below_def
  proof (intro allI impI)
    fix k c assume "jmap_get sheet' k = Some c"
    with changed [of k] assms(2) have "st_time c < now \<or> st_time c = now" by (auto simp: at_time_def times_below_def)
    then show "st_time c < now + 1" by linarith
  qed
qed

section \<open>The invariant\<close>

fun writes :: "server_message \<Rightarrow> int \<times> int \<Rightarrow> bool" where
  "writes (Batch_Reply submitted response) k \<longleftrightarrow> k \<in> response_key ` set response \<or> k \<in> fst ` set submitted"
| "writes (Cells_Updated response) k \<longleftrightarrow> k \<in> response_key ` set response"
| "writes _ k \<longleftrightarrow> False"

definition has_raw :: "stored_sheet \<Rightarrow> response_cell list \<Rightarrow> int \<times> int \<Rightarrow> bool" where
  "has_raw sheet response k \<longleftrightarrow>
     (\<forall>c \<in> set response. response_key c = k \<longrightarrow> fallbackRawInput c = stored_raw sheet k)"

text \<open>A message says of a cell what the server has.\<close>

fun says :: "stored_sheet \<Rightarrow> server_message \<Rightarrow> int \<times> int \<Rightarrow> bool" where
  "says sheet (Batch_Reply submitted response) k \<longleftrightarrow>
     has_raw sheet response k \<and>
     (k \<in> fst ` set submitted \<and> k \<notin> response_key ` set response \<longrightarrow> stored_raw sheet k = [])"
| "says sheet (Cells_Updated response) k \<longleftrightarrow> has_raw sheet response k"
| "says sheet (Tile_Answer tile generation response) k \<longleftrightarrow>
     has_raw sheet response k \<and>
     (in_range tile (fst k) (snd k) \<and> live_cell sheet k \<longrightarrow> k \<in> response_key ` set response)"
| "says sheet _ k \<longleftrightarrow> True"

text \<open>The last message that writes a cell says what the server has, and so does a tile that is read after it.\<close>

fun settled :: "stored_sheet \<Rightarrow> server_message list \<Rightarrow> bool" where
  "settled sheet [] \<longleftrightarrow> True"
| "settled sheet (m # ms) \<longleftrightarrow>
     settled sheet ms \<and>
     (Sheet_Refresh \<notin> set ms \<longrightarrow> (\<forall>k. (\<forall>m' \<in> set ms. \<not> writes m' k) \<longrightarrow> says sheet m k))"

fun message_times :: "server_message \<Rightarrow> int set" where
  "message_times (Batch_Reply submitted response) = {t. Some t \<in> sv_updated_at ` set response}"
| "message_times (Cells_Updated response) = {t. Some t \<in> sv_updated_at ` set response}"
| "message_times (Tile_Answer tile generation response) = {t. Some t \<in> sv_updated_at ` set response}"
| "message_times _ = {}"

fun not_older :: "int set \<Rightarrow> server_message \<Rightarrow> bool" where
  "not_older ts (Cells_Updated response) \<longleftrightarrow>
     (\<forall>t \<in> ts. \<forall>u \<in> message_times (Cells_Updated response). t \<le> u)"
| "not_older ts _ \<longleftrightarrow> True"

fun times_ok :: "int set \<Rightarrow> server_message list \<Rightarrow> bool" where
  "times_ok ts [] \<longleftrightarrow> True"
| "times_ok ts (m # ms) \<longleftrightarrow> not_older ts m \<and> times_ok (ts \<union> message_times m) ms"

definition cell_times :: "cell_map \<Rightarrow> int set" where
  "cell_times cells = {t. \<exists>k. existing_time cells k = Some t}"

definition tracked :: "grid_sync \<Rightarrow> int \<times> int \<Rightarrow> bool" where
  "tracked s k \<longleftrightarrow>
     jmap_get (gr_cells (gy_grid s)) k \<noteq> None \<or> (\<exists>tile \<in> set (gy_loaded s). in_range tile (fst k) (snd k))"

definition awaits_refresh :: "grid_sync \<Rightarrow> bool" where
  "awaits_refresh s \<longleftrightarrow> Sheet_Refresh \<in> set (gy_queue s) \<or> gr_pendingCanonicalRefresh (gy_grid s)"

definition shown_ok :: "grid_sync \<Rightarrow> bool" where
  "shown_ok s \<longleftrightarrow>
     \<not> awaits_refresh s \<longrightarrow>
     (\<forall>k. (\<forall>m \<in> set (gy_queue s). \<not> writes m k) \<and> jmap_get (gr_pendingOps (gy_grid s)) k = None \<and> tracked s k \<and>
          k \<notin> set (gy_doubt s) \<longrightarrow> raw_of (gy_grid s) k = stored_raw (gy_server s) k)"

definition grid_sync_inv :: "grid_sync \<Rightarrow> bool" where
  "grid_sync_inv s \<longleftrightarrow>
     settled (gy_server s) (gy_queue s) \<and>
     times_ok (cell_times (gr_cells (gy_grid s))) (gy_queue s) \<and>
     (\<forall>t \<in> cell_times (gr_cells (gy_grid s)) \<union> \<Union> (message_times ` set (gy_queue s)). t \<le> gy_now s) \<and>
     times_below (gy_now s + 1) (gy_server s) \<and> shown_ok s"

lemma says_cong:
  "stored_raw sheet' k = stored_raw sheet k \<Longrightarrow> live_cell sheet' k = live_cell sheet k \<Longrightarrow> says sheet m k \<Longrightarrow> says sheet' m k"
  by (cases m) (auto simp: has_raw_def)

lemma settled_append:
  assumes "settled sheet q" "\<And>k. writes m k \<or> jmap_get sheet' k = jmap_get sheet k" "\<And>k. says sheet' m k"
  shows "settled sheet' (q @ [m])"
  using assms(1)
proof (induction q)
  case Nil
  show ?case using assms(3) by simp
next
  case (Cons h q)
  have "says sheet' h k"
    if "Sheet_Refresh \<notin> set (q @ [m])" "\<forall>m' \<in> set (q @ [m]). \<not> writes m' k" for k
  proof (rule says_cong)
    have "jmap_get sheet' k = jmap_get sheet k" using that(2) assms(2) [of k] by simp
    then show "stored_raw sheet' k = stored_raw sheet k" "live_cell sheet' k = live_cell sheet k"
      by (simp_all add: stored_raw_def live_cell_def)
    show "says sheet h k" using Cons.prems that by simp
  qed
  then show ?case using Cons by simp
qed

lemma settled_refresh: "settled sheet (q @ [Sheet_Refresh])"
  by (induction q) simp_all

lemma not_older_antimono: "not_older ts m \<Longrightarrow> ts' \<subseteq> ts \<Longrightarrow> not_older ts' m"
  by (cases m) (simp_all del: message_times.simps, blast)

lemma times_ok_antimono: "times_ok ts q \<Longrightarrow> ts' \<subseteq> ts \<Longrightarrow> times_ok ts' q"
proof (induction q arbitrary: ts ts')
  case (Cons m q)
  have "not_older ts m" using Cons.prems(1) by simp
  then have "not_older ts' m" using Cons.prems(2) by (rule not_older_antimono)
  moreover have "times_ok (ts' \<union> message_times m) q"
    by (rule Cons.IH [of "ts \<union> message_times m"]) (use Cons.prems in auto)
  ultimately show ?case by simp
qed simp

lemma times_ok_append:
  "times_ok ts q \<Longrightarrow> not_older (ts \<union> \<Union> (message_times ` set q)) m \<Longrightarrow> times_ok ts (q @ [m])"
proof (induction q arbitrary: ts)
  case (Cons h q)
  have "times_ok (ts \<union> message_times h) (q @ [m])"
    by (rule Cons.IH) (use Cons.prems in \<open>simp_all add: Un_assoc\<close>)
  with Cons.prems show ?case by simp
qed simp

lemma request_tile_fields [simp]:
  "gy_grid (request_tile force s tile) = gy_grid s" "gy_loaded (request_tile force s tile) = gy_loaded s"
  "gy_server (request_tile force s tile) = gy_server s" "gy_now (request_tile force s tile) = gy_now s"
  "gy_queue (request_tile force s tile) = gy_queue s" "gy_doubt (request_tile force s tile) = gy_doubt s"
  "gy_generation (request_tile force s tile) = gy_generation s"
  by (simp_all add: request_tile_def)

lemma request_tiles_fields [simp]:
  "gy_grid (foldl (request_tile force) s tiles) = gy_grid s" "gy_loaded (foldl (request_tile force) s tiles) = gy_loaded s"
  "gy_server (foldl (request_tile force) s tiles) = gy_server s" "gy_now (foldl (request_tile force) s tiles) = gy_now s"
  "gy_queue (foldl (request_tile force) s tiles) = gy_queue s" "gy_doubt (foldl (request_tile force) s tiles) = gy_doubt s"
  "gy_generation (foldl (request_tile force) s tiles) = gy_generation s"
  by (induction tiles arbitrary: s) simp_all

lemma load_range_fields [simp]:
  "gy_grid (loadCellRange a force s) = gy_grid s" "gy_server (loadCellRange a force s) = gy_server s"
  "gy_now (loadCellRange a force s) = gy_now s" "gy_queue (loadCellRange a force s) = gy_queue s"
  "gy_doubt (loadCellRange a force s) = gy_doubt s" "gy_generation (loadCellRange a force s) = gy_generation s"
  "set (gy_loaded (loadCellRange a force s)) \<subseteq> set (gy_loaded s)"
  by (auto simp: loadCellRange_def Let_def)

lemma shown_okI:
  assumes "\<And>k. \<not> awaits_refresh s \<Longrightarrow> \<forall>m \<in> set (gy_queue s). \<not> writes m k \<Longrightarrow> jmap_get (gr_pendingOps (gy_grid s)) k = None \<Longrightarrow>
    tracked s k \<Longrightarrow> k \<notin> set (gy_doubt s) \<Longrightarrow> raw_of (gy_grid s) k = stored_raw (gy_server s) k"
  shows "shown_ok s"
  using assms by (auto simp: shown_ok_def)

lemma shown_okD:
  assumes "shown_ok s" "\<not> awaits_refresh s" "\<forall>m \<in> set (gy_queue s). \<not> writes m k"
    "jmap_get (gr_pendingOps (gy_grid s)) k = None" "tracked s k" "k \<notin> set (gy_doubt s)"
  shows "raw_of (gy_grid s) k = stored_raw (gy_server s) k"
  using assms by (auto simp: shown_ok_def)

lemma loaded_range: "tile \<in> set (gy_loaded (loadCellRange a force s)) \<Longrightarrow> tile \<in> set (gy_loaded s)"
  using load_range_fields(7) [of a force s] by blast

text \<open>Steps that leave the cells, the queue and the server alone.\<close>

lemma inv_cong:
  assumes "grid_sync_inv s"
    and "gr_cells (gy_grid s') = gr_cells (gy_grid s)" "gr_pendingOps (gy_grid s') = gr_pendingOps (gy_grid s)"
    and "gr_pendingCanonicalRefresh (gy_grid s') = gr_pendingCanonicalRefresh (gy_grid s)"
    and "gy_server s' = gy_server s" "gy_queue s' = gy_queue s" "gy_now s' = gy_now s" "gy_doubt s' = gy_doubt s"
    and "set (gy_loaded s') \<subseteq> set (gy_loaded s)"
  shows "grid_sync_inv s'"
proof -
  have "raw_of (gy_grid s') = raw_of (gy_grid s)" using assms(2) by (rule raw_of_cong)
  moreover have "tracked s' k \<Longrightarrow> tracked s k" for k using assms(2,9) by (auto simp: tracked_def)
  ultimately have "shown_ok s'" using assms by (auto simp: grid_sync_inv_def shown_ok_def awaits_refresh_def)
  with assms show ?thesis by (simp add: grid_sync_inv_def)
qed

text \<open>The server sends a message that writes every cell it changed.\<close>

lemma inv_send:
  assumes inv: "grid_sync_inv s"
    and q: "gy_queue s' = gy_queue s @ [m]" and g: "gy_grid s' = gy_grid s" and l: "gy_loaded s' = gy_loaded s"
    and d: "gy_doubt s' = gy_doubt s" and now: "gy_now s \<le> gy_now s'"
    and m: "\<And>k. writes m k \<or> jmap_get (gy_server s') k = jmap_get (gy_server s) k" "\<And>k. says (gy_server s') m k"
    and t: "times_below (gy_now s' + 1) (gy_server s')" "\<forall>t \<in> message_times m. t \<le> gy_now s'"
      "\<And>ts. \<forall>t \<in> ts. t \<le> gy_now s \<Longrightarrow> not_older ts m"
  shows "grid_sync_inv s'"
proof -
  let ?ts = "cell_times (gr_cells (gy_grid s)) \<union> \<Union> (message_times ` set (gy_queue s))"
  have old: "\<forall>t \<in> ?ts. t \<le> gy_now s" using inv by (simp add: grid_sync_inv_def)
  have "settled (gy_server s') (gy_queue s')"
    unfolding q using inv m by (intro settled_append [of "gy_server s"]) (simp_all add: grid_sync_inv_def)
  moreover have "times_ok (cell_times (gr_cells (gy_grid s'))) (gy_queue s')"
    unfolding q g using inv t(3) [OF old] by (intro times_ok_append) (simp_all add: grid_sync_inv_def)
  moreover have "\<forall>t \<in> cell_times (gr_cells (gy_grid s')) \<union> \<Union> (message_times ` set (gy_queue s')). t \<le> gy_now s'"
  proof
    fix u assume "u \<in> cell_times (gr_cells (gy_grid s')) \<union> \<Union> (message_times ` set (gy_queue s'))"
    then have "u \<in> ?ts \<or> u \<in> message_times m" by (auto simp: q g)
    with old now t(2) show "u \<le> gy_now s'" by (meson order_trans)
  qed
  moreover have "shown_ok s'"
    unfolding shown_ok_def
  proof (intro impI allI)
    fix k
    assume a: "\<not> awaits_refresh s'"
      and k: "(\<forall>m \<in> set (gy_queue s'). \<not> writes m k) \<and> jmap_get (gr_pendingOps (gy_grid s')) k = None \<and> tracked s' k \<and>
        k \<notin> set (gy_doubt s')"
    have "jmap_get (gy_server s') k = jmap_get (gy_server s) k" using k m(1) [of k] by (auto simp: q)
    then have "stored_raw (gy_server s') k = stored_raw (gy_server s) k" by (simp add: stored_raw_def)
    moreover have "raw_of (gy_grid s) k = stored_raw (gy_server s) k"
      using inv a k by (auto simp: grid_sync_inv_def shown_ok_def awaits_refresh_def tracked_def q g l d)
    ultimately show "raw_of (gy_grid s') k = stored_raw (gy_server s') k" by (simp add: g)
  qed
  ultimately show ?thesis using t(1) by (simp add: grid_sync_inv_def)
qed

lemma inv_peer: "grid_sync_inv s \<Longrightarrow> grid_sync_inv (grid_sync_perform (Peer_Saves ops recalculated) s)"
proof -
  assume inv: "grid_sync_inv s"
  obtain sheet response where b: "batch_update_cells (gy_now s + 1) ops recalculated (gy_server s) = (sheet, response)"
    by fastforce
  have below: "times_below (gy_now s + 1) (gy_server s)" using inv by (simp add: grid_sync_inv_def)
  note r = batch_result [OF b below]
  show ?thesis
  proof (rule inv_send [OF inv, of _ "Cells_Updated response"])
    show "writes (Cells_Updated response) k \<or>
      jmap_get (gy_server (grid_sync_perform (Peer_Saves ops recalculated) s)) k = jmap_get (gy_server s) k" for k
      using r(2) [of k] by (auto simp: b)
    show "says (gy_server (grid_sync_perform (Peer_Saves ops recalculated) s)) (Cells_Updated response) k" for k
      using r(1) by (auto simp: b has_raw_def) (metis fallback_cell_of)
    show "\<forall>t \<in> message_times (Cells_Updated response). t \<le> gy_now (grid_sync_perform (Peer_Saves ops recalculated) s)"
      using r(1) by (force simp: b)
    show "not_older ts (Cells_Updated response)" if "\<forall>t \<in> ts. t \<le> gy_now s" for ts
      using r(1) that by (force simp: b)
  qed (use r(4) in \<open>simp_all add: b\<close>)
qed

lemma inv_saves: "grid_sync_inv s \<Longrightarrow> grid_sync_inv (grid_sync_perform (Server_Saves recalculated) s)"
proof (cases "gy_request s")
  case (Some submitted)
  assume inv: "grid_sync_inv s"
  obtain sheet response
    where b: "batch_update_cells (gy_now s + 1) (batch_ops submitted) recalculated (gy_server s) = (sheet, response)"
    by fastforce
  have below: "times_below (gy_now s + 1) (gy_server s)" using inv by (simp add: grid_sync_inv_def)
  note r = batch_result [OF b below]
  have ops: "fst ` set (batch_ops submitted) = fst ` set submitted" by (force simp: batch_ops_def image_image split_def)
  show ?thesis
  proof (rule inv_send [OF inv, of _ "Batch_Reply submitted response"])
    show "writes (Batch_Reply submitted response) k \<or>
      jmap_get (gy_server (grid_sync_perform (Server_Saves recalculated) s)) k = jmap_get (gy_server s) k" for k
      using r(2) [of k] by (auto simp: b Some)
    show "says (gy_server (grid_sync_perform (Server_Saves recalculated) s)) (Batch_Reply submitted response) k" for k
      using r(1) r(3) [of k] ops by (auto simp: b Some has_raw_def) (metis fallback_cell_of)
    show "\<forall>t \<in> message_times (Batch_Reply submitted response). t \<le> gy_now (grid_sync_perform (Server_Saves recalculated) s)"
      using r(1) by (force simp: b Some)
  qed (use r(4) in \<open>simp_all add: b Some\<close>)
qed simp

lemma inv_reads:
  assumes inv: "grid_sync_inv s" and i: "i < length (gy_reads s)"
  shows "grid_sync_inv (grid_sync_perform (Server_Reads i) s)"
proof -
  obtain tile generation where r: "gy_reads s ! i = (tile, generation)" by fastforce
  let ?sheet = "gy_server s"
  let ?cells = "read_cell_range ?sheet tile"
  have keys: "response_key ` set ?cells = {k \<in> fst ` set ?sheet. live_cell ?sheet k \<and> in_range tile (fst k) (snd k)}"
    by (auto simp: read_cell_range_def image_image)
  have live: "live_cell ?sheet k \<Longrightarrow> k \<in> fst ` set ?sheet" for k
    by (auto simp: live_cell_def jmap_get_def image_iff split: option.splits dest!: map_of_SomeD) (metis fst_conv)
  have "t \<le> gy_now s" if t: "Some t \<in> sv_updated_at ` set ?cells" for t
  proof -
    from t obtain k where "sv_updated_at (cell_of ?sheet k) = Some t" by (auto simp: read_cell_range_def)
    then obtain c where "jmap_get ?sheet k = Some c" "st_time c = t" by (auto simp: cell_of_def)
    with inv have "t < gy_now s + 1" unfolding grid_sync_inv_def times_below_def by blast
    then show ?thesis by linarith
  qed
  moreover have "has_raw ?sheet ?cells k" for k by (auto simp: has_raw_def read_cell_range_def)
  ultimately show ?thesis
  proof (intro inv_send [OF inv, of _ "Tile_Answer tile generation ?cells"])
    show "says (gy_server (grid_sync_perform (Server_Reads i) s)) (Tile_Answer tile generation ?cells) k" for k
      using live [of k] \<open>has_raw ?sheet ?cells k\<close> by (simp add: r keys)
    show "times_below (gy_now (grid_sync_perform (Server_Reads i) s) + 1) (gy_server (grid_sync_perform (Server_Reads i) s))"
      using inv by (simp add: r grid_sync_inv_def)
  qed (simp_all add: r)
qed

lemma inv_rejects: "grid_sync_inv s \<Longrightarrow> grid_sync_inv (grid_sync_perform Server_Rejects s)"
  by (rule inv_send [of _ _ Batch_Error]) (simp_all add: grid_sync_inv_def)

lemma restructured_time:
  assumes "times_below now sheet"
  shows "times_below now (restructured places sheet)"
  unfolding times_below_def
proof (intro allI impI)
  fix k c assume "jmap_get (restructured places sheet) k = Some c"
  then have "(k, c) \<in> set (restructured places sheet)" by (auto simp: jmap_get_def dest: map_of_SomeD)
  then obtain j where "jmap_get sheet j = Some c" by (auto simp: restructured_def split: option.splits)
  with assms show "st_time c < now" by (auto simp: times_below_def)
qed

lemma inv_restructures: "grid_sync_inv s \<Longrightarrow> grid_sync_inv (grid_sync_perform (Peer_Restructures places) s)"
proof -
  assume inv: "grid_sync_inv s"
  then have "times_ok (cell_times (gr_cells (gy_grid s))) (gy_queue s @ [Sheet_Refresh])"
    by (intro times_ok_append) (simp_all add: grid_sync_inv_def)
  with inv show ?thesis
    by (simp add: grid_sync_inv_def settled_refresh restructured_time shown_ok_def awaits_refresh_def)
qed

section \<open>What arrives\<close>

lemma existing_time_set:
  "existing_time (jmap_set k c cells) k' = (if k' = k then updatedAt c else existing_time cells k')"
  by (simp add: existing_time_def jmap_get_set)

lemma raw_of_key: "raw_of g k = (case jmap_get (gr_cells g) k of None \<Rightarrow> [] | Some c \<Rightarrow> rawInput c)"
  by (simp add: raw_of_def getCellRawInput_def getCellKey_def)

lemma raw_of_cells:
  "raw_of (g\<lparr> gr_cells := cells \<rparr>) k = (case jmap_get cells k of None \<Rightarrow> [] | Some c \<Rightarrow> rawInput c)"
  by (simp add: raw_of_key)

lemma inv_write: "grid_sync_inv s \<Longrightarrow> grid_sync_inv (grid_sync_perform (Write_Cell r c t) s)"
proof -
  assume inv: "grid_sync_inv s"
  let ?s = "grid_sync_perform (Write_Cell r c t) s"
  have cells: "gr_cells (gy_grid ?s) = jmap_set (r, c) (local_cell (js_trim t)) (gr_cells (gy_grid s))"
    by (simp add: setCellValue_def Let_def getCellKey_def)
  have times: "cell_times (gr_cells (gy_grid ?s)) \<subseteq> cell_times (gr_cells (gy_grid s))"
    unfolding cells cell_times_def by (auto simp: existing_time_set local_cell_def split: if_splits)
  have pending: "jmap_get (gr_pendingOps (gy_grid ?s)) k = None \<longleftrightarrow> k \<noteq> (r, c) \<and> jmap_get (gr_pendingOps (gy_grid s)) k = None" for k
    by (simp add: setCellValue_def Let_def getCellKey_def jmap_get_set)
  have raw: "k \<noteq> (r, c) \<Longrightarrow> raw_of (gy_grid ?s) k = raw_of (gy_grid s) k" for k by simp
  have track: "k \<noteq> (r, c) \<Longrightarrow> tracked ?s k \<Longrightarrow> tracked s k" for k
    unfolding tracked_def cells by (auto simp: jmap_get_set)
  have await: "awaits_refresh ?s = awaits_refresh s"
    by (simp add: awaits_refresh_def setCellValue_def Let_def)
  have "shown_ok ?s"
  proof (rule shown_okI)
    fix k
    assume a: "\<not> awaits_refresh ?s" "\<forall>m \<in> set (gy_queue ?s). \<not> writes m k"
      "jmap_get (gr_pendingOps (gy_grid ?s)) k = None" "tracked ?s k" "k \<notin> set (gy_doubt ?s)"
    then have k: "k \<noteq> (r, c)" using pending by blast
    have "raw_of (gy_grid s) k = stored_raw (gy_server s) k"
    proof (rule shown_okD)
      show "shown_ok s" using inv by (simp add: grid_sync_inv_def)
      show "\<not> awaits_refresh s" using a(1) await by simp
      show "\<forall>m \<in> set (gy_queue s). \<not> writes m k" using a(2) by simp
      show "jmap_get (gr_pendingOps (gy_grid s)) k = None" using a(3) pending by blast
      show "tracked s k" using a(4) k by (rule track [rotated])
      show "k \<notin> set (gy_doubt s)" using a(5) by simp
    qed
    then show "raw_of (gy_grid ?s) k = stored_raw (gy_server ?s) k" using raw [OF k] by simp
  qed
  moreover have "times_ok (cell_times (gr_cells (gy_grid ?s))) (gy_queue ?s)"
    by (rule times_ok_antimono [of "cell_times (gr_cells (gy_grid s))"]) (use inv times in \<open>simp_all add: grid_sync_inv_def\<close>)
  moreover have "\<forall>u \<in> cell_times (gr_cells (gy_grid ?s)) \<union> \<Union> (message_times ` set (gy_queue ?s)). u \<le> gy_now ?s"
    using inv times by (auto simp: grid_sync_inv_def)
  ultimately show ?thesis using inv by (simp add: grid_sync_inv_def)
qed

text \<open>The three ways in which the cells of the server are merged share a contract.\<close>

locale cell_merge =
  fixes step :: "cell_map \<Rightarrow> response_cell \<Rightarrow> cell_map"
  assumes step_cases: "step cells c = cells \<or>
    (\<exists>t. (t = sv_updated_at c \<or> t = existing_time cells (response_key c)) \<and>
         step cells c = jmap_set (response_key c) (server_cell c t) cells)"
begin

lemma steps_other: "k \<notin> response_key ` set cs \<Longrightarrow> jmap_get (foldl step cells cs) k = jmap_get cells k"
proof (induction cs arbitrary: cells)
  case (Cons c cs)
  then have "jmap_get (step cells c) k = jmap_get cells k" using step_cases [of cells c] by (auto simp: jmap_get_set)
  with Cons show ?case by simp
qed simp

lemma steps_keep:
  assumes "\<forall>c \<in> set cs. response_key c = k \<longrightarrow> fallbackRawInput c = r" "map_option rawInput (jmap_get cells k) = Some r"
  shows "map_option rawInput (jmap_get (foldl step cells cs) k) = Some r"
  using assms
proof (induction cs arbitrary: cells)
  case (Cons c cs)
  have "map_option rawInput (jmap_get (step cells c) k) = Some r"
    using step_cases [of cells c] Cons.prems by (auto simp: jmap_get_set server_cell_def)
  with Cons.IH [of "step cells c"] Cons.prems(1) show ?case by simp
qed simp

lemma steps_raw:
  assumes "\<forall>c \<in> set cs. response_key c = k \<longrightarrow> fallbackRawInput c = r" "k \<in> response_key ` set cs"
    and "\<And>c cells'. c \<in> set cs \<Longrightarrow> response_key c = k \<Longrightarrow> jmap_get cells' k = jmap_get cells k \<Longrightarrow> step cells' c \<noteq> cells' \<or>
      map_option rawInput (jmap_get cells' k) = Some r"
  shows "map_option rawInput (jmap_get (foldl step cells cs) k) = Some r"
  using assms
proof (induction cs arbitrary: cells)
  case (Cons c cs)
  show ?case
  proof (cases "response_key c = k")
    case True
    have "map_option rawInput (jmap_get (step cells c) k) = Some r"
      using step_cases [of cells c] Cons.prems(1) Cons.prems(3) [of c cells] True by (auto simp: jmap_get_set server_cell_def)
    then show ?thesis using Cons.prems(1) steps_keep [of cs k r "step cells c"] by simp
  next
    case False
    then have same: "jmap_get (step cells c) k = jmap_get cells k" using step_cases [of cells c] by (auto simp: jmap_get_set)
    have "map_option rawInput (jmap_get (foldl step (step cells c) cs) k) = Some r"
    proof (rule Cons.IH)
      show "\<forall>c \<in> set cs. response_key c = k \<longrightarrow> fallbackRawInput c = r" "k \<in> response_key ` set cs"
        using Cons.prems(1,2) False by auto
      show "step cells' d \<noteq> cells' \<or> map_option rawInput (jmap_get cells' k) = Some r"
        if "d \<in> set cs" "response_key d = k" "jmap_get cells' k = jmap_get (step cells c) k" for d cells'
        by (rule Cons.prems(3)) (use that same in auto)
    qed
    then show ?thesis by simp
  qed
qed simp

lemma step_times: "cell_times (step cells c) \<subseteq> cell_times cells \<union> {t. Some t = sv_updated_at c}"
  using step_cases [of cells c] by (auto simp: cell_times_def existing_time_set server_cell_def split: if_splits)

lemma steps_times: "cell_times (foldl step cells cs) \<subseteq> cell_times cells \<union> {t. Some t \<in> sv_updated_at ` set cs}"
proof (induction cs arbitrary: cells)
  case (Cons c cs)
  from Cons [of "step cells c"] step_times [of cells c] show ?case by auto
qed simp

end

interpretation merge_response: cell_merge "apply_response_cell source pending" for source pending
  by unfold_locales (auto simp: apply_response_cell_def Let_def orelse_def split: option.split)

interpretation merge_tile: cell_merge load_cell
  by unfold_locales (auto simp: load_cell_def Let_def)

lemma raw_of_apply:
  "raw_of (applyCellsFromResponse cs source g) k =
   nullish (map_option rawInput (jmap_get (foldl (apply_response_cell source (gr_pendingOps g)) (gr_cells g) cs) k)) []"
  by (simp add: applyCellsFromResponse_def raw_of_key split: option.split)

lemma raw_of_nullish: "raw_of g k = nullish (map_option rawInput (jmap_get (gr_cells g) k)) []"
  by (simp add: raw_of_key split: option.split)

lemma inv_receive:
  assumes inv: "grid_sync_inv s" and q: "gy_queue s = m # rest"
    and s': "gy_queue s' = rest" "gy_server s' = gy_server s" "gy_now s' = gy_now s"
    and times: "cell_times (gr_cells (gy_grid s')) \<subseteq> cell_times (gr_cells (gy_grid s)) \<union> message_times m"
    and shown: "shown_ok s'"
  shows "grid_sync_inv s'"
proof -
  have "times_ok (cell_times (gr_cells (gy_grid s'))) rest"
    by (rule times_ok_antimono [of "cell_times (gr_cells (gy_grid s)) \<union> message_times m"])
      (use inv q times in \<open>simp_all add: grid_sync_inv_def\<close>)
  moreover have "\<forall>u \<in> cell_times (gr_cells (gy_grid s')) \<union> \<Union> (message_times ` set rest). u \<le> gy_now s"
    using inv times by (auto simp: grid_sync_inv_def q)
  ultimately show ?thesis using inv shown by (simp add: grid_sync_inv_def q s')
qed

lemma last_word:
  assumes "grid_sync_inv s" "gy_queue s = m # rest" "Sheet_Refresh \<notin> set rest" "\<forall>m' \<in> set rest. \<not> writes m' k"
  shows "says (gy_server s) m k"
  using assms by (auto simp: grid_sync_inv_def)

text \<open>Cells that others changed.\<close>

lemma inv_cells_updated:
  assumes inv: "grid_sync_inv s" and q: "gy_queue s = Cells_Updated response # rest"
  shows "grid_sync_inv (grid_sync_perform Message_Arrives s)"
proof (rule inv_receive [OF inv q])
  let ?s = "grid_sync_perform Message_Arrives s"
  let ?g = "gy_grid s"
  have g: "gy_grid ?s = applyCellsFromResponse response Remote_Source ?g" by (simp add: q)
  have cells: "gr_cells (gy_grid ?s) =
      foldl (apply_response_cell Remote_Source (gr_pendingOps ?g)) (gr_cells ?g) response"
    by (simp add: q applyCellsFromResponse_def)
  show "cell_times (gr_cells (gy_grid ?s)) \<subseteq> cell_times (gr_cells ?g) \<union> message_times (Cells_Updated response)"
    unfolding cells using merge_response.steps_times by simp
  show "shown_ok ?s"
  proof (rule shown_okI)
    fix k
    assume a: "\<not> awaits_refresh ?s" "\<forall>m \<in> set (gy_queue ?s). \<not> writes m k"
      "jmap_get (gr_pendingOps (gy_grid ?s)) k = None" "tracked ?s k" "k \<notin> set (gy_doubt ?s)"
    have await: "\<not> awaits_refresh s" and rest: "Sheet_Refresh \<notin> set rest" "\<forall>m \<in> set rest. \<not> writes m k"
      using a(1,2) by (auto simp: awaits_refresh_def q g applyCellsFromResponse_def)
    have pending: "jmap_get (gr_pendingOps ?g) k = None" using a(3) by (simp add: q applyCellsFromResponse_def)
    show "raw_of (gy_grid ?s) k = stored_raw (gy_server ?s) k"
    proof (cases "k \<in> response_key ` set response")
      case True
      let ?r = "stored_raw (gy_server s) k"
      have "says (gy_server s) (Cells_Updated response) k" by (rule last_word [OF inv q rest])
      then have r: "\<forall>c \<in> set response. response_key c = k \<longrightarrow> fallbackRawInput c = ?r" by (auto simp: has_raw_def)
      have older: "\<not> older (sv_updated_at c) (existing_time (gr_cells ?g) k)" if "c \<in> set response" for c
      proof -
        have "not_older (cell_times (gr_cells ?g)) (Cells_Updated response)" using inv by (simp add: grid_sync_inv_def q)
        then have "t \<le> u" if "existing_time (gr_cells ?g) k = Some t" "sv_updated_at c = Some u" for t u
          using that \<open>c \<in> set response\<close> by (force simp: cell_times_def)
        then show ?thesis by (force simp: older_def split: option.splits)
      qed
      have "map_option rawInput (jmap_get (gr_cells (gy_grid ?s)) k) = Some ?r"
        unfolding cells
      proof (rule merge_response.steps_raw [OF r True])
        fix c cells'
        assume c: "c \<in> set response" "response_key c = k" "jmap_get cells' k = jmap_get (gr_cells ?g) k"
        then have "existing_time cells' k = existing_time (gr_cells ?g) k" by (simp add: existing_time_def)
        with older [OF c(1)] c(2) pending
        have s: "apply_response_cell Remote_Source (gr_pendingOps ?g) cells' c =
            jmap_set k (server_cell c (orelse (sv_updated_at c) (existing_time cells' k))) cells'"
          by (simp add: apply_response_cell_def Let_def)
        show "apply_response_cell Remote_Source (gr_pendingOps ?g) cells' c \<noteq> cells' \<or>
            map_option rawInput (jmap_get cells' k) = Some ?r"
        proof (cases "apply_response_cell Remote_Source (gr_pendingOps ?g) cells' c = cells'")
          case True
          then have "jmap_get cells' k = Some (server_cell c (orelse (sv_updated_at c) (existing_time cells' k)))"
            using s jmap_get_set [of k _ cells' k] by metis
          then show ?thesis using r c(1,2) by (simp add: server_cell_def)
        qed simp
      qed
      then show ?thesis by (auto simp: raw_of_nullish q)
    next
      case False
      have same: "jmap_get (gr_cells (gy_grid ?s)) k = jmap_get (gr_cells ?g) k"
        unfolding cells by (rule merge_response.steps_other [OF False])
      then have "tracked s k" using a(4) by (simp add: tracked_def q)
      then have "raw_of ?g k = stored_raw (gy_server s) k"
        using inv await rest False pending a(5) by (intro shown_okD) (simp_all add: grid_sync_inv_def q)
      then show ?thesis using same by (simp add: raw_of_nullish q)
    qed
  qed
qed (simp_all add: q)

text \<open>A tile that was read.\<close>

lemma inv_tile:
  assumes inv: "grid_sync_inv s" and q: "gy_queue s = Tile_Answer tile generation response # rest"
  shows "grid_sync_inv (grid_sync_perform Message_Arrives s)"
proof (rule inv_receive [OF inv q])
  let ?s = "grid_sync_perform Message_Arrives s"
  let ?g = "gy_grid s"
  show "cell_times (gr_cells (gy_grid ?s)) \<subseteq> cell_times (gr_cells ?g) \<union> message_times (Tile_Answer tile generation response)"
    using merge_tile.steps_times [of "gr_cells ?g" response] by (auto simp: q tile_answered_def Let_def load_cells_def)
  show "shown_ok ?s"
  proof (rule shown_okI)
    fix k
    assume a: "\<not> awaits_refresh ?s" "\<forall>m \<in> set (gy_queue ?s). \<not> writes m k"
      "jmap_get (gr_pendingOps (gy_grid ?s)) k = None" "tracked ?s k" "k \<notin> set (gy_doubt ?s)"
    have fields: "gr_pendingOps (gy_grid ?s) = gr_pendingOps ?g" "gr_pendingCanonicalRefresh (gy_grid ?s) = gr_pendingCanonicalRefresh ?g"
      "gy_queue ?s = rest" "gy_server ?s = gy_server s" "gy_doubt ?s = gy_doubt s"
      by (simp_all add: q tile_answered_def Let_def load_cells_def)
    have await: "\<not> awaits_refresh s" and rest: "Sheet_Refresh \<notin> set rest" "\<forall>m \<in> set rest. \<not> writes m k"
      using a(1,2) fields by (auto simp: awaits_refresh_def q)
    have shown: "raw_of ?g k = stored_raw (gy_server s) k" if "tracked s k"
      using inv await rest that a(3,5) fields by (intro shown_okD) (simp_all add: grid_sync_inv_def q)
    show "raw_of (gy_grid ?s) k = stored_raw (gy_server ?s) k"
    proof (cases "generation = gy_generation s")
      case False
      then have "gy_grid ?s = ?g" "gy_loaded ?s = gy_loaded s" by (simp_all add: q tile_answered_def Let_def)
      with shown a(4) fields show ?thesis by (simp add: tracked_def)
    next
      case True
      have says: "says (gy_server s) (Tile_Answer tile generation response) k" by (rule last_word [OF inv q rest])
      let ?r = "stored_raw (gy_server s) k"
      have r: "\<forall>c \<in> set response. response_key c = k \<longrightarrow> fallbackRawInput c = ?r" using says by (auto simp: has_raw_def)
      have cells: "gr_cells (gy_grid ?s) = foldl load_cell (gr_cells ?g) response"
        and loaded: "gy_loaded ?s = tile # gy_loaded s"
        using True by (simp_all add: q tile_answered_def Let_def load_cells_def)
      have raw: "raw_of (gy_grid ?s) k = nullish (map_option rawInput (jmap_get (foldl load_cell (gr_cells ?g) response) k)) []"
        by (simp only: raw_of_nullish cells)
      show ?thesis
      proof (cases "jmap_get (gr_cells ?g) k")
        case (Some d)
        then have "tracked s k" by (simp add: tracked_def)
        with shown have d: "map_option rawInput (jmap_get (gr_cells ?g) k) = Some ?r" using Some by (simp add: raw_of_key)
        show ?thesis unfolding raw fields merge_tile.steps_keep [OF r d] by simp
      next
        case None
        show ?thesis
        proof (cases "k \<in> response_key ` set response")
          case True
          have "map_option rawInput (jmap_get (foldl load_cell (gr_cells ?g) response) k) = Some ?r"
          proof (rule merge_tile.steps_raw [OF r True])
            fix c cells'
            assume c: "c \<in> set response" "response_key c = k" "jmap_get cells' k = jmap_get (gr_cells ?g) k"
            with None have "load_cell cells' c = jmap_set k (server_cell c (sv_updated_at c)) cells'"
              by (auto simp: load_cell_def Let_def existing_time_def older_def split: option.splits)
            then have "jmap_get (load_cell cells' c) k \<noteq> jmap_get cells' k" using c(3) None by (simp add: jmap_get_set)
            then show "load_cell cells' c \<noteq> cells' \<or> map_option rawInput (jmap_get cells' k) = Some ?r" by auto
          qed
          then show ?thesis unfolding raw fields by (simp only: nullish_simps)
        next
          case False
          then have same: "jmap_get (foldl load_cell (gr_cells ?g) response) k = None"
            using merge_tile.steps_other [OF False, of "gr_cells ?g"] None by simp
          have "?r = []"
          proof (cases "tracked s k")
            case True
            with shown None show ?thesis by (simp add: raw_of_key)
          next
            case False
            with a(4) same None have "in_range tile (fst k) (snd k)" unfolding tracked_def cells loaded by simp
            with says \<open>k \<notin> response_key ` set response\<close> have "\<not> live_cell (gy_server s) k" by auto
            then show ?thesis by (auto simp: live_cell_def stored_raw_def split: option.splits)
          qed
          then show ?thesis using raw same fields by simp
        qed
      qed
    qed
  qed
qed (simp_all add: q tile_answered_def Let_def)

text \<open>The response of a batch of this page.\<close>

lemma get_still_pending:
  assumes "jmap_get (still_pending submitted current) k = None" "k \<notin> fst ` set submitted"
  shows "jmap_get current k = None"
  using assms
proof (induction current)
  case (Cons e current)
  obtain j op where e: "e = (j, op)" by fastforce
  show ?case
  proof (cases "j = k")
    case True
    with Cons.prems(2) have "jmap_get submitted j = None" by (simp add: jmap_get_def map_of_eq_None_iff)
    with Cons.prems(1) True e show ?thesis by (simp add: still_pending_def jmap_get_def)
  next
    case False
    with Cons e show ?thesis by (auto simp: still_pending_def jmap_get_def split: if_splits)
  qed
qed (simp add: jmap_get_def)

lemma inv_reply:
  assumes inv: "grid_sync_inv s" and q: "gy_queue s = Batch_Reply submitted response # rest"
  shows "grid_sync_inv (grid_sync_perform Message_Arrives s)"
proof (rule inv_receive [OF inv q])
  let ?s = "grid_sync_perform Message_Arrives s"
  let ?g = "gy_grid s"
  let ?pending = "still_pending submitted (gr_pendingOps ?g)"
  have fields: "gr_pendingOps (gy_grid ?s) = ?pending"
    "gr_pendingCanonicalRefresh (gy_grid ?s) = gr_pendingCanonicalRefresh ?g" "gy_queue ?s = rest" "gy_server ?s = gy_server s"
    "gy_doubt ?s = doubtful submitted response ?g @ gy_doubt s"
    by (simp_all add: q batch_saved_def applyCellsFromResponse_def)
  have loaded: "set (gy_loaded ?s) \<subseteq> set (gy_loaded s)"
    by (auto simp: q batch_saved_def dest: loaded_range)
  have cells: "gr_cells (gy_grid ?s) = foldl (apply_response_cell Local_Source ?pending) (gr_cells ?g) response"
    by (simp add: q batch_saved_def applyCellsFromResponse_def)
  show "cell_times (gr_cells (gy_grid ?s)) \<subseteq> cell_times (gr_cells ?g) \<union> message_times (Batch_Reply submitted response)"
    unfolding cells using merge_response.steps_times by simp
  show "shown_ok ?s"
  proof (rule shown_okI)
    fix k
    assume a: "\<not> awaits_refresh ?s" "\<forall>m \<in> set (gy_queue ?s). \<not> writes m k"
      "jmap_get (gr_pendingOps (gy_grid ?s)) k = None" "tracked ?s k" "k \<notin> set (gy_doubt ?s)"
    have await: "\<not> awaits_refresh s" and rest: "Sheet_Refresh \<notin> set rest" "\<forall>m \<in> set rest. \<not> writes m k"
      using a(1,2) fields by (auto simp: awaits_refresh_def q)
    let ?r = "stored_raw (gy_server s) k"
    have says: "says (gy_server s) (Batch_Reply submitted response) k" by (rule last_word [OF inv q rest])
    then have r: "\<forall>c \<in> set response. response_key c = k \<longrightarrow> fallbackRawInput c = ?r" by (auto simp: has_raw_def)
    show "raw_of (gy_grid ?s) k = stored_raw (gy_server ?s) k"
    proof (cases "k \<in> response_key ` set response")
      case True
      have "map_option rawInput (jmap_get (gr_cells (gy_grid ?s)) k) = Some ?r"
        unfolding cells
      proof (rule merge_response.steps_raw [OF r True])
        fix c cells'
        assume c: "c \<in> set response" "response_key c = k"
        have s: "apply_response_cell Local_Source ?pending cells' c =
            jmap_set k (server_cell c (orelse (sv_updated_at c) (existing_time cells' k))) cells'"
          using c(2) by (simp add: apply_response_cell_def Let_def)
        show "apply_response_cell Local_Source ?pending cells' c \<noteq> cells' \<or> map_option rawInput (jmap_get cells' k) = Some ?r"
        proof (cases "apply_response_cell Local_Source ?pending cells' c = cells'")
          case True
          then have "jmap_get cells' k = Some (server_cell c (orelse (sv_updated_at c) (existing_time cells' k)))"
            using s jmap_get_set [of k _ cells' k] by metis
          then show ?thesis using r c by (simp add: server_cell_def)
        qed simp
      qed
      then show ?thesis unfolding raw_of_nullish fields by (simp only: nullish_simps)
    next
      case False
      have same: "jmap_get (gr_cells (gy_grid ?s)) k = jmap_get (gr_cells ?g) k"
        unfolding cells by (rule merge_response.steps_other [OF False])
      then have raw: "raw_of (gy_grid ?s) k = raw_of ?g k" by (simp only: raw_of_nullish)
      show ?thesis
      proof (cases "k \<in> fst ` set submitted")
        case True
        with says False have "?r = []" by simp
        moreover have "raw_of ?g k = []"
          using a(5) True False unfolding fields by (auto simp: doubtful_def)
        ultimately show ?thesis using raw fields by simp
      next
        case out: False
        have "raw_of ?g k = ?r"
        proof (rule shown_okD)
          show "shown_ok s" using inv by (simp add: grid_sync_inv_def)
          show "\<forall>m \<in> set (gy_queue s). \<not> writes m k" using rest(2) False out by (simp add: q)
          show "jmap_get (gr_pendingOps ?g) k = None" using a(3) out unfolding fields by (rule get_still_pending)
          show "tracked s k" using a(4) same loaded by (auto simp: tracked_def)
          show "k \<notin> set (gy_doubt s)" using a(5) unfolding fields by simp
        qed (rule await)
        then show ?thesis using raw fields by simp
      qed
    qed
  qed
qed (simp_all add: q batch_saved_def)

text \<open>A refresh, at once or after saving.\<close>

lemma refresh_keeps:
  assumes "settled (gy_server s) (gy_queue s)" "times_ok ts (gy_queue s)"
    "cell_times (gr_cells (gy_grid s)) \<subseteq> ts"
    "\<forall>u \<in> cell_times (gr_cells (gy_grid s)) \<union> \<Union> (message_times ` set (gy_queue s)). u \<le> gy_now s"
    "times_below (gy_now s + 1) (gy_server s)"
  shows "grid_sync_inv (refreshSheet s)"
proof (cases "gr_isSaving (gy_grid s)")
  case True
  have "times_ok (cell_times (gr_cells (gy_grid s))) (gy_queue s)" by (rule times_ok_antimono [OF assms(2,3)])
  with True assms show ?thesis
    by (simp add: refreshSheet_def Let_def grid_sync_inv_def shown_ok_def awaits_refresh_def)
next
  case False
  let ?g = "(gy_grid s)\<lparr> gr_editingCell := None, gr_pendingOps := [], gr_pendingCanonicalRefresh := False,
    gr_canonicalRefreshInFlight := gr_canonicalRefreshInFlight (gy_grid s) + 1 \<rparr>"
  let ?s = "resetSheetCaches (s\<lparr> gy_grid := ?g \<rparr>)"
  have "times_ok {} (gy_queue s)" by (rule times_ok_antimono [OF assms(2)]) simp
  moreover have "cell_times [] = {}" by (simp add: cell_times_def existing_time_def jmap_get_def)
  moreover have "\<not> tracked ?s k" for k by (simp add: tracked_def resetSheetCaches_def clear_cell_cache_def jmap_get_def)
  ultimately have "grid_sync_inv ?s"
    using assms by (simp add: grid_sync_inv_def shown_ok_def resetSheetCaches_def clear_cell_cache_def)
  then have "grid_sync_inv (loadCellRange (gy_visible s) True ?s)" by (rule inv_cong) simp_all
  with False show ?thesis by (simp add: refreshSheet_def Let_def)
qed

lemma inv_saving_ended: "grid_sync_inv s \<Longrightarrow> grid_sync_inv (saving_ended s)"
proof -
  assume inv: "grid_sync_inv s"
  let ?s = "s\<lparr> gy_grid := (gy_grid s)\<lparr> gr_isSaving := False \<rparr>, gy_answered := False \<rparr>"
  have s: "grid_sync_inv ?s" by (rule inv_cong [OF inv]) simp_all
  then have "grid_sync_inv (refreshSheet ?s)"
    by (intro refresh_keeps [of _ "cell_times (gr_cells (gy_grid ?s))"]) (simp_all add: grid_sync_inv_def)
  with s show ?thesis by (simp add: saving_ended_def Let_def)
qed

lemma inv_drop:
  assumes inv: "grid_sync_inv s" and q: "gy_queue s = Batch_Error # rest"
  shows "grid_sync_inv (s\<lparr> gy_queue := rest \<rparr>)"
proof (rule inv_receive [OF inv q])
  show "shown_ok (s\<lparr> gy_queue := rest \<rparr>)"
    using inv by (simp add: grid_sync_inv_def shown_ok_def awaits_refresh_def tracked_def q)
qed simp_all

lemma inv_arrives:
  assumes inv: "grid_sync_inv s"
  shows "grid_sync_inv (grid_sync_perform Message_Arrives s)"
proof (cases "gy_queue s")
  case Nil
  with inv show ?thesis by simp
next
  case (Cons m rest)
  show ?thesis
  proof (cases m)
    case Batch_Error
    have "grid_sync_inv (s\<lparr> gy_queue := rest \<rparr>)" using inv Cons unfolding Batch_Error by (rule inv_drop)
    then show ?thesis using Cons Batch_Error by (simp add: inv_saving_ended)
  next
    case Sheet_Refresh
    have "times_ok (cell_times (gr_cells (gy_grid s))) rest"
      using inv Cons Sheet_Refresh by (simp add: grid_sync_inv_def)
    then have "grid_sync_inv (refreshSheet (s\<lparr> gy_queue := rest \<rparr>))"
      using inv Cons Sheet_Refresh
      by (intro refresh_keeps [of _ "cell_times (gr_cells (gy_grid s))"]) (simp_all add: grid_sync_inv_def)
    then show ?thesis using Cons Sheet_Refresh by simp
  qed (use inv Cons in \<open>auto intro: inv_reply inv_cells_updated inv_tile simp del: grid_sync_perform.simps\<close>)
qed

interpretation saving: event_system "grid_sync_guard True" grid_sync_perform grid_sync_inv
proof
  show "grid_sync_inv (grid_sync_perform e s)" if inv: "grid_sync_inv s" and g: "grid_sync_guard True s e" for s e
  proof (cases e)
    case (Scroll_To a)
    have "grid_sync_inv (s\<lparr> gy_visible := a \<rparr>)" by (rule inv_cong [OF inv]) simp_all
    then have "grid_sync_inv (loadCellRange a False (s\<lparr> gy_visible := a \<rparr>))"
      by (rule inv_cong) (auto dest: loaded_range)
    with Scroll_To show ?thesis by simp
  next
    case Flush_Timer
    then show ?thesis by (intro inv_cong [OF inv]) (simp_all add: flushPendingOps_def)
  next
    case (Read_Fails i)
    then show ?thesis by (intro inv_cong [OF inv]) simp_all
  next
    case Refresh_Ends
    then show ?thesis by (intro inv_cong [OF inv]) simp_all
  next
    case (Server_Reads i)
    then show ?thesis using inv g by (simp only: inv_reads grid_sync_guard.simps)
  qed (use inv g in \<open>auto intro: inv_write inv_saves inv_rejects inv_peer inv_restructures inv_arrives inv_saving_ended
      simp del: grid_sync_perform.simps simp: grid_sync_perform.simps(11)\<close>)
qed

section \<open>The grid shows what the server has\<close>

definition fresh_page :: "grid_sync \<Rightarrow> bool" where
  "fresh_page s \<longleftrightarrow>
     gr_cells (gy_grid s) = [] \<and> gr_pendingOps (gy_grid s) = [] \<and> gy_loaded s = [] \<and> gy_queue s = [] \<and>
     list_all (\<lambda>(k, c). st_time c \<le> gy_now s) (gy_server s)"

lemma fresh_page_inv: "fresh_page s \<Longrightarrow> grid_sync_inv s"
proof -
  assume f: "fresh_page s"
  have "times_below (gy_now s + 1) (gy_server s)"
    unfolding times_below_def
  proof (intro allI impI)
    fix k c assume "jmap_get (gy_server s) k = Some c"
    then have "(k, c) \<in> set (gy_server s)" by (auto simp: jmap_get_def dest: map_of_SomeD)
    with f show "st_time c < gy_now s + 1" by (auto simp: fresh_page_def list_all_iff)
  qed
  with f show ?thesis
    by (simp add: fresh_page_def grid_sync_inv_def shown_ok_def tracked_def cell_times_def existing_time_def jmap_get_def)
qed


definition sample_page :: grid_sync where
  "sample_page =
     \<lparr> gy_grid = sample_sheet\<lparr> gr_cells := [], gs_rowCount := 100 \<rparr>, gy_loaded = [], gy_inFlight = [], gy_generation = 0,
       gy_visible = sample_block, gy_request = None, gy_answered = False, gy_reads = [],
       gy_server = [((0, 0), \<lparr> st_raw = ''a'', st_time = 1, st_live = True \<rparr>), ((60, 0), \<lparr> st_raw = ''=A1'', st_time = 2, st_live = True \<rparr>)],
       gy_now = 5, gy_queue = [], gy_doubt = [] \<rparr>"

definition wide_block :: cell_range where
  "wide_block = \<lparr> startRow = 0, endRow = 70, startColumn = 0, endColumn = 2 \<rparr>"

definition sample_opened :: "grid_sync_event list" where
  "sample_opened = [Scroll_To wide_block, Server_Reads 0, Server_Reads 0, Message_Arrives, Message_Arrives]"

definition run_events :: "bool \<Rightarrow> grid_sync_event list \<Rightarrow> grid_sync" where
  "run_events in_order es = the (guarded_run (grid_sync_guard in_order) grid_sync_perform es sample_page)"

definition sample_saving :: "grid_sync_event list" where
  "sample_saving = sample_opened @ [Write_Cell 0 0 ''7'', Flush_Timer, Peer_Saves [((1, 1), Some ''p'')] [],
     Server_Saves [(60, 0)], Message_Arrives, Message_Arrives, Save_Ends]"


section \<open>What is typed is saved\<close>

lemma stored_raw_touch [simp]: "stored_raw (touch_cell now j sheet) k = stored_raw sheet k"
  by (auto simp: stored_raw_def touch_cell_def jmap_get_set split: option.splits)

lemma stored_raw_touched [simp]: "stored_raw (foldl (\<lambda>sh k. touch_cell now k sh) sheet ks) k = stored_raw sheet k"
  by (induction ks arbitrary: sheet) simp_all

lemma stored_raw_op: "stored_raw (store_op now op sheet) k = (if k = fst op then nullish (snd op) [] else stored_raw sheet k)"
  by (auto simp: stored_raw_def store_op_def live_cell_def jmap_get_set split: option.splits)

lemma stored_raw_other:
  "k \<notin> fst ` set ops \<Longrightarrow> stored_raw (foldl (\<lambda>sh op. store_op now op sh) sheet ops) k = stored_raw sheet k"
  by (induction ops arbitrary: sheet) (auto simp: stored_raw_op)

lemma stored_raw_ops:
  "distinct (map fst ops) \<Longrightarrow> (k, t) \<in> set ops \<Longrightarrow>
   stored_raw (foldl (\<lambda>sh op. store_op now op sh) sheet ops) k = nullish t []"
  by (induction ops arbitrary: sheet) (auto simp: stored_raw_op stored_raw_other)

definition distinct_pending :: "grid_sync \<Rightarrow> bool" where
  "distinct_pending s \<longleftrightarrow> distinct (map fst (gr_pendingOps (gy_grid s)))"

lemma pending_refresh: "distinct_pending s \<Longrightarrow> distinct_pending (refreshSheet s)"
  by (simp add: distinct_pending_def refreshSheet_def Let_def resetSheetCaches_def clear_cell_cache_def)

lemma pending_receive: "distinct_pending s \<Longrightarrow> distinct_pending (receive m s)"
proof (cases m)
  case (Batch_Reply submitted response)
  assume "distinct_pending s"
  with Batch_Reply show ?thesis
    by (simp add: distinct_pending_def batch_saved_def applyCellsFromResponse_def still_pending_def distinct_filtered)
next
  case Batch_Error
  assume "distinct_pending s"
  with Batch_Error show ?thesis
    using pending_refresh [of "s\<lparr> gy_grid := (gy_grid s)\<lparr> gr_isSaving := False \<rparr>, gy_answered := False \<rparr>"]
    by (simp add: saving_ended_def Let_def distinct_pending_def)
next
  case (Tile_Answer tile generation response)
  assume "distinct_pending s"
  with Tile_Answer show ?thesis by (simp add: distinct_pending_def tile_answered_def Let_def load_cells_def)
qed (simp_all add: pending_refresh, simp add: distinct_pending_def applyCellsFromResponse_def)

interpretation pending_queue: event_system "grid_sync_guard in_order" grid_sync_perform distinct_pending for in_order
proof
  show "distinct_pending (grid_sync_perform e s)" if d: "distinct_pending s" "grid_sync_guard in_order s e" for s e
  proof (cases e)
    case (Write_Cell r c t)
    with d show ?thesis by (simp add: distinct_pending_def setCellValue_def Let_def distinct_jmap_set)
  next
    case Message_Arrives
    have "distinct_pending (s\<lparr> gy_queue := rest \<rparr>)" for rest using d(1) by (simp add: distinct_pending_def)
    with Message_Arrives d(1) show ?thesis by (auto split: list.split intro: pending_receive)
  next
    case Save_Ends
    with d(1) pending_receive [of s Batch_Error] show ?thesis by simp
  qed (use d in \<open>auto simp: distinct_pending_def flushPendingOps_def split: option.split prod.split\<close>)
qed

lemma still_pending_all: "distinct (map fst ops) \<Longrightarrow> still_pending ops ops = []"
  by (auto simp: still_pending_def filter_empty_conv jmap_get_def)

lemma batch_cells:
  assumes "batch_update_cells now ops recalculated sheet = (sheet', response)"
  shows "c \<in> set response \<Longrightarrow> fallbackRawInput c = stored_raw sheet' (response_key c)"
    and "stored_raw sheet' k = stored_raw (foldl (\<lambda>sh op. store_op now op sh) sheet ops) k"
  using assms by (auto simp: batch_update_cells_def Let_def)

lemma pending_of_write:
  "jmap_get (gr_pendingOps (setCellValue r c t g)) (r, c) = Some (pending_of r c (normalizeCommittedValue t) (gr_references g))"
  by (simp add: setCellValue_def Let_def getCellKey_def jmap_get_set)

lemma written_op:
  assumes "distinct (map fst (gr_pendingOps g))"
  shows "\<exists>u. ((r, c), u) \<in> set (batch_ops (gr_pendingOps (setCellValue r c t g))) \<and> nullish u [] = js_trim t"
proof -
  let ?op = "pending_of r c (normalizeCommittedValue t) (gr_references g)"
  have "((r, c), ?op) \<in> set (gr_pendingOps (setCellValue r c t g))"
    using pending_of_write [of r c t g] by (auto simp: jmap_get_def dest: map_of_SomeD)
  then have "((r, c), if po_clear ?op then None else po_raw_input ?op) \<in> set (batch_ops (gr_pendingOps (setCellValue r c t g)))"
    by (force simp: batch_ops_def)
  then show ?thesis by (intro exI conjI) (auto simp: pending_of_def Let_def)
qed

text \<open>C18: What is typed is saved: if nothing is being saved or refreshed and no message is on its way, the text of a cell is, after the
  timer, one request and its response, what the server stores and what the grid shows, without outer blanks, and
  nothing is left to save.
\<close>

theorem typed_cell_is_saved:
  assumes "fresh_page s0" "reaches (grid_sync_guard in_order) grid_sync_perform s0 s"
    and "\<not> gr_isSaving (gy_grid s)" "\<not> gr_pendingCanonicalRefresh (gy_grid s)" "gr_canonicalRefreshInFlight (gy_grid s) = 0"
    and "gy_queue s = []"
  shows "\<exists>s'. guarded_run (grid_sync_guard in_order) grid_sync_perform
      [Write_Cell row col t, Flush_Timer, Server_Saves recalculated, Message_Arrives] s = Some s' \<and>
    gr_pendingOps (gy_grid s') = [] \<and> stored_raw (gy_server s') (row, col) = js_trim t \<and>
    getCellRawInput (gy_grid s') row col = js_trim t"
proof -
  have "distinct_pending s0" using assms(1) by (simp add: fresh_page_def distinct_pending_def)
  with assms(2) have d: "distinct (map fst (gr_pendingOps (gy_grid s)))"
    unfolding distinct_pending_def [symmetric] by (rule pending_queue.reaches_inv)
  let ?g = "setCellValue row col t (gy_grid s)"
  let ?p = "gr_pendingOps ?g"
  have dp: "distinct (map fst ?p)" using d by (simp add: setCellValue_def Let_def distinct_jmap_set)
  have ne: "?p \<noteq> []" using pending_of_write [of row col t "gy_grid s"] by (auto simp: jmap_get_def)
  let ?s1 = "s\<lparr> gy_grid := ?g\<lparr> gr_isSaving := True \<rparr>, gy_request := Some ?p, gy_answered := False \<rparr>"
  have flush: "flushPendingOps (s\<lparr> gy_grid := ?g \<rparr>) = ?s1"
    using assms(3-5) ne by (simp add: flushPendingOps_def flush_enabled_def) (simp add: setCellValue_def Let_def)
  obtain sheet response
    where b: "batch_update_cells (gy_now s + 1) (batch_ops ?p) recalculated (gy_server s) = (sheet, response)" by fastforce
  obtain u where u: "((row, col), u) \<in> set (batch_ops ?p)" "nullish u [] = js_trim t" using written_op [OF d] by blast
  have "map fst (batch_ops ?p) = map fst ?p" by (simp add: batch_ops_def comp_def split_def)
  then have stored: "stored_raw sheet (row, col) = js_trim t"
    using stored_raw_ops [OF _ u(1)] dp u(2) unfolding batch_cells(2) [OF b] by simp
  let ?s2 = "?s1\<lparr> gy_request := None, gy_server := sheet, gy_now := gy_now s + 1, gy_queue := [] \<rparr>"
  let ?s' = "batch_saved ?p response ?s2"
  have run: "guarded_run (grid_sync_guard in_order) grid_sync_perform
      [Write_Cell row col t, Flush_Timer, Server_Saves recalculated, Message_Arrives] s = Some ?s'"
    using flush b assms(6) by simp
  have pending: "gr_pendingOps (gy_grid ?s') = []"
    using still_pending_all [OF dp] by (simp add: batch_saved_def applyCellsFromResponse_def)
  have cells: "gr_cells (gy_grid ?s') = foldl (apply_response_cell Local_Source []) (gr_cells ?g) response"
    using still_pending_all [OF dp] by (simp add: batch_saved_def applyCellsFromResponse_def)
  have "raw_of ?g (row, col) = js_trim t" by simp
  note this [unfolded raw_of_key]
  moreover have "jmap_get (gr_cells ?g) (row, col) \<noteq> None"
    by (simp add: setCellValue_def Let_def getCellKey_def jmap_get_set)
  ultimately have "map_option rawInput (jmap_get (gr_cells ?g) (row, col)) = Some (js_trim t)" by auto
  then have "map_option rawInput (jmap_get (gr_cells (gy_grid ?s')) (row, col)) = Some (js_trim t)"
    unfolding cells by (rule merge_response.steps_keep [rotated]) (use batch_cells(1) [OF b] stored in auto)
  then have "raw_of (gy_grid ?s') (row, col) = js_trim t" unfolding raw_of_nullish by (simp only: nullish_simps)
  then have raw: "getCellRawInput (gy_grid ?s') row col = js_trim t" by (simp add: raw_of_def)
  have server: "gy_server ?s' = sheet" by (simp add: batch_saved_def)
  show ?thesis
    by (rule exI [of _ ?s'], intro conjI run pending raw) (simp only: server stored)
qed

theorem typed_cell_is_saved_witness:
  "\<exists>s'. guarded_run (grid_sync_guard True) grid_sync_perform
      [Write_Cell 2 1 '' 8 '', Flush_Timer, Server_Saves [], Message_Arrives] (run_events True sample_saving) = Some s' \<and>
    stored_raw (gy_server s') (2, 1) = ''8''"
proof -
  let ?s = "run_events True sample_saving"
  have f: "fresh_page sample_page" by code_simp
  have "guarded_run (grid_sync_guard True) grid_sync_perform sample_saving sample_page \<noteq> None" by code_simp
  then have r: "reaches (grid_sync_guard True) grid_sync_perform sample_page ?s"
    by (auto simp: run_events_def intro: guarded_run_reaches)
  have q: "\<not> gr_isSaving (gy_grid ?s)" "\<not> gr_pendingCanonicalRefresh (gy_grid ?s)"
    "gr_canonicalRefreshInFlight (gy_grid ?s) = 0" "gy_queue ?s = []" by code_simp+
  have t: "js_trim '' 8 '' = ''8''" by code_simp
  from typed_cell_is_saved [OF f r q, of 2 1 "'' 8 ''" "[]"] show ?thesis unfolding t by blast
qed

section \<open>What the grid does not keep\<close>

text \<open>
  The response of an own batch is merged without looking at the times: if it is overtaken by the newer cells of
  others, it puts the older ones back, and outside of the tiles of the batch nothing repairs them.
\<close>

lemma overtaken_reply_hides_newer_cell:
  "let s = run_events False (sample_opened @
       [Write_Cell 0 0 ''7'', Flush_Timer, Server_Saves [(60, 0)], Peer_Saves [((60, 0), Some ''q'')] [], Overtakes 0,
        Message_Arrives, Message_Arrives, Server_Reads 0, Message_Arrives, Save_Ends])
   in gy_queue s = [] \<and> gy_reads s = [] \<and> gr_pendingOps (gy_grid s) = [] \<and> \<not> gr_isSaving (gy_grid s) \<and>
      getCellRawInput (gy_grid s) 60 0 = ''=A1'' \<and> stored_raw (gy_server s) (60, 0) = ''q''"
  by code_simp

text \<open>
  A cell is cleared here and, before that is saved, by another: the broadcast is dropped, because the cell waits to be
  saved, the batch finds nothing to clear and its response leaves the cell out.  A tile that was read in between has put the
  old text back, and it stays; reading the tile again does not help, because a cleared cell is not read.
\<close>

lemma clear_of_gone_cell_leaves_old_text:
  "let s = run_events True (sample_opened @
       [Write_Cell 2 0 ''n'', Flush_Timer, Server_Saves [], Message_Arrives, Server_Reads 0, Write_Cell 0 0 [], Message_Arrives,
        Save_Ends, Peer_Saves [((0, 0), None)] [], Message_Arrives, Flush_Timer, Server_Saves [], Message_Arrives, Server_Reads 0,
        Message_Arrives, Save_Ends])
   in gy_queue s = [] \<and> gy_reads s = [] \<and> gr_pendingOps (gy_grid s) = [] \<and> \<not> gr_isSaving (gy_grid s) \<and>
      gy_doubt s = [(0, 0)] \<and> getCellRawInput (gy_grid s) 0 0 = ''a'' \<and> stored_raw (gy_server s) (0, 0) = []"
  by code_simp

text \<open>A change of the structure by another user keeps the histories, whose entries name cells by their old places.\<close>

lemma refresh_keeps_history:
  "gr_undoStack (gy_grid (refreshSheet s)) = gr_undoStack (gy_grid s) \<and>
   gr_redoStack (gy_grid (refreshSheet s)) = gr_redoStack (gy_grid s)"
  by (simp add: refreshSheet_def Let_def resetSheetCaches_def clear_cell_cache_def)

text \<open>
  \<open>submitFormulaBarValue\<close> with the response to its operation: what waits for the cell is dropped, also what was typed into
  the cell after the operation was sent.
\<close>

definition formula_bar_saved :: "int \<times> int \<Rightarrow> response_cell list \<Rightarrow> grid \<Rightarrow> grid" where
  "formula_bar_saved target response g =
     (let g1 = applyCellsFromResponse response Local_Source g
      in g1\<lparr> gr_pendingOps := jmap_delete target (gr_pendingOps g1), gr_isSaving := False \<rparr>)"

lemma formula_bar_drops_newer_edit:
  assumes "response_key c = (row, col)"
  shows "let g = formula_bar_saved (row, col) [c] (setCellValue row col t g0)
         in getCellRawInput g row col = fallbackRawInput c \<and> jmap_get (gr_pendingOps g) (row, col) = None \<and>
            gr_undoStack g = gr_undoStack g0"
  using assms
  by (simp add: formula_bar_saved_def Let_def applyCellsFromResponse_def apply_response_cell_def getCellRawInput_def getCellKey_def
      jmap_get_set jmap_get_delete server_cell_def) (simp add: setCellValue_def Let_def)

end
