(* ===== verification/Email_Canvas.thy ===== *)
theory Email_Canvas imports Js_Prelude Js_Text Js_Object Event_System begin

text \<open>
  The canvas of the email builders: blocks in three sections, moved and created by drag and drop
  (\<open>components/mailchimp/email-builder/hooks/useDragAndDrop.ts\<close>, \<open>components/klaviyo/useKlaviyoDragAndDrop.ts\<close>),
  removed, styled and resized (\<open>hooks/useEmailBuilder.ts\<close>, the resize handle of \<open>LayoutBlock.tsx\<close> and
  \<open>handleLayoutColumnsChange\<close> of the mailchimp page), and stored as the content blocks of a Klaviyo draft
  (\<open>lib/utils/klaviyoTransform.ts\<close>).  The attributes that only the renderer reads are kept together in \<open>cb_rest\<close>.
\<close>

section \<open>Blocks\<close>

datatype canvas_block = Canvas_Block
  (cb_id: string)
  (cb_type: string)
  (cb_label: string)
  (cb_section: "string option")
  (cb_columns: "nat option")
  (cb_widths: "int list option")
  (cb_styles: "props option")
  (cb_nested: "canvas_block list list option")
  (cb_rest: props)

datatype canvas_section = Header | Body | Footer

record canvas_blocks =
  cv_header :: "canvas_block list"
  cv_body :: "canvas_block list"
  cv_footer :: "canvas_block list"

fun blocks_in :: "canvas_section \<Rightarrow> canvas_blocks \<Rightarrow> canvas_block list" where
  "blocks_in Header c = cv_header c"
| "blocks_in Body c = cv_body c"
| "blocks_in Footer c = cv_footer c"

fun set_blocks :: "canvas_section \<Rightarrow> canvas_block list \<Rightarrow> canvas_blocks \<Rightarrow> canvas_blocks" where
  "set_blocks Header bs c = c\<lparr> cv_header := bs \<rparr>"
| "set_blocks Body bs c = c\<lparr> cv_body := bs \<rparr>"
| "set_blocks Footer bs c = c\<lparr> cv_footer := bs \<rparr>"

fun with_widths :: "nat option \<Rightarrow> int list option \<Rightarrow> canvas_block \<Rightarrow> canvas_block" where
  "with_widths columns widths (Canvas_Block i t l s _ _ st n r) = Canvas_Block i t l s columns widths st n r"

fun with_styles :: "props option \<Rightarrow> canvas_block \<Rightarrow> canvas_block" where
  "with_styles styles (Canvas_Block i t l s c w _ n r) = Canvas_Block i t l s c w styles n r"

fun with_nested :: "canvas_block list list option \<Rightarrow> canvas_block \<Rightarrow> canvas_block" where
  "with_nested nested (Canvas_Block i t l s c w st _ r) = Canvas_Block i t l s c w st nested r"

section \<open>Creating blocks\<close>

text \<open>Twelve units, the remainder on the first columns.\<close>

definition even_widths :: "nat \<Rightarrow> int list" where
  "even_widths columns =
     (let baseWidth = 12 div columns; remainder = 12 mod columns
      in map (\<lambda>i. int (if i < remainder then baseWidth + 1 else baseWidth)) [0..<columns])"

definition getBlockLabel :: "string \<Rightarrow> string" where
  "getBlockLabel blockType = (if blockType = ''Paragraph'' then ''Text'' else blockType)"

definition getKlaviyoBlockLabel :: "string \<Rightarrow> string" where
  "getKlaviyoBlockLabel blockType =
     (if blockType \<in> {''Paragraph'', ''Heading'', ''Text''} then ''Text''
      else if blockType = ''HeaderBar'' then ''Header bar''
      else if blockType = ''DropShadow'' then ''Drop shadow''
      else if blockType = ''ReviewQuote'' then ''Review quote''
      else if blockType = ''Social'' then ''Social links''
      else if blockType = ''Code'' then ''HTML''
      else blockType)"

definition mapKlaviyoBlockType :: "string \<Rightarrow> string" where
  "mapKlaviyoBlockType blockType =
     (if blockType = ''Text'' then ''Paragraph'' else if blockType = ''Split'' then ''Layout'' else blockType)"

definition heading_styles :: props where
  "heading_styles = [(''fontSize'', JNum ''31''), (''fontWeight'', JStr ''bold''), (''padding'', JStr ''12px'')]"

definition getKlaviyoBlockDefaultStyles :: "string \<Rightarrow> props option" where
  "getKlaviyoBlockDefaultStyles blockType =
     (if blockType = ''Text''
      then Some [(''fontSize'', JNum ''16''), (''fontWeight'', JStr ''normal''), (''padding'', JStr ''12px'')]
      else if blockType = ''Heading'' then Some heading_styles
      else None)"

definition social_link :: "nat \<Rightarrow> string \<Rightarrow> string \<Rightarrow> string \<Rightarrow> string \<Rightarrow> js_val" where
  "social_link now n platform url label =
     JObj [(''id'', JStr (''social-'' @ nat_dec now @ ''-'' @ n)), (''platform'', JStr platform), (''url'', JStr url),
           (''label'', JStr label)]"

text \<open>The attributes a new block of a type starts with; \<open>kind\<close> is the type the other builder knows.\<close>

definition default_rest :: "string \<Rightarrow> nat \<Rightarrow> props" where
  "default_rest kind now =
     (if kind \<in> {''Image'', ''Logo''}
      then [(''imageDisplayMode'', JStr ''Original''), (''imageLinkType'', JStr ''Web''), (''imageLinkValue'', JStr []),
            (''imageOpenInNewTab'', JBool True), (''imageAltText'', JStr []), (''imageScalePercent'', JNum ''85''),
            (''imageAlignment'', JStr ''center'')]
      else if kind = ''Button''
      then [(''buttonBlockStyles'', JObj [(''paddingTop'', JStr ''12px''), (''paddingBottom'', JStr ''12px''),
              (''paddingLeft'', JStr ''24px''), (''paddingRight'', JStr ''24px'')])]
      else if kind = ''Social''
      then [(''socialType'', JStr ''Follow''),
            (''socialLinks'', JArr [social_link now ''1'' ''Facebook'' ''https://facebook.com/'' ''Facebook'',
               social_link now ''2'' ''Instagram'' ''https://instagram.com/'' ''Instagram'',
               social_link now ''3'' ''X'' ''https://x.com/'' ''Twitter''])]
      else [])"

definition block_id :: "string \<Rightarrow> nat \<Rightarrow> string" where
  "block_id blockType now = blockType @ ''-'' @ nat_dec now"

definition new_block :: "string \<Rightarrow> nat option \<Rightarrow> nat \<Rightarrow> canvas_block" where
  "new_block blockType columns now =
     Canvas_Block (block_id blockType now) blockType (getBlockLabel blockType) None columns
       (case columns of Some n \<Rightarrow> if blockType = ''Layout'' \<and> n \<noteq> 0 then Some (even_widths n) else None | None \<Rightarrow> None)
       (if blockType = ''Heading'' then Some heading_styles else None) None
       ((''content'', JStr []) # default_rest blockType now)"

definition klaviyo_content :: "string \<Rightarrow> string" where
  "klaviyo_content blockType = (if blockType = ''Code'' then ''<strong>HTML Block</strong>'' else [])"

definition new_klaviyo_block :: "string \<Rightarrow> nat option \<Rightarrow> nat \<Rightarrow> canvas_block" where
  "new_klaviyo_block blockType columns now =
     Canvas_Block (block_id blockType now) blockType (getKlaviyoBlockLabel blockType) None columns
       (case columns of Some n \<Rightarrow> if mapKlaviyoBlockType blockType = ''Layout'' \<and> n \<noteq> 0 then Some (even_widths n) else None
        | None \<Rightarrow> None)
       (getKlaviyoBlockDefaultStyles blockType) None
       ((''content'', JStr (klaviyo_content blockType)) # default_rest (mapKlaviyoBlockType blockType) now)"

section \<open>Drag and drop\<close>

text \<open>What is dragged: a type from the sidebar or a block of the canvas.\<close>

datatype drag = From_Sidebar string "nat option" | From_Canvas string string canvas_section

text \<open>\<open>handleDrop\<close> for a block of the canvas.\<close>

definition move_block :: "string \<Rightarrow> canvas_section \<Rightarrow> canvas_section \<Rightarrow> nat option \<Rightarrow> canvas_blocks \<Rightarrow> canvas_blocks" where
  "move_block blockId sourceSection sec index prev =
     (let sourceBlocks = blocks_in sourceSection prev; targetBlocks = blocks_in sec prev
      in case find_index (\<lambda>b. cb_id b = blockId) sourceBlocks of
           None \<Rightarrow> prev
         | Some blockIndex \<Rightarrow>
             let blockToMove = sourceBlocks ! blockIndex; targetIndex = nullish index (length targetBlocks)
             in if sourceSection = sec
                then if blockIndex = targetIndex \<or> int blockIndex = int targetIndex - 1 then prev
                     else set_blocks sec
                       (splice_insert (if blockIndex < targetIndex then targetIndex - 1 else targetIndex) blockToMove
                         (splice_remove blockIndex sourceBlocks)) prev
                else set_blocks sec (splice_insert targetIndex blockToMove targetBlocks)
                       (set_blocks sourceSection (filter (\<lambda>b. cb_id b \<noteq> blockId) sourceBlocks) prev))"

definition insert_block :: "canvas_block \<Rightarrow> canvas_section \<Rightarrow> nat option \<Rightarrow> canvas_blocks \<Rightarrow> canvas_blocks" where
  "insert_block b sec index prev =
     set_blocks sec (case index of Some i \<Rightarrow> splice_insert i b (blocks_in sec prev) | None \<Rightarrow> blocks_in sec prev @ [b])
       prev"

definition handleDrop :: "drag \<Rightarrow> canvas_section \<Rightarrow> nat option \<Rightarrow> nat \<Rightarrow> canvas_blocks \<Rightarrow> canvas_blocks" where
  "handleDrop drag sec index now prev =
     (case drag of
        From_Sidebar blockType columns \<Rightarrow>
          if blockType = [] then prev else insert_block (new_block blockType columns now) sec index prev
      | From_Canvas blockType blockId sourceSection \<Rightarrow>
          if blockType = [] then prev
          else if blockId = [] then insert_block (new_block blockType None now) sec index prev
          else move_block blockId sourceSection sec index prev)"

definition klaviyoHandleDrop :: "drag \<Rightarrow> canvas_section \<Rightarrow> nat option \<Rightarrow> nat \<Rightarrow> canvas_blocks \<Rightarrow> canvas_blocks" where
  "klaviyoHandleDrop drag sec index now prev =
     (case drag of
        From_Sidebar blockType columns \<Rightarrow>
          if blockType = [] then prev else insert_block (new_klaviyo_block blockType columns now) sec index prev
      | From_Canvas blockType blockId sourceSection \<Rightarrow>
          if blockId \<noteq> [] then handleDrop drag sec index now prev
          else if blockType = [] then prev
          else insert_block (new_klaviyo_block blockType None now) sec index prev)"

text \<open>The first block with an id, if there is one, is replaced by what \<open>f\<close> makes of it, unless \<open>f\<close> refuses.\<close>

definition update_block ::
  "canvas_section \<Rightarrow> string \<Rightarrow> (canvas_block \<Rightarrow> canvas_block option) \<Rightarrow> canvas_blocks \<Rightarrow> canvas_blocks" where
  "update_block sec blockId f prev =
     (case find_index (\<lambda>b. cb_id b = blockId) (blocks_in sec prev) of
        None \<Rightarrow> prev
      | Some i \<Rightarrow>
          (case f (blocks_in sec prev ! i) of
             None \<Rightarrow> prev
           | Some b \<Rightarrow> set_blocks sec ((blocks_in sec prev)[i := b]) prev))"

text \<open>\<open>handleColumnBlockDrop\<close>; \<open>random\<close> is the random part of the id.\<close>

definition padded_columns :: "nat \<Rightarrow> 'a list list \<Rightarrow> 'a list list" where
  "padded_columns columns xss = xss @ replicate (columns - length xss) []"

definition add_nested :: "canvas_block \<Rightarrow> nat \<Rightarrow> canvas_block \<Rightarrow> canvas_block option" where
  "add_nested b columnIndex layout =
     (let columnBlocks = padded_columns (columnIndex + 1) (nullish (cb_nested layout) [])
      in if cb_id b \<in> cb_id ` set (columnBlocks ! columnIndex) then None
         else Some (with_nested (Some (columnBlocks[columnIndex := columnBlocks ! columnIndex @ [b]])) layout))"

definition section_of_block :: "string \<Rightarrow> canvas_blocks \<Rightarrow> canvas_section option" where
  "section_of_block i c = find (\<lambda>s. i \<in> cb_id ` set (blocks_in s c)) [Header, Body, Footer]"

definition nested_block :: "string \<Rightarrow> nat \<Rightarrow> string \<Rightarrow> canvas_block" where
  "nested_block blockType now random =
     Canvas_Block (block_id blockType now @ ''-'' @ random) blockType (getKlaviyoBlockLabel blockType) None None None
       (getKlaviyoBlockDefaultStyles blockType) None
       ((''content'', JStr (klaviyo_content blockType)) # default_rest (mapKlaviyoBlockType blockType) now)"

definition handleColumnBlockDrop :: "drag \<Rightarrow> string \<Rightarrow> nat \<Rightarrow> nat \<Rightarrow> string \<Rightarrow> canvas_blocks \<Rightarrow> canvas_blocks" where
  "handleColumnBlockDrop drag layoutBlockId columnIndex now random prev =
     (let blockType = (case drag of From_Sidebar t _ \<Rightarrow> t | From_Canvas t _ _ \<Rightarrow> t);
          moves = (case drag of From_Sidebar _ _ \<Rightarrow> False | From_Canvas _ i _ \<Rightarrow> i \<noteq> [])
      in if moves \<or> blockType \<in> {[], ''Layout'', ''Split''} then prev
         else case section_of_block layoutBlockId prev of
                None \<Rightarrow> prev
              | Some sec \<Rightarrow> update_block sec layoutBlockId (add_nested (nested_block blockType now random) columnIndex) prev)"

section \<open>Changing blocks\<close>

definition spread_props :: "props \<Rightarrow> props \<Rightarrow> props" where
  "spread_props base updates = foldl (\<lambda>m (k, v). jmap_set k v m) base updates"

definition updateTextBlockStyles :: "canvas_section \<Rightarrow> string \<Rightarrow> props \<Rightarrow> canvas_blocks \<Rightarrow> canvas_blocks" where
  "updateTextBlockStyles sec blockId styleUpdates =
     update_block sec blockId (\<lambda>b. Some (with_styles (Some (spread_props (nullish (cb_styles b) []) styleUpdates)) b))"

definition padding_keys :: "string list" where
  "padding_keys = [''padding'', ''paddingTop'', ''paddingRight'', ''paddingBottom'', ''paddingLeft'']"

text \<open>\<open>handleStyleChange\<close> for the selected block.\<close>

definition handleStyleChange :: "(canvas_section \<times> string) option \<Rightarrow> props \<Rightarrow> canvas_blocks \<Rightarrow> canvas_blocks" where
  "handleStyleChange selected styleUpdates c =
     (case selected of
        None \<Rightarrow> c
      | Some (sec, blockId) \<Rightarrow>
          let blockData = find (\<lambda>b. cb_id b = blockId) (blocks_in sec c);
              styles = (case blockData of Some b \<Rightarrow> nullish (cb_styles b) [] | None \<Rightarrow> []);
              heading = (case blockData of Some b \<Rightarrow> cb_type b = ''Heading'' | None \<Rightarrow> False);
              explicit = list_ex (\<lambda>k. jmap_get styles k \<noteq> None) padding_keys
          in updateTextBlockStyles sec blockId
               (if jmap_get styleUpdates ''textAlign'' \<noteq> None \<and> heading \<and> \<not> explicit
                then jmap_set ''padding'' (JStr ''12px'') styleUpdates else styleUpdates) c)"

definition removeBlock :: "canvas_section \<Rightarrow> string \<Rightarrow> canvas_blocks \<Rightarrow> canvas_blocks" where
  "removeBlock sec blockId prev = set_blocks sec (filter (\<lambda>b. cb_id b \<noteq> blockId) (blocks_in sec prev)) prev"

definition current_widths :: "canvas_block \<Rightarrow> int list option" where
  "current_widths b =
     (case cb_widths b of
        Some ws \<Rightarrow> Some ws
      | None \<Rightarrow> (case cb_columns b of None \<Rightarrow> None | Some n \<Rightarrow> if n = 0 then None else Some (even_widths n)))"

definition resized_layout :: "nat \<Rightarrow> int \<Rightarrow> canvas_block \<Rightarrow> canvas_block option" where
  "resized_layout columnIndex delta b =
     (case current_widths b of
        None \<Rightarrow> None
      | Some ws \<Rightarrow>
          if columnIndex + 1 \<ge> length ws then None
          else let newLeftWidth = ws ! columnIndex + delta; newRightWidth = ws ! (columnIndex + 1) - delta
               in if newLeftWidth < 3 \<or> newRightWidth < 3 then None
                  else Some (with_widths (cb_columns b) (Some (ws[columnIndex := newLeftWidth, columnIndex + 1 := newRightWidth])) b))"

definition updateLayoutColumns :: "canvas_section \<Rightarrow> string \<Rightarrow> nat \<Rightarrow> int \<Rightarrow> canvas_blocks \<Rightarrow> canvas_blocks" where
  "updateLayoutColumns sec blockId columnIndex delta = update_block sec blockId (resized_layout columnIndex delta)"

definition handleLayoutColumnsChange :: "(canvas_section \<times> string) option \<Rightarrow> nat \<Rightarrow> canvas_blocks \<Rightarrow> canvas_blocks" where
  "handleLayoutColumnsChange selected columns c =
     (case selected of
        None \<Rightarrow> c
      | Some (sec, blockId) \<Rightarrow>
          if map_option cb_type (find (\<lambda>b. cb_id b = blockId) (blocks_in sec c)) \<noteq> Some ''Layout'' then c
          else update_block sec blockId (\<lambda>b. Some (with_widths (Some columns) (Some (even_widths columns)) b)) c)"

definition moveBlockUp :: "canvas_section \<Rightarrow> string \<Rightarrow> canvas_blocks \<Rightarrow> canvas_blocks" where
  "moveBlockUp sec blockId prev =
     (case find_index (\<lambda>b. cb_id b = blockId) (blocks_in sec prev) of
        None \<Rightarrow> prev
      | Some i \<Rightarrow>
          if i = 0 then prev
          else set_blocks sec
            (splice_insert (i - 1) (blocks_in sec prev ! i) (splice_remove i (blocks_in sec prev))) prev)"

definition moveBlockDown :: "canvas_section \<Rightarrow> string \<Rightarrow> canvas_blocks \<Rightarrow> canvas_blocks" where
  "moveBlockDown sec blockId prev =
     (case find_index (\<lambda>b. cb_id b = blockId) (blocks_in sec prev) of
        None \<Rightarrow> prev
      | Some i \<Rightarrow>
          if i + 1 = length (blocks_in sec prev) then prev
          else set_blocks sec
            (splice_insert (i + 1) (blocks_in sec prev ! i) (splice_remove i (blocks_in sec prev))) prev)"

text \<open>The resize handle of a layout while the mouse moves: \<open>moved\<close> is the distance in grid units.\<close>

record resize_drag =
  rd_column :: nat
  rd_accumulated :: int

definition resize_moved :: "canvas_section \<Rightarrow> string \<Rightarrow> int \<Rightarrow> resize_drag \<times> canvas_blocks \<Rightarrow> resize_drag \<times> canvas_blocks" where
  "resize_moved sec blockId moved state =
     (let (d, c) = state; incrementalDelta = moved - rd_accumulated d
      in if \<bar>incrementalDelta\<bar> \<ge> 1
         then (d\<lparr> rd_accumulated := moved \<rparr>, updateLayoutColumns sec blockId (rd_column d) incrementalDelta c)
         else state)"

section \<open>Klaviyo drafts\<close>

record block_content =
  ct_id :: "string option"
  ct_type :: "string option"
  ct_label :: "string option"
  ct_section :: "string option"
  ct_columns :: "nat option"
  ct_widths :: "int list option"
  ct_styles :: "props option"
  ct_nested :: "canvas_block list list option"
  ct_rest :: props

text \<open>A block as the server sends it; \<open>None\<close> is a content that does not parse, or is \<open>null\<close>.\<close>

record draft_block =
  kb_type :: string
  kb_content :: "block_content option"
  kb_order :: int

record stored_block = draft_block +
  kb_id :: int

definition loaded_block :: "string \<Rightarrow> int \<Rightarrow> block_content \<Rightarrow> canvas_block" where
  "loaded_block type i content =
     Canvas_Block (nullish (ct_id content) (type @ ''-'' @ int_dec i)) (nullish (ct_type content) type)
       (nullish (ct_label content) type) (ct_section content) (ct_columns content) (ct_widths content) (ct_styles content)
       (ct_nested content) (ct_rest content)"

definition content_section :: "block_content \<Rightarrow> canvas_section" where
  "content_section content =
     (if ct_section content = Some ''header'' then Header else if ct_section content = Some ''footer'' then Footer else Body)"

definition load_block :: "canvas_blocks \<Rightarrow> stored_block \<Rightarrow> canvas_blocks" where
  "load_block c b =
     (case kb_content b of
        None \<Rightarrow> c
      | Some content \<Rightarrow>
          let sec = content_section content
          in set_blocks sec (blocks_in sec c @ [loaded_block (kb_type b) (kb_id b) content]) c)"

definition contentBlocksToCanvasBlocks :: "stored_block list \<Rightarrow> canvas_blocks" where
  "contentBlocksToCanvasBlocks blocks =
     foldl load_block \<lparr> cv_header = [], cv_body = [], cv_footer = [] \<rparr> (js_sort (\<lambda>a b. kb_order a - kb_order b) blocks)"

fun section_name :: "canvas_section \<Rightarrow> string" where
  "section_name Header = ''header''"
| "section_name Body = ''body''"
| "section_name Footer = ''footer''"

definition content_of :: "canvas_section \<Rightarrow> canvas_block \<Rightarrow> block_content" where
  "content_of sec b =
     \<lparr> ct_id = None, ct_type = None, ct_label = None, ct_section = Some (section_name sec), ct_columns = cb_columns b,
       ct_widths = cb_widths b, ct_styles = cb_styles b, ct_nested = cb_nested b, ct_rest = cb_rest b \<rparr>"

definition canvas_order :: "canvas_blocks \<Rightarrow> (canvas_section \<times> canvas_block) list" where
  "canvas_order c = map (Pair Header) (cv_header c) @ map (Pair Body) (cv_body c) @ map (Pair Footer) (cv_footer c)"

definition canvasBlocksToContentBlocks :: "canvas_blocks \<Rightarrow> draft_block list" where
  "canvasBlocksToContentBlocks c =
     map (\<lambda>(i, s, b). \<lparr> kb_type = cb_type b, kb_content = Some (content_of s b), kb_order = int i \<rparr>) (enumerate 0 (canvas_order c))"

text \<open>The template of a new draft.\<close>

definition default_block :: "string \<Rightarrow> nat \<Rightarrow> nat \<Rightarrow> props option \<Rightarrow> props \<Rightarrow> canvas_block" where
  "default_block blockType timestamp n styles rest =
     Canvas_Block (block_id blockType timestamp @ ''-'' @ nat_dec n) blockType blockType None None None styles None rest"

definition small_grey :: props where
  "small_grey = [(''fontSize'', JNum ''12''), (''color'', JStr ''#6b7280''), (''textAlign'', JStr ''center'')]"

definition template_link :: "string \<Rightarrow> string \<Rightarrow> js_val" where
  "template_link i platform = JObj [(''id'', JStr i), (''platform'', JStr platform), (''url'', JStr []), (''label'', JStr platform)]"

definition createDefaultCanvasBlocks :: "nat \<Rightarrow> canvas_blocks" where
  "createDefaultCanvasBlocks timestamp =
     \<lparr> cv_header =
         [default_block ''Paragraph'' timestamp 1 (Some small_grey) [(''content'', JStr ''View this email in your browser'')],
          default_block ''Logo'' timestamp 2 None [(''content'', JStr ''Logo'')]],
       cv_body =
         [default_block ''Heading'' timestamp 3
            (Some [(''fontSize'', JNum ''24''), (''fontWeight'', JStr ''bold''), (''textAlign'', JStr ''center''),
               (''color'', JStr ''#111827'')])
            [(''content'', JStr ''Heading'')],
          default_block ''Paragraph'' timestamp 4
            (Some [(''fontSize'', JNum ''14''), (''color'', JStr ''#374151''), (''textAlign'', JStr ''left'')])
            [(''content'', JStr (''Lorem ipsum dolor sit amet, consectetur adipiscing elit. Sed do eiusmod tempor '' @
               ''incididunt ut labore et dolore magna aliqua.''))],
          default_block ''Button'' timestamp 5 None
            [(''content'', JStr ''Button''), (''buttonLinkType'', JStr ''Web''), (''buttonLinkValue'', JStr []),
             (''buttonOpenInNewTab'', JBool True), (''buttonBlockStyles'', JObj []), (''buttonShape'', JStr ''Square''),
             (''buttonAlignment'', JStr ''center''), (''buttonTextColor'', JStr ''#ffffff''),
             (''buttonBackgroundColor'', JStr ''#111827'')]],
       cv_footer =
         [default_block ''Social'' timestamp 6 None
            [(''socialLinks'', JArr [template_link ''x'' ''X'', template_link ''facebook'' ''Facebook'',
                template_link ''instagram'' ''Instagram'']),
             (''socialAlignment'', JStr ''center'')],
          default_block ''Paragraph'' timestamp 7 (Some small_grey)
            [(''content'', JStr (''No longer want to receive these emails? {% unsubscribe %}'' @ [CHR 0x0A] @
               ''Organization Name, Address''))]] \<rparr>"

text \<open>What opening a draft shows; a draft without blocks gets the default template, which is also stored.\<close>

definition opened_draft :: "nat \<Rightarrow> stored_block list \<Rightarrow> canvas_blocks" where
  "opened_draft timestamp blocks =
     (if blocks \<noteq> [] then contentBlocksToCanvasBlocks blocks else createDefaultCanvasBlocks timestamp)"

section \<open>All blocks of a canvas\<close>

definition all_blocks :: "canvas_blocks \<Rightarrow> canvas_block list" where
  "all_blocks c = cv_header c @ cv_body c @ cv_footer c"

definition canvas_ids :: "canvas_blocks \<Rightarrow> string list" where
  "canvas_ids c = map cb_id (all_blocks c)"

lemma blocks_in_set [simp]: "blocks_in s (set_blocks s' bs c) = (if s = s' then bs else blocks_in s c)"
  by (cases s; cases s') simp_all

lemma set_all_blocks: "b \<in> set (all_blocks c) \<longleftrightarrow> (\<exists>s. b \<in> set (blocks_in s c))"
proof
  assume "b \<in> set (all_blocks c)"
  then have "b \<in> set (blocks_in Header c) \<or> b \<in> set (blocks_in Body c) \<or> b \<in> set (blocks_in Footer c)"
    by (simp add: all_blocks_def)
  then show "\<exists>s. b \<in> set (blocks_in s c)" by blast
next
  assume "\<exists>s. b \<in> set (blocks_in s c)"
  then obtain s where "b \<in> set (blocks_in s c)" ..
  then show "b \<in> set (all_blocks c)" by (cases s) (simp_all add: all_blocks_def)
qed

lemma blocks_in_all: "b \<in> set (blocks_in s c) \<Longrightarrow> b \<in> set (all_blocks c)"
  by (auto simp: set_all_blocks)

lemma mset_all_blocks: "mset (all_blocks c) = mset (blocks_in Header c) + mset (blocks_in Body c) + mset (blocks_in Footer c)"
  by (simp add: all_blocks_def)

lemma mset_set_blocks: "mset (all_blocks (set_blocks s bs c)) + mset (blocks_in s c) = mset (all_blocks c) + mset bs"
  by (cases s) (simp_all add: all_blocks_def)

lemma distinct_ids_mset: "mset xs = mset ys \<Longrightarrow> distinct (map cb_id xs) \<longleftrightarrow> distinct (map cb_id ys)"
  by (rule mset_eq_imp_distinct_iff) simp

lemma distinct_in_section: "distinct (canvas_ids c) \<Longrightarrow> distinct (map cb_id (blocks_in s c))"
  by (cases s) (simp_all add: canvas_ids_def all_blocks_def)

text \<open>A block stands in one section only.\<close>

lemma one_section:
  "distinct (canvas_ids c) \<Longrightarrow> b \<in> set (blocks_in s c) \<Longrightarrow> b' \<in> set (blocks_in s' c) \<Longrightarrow> cb_id b = cb_id b' \<Longrightarrow> s = s' \<and> b = b'"
  by (cases s; cases s') (auto simp: canvas_ids_def all_blocks_def distinct_map inj_on_def; blast)+

section \<open>What a drop does\<close>

abbreviation without :: "string \<Rightarrow> canvas_block list \<Rightarrow> canvas_block list" where
  "without i bs \<equiv> filter (\<lambda>b. cb_id b \<noteq> i) bs"

lemma find_id_index:
  "distinct (map cb_id (ys @ b # zs)) \<Longrightarrow> find_index (\<lambda>x. cb_id x = cb_id b) (ys @ b # zs) = Some (length ys)"
  by (induction ys) auto

lemma without_absent: "i \<notin> cb_id ` set bs \<Longrightarrow> without i bs = bs"
  by (intro filter_True) (auto simp: image_iff)

lemma without_split:
  assumes "distinct (map cb_id (ys @ b # zs))"
  shows "without (cb_id b) ys = ys" "without (cb_id b) zs = zs"
  using assms by (intro without_absent; simp)+

lemma moved_within:
  assumes d: "distinct (map cb_id (ys @ b # zs))" and i: "i = length ys"
  shows "(if i = t \<or> int i = int t - 1 then ys @ b # zs
          else splice_insert (if i < t then t - 1 else t) b (splice_remove i (ys @ b # zs))) =
         without (cb_id b) (take t (ys @ b # zs)) @ b # without (cb_id b) (drop t (ys @ b # zs))"
proof -
  note w = without_split [OF d]
  have wt: "without (cb_id b) (take n zs) = take n zs" "without (cb_id b) (drop n zs) = drop n zs"
    "without (cb_id b) (take n ys) = take n ys" "without (cb_id b) (drop n ys) = drop n ys" for n
    using d by (intro without_absent; auto dest!: in_set_takeD in_set_dropD simp: image_iff)+
  consider "t \<le> i" | "t = Suc i" | k where "t = Suc (Suc (i + k))"
    by (metis Suc_leI add_Suc_right le_eq_less_or_eq less_iff_Suc_add not_le_imp_less)
  then show ?thesis
    by cases (use i w wt in \<open>auto simp: splice_insert_def splice_remove_def\<close>)
qed

lemma move_block_blocks:
  assumes d: "distinct (canvas_ids c)" and b: "b \<in> set (blocks_in src c)"
  shows "blocks_in s (move_block (cb_id b) src dst index c) =
    (if s = dst then without (cb_id b) (take (nullish index (length (blocks_in dst c))) (blocks_in dst c)) @
       b # without (cb_id b) (drop (nullish index (length (blocks_in dst c))) (blocks_in dst c))
     else without (cb_id b) (blocks_in s c))"
proof -
  obtain ys zs where split: "blocks_in src c = ys @ b # zs" using b by (meson split_list)
  have d': "distinct (map cb_id (ys @ b # zs))" using distinct_in_section [OF d, of src] split by simp
  have other: "without (cb_id b) (blocks_in s' c) = blocks_in s' c" if "s' \<noteq> src" for s'
    using one_section [OF d b] that by (auto intro!: filter_True)
  note idx = find_id_index [OF d']
  show ?thesis
  proof (cases "src = dst")
    case True
    then have sp: "blocks_in dst c = ys @ b # zs" using split by simp
    define t where "t = nullish index (length (ys @ b # zs))"
    have "blocks_in s (move_block (cb_id b) dst dst index c) =
        (if s = dst then if length ys = t \<or> int (length ys) = int t - 1 then ys @ b # zs
           else splice_insert (if length ys < t then t - 1 else t) b (splice_remove (length ys) (ys @ b # zs))
         else blocks_in s c)"
      using sp idx by (auto simp: move_block_def Let_def t_def)
    then show ?thesis using True sp other [of s] moved_within [OF d' refl, of t] by (auto simp: t_def)
  next
    case False
    have "without (cb_id b) (take n (blocks_in dst c)) = take n (blocks_in dst c)"
      "without (cb_id b) (drop n (blocks_in dst c)) = drop n (blocks_in dst c)" for n
      using one_section [OF d b] False by (auto intro!: filter_True dest: in_set_takeD in_set_dropD)
    then show ?thesis using False split idx other [of s] by (simp add: move_block_def Let_def splice_insert_def)
  qed
qed

lemma mset_without: "distinct (map cb_id bs) \<Longrightarrow> b \<in> set bs \<Longrightarrow> add_mset b (mset (without (cb_id b) bs)) = mset bs"
proof -
  assume d: "distinct (map cb_id bs)" and "b \<in> set bs"
  then obtain ys zs where "bs = ys @ b # zs" by (meson split_list)
  with d show ?thesis using without_split [of ys b zs] by simp
qed

text \<open>Moving a block keeps every block.\<close>

lemma move_block_mset:
  assumes d: "distinct (canvas_ids c)"
  shows "mset (all_blocks (move_block i src dst index c)) = mset (all_blocks c)"
proof (cases "i \<in> cb_id ` set (blocks_in src c)")
  case False
  then have "find_index (\<lambda>b. cb_id b = i) (blocks_in src c) = None" by (auto simp: find_index_None)
  then show ?thesis by (simp add: move_block_def)
next
  case True
  then obtain b where b: "b \<in> set (blocks_in src c)" and i: "i = cb_id b" by auto
  let ?t = "nullish index (length (blocks_in dst c))"
  have dst: "mset (without i (take ?t (blocks_in dst c))) + mset (without i (drop ?t (blocks_in dst c))) =
      mset (without i (blocks_in dst c))"
    by (metis append_take_drop_id filter_append mset_append)
  have sec: "mset (blocks_in s (move_block i src dst index c)) =
      (if s = dst then {#b#} else {#}) + mset (without i (blocks_in s c))" for s
    using dst unfolding i move_block_blocks [OF d b] by auto
  have "mset (all_blocks (move_block i src dst index c)) = add_mset b (mset (without i (all_blocks c)))"
    unfolding mset_all_blocks sec by (cases dst) (simp_all add: all_blocks_def)
  also have "\<dots> = mset (all_blocks c)"
    using mset_without [of "all_blocks c" b] d blocks_in_all [OF b] by (simp add: i canvas_ids_def)
  finally show ?thesis .
qed

section \<open>Editing a canvas\<close>

datatype canvas_event =
    Drop drag canvas_section "nat option" nat
  | Klaviyo_Drop drag canvas_section "nat option" nat
  | Column_Drop drag string nat nat string
  | Remove_Block canvas_section string
  | Style_Changed "(canvas_section \<times> string) option" props
  | Handle_Moved canvas_section string nat int
  | Columns_Chosen "(canvas_section \<times> string) option" nat
  | Move_Up canvas_section string
  | Move_Down canvas_section string

fun canvas_perform :: "canvas_event \<Rightarrow> canvas_blocks \<Rightarrow> canvas_blocks" where
  "canvas_perform (Drop d s index now) c = handleDrop d s index now c"
| "canvas_perform (Klaviyo_Drop d s index now) c = klaviyoHandleDrop d s index now c"
| "canvas_perform (Column_Drop d i column now random) c = handleColumnBlockDrop d i column now random c"
| "canvas_perform (Remove_Block s i) c = removeBlock s i c"
| "canvas_perform (Style_Changed selected updates) c = handleStyleChange selected updates c"
| "canvas_perform (Handle_Moved s i column delta) c = updateLayoutColumns s i column delta c"
| "canvas_perform (Columns_Chosen selected n) c = handleLayoutColumnsChange selected n c"
| "canvas_perform (Move_Up s i) c = moveBlockUp s i c"
| "canvas_perform (Move_Down s i) c = moveBlockDown s i c"

text \<open>The palettes offer one to four columns, and two drops have two clock readings.\<close>

definition offered_columns :: "nat \<Rightarrow> bool" where
  "offered_columns n \<longleftrightarrow> 1 \<le> n \<and> n \<le> 4"

definition drop_possible :: "canvas_blocks \<Rightarrow> drag \<Rightarrow> nat \<Rightarrow> bool" where
  "drop_possible c d now \<longleftrightarrow>
     (case d of
        From_Sidebar blockType columns \<Rightarrow>
          block_id blockType now \<notin> set (canvas_ids c) \<and> (case columns of None \<Rightarrow> True | Some n \<Rightarrow> offered_columns n)
      | From_Canvas _ blockId _ \<Rightarrow> blockId \<noteq> [])"

fun canvas_guard :: "canvas_blocks \<Rightarrow> canvas_event \<Rightarrow> bool" where
  "canvas_guard c (Drop d _ _ now) = drop_possible c d now"
| "canvas_guard c (Klaviyo_Drop d _ _ now) = drop_possible c d now"
| "canvas_guard c (Columns_Chosen _ n) = offered_columns n"
| "canvas_guard c _ = True"

text \<open>The twelve units of a layout are shared out, three at least to every column.\<close>

definition widths_fill :: "int list \<Rightarrow> bool" where
  "widths_fill ws \<longleftrightarrow> sum_list ws = 12 \<and> (\<forall>w \<in> set ws. 3 \<le> w)"

definition email_block_fits :: "canvas_block \<Rightarrow> bool" where
  "email_block_fits b \<longleftrightarrow>
     (\<forall>ws. cb_widths b = Some ws \<longrightarrow> widths_fill ws) \<and>
     (\<forall>n. cb_columns b = Some n \<longrightarrow> cb_widths b = None \<longrightarrow> n \<le> 4) \<and>
     (\<forall>column \<in> set (nullish (cb_nested b) []). distinct (map cb_id column))"

definition canvas_fits :: "canvas_blocks \<Rightarrow> bool" where
  "canvas_fits c \<longleftrightarrow> distinct (canvas_ids c) \<and> (\<forall>b \<in> set (all_blocks c). email_block_fits b)"

lemma block_parts [simp]:
  "cb_id (with_widths n ws b) = cb_id b" "cb_columns (with_widths n ws b) = n" "cb_widths (with_widths n ws b) = ws"
  "cb_nested (with_widths n ws b) = cb_nested b"
  "cb_id (with_styles st b) = cb_id b" "cb_columns (with_styles st b) = cb_columns b"
  "cb_widths (with_styles st b) = cb_widths b" "cb_nested (with_styles st b) = cb_nested b"
  "cb_id (with_nested ns b) = cb_id b" "cb_columns (with_nested ns b) = cb_columns b"
  "cb_widths (with_nested ns b) = cb_widths b" "cb_nested (with_nested ns b) = ns"
  by (cases b, simp)+

lemma even_widths_fill: "offered_columns n \<Longrightarrow> widths_fill (even_widths n)"
proof -
  assume "offered_columns n"
  then have "n = 1 \<or> n = 2 \<or> n = 3 \<or> n = 4" by (auto simp: offered_columns_def)
  then show ?thesis by (elim disjE) (simp_all add: widths_fill_def even_widths_def upt_rec)
qed

lemma canvas_fits_mset: "mset (all_blocks c') = mset (all_blocks c) \<Longrightarrow> canvas_fits c \<Longrightarrow> canvas_fits c'"
  using distinct_ids_mset [of "all_blocks c'" "all_blocks c"] mset_eq_setD [of "all_blocks c'" "all_blocks c"]
  by (simp add: canvas_fits_def canvas_ids_def)

lemma canvas_fits_insert:
  assumes "canvas_fits c" "cb_id b \<notin> set (canvas_ids c)" "email_block_fits b"
  shows "canvas_fits (insert_block b s index c)"
proof -
  have "mset (all_blocks (insert_block b s index c)) = mset (b # all_blocks c)"
    using mset_set_blocks [of s "case index of Some i \<Rightarrow> splice_insert i b (blocks_in s c) | None \<Rightarrow> blocks_in s c @ [b]" c]
    by (simp add: insert_block_def split: option.splits)
  then show ?thesis
    using assms distinct_ids_mset [of "all_blocks (insert_block b s index c)" "b # all_blocks c"]
      mset_eq_setD [of "all_blocks (insert_block b s index c)" "b # all_blocks c"]
    by (simp add: canvas_fits_def canvas_ids_def)
qed

text \<open>Replacing a block by one with the same id.\<close>

lemma canvas_fits_update:
  assumes c: "canvas_fits c" and f: "\<And>b b'. f b = Some b' \<Longrightarrow> email_block_fits b \<Longrightarrow> email_block_fits b' \<and> cb_id b' = cb_id b"
  shows "canvas_fits (update_block s i f c)"
proof (cases "find_index (\<lambda>b. cb_id b = i) (blocks_in s c)")
  case None
  with c show ?thesis by (simp add: update_block_def)
next
  case (Some j)
  then have j: "j < length (blocks_in s c)" by (rule find_index_Some [THEN conjunct1])
  show ?thesis
  proof (cases "f (blocks_in s c ! j)")
    case None
    with c Some show ?thesis by (simp add: update_block_def)
  next
    case b: (Some b)
    let ?c = "set_blocks s ((blocks_in s c)[j := b]) c"
    have "email_block_fits (blocks_in s c ! j)" using c nth_mem [OF j, THEN blocks_in_all] by (simp add: canvas_fits_def)
    with f b have fits: "email_block_fits b" and i: "cb_id b = cb_id (blocks_in s c ! j)" by blast+
    have "map cb_id ((blocks_in s c)[j := b]) = map cb_id (blocks_in s c)"
      using i by (metis list_update_id map_update)
    then have "canvas_ids ?c = canvas_ids c" by (cases s) (simp_all add: canvas_ids_def all_blocks_def)
    moreover have "email_block_fits x" if x: "x \<in> set (all_blocks ?c)" for x
    proof -
      obtain s' where "x \<in> set (blocks_in s' ?c)" using set_all_blocks [THEN iffD1, OF x] ..
      then have "x = b \<or> x \<in> set (blocks_in s' c)"
        by (auto split: if_splits dest: set_update_subset_insert [THEN subsetD])
      with fits c show ?thesis by (auto simp: canvas_fits_def intro: blocks_in_all)
    qed
    ultimately show ?thesis using c Some b by (simp add: update_block_def canvas_fits_def)
  qed
qed

lemma new_block_fits:
  assumes "case columns of None \<Rightarrow> True | Some n \<Rightarrow> offered_columns n"
  shows "email_block_fits (new_block t columns now)" "email_block_fits (new_klaviyo_block t columns now)"
  using assms even_widths_fill
  by (auto simp: new_block_def new_klaviyo_block_def email_block_fits_def offered_columns_def split: option.splits if_splits)

lemma new_block_id [simp]: "cb_id (new_block t columns now) = block_id t now" "cb_id (new_klaviyo_block t columns now) = block_id t now"
  by (simp_all add: new_block_def new_klaviyo_block_def)

lemma move_fits: "canvas_fits c \<Longrightarrow> canvas_fits (move_block i src dst index c)"
  by (rule canvas_fits_mset [OF move_block_mset]) (simp_all add: canvas_fits_def)

lemma drop_fits:
  assumes c: "canvas_fits c" and d: "drop_possible c d now"
  shows "canvas_fits (handleDrop d s index now c) \<and> canvas_fits (klaviyoHandleDrop d s index now c)"
proof (cases d)
  case (From_Sidebar t columns)
  with d have "block_id t now \<notin> set (canvas_ids c)" and "case columns of None \<Rightarrow> True | Some n \<Rightarrow> offered_columns n"
    by (simp_all add: drop_possible_def)
  with c new_block_fits show "canvas_fits (handleDrop d s index now c) \<and> canvas_fits (klaviyoHandleDrop d s index now c)"
    by (simp_all add: From_Sidebar handleDrop_def klaviyoHandleDrop_def canvas_fits_insert)
next
  case (From_Canvas t i src)
  with c d move_fits show "canvas_fits (handleDrop d s index now c) \<and> canvas_fits (klaviyoHandleDrop d s index now c)"
    by (simp_all add: handleDrop_def klaviyoHandleDrop_def drop_possible_def)
qed

lemma padded_all: "column \<in> set (padded_columns n xss) \<Longrightarrow> column \<in> set xss \<or> column = []"
  by (auto simp: padded_columns_def)

lemma add_nested_fits: "add_nested b column layout = Some b' \<Longrightarrow> email_block_fits layout \<Longrightarrow> email_block_fits b' \<and> cb_id b' = cb_id layout"
proof -
  assume n: "add_nested b column layout = Some b'" and l: "email_block_fits layout"
  define cs where "cs = padded_columns (column + 1) (nullish (cb_nested layout) [])"
  have len: "column < length cs" by (simp add: cs_def padded_columns_def)
  have d: "distinct (map cb_id x)" if "x \<in> set cs" for x
    using padded_all [OF that [unfolded cs_def]] l by (auto simp: email_block_fits_def)
  have b: "cb_id b \<notin> cb_id ` set (cs ! column)" "b' = with_nested (Some (cs[column := cs ! column @ [b]])) layout"
    using n by (auto simp: add_nested_def cs_def Let_def split: if_splits)
  have "distinct (map cb_id x)" if "x \<in> set (cs[column := cs ! column @ [b]])" for x
  proof -
    have "x = cs ! column @ [b] \<or> x \<in> set cs" using that set_update_subset_insert by fast
    with b(1) d nth_mem [OF len] show ?thesis by auto
  qed
  with l b(2) show ?thesis by (simp add: email_block_fits_def)
qed

lemma sum_list_set: "i < length ws \<Longrightarrow> sum_list (ws[i := x]) = sum_list ws - ws ! i + (x :: int)"
  by (induction ws arbitrary: i) (auto split: nat.split)

lemma sum_list_moved:
  fixes ws :: "int list"
  assumes "i + 1 < length ws"
  shows "sum_list (ws[i := ws ! i + d, i + 1 := ws ! (i + 1) - d]) = sum_list ws"
  using assms by (simp add: sum_list_set)

lemma current_widths_fill: "email_block_fits b \<Longrightarrow> current_widths b = Some ws \<Longrightarrow> widths_fill ws"
  using even_widths_fill by (auto simp: current_widths_def email_block_fits_def offered_columns_def split: option.splits if_splits)

lemma resized_fits: "resized_layout i d b = Some b' \<Longrightarrow> email_block_fits b \<Longrightarrow> email_block_fits b' \<and> cb_id b' = cb_id b"
proof -
  assume r: "resized_layout i d b = Some b'" and b: "email_block_fits b"
  then obtain ws where ws: "current_widths b = Some ws" "i + 1 < length ws" "3 \<le> ws ! i + d" "3 \<le> ws ! (i + 1) - d"
    and b': "b' = with_widths (cb_columns b) (Some (ws[i := ws ! i + d, i + 1 := ws ! (i + 1) - d])) b"
    by (auto simp: resized_layout_def Let_def not_less split: option.splits if_splits)
  have "widths_fill ws" using b ws(1) by (rule current_widths_fill)
  then have "sum_list (ws[i := ws ! i + d, i + 1 := ws ! (i + 1) - d]) = 12"
    "\<forall>w \<in> set (ws[i := ws ! i + d, i + 1 := ws ! (i + 1) - d]). 3 \<le> w"
    using ws(3,4) sum_list_moved [OF ws(2), of d]
    by (auto simp: widths_fill_def dest!: set_update_subset_insert [THEN subsetD])
  then show ?thesis using b b' by (simp add: email_block_fits_def widths_fill_def)
qed

lemma moved_up_down_fits:
  assumes "canvas_fits c"
  shows "canvas_fits (moveBlockUp s i c)" "canvas_fits (moveBlockDown s i c)"
proof -
  have m: "canvas_fits (set_blocks s (splice_insert k (blocks_in s c ! j) (splice_remove j (blocks_in s c))) c)"
    if "find_index (\<lambda>b. cb_id b = i) (blocks_in s c) = Some j" for j k
  proof (rule canvas_fits_mset [OF _ assms])
    have "mset (splice_insert k (blocks_in s c ! j) (splice_remove j (blocks_in s c))) = mset (blocks_in s c)"
      using find_index_Some [OF that] by (simp add: mset_splice_remove)
    then show "mset (all_blocks (set_blocks s (splice_insert k (blocks_in s c ! j) (splice_remove j (blocks_in s c))) c)) =
        mset (all_blocks c)"
      using mset_set_blocks [of s "splice_insert k (blocks_in s c ! j) (splice_remove j (blocks_in s c))" c] by simp
  qed
  show "canvas_fits (moveBlockUp s i c)" "canvas_fits (moveBlockDown s i c)"
    using assms m by (auto simp: moveBlockUp_def moveBlockDown_def split: option.split)
qed

lemma removed_fits: "canvas_fits c \<Longrightarrow> canvas_fits (removeBlock s i c)"
  by (cases s) (auto simp: removeBlock_def canvas_fits_def canvas_ids_def all_blocks_def distinct_map_filter)

interpretation email_canvas: event_system canvas_guard canvas_perform canvas_fits
proof
  show "canvas_fits (canvas_perform e c)" if c: "canvas_fits c" and g: "canvas_guard c e" for c e
  proof (cases e)
    case (Column_Drop d i column now random)
    have "canvas_fits (update_block s i (add_nested b column) c)" for s b
      using add_nested_fits by (rule canvas_fits_update [OF c]) 
    with c Column_Drop show ?thesis by (auto simp: handleColumnBlockDrop_def Let_def split: option.split)
  next
    case (Style_Changed selected updates)
    have "canvas_fits (updateTextBlockStyles s i st c)" for s i st
      unfolding updateTextBlockStyles_def by (rule canvas_fits_update [OF c]) (auto simp: email_block_fits_def)
    with c Style_Changed show ?thesis by (simp add: handleStyleChange_def Let_def split: option.split prod.split)
  next
    case (Handle_Moved s i column delta)
    with c resized_fits show ?thesis by (simp add: updateLayoutColumns_def canvas_fits_update)
  next
    case (Columns_Chosen selected n)
    have "canvas_fits (update_block s i (\<lambda>b. Some (with_widths (Some n) (Some (even_widths n)) b)) c)" for s i
      using g Columns_Chosen even_widths_fill by (intro canvas_fits_update [OF c]) (auto simp: email_block_fits_def)
    with c Columns_Chosen show ?thesis by (simp add: handleLayoutColumnsChange_def split: option.split prod.split)
  qed (use c g in \<open>simp_all add: drop_fits removed_fits moved_up_down_fits\<close>)
qed


definition sample_canvas :: canvas_blocks where
  "sample_canvas = createDefaultCanvasBlocks 5"

definition sample_edits :: "canvas_event list" where
  "sample_edits =
     [Klaviyo_Drop (From_Sidebar ''Split'' (Some 3)) Body (Some 1) 8, Columns_Chosen (Some (Body, ''Split-8'')) 4,
      Drop (From_Sidebar ''Layout'' (Some 3)) Body None 9, Handle_Moved Body ''Layout-9'' 0 1,
      Columns_Chosen (Some (Body, ''Layout-9'')) 2, Handle_Moved Body ''Layout-9'' 0 2,
      Column_Drop (From_Sidebar ''Text'' None) ''Layout-9'' 1 10 ''ab'',
      Column_Drop (From_Sidebar ''Text'' None) ''Layout-9'' 1 10 ''ab'',
      Drop (From_Canvas ''Logo'' ''Logo-5-2'' Header) Footer (Some 0) 11, Move_Up Footer ''Paragraph-5-7'',
      Style_Changed (Some (Body, ''Heading-5-3'')) [(''textAlign'', JStr ''left'')], Remove_Block Body ''Button-5-5'']"

definition edited_canvas :: canvas_blocks where
  "edited_canvas = the (guarded_run canvas_guard canvas_perform sample_edits sample_canvas)"

lemma sample_canvas_fits: "canvas_fits (createDefaultCanvasBlocks timestamp)"
  by (simp add: canvas_fits_def canvas_ids_def all_blocks_def createDefaultCanvasBlocks_def default_block_def email_block_fits_def
      block_id_def nat_dec.simps digit_char_def)

lemma edited_canvas_reached: "reaches canvas_guard canvas_perform sample_canvas edited_canvas"
proof -
  have "guarded_run canvas_guard canvas_perform sample_edits sample_canvas \<noteq> None" by code_simp
  then show ?thesis by (auto simp: edited_canvas_def intro: guarded_run_reaches)
qed


text \<open>C35: a block dropped on a zone stands before the blocks that stood from there on and after those that stood before it,
  without itself in its old place; on no zone it stands last.  The other sections lose it and nothing else.\<close>

theorem dropped_block_stands_at_zone:
  assumes "distinct (canvas_ids c)" and "b \<in> set (blocks_in src c)" and "cb_id b \<noteq> []" and "cb_type b \<noteq> []"
  shows "blocks_in s (handleDrop (From_Canvas (cb_type b) (cb_id b) src) dst index now c) =
    (if s = dst then
       (let zone = (case index of Some i \<Rightarrow> i | None \<Rightarrow> length (blocks_in dst c))
        in filter (\<lambda>x. cb_id x \<noteq> cb_id b) (take zone (blocks_in dst c)) @ [b] @
           filter (\<lambda>x. cb_id x \<noteq> cb_id b) (drop zone (blocks_in dst c)))
     else filter (\<lambda>x. cb_id x \<noteq> cb_id b) (blocks_in s c))"
  using assms by (simp add: handleDrop_def move_block_blocks Let_def nullish_def)

theorem dropped_block_stands_at_zone_witness:
  "map cb_id (blocks_in Header (handleDrop (From_Canvas ''Button'' ''Button-5-5'' Body) Header (Some 1) 7 sample_canvas)) =
   [''Paragraph-5-1'', ''Button-5-5'', ''Logo-5-2'']"
proof -
  let ?b = "cv_body sample_canvas ! 2"
  have "distinct (canvas_ids sample_canvas)" using sample_canvas_fits [of 5] by (simp add: canvas_fits_def sample_canvas_def)
  moreover have b: "cb_id ?b = ''Button-5-5''" "cb_type ?b = ''Button''" and "?b \<in> set (blocks_in Body sample_canvas)"
    by code_simp+
  ultimately have "blocks_in Header (handleDrop (From_Canvas ''Button'' ''Button-5-5'' Body) Header (Some 1) 7 sample_canvas) =
      filter (\<lambda>x. cb_id x \<noteq> ''Button-5-5'') (take 1 (blocks_in Header sample_canvas)) @ [?b] @
      filter (\<lambda>x. cb_id x \<noteq> ''Button-5-5'') (drop 1 (blocks_in Header sample_canvas))"
    using dropped_block_stands_at_zone [of sample_canvas ?b Body Header Header "Some 1" 7] by (simp add: Let_def)
  moreover have "map cb_id (filter (\<lambda>x. cb_id x \<noteq> ''Button-5-5'') (take 1 (blocks_in Header sample_canvas)) @ [?b] @
      filter (\<lambda>x. cb_id x \<noteq> ''Button-5-5'') (drop 1 (blocks_in Header sample_canvas))) =
      [''Paragraph-5-1'', ''Button-5-5'', ''Logo-5-2'']" by code_simp
  ultimately show ?thesis by simp
qed

section \<open>Saving and opening\<close>

text \<open>What of a block the server keeps.\<close>

definition same_block :: "canvas_block \<Rightarrow> canvas_block \<Rightarrow> bool" where
  "same_block b b' \<longleftrightarrow>
     cb_type b = cb_type b' \<and> cb_columns b = cb_columns b' \<and> cb_widths b = cb_widths b' \<and> cb_styles b = cb_styles b' \<and>
     cb_nested b = cb_nested b' \<and> cb_rest b = cb_rest b'"

text \<open>The blocks of a section among the stored ones, in their order.\<close>

fun section_of_stored :: "canvas_section \<Rightarrow> stored_block list \<Rightarrow> canvas_block list" where
  "section_of_stored s [] = []"
| "section_of_stored s (b # bs) =
     (case kb_content b of
        None \<Rightarrow> section_of_stored s bs
      | Some content \<Rightarrow>
          if content_section content = s then loaded_block (kb_type b) (kb_id b) content # section_of_stored s bs
          else section_of_stored s bs)"

lemma load_blocks: "blocks_in s (foldl load_block c bs) = blocks_in s c @ section_of_stored s bs"
  by (induction bs arbitrary: c) (auto simp: load_block_def Let_def split: option.split)

lemma opened_section: "blocks_in s (contentBlocksToCanvasBlocks bs) = section_of_stored s (sort_key kb_order bs)"
  by (cases s) (simp_all add: contentBlocksToCanvasBlocks_def js_sort_diff load_blocks)

text \<open>What \<open>canvasBlocksToContentBlocks\<close> makes of one block.\<close>

definition draft_of :: "nat \<times> canvas_section \<times> canvas_block \<Rightarrow> draft_block" where
  "draft_of = (\<lambda>(i, s, b). \<lparr> kb_type = cb_type b, kb_content = Some (content_of s b), kb_order = int i \<rparr>)"

lemma saved_blocks: "canvasBlocksToContentBlocks c = map draft_of (enumerate 0 (canvas_order c))"
  by (simp add: canvasBlocksToContentBlocks_def draft_of_def)

lemma saved_orders: "map kb_order (canvasBlocksToContentBlocks c) = map int [0..<length (canvas_order c)]"
proof -
  have "map (\<lambda>x. kb_order (draft_of x)) (enumerate n xs) = map int [n..<n + length xs]" for n xs
    by (induction xs arbitrary: n) (auto simp: draft_of_def upt_rec)
  from this [of 0 "canvas_order c"] show ?thesis by (simp add: saved_blocks comp_def)
qed

text \<open>Any answer of the server that holds the drafts, sorted by their order, holds them as they were saved.\<close>

lemma stored_in_order:
  fixes bs :: "stored_block list"
  assumes "mset (map draft_block.truncate bs) = mset (canvasBlocksToContentBlocks c)"
  shows "map draft_block.truncate (sort_key kb_order bs) = canvasBlocksToContentBlocks c"
proof -
  have orders: "map kb_order (map draft_block.truncate xs) = map kb_order xs" for xs :: "stored_block list"
    by (simp add: draft_block.truncate_def)
  have "distinct (map kb_order (canvasBlocksToContentBlocks c))" by (simp add: saved_orders distinct_map inj_on_def)
  then have inj: "inj_on kb_order (set (canvasBlocksToContentBlocks c))" by (simp add: distinct_map)
  have "sorted (map kb_order (canvasBlocksToContentBlocks c))"
    by (simp add: saved_orders sorted_wrt_map sorted_wrt_upt [THEN sorted_wrt_mono_rel [rotated]])
  moreover have "sorted (map kb_order (map draft_block.truncate (sort_key kb_order bs)))" unfolding orders by simp
  moreover have "mset (map draft_block.truncate (sort_key kb_order bs)) = mset (canvasBlocksToContentBlocks c)"
    using assms by simp
  ultimately show ?thesis using inj
    by (metis mset_eq_setD sort_key_inj_key_eq)
qed

lemma content_section_of [simp]: "content_section (content_of s b) = s"
  by (cases s) (simp_all add: content_section_def content_of_def)

text \<open>A stored block whose draft was made of a block of a section shows that block there.\<close>

lemma loaded_saved:
  "list_all2 (\<lambda>b (i, s', x). draft_block.truncate b = draft_of (i, s', x)) bs ds \<Longrightarrow>
   list_all2 same_block (section_of_stored s bs) (map (snd \<circ> snd) (filter (\<lambda>(i, s', x). s' = s) ds))"
proof (induction rule: list_all2_induct)
  case (Cons b bs d ds)
  obtain i s' x where d: "d = (i, s', x)" by (cases d)
  then have "kb_type b = cb_type x" "kb_content b = Some (content_of s' x)"
    using Cons.hyps(1) by (simp_all add: draft_block.truncate_def draft_of_def)
  moreover have "same_block (loaded_block (cb_type x) j (content_of s' x)) x" for j
    by (simp add: same_block_def loaded_block_def content_of_def)
  ultimately show ?case using Cons.IH d by auto
qed simp

lemma order_of_section: "map (snd \<circ> snd) (filter (\<lambda>(i, s', x). s' = s) (enumerate n (canvas_order c))) = blocks_in s c"
proof -
  have e: "map (snd \<circ> snd) (filter (\<lambda>(i, s', x). s' = s) (enumerate n xs)) = map snd (filter (\<lambda>(s', x). s' = s) xs)"
    for xs :: "(canvas_section \<times> canvas_block) list" and s
    by (induction xs arbitrary: n) auto
  have f: "map snd (filter (\<lambda>(s', x). s' = s) (map (Pair t) bs)) = (if t = s then bs else [])" for t s bs
    by (induction bs) auto
  show ?thesis by (cases s) (simp_all add: e f canvas_order_def, simp_all add: comp_def)
qed

text \<open>The id a loaded block gets determines the stored block.\<close>

lemma loaded_id_inject: "0 \<le> i \<Longrightarrow> 0 \<le> j \<Longrightarrow> t @ ''-'' @ int_dec i = u @ ''-'' @ int_dec j \<longleftrightarrow> t = u \<and> i = j"
proof -
  assume i: "0 \<le> i" "0 \<le> j"
  have n: "CHR ''-'' \<notin> set (rev (nat_dec k))" for k
    using nat_dec_digits [of k] by (auto simp: all_digits_def list_all_iff is_digit_def code_of_def)
  have r: "rev (v @ ''-'' @ nat_dec k) = rev (nat_dec k) @ CHR ''-'' # rev v" for v k by simp
  have "t @ ''-'' @ int_dec i = u @ ''-'' @ int_dec j \<longleftrightarrow>
      rev (t @ ''-'' @ nat_dec (nat i)) = rev (u @ ''-'' @ nat_dec (nat j))"
    using i by (simp only: int_dec_def rev_is_rev_conv if_False linorder_not_less [THEN iffD2])
  also have "\<dots> \<longleftrightarrow>
      rev (nat_dec (nat i)) @ CHR ''-'' # rev t = rev (nat_dec (nat j)) @ CHR ''-'' # rev u" unfolding r ..
  also have "\<dots> \<longleftrightarrow> t = u \<and> i = j" using i by (auto simp: before_separator [OF n n])
  finally show ?thesis .
qed

lemma section_of_stored_ids:
  assumes "\<forall>b \<in> set bs. \<forall>content. kb_content b = Some content \<longrightarrow> ct_id content = None"
  shows "cb_id ` set (section_of_stored s bs) \<subseteq> (\<lambda>b. kb_type b @ ''-'' @ int_dec (kb_id b)) ` set bs"
  using assms by (induction bs) (auto simp: loaded_block_def split: option.splits if_splits)

lemma opened_ids:
  assumes "distinct (map kb_id bs)"
    and "\<forall>b \<in> set bs. 0 \<le> kb_id b \<and> (\<forall>content. kb_content b = Some content \<longrightarrow> ct_id content = None)"
  shows "distinct (canvas_ids (contentBlocksToCanvasBlocks bs))"
proof -
  have "distinct (map cb_id (section_of_stored Header xs @ section_of_stored Body xs @ section_of_stored Footer xs))"
    if "distinct (map kb_id xs)" "set xs \<subseteq> set bs" for xs
    using that
  proof (induction xs)
    case (Cons x xs)
    define ys where "ys = section_of_stored Header xs @ section_of_stored Body xs @ section_of_stored Footer xs"
    define zs where "zs = section_of_stored Header (x # xs) @ section_of_stored Body (x # xs) @ section_of_stored Footer (x # xs)"
    have d: "distinct (map cb_id ys)" using Cons by (simp add: ys_def)
    have "distinct (map cb_id zs)"
    proof (cases "kb_content x")
      case None
      with d show ?thesis by (simp add: zs_def ys_def)
    next
      case (Some content)
      have ids: "\<forall>b \<in> set xs. \<forall>content. kb_content b = Some content \<longrightarrow> ct_id content = None"
        using assms(2) Cons.prems(2) by auto
      have "kb_type x @ ''-'' @ int_dec (kb_id x) \<notin> (\<lambda>b. kb_type b @ ''-'' @ int_dec (kb_id b)) ` set xs"
      proof
        assume "kb_type x @ ''-'' @ int_dec (kb_id x) \<in> (\<lambda>b. kb_type b @ ''-'' @ int_dec (kb_id b)) ` set xs"
        then obtain y where y: "y \<in> set xs" and "kb_type x @ ''-'' @ int_dec (kb_id x) = kb_type y @ ''-'' @ int_dec (kb_id y)"
          by auto
        then have "kb_id x = kb_id y" using assms(2) Cons.prems(2) loaded_id_inject [of "kb_id x" "kb_id y"] by auto
        with y Cons.prems(1) show False by auto
      qed
      then have new: "kb_type x @ ''-'' @ int_dec (kb_id x) \<notin> cb_id ` set ys"
        using section_of_stored_ids [OF ids] by (auto simp: ys_def)
      have i: "cb_id (loaded_block (kb_type x) (kb_id x) content) = kb_type x @ ''-'' @ int_dec (kb_id x)"
      proof -
        have "x \<in> set bs" using Cons.prems(2) by simp
        with assms(2) Some have "ct_id content = None" by blast
        then show ?thesis by (simp add: loaded_block_def)
      qed
      have m: "mset zs = mset (loaded_block (kb_type x) (kb_id x) content # ys)"
        using Some by (cases "content_section content") (simp_all add: zs_def ys_def)
      have "distinct (map cb_id (loaded_block (kb_type x) (kb_id x) content # ys))" using d new i by simp
      with distinct_ids_mset [OF m] show ?thesis by blast
    qed
    then show ?case by (simp only: zs_def)
  qed simp
  moreover have "distinct (map kb_id (sort_key kb_order bs))" using assms(1) by (simp add: distinct_map)
  ultimately show ?thesis
    by (simp add: canvas_ids_def all_blocks_def opened_section [of Header, simplified] opened_section [of Body, simplified]
        opened_section [of Footer, simplified])
qed


definition served_blocks :: "draft_block list \<Rightarrow> stored_block list" where
  "served_blocks ds =
     rev (map (\<lambda>(i, d). draft_block.extend d \<lparr> kb_id = int i + 40 \<rparr>) (enumerate 0 ds))"


section \<open>What is lost\<close>

text \<open>A draft whose blocks were all removed shows the template again when it is opened.\<close>

lemma emptied_draft_gets_template_back:
  assumes "mset (map draft_block.truncate bs) = mset (canvasBlocksToContentBlocks c)" and "all_blocks c = []"
  shows "opened_draft now bs = createDefaultCanvasBlocks now"
  using assms by (simp add: saved_blocks canvas_order_def all_blocks_def opened_draft_def)

text \<open>A stored block whose content does not parse is not shown, and the next save stores the draft without it.\<close>

lemma unreadable_block_is_lost:
  "length (canvasBlocksToContentBlocks (contentBlocksToCanvasBlocks bs)) = length (filter (\<lambda>b. kb_content b \<noteq> None) bs)"
proof -
  have "length (section_of_stored Header xs) + length (section_of_stored Body xs) + length (section_of_stored Footer xs) =
      length (filter (\<lambda>b. kb_content b \<noteq> None) xs)" for xs
    by (induction xs) (auto split: option.split, metis canvas_section.exhaust)
  moreover have "length (filter P (sort_key kb_order bs)) = length (filter P bs)" for P
    by (metis mset_filter mset_sort size_mset)
  ultimately show ?thesis
    by (simp add: saved_blocks canvas_order_def opened_section [of Header, simplified] opened_section [of Body, simplified]
        opened_section [of Footer, simplified] add.assoc [symmetric])
qed

text \<open>The handle of a layout counts a refused movement as made: pulled four units to the right, which the right column has no
  room for, and back by one, it makes the left column narrower than it was.\<close>

lemma refused_pull_moves_other_way:
  "let layout = with_widths (Some 2) (Some [6, 6]) (new_block ''Layout'' None 1);
       start = (\<lparr> rd_column = 0, rd_accumulated = 0 \<rparr>, \<lparr> cv_header = [], cv_body = [layout], cv_footer = [] \<rparr>);
       pulled = resize_moved Body ''Layout-1'' 4 start;
       back = resize_moved Body ''Layout-1'' 3 pulled
   in map cb_widths (cv_body (snd pulled)) = [Some [6, 6]] \<and> map cb_widths (cv_body (snd back)) = [Some [5, 7]]"
  by code_simp

end
